(* ===== verification/Prelude.thy ===== *)
theory Prelude
  imports Main "HOL-Library.Word" "HOL-Library.Monad_Syntax" "HOL-Library.Char_ord"
    "HOL-Library.List_Lexorder" "HOL-Library.Multiset"
begin

text \<open>
  Shared vocabulary of the development: the machine integers of the source, the reading of a
  panic as \<open>None\<close>, the collections of simplification and case rules the component theories
  extend, and the generic facts on lists and options they share.

  Conventions. A Rust \<open>u8\<close>, \<open>u16\<close>, \<open>u32\<close> or \<open>u64\<close> is a word of that width; a \<open>usize\<close> that only
  counts or indexes is a \<open>nat\<close>. A Rust \<open>str\<close> is the list of its UTF-8 bytes (\<open>string\<close>), so
  lengths and the order of names are byte lengths and the byte order, as in Rust. A function of
  the source that can panic returns an option: \<open>None\<close> is the panic. A \<open>Result\<close> is a sum with the
  error on the left. A \<open>HashMap\<close> is a map \<open>'k \<rightharpoonup> 'v\<close>.
\<close>

type_synonym u8 = "8 word"
type_synonym u16 = "16 word"
type_synonym u32 = "32 word"
type_synonym u64 = "64 word"

named_theorems op_defs \<open>definitions of a component's operations, unfolded together\<close>
named_theorems frame_rules \<open>what an operation leaves unchanged\<close>
named_theorems handle_rules \<open>facts on handles into an arena\<close>

subsection \<open>Options as possibly panicking computations\<close>

lemma bind_Some_iff [simp]:
  "(Option.bind m f = Some y) = (\<exists>x. m = Some x \<and> f x = Some y)"
  by (cases m) auto

text \<open>
  \<open>traverse f xs\<close> runs \<open>f\<close> over \<open>xs\<close> from the left, as \<open>iter().map(f).collect()\<close> does with an \<open>f\<close>
  that may panic.
\<close>

fun traverse :: "('a \<Rightarrow> 'b option) \<Rightarrow> 'a list \<Rightarrow> 'b list option" where
  "traverse f [] = Some []"
| "traverse f (x # xs) =
     do { y \<leftarrow> f x; ys \<leftarrow> traverse f xs; Some (y # ys) }"

lemma traverse_same:
  "(\<And>x. x \<in> set ys \<Longrightarrow> f x = g x) \<Longrightarrow> traverse f ys = traverse g ys"
  by (induction ys) simp_all

lemma traverse_cong [fundef_cong]:
  "xs = ys \<Longrightarrow> (\<And>x. x \<in> set ys \<Longrightarrow> f x = g x) \<Longrightarrow> traverse f xs = traverse g ys"
  using traverse_same [of ys f g] by simp

lemma traverse_Some_iff:
  "(traverse f xs = Some ys) = (map f xs = map Some ys)"
proof (induction xs arbitrary: ys)
  case Nil
  then show ?case by auto
next
  case (Cons x xs)
  then show ?case by (cases ys) auto
qed

lemma traverse_SomeI:
  "(\<And>x. x \<in> set xs \<Longrightarrow> f x = Some (g x)) \<Longrightarrow> traverse f xs = Some (map g xs)"
  by (simp add: traverse_Some_iff)

lemma traverse_total:
  "(\<And>x. x \<in> set xs \<Longrightarrow> \<exists>y. f x = Some y) \<Longrightarrow> \<exists>ys. traverse f xs = Some ys"
  by (induction xs) auto

lemma traverse_length: "traverse f xs = Some ys \<Longrightarrow> length ys = length xs"
  by (auto simp: traverse_Some_iff dest: map_eq_imp_length_eq)

lemma traverse_nth:
  assumes "traverse f xs = Some ys" and "i < length xs"
  shows "f (xs ! i) = Some (ys ! i)"
proof -
  from assms(1) have "map f xs = map Some ys" by (simp add: traverse_Some_iff)
  then have "map f xs ! i = map Some ys ! i" by simp
  with assms show ?thesis by (simp add: traverse_length)
qed

lemma traverse_set:
  assumes "traverse f xs = Some ys" and "y \<in> set ys"
  obtains x where "x \<in> set xs" and "f x = Some y"
proof -
  from assms(2) obtain i where "i < length ys" and "y = ys ! i"
    by (auto simp: in_set_conv_nth)
  with assms(1) show thesis
    by (auto intro!: that [of "xs ! i"] simp: traverse_length dest: traverse_nth)
qed

lemma traverse_set':
  assumes "traverse f xs = Some ys" and "x \<in> set xs"
  obtains y where "y \<in> set ys" and "f x = Some y"
proof -
  from assms(2) obtain i where "i < length xs" and "x = xs ! i"
    by (auto simp: in_set_conv_nth)
  with assms(1) show thesis
    by (auto intro!: that [of "ys ! i"] simp: traverse_length dest: traverse_nth)
qed

lemma traverse_map: "traverse f (map g xs) = traverse (\<lambda>x. f (g x)) xs"
  by (induction xs) auto

lemma traverse_map_option:
  "traverse (\<lambda>x. map_option h (f x)) xs = map_option (map h) (traverse f xs)"
proof (induction xs)
  case (Cons x xs)
  then show ?case by (cases "f x"; cases "traverse f xs") simp_all
qed simp

lemma traverse_mono:
  assumes "traverse f xs = Some ys" and "\<And>x y. x \<in> set xs \<Longrightarrow> f x = Some y \<Longrightarrow> g x = Some y"
  shows "traverse g xs = Some ys"
  using assms by (induction xs arbitrary: ys) auto

lemma traverse_list_all:
  assumes "traverse f xs = Some ys" and "\<And>x y. x \<in> set xs \<Longrightarrow> f x = Some y \<Longrightarrow> P y"
  shows "list_all P ys"
  using assms by (induction xs arbitrary: ys) fastforce+

lemma traverse_perm:
  "mset xs = mset xs' \<Longrightarrow> traverse f xs = Some ys
   \<Longrightarrow> \<exists>ys'. traverse f xs' = Some ys' \<and> mset ys' = mset ys"
proof -
  assume perm: "mset xs = mset xs'" and run: "traverse f xs = Some ys"
  then have "\<forall>x \<in> set xs. f x \<noteq> None" by (metis map_eq_conv option.distinct(1) run traverse_set')
  moreover have "set xs = set xs'" using perm by (rule mset_eq_setD)
  ultimately have all: "f x = Some (the (f x))" if "x \<in> set xs \<union> set xs'" for x using that by auto
  have "traverse f xs = Some (map (\<lambda>x. the (f x)) xs)" "traverse f xs' = Some (map (\<lambda>x. the (f x)) xs')"
    by (rule traverse_SomeI; use all in simp)+
  moreover have "mset (map (\<lambda>x. the (f x)) xs) = mset (map (\<lambda>x. the (f x)) xs')"
    unfolding mset_map perm ..
  ultimately show ?thesis using run by simp
qed

subsection \<open>Sorting by a key\<close>

lemma insort_key_map:
  "(\<And>x. k (g x) = k x) \<Longrightarrow> insort_key k (g x) (map g xs) = map g (insort_key k x xs)"
  by (induction xs) simp_all

lemma sort_key_map: "(\<And>x. k (g x) = k x) \<Longrightarrow> sort_key k (map g xs) = map g (sort_key k xs)"
  by (induction xs) (simp_all add: insort_key_map)

text \<open>With distinct keys the sorted list does not depend on the order given.\<close>

lemma sort_key_perm:
  assumes "mset xs = mset ys" and "distinct (map k xs)"
  shows "sort_key k xs = sort_key k ys"
proof (rule sort_key_inj_key_eq)
  show "mset xs = mset (sort_key k ys)" using assms(1) by simp
  show "inj_on k (set xs)" using assms(2) by (simp add: distinct_map)
  show "sorted (map k (sort_key k ys))" by simp
qed

subsection \<open>Words\<close>

lemma unat_of_nat_u32 [simp]: "n < 4294967296 \<Longrightarrow> unat (of_nat n :: u32) = n"
  by (simp add: unsigned_of_nat take_bit_nat_eq_self)

lemma unat_less_u32 [simp]: "unat (w :: u32) < 4294967296"
  using unsigned_less [of w] by simp

lemma unat_less_u64 [simp]: "unat (w :: u64) < 18446744073709551616"
  using unsigned_less [of w] by simp

definition saturating_add :: "u64 \<Rightarrow> u64 \<Rightarrow> u64" where
  "saturating_add a b = (if unat a + unat b < 2 ^ 64 then a + b else - 1)"

definition saturating_sub :: "u64 \<Rightarrow> u64 \<Rightarrow> u64" where
  "saturating_sub a b = (if b \<le> a then a - b else 0)"

lemma unat_minus_one_u64: "unat (- 1 :: u64) = 2 ^ 64 - 1"
  by (simp add: unsigned_minus_1_eq_mask mask_eq_exp_minus_1)

lemma unat_saturating_add: "unat (saturating_add a b) = min (unat a + unat b) (2 ^ 64 - 1)"
proof (cases "unat a + unat b < 2 ^ 64")
  case True
  then have "unat (a + b) = unat a + unat b" by (simp add: unat_plus_if')
  with True show ?thesis by (simp add: saturating_add_def)
next
  case False
  then show ?thesis by (simp add: saturating_add_def unat_minus_one_u64)
qed

lemma unat_saturating_sub: "unat (saturating_sub a b) = unat a - unat b"
  by (auto simp: saturating_sub_def unat_sub_if_size word_le_nat_alt)

subsection \<open>Ordered maps\<close>

text \<open>A \<open>BTreeMap\<close> is its list of entries by increasing key.\<close>

fun btree_insert :: "'k :: linorder \<Rightarrow> 'v \<Rightarrow> ('k \<times> 'v) list \<Rightarrow> ('k \<times> 'v) list" where
  "btree_insert k v [] = [(k, v)]"
| "btree_insert k v ((k', v') # m) =
     (if k < k' then (k, v) # (k', v') # m
      else if k = k' then (k, v) # m
      else (k', v') # btree_insert k v m)"

definition btree_ok :: "('k :: linorder \<times> 'v) list \<Rightarrow> bool" where
  "btree_ok m = sorted_wrt (<) (map fst m)"

lemma btree_ok_Nil [simp]: "btree_ok []"
  by (simp add: btree_ok_def)

lemma btree_insert_keys: "set (map fst (btree_insert k v m)) = insert k (set (map fst m))"
proof (induction m)
  case (Cons e m)
  obtain k' v' where "e = (k', v')" by (cases e)
  with Cons show ?case by (simp add: insert_commute)
qed simp

lemma btree_insert_ok [intro]: "btree_ok m \<Longrightarrow> btree_ok (btree_insert k v m)"
proof (induction m)
  case (Cons e m)
  obtain k' v' where e: "e = (k', v')" by (cases e)
  have "set (map fst (btree_insert k v m)) = insert k (set (map fst m))" by (rule btree_insert_keys)
  with Cons e show ?case by (auto simp: btree_ok_def)
qed (simp add: btree_ok_def)

lemma btree_insert_map_of: "btree_ok m \<Longrightarrow> map_of (btree_insert k v m) = (map_of m)(k \<mapsto> v)"
proof (induction m)
  case (Cons e m)
  then have IH: "map_of (btree_insert k v m) = (map_of m)(k \<mapsto> v)"
    by (simp only: btree_ok_def list.map sorted_wrt.simps simp_thms)
  obtain k' v' where e: "e = (k', v')" by (cases e)
  show ?case using IH by (auto simp: e fun_upd_twist)
qed simp

lemma btree_distinct: "btree_ok m \<Longrightarrow> distinct (map fst m)"
  by (simp add: btree_ok_def strict_sorted_iff)

lemma btree_entry: "btree_ok m \<Longrightarrow> (k, v) \<in> set m \<longleftrightarrow> map_of m k = Some v"
  using map_of_eq_Some_iff [OF btree_distinct] by metis

text \<open>A part of a map's entries, projected to names, is still strictly sorted.\<close>

lemma btree_filter_sorted: "btree_ok m \<Longrightarrow> sorted_wrt (<) (map fst (filter P m))"
  by (induction m) (auto simp: btree_ok_def)

subsection \<open>Printing\<close>

definition digit_char :: "nat \<Rightarrow> char" where
  "digit_char d = (if d < 10 then char_of (48 + d) else char_of (87 + d))"

text \<open>The digits of a number in a base between 2 and 16, as the \<open>Display\<close> of an integer prints it.\<close>

fun show_base :: "nat \<Rightarrow> nat \<Rightarrow> string" where
  "show_base b n =
     (if n < b \<or> b < 2 then [digit_char n] else show_base b (n div b) @ [digit_char (n mod b)])"

declare show_base.simps [simp del]

definition show_nat :: "nat \<Rightarrow> string" where
  "show_nat n = show_base 10 n"

subsection \<open>Closed enumerations\<close>

text \<open>
  The \<open>IntoPrimitive\<close> and \<open>TryFromPrimitive\<close> derives: a variant is its discriminant, and a raw
  value is the variant that carries it, if any. \<open>variants\<close> is the \<open>VariantArray\<close> listing.
\<close>

definition try_from :: "('a \<Rightarrow> 'n) \<Rightarrow> 'a list \<Rightarrow> 'n \<Rightarrow> 'a option" where
  "try_from code variants n = List.find (\<lambda>v. code v = n) variants"

locale closed_enum =
  fixes code :: "'a \<Rightarrow> 'n" and variants :: "'a list"
  assumes distinct_codes: "distinct (map code variants)"
    and all_variants: "v \<in> set variants"
begin

lemma code_inj: "code v = code w \<Longrightarrow> v = w"
  using distinct_codes all_variants by (metis distinct_map inj_onD)

lemma try_from_Some_iff: "try_from code variants n = Some v \<longleftrightarrow> code v = n"
proof
  assume "try_from code variants n = Some v"
  then show "code v = n" by (auto simp: try_from_def find_Some_iff)
next
  assume n: "code v = n"
  then have "List.find (\<lambda>w. code w = n) variants \<noteq> None"
    using all_variants [of v] by (auto simp: find_None_iff)
  then obtain w where w: "List.find (\<lambda>w. code w = n) variants = Some w" by blast
  then have "code w = n" by (auto simp: find_Some_iff)
  with n have "w = v" by (auto intro: code_inj)
  with w show "try_from code variants n = Some v" by (simp add: try_from_def)
qed

lemma try_from_code: "try_from code variants (code v) = Some v"
  by (simp add: try_from_Some_iff)

lemma try_from_None_iff: "try_from code variants n = None \<longleftrightarrow> n \<notin> set (map code variants)"
  by (auto simp: try_from_def find_None_iff)

end

subsection \<open>Sets of flags\<close>

unbundle bit_operations_syntax

text \<open>\<open>contains\<close> of a set of flags.\<close>

definition contains_flag :: "'a::len word \<Rightarrow> 'a word \<Rightarrow> bool" where
  "contains_flag flags f \<longleftrightarrow> flags AND f = f"

lemma contains_flag_bit:
  fixes w :: "'a::len word"
  assumes "n < LENGTH('a)"
  shows "contains_flag w (2 ^ n) \<longleftrightarrow> bit w n"
proof -
  have "w AND 2 ^ n = (if bit w n then 2 ^ n else 0)"
    by (rule bit_eqI) (auto simp: bit_simps)
  with assms show ?thesis by (auto simp: contains_flag_def)
qed

end
