(* ===== verification/Arena.thy ===== *)
theory Arena
  imports Prelude
begin

text \<open>
  \<open>crates/idakit/src/arena.rs\<close>: the append-only arena every materialised graph lives in, and its
  32-bit handles. The phantom type of \<open>Idx<T>\<close> is not modelled: a handle is its \<open>raw\<close> value.

  The two interfaces the other components rely on are stated here as locales: \<open>append_store\<close>, a
  store that hands out a fresh stable handle per value, and \<open>interner\<close>, a store that collapses
  equal values to one handle. The arena provides the first here, the type table the second in
  \<open>Types\<close>.
\<close>

type_synonym idx = u32

record 'a arena =
  arena_data :: "'a list"

definition from_index :: "nat \<Rightarrow> idx option" where
  "from_index index = (if index < 2 ^ 32 then Some (of_nat index) else None)"

definition idx_index :: "idx \<Rightarrow> nat" where
  "idx_index i = unat i"

definition arena_new :: "'a arena" where
  "arena_new = \<lparr>arena_data = []\<rparr>"

definition arena_alloc :: "'a \<Rightarrow> 'a arena \<Rightarrow> (idx \<times> 'a arena) option" where
  "arena_alloc value a =
     do { i \<leftarrow> from_index (length (arena_data a));
          Some (i, a\<lparr>arena_data := arena_data a @ [value]\<rparr>) }"

definition arena_len :: "'a arena \<Rightarrow> nat" where
  "arena_len a = length (arena_data a)"

definition arena_is_empty :: "'a arena \<Rightarrow> bool" where
  "arena_is_empty a = (arena_data a = [])"

text \<open>\<open>iter\<close> re-derives each handle from the position, so it panics where \<open>alloc\<close> would have.\<close>

definition arena_iter :: "'a arena \<Rightarrow> (idx \<times> 'a) list option" where
  "arena_iter a =
     traverse (\<lambda>(i, v). do { k \<leftarrow> from_index i; Some (k, v) }) (enumerate 0 (arena_data a))"

text \<open>\<open>Index\<close> and \<open>IndexMut\<close>: a handle past the end panics.\<close>

definition arena_get :: "'a arena \<Rightarrow> idx \<Rightarrow> 'a option" where
  "arena_get a i =
     (if idx_index i < length (arena_data a) then Some (arena_data a ! idx_index i) else None)"

definition arena_set :: "idx \<Rightarrow> 'a \<Rightarrow> 'a arena \<Rightarrow> 'a arena option" where
  "arena_set i value a =
     (if idx_index i < length (arena_data a)
      then Some (a\<lparr>arena_data := (arena_data a)[idx_index i := value]\<rparr>) else None)"

lemmas arena_defs = arena_new_def arena_alloc_def arena_len_def arena_is_empty_def
  arena_get_def arena_set_def from_index_def idx_index_def

subsection \<open>The interface of a store that only appends\<close>

text \<open>Allocating a list of values from the left, collecting the handles.\<close>

fun alloc_all :: "('v \<Rightarrow> 's \<Rightarrow> (idx \<times> 's) option) \<Rightarrow> 'v list \<Rightarrow> 's \<Rightarrow> (idx list \<times> 's) option" where
  "alloc_all alloc [] s = Some ([], s)"
| "alloc_all alloc (v # vs) s =
     do { (i, s1) \<leftarrow> alloc v s; (is, s2) \<leftarrow> alloc_all alloc vs s1; Some (i # is, s2) }"

locale append_store =
  fixes alloc :: "'v \<Rightarrow> 's \<Rightarrow> (idx \<times> 's) option"
    and look :: "'s \<Rightarrow> idx \<Rightarrow> 'v option"
  assumes alloc_fresh: "alloc v s = Some (i, s') \<Longrightarrow> look s i = None"
    and alloc_look: "alloc v s = Some (i, s') \<Longrightarrow> look s' = (look s)(i \<mapsto> v)"
begin

lemma alloc_stable: "alloc v s = Some (i, s') \<Longrightarrow> look s j = Some w \<Longrightarrow> look s' j = Some w"
  using alloc_fresh [of v s i s'] by (cases "i = j") (auto simp: alloc_look)

lemma alloc_all_stable:
  "alloc_all alloc vs s = Some (is, s') \<Longrightarrow> look s j = Some w \<Longrightarrow> look s' j = Some w"
  by (induction vs arbitrary: s "is") (auto dest: alloc_stable)

lemma alloc_all_fresh:
  "alloc_all alloc vs s = Some (is, s') \<Longrightarrow> i \<in> set is \<Longrightarrow> look s i = None"
proof (induction vs arbitrary: s "is")
  case (Cons v vs)
  then obtain k s1 ks where step: "alloc v s = Some (k, s1)" "alloc_all alloc vs s1 = Some (ks, s')"
    "is = k # ks" by auto
  show ?case
  proof (cases "i = k")
    case True
    with step show ?thesis by (simp add: alloc_fresh)
  next
    case False
    with Cons step have "look s1 i = None" by auto
    with step False show ?thesis by (auto simp: alloc_look)
  qed
qed auto

text \<open>The handles of a run of allocations are distinct and read the values back, in order.\<close>

lemma alloc_all_handles:
  "alloc_all alloc vs s = Some (is, s') \<Longrightarrow> distinct is \<and> map (look s') is = map Some vs"
proof (induction vs arbitrary: s "is")
  case (Cons v vs)
  then obtain k s1 ks where step: "alloc v s = Some (k, s1)" "alloc_all alloc vs s1 = Some (ks, s')"
    "is = k # ks" by auto
  from step(1) have k: "look s1 k = Some v" by (simp add: alloc_look)
  with alloc_all_fresh [OF step(2)] have "k \<notin> set ks" by auto
  moreover from alloc_all_stable [OF step(2) k] have "look s' k = Some v" .
  ultimately show ?case using Cons.IH [OF step(2)] step(3) by simp
qed auto

end

lemma arena_get_alloc:
  assumes "arena_alloc v a = Some (i, a')"
  shows "arena_get a' = (arena_get a)(i \<mapsto> v)"
proof
  fix j
  from assms have i: "i = of_nat (length (arena_data a))" "length (arena_data a) < 4294967296"
    and a': "arena_data a' = arena_data a @ [v]"
    by (auto simp: arena_defs split: if_splits)
  show "arena_get a' j = ((arena_get a)(i \<mapsto> v)) j"
  proof (cases "j = i")
    case True
    with i a' show ?thesis by (simp add: arena_defs)
  next
    case False
    then have "unat j \<noteq> unat i" by (simp add: word_unat_eq_iff)
    with i have "unat j \<noteq> length (arena_data a)" by simp
    with False a' show ?thesis by (auto simp: arena_defs nth_append)
  qed
qed

lemma arena_alloc_fresh: "arena_alloc v a = Some (i, a') \<Longrightarrow> arena_get a i = None"
  by (auto simp: arena_defs split: if_splits)

interpretation arena_store: append_store arena_alloc arena_get
  by unfold_locales (auto simp: arena_get_alloc arena_alloc_fresh)

lemma arena_get_new [simp]: "arena_get arena_new i = None"
  by (simp add: arena_defs)

lemma arena_get_set:
  "arena_set i v a = Some a' \<Longrightarrow> arena_get a' = (arena_get a)(i \<mapsto> v)"
  by (rule ext) (auto simp: arena_defs word_unat_eq_iff split: if_splits)

lemma arena_set_Some_iff: "(\<exists>a'. arena_set i v a = Some a') = (arena_get a i \<noteq> None)"
  by (auto simp: arena_defs)

lemma arena_len_alloc: "arena_alloc v a = Some (i, a') \<Longrightarrow> arena_len a' = Suc (arena_len a)"
  by (auto simp: arena_defs split: if_splits)

lemma arena_len_set: "arena_set i v a = Some a' \<Longrightarrow> arena_len a' = arena_len a"
  by (auto simp: arena_defs split: if_splits)

lemma arena_alloc_Some_iff:
  "(\<exists>i a'. arena_alloc v a = Some (i, a')) = (arena_len a < 2 ^ 32)"
  by (auto simp: arena_defs)

lemma arena_alloc_bound: "arena_alloc v a = Some (i, a') \<Longrightarrow> arena_len a < 2 ^ 32"
  by (auto simp: arena_defs split: if_splits)

lemma arena_alloc_index: "arena_alloc v a = Some (i, a') \<Longrightarrow> unat i = arena_len a"
  by (auto simp: arena_defs split: if_splits)

lemma arena_get_Some_iff: "(\<exists>v. arena_get a i = Some v) = (unat i < arena_len a)"
  by (auto simp: arena_defs)

lemma arena_get_None_iff: "(arena_get a i = None) = (arena_len a \<le> unat i)"
  by (auto simp: arena_defs)

subsection \<open>The interface of an interning store\<close>

locale interner =
  fixes intern :: "'v \<Rightarrow> 's \<Rightarrow> (idx \<times> 's) option"
    and look :: "'s \<Rightarrow> idx \<Rightarrow> 'v option"
    and memo :: "'s \<Rightarrow> 'v \<Rightarrow> idx option"
    and inv :: "'s \<Rightarrow> bool"
  assumes intern_inv: "inv s \<Longrightarrow> intern v s = Some (i, s') \<Longrightarrow> inv s'"
    and memo_look: "inv s \<Longrightarrow> memo s v = Some i \<Longrightarrow> look s i = Some v"
    and intern_memo: "intern v s = Some (i, s') \<Longrightarrow> memo s' = (memo s)(v \<mapsto> i)"
    and intern_hit: "memo s v = Some i \<Longrightarrow> intern v s = Some (i, s)"
    and intern_stable: "inv s \<Longrightarrow> intern v s = Some (i, s') \<Longrightarrow> look s j = Some w
      \<Longrightarrow> look s' j = Some w"
begin

lemma intern_look: "inv s \<Longrightarrow> intern v s = Some (i, s') \<Longrightarrow> look s' i = Some v"
  by (rule memo_look) (auto simp: intern_memo intro: intern_inv)

lemma memo_stable:
  assumes "intern w s = Some (j, s')" and "memo s v = Some i"
  shows "memo s' v = Some i"
proof (cases "v = w")
  case True
  with intern_hit [OF assms(2)] assms(1) have "s' = s" by simp
  with assms(2) show ?thesis by simp
next
  case False
  with intern_memo [OF assms(1)] assms(2) show ?thesis by simp
qed

lemma intern_idem: "intern v s = Some (i, s') \<Longrightarrow> intern v s' = Some (i, s')"
  by (simp add: intern_hit intern_memo)

lemma intern_all_inv: "inv s \<Longrightarrow> alloc_all intern vs s = Some (is, s') \<Longrightarrow> inv s'"
  by (induction vs arbitrary: s "is") (auto dest: intern_inv)

lemma intern_all_memo_stable:
  "alloc_all intern vs s = Some (is, s') \<Longrightarrow> memo s v = Some i \<Longrightarrow> memo s' v = Some i"
  by (induction vs arbitrary: s "is") (auto dest: memo_stable)

lemma intern_all_memo:
  "alloc_all intern vs s = Some (is, s') \<Longrightarrow> map (memo s') vs = map Some is"
proof (induction vs arbitrary: s "is")
  case (Cons v vs)
  then obtain k s1 ks where step: "intern v s = Some (k, s1)" "alloc_all intern vs s1 = Some (ks, s')"
    "is = k # ks" by auto
  from step(1) have "memo s1 v = Some k" by (simp add: intern_memo)
  with step Cons.IH [OF step(2)] intern_all_memo_stable [OF step(2)] show ?case by simp
qed auto

lemma intern_all_look:
  assumes "inv s" and "alloc_all intern vs s = Some (is, s')"
  shows "map (look s') is = map Some vs"
proof (rule nth_equalityI)
  have len: "length is = length vs" 
    using map_eq_imp_length_eq [OF intern_all_memo [OF assms(2)]] by simp
  then show "length (map (look s') is) = length (map Some vs)" by simp
  fix n assume "n < length (map (look s') is)"
  then have n: "n < length is" "n < length vs" using len by simp_all
  with arg_cong [OF intern_all_memo [OF assms(2)], of "\<lambda>xs. xs ! n"]
  have "memo s' (vs ! n) = Some (is ! n)" by simp
  with memo_look [OF intern_all_inv [OF assms]] n show "map (look s') is ! n = map Some vs ! n"
    by simp
qed

text \<open>Interned values share a handle exactly when they are equal.\<close>

lemma intern_all_eq_iff:
  assumes "inv s" and "alloc_all intern vs s = Some (is, s')"
    and "m < length vs" and "n < length vs"
  shows "is ! m = is ! n \<longleftrightarrow> vs ! m = vs ! n"
proof -
  have len: "length is = length vs" 
    using map_eq_imp_length_eq [OF intern_all_memo [OF assms(2)]] by simp
  have memo: "memo s' (vs ! k) = Some (is ! k)" if "k < length vs" for k
    using arg_cong [OF intern_all_memo [OF assms(2)], of "\<lambda>xs. xs ! k"] that len by simp
  have look: "look s' (is ! k) = Some (vs ! k)" if "k < length vs" for k
    using memo_look [OF intern_all_inv [OF assms(1,2)]] memo [OF that] .
  show ?thesis
  proof
    assume "is ! m = is ! n"
    with look [OF assms(3)] look [OF assms(4)] show "vs ! m = vs ! n" by simp
  next
    assume "vs ! m = vs ! n"
    with memo [OF assms(3)] memo [OF assms(4)] show "is ! m = is ! n" by simp
  qed
qed

end

end
