(* ===== verification/Address.thy ===== *)
theory Address
  imports Prelude
begin

unbundle bit_operations_syntax

text \<open>
  \<open>crates/idakit/src/address.rs\<close>: an effective address that is never the \<open>BADADDR\<close> sentinel. The
  source keeps \<open>!raw\<close> in a \<open>NonZeroU64\<close>; the model keeps the same complement, and
  \<open>valid_address\<close> is what the \<open>NonZeroU64\<close> guarantees of it. The order is the hand-written one, by
  the real address, as an instance of \<open>linorder\<close>.
\<close>

definition BADADDR :: u64 where
  "BADADDR = - 1"

definition MAX_EA :: u64 where
  "MAX_EA = BADADDR - 1"

datatype address = Address (niche: u64)

definition valid_address :: "address \<Rightarrow> bool" where
  "valid_address a \<longleftrightarrow> niche a \<noteq> 0"

definition try_new :: "u64 \<Rightarrow> address option" where
  "try_new raw = (if NOT raw = 0 then None else Some (Address (NOT raw)))"

text \<open>\<open>new_const\<close> panics on the sentinel.\<close>

definition new_const :: "u64 \<Rightarrow> address option" where
  "new_const raw = (case try_new raw of Some a \<Rightarrow> Some a | None \<Rightarrow> None)"

definition address_get :: "address \<Rightarrow> u64" where
  "address_get a = NOT (niche a)"

text \<open>\<open>Ord\<close> and \<open>PartialOrd\<close>: the order of the real addresses.\<close>

definition address_le :: "address \<Rightarrow> address \<Rightarrow> bool" where
  "address_le a b \<longleftrightarrow> address_get a \<le> address_get b"

definition address_lt :: "address \<Rightarrow> address \<Rightarrow> bool" where
  "address_lt a b \<longleftrightarrow> address_get a < address_get b"

instantiation address :: linorder
begin

definition less_eq_address :: "address \<Rightarrow> address \<Rightarrow> bool" where
  "less_eq_address a b \<longleftrightarrow> address_le a b"

definition less_address :: "address \<Rightarrow> address \<Rightarrow> bool" where
  "less_address a b \<longleftrightarrow> address_lt a b"

instance
proof
  fix a b :: address
  show "a \<le> b \<Longrightarrow> b \<le> a \<Longrightarrow> a = b"
    by (cases a; cases b) (simp add: less_eq_address_def address_le_def address_get_def)
qed (auto simp: less_eq_address_def less_address_def address_le_def address_lt_def)

end

lemma address_le_iff: "a \<le> b \<longleftrightarrow> address_get a \<le> address_get b"
  by (simp add: less_eq_address_def address_le_def)

lemma address_less_iff: "a < b \<longleftrightarrow> address_get a < address_get b"
  by (simp add: less_address_def address_lt_def)

text \<open>\<open>impl Add<u64>\<close>: advance, saturating below the sentinel; the \<open>expect\<close> is the option.\<close>

definition address_add :: "address \<Rightarrow> u64 \<Rightarrow> address option" where
  "address_add a bytes =
     (let clamped = min (saturating_add (address_get a) bytes) MAX_EA
      in try_new clamped)"

definition distance_to :: "address \<Rightarrow> address \<Rightarrow> u64" where
  "distance_to a end_address = saturating_sub (address_get end_address) (address_get a)"

text \<open>The serde form is the real address, and any value but the sentinel reads back.\<close>

definition serialize_address :: "address \<Rightarrow> u64" where
  "serialize_address a = address_get a"

definition deserialize_address :: "u64 \<Rightarrow> string + address" where
  "deserialize_address raw =
     (case try_new raw of
        Some a \<Rightarrow> Inr a
      | None \<Rightarrow> Inl ''address is the BADADDR sentinel'')"

subsection \<open>Lemmas\<close>

lemma not_eq_zero_iff: "NOT (w :: u64) = 0 \<longleftrightarrow> w = BADADDR"
proof -
  have "NOT w = NOT (- 1) \<longleftrightarrow> w = - 1" by (rule bit.compl_eq_compl_iff)
  then show ?thesis by (simp add: BADADDR_def)
qed

lemma try_new_None_iff [simp]: "try_new raw = None \<longleftrightarrow> raw = BADADDR"
  by (simp add: try_new_def not_eq_zero_iff)

lemma try_new_BADADDR [simp]: "try_new BADADDR = None"
  by simp

lemma try_new_Some_iff: "try_new raw = Some a \<longleftrightarrow> valid_address a \<and> address_get a = raw"
  by (cases a) (auto simp: try_new_def valid_address_def address_get_def)

lemma try_new_get: "valid_address a \<Longrightarrow> try_new (address_get a) = Some a"
  by (simp add: try_new_Some_iff)

lemma get_ne_BADADDR: "valid_address a \<Longrightarrow> address_get a \<noteq> BADADDR"
  using try_new_get [of a] try_new_None_iff [of "address_get a"] by simp

lemma unat_BADADDR: "unat BADADDR = 2 ^ 64 - 1"
  by (simp add: BADADDR_def unat_minus_one_u64)

lemma unat_MAX_EA: "unat MAX_EA = 2 ^ 64 - 2"
  by (simp add: MAX_EA_def BADADDR_def)

lemma unat_min_u64: "unat (min a b :: u64) = min (unat a) (unat b)"
  by (auto simp: min_def word_le_nat_alt)

lemma get_inj: "address_get a = address_get b \<Longrightarrow> a = b"
  by (cases a; cases b) (simp add: address_get_def)

lemma get_le_MAX_EA: "valid_address a \<Longrightarrow> unat (address_get a) \<le> 2 ^ 64 - 2"
proof -
  assume "valid_address a"
  then have "unat (address_get a) \<noteq> unat BADADDR"
    using get_ne_BADADDR by (simp add: word_unat_eq_iff)
  then have "unat (address_get a) \<noteq> 18446744073709551615" by (simp add: unat_BADADDR)
  with unat_less_u64 [of "address_get a"]
  have "unat (address_get a) \<le> 18446744073709551614" by linarith
  then show ?thesis by simp
qed

subsection \<open>Properties\<close>

text \<open>
  Wrapping a raw address fails exactly on the sentinel, every other value reads back as it
  was wrapped, and the address built is valid.
\<close>

theorem try_new_roundtrip:
  "(case try_new raw of
      None \<Rightarrow> raw = BADADDR
    | Some a \<Rightarrow> raw \<noteq> BADADDR \<and> valid_address a \<and> address_get a = raw)"
  using try_new_None_iff [of raw]
  by (auto simp: try_new_Some_iff dest: get_ne_BADADDR split: option.splits)

lemma add_lands:
  assumes "valid_address a"
  shows "\<exists>b. address_add a n = Some b \<and> valid_address b \<and> a \<le> b \<and>
    unat (address_get b) = min (unat (address_get a) + unat n) (2 ^ 64 - 2)"
proof -
  define c where "c = min (saturating_add (address_get a) n) MAX_EA"
  have c: "unat c = min (unat (address_get a) + unat n) (2 ^ 64 - 2)"
    by (simp add: c_def unat_min_u64 unat_saturating_add unat_MAX_EA)
  then have "unat c \<noteq> unat BADADDR" by (simp add: unat_BADADDR)
  then have "c \<noteq> BADADDR" by auto
  then obtain b where b: "try_new c = Some b" by (cases "try_new c") auto
  then have "address_add a n = Some b" by (simp add: address_add_def c_def Let_def)
  moreover have "a \<le> b"
    using b c get_le_MAX_EA [OF assms]
    by (simp add: address_le_iff word_le_nat_alt try_new_Some_iff)
  ultimately show ?thesis using b c by (auto simp: try_new_Some_iff)
qed

text \<open>
  Advancing a valid address never panics, lands on a valid address, and moves by the byte
  count clamped to the last address below the sentinel.
\<close>

theorem address_add_clamps:
  assumes "valid_address a"
  shows "\<exists>b. address_add a n = Some b \<and> valid_address b \<and> a \<le> b \<and>
    unat (address_get b) = min (unat (address_get a) + unat n) (2 ^ 64 - 2)"
  by (rule add_lands [OF assms])

theorem address_add_clamps_witness:
  "valid_address (Address (NOT 4096)) \<and>
   (\<exists>b. address_add (Address (NOT 4096)) 16 = Some b \<and> valid_address b)"
proof -
  have v: "valid_address (Address (NOT 4096))" by (simp add: valid_address_def)
  with address_add_clamps [OF v, of 16] show ?thesis by blast
qed

text \<open>
  \<open>distance_to\<close> is the inverse of the advance: from a valid start, advancing by the distance
  to a valid end that is not below it lands exactly on that end; and the distance to an end
  below the start is zero.
\<close>

theorem distance_to_add:
  assumes "valid_address a" and "valid_address b"
  shows "if a \<le> b then address_add a (distance_to a b) = Some b else distance_to a b = 0"
proof (cases "a \<le> b")
  case True
  obtain c where c: "address_add a (distance_to a b) = Some c"
    "unat (address_get c) = min (unat (address_get a) + unat (distance_to a b)) (2 ^ 64 - 2)"
    using add_lands [OF assms(1)] by blast
  have "unat (address_get a) \<le> unat (address_get b)"
    using True by (simp add: address_le_iff word_le_nat_alt)
  then have "unat (address_get c) = unat (address_get b)"
    using c(2) get_le_MAX_EA [OF assms(2)] by (simp add: distance_to_def unat_saturating_sub)
  then have "address_get c = address_get b" by (simp only: word_unat_eq_iff)
  then have "c = b" by (rule get_inj)
  with c True show ?thesis by simp
next
  case False
  then show ?thesis
    by (simp add: distance_to_def saturating_sub_def address_le_iff)
qed

theorem distance_to_add_witness:
  "address_add (Address (NOT 4096)) (distance_to (Address (NOT 4096)) (Address (NOT 8192)))
     = Some (Address (NOT 8192))"
  using distance_to_add [of "Address (NOT 4096)" "Address (NOT 8192)"]
  by (simp add: valid_address_def address_le_iff address_get_def)

end
