(* ===== verification/Flow_Chart.thy ===== *)
theory Flow_Chart
  imports Arena Address
begin

unbundle bit_operations_syntax

text \<open>
  \<open>flowchart.rs\<close>: the control-flow graph of a function, copied out of the kernel's chart. The
  kernel lists the blocks of the function first (the proper ones) and then stubs for the targets
  outside it; the copy keeps the proper blocks in an arena, their edges as handles, and turns the
  edges into stubs into exits.

  The kernel's chart is the record the accessors of the facade's \<open>cfg.cpp\<close> read. An accessor that
  throws is \<open>None\<close>, and so is the \<open>expect\<close> that meets it. Building the chart from a function is a
  parameter; the check that the caller is on the kernel's thread is \<open>ensure_kernel_thread\<close> of
  \<open>Kernel_Claim\<close>.
\<close>

subsection \<open>The kinds of a block\<close>

datatype basic_block_kind =
  Normal | IndirectJump | ReturnBlock | CondReturn | NoReturnBlock | ErrorBlock

definition block_kind_raw :: "basic_block_kind \<Rightarrow> u8" where
  "block_kind_raw k =
     (case k of Normal \<Rightarrow> 0 | IndirectJump \<Rightarrow> 1 | ReturnBlock \<Rightarrow> 2 | CondReturn \<Rightarrow> 3
      | NoReturnBlock \<Rightarrow> 4 | ErrorBlock \<Rightarrow> 7)"

text \<open>The derived \<open>try_from\<close>: the variant of a discriminant, in the order of declaration.\<close>

definition block_kind_try_from :: "u8 \<Rightarrow> basic_block_kind option" where
  "block_kind_try_from raw =
     List.find (\<lambda>k. block_kind_raw k = raw)
       [Normal, IndirectJump, ReturnBlock, CondReturn, NoReturnBlock, ErrorBlock]"

definition is_return :: "basic_block_kind \<Rightarrow> bool" where
  "is_return k \<longleftrightarrow> k = ReturnBlock \<or> k = CondReturn"

definition is_noreturn :: "basic_block_kind \<Rightarrow> bool" where
  "is_noreturn k \<longleftrightarrow> k = NoReturnBlock"

definition show_block_kind :: "basic_block_kind \<Rightarrow> string" where
  "show_block_kind k =
     (case k of Normal \<Rightarrow> ''normal'' | IndirectJump \<Rightarrow> ''indirect jump'' | ReturnBlock \<Rightarrow> ''return''
      | CondReturn \<Rightarrow> ''conditional return'' | NoReturnBlock \<Rightarrow> ''no-return call''
      | ErrorBlock \<Rightarrow> ''error'')"

subsection \<open>The chart\<close>

record external_exit =
  ee_target :: address
  ee_noreturn :: bool

record basic_block =
  bb_start :: address
  bb_end :: address
  bb_kind :: basic_block_kind
  bb_succ :: "idx list"
  bb_pred :: "idx list"
  bb_exits :: "external_exit list"

record flow_chart =
  fc_blocks :: "basic_block arena"
  fc_entry :: idx
  fc_function :: address

definition chart_block :: "flow_chart \<Rightarrow> idx \<Rightarrow> basic_block option" where
  "chart_block fc i = arena_get (fc_blocks fc) i"

definition chart_len :: "flow_chart \<Rightarrow> nat" where
  "chart_len fc = arena_len (fc_blocks fc)"

definition chart_is_empty :: "flow_chart \<Rightarrow> bool" where
  "chart_is_empty fc = arena_is_empty (fc_blocks fc)"

definition chart_blocks :: "flow_chart \<Rightarrow> (idx \<times> basic_block) list option" where
  "chart_blocks fc = arena_iter (fc_blocks fc)"

definition in_block :: "address \<Rightarrow> basic_block \<Rightarrow> bool" where
  "in_block a b \<longleftrightarrow> bb_start b \<le> a \<and> a < bb_end b"

definition block_at :: "flow_chart \<Rightarrow> address \<Rightarrow> idx option option" where
  "block_at fc a =
     map_option (\<lambda>bs. map_option fst (List.find (\<lambda>(i, b). in_block a b) bs)) (chart_blocks fc)"

subsection \<open>The chart of the kernel\<close>

record qbasic_block =
  qb_start :: u64
  qb_end :: u64
  qb_type :: u32
  qb_succ :: "u32 list"
  qb_pred :: "u32 list"

record qflow_chart =
  qf_blocks :: "qbasic_block list"
  qf_nproper :: nat

record block_info =
  bi_start :: u64
  bi_end :: u64
  bi_kind :: u32

definition cfg_block :: "qflow_chart \<Rightarrow> nat \<Rightarrow> block_info option" where
  "cfg_block q n =
     (if length (qf_blocks q) \<le> n then None
      else let b = qf_blocks q ! n in
        Some \<lparr>bi_start = qb_start b, bi_end = qb_end b, bi_kind = qb_type b\<rparr>)"

definition cfg_succs :: "qflow_chart \<Rightarrow> nat \<Rightarrow> u32 list option" where
  "cfg_succs q n =
     (if length (qf_blocks q) \<le> n then None else Some (qb_succ (qf_blocks q ! n)))"

definition cfg_preds :: "qflow_chart \<Rightarrow> nat \<Rightarrow> u32 list option" where
  "cfg_preds q n =
     (if length (qf_blocks q) \<le> n then None else Some (qb_pred (qf_blocks q ! n)))"

subsection \<open>Copying it out\<close>

datatype chart_error =
    NoFunction u64
  | UnknownBlockKind u64 u8

definition FCB_ENORET :: u8 where
  "FCB_ENORET = 5"

fun successors_loop ::
  "qflow_chart \<Rightarrow> nat \<Rightarrow> u32 list \<Rightarrow> idx list \<Rightarrow> external_exit list
    \<Rightarrow> (idx list \<times> external_exit list) option" where
  "successors_loop q nproper [] succ exits = Some (succ, exits)"
| "successors_loop q nproper (j # js) succ exits =
     (if unat j < nproper then successors_loop q nproper js (succ @ [j]) exits
      else do {
        info \<leftarrow> cfg_block q (unat j);
        target \<leftarrow> try_new (bi_start info);
        successors_loop q nproper js succ
          (exits @ [\<lparr>ee_target = target, ee_noreturn = (ucast (bi_kind info) = FCB_ENORET)\<rparr>]) })"

definition successors :: "qflow_chart \<Rightarrow> nat \<Rightarrow> nat \<Rightarrow> (idx list \<times> external_exit list) option" where
  "successors q n nproper =
     do { js \<leftarrow> cfg_succs q n; successors_loop q nproper js [] [] }"

definition predecessors :: "qflow_chart \<Rightarrow> nat \<Rightarrow> nat \<Rightarrow> idx list option" where
  "predecessors q n nproper = map_option (filter (\<lambda>j. unat j < nproper)) (cfg_preds q n)"

definition block_range :: "u64 \<Rightarrow> u64 \<Rightarrow> (address \<times> address) option" where
  "block_range s e = do { s' \<leftarrow> try_new s; e' \<leftarrow> try_new e; Some (s', e') }"

fun extract_blocks ::
  "qflow_chart \<Rightarrow> nat \<Rightarrow> nat list \<Rightarrow> basic_block arena
    \<Rightarrow> (chart_error + basic_block arena) option" where
  "extract_blocks q nproper [] blocks = Some (Inr blocks)"
| "extract_blocks q nproper (i # is) blocks =
     do { info \<leftarrow> cfg_block q i;
          let raw = ucast (bi_kind info);
          case block_kind_try_from raw of
            None \<Rightarrow> Some (Inl (UnknownBlockKind (bi_start info) raw))
          | Some kind \<Rightarrow>
              do { (succ, exits) \<leftarrow> successors q i nproper;
                   (s, e) \<leftarrow> block_range (bi_start info) (bi_end info);
                   pred \<leftarrow> predecessors q i nproper;
                   (_, blocks') \<leftarrow>
                     arena_alloc \<lparr>bb_start = s, bb_end = e, bb_kind = kind, bb_succ = succ,
                       bb_pred = pred, bb_exits = exits\<rparr> blocks;
                   extract_blocks q nproper is blocks' } }"

definition extract_chart :: "qflow_chart \<Rightarrow> (chart_error + basic_block arena) option" where
  "extract_chart q = extract_blocks q (qf_nproper q) [0..<qf_nproper q] arena_new"

definition flow_chart_flags_NOEXT :: u32 where "flow_chart_flags_NOEXT = 0x0002"

definition flow_chart_flags_CALL_ENDS :: u32 where "flow_chart_flags_CALL_ENDS = 0x0020"

definition flow_chart_flags_NOPREDS :: u32 where "flow_chart_flags_NOPREDS = 0x0040"

definition flowchart_flags :: "bool \<Rightarrow> bool \<Rightarrow> bool \<Rightarrow> u32" where
  "flowchart_flags call_ends externals preds =
     (let flags = 0;
          flags = (if call_ends then flags OR flow_chart_flags_CALL_ENDS else flags);
          flags = (if \<not> externals then flags OR flow_chart_flags_NOEXT else flags)
      in if \<not> preds then flags OR flow_chart_flags_NOPREDS else flags)"

definition build_flowchart ::
  "(u64 \<Rightarrow> u32 \<Rightarrow> qflow_chart option) \<Rightarrow> address \<Rightarrow> u32 \<Rightarrow> (chart_error + flow_chart) option" where
  "build_flowchart cfg_build a flags =
     (case cfg_build (address_get a) flags of
        None \<Rightarrow> Some (Inl (NoFunction (address_get a)))
      | Some q \<Rightarrow>
          do { r \<leftarrow> extract_chart q;
               case r of
                 Inl e \<Rightarrow> Some (Inl e)
               | Inr blocks \<Rightarrow>
                   do { bs \<leftarrow> arena_iter blocks;
                        Some (Inr \<lparr>fc_blocks = blocks, fc_entry = 0,
                          fc_function = (case bs of [] \<Rightarrow> a | (_, b) # _ \<Rightarrow> bb_start b)\<rparr>) } })"

definition flowchart ::
  "(u64 \<Rightarrow> u32 \<Rightarrow> qflow_chart option) \<Rightarrow> address \<Rightarrow> (chart_error + flow_chart) option" where
  "flowchart cfg_build a = build_flowchart cfg_build a 0"

definition flowchart_with ::
  "(u64 \<Rightarrow> u32 \<Rightarrow> qflow_chart option) \<Rightarrow> address \<Rightarrow> bool \<Rightarrow> bool \<Rightarrow> bool
    \<Rightarrow> (chart_error + flow_chart) option" where
  "flowchart_with cfg_build a call_ends externals preds =
     build_flowchart cfg_build a (flowchart_flags call_ends externals preds)"

subsection \<open>What the copy is\<close>

lemma block_kind_try_from_raw [simp]: "block_kind_try_from (block_kind_raw k) = Some k"
  by (cases k) (simp_all add: block_kind_try_from_def block_kind_raw_def)

lemma block_kind_try_from_SomeD: "block_kind_try_from raw = Some k \<Longrightarrow> block_kind_raw k = raw"
  by (auto simp: block_kind_try_from_def split: if_splits)

text \<open>An exit is the start of the stub an edge leads to.\<close>

definition exit_of :: "qflow_chart \<Rightarrow> u32 \<Rightarrow> external_exit option" where
  "exit_of q j =
     do { info \<leftarrow> cfg_block q (unat j);
          target \<leftarrow> try_new (bi_start info);
          Some \<lparr>ee_target = target, ee_noreturn = (ucast (bi_kind info) = FCB_ENORET)\<rparr> }"

abbreviation proper :: "nat \<Rightarrow> u32 list \<Rightarrow> u32 list" where
  "proper n \<equiv> filter (\<lambda>j. unat j < n)"

abbreviation stubs :: "nat \<Rightarrow> u32 list \<Rightarrow> u32 list" where
  "stubs n \<equiv> filter (\<lambda>j. \<not> unat j < n)"

lemma successors_loop_eq:
  "successors_loop q n js succ exits =
     map_option (\<lambda>es. (succ @ proper n js, exits @ es)) (traverse (exit_of q) (stubs n js))"
proof (induction js arbitrary: succ exits)
  case (Cons j js)
  then show ?case
    by (cases "traverse (exit_of q) (stubs n js)")
      (auto simp: exit_of_def Option.bind_eq_None_conv split: Option.bind_splits)
qed simp

definition mirrors :: "qflow_chart \<Rightarrow> nat \<Rightarrow> nat \<Rightarrow> basic_block \<Rightarrow> bool" where
  "mirrors q n i b \<longleftrightarrow>
     i < length (qf_blocks q) \<and>
     try_new (qb_start (qf_blocks q ! i)) = Some (bb_start b) \<and>
     try_new (qb_end (qf_blocks q ! i)) = Some (bb_end b) \<and>
     block_kind_raw (bb_kind b) = ucast (qb_type (qf_blocks q ! i)) \<and>
     bb_succ b = proper n (qb_succ (qf_blocks q ! i)) \<and>
     bb_pred b = proper n (qb_pred (qf_blocks q ! i)) \<and>
     traverse (exit_of q) (stubs n (qb_succ (qf_blocks q ! i))) = Some (bb_exits b)"

lemma extract_blocks_step:
  assumes "extract_blocks q n (i # js) a = Some (Inr a')"
  obtains b k a'' where "mirrors q n i b" and "arena_alloc b a = Some (k, a'')"
    and "extract_blocks q n js a'' = Some (Inr a')"
proof -
  from assms have i: "i < length (qf_blocks q)" by (simp add: cfg_block_def split: if_splits)
  from assms i obtain kind where kind: "block_kind_try_from (ucast (qb_type (qf_blocks q ! i))) = Some kind"
    by (cases "block_kind_try_from (ucast (qb_type (qf_blocks q ! i)))")
      (simp_all add: cfg_block_def Let_def)
  from assms i kind obtain es s e k a'' where
    "traverse (exit_of q) (stubs n (qb_succ (qf_blocks q ! i))) = Some es"
    "try_new (qb_start (qf_blocks q ! i)) = Some s" "try_new (qb_end (qf_blocks q ! i)) = Some e"
    "arena_alloc \<lparr>bb_start = s, bb_end = e, bb_kind = kind,
       bb_succ = proper n (qb_succ (qf_blocks q ! i)),
       bb_pred = proper n (qb_pred (qf_blocks q ! i)), bb_exits = es\<rparr> a = Some (k, a'')"
    "extract_blocks q n js a'' = Some (Inr a')"
    by (auto simp: cfg_block_def cfg_succs_def cfg_preds_def Let_def successors_def
        predecessors_def successors_loop_eq block_range_def bind_eq_Some_conv)
  with i block_kind_try_from_SomeD [OF kind] show thesis
    by (intro that) (simp_all add: mirrors_def)
qed

lemma extract_blocks_mirrors:
  "extract_blocks q n js a = Some (Inr a') \<Longrightarrow>
     \<exists>bs. arena_data a' = arena_data a @ bs \<and> list_all2 (mirrors q n) js bs"
proof (induction js arbitrary: a)
  case (Cons i js)
  from Cons.prems obtain b k a'' where b: "mirrors q n i b"
    and a'': "arena_alloc b a = Some (k, a'')" and run: "extract_blocks q n js a'' = Some (Inr a')"
    by (rule extract_blocks_step)
  from Cons.IH [OF run] obtain bs where
    "arena_data a' = arena_data a'' @ bs" "list_all2 (mirrors q n) js bs" by blast
  with a'' b show ?case
    by (intro exI [of _ "b # bs"]) (auto simp: arena_alloc_def bind_eq_Some_conv)
qed simp

lemma extract_blocks_error:
  "extract_blocks q n js a = Some (Inl e) \<Longrightarrow>
     \<exists>ks i ls. js = ks @ i # ls \<and> i < length (qf_blocks q) \<and>
       (\<forall>k \<in> set ks. block_kind_try_from (ucast (qb_type (qf_blocks q ! k))) \<noteq> None) \<and>
       block_kind_try_from (ucast (qb_type (qf_blocks q ! i))) = None \<and>
       e = UnknownBlockKind (qb_start (qf_blocks q ! i)) (ucast (qb_type (qf_blocks q ! i)))"
proof (induction js arbitrary: a)
  case (Cons i js)
  show ?case
  proof (cases "block_kind_try_from (ucast (qb_type (qf_blocks q ! i)))")
    case None
    with Cons.prems show ?thesis
      by (intro exI [of _ "[]"] exI [of _ i] exI [of _ js])
        (auto simp: cfg_block_def Let_def split: if_splits)
  next
    case (Some kind)
    with Cons.prems obtain a' where "extract_blocks q n js a' = Some (Inl e)"
      by (auto simp: cfg_block_def Let_def split: if_splits Option.bind_splits)
    from Cons.IH [OF this] obtain ks k ls where "js = ks @ k # ls \<and> k < length (qf_blocks q) \<and>
       (\<forall>k \<in> set ks. block_kind_try_from (ucast (qb_type (qf_blocks q ! k))) \<noteq> None) \<and>
       block_kind_try_from (ucast (qb_type (qf_blocks q ! k))) = None \<and>
       e = UnknownBlockKind (qb_start (qf_blocks q ! k)) (ucast (qb_type (qf_blocks q ! k)))"
      by blast
    with Some show ?thesis by (intro exI [of _ "i # ks"] exI [of _ k] exI [of _ ls]) auto
  qed
qed simp

lemma extract_blocks_len:
  "extract_blocks q n js a = Some (Inr a') \<Longrightarrow> arena_len a \<le> 2 ^ 32 \<Longrightarrow> arena_len a' \<le> 2 ^ 32"
proof (induction js arbitrary: a)
  case (Cons i js)
  from Cons.prems(1) obtain b k a'' where a'': "arena_alloc b a = Some (k, a'')"
    and run: "extract_blocks q n js a'' = Some (Inr a')"
    by (rule extract_blocks_step)
  from arena_len_alloc [OF a''] arena_alloc_bound [OF a''] Cons.IH [OF run] show ?case by simp
qed simp

lemma extract_chart_mirrors:
  assumes "extract_chart q = Some (Inr a)"
  shows "list_all2 (mirrors q (qf_nproper q)) [0..<qf_nproper q] (arena_data a)"
    and "arena_len a = qf_nproper q" and "arena_len a \<le> 2 ^ 32"
proof -
  from assms extract_blocks_mirrors [of q "qf_nproper q" "[0..<qf_nproper q]" arena_new a]
  show m: "list_all2 (mirrors q (qf_nproper q)) [0..<qf_nproper q] (arena_data a)"
    by (auto simp: extract_chart_def arena_new_def)
  from list_all2_lengthD [OF m] show "arena_len a = qf_nproper q" by (simp add: arena_len_def)
  from assms show "arena_len a \<le> 2 ^ 32"
    by (auto simp: extract_chart_def arena_new_def arena_len_def dest!: extract_blocks_len)
qed

lemma extract_chart_get:
  assumes "extract_chart q = Some (Inr a)" and "arena_get a i = Some b"
  shows "mirrors q (qf_nproper q) (unat i) b" and "unat i < qf_nproper q"
proof -
  from assms(2) have i: "unat i < length (arena_data a)" and b: "arena_data a ! unat i = b"
    by (auto simp: arena_get_def idx_index_def split: if_splits)
  with extract_chart_mirrors [OF assms(1)] show "unat i < qf_nproper q" by (simp add: arena_len_def)
  from list_all2_nthD2 [OF extract_chart_mirrors(1) [OF assms(1)] i] i b
    extract_chart_mirrors(2) [OF assms(1)]
  show "mirrors q (qf_nproper q) (unat i) b" by (simp add: arena_len_def)
qed

lemma extract_chart_reached:
  "extract_chart q = Some (Inr a) \<Longrightarrow> unat i < qf_nproper q \<Longrightarrow> \<exists>b. arena_get a i = Some b"
  using extract_chart_mirrors(2) [of q a] by (simp add: arena_get_Some_iff)

lemma arena_iter_small:
  "arena_len a \<le> 2 ^ 32 \<Longrightarrow>
     arena_iter a = Some (map (\<lambda>(i, v). (of_nat i, v)) (enumerate 0 (arena_data a)))"
  unfolding arena_iter_def
  by (rule traverse_SomeI) (auto simp: arena_len_def from_index_def in_set_enumerate_eq)

lemma build_flowchart_runs:
  assumes "cfg_build (address_get x) flags = Some q"
  shows "build_flowchart cfg_build x flags =
    (case extract_chart q of
       None \<Rightarrow> None
     | Some (Inl e) \<Rightarrow> Some (Inl e)
     | Some (Inr a) \<Rightarrow> Some (Inr \<lparr>fc_blocks = a, fc_entry = 0,
         fc_function = (case arena_data a of [] \<Rightarrow> x | b # _ \<Rightarrow> bb_start b)\<rparr>))"
proof (cases "extract_chart q")
  case None
  with assms show ?thesis by (simp add: build_flowchart_def)
next
  case (Some r)
  show ?thesis
  proof (cases r)
    case (Inr a)
    note iter = arena_iter_small [OF extract_chart_mirrors(3), of q a]
    show ?thesis using assms Some Inr iter
      by (cases "arena_data a") (simp_all add: build_flowchart_def)
  qed (use assms Some in \<open>simp add: build_flowchart_def\<close>)
qed

lemma build_flowchart_parts:
  assumes "build_flowchart cfg_build x flags = Some (Inr fc)"
    and "cfg_build (address_get x) flags = Some q"
  shows "extract_chart q = Some (Inr (fc_blocks fc))" and "fc_entry fc = 0"
    and "fc_function fc = (case arena_data (fc_blocks fc) of [] \<Rightarrow> x | b # _ \<Rightarrow> bb_start b)"
  using assms(1) unfolding build_flowchart_runs [of cfg_build, OF assms(2)]
  by (auto split: option.splits sum.splits)

subsection \<open>The graph\<close>

text \<open>The edges of a chart, by its successor and by its predecessor lists, and the kernel's own.\<close>

definition chart_edge :: "flow_chart \<Rightarrow> idx \<Rightarrow> idx \<Rightarrow> bool" where
  "chart_edge fc i j \<longleftrightarrow> (\<exists>b. chart_block fc i = Some b \<and> j \<in> set (bb_succ b))"

definition chart_back :: "flow_chart \<Rightarrow> idx \<Rightarrow> idx \<Rightarrow> bool" where
  "chart_back fc j i \<longleftrightarrow> (\<exists>b. chart_block fc j = Some b \<and> i \<in> set (bb_pred b))"

definition proper_edge :: "(qbasic_block \<Rightarrow> u32 list) \<Rightarrow> qflow_chart \<Rightarrow> u32 \<Rightarrow> u32 \<Rightarrow> bool" where
  "proper_edge ends q i j \<longleftrightarrow>
     unat i < qf_nproper q \<and> unat j < qf_nproper q \<and> j \<in> set (ends (qf_blocks q ! unat i))"

lemma chart_edges_proper:
  assumes "extract_chart q = Some (Inr (fc_blocks fc))"
  shows "chart_edge fc = proper_edge qb_succ q" and "chart_back fc = proper_edge qb_pred q"
proof -
  have "chart_edge fc i j = proper_edge qb_succ q i j" and "chart_back fc i j = proper_edge qb_pred q i j"
    for i j
    using extract_chart_get [OF assms, of i] extract_chart_reached [OF assms, of i]
    by (fastforce simp: chart_edge_def chart_back_def proper_edge_def chart_block_def mirrors_def)+
  then show "chart_edge fc = proper_edge qb_succ q" and "chart_back fc = proper_edge qb_pred q"
    by blast+
qed

lemma chart_edges_resolve:
  assumes "extract_chart q = Some (Inr (fc_blocks fc))"
  shows "chart_edge fc i j \<Longrightarrow> chart_block fc j \<noteq> None" and "chart_back fc i j \<Longrightarrow> chart_block fc j \<noteq> None"
  using extract_chart_reached [OF assms, of j]
  by (auto simp: chart_edges_proper [OF assms] proper_edge_def chart_block_def)

text \<open>
  C17: the chart is the kernel's graph cut down to the function's own blocks: whatever flags it is
  built with, what can be reached from a block along the chart's successors is what the kernel's
  edges between proper blocks reach, no handle in it dangles, and where the kernel lists every edge
  at both its ends so does the chart.
\<close>

theorem chart_is_proper_subgraph:
  assumes "build_flowchart cfg_build x flags = Some (Inr fc)"
    and "cfg_build (address_get x) flags = Some q"
  shows "(chart_edge fc)\<^sup>*\<^sup>* = (proper_edge qb_succ q)\<^sup>*\<^sup>* \<and> chart_len fc = qf_nproper q \<and>
     (\<forall>i j. chart_edge fc i j \<or> chart_back fc i j \<longrightarrow> chart_block fc j \<noteq> None) \<and>
     ((proper_edge qb_succ q)\<inverse>\<inverse> = proper_edge qb_pred q \<longrightarrow> (\<forall>i j. chart_edge fc i j = chart_back fc j i))"
proof -
  note a = build_flowchart_parts(1) [of cfg_build, OF assms]
  have "(proper_edge qb_succ q)\<inverse>\<inverse> = proper_edge qb_pred q \<Longrightarrow> chart_edge fc i j = chart_back fc j i" for i j
    unfolding chart_edges_proper [OF a] by (metis conversep.simps)
  with chart_edges_resolve [OF a] extract_chart_mirrors(2) [OF a] chart_edges_proper(1) [OF a]
  show ?thesis unfolding chart_len_def by auto
qed

definition diamond :: qflow_chart where
  "diamond =
     \<lparr>qf_blocks =
        [\<lparr>qb_start = 0x10, qb_end = 0x20, qb_type = 0, qb_succ = [1, 2], qb_pred = []\<rparr>,
         \<lparr>qb_start = 0x20, qb_end = 0x28, qb_type = 0, qb_succ = [2, 3], qb_pred = [0]\<rparr>,
         \<lparr>qb_start = 0x28, qb_end = 0x30, qb_type = 2, qb_succ = [], qb_pred = [0, 1]\<rparr>,
         \<lparr>qb_start = 0x400, qb_end = 0x400, qb_type = 5, qb_succ = [], qb_pred = [1]\<rparr>],
      qf_nproper = 3\<rparr>"

definition diamond_chart :: flow_chart where
  "diamond_chart = projr (the (build_flowchart (\<lambda>_ _. Some diamond) (Address 1) 0))"

lemmas flow_eval = extract_chart_def upt_rec cfg_block_def cfg_succs_def cfg_preds_def
  successors_def predecessors_def block_range_def try_new_def block_kind_try_from_def
  block_kind_raw_def arena_defs FCB_ENORET_def

lemma diamond_extracted: "\<exists>a. extract_chart diamond = Some (Inr a)"
  by (simp add: diamond_def flow_eval)

lemma diamond_built: "build_flowchart (\<lambda>_ _. Some diamond) (Address 1) 0 = Some (Inr diamond_chart)"
  using diamond_extracted
  by (auto simp: diamond_chart_def build_flowchart_runs [of "\<lambda>_ _. Some diamond", OF refl])

theorem chart_is_proper_subgraph_witness:
  "(chart_edge diamond_chart)\<^sup>*\<^sup>* = (proper_edge qb_succ diamond)\<^sup>*\<^sup>* \<and> chart_len diamond_chart = 3"
  using chart_is_proper_subgraph [OF diamond_built refl] by (simp add: diamond_def)

subsection \<open>The verdict\<close>

text \<open>What the kernel promises of a chart, the kinds of its blocks apart.\<close>

definition chart_sound :: "qflow_chart \<Rightarrow> bool" where
  "chart_sound q \<longleftrightarrow>
     qf_nproper q \<le> length (qf_blocks q) \<and> qf_nproper q \<le> 2 ^ 32 \<and>
     (\<forall>i < qf_nproper q. qb_start (qf_blocks q ! i) \<noteq> BADADDR \<and> qb_end (qf_blocks q ! i) \<noteq> BADADDR \<and>
        (\<forall>j \<in> set (qb_succ (qf_blocks q ! i)).
           unat j < length (qf_blocks q) \<and> qb_start (qf_blocks q ! unat j) \<noteq> BADADDR))"

abbreviation raw_kind :: "qflow_chart \<Rightarrow> nat \<Rightarrow> u8" where
  "raw_kind q i \<equiv> ucast (qb_type (qf_blocks q ! i))"

lemma sound_successors:
  assumes "chart_sound q" and "i < qf_nproper q"
  shows "\<exists>es. successors q i n = Some (proper n (qb_succ (qf_blocks q ! i)), es)"
proof -
  have "\<exists>es. traverse (exit_of q) (stubs n (qb_succ (qf_blocks q ! i))) = Some es"
    using assms by (intro traverse_total) (auto simp: chart_sound_def exit_of_def cfg_block_def Let_def
        bind_eq_Some_conv try_new_Some_iff not_le [symmetric] simp flip: try_new_None_iff)
  with assms show ?thesis
    by (auto simp: successors_def cfg_succs_def chart_sound_def successors_loop_eq)
qed

definition unknown_kind :: "qflow_chart \<Rightarrow> nat \<Rightarrow> bool" where
  "unknown_kind q i \<longleftrightarrow> block_kind_try_from (raw_kind q i) = None"

lemma sound_extracts:
  assumes "chart_sound q" and "set js \<subseteq> {..<qf_nproper q}"
    and "arena_len a + length js \<le> 2 ^ 32"
  shows "case List.find (unknown_kind q) js of
      None \<Rightarrow> \<exists>a'. extract_blocks q (qf_nproper q) js a = Some (Inr a')
    | Some i \<Rightarrow> extract_blocks q (qf_nproper q) js a =
        Some (Inl (UnknownBlockKind (qb_start (qf_blocks q ! i)) (raw_kind q i)))"
  using assms(2,3)
proof (induction js arbitrary: a)
  case (Cons i js)
  then have i: "i < qf_nproper q" "i < length (qf_blocks q)"
    using assms(1) by (auto simp: chart_sound_def)
  show ?case
  proof (cases "block_kind_try_from (raw_kind q i)")
    case None
    with i show ?thesis by (simp add: unknown_kind_def cfg_block_def Let_def)
  next
    case (Some kind)
    from sound_successors [OF assms(1) i(1)] obtain es where
      succ: "successors q i (qf_nproper q) = Some (proper (qf_nproper q) (qb_succ (qf_blocks q ! i)), es)"
      by blast
    from assms(1) i(1) obtain s e where
      range: "block_range (qb_start (qf_blocks q ! i)) (qb_end (qf_blocks q ! i)) = Some (s, e)"
      by (fastforce simp: block_range_def chart_sound_def simp flip: try_new_None_iff)
    let ?b = "\<lparr>bb_start = s, bb_end = e, bb_kind = kind,
        bb_succ = proper (qf_nproper q) (qb_succ (qf_blocks q ! i)),
        bb_pred = proper (qf_nproper q) (qb_pred (qf_blocks q ! i)), bb_exits = es\<rparr>"
    from Cons.prems(2) obtain k a' where alloc: "arena_alloc ?b a = Some (k, a')"
      by (auto simp: arena_defs)
    with Cons.prems(2) have len: "arena_len a' + length js \<le> 2 ^ 32" by (simp add: arena_len_alloc)
    have step: "extract_blocks q (qf_nproper q) (i # js) a = extract_blocks q (qf_nproper q) js a'"
      using i Some succ range alloc by (simp add: cfg_block_def cfg_preds_def predecessors_def Let_def)
    have "List.find (unknown_kind q) (i # js) = List.find (unknown_kind q) js"
      using Some by (simp add: unknown_kind_def)
    moreover have "set js \<subseteq> {..<qf_nproper q}" using Cons.prems(1) by simp
    ultimately show ?thesis unfolding step using Cons.IH [OF _ len] by simp
  qed
qed simp

text \<open>
  On a chart that keeps the kernel's promises nothing panics: the function's graph is copied
  when every proper block has a kind the library knows, and otherwise the error names the first
  block that has not, with the low byte of its kind. The copy has each block as the kernel has it,
  its edges in order and split into handles and exits.
\<close>

theorem flowchart_verdict:
  assumes "chart_sound q" and "cfg_build (address_get x) flags = Some q"
  shows "case List.find (unknown_kind q) [0..<qf_nproper q] of
      Some i \<Rightarrow> build_flowchart cfg_build x flags =
        Some (Inl (UnknownBlockKind (qb_start (qf_blocks q ! i)) (raw_kind q i)))
    | None \<Rightarrow> \<exists>fc. build_flowchart cfg_build x flags = Some (Inr fc) \<and>
        list_all2 (mirrors q (qf_nproper q)) [0..<qf_nproper q] (arena_data (fc_blocks fc))"
proof -
  from assms(1) have "arena_len (arena_new :: basic_block arena) + length [0..<qf_nproper q] \<le> 2 ^ 32"
    by (simp add: arena_defs chart_sound_def)
  from sound_extracts [OF assms(1) _ this]
  have "case List.find (unknown_kind q) [0..<qf_nproper q] of
      None \<Rightarrow> \<exists>a. extract_chart q = Some (Inr a)
    | Some i \<Rightarrow> extract_chart q =
        Some (Inl (UnknownBlockKind (qb_start (qf_blocks q ! i)) (raw_kind q i)))"
    unfolding extract_chart_def by (simp add: atLeast0LessThan)
  then show ?thesis
    by (cases "List.find (unknown_kind q) [0..<qf_nproper q]")
      (auto simp: build_flowchart_runs [of cfg_build, OF assms(2)] dest: extract_chart_mirrors(1))
qed

definition odd_block :: qflow_chart where
  "odd_block = diamond\<lparr>qf_blocks := (qf_blocks diamond)[1 := (qf_blocks diamond ! 1)\<lparr>qb_type := 0x106\<rparr>]\<rparr>"

lemma all_less_3: "(\<forall>i < 3 :: nat. P i) \<longleftrightarrow> P 0 \<and> P 1 \<and> P 2"
  by (auto simp: numeral_3_eq_3 numeral_2_eq_2 less_Suc_eq)

lemma odd_block_sound: "chart_sound odd_block"
  by (simp add: odd_block_def diamond_def chart_sound_def BADADDR_def all_less_3)

theorem flowchart_verdict_witness:
  "build_flowchart (\<lambda>_ _. Some odd_block) (Address 1) 0 = Some (Inl (UnknownBlockKind 0x20 6))"
proof -
  have "List.find (unknown_kind odd_block) [0..<qf_nproper odd_block] = Some 1"
    by (simp add: odd_block_def diamond_def unknown_kind_def flow_eval)
  with flowchart_verdict [of odd_block "\<lambda>_ _. Some odd_block", OF odd_block_sound refl, of "Address 1" 0]
  show ?thesis by (simp add: odd_block_def diamond_def)
qed

subsection \<open>The block of an address\<close>

lemma find_enumerate:
  assumes "List.find P (enumerate n xs) = r"
  shows "case r of
      None \<Rightarrow> \<forall>k < length xs. \<not> P (n + k, xs ! k)
    | Some (i, x) \<Rightarrow> \<exists>k < length xs. i = n + k \<and> x = xs ! k \<and> P (i, x) \<and> (\<forall>m < k. \<not> P (n + m, xs ! m))"
proof (cases r)
  case None
  with assms show ?thesis
    by (auto simp: find_None_iff in_set_enumerate_eq)
      (metis add.commute add_diff_cancel_left' le_add1 nat_add_left_cancel_less)
next
  case (Some p)
  with assms obtain k where "k < length xs" "P (enumerate n xs ! k)" "p = enumerate n xs ! k"
    "\<forall>m < k. \<not> P (enumerate n xs ! m)" by (auto simp: find_Some_iff)
  with Some show ?thesis by (auto simp: nth_enumerate_eq)
qed

lemma find_map: "List.find P (map f xs) = map_option f (List.find (\<lambda>x. P (f x)) xs)"
  by (induction xs) simp_all

text \<open>
  \<open>block_at\<close> never panics on a chart that was built, and answers the first block in the kernel's
  order that covers the address; it answers none exactly when no block does.
\<close>

theorem block_at_first:
  assumes "build_flowchart cfg_build x flags = Some (Inr fc)"
  shows "case block_at fc a of
      None \<Rightarrow> False
    | Some None \<Rightarrow> \<forall>i b. chart_block fc i = Some b \<longrightarrow> \<not> in_block a b
    | Some (Some i) \<Rightarrow> (\<exists>b. chart_block fc i = Some b \<and> in_block a b) \<and>
        (\<forall>j b. j < i \<and> chart_block fc j = Some b \<longrightarrow> \<not> in_block a b)"
proof -
  obtain q where "cfg_build (address_get x) flags = Some q"
    using assms by (cases "cfg_build (address_get x) flags") (simp_all add: build_flowchart_def)
  note built = build_flowchart_parts(1) [of cfg_build, OF assms this]
  let ?bs = "arena_data (fc_blocks fc)" and ?P = "\<lambda>(i :: nat, b). in_block a b"
  note small = extract_chart_mirrors(3) [OF built]
  have at: "block_at fc a = Some (map_option (\<lambda>p. of_nat (fst p)) (List.find ?P (enumerate 0 ?bs)))"
    by (simp add: block_at_def chart_blocks_def arena_iter_small [OF small] find_map comp_def
        case_prod_unfold option.map_comp)
  show ?thesis
  proof (cases "List.find ?P (enumerate 0 ?bs)")
    case None
    with find_enumerate [OF this] at show ?thesis
      by (auto simp: chart_block_def arena_defs split: if_splits)
  next
    case (Some p)
    with find_enumerate [OF this] obtain k where k: "k < length ?bs" "in_block a (?bs ! k)"
      "\<forall>m < k. \<not> in_block a (?bs ! m)" "fst p = k" by auto
    moreover from k(1) small have "unat (of_nat k :: u32) = k"
      by (simp add: arena_len_def unat_of_nat take_bit_nat_eq_self)
    ultimately show ?thesis using at Some
      by (auto simp: chart_block_def arena_defs word_less_nat_alt split: if_splits)
  qed
qed

theorem block_at_first_witness:
  "case block_at diamond_chart (Address (NOT 0x21)) of
      None \<Rightarrow> False
    | Some None \<Rightarrow> \<forall>i b. chart_block diamond_chart i = Some b \<longrightarrow> \<not> in_block (Address (NOT 0x21)) b
    | Some (Some i) \<Rightarrow> (\<exists>b. chart_block diamond_chart i = Some b \<and> in_block (Address (NOT 0x21)) b) \<and>
        (\<forall>j b. j < i \<and> chart_block diamond_chart j = Some b \<longrightarrow> \<not> in_block (Address (NOT 0x21)) b)"
  by (rule block_at_first [OF diamond_built])

end
