(* ===== verification/Text.thy ===== *)
theory Text
  imports Prelude
begin

text \<open>
  The standard library's views of a text: a Rust \<open>str\<close> is the list of its UTF-8 bytes, \<open>chars\<close> are
  the encodings of its characters in order, and the white space \<open>trim\<close> and \<open>split_whitespace\<close>
  look for are the encodings of the characters with that property.
\<close>

subsection \<open>UTF-8\<close>

abbreviation byte :: "char \<Rightarrow> nat" where
  "byte c \<equiv> of_char c"

text \<open>
  The next character of a UTF-8 text: how many bytes it takes, or how many bytes of an ill-formed
  sequence are replaced together.
\<close>

definition utf8_second :: "nat \<Rightarrow> nat \<Rightarrow> bool" where
  "utf8_second a b \<longleftrightarrow>
     (if a = 0xE0 then 0xA0 \<le> b \<and> b \<le> 0xBF
      else if a = 0xED then 0x80 \<le> b \<and> b \<le> 0x9F
      else if a = 0xF0 then 0x90 \<le> b \<and> b \<le> 0xBF
      else if a = 0xF4 then 0x80 \<le> b \<and> b \<le> 0x8F
      else 0x80 \<le> b \<and> b \<le> 0xBF)"

definition utf8_cont :: "nat \<Rightarrow> bool" where
  "utf8_cont b \<longleftrightarrow> 0x80 \<le> b \<and> b \<le> 0xBF"

definition utf8_width :: "nat \<Rightarrow> nat" where
  "utf8_width a =
     (if a < 0x80 then 1 else if a < 0xC2 then 0 else if a < 0xE0 then 2
      else if a < 0xF0 then 3 else if a < 0xF5 then 4 else 0)"

definition nth_byte :: "string \<Rightarrow> nat \<Rightarrow> nat" where
  "nth_byte s i = (if i < length s then byte (s ! i) else 0)"

definition utf8_step :: "string \<Rightarrow> nat \<times> bool" where
  "utf8_step s =
     (let w = utf8_width (nth_byte s 0)
      in if w = 1 then (1, True)
         else if w = 0 \<or> \<not> utf8_second (nth_byte s 0) (nth_byte s 1) then (1, False)
         else if w = 2 then (2, True)
         else if \<not> utf8_cont (nth_byte s 2) then (2, False)
         else if w = 3 then (3, True)
         else if \<not> utf8_cont (nth_byte s 3) then (3, False)
         else (4, True))"

function utf8_chunks :: "string \<Rightarrow> (string \<times> bool) list" where
  "utf8_chunks [] = []"
| "utf8_chunks (c # cs) =
     (case utf8_step (c # cs) of (k, ok) \<Rightarrow> (take k (c # cs), ok) # utf8_chunks (drop k (c # cs)))"
  by pat_completeness auto
termination
  by (relation "measure length") (auto simp: utf8_step_def Let_def split: if_splits)

definition utf8_valid :: "string \<Rightarrow> bool" where
  "utf8_valid s = list_all snd (utf8_chunks s)"

definition replacement_character :: string where
  "replacement_character = [CHR 0xEF, CHR 0xBF, CHR 0xBD]"

text \<open>\<open>String::from_utf8_lossy\<close>.\<close>

definition from_utf8_lossy :: "string \<Rightarrow> string" where
  "from_utf8_lossy s = concat (map (\<lambda>(t, ok). if ok then t else replacement_character) (utf8_chunks s))"

text \<open>\<open>str::chars\<close>, each character as its encoding.\<close>

definition str_chars :: "string \<Rightarrow> string list" where
  "str_chars s = map fst (utf8_chunks s)"

lemma nth_byte_in: "nth_byte s i \<noteq> 0 \<Longrightarrow> i < length s"
  by (auto simp: nth_byte_def split: if_splits)

lemma utf8_nonzero: "utf8_second a b \<Longrightarrow> b \<noteq> 0" "utf8_cont b \<Longrightarrow> b \<noteq> 0"
  by (auto simp: utf8_second_def utf8_cont_def split: if_splits)

lemma utf8_step_bounds: "s \<noteq> [] \<Longrightarrow> snd (utf8_step s) \<Longrightarrow> 1 \<le> fst (utf8_step s) \<and> fst (utf8_step s) \<le> length s"
  using nth_byte_in [of s 1] nth_byte_in [of s 2] nth_byte_in [of s 3]
  by (cases "length s") (auto simp: utf8_step_def Let_def dest!: utf8_nonzero split: if_splits)

lemma utf8_step_append:
  assumes "s \<noteq> []" and "snd (utf8_step s)"
  shows "utf8_step (s @ t) = utf8_step s"
proof -
  have keep: "nth_byte (s @ t) i = nth_byte s i" if "nth_byte s i \<noteq> 0" for i
    using that by (auto simp: nth_byte_def nth_append split: if_splits)
  have "utf8_second a (nth_byte (s @ t) i)" if "utf8_second a (nth_byte s i)" for a i
    using that keep [of i] utf8_nonzero(1) [OF that] by simp
  moreover have "utf8_cont (nth_byte (s @ t) i)" if "utf8_cont (nth_byte s i)" for i
    using that keep [of i] utf8_nonzero(2) [OF that] by simp
  moreover have "nth_byte (s @ t) 0 = nth_byte s 0" using assms(1) by (simp add: nth_byte_def nth_append)
  ultimately show ?thesis
    using assms(2) by (simp add: utf8_step_def Let_def split: if_splits)
qed

lemma utf8_valid_Nil [simp]: "utf8_valid []"
  by (simp add: utf8_valid_def)

lemma utf8_valid_append: "utf8_valid s \<Longrightarrow> utf8_valid (s @ t) = utf8_valid t"
proof (induction s rule: utf8_chunks.induct)
  case (2 c cs)
  obtain k ok where k: "utf8_step (c # cs) = (k, ok)" by (cases "utf8_step (c # cs)")
  with "2.prems" have ok: "ok" "utf8_valid (drop k (c # cs))" by (simp_all add: utf8_valid_def)
  with k have step: "utf8_step (c # cs @ t) = (k, True)" "k \<le> length (c # cs)"
    using utf8_step_append [of "c # cs" t] utf8_step_bounds [of "c # cs"] by simp_all
  then have "drop k (c # cs @ t) = drop k (c # cs) @ t" by (simp flip: append_Cons)
  with "2.IH" [OF k [symmetric] ok(2)] step(1) show ?case by (simp add: utf8_valid_def)
qed simp

lemma utf8_valid_ascii: "byte c < 0x80 \<Longrightarrow> utf8_valid (c # s) = utf8_valid s"
proof -
  assume "byte c < 0x80"
  then have "utf8_step (c # s) = (1, True)" by (simp add: utf8_step_def nth_byte_def utf8_width_def)
  then show ?thesis by (simp add: utf8_valid_def)
qed

lemma utf8_valid_all_ascii: "list_all (\<lambda>c. byte c < 0x80) s \<Longrightarrow> utf8_valid s"
  by (induction s) (simp_all add: utf8_valid_ascii)

lemma from_utf8_lossy_valid: "utf8_valid s \<Longrightarrow> from_utf8_lossy s = s"
proof (induction s rule: utf8_chunks.induct)
  case (2 c cs)
  obtain k ok where k: "utf8_step (c # cs) = (k, ok)" by (cases "utf8_step (c # cs)")
  with "2.prems" have ok: "ok" "utf8_valid (drop k (c # cs))" by (simp_all add: utf8_valid_def)
  have "from_utf8_lossy (c # cs) = take k (c # cs) @ from_utf8_lossy (drop k (c # cs))"
    using k ok(1) by (simp add: from_utf8_lossy_def)
  also have "\<dots> = c # cs" by (simp only: "2.IH" [OF k [symmetric] ok(2)] append_take_drop_id)
  finally show ?case .
qed (simp add: from_utf8_lossy_def)

lemma str_chars_Nil [simp]: "str_chars [] = []"
  by (simp add: str_chars_def)

lemma str_chars_ascii [simp]: "byte c < 0x80 \<Longrightarrow> str_chars (c # s) = [c] # str_chars s"
  by (simp add: str_chars_def utf8_step_def nth_byte_def utf8_width_def)

lemma str_chars_all_ascii: "list_all (\<lambda>c. byte c < 0x80) s \<Longrightarrow> str_chars s = map (\<lambda>c. [c]) s"
  by (induction s) simp_all

subsection \<open>White space\<close>

text \<open>\<open>str::trim\<close>: the encodings of the white space characters, stripped from either end.\<close>

definition white_space :: "string list" where
  "white_space =
     map (\<lambda>n. [char_of (n :: nat)]) [9, 10, 11, 12, 13, 32] @
     map (map (char_of :: nat \<Rightarrow> char))
       ([[0xC2, 0x85], [0xC2, 0xA0], [0xE1, 0x9A, 0x80], [0xE2, 0x80, 0xA8], [0xE2, 0x80, 0xA9],
         [0xE2, 0x80, 0xAF], [0xE2, 0x81, 0x9F], [0xE3, 0x80, 0x80]] @
        map (\<lambda>n. [0xE2, 0x80, n]) [0x80..<0x8B])"

fun strip_any :: "nat \<Rightarrow> string list \<Rightarrow> string \<Rightarrow> string" where
  "strip_any 0 ws s = s"
| "strip_any (Suc n) ws s =
     (case List.find (\<lambda>w. take (length w) s = w) ws of
        Some w \<Rightarrow> strip_any n ws (drop (length w) s)
      | None \<Rightarrow> s)"

definition trim :: "string \<Rightarrow> string" where
  "trim s =
     (let front = strip_any (length s) white_space s
      in rev (strip_any (length front) (map rev white_space) (rev front)))"

text \<open>\<open>str::split_whitespace\<close>: the maximal runs of other characters.\<close>

fun split_blank :: "string list \<Rightarrow> string list \<Rightarrow> string list list" where
  "split_blank acc [] = (if acc = [] then [] else [acc])"
| "split_blank acc (c # cs) =
     (if c \<in> set white_space then (if acc = [] then [] else [acc]) @ split_blank [] cs
      else split_blank (acc @ [c]) cs)"

definition split_whitespace :: "string \<Rightarrow> string list" where
  "split_whitespace s = map concat (split_blank [] (str_chars s))"

subsection \<open>Prefixes\<close>

definition strip_prefix :: "string \<Rightarrow> string \<Rightarrow> string option" where
  "strip_prefix p s = (if take (length p) s = p then Some (drop (length p) s) else None)"

lemma strip_prefix_append [simp]: "strip_prefix p (p @ s) = Some s"
  by (simp add: strip_prefix_def)

subsection \<open>Digits\<close>

definition digit_value :: "char \<Rightarrow> nat option" where
  "digit_value c = (if 48 \<le> byte c \<and> byte c \<le> 57 then Some (byte c - 48) else None)"

lemma digit_char_byte: "d < 10 \<Longrightarrow> byte (digit_char d) = 48 + d"
  by (simp add: digit_char_def take_bit_nat_eq_self)

lemma digit_value_char: "d < 10 \<Longrightarrow> digit_value (digit_char d) = Some d"
  by (simp add: digit_value_def digit_char_byte)

lemma traverse_append:
  "traverse f (xs @ ys) = do { a \<leftarrow> traverse f xs; b \<leftarrow> traverse f ys; Some (a @ b) }"
proof (induction xs)
  case Nil
  show ?case by (cases "traverse f ys") simp_all
next
  case (Cons x xs)
  then show ?case by (cases "f x"; cases "traverse f xs"; cases "traverse f ys") simp_all
qed

lemma show_nat_digits:
  "\<exists>vs. traverse digit_value (show_base 10 n) = Some vs \<and> foldl (\<lambda>acc v. 10 * acc + v) 0 vs = n \<and>
     show_base 10 n \<noteq> []"
proof (induction n rule: less_induct)
  case (less n)
  show ?case
  proof (cases "n < 10")
    case True
    then show ?thesis by (simp add: show_base.simps [of 10 n] digit_value_char)
  next
    case False
    then obtain vs where "traverse digit_value (show_base 10 (n div 10)) = Some vs"
      "foldl (\<lambda>acc v. 10 * acc + v) 0 vs = n div 10" using less [of "n div 10"] by auto
    with False show ?thesis
      by (simp add: show_base.simps [of 10 n] traverse_append digit_value_char)
  qed
qed

lemma show_nat_bytes: "list_all (\<lambda>c. 48 \<le> byte c \<and> byte c \<le> 57) (show_nat n)"
proof -
  obtain vs where "traverse digit_value (show_nat n) = Some vs"
    using show_nat_digits [of n] unfolding show_nat_def by blast
  then have "\<exists>v. digit_value c = Some v" if "c \<in> set (show_nat n)" for c
    using that by (rule traverse_set') auto
  then have "48 \<le> byte c \<and> byte c \<le> 57" if "c \<in> set (show_nat n)" for c
    using that by (fastforce simp: digit_value_def split: if_splits)
  then show ?thesis by (simp add: list_all_iff)
qed

lemma show_nat_plain: "c \<in> set (show_nat n) \<Longrightarrow> 48 \<le> byte c \<and> byte c \<le> 57"
  using show_nat_bytes by (auto simp: list_all_iff)

end
