(* ===== verification/Instruction.thy ===== *)
theory Instruction
  imports Text Address
begin

unbundle bit_operations_syntax

text \<open>
  \<open>instruction/\<close>: the lift of the facade's decoded instruction to a value whose parts are
  enumerations. The facade's record is \<open>instruction_data\<close>, field for field; its status codes become
  errors, its sentinels become absent parts, and a code outside the range the two sides agreed on
  is an \<open>unreachable!\<close>, which is \<open>None\<close> here.
\<close>

subsection \<open>Register classes\<close>

datatype register_class =
  GeneralPurpose | SegmentReg | Xmm | Ymm | Zmm | MaskReg | St | Mmx | Control | DebugReg | TestReg | Ip | Bnd

definition register_classes :: "register_class list" where
  "register_classes =
     [GeneralPurpose, SegmentReg, Xmm, Ymm, Zmm, MaskReg, St, Mmx, Control, DebugReg, TestReg, Ip, Bnd]"

primrec register_class_raw :: "register_class \<Rightarrow> u8" where
  "register_class_raw GeneralPurpose = 0"
| "register_class_raw SegmentReg = 1"
| "register_class_raw Xmm = 2"
| "register_class_raw Ymm = 3"
| "register_class_raw Zmm = 4"
| "register_class_raw MaskReg = 5"
| "register_class_raw St = 6"
| "register_class_raw Mmx = 7"
| "register_class_raw Control = 8"
| "register_class_raw DebugReg = 9"
| "register_class_raw TestReg = 10"
| "register_class_raw Ip = 11"
| "register_class_raw Bnd = 12"

text \<open>The derived \<open>try_from\<close>.\<close>

definition register_class_try_from :: "u8 \<Rightarrow> register_class option" where
  "register_class_try_from raw = List.find (\<lambda>c. register_class_raw c = raw) register_classes"

definition name_prefix :: "register_class \<Rightarrow> string option" where
  "name_prefix c =
     (case c of
        Xmm \<Rightarrow> Some ''xmm'' | Ymm \<Rightarrow> Some ''ymm'' | Zmm \<Rightarrow> Some ''zmm'' | Mmx \<Rightarrow> Some ''mm''
      | MaskReg \<Rightarrow> Some ''k'' | Bnd \<Rightarrow> Some ''bnd'' | St \<Rightarrow> Some ''st'' | Control \<Rightarrow> Some ''cr''
      | DebugReg \<Rightarrow> Some ''dr'' | TestReg \<Rightarrow> Some ''tr''
      | GeneralPurpose \<Rightarrow> None | SegmentReg \<Rightarrow> None | Ip \<Rightarrow> None)"

definition is_ascii_digit :: "char \<Rightarrow> bool" where
  "is_ascii_digit c \<longleftrightarrow> of_char c \<ge> (48 :: nat) \<and> of_char c \<le> (57 :: nat)"

definition class_names :: "string \<Rightarrow> register_class \<Rightarrow> bool" where
  "class_names name c =
     (case name_prefix c of
        None \<Rightarrow> False
      | Some p \<Rightarrow>
          (case strip_prefix p name of
             None \<Rightarrow> False
           | Some rest \<Rightarrow> (case rest of [] \<Rightarrow> False | d # _ \<Rightarrow> is_ascii_digit d)))"

definition from_name :: "string \<Rightarrow> register_class option" where
  "from_name name = List.find (class_names name) register_classes"

definition show_register_class :: "register_class \<Rightarrow> string" where
  "show_register_class c =
     (case c of GeneralPurpose \<Rightarrow> ''general-purpose'' | SegmentReg \<Rightarrow> ''segment'' | Xmm \<Rightarrow> ''xmm''
      | Ymm \<Rightarrow> ''ymm'' | Zmm \<Rightarrow> ''zmm'' | MaskReg \<Rightarrow> ''mask'' | St \<Rightarrow> ''st'' | Mmx \<Rightarrow> ''mmx''
      | Control \<Rightarrow> ''control'' | DebugReg \<Rightarrow> ''debug'' | TestReg \<Rightarrow> ''test'' | Ip \<Rightarrow> ''ip'' | Bnd \<Rightarrow> ''bnd'')"

subsection \<open>Data types of operands\<close>

datatype operand_data_type =
  DtByte | DtWord | DtDword | DtFloat | DtDouble | DtTbyte | DtPackReal | DtQword | DtByte16 | DtCode
| DtVoid | DtFword | DtBitField | DtString | DtUnicode | DtLdbl | DtByte32 | DtByte64 | DtHalf

definition operand_data_types :: "operand_data_type list" where
  "operand_data_types =
     [DtByte, DtWord, DtDword, DtFloat, DtDouble, DtTbyte, DtPackReal, DtQword, DtByte16, DtCode,
      DtVoid, DtFword, DtBitField, DtString, DtUnicode, DtLdbl, DtByte32, DtByte64, DtHalf]"

primrec operand_data_type_raw :: "operand_data_type \<Rightarrow> u8" where
  "operand_data_type_raw DtByte = 0"
| "operand_data_type_raw DtWord = 1"
| "operand_data_type_raw DtDword = 2"
| "operand_data_type_raw DtFloat = 3"
| "operand_data_type_raw DtDouble = 4"
| "operand_data_type_raw DtTbyte = 5"
| "operand_data_type_raw DtPackReal = 6"
| "operand_data_type_raw DtQword = 7"
| "operand_data_type_raw DtByte16 = 8"
| "operand_data_type_raw DtCode = 9"
| "operand_data_type_raw DtVoid = 10"
| "operand_data_type_raw DtFword = 11"
| "operand_data_type_raw DtBitField = 12"
| "operand_data_type_raw DtString = 13"
| "operand_data_type_raw DtUnicode = 14"
| "operand_data_type_raw DtLdbl = 15"
| "operand_data_type_raw DtByte32 = 16"
| "operand_data_type_raw DtByte64 = 17"
| "operand_data_type_raw DtHalf = 18"

definition operand_data_type_try_from :: "u8 \<Rightarrow> operand_data_type option" where
  "operand_data_type_try_from raw = List.find (\<lambda>t. operand_data_type_raw t = raw) operand_data_types"

definition operand_data_type_bytes :: "operand_data_type \<Rightarrow> u32 option" where
  "operand_data_type_bytes t =
     (case t of
        DtByte \<Rightarrow> Some 1
      | DtWord \<Rightarrow> Some 2 | DtHalf \<Rightarrow> Some 2
      | DtDword \<Rightarrow> Some 4 | DtFloat \<Rightarrow> Some 4
      | DtFword \<Rightarrow> Some 6
      | DtDouble \<Rightarrow> Some 8 | DtQword \<Rightarrow> Some 8
      | DtByte16 \<Rightarrow> Some 16
      | DtByte32 \<Rightarrow> Some 32
      | DtByte64 \<Rightarrow> Some 64
      | _ \<Rightarrow> None)"

definition operand_data_type_is_float :: "operand_data_type \<Rightarrow> bool" where
  "operand_data_type_is_float t \<longleftrightarrow> t \<in> set [DtFloat, DtDouble, DtTbyte, DtLdbl, DtHalf]"

definition show_operand_data_type :: "operand_data_type \<Rightarrow> string" where
  "show_operand_data_type t =
     (case t of
        DtByte \<Rightarrow> ''byte'' | DtWord \<Rightarrow> ''word'' | DtDword \<Rightarrow> ''dword'' | DtFloat \<Rightarrow> ''float''
      | DtDouble \<Rightarrow> ''double'' | DtTbyte \<Rightarrow> ''tbyte'' | DtPackReal \<Rightarrow> ''packed real''
      | DtQword \<Rightarrow> ''qword'' | DtByte16 \<Rightarrow> ''byte16'' | DtCode \<Rightarrow> ''code pointer''
      | DtVoid \<Rightarrow> ''void'' | DtFword \<Rightarrow> ''fword'' | DtBitField \<Rightarrow> ''bit field''
      | DtString \<Rightarrow> ''string pointer'' | DtUnicode \<Rightarrow> ''unicode string pointer''
      | DtLdbl \<Rightarrow> ''long double'' | DtByte32 \<Rightarrow> ''byte32'' | DtByte64 \<Rightarrow> ''byte64'' | DtHalf \<Rightarrow> ''half'')"

subsection \<open>What the facade hands over\<close>

record register_data =
  rd_num :: u16
  rd_cls :: u8
  rd_width :: u8
  rd_name :: string

record operand_data =
  od_kind :: u8
  od_idx :: u8
  od_offb :: u8
  od_data_type :: u8
  od_access :: u8
  od_scale :: u8
  od_reg :: register_data
  od_base :: register_data
  od_index :: register_data
  od_disp :: u64
  od_value :: u64
  od_addr :: u64
  od_sel :: u16
  od_broadcast :: u8

record instruction_data =
  id_status :: u32
  id_err_op :: u8
  id_err_optype :: u8
  id_target :: u64
  id_itype :: u16
  id_len :: u8
  id_isa :: u8
  id_flow :: u8
  id_mnemonic :: string
  id_ops :: "operand_data list"
  id_mask :: register_data
  id_zeroing :: u8
  id_fp_control :: u8
  id_round_mode :: u8

definition REG_NONE :: u16 where "REG_NONE = 0xFFFF"

definition OP_REG :: u8 where "OP_REG = 0"
definition OP_MEM :: u8 where "OP_MEM = 1"
definition OP_IMM :: u8 where "OP_IMM = 2"
definition OP_NEAR :: u8 where "OP_NEAR = 3"
definition OP_FAR :: u8 where "OP_FAR = 4"

definition FPC_NONE :: u8 where "FPC_NONE = 0"
definition FPC_ROUNDING :: u8 where "FPC_ROUNDING = 1"
definition FPC_SAE :: u8 where "FPC_SAE = 2"

definition FLOW_CALL :: u8 where "FLOW_CALL = 0x01"
definition FLOW_RET :: u8 where "FLOW_RET = 0x02"
definition FLOW_JUMP :: u8 where "FLOW_JUMP = 0x04"
definition FLOW_INDIRECT :: u8 where "FLOW_INDIRECT = 0x08"
definition FLOW_STOPS :: u8 where "FLOW_STOPS = 0x10"

definition ACCESS_READ :: u8 where "ACCESS_READ = 1"
definition ACCESS_WRITTEN :: u8 where "ACCESS_WRITTEN = 2"

subsection \<open>The instruction\<close>

record register =
  reg_number :: u16
  reg_class :: register_class
  reg_width :: u8
  reg_name :: string

record memory =
  mem_base :: "register option"
  mem_index :: "register option"
  mem_scale :: u8
  mem_displacement :: u64
  mem_segment :: "register option"
  mem_target :: "address option"
  mem_broadcast :: "u8 option"

datatype operand_kind =
    OkRegister register
  | OkMemory memory
  | OkImmediate u64
  | OkNear address
  | OkFar u16 u64

record access =
  acc_read :: bool
  acc_written :: bool

record operand =
  op_slot :: u8
  op_byte_offset :: u8
  op_kind :: operand_kind
  op_data_type :: operand_data_type
  op_access :: access

record masking =
  mk_register :: register
  mk_zeroing :: bool

datatype round_mode = Nearest | Down | UpWards | ToZero

primrec round_mode_raw :: "round_mode \<Rightarrow> u8" where
  "round_mode_raw Nearest = 0"
| "round_mode_raw Down = 1"
| "round_mode_raw UpWards = 2"
| "round_mode_raw ToZero = 3"

definition round_mode_try_from :: "u8 \<Rightarrow> round_mode option" where
  "round_mode_try_from raw = List.find (\<lambda>m. round_mode_raw m = raw) [Nearest, Down, UpWards, ToZero]"

datatype fp_control = Rounding round_mode | SuppressExceptions

record flow =
  fl_is_call :: bool
  fl_is_ret :: bool
  fl_is_jump :: bool
  fl_is_indirect :: bool
  fl_stops :: bool
  fl_target :: "address option"

datatype isa = X86 | X64

record instruction =
  in_address :: address
  in_len :: u8
  in_isa :: isa
  in_canonical_code :: u16
  in_mnemonic :: string
  in_ops :: "operand list"
  in_flow :: flow
  in_masking :: "masking option"
  in_fp_control :: "fp_control option"

definition operand_registers :: "operand_kind \<Rightarrow> register list" where
  "operand_registers k =
     (case k of
        OkRegister r \<Rightarrow> [r]
      | OkMemory m \<Rightarrow> List.map_filter id [mem_base m, mem_index m, mem_segment m]
      | _ \<Rightarrow> [])"

definition registers :: "instruction \<Rightarrow> register list" where
  "registers i = concat (map (\<lambda>op. operand_registers (op_kind op)) (in_ops i))"

datatype decode_error =
    NotCode u64
  | UnsupportedProcessor
  | UnsupportedOperand u64 u8 u8
  | UnsupportedRegister u64 u8 u8
  | UnsupportedDataType u64 u8 u8
  | MalformedOperand u64 u8 string

subsection \<open>The lift\<close>

text \<open>\<open>register\<close> of \<open>decode.rs\<close>: the outer option is the \<open>unreachable!\<close>, the inner the absent slot.\<close>

definition lift_register :: "register_data \<Rightarrow> register option option" where
  "lift_register r =
     (if rd_num r = REG_NONE then Some None
      else do {
        cls \<leftarrow> register_class_try_from (rd_cls r);
        Some (Some \<lparr>reg_number = rd_num r, reg_class = cls, reg_width = rd_width r,
          reg_name = rd_name r\<rparr>) })"

definition lift_memory :: "operand_data \<Rightarrow> memory option" where
  "lift_memory d =
     do { base \<leftarrow> lift_register (od_base d);
          index \<leftarrow> lift_register (od_index d);
          Some \<lparr>mem_base = base, mem_index = index, mem_scale = od_scale d,
            mem_displacement = od_disp d, mem_segment = None, mem_target = try_new (od_addr d),
            mem_broadcast = (if od_broadcast d \<noteq> 0 then Some (od_broadcast d) else None)\<rparr> }"

definition lift_kind :: "operand_data \<Rightarrow> address \<Rightarrow> (decode_error + operand_kind) option" where
  "lift_kind d a =
     (if od_kind d = OP_REG then
        do { r \<leftarrow> lift_register (od_reg d);
             Some (case r of
               None \<Rightarrow> Inl (MalformedOperand (address_get a) (od_idx d)
                 ''register operand carries no register'')
             | Some r \<Rightarrow> Inr (OkRegister r)) }
      else if od_kind d = OP_MEM then map_option (\<lambda>m. Inr (OkMemory m)) (lift_memory d)
      else if od_kind d = OP_IMM then Some (Inr (OkImmediate (od_value d)))
      else if od_kind d = OP_NEAR then
        Some (case try_new (od_addr d) of
          None \<Rightarrow> Inl (MalformedOperand (address_get a) (od_idx d)
            ''near operand has no resolved target'')
        | Some t \<Rightarrow> Inr (OkNear t))
      else if od_kind d = OP_FAR then Some (Inr (OkFar (od_sel d) (od_value d)))
      else None)"

definition lift_operand :: "operand_data \<Rightarrow> address \<Rightarrow> (decode_error + operand) option" where
  "lift_operand d a =
     do { k \<leftarrow> lift_kind d a;
          Some (case k of
            Inl e \<Rightarrow> Inl e
          | Inr kind \<Rightarrow>
              (case operand_data_type_try_from (od_data_type d) of
                 None \<Rightarrow> Inl (UnsupportedDataType (address_get a) (od_idx d) (od_data_type d))
               | Some t \<Rightarrow>
                   Inr \<lparr>op_slot = od_idx d, op_byte_offset = od_offb d, op_kind = kind,
                     op_data_type = t,
                     op_access = \<lparr>acc_read = contains_flag (od_access d) ACCESS_READ,
                       acc_written = contains_flag (od_access d) ACCESS_WRITTEN\<rparr>\<rparr>)) }"

text \<open>\<open>collect\<close> into a \<open>Result\<close>: the first error ends it.\<close>

fun lift_operands :: "operand_data list \<Rightarrow> address \<Rightarrow> (decode_error + operand list) option" where
  "lift_operands [] a = Some (Inr [])"
| "lift_operands (d # ds) a =
     do { r \<leftarrow> lift_operand d a;
          case r of
            Inl e \<Rightarrow> Some (Inl e)
          | Inr x \<Rightarrow>
              do { rs \<leftarrow> lift_operands ds a;
                   Some (case rs of Inl e \<Rightarrow> Inl e | Inr xs \<Rightarrow> Inr (x # xs)) } }"

definition lift_fp_control :: "instruction_data \<Rightarrow> fp_control option option" where
  "lift_fp_control d =
     (if id_fp_control d = FPC_NONE then Some None
      else if id_fp_control d = FPC_ROUNDING then
        map_option (\<lambda>m. Some (Rounding m)) (round_mode_try_from (id_round_mode d))
      else if id_fp_control d = FPC_SAE then Some (Some SuppressExceptions)
      else None)"

definition lift_flow :: "instruction_data \<Rightarrow> flow" where
  "lift_flow d =
     \<lparr>fl_is_call = contains_flag (id_flow d) FLOW_CALL,
      fl_is_ret = contains_flag (id_flow d) FLOW_RET,
      fl_is_jump = contains_flag (id_flow d) FLOW_JUMP,
      fl_is_indirect = contains_flag (id_flow d) FLOW_INDIRECT,
      fl_stops = contains_flag (id_flow d) FLOW_STOPS,
      fl_target = try_new (id_target d)\<rparr>"

definition insn_from_data :: "instruction_data \<Rightarrow> address \<Rightarrow> (decode_error + instruction) option" where
  "insn_from_data d a =
     do { r \<leftarrow> lift_operands (id_ops d) a;
          case r of
            Inl e \<Rightarrow> Some (Inl e)
          | Inr ops \<Rightarrow>
              do { m \<leftarrow> lift_register (id_mask d);
                   fp \<leftarrow> lift_fp_control d;
                   Some (Inr
                     \<lparr>in_address = a, in_len = id_len d,
                      in_isa = (if id_isa d = 1 then X64 else X86),
                      in_canonical_code = id_itype d, in_mnemonic = id_mnemonic d, in_ops = ops,
                      in_flow = lift_flow d,
                      in_masking =
                        map_option (\<lambda>r. \<lparr>mk_register = r, mk_zeroing = (id_zeroing d \<noteq> 0)\<rparr>) m,
                      in_fp_control = fp\<rparr>) } }"

definition classify_insn :: "instruction_data \<Rightarrow> address \<Rightarrow> (decode_error + instruction) option" where
  "classify_insn d a =
     (if id_status d = 0 then insn_from_data d a
      else Some (Inl
        (if id_status d = - 2 then UnsupportedProcessor
         else if id_status d = - 3 then UnsupportedOperand (address_get a) (id_err_op d) (id_err_optype d)
         else if id_status d = - 4 then UnsupportedRegister (address_get a) (id_err_op d) (id_err_optype d)
         else NotCode (address_get a))))"

text \<open>\<open>Database::decode\<close>, over the facade's decoder.\<close>

definition decode :: "(u64 \<Rightarrow> instruction_data) \<Rightarrow> address \<Rightarrow> (decode_error + instruction) option" where
  "decode decode_insn a = classify_insn (decode_insn (address_get a)) a"

subsection \<open>Naming a class\<close>

lemma name_prefix_letters: "name_prefix c = Some p \<Longrightarrow> \<forall>ch \<in> set p. \<not> is_ascii_digit ch"
  by (cases c) (auto simp: name_prefix_def is_ascii_digit_def)

lemma name_prefix_inj: "name_prefix c = Some p \<Longrightarrow> name_prefix c' = Some p \<Longrightarrow> c = c'"
  by (cases c; cases c') (auto simp: name_prefix_def)

lemma strip_prefix_Some_iff: "strip_prefix p s = Some r \<longleftrightarrow> s = p @ r"
  by (auto simp: strip_prefix_def) (metis append_take_drop_id)

lemma class_names_iff:
  "class_names name c \<longleftrightarrow>
     (\<exists>p d rest. name_prefix c = Some p \<and> name = p @ d # rest \<and> is_ascii_digit d)"
  by (auto simp: class_names_def strip_prefix_Some_iff split: option.splits list.splits)

text \<open>The letters of a name decide: no two classes can claim one register.\<close>

lemma class_names_unique: "class_names name c \<Longrightarrow> class_names name c' \<Longrightarrow> c = c'"
proof -
  have "name_prefix c = Some (takeWhile (\<lambda>ch. \<not> is_ascii_digit ch) name)" if "class_names name c" for c
    using that name_prefix_letters [of c]
    by (auto simp: class_names_iff takeWhile_append2)
  then show "class_names name c \<Longrightarrow> class_names name c' \<Longrightarrow> c = c'" by (blast intro: name_prefix_inj)
qed

lemma set_register_classes [simp]: "c \<in> set register_classes"
  by (cases c) (simp_all add: register_classes_def)

lemma find_unique:
  assumes "x \<in> set xs" and "\<And>y. P y \<Longrightarrow> y = x"
  shows "List.find P xs = (if P x then Some x else None)"
proof (cases "List.find P xs")
  case None
  with assms show ?thesis by (auto simp: find_None_iff)
next
  case (Some y)
  then have "P y" by (auto simp: find_Some_iff)
  with Some assms(2) show ?thesis by auto
qed

text \<open>
  A register's class is read off its name exactly when the name is the class's prefix followed
  by a decimal digit: whatever the order the classes are tried in, the answer is the only class
  whose prefix fits, and it is none where no prefix does.
\<close>

theorem from_name_reads_prefix:
  "from_name name = Some c \<longleftrightarrow>
     (\<exists>p d rest. name_prefix c = Some p \<and> name = p @ d # rest \<and> is_ascii_digit d)"
  unfolding class_names_iff [symmetric]
proof
  assume "from_name name = Some c"
  then show "class_names name c" unfolding from_name_def find_Some_iff by blast
next
  assume named: "class_names name c"
  have "y = c" if "class_names name y" for y by (rule class_names_unique [OF that named])
  from find_unique [of c register_classes "class_names name", OF set_register_classes this] named
  show "from_name name = Some c" by (simp only: from_name_def if_True)
qed

subsection \<open>The verdict of a decode\<close>

lemma register_class_try_from_raw [simp]: "register_class_try_from (register_class_raw c) = Some c"
  by (cases c) (simp_all add: register_class_try_from_def register_classes_def)

text \<open>What the facade promises: the codes it writes are in range.\<close>

definition register_in_range :: "register_data \<Rightarrow> bool" where
  "register_in_range r \<longleftrightarrow> rd_num r = REG_NONE \<or> register_class_try_from (rd_cls r) \<noteq> None"

definition operand_in_range :: "operand_data \<Rightarrow> bool" where
  "operand_in_range d \<longleftrightarrow>
     od_kind d \<in> {OP_REG, OP_MEM, OP_IMM, OP_NEAR, OP_FAR} \<and>
     (od_kind d = OP_REG \<longrightarrow> register_in_range (od_reg d)) \<and>
     (od_kind d = OP_MEM \<longrightarrow> register_in_range (od_base d) \<and> register_in_range (od_index d))"

definition facade_ok :: "instruction_data \<Rightarrow> bool" where
  "facade_ok d \<longleftrightarrow>
     list_all operand_in_range (id_ops d) \<and> register_in_range (id_mask d) \<and>
     id_fp_control d \<in> {FPC_NONE, FPC_ROUNDING, FPC_SAE} \<and>
     (id_fp_control d = FPC_ROUNDING \<longrightarrow> round_mode_try_from (id_round_mode d) \<noteq> None)"

text \<open>What is wrong with an operand whose codes are in range, if anything.\<close>

definition operand_fault :: "address \<Rightarrow> operand_data \<Rightarrow> decode_error option" where
  "operand_fault a d =
     (if od_kind d = OP_REG \<and> rd_num (od_reg d) = REG_NONE then
        Some (MalformedOperand (address_get a) (od_idx d) ''register operand carries no register'')
      else if od_kind d = OP_NEAR \<and> od_addr d = BADADDR then
        Some (MalformedOperand (address_get a) (od_idx d) ''near operand has no resolved target'')
      else if operand_data_type_try_from (od_data_type d) = None then
        Some (UnsupportedDataType (address_get a) (od_idx d) (od_data_type d))
      else None)"

lemmas op_codes = OP_REG_def OP_MEM_def OP_IMM_def OP_NEAR_def OP_FAR_def

lemma register_in_range_lifts: "register_in_range r \<Longrightarrow> \<exists>x. lift_register r = Some x"
  by (auto simp: register_in_range_def lift_register_def)

lemma lift_kind_in_range:
  assumes "operand_in_range d"
  shows "\<exists>k. lift_kind d a = Some k \<and>
    ((\<exists>e. k = Inl e) \<longleftrightarrow>
       od_kind d = OP_REG \<and> rd_num (od_reg d) = REG_NONE \<or> od_kind d = OP_NEAR \<and> od_addr d = BADADDR) \<and>
    (\<forall>e. k = Inl e \<longrightarrow> operand_fault a d = Some e)"
proof -
  consider (reg) "od_kind d = OP_REG" "register_in_range (od_reg d)"
    | (mem) "od_kind d = OP_MEM" "register_in_range (od_base d)" "register_in_range (od_index d)"
    | (imm) "od_kind d = OP_IMM" | (near) "od_kind d = OP_NEAR" | (far) "od_kind d = OP_FAR"
    using assms by (auto simp: operand_in_range_def)
  then show ?thesis
  proof cases
    case reg
    then show ?thesis
      by (auto simp: lift_kind_def lift_register_def register_in_range_def operand_fault_def op_codes)
  next
    case mem
    with register_in_range_lifts [of "od_base d"] register_in_range_lifts [of "od_index d"]
    show ?thesis by (auto simp: lift_kind_def lift_memory_def op_codes)
  next
    case near
    then show ?thesis
    proof (cases "try_new (od_addr d)")
      case (Some t)
      moreover from this have "od_addr d \<noteq> BADADDR" by (metis try_new_None_iff option.distinct(1))
      ultimately show ?thesis using near by (simp add: lift_kind_def op_codes)
    qed (use near in \<open>simp add: lift_kind_def operand_fault_def op_codes\<close>)
  qed (simp_all add: lift_kind_def op_codes)
qed

lemma lift_operand_in_range:
  assumes "operand_in_range d"
  shows "case operand_fault a d of
      Some e \<Rightarrow> lift_operand d a = Some (Inl e)
    | None \<Rightarrow> \<exists>x. lift_operand d a = Some (Inr x)"
proof -
  from lift_kind_in_range [OF assms, of a] obtain k where k: "lift_kind d a = Some k"
    "(\<exists>e. k = Inl e) \<longleftrightarrow>
       od_kind d = OP_REG \<and> rd_num (od_reg d) = REG_NONE \<or> od_kind d = OP_NEAR \<and> od_addr d = BADADDR"
    "\<forall>e. k = Inl e \<longrightarrow> operand_fault a d = Some e" by blast
  show ?thesis
  proof (cases k)
    case (Inl e)
    with k show ?thesis by (simp add: lift_operand_def)
  next
    case (Inr x)
    with k(2) have "operand_fault a d = (if operand_data_type_try_from (od_data_type d) = None
        then Some (UnsupportedDataType (address_get a) (od_idx d) (od_data_type d)) else None)"
      by (auto simp: operand_fault_def)
    with Inr k(1) show ?thesis by (auto simp: lift_operand_def split: option.splits)
  qed
qed

lemma lift_operands_in_range:
  "list_all operand_in_range ds \<Longrightarrow>
   (case List.map_filter (operand_fault a) ds of
      e # _ \<Rightarrow> lift_operands ds a = Some (Inl e)
    | [] \<Rightarrow> \<exists>xs. lift_operands ds a = Some (Inr xs))"
proof (induction ds)
  case (Cons d ds)
  then have d: "operand_in_range d" by simp
  show ?case
  proof (cases "operand_fault a d")
    case None
    with lift_operand_in_range [OF d, of a] Cons show ?thesis
      by (auto simp: map_filter_simps split: list.splits)
  next
    case (Some e)
    with lift_operand_in_range [OF d, of a] show ?thesis by (simp add: map_filter_simps)
  qed
qed (simp add: map_filter_simps)

lemma lift_operands_list_all2:
  "lift_operands ds a = Some (Inr xs) \<Longrightarrow> list_all2 (\<lambda>d x. lift_operand d a = Some (Inr x)) ds xs"
proof (induction ds arbitrary: xs)
  case (Cons d ds)
  from Cons.prems obtain r where r: "lift_operand d a = Some r" by (cases "lift_operand d a") simp_all
  with Cons.prems obtain x where x: "r = Inr x" by (cases r) simp_all
  with r Cons.prems obtain rs where rs: "lift_operands ds a = Some rs"
    by (cases "lift_operands ds a") simp_all
  with r x Cons.prems obtain xs' where "rs = Inr xs'" by (cases rs) simp_all
  with r x rs Cons show ?case by auto
qed simp

lemma lift_fp_control_in_range:
  "facade_ok d \<Longrightarrow> \<exists>x. lift_fp_control d = Some x"
  by (auto simp: facade_ok_def lift_fp_control_def FPC_NONE_def FPC_ROUNDING_def FPC_SAE_def)

lemma insn_returns: "facade_ok d \<Longrightarrow> \<exists>r. insn_from_data d a = Some r"
  using lift_operands_in_range [of "id_ops d" a] lift_fp_control_in_range [of d]
    register_in_range_lifts [of "id_mask d"]
  by (fastforce simp: insn_from_data_def facade_ok_def split: list.splits)

text \<open>
  C19: on a record whose codes are in the agreed range the lift never reaches an \<open>unreachable!\<close>: a
  decoded instruction is returned with every operand lifted, in order, unless an operand is at
  fault; then the error is the fault of the first such operand, so an instruction is never returned
  with an operand left out.
\<close>

theorem decode_verdict:
  assumes "facade_ok (dec (address_get a))" and "id_status (dec (address_get a)) = 0"
  shows "case List.map_filter (operand_fault a) (id_ops (dec (address_get a))) of
      e # _ \<Rightarrow> decode dec a = Some (Inl e)
    | [] \<Rightarrow> \<exists>i. decode dec a = Some (Inr i) \<and> in_address i = a \<and>
        list_all2 (\<lambda>d x. lift_operand d a = Some (Inr x)) (id_ops (dec (address_get a))) (in_ops i)"
proof -
  let ?d = "dec (address_get a)"
  from assms(1) have ops: "list_all operand_in_range (id_ops ?d)" by (simp add: facade_ok_def)
  show ?thesis
  proof (cases "List.map_filter (operand_fault a) (id_ops ?d)")
    case Nil
    with lift_operands_in_range [OF ops, of a] obtain xs where
      xs: "lift_operands (id_ops ?d) a = Some (Inr xs)" by auto
    moreover obtain m where "lift_register (id_mask ?d) = Some m"
      using assms(1) register_in_range_lifts by (auto simp: facade_ok_def)
    moreover obtain fp where "lift_fp_control ?d = Some fp"
      using lift_fp_control_in_range [OF assms(1)] by blast
    ultimately show ?thesis using Nil assms(2) lift_operands_list_all2 [OF xs]
      by (simp add: decode_def classify_insn_def insn_from_data_def)
  next
    case (Cons e es)
    with lift_operands_in_range [OF ops, of a] assms(2) show ?thesis
      by (simp add: decode_def classify_insn_def insn_from_data_def)
  qed
qed

definition no_register :: register_data where
  "no_register = \<lparr>rd_num = REG_NONE, rd_cls = 0, rd_width = 0, rd_name = []\<rparr>"

definition sample_operand :: "u8 \<Rightarrow> u8 \<Rightarrow> u8 \<Rightarrow> operand_data" where
  "sample_operand kind idx dt =
     \<lparr>od_kind = kind, od_idx = idx, od_offb = 0, od_data_type = dt, od_access = 1, od_scale = 1,
      od_reg = no_register, od_base = no_register, od_index = no_register, od_disp = 0,
      od_value = 7, od_addr = BADADDR, od_sel = 0, od_broadcast = 0\<rparr>"

definition sample_data :: "operand_data list \<Rightarrow> instruction_data" where
  "sample_data ops =
     \<lparr>id_status = 0, id_err_op = 0, id_err_optype = 0, id_target = BADADDR, id_itype = 122,
      id_len = 5, id_isa = 1, id_flow = 0, id_mnemonic = ''mov'', id_ops = ops,
      id_mask = no_register, id_zeroing = 0, id_fp_control = 0, id_round_mode = 0\<rparr>"

theorem decode_verdict_witness:
  "decode (\<lambda>_. sample_data [sample_operand 1 0 2, sample_operand 2 1 30, sample_operand 3 2 7])
     (Address (NOT 64)) = Some (Inl (UnsupportedDataType 64 1 30))"
proof -
  let ?ops = "[sample_operand 1 0 2, sample_operand 2 1 30, sample_operand 3 2 7]"
  have "facade_ok (sample_data ?ops)" and "id_status (sample_data ?ops) = 0"
    by (simp_all add: facade_ok_def sample_data_def sample_operand_def operand_in_range_def
        register_in_range_def no_register_def op_codes FPC_NONE_def FPC_ROUNDING_def FPC_SAE_def)
  moreover have "List.map_filter (operand_fault (Address (NOT 64))) ?ops =
      [UnsupportedDataType 64 1 30, MalformedOperand 64 2 ''near operand has no resolved target'']"
    by (simp add: map_filter_simps operand_fault_def sample_operand_def op_codes address_get_def
        operand_data_type_try_from_def operand_data_types_def)
  ultimately show ?thesis
    using decode_verdict [of "\<lambda>_. sample_data ?ops" "Address (NOT 64)"] by (simp add: sample_data_def)
qed

end
