(* ===== verification/Iterator.thy ===== *)
theory Iterator
  imports Prelude
begin

text \<open>
  The interface of an \<open>Iterator\<close>: a \<open>next\<close> that may panic (\<open>None\<close>), or answers an item or none, with
  the state it leaves. \<open>lazy_iterator\<close> is the contract that such a \<open>next\<close> works off a list that the
  state determines; each iterator of the development is an interpretation.
\<close>

text \<open>Calling \<open>next\<close> until it answers none, at most so many times.\<close>

fun drain :: "nat \<Rightarrow> ('s \<Rightarrow> ('i option \<times> 's) option) \<Rightarrow> 's \<Rightarrow> 'i list option" where
  "drain 0 nxt s = None"
| "drain (Suc n) nxt s =
     do { (r, s') \<leftarrow> nxt s;
          case r of
            None \<Rightarrow> Some []
          | Some i \<Rightarrow> map_option (Cons i) (drain n nxt s') }"

locale lazy_iterator =
  fixes nxt :: "'s \<Rightarrow> ('i option \<times> 's) option"
    and inv :: "'s \<Rightarrow> bool"
    and remaining :: "'s \<Rightarrow> 'i list"
  assumes ends: "inv s \<Longrightarrow> remaining s = [] \<Longrightarrow> \<exists>s'. nxt s = Some (None, s') \<and> inv s' \<and> remaining s' = []"
    and yields: "inv s \<Longrightarrow> remaining s = i # is \<Longrightarrow>
      \<exists>s'. nxt s = Some (Some i, s') \<and> inv s' \<and> remaining s' = is"
begin

lemma drains:
  assumes "inv s" and "length (remaining s) < n"
  shows "drain n nxt s = Some (remaining s)"
  using assms
proof (induction n arbitrary: s)
  case (Suc n)
  show ?case
  proof (cases "remaining s")
    case Nil
    from ends [OF Suc.prems(1) Nil] Nil show ?thesis by auto
  next
    case (Cons i js)
    from yields [OF Suc.prems(1) Cons] obtain s' where
      s': "nxt s = Some (Some i, s')" "inv s'" "remaining s' = js" by blast
    with Suc.IH [of s'] Suc.prems(2) Cons show ?thesis by simp
  qed
qed simp

text \<open>\<open>count\<close> never panics, and what it ends on stays ended.\<close>

lemma fused:
  assumes "inv s" and "remaining s = []"
  shows "\<exists>s'. nxt s = Some (None, s') \<and> drain 1 nxt s' = Some []"
proof -
  from ends [OF assms] obtain s' where s': "nxt s = Some (None, s')" "inv s'" "remaining s' = []" by blast
  with drains [of s' 1] show ?thesis by simp
qed

end

end
