(* ===== verification/Item_Walk.thy ===== *)
theory Item_Walk
  imports Instruction Iterator
begin

unbundle bit_operations_syntax

text \<open>
  \<open>bytes.rs\<close> and \<open>instruction/iter.rs\<close>: the kernel's classification of bytes into items, and the two
  iterators over the instructions of a range and of a function, which step from item to item and
  yield the ones that are code and decode. What the kernel knows is the record \<open>item_kernel\<close>; nothing
  is assumed of it, an item that ends where it starts included.
\<close>

subsection \<open>Items\<close>

record item_kernel =
  ik_flags :: "u64 \<Rightarrow> u64"
  ik_item_head :: "u64 \<Rightarrow> u64"
  ik_item_end :: "u64 \<Rightarrow> u64"
  ik_next_head :: "u64 \<Rightarrow> u64 \<Rightarrow> u64"
  ik_prev_head :: "u64 \<Rightarrow> u64 \<Rightarrow> u64"
  ik_get_bytes :: "u64 \<Rightarrow> nat \<Rightarrow> int"
  ik_decode :: "u64 \<Rightarrow> instruction_data"
  ik_all_chunks :: "u64 \<Rightarrow> (u64 \<times> u64) list"

datatype byte_class = UnknownByte | TailByte | DataByte | CodeByte

definition MS_CLS :: u64 where "MS_CLS = 0x0600"
definition FF_CODE :: u64 where "FF_CODE = 0x0600"
definition FF_DATA :: u64 where "FF_DATA = 0x0400"
definition FF_TAIL :: u64 where "FF_TAIL = 0x0200"

definition byte_class_from_flags :: "u64 \<Rightarrow> byte_class" where
  "byte_class_from_flags flags =
     (let c = flags AND MS_CLS
      in if c = FF_CODE then CodeByte else if c = FF_DATA then DataByte
         else if c = FF_TAIL then TailByte else UnknownByte)"

definition byte_class :: "item_kernel \<Rightarrow> address \<Rightarrow> byte_class" where
  "byte_class k a = byte_class_from_flags (ik_flags k (address_get a))"

definition is_code :: "item_kernel \<Rightarrow> address \<Rightarrow> bool" where
  "is_code k a \<longleftrightarrow> byte_class k a = CodeByte"

definition is_data :: "item_kernel \<Rightarrow> address \<Rightarrow> bool" where
  "is_data k a \<longleftrightarrow> byte_class k a = DataByte"

definition is_tail :: "item_kernel \<Rightarrow> address \<Rightarrow> bool" where
  "is_tail k a \<longleftrightarrow> byte_class k a = TailByte"

definition is_unknown :: "item_kernel \<Rightarrow> address \<Rightarrow> bool" where
  "is_unknown k a \<longleftrightarrow> byte_class k a = UnknownByte"

definition unwrap_or :: "'a option \<Rightarrow> 'a \<Rightarrow> 'a" where
  "unwrap_or x d = (case x of Some v \<Rightarrow> v | None \<Rightarrow> d)"

definition item_head :: "item_kernel \<Rightarrow> address \<Rightarrow> address" where
  "item_head k a = unwrap_or (try_new (ik_item_head k (address_get a))) a"

definition item_end :: "item_kernel \<Rightarrow> address \<Rightarrow> address" where
  "item_end k a = unwrap_or (try_new (ik_item_end k (address_get a))) a"

definition next_head :: "item_kernel \<Rightarrow> address \<Rightarrow> address \<Rightarrow> address option" where
  "next_head k a limit = try_new (ik_next_head k (address_get a) (address_get limit))"

definition prev_head :: "item_kernel \<Rightarrow> address \<Rightarrow> address \<Rightarrow> address option" where
  "prev_head k a limit = try_new (ik_prev_head k (address_get a) (address_get limit))"

text \<open>How many bytes of the buffer \<open>read_into\<close> filled.\<close>

definition read_into :: "item_kernel \<Rightarrow> address \<Rightarrow> nat \<Rightarrow> nat" where
  "read_into k a buf_len = min (nat (max (ik_get_bytes k (address_get a) buf_len) 0)) buf_len"

subsection \<open>The instructions of a range\<close>

text \<open>
  The step past an item, which both iterators take before they decide to yield: a zero-width item
  ends the walk.
\<close>

definition step_past :: "item_kernel \<Rightarrow> address \<Rightarrow> address \<Rightarrow> address" where
  "step_past k a e = (let stepped = item_end k a in if a < stepped then stepped else e)"

definition gap :: "address \<Rightarrow> address \<Rightarrow> nat" where
  "gap a e = unat (address_get e) - unat (address_get a)"

lemma gap_step_past: "a < e \<Longrightarrow> gap (step_past k a e) e < gap a e"
  by (auto simp: gap_def step_past_def Let_def address_less_iff word_less_nat_alt)

text \<open>\<open>InstructionsIn::next\<close>: the item, and the cursor it leaves; \<open>None\<close> is a panic of the decoder.\<close>

function instructions_in_next ::
  "item_kernel \<Rightarrow> address \<Rightarrow> address \<Rightarrow> (instruction option \<times> address) option" where
  "instructions_in_next k cursor e =
     (if cursor < e then
        let cursor' = step_past k cursor e
        in if is_code k cursor then
             (case decode (ik_decode k) cursor of
                None \<Rightarrow> None
              | Some (Inr i) \<Rightarrow> Some (Some i, cursor')
              | Some (Inl _) \<Rightarrow> instructions_in_next k cursor' e)
           else instructions_in_next k cursor' e
      else Some (None, cursor))"
  by pat_completeness auto
termination
  by (relation "measure (\<lambda>(k, c, e). gap c e)") (auto simp: gap_step_past)

declare instructions_in_next.simps [simp del]

subsection \<open>The instructions of a function\<close>

record function_chunk =
  fch_start :: address
  fch_end :: address

definition function_chunks_new :: "item_kernel \<Rightarrow> address \<Rightarrow> function_chunk list" where
  "function_chunks_new k a =
     List.map_filter
       (\<lambda>(s, e). do { s' \<leftarrow> try_new s; e' \<leftarrow> try_new e; Some \<lparr>fch_start = s', fch_end = e'\<rparr> })
       (ik_all_chunks k (address_get a))"

record instructions_iter =
  ii_chunks :: "function_chunk list"
  ii_cursor :: "(address \<times> address) option"

definition instructions_new :: "item_kernel \<Rightarrow> address \<Rightarrow> instructions_iter" where
  "instructions_new k a = \<lparr>ii_chunks = function_chunks_new k a, ii_cursor = None\<rparr>"

definition cursor_gap :: "(address \<times> address) option \<Rightarrow> nat" where
  "cursor_gap c = (case c of None \<Rightarrow> 0 | Some (a, e) \<Rightarrow> gap a e)"

text \<open>The cursor where it still has an item of its chunk to look at.\<close>

definition live_cursor :: "(address \<times> address) option \<Rightarrow> (address \<times> address) option" where
  "live_cursor c = (case c of Some (a, e) \<Rightarrow> if a < e then Some (a, e) else None | None \<Rightarrow> None)"

function instructions_next ::
  "item_kernel \<Rightarrow> instructions_iter \<Rightarrow> (instruction option \<times> instructions_iter) option" where
  "instructions_next k it =
     (case live_cursor (ii_cursor it) of
        None \<Rightarrow>
          (case ii_chunks it of
             [] \<Rightarrow> Some (None, it)
           | c # cs \<Rightarrow>
               instructions_next k \<lparr>ii_chunks = cs, ii_cursor = Some (fch_start c, fch_end c)\<rparr>)
      | Some (a, e) \<Rightarrow>
          let it' = it\<lparr>ii_cursor := Some (step_past k a e, e)\<rparr>
          in if is_code k a then
               (case decode (ik_decode k) a of
                  None \<Rightarrow> None
                | Some (Inr i) \<Rightarrow> Some (Some i, it')
                | Some (Inl _) \<Rightarrow> instructions_next k it')
             else instructions_next k it')"
  by pat_completeness auto
termination
  by (relation "measures [\<lambda>(k, it). length (ii_chunks it), \<lambda>(k, it). cursor_gap (ii_cursor it)]")
    (auto simp: live_cursor_def cursor_gap_def gap_step_past split: option.splits if_splits)

declare instructions_next.simps [simp del]

subsection \<open>What the iterators yield\<close>

text \<open>The items of a range: where a walk that only steps from item to item stands.\<close>

function items_of :: "item_kernel \<Rightarrow> address \<Rightarrow> address \<Rightarrow> address list" where
  "items_of k a e = (if a < e then a # items_of k (step_past k a e) e else [])"
  by pat_completeness auto
termination
  by (relation "measure (\<lambda>(k, c, e). gap c e)") (auto simp: gap_step_past)

declare items_of.simps [simp del]

text \<open>The instruction an item yields, if it is code and decodes.\<close>

definition yielded :: "item_kernel \<Rightarrow> address \<Rightarrow> instruction option" where
  "yielded k a =
     (if is_code k a then
        (case decode (ik_decode k) a of Some (Inr i) \<Rightarrow> Some i | _ \<Rightarrow> None)
      else None)"

definition decoder_in_range :: "item_kernel \<Rightarrow> bool" where
  "decoder_in_range k \<longleftrightarrow> (\<forall>x. facade_ok (ik_decode k x))"

lemma decode_returns: "facade_ok (dec (address_get a)) \<Longrightarrow> \<exists>r. decode dec a = Some r"
proof (cases "id_status (dec (address_get a)) = 0")
  case True
  assume "facade_ok (dec (address_get a))"
  from insn_returns [OF this] True show ?thesis by (simp add: decode_def classify_insn_def)
qed (simp add: decode_def classify_insn_def)

lemma step_past_gt: "a < e \<Longrightarrow> a < step_past k a e"
  by (simp add: step_past_def Let_def)

lemma items_of_bounds: "x \<in> set (items_of k a e) \<Longrightarrow> a \<le> x \<and> x < e"
proof (induction k a e rule: items_of.induct)
  case (1 k a e)
  show ?case
  proof (cases "a < e")
    case True
    with 1 step_past_gt [OF True, of k] show ?thesis
      by (auto simp: items_of.simps [of k a e])
  qed (use 1 in \<open>simp add: items_of.simps [of k a e]\<close>)
qed

lemma items_of_sorted: "sorted_wrt (<) (items_of k a e)"
proof (induction k a e rule: items_of.induct)
  case (1 k a e)
  show ?case
  proof (cases "a < e")
    case True
    with 1 step_past_gt [OF True, of k] items_of_bounds [of _ k "step_past k a e" e]
    show ?thesis by (fastforce simp: items_of.simps [of k a e])
  qed (simp add: items_of.simps [of k a e])
qed

lemma items_of_length: "length (items_of k a e) \<le> gap a e"
proof (induction k a e rule: items_of.induct)
  case (1 k a e)
  show ?case
  proof (cases "a < e")
    case True
    with 1 gap_step_past [OF True, of k] show ?thesis by (simp add: items_of.simps [of k a e])
  qed (simp add: items_of.simps [of k a e])
qed

text \<open>
  The state of either iterator with the kernel it asks, and the instructions it has left.
\<close>

definition range_next ::
  "item_kernel \<times> address \<times> address \<Rightarrow> (instruction option \<times> item_kernel \<times> address \<times> address) option" where
  "range_next = (\<lambda>(k, a, e). map_option (\<lambda>(r, c). (r, k, c, e)) (instructions_in_next k a e))"

definition range_left :: "item_kernel \<times> address \<times> address \<Rightarrow> instruction list" where
  "range_left = (\<lambda>(k, a, e). List.map_filter (yielded k) (items_of k a e))"

definition chunk_items :: "item_kernel \<Rightarrow> function_chunk \<Rightarrow> address list" where
  "chunk_items k c = items_of k (fch_start c) (fch_end c)"

definition function_next ::
  "item_kernel \<times> instructions_iter \<Rightarrow> (instruction option \<times> item_kernel \<times> instructions_iter) option" where
  "function_next = (\<lambda>(k, it). map_option (\<lambda>(r, it'). (r, k, it')) (instructions_next k it))"

definition function_left :: "item_kernel \<times> instructions_iter \<Rightarrow> instruction list" where
  "function_left = (\<lambda>(k, it). List.map_filter (yielded k)
     ((case ii_cursor it of None \<Rightarrow> [] | Some (a, e) \<Rightarrow> items_of k a e) @
        concat (map (chunk_items k) (ii_chunks it))))"

lemma instructions_in_next_spec:
  assumes "decoder_in_range k"
  shows "instructions_in_next k a e =
    Some (case List.map_filter (yielded k) (items_of k a e) of
        [] \<Rightarrow> (None, snd (the (instructions_in_next k a e)))
      | i # _ \<Rightarrow> (Some i, snd (the (instructions_in_next k a e)))) \<and>
    List.map_filter (yielded k) (items_of k (snd (the (instructions_in_next k a e))) e) =
      tl (List.map_filter (yielded k) (items_of k a e))"
proof (induction "gap a e" arbitrary: a rule: less_induct)
  case less
  show ?case
  proof (cases "a < e")
    case True
    let ?c = "step_past k a e"
    from assms decode_returns [of "ik_decode k" a] obtain r where r: "decode (ik_decode k) a = Some r"
      by (auto simp: decoder_in_range_def)
    have items: "items_of k a e = a # items_of k ?c e" using True by (simp add: items_of.simps [of k a e])
    show ?thesis
    proof (cases "yielded k a")
      case None
      with True r have nxt: "instructions_in_next k a e = instructions_in_next k ?c e"
        by (auto simp: yielded_def instructions_in_next.simps [of k a e] Let_def split: if_splits sum.splits)
      from less [OF gap_step_past [OF True, of k]] None show ?thesis
        unfolding items nxt by (simp add: map_filter_simps)
    next
      case (Some i)
      with True r have "instructions_in_next k a e = Some (Some i, ?c)"
        by (auto simp: yielded_def instructions_in_next.simps [of k a e] Let_def split: if_splits sum.splits)
      with Some show ?thesis unfolding items by (simp add: map_filter_simps)
    qed
  next
    case False
    then show ?thesis
      by (simp add: items_of.simps [of k a e] instructions_in_next.simps [of k a e] map_filter_simps)
  qed
qed

interpretation range_walk: lazy_iterator range_next "\<lambda>(k, _). decoder_in_range k" range_left
proof
  fix s :: "item_kernel \<times> address \<times> address" and i js
  obtain k a e where s: "s = (k, a, e)" by (cases s)
  assume "case s of (k, _) \<Rightarrow> decoder_in_range k"
  then have k: "decoder_in_range k" by (simp add: s)
  note spec = instructions_in_next_spec [OF k, of a e]
  show "\<exists>s'. range_next s = Some (None, s') \<and> (case s' of (k, _) \<Rightarrow> decoder_in_range k) \<and> range_left s' = []"
    if "range_left s = []"
    using spec that k by (auto simp: s range_next_def range_left_def)
  show "\<exists>s'. range_next s = Some (Some i, s') \<and> (case s' of (k, _) \<Rightarrow> decoder_in_range k) \<and> range_left s' = js"
    if "range_left s = i # js"
    using spec that k by (auto simp: s range_next_def range_left_def)
qed

lemma items_of_live:
  "(case live_cursor c of None \<Rightarrow> [] | Some (a, e) \<Rightarrow> items_of k a e) =
     (case c of None \<Rightarrow> [] | Some (a, e) \<Rightarrow> items_of k a e)"
  by (auto simp: live_cursor_def items_of.simps split: option.splits)

lemma instructions_next_spec:
  assumes "decoder_in_range k"
  shows "instructions_next k it =
    Some (case function_left (k, it) of
        [] \<Rightarrow> (None, snd (the (instructions_next k it)))
      | i # _ \<Rightarrow> (Some i, snd (the (instructions_next k it)))) \<and>
    function_left (k, snd (the (instructions_next k it))) = tl (function_left (k, it))"
  using assms
proof (induction k it rule: instructions_next.induct)
  case (1 k it)
  show ?case
  proof (cases "live_cursor (ii_cursor it)")
    case None
    with items_of_live [of k "ii_cursor it"] have left: "function_left (k, it) =
        List.map_filter (yielded k) (concat (map (chunk_items k) (ii_chunks it)))"
      by (simp add: function_left_def)
    show ?thesis
    proof (cases "ii_chunks it")
      case Nil
      with None left show ?thesis by (simp add: instructions_next.simps [of k it] map_filter_simps)
    next
      case (Cons c cs)
      let ?it = "\<lparr>ii_chunks = cs, ii_cursor = Some (fch_start c, fch_end c)\<rparr>"
      from None Cons have nxt: "instructions_next k it = instructions_next k ?it"
        by (simp add: instructions_next.simps [of k it])
      have "function_left (k, it) = function_left (k, ?it)"
        unfolding left by (simp add: function_left_def Cons chunk_items_def)
      with 1(1) [OF None Cons 1(4)] show ?thesis unfolding nxt by simp
    qed
  next
    case (Some p)
    obtain a e where p: "p = (a, e)" by (cases p)
    from Some p have cur: "ii_cursor it = Some (a, e)" "a < e"
      by (auto simp: live_cursor_def split: option.splits if_splits)
    let ?it = "it\<lparr>ii_cursor := Some (step_past k a e, e)\<rparr>"
    have items: "items_of k a e = a # items_of k (step_past k a e) e"
      using cur by (simp add: items_of.simps [of k a e])
    from 1(4) decode_returns [of "ik_decode k" a] obtain r where r: "decode (ik_decode k) a = Some r"
      by (auto simp: decoder_in_range_def)
    show ?thesis
    proof (cases "yielded k a")
      case None
      then have nxt: "instructions_next k it = instructions_next k ?it"
        using Some p r
        by (auto simp: yielded_def instructions_next.simps [of k it] Let_def split: if_splits sum.splits)
      have IH: "decoder_in_range k \<Longrightarrow> instructions_next k ?it =
          Some (case function_left (k, ?it) of
              [] \<Rightarrow> (None, snd (the (instructions_next k ?it)))
            | i # _ \<Rightarrow> (Some i, snd (the (instructions_next k ?it)))) \<and>
          function_left (k, snd (the (instructions_next k ?it))) = tl (function_left (k, ?it))"
      proof (cases "is_code k a")
        case True
        with None r obtain err where err: "r = Inl err"
          by (auto simp: yielded_def split: sum.splits)
        show "decoder_in_range k \<Longrightarrow> ?thesis" by (rule 1(2) [OF Some p [symmetric] refl True r err])
      next
        case False
        show "decoder_in_range k \<Longrightarrow> ?thesis" by (rule 1(3) [OF Some p [symmetric] refl False])
      qed
      have "function_left (k, it) = function_left (k, ?it)"
        using None by (simp add: function_left_def cur items map_filter_simps)
      with IH [OF 1(4)] show ?thesis unfolding nxt by simp
    next
      case (Some i)
      with \<open>live_cursor (ii_cursor it) = Some p\<close> p r have "instructions_next k it = Some (Some i, ?it)"
        by (auto simp: yielded_def instructions_next.simps [of k it] Let_def split: if_splits sum.splits)
      with Some show ?thesis by (simp add: function_left_def cur items map_filter_simps)
    qed
  qed
qed

interpretation function_walk: lazy_iterator function_next "\<lambda>(k, _). decoder_in_range k" function_left
proof
  fix s :: "item_kernel \<times> instructions_iter" and i js
  obtain k it where s: "s = (k, it)" by (cases s)
  assume "case s of (k, _) \<Rightarrow> decoder_in_range k"
  then have k: "decoder_in_range k" by (simp add: s)
  note spec = instructions_next_spec [OF k, of it]
  show "\<exists>s'. function_next s = Some (None, s') \<and> (case s' of (k, _) \<Rightarrow> decoder_in_range k) \<and> function_left s' = []"
    if "function_left s = []"
    using spec that k by (auto simp: s function_next_def)
  show "\<exists>s'. function_next s = Some (Some i, s') \<and> (case s' of (k, _) \<Rightarrow> decoder_in_range k) \<and> function_left s' = js"
    if "function_left s = i # js"
    using spec that k by (auto simp: s function_next_def)
qed

lemma in_address_insn: "insn_from_data d a = Some (Inr i) \<Longrightarrow> in_address i = a"
proof (cases "lift_operands (id_ops d) a")
  case (Some r)
  assume "insn_from_data d a = Some (Inr i)"
  with Some show ?thesis by (cases r) (auto simp: insn_from_data_def bind_eq_Some_conv)
qed (simp add: insn_from_data_def)

lemma in_address_decode: "decode dec a = Some (Inr i) \<Longrightarrow> in_address i = a"
  by (auto simp: decode_def classify_insn_def in_address_insn split: if_splits)

lemma yielded_address: "yielded k a = Some i \<Longrightarrow> in_address i = a \<and> is_code k a"
  by (auto simp: yielded_def in_address_decode split: if_splits option.splits sum.splits)

lemma map_filter_length: "length (List.map_filter f xs) \<le> length xs"
  by (induction xs) (auto simp: map_filter_simps split: option.splits)

lemma yielded_addresses:
  "map in_address (List.map_filter (yielded k) xs) = filter (\<lambda>a. yielded k a \<noteq> None) xs"
  by (induction xs) (auto simp: map_filter_simps yielded_address split: option.splits)

text \<open>
  C16: the walk of a range always ends, within one call per address; it yields, in ascending order
  and each once, exactly the instructions of the items it stands on that the kernel marks as code
  and that decode, and nothing outside the range.
\<close>

theorem instructions_in_range:
  assumes "decoder_in_range k" and "gap a e < n"
  shows "\<exists>is. drain n range_next (k, a, e) = Some is \<and>
    map in_address is = filter (\<lambda>x. yielded k x \<noteq> None) (items_of k a e) \<and>
    sorted_wrt (<) (map in_address is) \<and>
    list_all (\<lambda>i. a \<le> in_address i \<and> in_address i < e \<and> is_code k (in_address i)) is"
proof -
  let ?is = "List.map_filter (yielded k) (items_of k a e)"
  have "length ?is < n"
    using map_filter_length [of "yielded k" "items_of k a e"] items_of_length [of k a e] assms(2)
    by linarith
  with range_walk.drains [of "(k, a, e)" n] assms(1) have "drain n range_next (k, a, e) = Some ?is"
    by (simp add: range_left_def)
  moreover have "sorted_wrt (<) (map in_address ?is)"
    unfolding yielded_addresses by (rule sorted_wrt_filter [OF items_of_sorted])
  moreover have "in_address i \<in> set (items_of k a e) \<and> yielded k (in_address i) \<noteq> None"
    if "i \<in> set ?is" for i
  proof -
    from that have "in_address i \<in> set (map in_address ?is)" by auto
    then show ?thesis unfolding yielded_addresses by auto
  qed
  then have "list_all (\<lambda>i. a \<le> in_address i \<and> in_address i < e \<and> is_code k (in_address i)) ?is"
    using items_of_bounds [of _ k a e] by (fastforce simp: list_all_iff yielded_def split: if_splits)
  ultimately show ?thesis using yielded_addresses by blast
qed

definition sample_kernel :: item_kernel where
  "sample_kernel =
     \<lparr>ik_flags = (\<lambda>_. 0x600), ik_item_head = id, ik_item_end = (\<lambda>x. x + 5), ik_next_head = (\<lambda>x _. x),
      ik_prev_head = (\<lambda>x _. x), ik_get_bytes = (\<lambda>_ n. int n), ik_decode = (\<lambda>_. sample_data []),
      ik_all_chunks = (\<lambda>_. [(0x10, 0x1A), (0x40, 0x45)])\<rparr>"

lemma sample_decoder: "decoder_in_range sample_kernel"
  by (simp add: decoder_in_range_def sample_kernel_def facade_ok_def sample_data_def no_register_def
      register_in_range_def FPC_NONE_def FPC_ROUNDING_def FPC_SAE_def)

theorem instructions_in_range_witness:
  "\<exists>is. drain 11 range_next (sample_kernel, Address (NOT 0x10), Address (NOT 0x1A)) = Some is \<and>
    sorted_wrt (<) (map in_address is)"
  using instructions_in_range [OF sample_decoder, of "Address (NOT 0x10)" "Address (NOT 0x1A)" 11]
  by (auto simp: gap_def address_get_def)

text \<open>
  The walk of a function visits its chunks in the kernel's order and yields of each exactly what
  the walk of the chunk's own range would.
\<close>

theorem instructions_concat_chunks:
  assumes "decoder_in_range k"
    and "sum_list (map (\<lambda>c. gap (fch_start c) (fch_end c)) (function_chunks_new k a)) < n"
  shows "drain n function_next (k, instructions_new k a) =
    Some (concat (map (\<lambda>c. the (drain (Suc (gap (fch_start c) (fch_end c))) range_next
      (k, fch_start c, fch_end c))) (function_chunks_new k a)))"
proof -
  have chunk: "drain (Suc (gap s e)) range_next (k, s, e) = Some (List.map_filter (yielded k) (items_of k s e))"
    for s e
    using range_walk.drains [of "(k, s, e)" "Suc (gap s e)"] assms(1) items_of_length [of k s e]
      map_filter_length [of "yielded k" "items_of k s e"]
    by (simp add: range_left_def)
  have left: "function_left (k, instructions_new k a) =
      concat (map (\<lambda>c. List.map_filter (yielded k) (chunk_items k c)) (function_chunks_new k a))"
    by (simp add: function_left_def instructions_new_def map_filter_def filter_concat map_concat comp_def)
  have short: "length (List.map_filter (yielded k) (chunk_items k c)) \<le> gap (fch_start c) (fch_end c)" for c
    unfolding chunk_items_def by (rule order_trans [OF map_filter_length items_of_length])
  have "length (function_left (k, instructions_new k a)) \<le>
      sum_list (map (\<lambda>c. gap (fch_start c) (fch_end c)) (function_chunks_new k a))"
    unfolding left length_concat map_map comp_def by (rule sum_list_mono) (rule short)
  with assms(2) have "length (function_left (k, instructions_new k a)) < n" by linarith
  with function_walk.drains [of "(k, instructions_new k a)" n] assms(1)
  have "drain n function_next (k, instructions_new k a) = Some (function_left (k, instructions_new k a))"
    by simp
  then show ?thesis unfolding left chunk option.sel chunk_items_def .
qed

theorem instructions_concat_chunks_witness:
  "drain 16 function_next (sample_kernel, instructions_new sample_kernel (Address 1)) =
    Some (concat (map (\<lambda>c. the (drain (Suc (gap (fch_start c) (fch_end c))) range_next
      (sample_kernel, fch_start c, fch_end c))) (function_chunks_new sample_kernel (Address 1))))"
  by (rule instructions_concat_chunks [OF sample_decoder])
    (simp add: function_chunks_new_def sample_kernel_def map_filter_simps try_new_def gap_def address_get_def)

end
