(* ===== verification/Type_Expr.thy ===== *)
theory Type_Expr
  imports Prelude
begin

text \<open>
  \<open>types/expr.rs\<close> and the enumeration of \<open>function/signature.rs\<close>: the recipe of a type to apply, its
  constructors and transforms, the check for bytes that would truncate it, the postfix wire form the
  apply call hands to the facade, its display, and the classification of a bare string.

  The facade's interpreter of the wire form (\<open>idakit-sys/facade/type_write_common.cpp\<close>) is modelled
  beside it, over a kernel that is a parameter: \<open>kernel_types\<close> is the constructors of the kernel's
  type objects the interpreter calls, each of which may refuse.
\<close>

subsection \<open>Calling conventions\<close>

datatype calling_convention =
    CcUnknown | CcCdecl | CcStdcall | CcPascal | CcFastcall | CcThiscall | CcSwift | CcGolang

fun calling_convention_code :: "calling_convention \<Rightarrow> u8" where
  "calling_convention_code CcUnknown = 0x10"
| "calling_convention_code CcCdecl = 0x30"
| "calling_convention_code CcStdcall = 0x50"
| "calling_convention_code CcPascal = 0x60"
| "calling_convention_code CcFastcall = 0x70"
| "calling_convention_code CcThiscall = 0x80"
| "calling_convention_code CcSwift = 0x90"
| "calling_convention_code CcGolang = 0xB0"

definition calling_convention_variants :: "calling_convention list" where
  "calling_convention_variants =
    [CcUnknown, CcCdecl, CcStdcall, CcPascal, CcFastcall, CcThiscall, CcSwift, CcGolang]"

interpretation calling_conventions: closed_enum calling_convention_code calling_convention_variants
proof
  show "distinct (map calling_convention_code calling_convention_variants)"
    by (simp add: calling_convention_variants_def)
  fix v show "v \<in> set calling_convention_variants"
    by (cases v) (simp_all add: calling_convention_variants_def)
qed


subsection \<open>Recipes\<close>

datatype 'ty fn_param = FnParam (fp_name: "string option") (fp_ty: 'ty)

datatype type_expr =
    TxVoid
  | TxBool
  | TxInt u8 bool
  | TxFloat u8
  | TxBitfield u8 u8 bool
  | TxDecl string
  | TxNamed string
  | TxPointer type_expr
  | TxArray type_expr u64
  | TxConst type_expr
  | TxVolatile type_expr
  | TxFunction type_expr "type_expr fn_param list" bool "calling_convention option"

lemma fp_ty_size [termination_simp]:
  assumes "p \<in> set ps"
  shows "size (fp_ty p) < Suc (size_list (size_fn_param size) ps + k)"
proof -
  have "size (fp_ty p) \<le> size_fn_param size p" by (cases p) simp
  also have "\<dots> \<le> size_list (size_fn_param size) ps"
    using size_list_estimation' [OF assms, of "size_fn_param size p" "size_fn_param size"] by simp
  finally show ?thesis by simp
qed

record function_expr =
  fe_ret :: type_expr
  fe_params :: "type_expr fn_param list"
  fe_varargs :: bool
  fe_cc :: "calling_convention option"

definition function_expr_new :: "type_expr \<Rightarrow> function_expr" where
  "function_expr_new ret = \<lparr>fe_ret = ret, fe_params = [], fe_varargs = False, fe_cc = None\<rparr>"

definition function_arg :: "type_expr \<Rightarrow> function_expr \<Rightarrow> function_expr" where
  "function_arg ty f = f\<lparr>fe_params := fe_params f @ [FnParam None ty]\<rparr>"

definition function_named_arg :: "string \<Rightarrow> type_expr \<Rightarrow> function_expr \<Rightarrow> function_expr" where
  "function_named_arg name ty f = f\<lparr>fe_params := fe_params f @ [FnParam (Some name) ty]\<rparr>"

definition function_variadic :: "function_expr \<Rightarrow> function_expr" where
  "function_variadic f = f\<lparr>fe_varargs := True\<rparr>"

definition function_calling_convention :: "calling_convention \<Rightarrow> function_expr \<Rightarrow> function_expr" where
  "function_calling_convention cc f = f\<lparr>fe_cc := Some cc\<rparr>"

definition function_build :: "function_expr \<Rightarrow> type_expr" where
  "function_build f = TxFunction (fe_ret f) (fe_params f) (fe_varargs f) (fe_cc f)"

definition pointer :: "type_expr \<Rightarrow> type_expr" where
  "pointer e = TxPointer e"

definition array_of :: "u64 \<Rightarrow> type_expr \<Rightarrow> type_expr" where
  "array_of len e = TxArray e len"

definition const_of :: "type_expr \<Rightarrow> type_expr" where
  "const_of e = (case e of TxConst _ \<Rightarrow> e | _ \<Rightarrow> TxConst e)"

definition volatile_of :: "type_expr \<Rightarrow> type_expr" where
  "volatile_of e = (case e of TxVolatile _ \<Rightarrow> e | _ \<Rightarrow> TxVolatile e)"

definition deref :: "type_expr \<Rightarrow> type_expr" where
  "deref e = (case e of TxPointer x \<Rightarrow> x | TxArray x _ \<Rightarrow> x | _ \<Rightarrow> e)"

definition is_scalar :: "type_expr \<Rightarrow> bool" where
  "is_scalar e = (case e of TxVoid \<Rightarrow> True | TxBool \<Rightarrow> True | TxInt _ _ \<Rightarrow> True | TxFloat _ \<Rightarrow> True | _ \<Rightarrow> False)"

subsection \<open>Leaves and projections\<close>

definition named :: "string \<Rightarrow> type_expr" where
  "named name = TxNamed name"

definition decl :: "string \<Rightarrow> type_expr" where
  "decl t = TxDecl t"

definition void :: type_expr where
  "void = TxVoid"

definition bool_leaf :: type_expr where
  "bool_leaf = TxBool"

definition char_leaf :: type_expr where
  "char_leaf = TxInt 1 True"

definition int8 :: type_expr where
  "int8 = TxInt 1 True"

definition int16 :: type_expr where
  "int16 = TxInt 2 True"

definition int32 :: type_expr where
  "int32 = TxInt 4 True"

definition int64 :: type_expr where
  "int64 = TxInt 8 True"

definition uint8 :: type_expr where
  "uint8 = TxInt 1 False"

definition uint16 :: type_expr where
  "uint16 = TxInt 2 False"

definition uint32 :: type_expr where
  "uint32 = TxInt 4 False"

definition uint64 :: type_expr where
  "uint64 = TxInt 8 False"

definition float32 :: type_expr where
  "float32 = TxFloat 4"

definition float64 :: type_expr where
  "float64 = TxFloat 8"

definition bitfield :: "u8 \<Rightarrow> u8 \<Rightarrow> bool \<Rightarrow> type_expr" where
  "bitfield nbytes width sg = TxBitfield nbytes width sg"

fun as_named :: "type_expr \<Rightarrow> string option" where
  "as_named (TxNamed s) = Some s"
| "as_named _ = None"

fun as_decl :: "type_expr \<Rightarrow> string option" where
  "as_decl (TxDecl s) = Some s"
| "as_decl _ = None"

fun as_pointer :: "type_expr \<Rightarrow> type_expr option" where
  "as_pointer (TxPointer x) = Some x"
| "as_pointer _ = None"

fun as_array :: "type_expr \<Rightarrow> (type_expr \<times> u64) option" where
  "as_array (TxArray x len) = Some (x, len)"
| "as_array _ = None"

fun as_function :: "type_expr \<Rightarrow> (type_expr \<times> type_expr fn_param list \<times> bool) option" where
  "as_function (TxFunction ret params varargs _) = Some (ret, params, varargs)"
| "as_function _ = None"

definition is_named :: "type_expr \<Rightarrow> bool" where
  "is_named e = (case e of TxNamed _ \<Rightarrow> True | _ \<Rightarrow> False)"

definition is_decl :: "type_expr \<Rightarrow> bool" where
  "is_decl e = (case e of TxDecl _ \<Rightarrow> True | _ \<Rightarrow> False)"

definition is_pointer :: "type_expr \<Rightarrow> bool" where
  "is_pointer e = (case e of TxPointer _ \<Rightarrow> True | _ \<Rightarrow> False)"

definition is_array :: "type_expr \<Rightarrow> bool" where
  "is_array e = (case e of TxArray _ _ \<Rightarrow> True | _ \<Rightarrow> False)"

definition is_const :: "type_expr \<Rightarrow> bool" where
  "is_const e = (case e of TxConst _ \<Rightarrow> True | _ \<Rightarrow> False)"

definition is_volatile :: "type_expr \<Rightarrow> bool" where
  "is_volatile e = (case e of TxVolatile _ \<Rightarrow> True | _ \<Rightarrow> False)"

definition is_void :: "type_expr \<Rightarrow> bool" where
  "is_void e = (case e of TxVoid \<Rightarrow> True | _ \<Rightarrow> False)"

definition is_function :: "type_expr \<Rightarrow> bool" where
  "is_function e = (case e of TxFunction _ _ _ _ \<Rightarrow> True | _ \<Rightarrow> False)"

subsection \<open>The check\<close>

datatype ffi_error = InteriorNul string

definition nul_checked :: "string \<Rightarrow> string \<Rightarrow> ffi_error option" where
  "nul_checked s arg = (if CHR 0x00 \<in> set s then Some (InteriorNul arg) else None)"

text \<open>The first failure, in the order the source tries them; \<open>None\<close> is \<open>Ok\<close>.\<close>

fun first_error :: "'e option list \<Rightarrow> 'e option" where
  "first_error [] = None"
| "first_error (Some e # rs) = Some e"
| "first_error (None # rs) = first_error rs"

fun check :: "type_expr \<Rightarrow> ffi_error option" where
  "check (TxNamed name) = nul_checked name ''name''"
| "check (TxDecl t) = nul_checked t ''decl''"
| "check (TxPointer x) = check x"
| "check (TxConst x) = check x"
| "check (TxVolatile x) = check x"
| "check (TxArray x _) = check x"
| "check (TxFunction ret params _ _) =
     first_error (check ret # concat (map (\<lambda>p.
       [case fp_name p of Some n \<Rightarrow> nul_checked n ''parameter name'' | None \<Rightarrow> None, check (fp_ty p)]) params))"
| "check _ = None"

subsection \<open>The wire form\<close>

definition string_bytes :: "string \<Rightarrow> u8 list" where
  "string_bytes s = map of_char s"

definition bytes_string :: "u8 list \<Rightarrow> string" where
  "bytes_string bs = map (\<lambda>b. char_of (unat b)) bs"

text \<open>\<open>to_le_bytes\<close>: the low byte first.\<close>

fun le_bytes :: "nat \<Rightarrow> 'a :: len word \<Rightarrow> u8 list" where
  "le_bytes 0 w = []"
| "le_bytes (Suc n) w = ucast w # le_bytes n (drop_bit 8 w)"

abbreviation "RECIPE_VOID \<equiv> (0 :: u8)"
abbreviation "RECIPE_BOOL \<equiv> (1 :: u8)"
abbreviation "RECIPE_INT \<equiv> (2 :: u8)"
abbreviation "RECIPE_FLOAT \<equiv> (3 :: u8)"
abbreviation "RECIPE_NAMED \<equiv> (4 :: u8)"
abbreviation "RECIPE_DECL \<equiv> (5 :: u8)"
abbreviation "RECIPE_PTR \<equiv> (6 :: u8)"
abbreviation "RECIPE_ARRAY \<equiv> (7 :: u8)"
abbreviation "RECIPE_CONST \<equiv> (8 :: u8)"
abbreviation "RECIPE_VOLATILE \<equiv> (9 :: u8)"
abbreviation "RECIPE_FUNCTION \<equiv> (10 :: u8)"
abbreviation "RECIPE_BITFIELD \<equiv> (11 :: u8)"

text \<open>\<open>u32::try_from(n).unwrap_or(u32::MAX)\<close>.\<close>

definition clamp_u32 :: "nat \<Rightarrow> u32" where
  "clamp_u32 n = (if n < 2 ^ 32 then of_nat n else - 1)"

definition bool_byte :: "bool \<Rightarrow> u8" where
  "bool_byte b = (if b then 1 else 0)"

definition encode_len_prefixed :: "string \<Rightarrow> u8 list" where
  "encode_len_prefixed s =
     (let bytes = string_bytes s; len = clamp_u32 (length bytes)
      in le_bytes 4 len @ take (unat len) bytes)"

definition encode_str :: "u8 \<Rightarrow> string \<Rightarrow> u8 list" where
  "encode_str op s = op # encode_len_prefixed s"

definition cc_raw :: "calling_convention option \<Rightarrow> u16" where
  "cc_raw cc = (case cc of None \<Rightarrow> 0 | Some c \<Rightarrow> ucast (calling_convention_code c))"

text \<open>\<open>encode\<close> appends to its buffer; here it is the bytes it appends.\<close>

fun encode :: "type_expr \<Rightarrow> u8 list" where
  "encode TxVoid = [RECIPE_VOID]"
| "encode TxBool = [RECIPE_BOOL]"
| "encode (TxInt bytes sg) = [RECIPE_INT, bytes, bool_byte sg]"
| "encode (TxFloat bytes) = [RECIPE_FLOAT, bytes]"
| "encode (TxBitfield nbytes width sg) = [RECIPE_BITFIELD, nbytes, width, bool_byte sg]"
| "encode (TxNamed name) = encode_str RECIPE_NAMED name"
| "encode (TxDecl t) = encode_str RECIPE_DECL t"
| "encode (TxPointer x) = encode x @ [RECIPE_PTR]"
| "encode (TxArray x len) = encode x @ RECIPE_ARRAY # le_bytes 8 len"
| "encode (TxConst x) = encode x @ [RECIPE_CONST]"
| "encode (TxVolatile x) = encode x @ [RECIPE_VOLATILE]"
| "encode (TxFunction ret params varargs cc) =
     encode ret @ concat (map (\<lambda>p. encode (fp_ty p)) params) @
     RECIPE_FUNCTION # le_bytes 4 (clamp_u32 (length params)) @ [bool_byte varargs] @
     le_bytes 2 (cc_raw cc) @
     concat (map (\<lambda>p. encode_len_prefixed (case fp_name p of Some n \<Rightarrow> n | None \<Rightarrow> []))
       (take (unat (clamp_u32 (length params))) params))"

definition serialize :: "type_expr \<Rightarrow> u8 list" where
  "serialize e = encode e"

definition checked_serialize :: "type_expr \<Rightarrow> ffi_error + u8 list" where
  "checked_serialize e = (case check e of Some err \<Rightarrow> Inl err | None \<Rightarrow> Inr (serialize e))"

subsection \<open>Display\<close>

definition int_name :: "u8 \<Rightarrow> bool \<Rightarrow> string" where
  "int_name bytes sg = (if sg then [] else ''u'') @ ''int'' @ show_nat (unat bytes * 8)"

definition show_param :: "(type_expr \<Rightarrow> string) \<Rightarrow> type_expr fn_param \<Rightarrow> string" where
  "show_param sh p = (case fp_name p of Some n \<Rightarrow> sh (fp_ty p) @ '' '' @ n | None \<Rightarrow> sh (fp_ty p))"

lemma show_param_cong [fundef_cong]:
  "p = q \<Longrightarrow> sh (fp_ty q) = sh' (fp_ty q) \<Longrightarrow> show_param sh p = show_param sh' q"
  by (simp add: show_param_def split: option.split)

fun sep_by :: "string \<Rightarrow> string list \<Rightarrow> string" where
  "sep_by s [] = []"
| "sep_by s [x] = x"
| "sep_by s (x # y # ys) = x @ s @ sep_by s (y # ys)"

fun show_type_expr :: "type_expr \<Rightarrow> string" where
  "show_type_expr TxVoid = ''void''"
| "show_type_expr TxBool = ''bool''"
| "show_type_expr (TxInt bytes sg) = int_name bytes sg"
| "show_type_expr (TxFloat bytes) = ''float'' @ show_nat (unat bytes * 8)"
| "show_type_expr (TxBitfield nbytes width sg) = int_name nbytes sg @ '':'' @ show_nat (unat width)"
| "show_type_expr (TxNamed s) = s"
| "show_type_expr (TxDecl s) = s"
| "show_type_expr (TxPointer x) = show_type_expr x @ '' *''"
| "show_type_expr (TxArray x len) = show_type_expr x @ ''['' @ show_nat (unat len) @ '']''"
| "show_type_expr (TxConst x) = ''const '' @ show_type_expr x"
| "show_type_expr (TxVolatile x) = ''volatile '' @ show_type_expr x"
| "show_type_expr (TxFunction ret params varargs cc) =
     show_type_expr ret @ '' ('' @ sep_by '', '' (map (\<lambda>p. show_param show_type_expr p) params) @
     (if varargs then if params = [] then ''...'' else '', ...'' else []) @ '')''"

subsection \<open>Classifying a string\<close>

text \<open>\<open>is_ascii_alphabetic\<close> and \<open>is_ascii_alphanumeric\<close>, on the code of the character.\<close>

definition ascii_in :: "nat \<Rightarrow> nat \<Rightarrow> char \<Rightarrow> bool" where
  "ascii_in lo hi c = (lo \<le> of_char c \<and> of_char c \<le> hi)"

definition is_ident_start :: "char \<Rightarrow> bool" where
  "is_ident_start c = (c = CHR ''_'' \<or> ascii_in 97 122 c \<or> ascii_in 65 90 c)"

definition is_ident_char :: "char \<Rightarrow> bool" where
  "is_ident_char c = (is_ident_start c \<or> ascii_in 48 57 c)"

fun is_c_identifier :: "string \<Rightarrow> bool" where
  "is_c_identifier [] = False"
| "is_c_identifier (c # cs) = (is_ident_start c \<and> list_all is_ident_char cs)"

text \<open>\<open>split("::")\<close>: the pieces between the separators, found from the left.\<close>

fun split_colons :: "string \<Rightarrow> string list" where
  "split_colons [] = [[]]"
| "split_colons [c] = [[c]]"
| "split_colons (c # d # s) =
     (if c = CHR '':'' \<and> d = CHR '':'' then [] # split_colons s
      else (case split_colons (d # s) of [] \<Rightarrow> [[c]] | p # ps \<Rightarrow> (c # p) # ps))"

definition builtin_type_keywords :: "string list" where
  "builtin_type_keywords =
     [''void'', ''bool'', ''_Bool'', ''char'', ''short'', ''int'', ''long'', ''float'', ''double'',
      ''signed'', ''unsigned'', ''wchar_t'', ''__int8'', ''__int16'', ''__int32'', ''__int64'',
      ''__int128'']"

definition is_builtin_type_keyword :: "string \<Rightarrow> bool" where
  "is_builtin_type_keyword s \<longleftrightarrow> s \<in> set builtin_type_keywords"

definition is_bare_type_name :: "string \<Rightarrow> bool" where
  "is_bare_type_name s \<longleftrightarrow>
     s \<noteq> [] \<and> \<not> is_builtin_type_keyword s \<and> list_all is_c_identifier (split_colons s)"

definition type_expr_from :: "string \<Rightarrow> type_expr" where
  "type_expr_from s = (if is_bare_type_name s then TxNamed s else TxDecl s)"

subsection \<open>The facade's interpreter\<close>

datatype fn_cc = FnCcDefault | FnCcEllipsis | FnCcExplicit u16

record 't kernel_types =
  kt_void :: "'t option"
  kt_bool :: "'t option"
  kt_int :: "u8 \<Rightarrow> bool \<Rightarrow> 't option"
  kt_float :: "u8 \<Rightarrow> 't option"
  kt_bitfield :: "u8 \<Rightarrow> u8 \<Rightarrow> bool \<Rightarrow> 't option"
  kt_named :: "string \<Rightarrow> 't option"
  kt_decl :: "string \<Rightarrow> 't option"
  kt_ptr :: "'t \<Rightarrow> 't option"
  kt_array :: "'t \<Rightarrow> u32 \<Rightarrow> 't option"
  kt_const :: "'t \<Rightarrow> 't"
  kt_volatile :: "'t \<Rightarrow> 't"
  kt_func :: "'t \<Rightarrow> ('t \<times> string) list \<Rightarrow> fn_cc \<Rightarrow> 't option"

definition build_int :: "'t kernel_types \<Rightarrow> u8 \<Rightarrow> bool \<Rightarrow> 't option" where
  "build_int K bytes sg = (if bytes \<in> {1, 2, 4, 8, 16} then kt_int K bytes sg else None)"

definition build_float :: "'t kernel_types \<Rightarrow> u8 \<Rightarrow> 't option" where
  "build_float K bytes = (if bytes \<in> {4, 8} then kt_float K bytes else None)"

text \<open>A C string ends at its first NUL.\<close>

definition c_str :: "string \<Rightarrow> string" where
  "c_str s = takeWhile (\<lambda>c. c \<noteq> CHR 0x00) s"

text \<open>The bounds-checked cursor: what is left of the buffer; \<open>None\<close> is an over-read.\<close>

fun read_u8 :: "u8 list \<Rightarrow> (u8 \<times> u8 list) option" where
  "read_u8 [] = None"
| "read_u8 (b # bs) = Some (b, bs)"

fun le_nat :: "u8 list \<Rightarrow> nat" where
  "le_nat [] = 0"
| "le_nat (b # bs) = unat b + 256 * le_nat bs"

definition read_le :: "nat \<Rightarrow> u8 list \<Rightarrow> (nat \<times> u8 list) option" where
  "read_le n bs = (if length bs < n then None else Some (le_nat (take n bs), drop n bs))"

definition read_str :: "u8 list \<Rightarrow> (string \<times> u8 list) option" where
  "read_str bs =
     do { (n, rest) \<leftarrow> read_le 4 bs;
          if length rest < n then None else Some (bytes_string (take n rest), drop n rest) }"

fun read_strs :: "nat \<Rightarrow> u8 list \<Rightarrow> (string list \<times> u8 list) option" where
  "read_strs 0 bs = Some ([], bs)"
| "read_strs (Suc n) bs =
     do { (s, bs1) \<leftarrow> read_str bs; (ss, bs2) \<leftarrow> read_strs n bs1; Some (s # ss, bs2) }"

definition max_array_elems :: nat where
  "max_array_elems = 0xffffffff"

text \<open>One opcode: the rest of the buffer and the stack, its top first.\<close>

definition recipe_function :: "'t kernel_types \<Rightarrow> u8 list \<Rightarrow> 't list \<Rightarrow> (u8 list \<times> 't list) option" where
  "recipe_function K bs st =
     do { (n, bs1) \<leftarrow> read_le 4 bs;
          (varargs, bs2) \<leftarrow> read_u8 bs1;
          (cc, bs3) \<leftarrow> read_le 2 bs2;
          if n > length bs3 div 4 then None
          else do { (names, bs4) \<leftarrow> read_strs n bs3;
                    if length st < n + 1 then None
                    else do { t \<leftarrow> kt_func K (st ! n) (zip (rev (take n st)) (map c_str names))
                                (if varargs \<noteq> 0 then FnCcEllipsis
                                 else if cc \<noteq> 0 then FnCcExplicit (of_nat cc) else FnCcDefault);
                              Some (bs4, t # drop (n + 1) st) } } }"

definition recipe_op :: "'t kernel_types \<Rightarrow> u8 \<Rightarrow> u8 list \<Rightarrow> 't list \<Rightarrow> (u8 list \<times> 't list) option" where
  "recipe_op K op bs st =
     (if op = RECIPE_VOID then do { t \<leftarrow> kt_void K; Some (bs, t # st) }
      else if op = RECIPE_BOOL then do { t \<leftarrow> kt_bool K; Some (bs, t # st) }
      else if op = RECIPE_INT then
        do { (bytes, bs1) \<leftarrow> read_u8 bs; (sg, bs2) \<leftarrow> read_u8 bs1;
             t \<leftarrow> build_int K bytes (sg \<noteq> 0); Some (bs2, t # st) }
      else if op = RECIPE_FLOAT then
        do { (bytes, bs1) \<leftarrow> read_u8 bs; t \<leftarrow> build_float K bytes; Some (bs1, t # st) }
      else if op = RECIPE_NAMED then
        do { (s, bs1) \<leftarrow> read_str bs; t \<leftarrow> kt_named K (c_str s); Some (bs1, t # st) }
      else if op = RECIPE_DECL then
        do { (s, bs1) \<leftarrow> read_str bs; t \<leftarrow> kt_decl K (c_str s); Some (bs1, t # st) }
      else if op = RECIPE_PTR then
        (case st of [] \<Rightarrow> None | x # st' \<Rightarrow> do { t \<leftarrow> kt_ptr K x; Some (bs, t # st') })
      else if op = RECIPE_ARRAY then
        do { (n, bs1) \<leftarrow> read_le 8 bs;
             if n > max_array_elems then None
             else (case st of [] \<Rightarrow> None
                   | x # st' \<Rightarrow> do { t \<leftarrow> kt_array K x (of_nat n); Some (bs1, t # st') }) }
      else if op = RECIPE_CONST then
        (case st of [] \<Rightarrow> None | x # st' \<Rightarrow> Some (bs, kt_const K x # st'))
      else if op = RECIPE_VOLATILE then
        (case st of [] \<Rightarrow> None | x # st' \<Rightarrow> Some (bs, kt_volatile K x # st'))
      else if op = RECIPE_FUNCTION then recipe_function K bs st
      else if op = RECIPE_BITFIELD then
        do { (nbytes, bs1) \<leftarrow> read_u8 bs; (width, bs2) \<leftarrow> read_u8 bs1; (sg, bs3) \<leftarrow> read_u8 bs2;
             t \<leftarrow> kt_bitfield K nbytes width (sg = 0); Some (bs3, t # st) }
      else None)"

lemma read_le_length: "read_le n bs = Some (v, bs') \<Longrightarrow> length bs' \<le> length bs"
  by (auto simp: read_le_def split: if_splits)

lemma read_u8_length: "read_u8 bs = Some (v, bs') \<Longrightarrow> length bs' \<le> length bs"
  by (cases bs) auto

lemma read_str_length: "read_str bs = Some (v, bs') \<Longrightarrow> length bs' \<le> length bs"
  by (auto simp: read_str_def dest!: read_le_length split: if_splits)

lemma read_strs_length: "read_strs n bs = Some (v, bs') \<Longrightarrow> length bs' \<le> length bs"
  by (induction n arbitrary: bs v) (fastforce dest: read_str_length)+

lemma recipe_function_length: "recipe_function K bs st = Some (bs', st') \<Longrightarrow> length bs' \<le> length bs"
  by (fastforce simp: recipe_function_def dest!: read_le_length read_u8_length read_strs_length split: if_splits)

lemma recipe_op_length: "recipe_op K op bs st = Some (bs', st') \<Longrightarrow> length bs' \<le> length bs"
  by (fastforce simp: recipe_op_def dest!: read_le_length read_u8_length read_str_length recipe_function_length
      split: if_splits list.splits)

function run_recipe :: "'t kernel_types \<Rightarrow> u8 list \<Rightarrow> 't list \<Rightarrow> 't option" where
  "run_recipe K [] st = (case st of [t] \<Rightarrow> Some t | _ \<Rightarrow> None)"
| "run_recipe K (op # bs) st =
     (case recipe_op K op bs st of None \<Rightarrow> None | Some (bs', st') \<Rightarrow> run_recipe K bs' st')"
  by pat_completeness auto
termination
  by (relation "measure (\<lambda>(_, bs, _). length bs)") (auto dest: recipe_op_length)

definition build_recipe :: "'t kernel_types \<Rightarrow> u8 list \<Rightarrow> 't option" where
  "build_recipe K buf = run_recipe K buf []"

subsection \<open>What a recipe means\<close>

text \<open>What the interpreter of the wire form builds, by recursion over the recipe.\<close>

definition fn_cc_of :: "bool \<Rightarrow> calling_convention option \<Rightarrow> fn_cc" where
  "fn_cc_of varargs cc =
     (if varargs then FnCcEllipsis
      else case cc of None \<Rightarrow> FnCcDefault | Some c \<Rightarrow> FnCcExplicit (ucast (calling_convention_code c)))"

definition param_name :: "'ty fn_param \<Rightarrow> string" where
  "param_name p = (case fp_name p of Some n \<Rightarrow> n | None \<Rightarrow> [])"

fun facade_builds :: "'t kernel_types \<Rightarrow> type_expr \<Rightarrow> 't option" where
  "facade_builds K TxVoid = kt_void K"
| "facade_builds K TxBool = kt_bool K"
| "facade_builds K (TxInt bytes sg) = build_int K bytes sg"
| "facade_builds K (TxFloat bytes) = build_float K bytes"
| "facade_builds K (TxBitfield nbytes width sg) = kt_bitfield K nbytes width (\<not> sg)"
| "facade_builds K (TxNamed s) = kt_named K s"
| "facade_builds K (TxDecl s) = kt_decl K s"
| "facade_builds K (TxPointer x) = do { t \<leftarrow> facade_builds K x; kt_ptr K t }"
| "facade_builds K (TxArray x len) =
     do { t \<leftarrow> facade_builds K x; if unat len > max_array_elems then None else kt_array K t (ucast len) }"
| "facade_builds K (TxConst x) = map_option (kt_const K) (facade_builds K x)"
| "facade_builds K (TxVolatile x) = map_option (kt_volatile K) (facade_builds K x)"
| "facade_builds K (TxFunction ret params varargs cc) =
     do { r \<leftarrow> facade_builds K ret;
          ts \<leftarrow> traverse (\<lambda>p. facade_builds K (fp_ty p)) params;
          kt_func K r (zip ts (map param_name params)) (fn_cc_of varargs cc) }"

text \<open>
  The type a recipe describes, whatever the facade makes of it: each constructor is the kernel's, and a
  convention that was asked for is the convention of the prototype.
\<close>

definition described_cc :: "bool \<Rightarrow> calling_convention option \<Rightarrow> fn_cc" where
  "described_cc varargs cc =
     (case cc of
        Some c \<Rightarrow> FnCcExplicit (ucast (calling_convention_code c))
      | None \<Rightarrow> if varargs then FnCcEllipsis else FnCcDefault)"

fun denote :: "'t kernel_types \<Rightarrow> type_expr \<Rightarrow> 't option" where
  "denote K TxVoid = kt_void K"
| "denote K TxBool = kt_bool K"
| "denote K (TxInt bytes sg) = kt_int K bytes sg"
| "denote K (TxFloat bytes) = kt_float K bytes"
| "denote K (TxBitfield nbytes width sg) = kt_bitfield K nbytes width (\<not> sg)"
| "denote K (TxNamed s) = kt_named K s"
| "denote K (TxDecl s) = kt_decl K s"
| "denote K (TxPointer x) = Option.bind (denote K x) (kt_ptr K)"
| "denote K (TxArray x len) = Option.bind (denote K x) (\<lambda>t. kt_array K t (word_of_nat (unat len)))"
| "denote K (TxConst x) = map_option (kt_const K) (denote K x)"
| "denote K (TxVolatile x) = map_option (kt_volatile K) (denote K x)"
| "denote K (TxFunction ret params varargs cc) =
     do { r \<leftarrow> denote K ret;
          ts \<leftarrow> traverse (\<lambda>p. denote K (fp_ty p)) params;
          kt_func K r (zip ts (map param_name params)) (described_cc varargs cc) }"

text \<open>
  The sizes there are: an integer of 1, 2, 4, 8 or 16 bytes, a float of 4 or 8, an array of fewer than
  \<open>2 ^ 32\<close> elements.
\<close>

fun sizes_ok :: "type_expr \<Rightarrow> bool" where
  "sizes_ok (TxInt bytes _) \<longleftrightarrow> unat bytes = 1 \<or> unat bytes = 2 \<or> unat bytes = 4 \<or> unat bytes = 8 \<or> unat bytes = 16"
| "sizes_ok (TxFloat bytes) \<longleftrightarrow> unat bytes = 4 \<or> unat bytes = 8"
| "sizes_ok (TxPointer x) \<longleftrightarrow> sizes_ok x"
| "sizes_ok (TxArray x len) \<longleftrightarrow> sizes_ok x \<and> unat len < 4294967296"
| "sizes_ok (TxConst x) \<longleftrightarrow> sizes_ok x"
| "sizes_ok (TxVolatile x) \<longleftrightarrow> sizes_ok x"
| "sizes_ok (TxFunction ret params _ _) \<longleftrightarrow> sizes_ok ret \<and> list_all (\<lambda>p. sizes_ok (fp_ty p)) params"
| "sizes_ok _ \<longleftrightarrow> True"

text \<open>The recipe without the conventions that were asked for on variadic prototypes.\<close>

fun ellipsis_wins :: "type_expr \<Rightarrow> type_expr" where
  "ellipsis_wins (TxPointer x) = TxPointer (ellipsis_wins x)"
| "ellipsis_wins (TxArray x len) = TxArray (ellipsis_wins x) len"
| "ellipsis_wins (TxConst x) = TxConst (ellipsis_wins x)"
| "ellipsis_wins (TxVolatile x) = TxVolatile (ellipsis_wins x)"
| "ellipsis_wins (TxFunction ret params varargs cc) =
     TxFunction (ellipsis_wins ret) (map (\<lambda>p. FnParam (fp_name p) (ellipsis_wins (fp_ty p))) params) varargs
       (if varargs then None else cc)"
| "ellipsis_wins e = e"

lemma traverse_if:
  "(\<And>x. x \<in> set xs \<Longrightarrow> f x = (if P x then g x else None)) \<Longrightarrow>
   traverse f xs = (if list_all P xs then traverse g xs else None)"
  by (induction xs) (auto split: option.splits)

lemma unat_u8_one: "unat (v :: u8) = Suc 0 \<longleftrightarrow> v = 1"
  by (metis One_nat_def unsigned_1 word_unat_eq_iff)

lemma built_described: "facade_builds K e = (if sizes_ok e then denote K (ellipsis_wins e) else None)"
proof (induction e rule: ellipsis_wins.induct)
  case (2 x len)
  then show ?case by (auto simp: max_array_elems_def of_nat_unat split: option.splits)
next
  case (5 ret params varargs cc)
  have params: "traverse (\<lambda>p. facade_builds K (fp_ty p)) params =
      (if list_all (\<lambda>p. sizes_ok (fp_ty p)) params
       then traverse (\<lambda>p. denote K (ellipsis_wins (fp_ty p))) params else None)"
    by (rule traverse_if) (rule 5(2))
  have "traverse (\<lambda>p. denote K (fp_ty p)) (map (\<lambda>p. FnParam (fp_name p) (ellipsis_wins (fp_ty p))) params) =
      traverse (\<lambda>p. denote K (ellipsis_wins (fp_ty p))) params" for params
    by (induction params) simp_all
  moreover have "map param_name (map (\<lambda>p. FnParam (fp_name p) (ellipsis_wins (fp_ty p))) params) =
      map param_name params"
    by (simp add: param_name_def)
  moreover have "described_cc varargs (if varargs then None else cc) = fn_cc_of varargs cc"
    by (simp add: described_cc_def fn_cc_of_def split: option.split)
  ultimately show ?case
    by (simp add: 5(1) params del: map_map)
qed (auto simp: build_int_def build_float_def unat_u8_one unsigned_word_eqI split: option.splits)

text \<open>Lengths that fit the wire form's 32-bit counts.\<close>

fun fits_wire :: "type_expr \<Rightarrow> bool" where
  "fits_wire (TxNamed s) = (length s < 2 ^ 32)"
| "fits_wire (TxDecl s) = (length s < 2 ^ 32)"
| "fits_wire (TxPointer x) = fits_wire x"
| "fits_wire (TxArray x _) = fits_wire x"
| "fits_wire (TxConst x) = fits_wire x"
| "fits_wire (TxVolatile x) = fits_wire x"
| "fits_wire (TxFunction ret params _ _) =
     (fits_wire ret \<and> length params < 2 ^ 32 \<and>
      list_all (\<lambda>p. fits_wire (fp_ty p) \<and> length (param_name p) < 2 ^ 32) params)"
| "fits_wire _ = True"

subsection \<open>Reading back what was written\<close>

lemma len8: "LENGTH(8) = 8"
  by simp

lemma char_of_unat_of_char [simp]: "char_of (unat (of_char c :: u8)) = c"
proof -
  have "unat (of_char c :: u8) = take_bit 8 (of_char c)"
    by (metis len8 of_nat_of_char unsigned_of_nat of_nat_id)
  also have "\<dots> = of_char c" by (simp add: take_bit_nat_eq_self)
  finally show ?thesis by simp
qed

lemma bytes_string_inv [simp]: "bytes_string (string_bytes s) = s"
  by (simp add: bytes_string_def string_bytes_def comp_def)

lemma length_string_bytes [simp]: "length (string_bytes s) = length s"
  by (simp add: string_bytes_def)

lemma length_le_bytes [simp]: "length (le_bytes n w) = n"
  by (induction n arbitrary: w) auto

lemma le_nat_le_bytes:
  fixes w :: "'a :: len word"
  assumes "8 \<le> LENGTH('a)"
  shows "le_nat (le_bytes n w) = unat w mod 2 ^ (8 * n)"
proof (induction n arbitrary: w)
  case (Suc n)
  have "unat (ucast w :: u8) = unat w mod 256"
    using assms by (simp add: unsigned_ucast_eq take_bit_eq_mod)
  moreover have "unat (drop_bit 8 w) = unat w div 256"
    using unsigned_less [of w, where ?'a = nat]
    by (simp add: unsigned_drop_bit_eq drop_bit_eq_div [where ?'a = nat]
        take_bit_nat_eq_self)
  moreover have "a mod 256 + 256 * (a div 256 mod 2 ^ (8 * n)) = a mod (256 * 2 ^ (8 * n))" for a :: nat
    by (simp add: mod_mult2_eq)
  ultimately show ?case by (simp add: Suc.IH power_add)
qed simp

lemma read_le_bytes:
  fixes w :: "'a :: len word"
  assumes "8 \<le> LENGTH('a)" and "LENGTH('a) \<le> 8 * n"
  shows "read_le n (le_bytes n w @ rest) = Some (unat w, rest)"
proof -
  have "unat w < 2 ^ (8 * n)"
    using unsigned_less [of w, where ?'a = nat] assms(2) by (meson less_le_trans one_le_numeral power_increasing)
  then show ?thesis by (simp add: read_le_def le_nat_le_bytes [OF assms(1)])
qed

lemma unat_clamp_u32 [simp]: "n < 2 ^ 32 \<Longrightarrow> unat (clamp_u32 n) = n"
  by (simp add: clamp_u32_def unsigned_of_nat take_bit_nat_eq_self)

lemma read_str_encode [simp]:
  "length s < 2 ^ 32 \<Longrightarrow> read_str (encode_len_prefixed s @ rest) = Some (s, rest)"
  by (simp add: read_str_def encode_len_prefixed_def Let_def read_le_bytes del: le_bytes.simps)

lemma read_strs_encode:
  "list_all (\<lambda>s. length s < 2 ^ 32) ss \<Longrightarrow>
   read_strs (length ss) (concat (map encode_len_prefixed ss) @ rest) = Some (ss, rest)"
  by (induction ss) simp_all

lemma encode_len_prefixed_length: "4 \<le> length (encode_len_prefixed s)"
  by (simp add: encode_len_prefixed_def Let_def del: le_bytes.simps)

lemma prefixes_length: "length ss * 4 \<le> length (concat (map encode_len_prefixed ss))"
proof (induction ss)
  case (Cons s ss)
  then show ?case using encode_len_prefixed_length [of s] by simp
qed simp

lemma c_str_clean: "CHR 0x00 \<notin> set s \<Longrightarrow> c_str s = s"
  unfolding c_str_def by (rule takeWhile_eq_all_conv [THEN iffD2]) auto

subsection \<open>The facade builds what the recipe means\<close>

text \<open>Running the interpreter from here on: with one more type on the stack, or to a refusal.\<close>

definition then_run :: "'t kernel_types \<Rightarrow> u8 list \<Rightarrow> 't list \<Rightarrow> 't option \<Rightarrow> 't option" where
  "then_run K rest st r = Option.bind r (\<lambda>t. run_recipe K rest (t # st))"

lemma push_then_run [simp]:
  "(case Option.bind m (\<lambda>t. Some (rest, t # st)) of None \<Rightarrow> None | Some (bs, st') \<Rightarrow> run_recipe K bs st') =
   Option.bind m (\<lambda>t. run_recipe K rest (t # st))"
  by (cases m) simp_all

lemma first_error_None: "first_error rs = None \<longleftrightarrow> list_all (\<lambda>r. r = None) rs"
  by (induction rs rule: first_error.induct) auto

lemma nul_checked_None: "nul_checked s arg = None \<longleftrightarrow> CHR 0x00 \<notin> set s"
  by (simp add: nul_checked_def)

lemma check_function:
  "check (TxFunction ret params varargs cc) = None \<longleftrightarrow>
     check ret = None \<and> list_all (\<lambda>p. CHR 0x00 \<notin> set (param_name p) \<and> check (fp_ty p) = None) params"
  by (auto simp: first_error_None list_all_iff param_name_def nul_checked_None split: option.splits)

lemma of_nat_unat_ucast: "of_nat (unat (w :: u64)) = (ucast w :: u32)"
  by (metis of_nat_unat)

lemma cc_raw_explicit:
  "(if varargs then FnCcEllipsis
    else if unat (cc_raw cc) \<noteq> 0 then FnCcExplicit (of_nat (unat (cc_raw cc))) else FnCcDefault) =
   fn_cc_of varargs cc"
proof (cases cc)
  case (Some c)
  then show ?thesis by (cases c) (simp_all add: cc_raw_def fn_cc_of_def)
qed (simp add: cc_raw_def fn_cc_of_def)

lemma run_params:
  assumes "\<And>p rest st. p \<in> set ps \<Longrightarrow>
      run_recipe K (encode (fp_ty p) @ rest) st = then_run K rest st (facade_builds K (fp_ty p))"
  shows "run_recipe K (concat (map (\<lambda>p. encode (fp_ty p)) ps) @ rest) st =
    Option.bind (traverse (\<lambda>p. facade_builds K (fp_ty p)) ps) (\<lambda>ts. run_recipe K rest (rev ts @ st))"
  using assms
proof (induction ps arbitrary: st)
  case (Cons p ps)
  have "run_recipe K (encode (fp_ty p) @ concat (map (\<lambda>p. encode (fp_ty p)) ps) @ rest) st =
      then_run K (concat (map (\<lambda>p. encode (fp_ty p)) ps) @ rest) st (facade_builds K (fp_ty p))"
    by (rule Cons.prems) simp
  with Cons.IH [OF Cons.prems] show ?case
    by (cases "facade_builds K (fp_ty p)") (simp_all add: then_run_def bind_assoc)
qed simp

lemma recipe_function_run:
  assumes len: "length ts = length params" and n: "length params < 2 ^ 32"
    and names: "list_all (\<lambda>p. length (param_name p) < 2 ^ 32 \<and> CHR 0x00 \<notin> set (param_name p)) params"
  shows "recipe_function K (le_bytes 4 (clamp_u32 (length params)) @ [bool_byte varargs] @
      le_bytes 2 (cc_raw cc) @ concat (map (\<lambda>p. encode_len_prefixed (param_name p)) params) @ rest)
      (rev ts @ r # st) =
    map_option (\<lambda>t. (rest, t # st)) (kt_func K r (zip ts (map param_name params)) (fn_cc_of varargs cc))"
proof -
  let ?names = "map param_name params"
  let ?enc = "concat (map encode_len_prefixed ?names)"
  have enc: "concat (map (\<lambda>p. encode_len_prefixed (param_name p)) params) = ?enc" by (simp add: comp_def)
  have n1: "read_le 4 (le_bytes 4 (clamp_u32 (length params)) @ xs) = Some (length params, xs)" for xs
    using n by (simp add: read_le_bytes del: le_bytes.simps)
  have n2: "read_le 2 (le_bytes 2 (cc_raw cc) @ xs) = Some (unat (cc_raw cc), xs)" for xs
    by (simp add: read_le_bytes del: le_bytes.simps)
  have long: "\<not> length (?enc @ rest) div 4 < length params"
    using prefixes_length [of ?names] by simp
  have strs: "read_strs (length params) (?enc @ rest) = Some (?names, rest)"
    using read_strs_encode [of ?names rest] names by (simp add: list_all_iff)
  have clean: "map (c_str \<circ> param_name) params = map param_name params"
    using names by (simp add: list_all_iff c_str_clean)
  have stack: "(rev ts @ r # st) ! length params = r" "take (length params) (rev ts @ r # st) = rev ts"
    "drop (length params + 1) (rev ts @ r # st) = st"
    using len by (simp_all add: nth_append)
  have flag: "(bool_byte varargs \<noteq> 0) = varargs" by (simp add: bool_byte_def)
  show ?thesis
    unfolding recipe_function_def enc n1 bind.bind_lunit prod.case append_Cons append_Nil read_u8.simps n2
    using long strs len
    by (cases "kt_func K r (zip ts (map param_name params)) (fn_cc_of varargs cc)")
      (simp_all add: stack flag clean cc_raw_explicit del: le_bytes.simps)
qed

lemma recipe_means:
  "fits_wire e \<Longrightarrow> check e = None \<Longrightarrow>
   run_recipe K (encode e @ rest) st = then_run K rest st (facade_builds K e)"
proof (induction e arbitrary: rest st rule: encode.induct)
  case (6 name)
  then show ?case
    by (cases "kt_named K name")
      (simp_all add: encode_str_def recipe_op_def then_run_def nul_checked_None c_str_clean)
next
  case (7 t)
  then show ?case
    by (cases "kt_decl K t")
      (simp_all add: encode_str_def recipe_op_def then_run_def nul_checked_None c_str_clean)
next
  case (8 x)
  then show ?case by (cases "facade_builds K x") (simp_all add: recipe_op_def then_run_def split: option.split)
next
  case (9 x len)
  have "read_le 8 (le_bytes 8 len @ rest) = Some (unat len, rest)"
    by (simp add: read_le_bytes del: le_bytes.simps)
  with 9 show ?case
    by (cases "facade_builds K x")
      (simp_all add: recipe_op_def then_run_def of_nat_unat_ucast split: option.split del: le_bytes.simps)
next
  case (10 x)
  then show ?case by (cases "facade_builds K x") (simp_all add: recipe_op_def then_run_def)
next
  case (11 x)
  then show ?case by (cases "facade_builds K x") (simp_all add: recipe_op_def then_run_def)
next
  case (12 ret params varargs cc)
  note ok = "12.prems"(2) [unfolded check_function]
  let ?tail = "le_bytes 4 (clamp_u32 (length params)) @ [bool_byte varargs] @ le_bytes 2 (cc_raw cc) @
    concat (map (\<lambda>p. encode_len_prefixed (param_name p)) params) @ rest"
  have names: "list_all (\<lambda>p. length (param_name p) < 2 ^ 32 \<and> CHR 0x00 \<notin> set (param_name p)) params"
    and n: "length params < 2 ^ 32" using "12.prems"(1) ok by (simp_all add: list_all_iff)
  have params: "run_recipe K (encode (fp_ty p) @ rest) st = then_run K rest st (facade_builds K (fp_ty p))"
    if "p \<in> set params" for p rest st
    using "12.IH"(2) [OF that] "12.prems"(1) ok that by (simp add: list_all_iff)
  have whole: "encode (TxFunction ret params varargs cc) @ rest =
      encode ret @ concat (map (\<lambda>p. encode (fp_ty p)) params) @ RECIPE_FUNCTION # ?tail"
    using n by (simp add: param_name_def del: le_bytes.simps)
  have "run_recipe K (encode ret @ xs) st = then_run K xs st (facade_builds K ret)" for xs
    using "12.IH"(1) "12.prems"(1) ok by simp
  moreover have "run_recipe K (RECIPE_FUNCTION # ?tail) (rev ts @ r # st) =
      then_run K rest st (kt_func K r (zip ts (map param_name params)) (fn_cc_of varargs cc))"
    if "length ts = length params" for ts r
    using recipe_function_run [OF that n names, of K varargs cc rest r st]
    by (simp add: recipe_op_def then_run_def split: option.split del: le_bytes.simps)
  ultimately show ?case
    unfolding whole
    by (cases "facade_builds K ret"; cases "traverse (\<lambda>p. facade_builds K (fp_ty p)) params")
      (simp_all add: then_run_def run_params [OF params] traverse_length)
qed (simp_all add: recipe_op_def then_run_def bool_byte_def split: option.split)

text \<open>
  C6: whatever the kernel, the facade's interpreter builds from the serialized recipe the type the
  recipe describes, constructor by constructor, and it refuses a recipe exactly where one of the
  kernel's constructors does or a size is none there is: an integer of other than 1, 2, 4, 8 or 16
  bytes, a float of other than 4 or 8, an array of \<open>2 ^ 32\<close> elements or more. The one departure from
  the description is that a convention asked for on a variadic prototype is dropped.
\<close>

theorem recipe_built:
  assumes "fits_wire e" and "checked_serialize e = Inr buf"
  shows "build_recipe K buf = (if sizes_ok e then denote K (ellipsis_wins e) else None)"
proof -
  from assms(2) have "check e = None" "buf = encode e"
    by (auto simp: checked_serialize_def serialize_def split: option.splits)
  with recipe_means [OF assms(1), of K "[]" "[]"] have "build_recipe K buf = facade_builds K e"
    by (cases "facade_builds K e") (simp_all add: build_recipe_def then_run_def)
  then show ?thesis by (simp add: built_described)
qed

subsection \<open>The kernel of terms\<close>

text \<open>A kernel whose types are recipes: it accepts everything and keeps what it was given.\<close>

definition cc_of_code :: "u16 \<Rightarrow> calling_convention option" where
  "cc_of_code n = List.find (\<lambda>c. ucast (calling_convention_code c) = n) calling_convention_variants"

definition term_func :: "type_expr \<Rightarrow> (type_expr \<times> string) list \<Rightarrow> fn_cc \<Rightarrow> type_expr" where
  "term_func r args cc =
     TxFunction r (map (\<lambda>(t, n). FnParam (if n = [] then None else Some n) t) args) (cc = FnCcEllipsis)
       (case cc of FnCcExplicit n \<Rightarrow> cc_of_code n | _ \<Rightarrow> None)"

definition term_kernel :: "type_expr kernel_types" where
  "term_kernel =
     \<lparr>kt_void = Some TxVoid, kt_bool = Some TxBool, kt_int = \<lambda>b s. Some (TxInt b s),
      kt_float = \<lambda>b. Some (TxFloat b), kt_bitfield = \<lambda>n w u. Some (TxBitfield n w (\<not> u)),
      kt_named = \<lambda>s. Some (TxNamed s), kt_decl = \<lambda>s. Some (TxDecl s),
      kt_ptr = \<lambda>t. Some (TxPointer t), kt_array = \<lambda>t n. Some (TxArray t (ucast n)),
      kt_const = TxConst, kt_volatile = TxVolatile,
      kt_func = \<lambda>r args cc. Some (term_func r args cc)\<rparr>"

text \<open>
  Recipes the wire form tells apart: widths the facade accepts, array lengths that fit its 32-bit
  count, no parameter named by the empty string, no convention on a variadic prototype.
\<close>

fun wire_normal :: "type_expr \<Rightarrow> bool" where
  "wire_normal (TxInt bytes _) = (bytes \<in> {1, 2, 4, 8, 16})"
| "wire_normal (TxFloat bytes) = (bytes \<in> {4, 8})"
| "wire_normal (TxPointer x) = wire_normal x"
| "wire_normal (TxArray x len) = (wire_normal x \<and> unat len \<le> max_array_elems)"
| "wire_normal (TxConst x) = wire_normal x"
| "wire_normal (TxVolatile x) = wire_normal x"
| "wire_normal (TxFunction ret params varargs cc) =
     (wire_normal ret \<and> (varargs \<longrightarrow> cc = None) \<and>
      list_all (\<lambda>p. wire_normal (fp_ty p) \<and> fp_name p \<noteq> Some []) params)"
| "wire_normal _ = True"

lemma cc_of_code_inv [simp]: "cc_of_code (ucast (calling_convention_code c)) = Some c"
  by (cases c) (simp_all add: cc_of_code_def calling_convention_variants_def)

lemma ucast_u32_u64:
  assumes "unat (len :: u64) \<le> max_array_elems"
  shows "(ucast (ucast len :: u32) :: u64) = len"
proof -
  have "unat len < 2 ^ 32" using assms by (simp add: max_array_elems_def)
  then have low: "take_bit 32 (unat len) = unat len" by (rule take_bit_nat_eq_self)
  have "unat (ucast (ucast len :: u32) :: u64) = take_bit 64 (take_bit 32 (unat len))"
    by (simp only: unsigned_ucast_eq unsigned_take_bit_eq) simp
  with low have "unat (ucast (ucast len :: u32) :: u64) = unat len"
    using unsigned_less [of len, where ?'a = nat] by (simp add: take_bit_nat_eq_self)
  then show ?thesis by (simp only: word_unat_eq_iff)
qed

lemma built_term: "wire_normal e \<Longrightarrow> facade_builds term_kernel e = Some e"
proof (induction e rule: wire_normal.induct)
  case (7 ret params varargs cc)
  have "traverse (\<lambda>p. facade_builds term_kernel (fp_ty p)) params = Some (map fp_ty params)"
    using 7 by (simp add: traverse_Some_iff list_all_iff)
  moreover have "map (\<lambda>(t, n). FnParam (if n = [] then None else Some n) t)
      (zip (map fp_ty params) (map param_name params)) = params"
    using "7.prems"
    by (auto simp: zip_map_map zip_same_conv_map list_all_iff param_name_def intro!: map_idI
        split: option.splits) (metis fn_param.collapse)+
  ultimately show ?case
    using 7 by (auto simp: term_kernel_def term_func_def fn_cc_of_def split: option.splits)
qed (simp_all add: term_kernel_def build_int_def build_float_def ucast_u32_u64)

text \<open>
  C12: the wire form loses nothing that matters: two recipes in normal form that serialize to the
  same bytes are the same recipe.
\<close>

theorem serialize_injective:
  assumes "fits_wire a" "wire_normal a" "checked_serialize a = Inr buf"
    and "fits_wire b" "wire_normal b" "checked_serialize b = Inr buf"
  shows "a = b"
proof -
  have read: "facade_builds term_kernel e = run_recipe term_kernel buf []"
    if "fits_wire e" "checked_serialize e = Inr buf" for e
  proof -
    from that(2) have "check e = None" "buf = encode e"
      by (auto simp: checked_serialize_def serialize_def split: option.splits)
    with recipe_means [OF that(1), of term_kernel "[]" "[]"] show ?thesis
      by (cases "facade_builds term_kernel e") (simp_all add: then_run_def)
  qed
  have "Some a = run_recipe term_kernel buf []"
    by (rule trans [OF sym [OF built_term [OF assms(2)]] read [OF assms(1,3)]])
  moreover have "Some b = run_recipe term_kernel buf []"
    by (rule trans [OF sym [OF built_term [OF assms(5)]] read [OF assms(4,6)]])
  ultimately show ?thesis by (metis option.inject)
qed

definition sample_recipe :: type_expr where
  "sample_recipe = function_build (function_calling_convention CcStdcall
     (function_named_arg ''flags'' (TxInt 4 False)
       (function_arg (pointer (const_of (type_expr_from ''ns::Widget''))) (function_expr_new TxVoid))))"

lemmas recipe_eval = sample_recipe_def function_build_def function_calling_convention_def
  function_named_arg_def function_arg_def function_expr_new_def pointer_def const_of_def
  type_expr_from_def is_bare_type_name_def is_builtin_type_keyword_def builtin_type_keywords_def
  is_ident_start_def is_ident_char_def ascii_in_def param_name_def

lemma sample_recipe_eq:
  "sample_recipe = TxFunction TxVoid [FnParam None (TxPointer (TxConst (TxNamed ''ns::Widget''))),
     FnParam (Some ''flags'') (TxInt 4 False)] False (Some CcStdcall)"
  by (simp add: recipe_eval)

lemma sample_recipe_ok: "fits_wire sample_recipe" "wire_normal sample_recipe" "check sample_recipe = None"
  by (simp_all add: sample_recipe_eq param_name_def nul_checked_def)

theorem recipe_built_witness:
  "build_recipe term_kernel (serialize sample_recipe) = Some sample_recipe"
  using recipe_built [OF sample_recipe_ok(1), of "serialize sample_recipe" term_kernel]
    built_described [of term_kernel sample_recipe] built_term [OF sample_recipe_ok(2)] sample_recipe_ok(3)
  by (simp add: checked_serialize_def)

theorem serialize_injective_witness:
  "checked_serialize sample_recipe = Inr (serialize sample_recipe) \<and>
   checked_serialize (TxPointer TxBool) \<noteq> Inr (serialize sample_recipe)"
proof -
  have ok: "checked_serialize sample_recipe = Inr (serialize sample_recipe)"
    using sample_recipe_ok(3) by (simp add: checked_serialize_def)
  moreover have "checked_serialize (TxPointer TxBool) \<noteq> Inr (serialize sample_recipe)"
    using serialize_injective [OF _ _ _ sample_recipe_ok(1,2) ok, of "TxPointer TxBool"]
    by (auto simp: sample_recipe_eq)
  ultimately show ?thesis by blast
qed

subsection \<open>What a bare string names\<close>

lemma sep_by_Cons [simp]: "sep_by t ((c # p) # ps) = c # sep_by t (p # ps)"
  by (cases ps) simp_all

lemma sep_by_step: "ps \<noteq> [] \<Longrightarrow> sep_by t (p # ps) = p @ t @ sep_by t ps"
  by (cases ps) simp_all

lemma split_colons_nonempty [simp]: "split_colons s \<noteq> []"
  by (induction s rule: split_colons.induct) (auto split: list.splits)

lemma sep_by_split: "sep_by ''::'' (split_colons s) = s"
proof (induction s rule: split_colons.induct)
  case (3 c d s)
  show ?case
  proof (cases "c = CHR '':'' \<and> d = CHR '':''")
    case True
    with 3 show ?thesis by (simp add: sep_by_step)
  next
    case False
    with 3 show ?thesis by (cases "split_colons (d # s)") auto
  qed
qed simp_all

lemma split_colons_plain: "CHR '':'' \<notin> set p \<Longrightarrow> split_colons p = [p]"
  by (induction p rule: split_colons.induct) auto

lemma split_colons_piece:
  "CHR '':'' \<notin> set p \<Longrightarrow> split_colons (p @ CHR '':'' # CHR '':'' # r) = p # split_colons r"
proof (induction p)
  case (Cons c p)
  then show ?case by (cases p) auto
qed simp

lemma split_colons_sep_by:
  "ids \<noteq> [] \<Longrightarrow> list_all (\<lambda>p. CHR '':'' \<notin> set p) ids \<Longrightarrow> split_colons (sep_by ''::'' ids) = ids"
proof (induction ids)
  case (Cons x ids)
  then show ?case
    by (cases ids) (simp_all add: split_colons_plain split_colons_piece)
qed simp

lemma colon_no_identifier: "\<not> is_ident_start CHR '':''" "\<not> is_ident_char CHR '':''"
  by (simp_all add: is_ident_start_def is_ident_char_def ascii_in_def)

lemma identifier_no_colon: "is_c_identifier p \<Longrightarrow> CHR '':'' \<notin> set p"
  using colon_no_identifier by (cases p) (auto simp: list_all_iff)

text \<open>
  A bare string becomes a reference to a named type exactly when it is one or more C
  identifiers joined by \<open>::\<close> and no keyword of a built-in type; every other string, the empty one
  among them, is a declaration to parse.
\<close>

theorem type_expr_from_named:
  "type_expr_from s =
     (if s \<notin> set builtin_type_keywords \<and>
         (\<exists>ids. ids \<noteq> [] \<and> list_all is_c_identifier ids \<and> s = sep_by ''::'' ids)
      then TxNamed s else TxDecl s)"
proof -
  have "s \<noteq> [] \<and> list_all is_c_identifier (split_colons s) \<longleftrightarrow>
      (\<exists>ids. ids \<noteq> [] \<and> list_all is_c_identifier ids \<and> s = sep_by ''::'' ids)"
  proof (intro iffI)
    assume "s \<noteq> [] \<and> list_all is_c_identifier (split_colons s)"
    then show "\<exists>ids. ids \<noteq> [] \<and> list_all is_c_identifier ids \<and> s = sep_by ''::'' ids"
      by (metis sep_by_split split_colons_nonempty)
  next
    assume "\<exists>ids. ids \<noteq> [] \<and> list_all is_c_identifier ids \<and> s = sep_by ''::'' ids"
    then obtain ids where ids: "ids \<noteq> []" "list_all is_c_identifier ids" "s = sep_by ''::'' ids" by blast
    then have "split_colons s = ids"
      by (simp add: split_colons_sep_by list_all_iff identifier_no_colon)
    moreover from this ids have "s \<noteq> []" by (cases s) auto
    ultimately show "s \<noteq> [] \<and> list_all is_c_identifier (split_colons s)" using ids by simp
  qed
  then show ?thesis
    by (auto simp: type_expr_from_def is_bare_type_name_def is_builtin_type_keyword_def)
qed

subsection \<open>Strings that would truncate\<close>

text \<open>The strings a recipe hands over, in the order the check meets them.\<close>

fun recipe_strings :: "type_expr \<Rightarrow> string list" where
  "recipe_strings (TxNamed s) = [s]"
| "recipe_strings (TxDecl s) = [s]"
| "recipe_strings (TxPointer x) = recipe_strings x"
| "recipe_strings (TxArray x _) = recipe_strings x"
| "recipe_strings (TxConst x) = recipe_strings x"
| "recipe_strings (TxVolatile x) = recipe_strings x"
| "recipe_strings (TxFunction ret params _ _) =
     recipe_strings ret @ concat (map (\<lambda>p. param_name p # recipe_strings (fp_ty p)) params)"
| "recipe_strings _ = []"

lemma check_strings: "check e = None \<longleftrightarrow> list_all (\<lambda>s. CHR 0x00 \<notin> set s) (recipe_strings e)"
proof (induction e rule: check.induct)
  case (7 ret params varargs cc)
  have "list_all (\<lambda>p. check (fp_ty p) = None) params \<longleftrightarrow>
      list_all (\<lambda>p. list_all (\<lambda>s. CHR 0x00 \<notin> set s) (recipe_strings (fp_ty p))) params"
    using 7 by (auto simp: list_all_iff)
  then show ?case unfolding check_function using 7 by (auto simp: list_all_iff)
qed (simp_all add: nul_checked_None)

text \<open>
  A recipe is refused exactly when one of the strings in it, at any depth, holds a NUL; the
  wire form of a recipe that passes reads back each of them whole.
\<close>

theorem checked_serialize_refuses:
  "(\<exists>err. checked_serialize e = Inl err) \<longleftrightarrow> (\<exists>s \<in> set (recipe_strings e). CHR 0x00 \<in> set s)"
  using check_strings [of e] by (auto simp: checked_serialize_def list_all_iff split: option.splits)

text \<open>
  The calling convention of a variadic prototype does not reach the kernel: whatever the
  convention, the facade builds the same type, where the builder says a convention that does not
  combine is refused when the recipe is applied.
\<close>

theorem variadic_ignores_convention:
  "build_recipe K (serialize (function_build (function_variadic (function_calling_convention cc (function_expr_new TxVoid))))) =
   build_recipe K (serialize (function_build (function_variadic (function_expr_new TxVoid))))"
proof -
  have "build_recipe K (serialize (TxFunction TxVoid [] True c)) = facade_builds K (TxFunction TxVoid [] True c)" for c
  proof -
    have "run_recipe K (encode (TxFunction TxVoid [] True c) @ []) [] =
        then_run K [] [] (facade_builds K (TxFunction TxVoid [] True c))"
      by (rule recipe_means) simp_all
    then show ?thesis
      unfolding build_recipe_def serialize_def then_run_def
      by (cases "facade_builds K (TxFunction TxVoid [] True c)") simp_all
  qed
  then show ?thesis
    by (simp add: function_build_def function_variadic_def function_calling_convention_def
        function_expr_new_def fn_cc_of_def)
qed

end
