(* ===== verification/Database_Session.thy ===== *)
theory Database_Session
  imports Text Address Type_Expr
begin

text \<open>
  The \<open>Database\<close> handle of \<open>lib.rs\<close> with the decompiler operations of \<open>decompiler/mod.rs\<close>: what it
  remembers of the kernel, and the calls it makes.

  The kernel is a parameter, the answer it gives to a call after the calls so far; what happened is
  the list of calls with their answers. The guarded calls go through the facade's trap
  (\<open>facade/internal.h\<close>), whose thread-local state is kept beside the handle.
\<close>

subsection \<open>The kernel and the facade's trap\<close>

datatype kernel_call =
    KOpen string bool
  | KAutoWait
  | KClose bool
  | KHexInit
  | KDecompile u64
  | KDirty u64
  | KClearCached
  | KHasCached u64

text \<open>How the body of a guarded call ends: it returns, or one of the fatal paths fires.\<close>

datatype fatal = Returned "32 word" | Exited "32 word" | Aborted | Interr

text \<open>
  An answer carries what the facade can ask about it afterwards: the text the call printed or gave
  as its reason, the kernel's error code and its description. An unguarded call that ends fatally
  takes the process with it; it reads as a zero here.
\<close>

record answer =
  an_outcome :: fatal
  an_text :: string
  an_errno :: "32 word"
  an_strerror :: string

type_synonym history = "(kernel_call \<times> answer) list"

type_synonym kernel = "history \<Rightarrow> kernel_call \<Rightarrow> answer"

record trap =
  tr_trapped :: bool
  tr_code :: "32 word"
  tr_output :: string

definition EXIT_TRAPPED :: "32 word" where
  "EXIT_TRAPPED = - 0x7FFFFFFF"

text \<open>\<open>guarded<int>\<close>, given how its body ended.\<close>

definition guarded :: "bool \<Rightarrow> answer \<Rightarrow> trap \<Rightarrow> 32 word \<times> trap" where
  "guarded capture a tr =
     (let text = (if capture then an_text a else [])
      in case an_outcome a of
           Returned rc \<Rightarrow> (rc, \<lparr>tr_trapped = False, tr_code = tr_code tr, tr_output = text\<rparr>)
         | Exited status \<Rightarrow> (EXIT_TRAPPED, \<lparr>tr_trapped = True, tr_code = status, tr_output = text\<rparr>)
         | Aborted \<Rightarrow> (EXIT_TRAPPED, \<lparr>tr_trapped = True, tr_code = 134, tr_output = text\<rparr>)
         | Interr \<Rightarrow> (EXIT_TRAPPED, \<lparr>tr_trapped = True, tr_code = tr_code tr, tr_output = text\<rparr>))"

record database =
  db_hexrays :: bool
  db_is_open :: bool
  db_claim :: bool
  db_trap :: trap
  db_history :: history

definition database_new :: "bool \<Rightarrow> database" where
  "database_new claim =
     \<lparr>db_hexrays = False, db_is_open = False, db_claim = claim,
      db_trap = \<lparr>tr_trapped = False, tr_code = 0, tr_output = []\<rparr>, db_history = []\<rparr>"


subsection \<open>Errors\<close>

datatype kernel_errno = ErrOk | ErrOs | ErrDiskFull | ErrReadError | ErrFileTooLarge | ErrOther "32 word"

definition errno_from_code :: "32 word \<Rightarrow> kernel_errno" where
  "errno_from_code code =
     (if code = 0 then ErrOk else if code = 1 then ErrOs else if code = 2 then ErrDiskFull
      else if code = 3 then ErrReadError else if code = 4 then ErrFileTooLarge else ErrOther code)"

fun errno_code :: "kernel_errno \<Rightarrow> 32 word" where
  "errno_code ErrOk = 0"
| "errno_code ErrOs = 1"
| "errno_code ErrDiskFull = 2"
| "errno_code ErrReadError = 3"
| "errno_code ErrFileTooLarge = 4"
| "errno_code (ErrOther code) = code"

definition show_i32 :: "32 word \<Rightarrow> string" where
  "show_i32 w = (if sint w < 0 then ''-'' @ show_nat (nat (- sint w)) else show_nat (nat (sint w)))"

definition error_reason :: "answer \<Rightarrow> string" where
  "error_reason a =
     (if an_strerror a = [] then ''error_t '' @ show_i32 (an_errno a) else an_strerror a)"

definition last_reason :: "answer \<Rightarrow> kernel_errno \<times> string option" where
  "last_reason a =
     (case errno_from_code (an_errno a) of
        ErrOk \<Rightarrow> (ErrOk, None)
      | e \<Rightarrow> (e, Some (error_reason a)))"

datatype db_error =
    DbFfi ffi_error
  | OpenFailed string kernel_errno string
  | KernelExit "32 word" "string option"
  | HexRaysInit
  | DecompileFailed u64 string

text \<open>
  \<open>read_string\<close> (\<open>ffi.rs\<close>): a getter fills a buffer of the capacity it is given and answers the
  full length; the value may have changed between the two calls.
\<close>

type_synonym getter = "nat \<Rightarrow> int \<times> string"

definition STACK_CAP :: nat where
  "STACK_CAP = 256"

definition read_string :: "getter \<Rightarrow> getter \<Rightarrow> string option" where
  "read_string f f' =
     (let (r, stack) = f STACK_CAP
      in if r < 0 then None
         else if nat r < STACK_CAP then Some (from_utf8_lossy (take (nat r) stack))
         else
           (let (r2, heap) = f' (nat r + 1)
            in if r2 < 0 then None
               else Some (from_utf8_lossy (take (min (nat r2) (nat r)) heap))))"

text \<open>\<open>last_output\<close> of the facade: a copy cut to the capacity, closed by a NUL.\<close>

definition copy_out :: "string \<Rightarrow> getter" where
  "copy_out v cap =
     (int (length v),
      if cap = 0 then []
      else (let n = min (length v) (cap - 1)
            in take n v @ replicate (cap - n) (CHR 0x00)))"

definition last_output :: "trap \<Rightarrow> string" where
  "last_output tr =
     (case read_string (copy_out (tr_output tr)) (copy_out (tr_output tr)) of
        Some s \<Rightarrow> s | None \<Rightarrow> [])"

definition kernel_exit_error :: "trap \<Rightarrow> db_error" where
  "kernel_exit_error tr =
     (let trimmed = trim (last_output tr)
      in KernelExit (tr_code tr) (if trimmed = [] then None else Some trimmed))"

subsection \<open>Operations\<close>

definition kernel_ask :: "kernel \<Rightarrow> kernel_call \<Rightarrow> database \<Rightarrow> answer \<times> database" where
  "kernel_ask K c db =
     (let a = K (db_history db) c in (a, db\<lparr>db_history := db_history db @ [(c, a)]\<rparr>))"

definition kernel_guarded ::
  "kernel \<Rightarrow> kernel_call \<Rightarrow> bool \<Rightarrow> database \<Rightarrow> 32 word \<times> answer \<times> database" where
  "kernel_guarded K c capture db =
     (let (a, db1) = kernel_ask K c db; (rc, tr) = guarded capture a (db_trap db1)
      in (rc, a, db1\<lparr>db_trap := tr\<rparr>))"

definition truthy :: "answer \<Rightarrow> bool" where
  "truthy a = (case an_outcome a of Returned rc \<Rightarrow> rc \<noteq> 0 | _ \<Rightarrow> False)"

definition kernel_bool :: "kernel \<Rightarrow> kernel_call \<Rightarrow> database \<Rightarrow> bool \<times> database" where
  "kernel_bool K c db = (let (a, db1) = kernel_ask K c db in (truthy a, db1))"

definition database_open ::
  "kernel \<Rightarrow> string \<Rightarrow> bool \<Rightarrow> database \<Rightarrow> (db_error + unit) \<times> database" where
  "database_open K path run_auto db =
     (case nul_checked path ''path'' of
        Some e \<Rightarrow> (Inl (DbFfi e), db)
      | None \<Rightarrow>
          (let (rc, a, db1) = kernel_guarded K (KOpen path run_auto) True db
           in if rc = EXIT_TRAPPED then (Inl (kernel_exit_error (db_trap db1)), db1)
              else if rc \<noteq> 0 then
                (let (errno, reason) = last_reason a
                 in (Inl (OpenFailed path errno
                       (case reason of
                          Some r \<Rightarrow> r
                        | None \<Rightarrow> ''open failed (status '' @ show_i32 rc @ '')'')), db1))
              else
                (let db2 = db1\<lparr>db_is_open := True\<rparr>
                 in if run_auto
                    then (let (rc', a', db3) = kernel_guarded K KAutoWait False db2
                          in if rc' = EXIT_TRAPPED then (Inl (kernel_exit_error (db_trap db3)), db3)
                             else (Inr (), db3))
                    else (Inr (), db2))))"

definition clear_decompilation_cache :: "kernel \<Rightarrow> database \<Rightarrow> database" where
  "clear_decompilation_cache K db =
     (if db_hexrays db then snd (kernel_ask K KClearCached db) else db)"

definition database_close :: "kernel \<Rightarrow> bool \<Rightarrow> database \<Rightarrow> database" where
  "database_close K save db =
     (if \<not> db_is_open db then db
      else
        (let db1 = clear_decompilation_cache K db;
             (rc, a, db2) = kernel_guarded K (KClose save) False db1
         in db2\<lparr>db_hexrays := False, db_is_open := False\<rparr>))"

text \<open>A closure handed to the database: it answers a result or unwinds.\<close>

datatype 'a ran = Finished "db_error + 'a" | Unwound

definition with_open ::
  "kernel \<Rightarrow> string \<Rightarrow> (database \<Rightarrow> 'a ran \<times> database) \<Rightarrow> database \<Rightarrow> 'a ran \<times> database" where
  "with_open K path f db =
     (case database_open K path False db of
        (Inl e, db1) \<Rightarrow> (Finished (Inl e), db1)
      | (Inr _, db1) \<Rightarrow> (let (r, db2) = f db1 in (r, database_close K False db2)))"

definition hexrays_ensure :: "kernel \<Rightarrow> database \<Rightarrow> bool \<times> database" where
  "hexrays_ensure K db =
     (if db_hexrays db then (True, db)
      else (let (ok, db1) = kernel_bool K KHexInit db
            in if ok then (True, db1\<lparr>db_hexrays := True\<rparr>) else (False, db1)))"

definition db_decompile :: "kernel \<Rightarrow> address \<Rightarrow> database \<Rightarrow> (db_error + unit) \<times> database" where
  "db_decompile K a db =
     (let (ready, db1) = hexrays_ensure K db
      in if \<not> ready then (Inl HexRaysInit, db1)
         else
           (let (rc, an, db2) = kernel_guarded K (KDecompile (address_get a)) False db1
            in if tr_trapped (db_trap db2) then (Inl (kernel_exit_error (db_trap db2)), db2)
               else if rc \<noteq> 0 then (Inl (DecompileFailed (address_get a) (an_text an)), db2)
               else (Inr (), db2)))"

definition invalidate_decompilation :: "kernel \<Rightarrow> address \<Rightarrow> database \<Rightarrow> bool \<times> database" where
  "invalidate_decompilation K a db =
     (if db_hexrays db then kernel_bool K (KDirty (address_get a)) db else (False, db))"

definition is_decompilation_cached :: "kernel \<Rightarrow> address \<Rightarrow> database \<Rightarrow> bool \<times> database" where
  "is_decompilation_cached K a db =
     (if db_hexrays db then kernel_bool K (KHasCached (address_get a)) db else (False, db))"

fun mark_referrers ::
  "kernel \<Rightarrow> (u64 \<Rightarrow> u64) \<Rightarrow> u64 list \<Rightarrow> address set \<Rightarrow> database \<Rightarrow> database" where
  "mark_referrers K func_start [] seen db = db"
| "mark_referrers K func_start (x # xs) seen db =
     (case try_new (func_start x) of
        None \<Rightarrow> mark_referrers K func_start xs seen db
      | Some r \<Rightarrow>
          if r \<in> seen then mark_referrers K func_start xs seen db
          else mark_referrers K func_start xs (insert r seen)
                 (snd (kernel_ask K (KDirty (address_get r)) db)))"

text \<open>
  The references are the sources of the cross references to the entry, and \<open>func_start\<close> the start
  of the function around an address; both are answers of the kernel.
\<close>

definition invalidate_dependents ::
  "kernel \<Rightarrow> (u64 \<Rightarrow> u64) \<Rightarrow> u64 list \<Rightarrow> address \<Rightarrow> database \<Rightarrow> database" where
  "invalidate_dependents K func_start refs entry db =
     (if \<not> db_hexrays db then db
      else mark_referrers K func_start refs {entry}
             (snd (kernel_ask K (KDirty (address_get entry)) db)))"

subsection \<open>A session\<close>

datatype db_op =
    DoOpen string bool
  | DoClose bool
  | DoDecompile address
  | DoInvalidate address
  | DoClearCache
  | DoIsCached address
  | DoDependents "u64 list" address

fun db_do :: "kernel \<Rightarrow> (u64 \<Rightarrow> u64) \<Rightarrow> db_op \<Rightarrow> database \<Rightarrow> database" where
  "db_do K fs (DoOpen path auto) db = snd (database_open K path auto db)"
| "db_do K fs (DoClose save) db = database_close K save db"
| "db_do K fs (DoDecompile a) db = snd (db_decompile K a db)"
| "db_do K fs (DoInvalidate a) db = snd (invalidate_decompilation K a db)"
| "db_do K fs DoClearCache db = clear_decompilation_cache K db"
| "db_do K fs (DoIsCached a) db = snd (is_decompilation_cached K a db)"
| "db_do K fs (DoDependents refs a) db = invalidate_dependents K fs refs a db"

definition db_session :: "kernel \<Rightarrow> (u64 \<Rightarrow> u64) \<Rightarrow> db_op list \<Rightarrow> bool \<Rightarrow> database" where
  "db_session K fs ops claim = fold (db_do K fs) ops (database_new claim)"


subsection \<open>What the kernel sees\<close>

text \<open>
  A reader of the calls: whether a database is open, and whether the decompiler is ready for it. A
  call that the reader does not allow is \<open>None\<close>. The strict reader starts every opened database
  without a decompiler, as the comment in \<open>close\<close> has it.
\<close>

definition kernel_next ::
  "bool \<Rightarrow> kernel_call \<times> answer \<Rightarrow> bool \<times> bool \<Rightarrow> (bool \<times> bool) option" where
  "kernel_next strict e s =
     (case (fst e, s) of
        (KOpen _ _, op, hx) \<Rightarrow>
          if an_outcome (snd e) = Returned 0 then Some (True, hx \<and> \<not> strict) else Some s
      | (KAutoWait, op, hx) \<Rightarrow> if op then Some s else None
      | (KClose _, op, hx) \<Rightarrow> if op then Some (False, False) else None
      | (KHexInit, op, hx) \<Rightarrow> Some (op, hx \<or> truthy (snd e))
      | (_, op, hx) \<Rightarrow> if hx then Some s else None)"

definition replay :: "bool \<Rightarrow> history \<Rightarrow> (bool \<times> bool) option" where
  "replay strict hist = fold (\<lambda>e s. Option.bind s (kernel_next strict e)) hist (Some (False, False))"

definition tracks :: "bool \<Rightarrow> database \<Rightarrow> bool" where
  "tracks strict db \<longleftrightarrow> replay strict (db_history db) = Some (db_is_open db, db_hexrays db)"

lemma replay_snoc: "replay strict (h @ [e]) = Option.bind (replay strict h) (kernel_next strict e)"
  by (simp add: replay_def)

lemma tracks_new: "tracks strict (database_new claim)"
  by (simp add: tracks_def replay_def database_new_def)

lemmas ask_defs = kernel_guarded_def kernel_bool_def kernel_ask_def Let_def

lemma guarded_rc:
  "fst (guarded capture a tr) = 0 \<longleftrightarrow> an_outcome a = Returned 0"
  by (cases "an_outcome a") (simp_all add: guarded_def EXIT_TRAPPED_def)

lemma open_tracks:
  assumes "tracks strict db" and "strict \<Longrightarrow> \<not> db_hexrays db"
  shows "tracks strict (snd (database_open K path auto db))"
proof -
  define a where "a = K (db_history db) (KOpen path auto)"
  obtain rc tr where g: "guarded True a (db_trap db) = (rc, tr)" by fastforce
  define db1 where "db1 = db\<lparr>db_history := db_history db @ [(KOpen path auto, a)], db_trap := tr\<rparr>"
  have step: "replay strict (db_history db1) =
      Some (db_is_open db \<or> rc = 0, db_hexrays db)"
    using assms guarded_rc [of True a "db_trap db"]
    by (auto simp: db1_def replay_snoc tracks_def kernel_next_def g)
  have ask: "kernel_guarded K (KOpen path auto) True db = (rc, a, db1)"
    by (simp add: ask_defs g db1_def flip: a_def)
  have frame: "db_is_open db1 = db_is_open db" "db_hexrays db1 = db_hexrays db"
    by (simp_all add: db1_def)
  have nz: "EXIT_TRAPPED \<noteq> 0" by (simp add: EXIT_TRAPPED_def)
  show ?thesis
  proof (cases "nul_checked path ''path'' = None \<and> rc = 0")
    case True
    have opened: "tracks strict (db1\<lparr>db_is_open := True\<rparr>)"
      using step True frame by (simp add: tracks_def)
    then have "tracks strict (snd (snd (kernel_guarded K KAutoWait False (db1\<lparr>db_is_open := True\<rparr>))))"
      by (simp add: ask_defs tracks_def replay_snoc kernel_next_def split: prod.splits)
    with opened True nz show ?thesis
      by (auto simp: database_open_def ask Let_def split: prod.splits)
  next
    case False
    with step frame assms(1) show ?thesis
      by (cases "nul_checked path ''path''")
        (auto simp: database_open_def ask tracks_def split: prod.splits)
  qed
qed

lemma clear_tracks: "tracks strict db \<Longrightarrow> tracks strict (clear_decompilation_cache K db)"
  by (simp add: clear_decompilation_cache_def ask_defs tracks_def replay_snoc kernel_next_def)

lemma clear_frame:
  "db_is_open (clear_decompilation_cache K db) = db_is_open db"
  "db_hexrays (clear_decompilation_cache K db) = db_hexrays db"
  by (simp_all add: clear_decompilation_cache_def ask_defs)

lemma close_tracks:
  assumes "tracks strict db" shows "tracks strict (database_close K save db)"
proof (cases "db_is_open db")
  case True
  with clear_tracks [OF assms, of K] show ?thesis
    by (simp add: database_close_def ask_defs tracks_def replay_snoc kernel_next_def clear_frame
        split: prod.splits)
qed (simp add: database_close_def assms)

lemma close_closes: "\<not> db_is_open (database_close K save db)"
  by (simp add: database_close_def Let_def split: prod.splits)

lemma bool_tracks:
  assumes "tracks strict db" and "c \<in> {KDirty a, KHasCached a}" and "db_hexrays db"
  shows "tracks strict (snd (kernel_bool K c db)) \<and> db_hexrays (snd (kernel_bool K c db))"
  using assms by (auto simp: ask_defs tracks_def replay_snoc kernel_next_def)

lemma ask_dirty_tracks:
  assumes "tracks strict db" and "db_hexrays db"
  shows "tracks strict (snd (kernel_ask K (KDirty a) db)) \<and> db_hexrays (snd (kernel_ask K (KDirty a) db))"
  using assms by (auto simp: ask_defs tracks_def replay_snoc kernel_next_def)

lemma ensure_tracks:
  assumes "tracks strict db" and "hexrays_ensure K db = (ok, db')"
  shows "tracks strict db' \<and> (ok \<longrightarrow> db_hexrays db')"
  using assms
  by (auto simp: hexrays_ensure_def ask_defs tracks_def replay_snoc kernel_next_def split: if_splits)

lemma decompile_tracks:
  assumes "tracks strict db" shows "tracks strict (snd (db_decompile K a db))"
proof -
  obtain ok d where e: "hexrays_ensure K db = (ok, d)" by fastforce
  obtain rc an d' where g: "kernel_guarded K (KDecompile (address_get a)) False d = (rc, an, d')"
    by (metis surj_pair)
  note d = ensure_tracks [OF assms e]
  have "tracks strict d'" if "db_hexrays d"
    using d that g by (auto simp: ask_defs tracks_def replay_snoc kernel_next_def split: prod.splits)
  with d show ?thesis by (simp add: db_decompile_def e g)
qed

lemma mark_tracks:
  "tracks strict db \<Longrightarrow> db_hexrays db \<Longrightarrow> tracks strict (mark_referrers K fs refs seen db)"
  by (induction K fs refs seen db rule: mark_referrers.induct)
    (auto simp: ask_dirty_tracks split: option.splits)

lemma op_tracks:
  assumes "tracks strict db" and "strict \<Longrightarrow> (\<exists>path auto. op = DoOpen path auto) \<Longrightarrow> \<not> db_hexrays db"
  shows "tracks strict (db_do K fs op db)"
  using assms
  by (cases op)
    (auto simp: open_tracks close_tracks decompile_tracks clear_tracks invalidate_decompilation_def
      is_decompilation_cached_def invalidate_dependents_def bool_tracks ask_dirty_tracks mark_tracks)

text \<open>Opens meet a handle with no decompiler, the way \<open>close\<close> leaves it.\<close>

fun fresh_opens :: "kernel \<Rightarrow> (u64 \<Rightarrow> u64) \<Rightarrow> db_op list \<Rightarrow> database \<Rightarrow> bool" where
  "fresh_opens K fs [] db \<longleftrightarrow> True"
| "fresh_opens K fs (op # ops) db \<longleftrightarrow>
     (case op of DoOpen path auto \<Rightarrow> \<not> db_hexrays db | _ \<Rightarrow> True) \<and>
     fresh_opens K fs ops (db_do K fs op db)"

lemma session_tracks: "tracks False db \<Longrightarrow> tracks False (fold (db_do K fs) ops db)"
  by (induction ops arbitrary: db) (simp_all add: op_tracks)

lemma session_tracks_strict:
  "tracks True db \<Longrightarrow> fresh_opens K fs ops db \<Longrightarrow> tracks True (fold (db_do K fs) ops db)"
proof (induction ops arbitrary: db)
  case (Cons op ops)
  have "tracks True (db_do K fs op db)"
    by (rule op_tracks [OF Cons.prems(1)]) (use Cons.prems(2) in auto)
  with Cons show ?case by simp
qed simp

lemma copy_out_short:
  "length v < cap \<Longrightarrow> copy_out v cap = (int (length v), v @ replicate (cap - length v) (CHR 0x00))"
  by (auto simp: copy_out_def Let_def min_def)

lemma copy_out_long:
  "0 < cap \<Longrightarrow> cap \<le> length v \<Longrightarrow> copy_out v cap = (int (length v), take (cap - 1) v @ [CHR 0x00])"
  by (auto simp: copy_out_def Let_def min_def)

lemma read_string_grown:
  assumes "length v \<le> length v'"
  shows "read_string (copy_out v) (copy_out v') =
    Some (from_utf8_lossy (if length v < STACK_CAP then v else take (length v) v'))"
proof (cases "length v < STACK_CAP")
  case True
  then show ?thesis by (simp add: read_string_def copy_out_short Let_def)
next
  case False
  then have "fst (copy_out v STACK_CAP) = int (length v)" by (simp add: copy_out_def)
  moreover have "take (length v) (snd (copy_out v' (length v + 1))) = take (length v) v'"
    using assms by (cases "length v = length v'") (auto simp: copy_out_short copy_out_long)
  moreover have "fst (copy_out v' (length v + 1)) = int (length v')" by (simp add: copy_out_def)
  ultimately show ?thesis using False assms
    by (simp add: read_string_def split_beta Let_def min_def)
qed

lemma mark_history:
  "\<exists>as. map fst (db_history (mark_referrers K fs refs seen db)) =
      map fst (db_history db) @ map (\<lambda>a. KDirty (address_get a)) as \<and> distinct as \<and>
    set as = {a. \<exists>x \<in> set refs. try_new (fs x) = Some a} - seen"
proof (induction K fs refs seen db rule: mark_referrers.induct)
  case (1 K fs seen db)
  then show ?case by simp
next
  case (2 K fs x xs seen db)
  show ?case
  proof (cases "try_new (fs x)")
    case None
    with "2.IH"(1) [OF None] show ?thesis by auto
  next
    case (Some r)
    show ?thesis
    proof (cases "r \<in> seen")
      case True
      from "2.IH"(2) [OF Some True] obtain as where
        "map fst (db_history (mark_referrers K fs xs seen db)) =
           map fst (db_history db) @ map (\<lambda>a. KDirty (address_get a)) as" "distinct as"
        "set as = {a. \<exists>x \<in> set xs. try_new (fs x) = Some a} - seen" by blast
      then show ?thesis using Some True by (intro exI [of _ as]) auto
    next
      case False
      let ?db = "snd (kernel_ask K (KDirty (address_get r)) db)"
      from "2.IH"(3) [OF Some False] obtain as where
        as: "map fst (db_history (mark_referrers K fs xs (insert r seen) ?db)) =
           map fst (db_history ?db) @ map (\<lambda>a. KDirty (address_get a)) as" "distinct as"
        "set as = {a. \<exists>x \<in> set xs. try_new (fs x) = Some a} - insert r seen" by blast
      moreover have "map fst (db_history ?db) = map fst (db_history db) @ [KDirty (address_get r)]"
        by (simp add: ask_defs)
      ultimately show ?thesis using Some False by (intro exI [of _ "r # as"]) auto
    qed
  qed
qed

subsection \<open>Properties\<close>

text \<open>
  Whatever a client does with a handle, a database is closed only when one is open, analysis is
  awaited only then, and the decompiler is called only after some initialisation.
\<close>

theorem session_legal_any_use:
  "replay False (db_history (db_session K fs ops claim)) =
     Some (db_is_open (db_session K fs ops claim), db_hexrays (db_session K fs ops claim))"
  using session_tracks [OF tracks_new] by (simp add: db_session_def tracks_def)

text \<open>
  A client that opens a database only when none is open, and decompiles only in an open one. It may
  close and ask about the cache at any time.
\<close>

fun disciplined :: "kernel \<Rightarrow> (u64 \<Rightarrow> u64) \<Rightarrow> db_op list \<Rightarrow> database \<Rightarrow> bool" where
  "disciplined K fs [] db \<longleftrightarrow> True"
| "disciplined K fs (op # ops) db \<longleftrightarrow>
     (case op of DoOpen path auto \<Rightarrow> \<not> db_is_open db | DoDecompile a \<Rightarrow> db_is_open db | _ \<Rightarrow> True) \<and>
     disciplined K fs ops (db_do K fs op db)"

definition ready_when_open :: "database \<Rightarrow> bool" where
  "ready_when_open db \<longleftrightarrow> (db_hexrays db \<longrightarrow> db_is_open db)"

lemma open_ready: "\<not> db_hexrays db \<Longrightarrow> \<not> db_hexrays (snd (database_open K path auto db))"
  by (auto simp: database_open_def ask_defs split: option.splits prod.splits)

lemma close_ready: "ready_when_open db \<Longrightarrow> ready_when_open (database_close K save db)"
  by (auto simp: database_close_def ready_when_open_def ask_defs split: prod.splits)

lemma decompile_open: "db_is_open (snd (db_decompile K a db)) = db_is_open db"
  by (auto simp: db_decompile_def hexrays_ensure_def ask_defs split: prod.splits)

lemma mark_frame:
  "db_is_open (mark_referrers K fs refs seen db) = db_is_open db"
  "db_hexrays (mark_referrers K fs refs seen db) = db_hexrays db"
  by (induction K fs refs seen db rule: mark_referrers.induct) (auto simp: ask_defs split: option.splits)

lemma op_ready:
  assumes "ready_when_open db"
    and "case op of DoOpen path auto \<Rightarrow> \<not> db_is_open db | DoDecompile a \<Rightarrow> db_is_open db | _ \<Rightarrow> True"
  shows "ready_when_open (db_do K fs op db)"
proof (cases op)
  case (DoOpen path auto)
  with assms have "\<not> db_hexrays db" by (simp add: ready_when_open_def)
  from open_ready [OF this] DoOpen show ?thesis by (simp add: ready_when_open_def)
qed (use assms in \<open>auto simp: close_ready decompile_open ready_when_open_def clear_frame mark_frame ask_defs
       invalidate_decompilation_def is_decompilation_cached_def invalidate_dependents_def
       intro: close_ready [unfolded ready_when_open_def, rule_format]\<close>)

lemma disciplined_fresh: "ready_when_open db \<Longrightarrow> disciplined K fs ops db \<Longrightarrow> fresh_opens K fs ops db"
proof (induction ops arbitrary: db)
  case (Cons op ops)
  from op_ready [OF Cons.prems(1)] Cons.prems(2) have "ready_when_open (db_do K fs op db)"
    by (simp split: db_op.splits)
  with Cons show ?case by (auto simp: ready_when_open_def split: db_op.splits)
qed simp

text \<open>
  C14: whatever the kernel answers, a client that opens a database only when none is open and
  decompiles only in an open one makes no call out of order: a database is closed and its analysis
  awaited only while it is open, and the decompiler is called only after it was initialised for the
  very database that is open; and the handle's two flags are what the calls and their answers say.
  Closing and asking about the cache are guarded by the handle and need no discipline.
\<close>

theorem session_legal:
  assumes "disciplined K fs ops (database_new claim)"
  shows "replay True (db_history (db_session K fs ops claim)) =
     Some (db_is_open (db_session K fs ops claim), db_hexrays (db_session K fs ops claim))"
proof -
  have "ready_when_open (database_new claim)" by (simp add: ready_when_open_def database_new_def)
  from session_tracks_strict [OF tracks_new disciplined_fresh [OF this assms]] show ?thesis
    by (simp add: db_session_def tracks_def)
qed

definition willing_kernel :: kernel where
  "willing_kernel hist c =
     \<lparr>an_outcome = Returned (if c = KHexInit then 1 else 0), an_text = [], an_errno = 0, an_strerror = []\<rparr>"

definition sample_entry :: address where
  "sample_entry = Address (NOT 0x401000)"

lemma willing_steps:
  "truthy (willing_kernel h KHexInit)"
  "guarded c (willing_kernel h (KOpen p r)) tr = (0, tr\<lparr>tr_trapped := False, tr_output := []\<rparr>)"
  "guarded c (willing_kernel h (KDecompile x)) tr = (0, tr\<lparr>tr_trapped := False, tr_output := []\<rparr>)"
  by (simp_all add: truthy_def willing_kernel_def guarded_def)

lemma exit_trapped_nz: "EXIT_TRAPPED \<noteq> 0" "0 \<noteq> EXIT_TRAPPED"
  by (simp_all add: EXIT_TRAPPED_def)

lemmas session_eval = database_open_def db_decompile_def hexrays_ensure_def ask_defs willing_steps
  exit_trapped_nz nul_checked_def database_new_def

theorem session_legal_witness:
  "db_hexrays (db_session willing_kernel id
     [DoOpen ''a'' False, DoDecompile sample_entry, DoClose False, DoOpen ''b'' False, DoDecompile sample_entry] True) \<and>
   replay True (db_history (db_session willing_kernel id
     [DoOpen ''a'' False, DoDecompile sample_entry, DoClose False, DoOpen ''b'' False, DoDecompile sample_entry] True))
     = Some (True, True)"
proof -
  let ?ops = "[DoOpen ''a'' False, DoDecompile sample_entry, DoClose False, DoOpen ''b'' False, DoDecompile sample_entry]"
  have "disciplined willing_kernel id ?ops (database_new True)"
    by (simp add: session_eval database_close_def clear_decompilation_cache_def split: prod.splits)
  from session_legal [OF this]
  show ?thesis
    by (simp add: db_session_def session_eval database_close_def clear_decompilation_cache_def split: prod.splits)
qed

text \<open>
  A database opened over another without a \<open>close\<close> inherits the readied decompiler: it is
  decompiled with no initialisation since it was opened.
\<close>

theorem reopened_database_keeps_decompiler:
  "replay True (db_history (db_session willing_kernel id
     [DoOpen ''a'' False, DoDecompile sample_entry, DoOpen ''b'' False, DoDecompile sample_entry] True))
   = None"
  by (simp add: db_session_def session_eval replay_def kernel_next_def)
    (simp add: willing_kernel_def)

text \<open>
  \<open>with_open\<close> closes on every way out: where the database was opened, the closure's result is
  handed on, whether it returned or unwound, and no database is open afterwards, for the handle and
  for the kernel alike.
\<close>

theorem with_open_closes:
  assumes "tracks False db" and "database_open K path False db = (Inr u, db1)"
    and "f db1 = (r, fold (db_do K fs) ops db1)"
  shows "fst (with_open K path f db) = r \<and> \<not> db_is_open (snd (with_open K path f db)) \<and>
    (\<exists>ready. replay False (db_history (snd (with_open K path f db))) = Some (False, ready))"
proof -
  have "tracks False db1" using open_tracks [OF assms(1), of K path False] assms(2) by simp
  then have "tracks False (database_close K False (fold (db_do K fs) ops db1))"
    by (intro close_tracks session_tracks)
  then show ?thesis using close_closes by (auto simp: with_open_def assms tracks_def)
qed

theorem with_open_closes_witness:
  "with_open willing_kernel ''a'' (\<lambda>db. (Unwound :: unit ran, db)) (database_new True) =
     (Unwound, snd (with_open willing_kernel ''a'' (\<lambda>db. (Unwound :: unit ran, db)) (database_new True)))
   \<and> \<not> db_is_open (snd (with_open willing_kernel ''a'' (\<lambda>db. (Unwound :: unit ran, db)) (database_new True)))"
proof -
  obtain db1 where "database_open willing_kernel ''a'' False (database_new True) = (Inr (), db1)"
    by (simp add: session_eval)
  from with_open_closes [OF tracks_new this, of "\<lambda>db. (Unwound :: unit ran, db)" Unwound id "[]"]
  show ?thesis by (simp add: prod_eq_iff)
qed

lemma dependents_history:
  assumes "db_hexrays db"
  shows "\<exists>as. map fst (db_history (invalidate_dependents K fs refs entry db)) =
      map fst (db_history db) @ map (\<lambda>a. KDirty (address_get a)) as \<and> distinct as \<and>
    set as = insert entry {a. \<exists>x \<in> set refs. try_new (fs x) = Some a}"
proof -
  let ?db = "snd (kernel_ask K (KDirty (address_get entry)) db)"
  from mark_history [of K fs refs "{entry}" ?db] obtain as where
    "map fst (db_history (mark_referrers K fs refs {entry} ?db)) =
       map fst (db_history ?db) @ map (\<lambda>a. KDirty (address_get a)) as" "distinct as"
    "set as = {a. \<exists>x \<in> set refs. try_new (fs x) = Some a} - {entry}" by blast
  moreover have "map fst (db_history ?db) = map fst (db_history db) @ [KDirty (address_get entry)]"
    by (simp add: ask_defs)
  ultimately show ?thesis
    using assms by (intro exI [of _ "entry # as"]) (auto simp: invalidate_dependents_def)
qed

text \<open>
  Invalidating a function and its dependents evicts the function and the function around every
  reference to it, each once, and skips the references outside every function.
\<close>

theorem dependents_evicted_once:
  assumes "db_hexrays db"
  shows "\<exists>as. map fst (db_history (invalidate_dependents K fs refs entry db)) =
      map fst (db_history db) @ map (\<lambda>a. KDirty (address_get a)) as \<and> distinct as \<and>
    set as = insert entry {a. \<exists>x \<in> set refs. try_new (fs x) = Some a}"
  by (rule dependents_history [OF assms])

theorem dependents_evicted_once_witness:
  "map fst (db_history (invalidate_dependents willing_kernel (\<lambda>x. if x = 9 then BADADDR else 0x1000)
     [1, 9, 2] sample_entry ((database_new True)\<lparr>db_hexrays := True\<rparr>))) =
   [KDirty 0x401000, KDirty 0x1000]"
proof -
  let ?fs = "\<lambda>x :: u64. if x = 9 then BADADDR else 0x1000"
  have e: "address_get sample_entry = 0x401000" by (simp add: sample_entry_def address_get_def)
  obtain a where a: "try_new 0x1000 = Some a" "address_get a = 0x1000"
    by (simp add: try_new_def address_get_def)
  have ne: "sample_entry \<noteq> a" using e a(2) by auto
  have hx: "db_hexrays ((database_new True)\<lparr>db_hexrays := True\<rparr>)" by simp
  from dependents_evicted_once [OF hx, of willing_kernel ?fs "[1, 9, 2]" sample_entry]
  show ?thesis
    using e a ne by (simp add: invalidate_dependents_def ask_defs database_new_def)
qed

text \<open>
  A string getter is read whole, however long its value; one whose value grew between the
  sizing call and the second is cut to the length the first reported, never read past it.
\<close>

theorem read_string_whole:
  assumes "length v \<le> length v'"
  shows "read_string (copy_out v) (copy_out v') =
    Some (from_utf8_lossy (if length v < STACK_CAP then v else take (length v) v'))"
  by (rule read_string_grown [OF assms])

theorem read_string_whole_witness:
  "read_string (copy_out (replicate 300 (CHR ''a''))) (copy_out (replicate 400 (CHR ''a''))) =
     Some (from_utf8_lossy (replicate 300 (CHR ''a'')))"
  using read_string_whole [of "replicate 300 (CHR ''a'')" "replicate 400 (CHR ''a'')"]
  by (simp add: STACK_CAP_def)

text \<open>
  An internal error of the kernel is reported with the exit code of an earlier fatal: the trap
  resets every field but that one.
\<close>

theorem interr_reports_stale_code:
  assumes "CHR 0x00 \<notin> set path" and "an_outcome (K (db_history db) (KOpen path auto)) = Interr"
  shows "\<exists>diag. fst (database_open K path auto db) = Inl (KernelExit (tr_code (db_trap db)) diag)"
  using assms
  by (simp add: database_open_def ask_defs nul_checked_def guarded_def kernel_exit_error_def)

definition failing_kernel :: kernel where
  "failing_kernel hist c =
     \<lparr>an_outcome = (if hist = [] then Exited 1 else Interr), an_text = [], an_errno = 0, an_strerror = []\<rparr>"

theorem interr_reports_stale_code_witness:
  "\<exists>diag. fst (database_open failing_kernel ''b'' False
     (snd (database_open failing_kernel ''a'' False (database_new True)))) = Inl (KernelExit 1 diag)"
proof -
  let ?db = "snd (database_open failing_kernel ''a'' False (database_new True))"
  have db: "db_history ?db \<noteq> []" "tr_code (db_trap ?db) = 1"
    by (simp_all add: database_open_def ask_defs nul_checked_def guarded_def failing_kernel_def
        database_new_def)
  have "an_outcome (failing_kernel (db_history ?db) (KOpen ''b'' False)) = Interr"
    using db(1) by (simp add: failing_kernel_def)
  with interr_reports_stale_code [of "''b''" failing_kernel ?db False] db(2) show ?thesis by simp
qed

end
