(* ===== verification/Types.thy ===== *)
theory Types
  imports Arena
begin

text \<open>
  \<open>crates/idakit/src/types/mod.rs\<close> and \<open>types/repr.rs\<close>: the shape of a resolved type, and the
  interned table every resolved type lives in. A child type is a handle into the table, so a
  recursive type is a cycle of handles. \<open>intern\<close> collapses equal values to one handle;
  \<open>alloc_placeholder\<close> and \<open>fill\<close> bypass that cache, which is what lets an aggregate be
  referenced before its body is known.
\<close>

type_synonym type_id = idx

subsection \<open>Value representations\<close>

datatype number_format = Binary | Octal | Hexadecimal | Decimal | CharFormat

fun number_format_code :: "number_format \<Rightarrow> u32" where
  "number_format_code Binary = 1"
| "number_format_code Octal = 2"
| "number_format_code Hexadecimal = 3"
| "number_format_code Decimal = 4"
| "number_format_code CharFormat = 6"

definition number_format_variants :: "number_format list" where
  "number_format_variants = [Binary, Octal, Hexadecimal, Decimal, CharFormat]"

interpretation number_formats: closed_enum number_format_code number_format_variants
proof
  show "distinct (map number_format_code number_format_variants)"
    by (simp add: number_format_variants_def)
  show "v \<in> set number_format_variants" for v
    by (cases v) (simp_all add: number_format_variants_def)
qed

definition number_format_try_from :: "u32 \<Rightarrow> number_format option" where
  "number_format_try_from n = try_from number_format_code number_format_variants n"

record value_repr =
  vr_format :: number_format
  vr_signed :: bool
  vr_leading_zeros :: bool

subsection \<open>Shapes\<close>

record type_member =
  tm_name :: string
  tm_bit_offset :: u64
  tm_ty :: type_id
  tm_bitfield_width :: "u32 option"
  tm_repr :: "value_repr option"

record enum_member =
  em_name :: string
  em_value :: u64

datatype type_shape =
    TVoid
  | TBool
  | TInt u8 bool
  | TFloat u8
  | TPtr type_id
  | TArray type_id u64
  | TStruct "string option" "type_member list"
  | TUnion "string option" "type_member list"
  | TEnum "string option" type_id "enum_member list" bool "value_repr option"
  | TFunction type_id "type_id list" bool
  | TTypedef string type_id
  | TOpaque string
  | TUnknown

record type_value =
  tv_shape :: type_shape
  tv_size :: "u64 option"

fun shape_pointee :: "type_shape \<Rightarrow> type_id option" where
  "shape_pointee (TPtr elem) = Some elem"
| "shape_pointee _ = None"

fun shape_tag_name :: "type_shape \<Rightarrow> string option" where
  "shape_tag_name (TStruct name _) = name"
| "shape_tag_name (TUnion name _) = name"
| "shape_tag_name (TEnum name _ _ _ _) = name"
| "shape_tag_name (TTypedef name _) = Some name"
| "shape_tag_name _ = None"

text \<open>The child handles a shape carries, and the handles it carries only through its members.\<close>

fun shape_children :: "type_shape \<Rightarrow> type_id list" where
  "shape_children (TPtr e) = [e]"
| "shape_children (TArray e _) = [e]"
| "shape_children (TStruct _ ms) = map tm_ty ms"
| "shape_children (TUnion _ ms) = map tm_ty ms"
| "shape_children (TEnum _ u _ _ _) = [u]"
| "shape_children (TFunction r ps _) = r # ps"
| "shape_children (TTypedef _ u) = [u]"
| "shape_children _ = []"

subsection \<open>The interned table\<close>

record type_table =
  tt_arena :: "type_value arena"
  tt_dedup :: "type_value \<Rightarrow> type_id option"

definition table_new :: type_table where
  "table_new = \<lparr>tt_arena = arena_new, tt_dedup = Map.empty\<rparr>"

definition table_intern :: "type_value \<Rightarrow> type_table \<Rightarrow> (type_id \<times> type_table) option" where
  "table_intern value t =
     (case tt_dedup t value of
        Some tid \<Rightarrow> Some (tid, t)
      | None \<Rightarrow>
          do { (tid, ar) \<leftarrow> arena_alloc value (tt_arena t);
               Some (tid, t\<lparr>tt_arena := ar, tt_dedup := (tt_dedup t)(value \<mapsto> tid)\<rparr>) })"

definition table_alloc_placeholder :: "type_table \<Rightarrow> (type_id \<times> type_table) option" where
  "table_alloc_placeholder t =
     do { (tid, ar) \<leftarrow> arena_alloc \<lparr>tv_shape = TUnknown, tv_size = None\<rparr> (tt_arena t);
          Some (tid, t\<lparr>tt_arena := ar\<rparr>) }"

definition table_fill :: "type_id \<Rightarrow> type_value \<Rightarrow> type_table \<Rightarrow> type_table option" where
  "table_fill tid value t =
     do { ar \<leftarrow> arena_set tid value (tt_arena t); Some (t\<lparr>tt_arena := ar\<rparr>) }"

definition table_get :: "type_table \<Rightarrow> type_id \<Rightarrow> type_value option" where
  "table_get t tid = arena_get (tt_arena t) tid"

definition table_len :: "type_table \<Rightarrow> nat" where
  "table_len t = arena_len (tt_arena t)"

definition table_is_empty :: "type_table \<Rightarrow> bool" where
  "table_is_empty t = arena_is_empty (tt_arena t)"

definition table_iter :: "type_table \<Rightarrow> (type_id \<times> type_value) list option" where
  "table_iter t = arena_iter (tt_arena t)"

text \<open>
  The invariant the cache keeps: a cached value is what its handle reads. A fill breaks it only
  where the handle filled was interned rather than reserved.
\<close>

definition table_inv :: "type_table \<Rightarrow> bool" where
  "table_inv t \<longleftrightarrow> (\<forall>v tid. tt_dedup t v = Some tid \<longrightarrow> table_get t tid = Some v)"

lemma table_inv_new [simp]: "table_inv table_new"
  by (simp add: table_inv_def table_new_def)

lemma table_get_new [simp]: "table_get table_new tid = None"
  by (simp add: table_get_def table_new_def)

lemma table_intern_cases:
  assumes "table_intern v t = Some (tid, t')"
  obtains (hit) "tt_dedup t v = Some tid" and "t' = t"
  | (fresh) ar where "tt_dedup t v = None" and "arena_alloc v (tt_arena t) = Some (tid, ar)"
      and "t' = t\<lparr>tt_arena := ar, tt_dedup := (tt_dedup t)(v \<mapsto> tid)\<rparr>"
  using assms by (auto simp: table_intern_def split: option.splits)

lemma table_intern_stable [handle_rules]:
  "table_intern v t = Some (tid, t') \<Longrightarrow> table_get t j = Some w \<Longrightarrow> table_get t' j = Some w"
  by (erule table_intern_cases)
     (auto simp: table_get_def dest: arena_store.alloc_stable)

lemma table_intern_get:
  "table_inv t \<Longrightarrow> table_intern v t = Some (tid, t') \<Longrightarrow> table_get t' tid = Some v"
  by (erule table_intern_cases) (auto simp: table_inv_def table_get_def arena_get_alloc)

lemma table_intern_inv:
  assumes "table_inv t" and "table_intern v t = Some (tid, t')"
  shows "table_inv t'"
  using assms(2)
proof (cases rule: table_intern_cases)
  case hit
  with assms(1) show ?thesis by simp
next
  case (fresh ar)
  have "table_get t' i = Some w" if "tt_dedup t' w = Some i" for w i
  proof (cases "w = v")
    case True
    with that fresh show ?thesis by (simp add: table_get_def arena_get_alloc)
  next
    case False
    with that fresh have "tt_dedup t w = Some i" by simp
    with assms(1) have "table_get t i = Some w" by (simp add: table_inv_def)
    with table_intern_stable [OF assms(2)] show ?thesis .
  qed
  then show ?thesis by (simp add: table_inv_def)
qed

text \<open>The table is an interning store, with its cache as the memo.\<close>

interpretation table_interner: interner table_intern table_get tt_dedup table_inv
proof
  fix t v tid t' j w
  show "table_inv t \<Longrightarrow> table_intern v t = Some (tid, t') \<Longrightarrow> table_inv t'"
    by (rule table_intern_inv)
  show "table_inv t \<Longrightarrow> tt_dedup t v = Some tid \<Longrightarrow> table_get t tid = Some v"
    by (simp add: table_inv_def)
  show "table_intern v t = Some (tid, t') \<Longrightarrow> tt_dedup t' = (tt_dedup t)(v \<mapsto> tid)"
    by (erule table_intern_cases) auto
  show "tt_dedup t v = Some tid \<Longrightarrow> table_intern v t = Some (tid, t)"
    by (simp add: table_intern_def)
  show "table_inv t \<Longrightarrow> table_intern v t = Some (tid, t') \<Longrightarrow> table_get t j = Some w
    \<Longrightarrow> table_get t' j = Some w"
    by (rule table_intern_stable)
qed

lemma placeholder_get:
  "table_alloc_placeholder t = Some (tid, t') \<Longrightarrow>
   table_get t' = (table_get t)(tid \<mapsto> \<lparr>tv_shape = TUnknown, tv_size = None\<rparr>)"
  by (rule ext) (auto simp: table_alloc_placeholder_def table_get_def arena_get_alloc)

lemma placeholder_fresh: "table_alloc_placeholder t = Some (tid, t') \<Longrightarrow> table_get t tid = None"
  by (auto simp: table_alloc_placeholder_def table_get_def arena_alloc_fresh)

lemma placeholder_dedup [frame_rules]:
  "table_alloc_placeholder t = Some (tid, t') \<Longrightarrow> tt_dedup t' = tt_dedup t"
  by (auto simp: table_alloc_placeholder_def)

lemma placeholder_stable [handle_rules]:
  "table_alloc_placeholder t = Some (tid, t') \<Longrightarrow> table_get t j = Some w
   \<Longrightarrow> table_get t' j = Some w"
  using placeholder_fresh by (fastforce simp: placeholder_get)

lemma placeholder_inv:
  "table_inv t \<Longrightarrow> table_alloc_placeholder t = Some (tid, t') \<Longrightarrow> table_inv t'"
  by (auto simp: table_inv_def placeholder_dedup intro: placeholder_stable)

lemma fill_get: "table_fill tid v t = Some t' \<Longrightarrow> table_get t' = (table_get t)(tid \<mapsto> v)"
  by (rule ext) (auto simp: table_fill_def table_get_def arena_get_set)

lemma fill_dedup [frame_rules]: "table_fill tid v t = Some t' \<Longrightarrow> tt_dedup t' = tt_dedup t"
  by (auto simp: table_fill_def)

lemma fill_inv:
  assumes "table_inv t" and "table_fill tid v t = Some t'" and "tid \<notin> ran (tt_dedup t)"
  shows "table_inv t'"
  using assms by (auto simp: table_inv_def fill_dedup fill_get ran_def)

lemma intern_facts:
  assumes "table_inv t" and "alloc_all table_intern vs t = Some (ids, t')"
    and "m < length vs" and "n < length vs"
  shows "ids ! m = ids ! n \<longleftrightarrow> vs ! m = vs ! n" and "table_get t' (ids ! m) = Some (vs ! m)"
    and "table_inv t'"
proof -
  show "ids ! m = ids ! n \<longleftrightarrow> vs ! m = vs ! n"
    by (rule table_interner.intern_all_eq_iff [OF assms])
  have "map (table_get t') ids ! m = map Some vs ! m"
    using table_interner.intern_all_look [OF assms(1,2)] by simp
  moreover have "length ids = length vs"
    using map_eq_imp_length_eq [OF table_interner.intern_all_look [OF assms(1,2)]] by simp
  ultimately show "table_get t' (ids ! m) = Some (vs ! m)" using assms(3) by simp
  show "table_inv t'" by (rule table_interner.intern_all_inv [OF assms(1,2)])
qed

text \<open>
  C32: interning a list of values into a table whose cache is consistent yields, for every pair of
  positions, equal handles exactly for equal values; every handle reads its value back.
\<close>

theorem intern_collapses_equal:
  assumes "table_inv t" and "alloc_all table_intern vs t = Some (ids, t')"
    and "m < length vs" and "n < length vs"
  shows "(ids ! m = ids ! n \<longleftrightarrow> vs ! m = vs ! n) \<and>
    (table_get t' (ids ! m) = Some (vs ! m)) \<and>
    (table_inv t')"
  using intern_facts [OF assms] by blast

theorem intern_collapses_equal_witness:
  "\<exists>ids t'. alloc_all table_intern
       [\<lparr>tv_shape = TInt 4 True, tv_size = Some 4\<rparr>, \<lparr>tv_shape = TInt 4 False, tv_size = Some 4\<rparr>,
        \<lparr>tv_shape = TInt 4 True, tv_size = Some 4\<rparr>] table_new = Some (ids, t') \<and>
     ids ! 0 = ids ! 2 \<and> ids ! 0 \<noteq> ids ! 1"
proof -
  let ?i = "\<lparr>tv_shape = TInt 4 True, tv_size = Some (4 :: u64)\<rparr>"
  let ?u = "\<lparr>tv_shape = TInt 4 False, tv_size = Some (4 :: u64)\<rparr>"
  obtain ids t' where run: "alloc_all table_intern [?i, ?u, ?i] table_new = Some (ids, t')"
    by (simp add: table_intern_def table_new_def arena_defs)
  have "ids ! 0 = ids ! 2" "ids ! 0 \<noteq> ids ! 1"
    using intern_collapses_equal [OF table_inv_new run, of 0 2]
      intern_collapses_equal [OF table_inv_new run, of 0 1] by simp_all
  with run show ?thesis by blast
qed

end
