(* ===== verification/Type_Builder.thy ===== *)
theory Type_Builder
  imports Types "HOL-Library.AList"
begin

text \<open>
  \<open>types/builder.rs\<close>, \<open>types/sink.rs\<close> and the walk of \<open>types/resolved.rs\<close>: the facade streams type
  callbacks into a builder that accumulates the interned table. A named type is reserved by name
  before its body arrives, so a member can point back at it.

  The facade itself is C++ code driven by the kernel: a run of it is a list of callbacks
  (\<open>sink_op\<close>) with the handle it returns. What the code relies on of the facade is \<open>op_ok\<close>: it
  passes only handles it was given, fills only a handle it reserved and that is still pending,
  and names one of the four scalar kinds.
\<close>

datatype extract_error =
    UnknownExpressionTag u32
  | BadAddress
  | ScalarTooWide u32
  | UnfilledType nat

subsection \<open>The builder\<close>

record type_builder =
  tb_table :: type_table
  tb_name2type :: "(string \<times> type_id) list"
  tb_pending :: "(type_id \<times> string option) list"
  tb_too_wide :: "u32 option"

definition builder_new :: type_builder where
  "builder_new = \<lparr>tb_table = table_new, tb_name2type = [], tb_pending = [], tb_too_wide = None\<rparr>"

definition opt_size :: "u64 \<Rightarrow> u32 \<Rightarrow> u64 option" where
  "opt_size sz has_size = (if has_size \<noteq> 0 then Some sz else None)"

definition builder_intern :: "type_value \<Rightarrow> type_builder \<Rightarrow> (type_id \<times> type_builder) option" where
  "builder_intern value b =
     do { (tid, t) \<leftarrow> table_intern value (tb_table b); Some (tid, b\<lparr>tb_table := t\<rparr>) }"

definition builder_alloc_placeholder :: "type_builder \<Rightarrow> (type_id \<times> type_builder) option" where
  "builder_alloc_placeholder b =
     do { (tid, t) \<leftarrow> table_alloc_placeholder (tb_table b); Some (tid, b\<lparr>tb_table := t\<rparr>) }"

definition builder_fill :: "type_id \<Rightarrow> type_value \<Rightarrow> type_builder \<Rightarrow> type_builder option" where
  "builder_fill tid value b =
     do { t \<leftarrow> table_fill tid value (tb_table b); Some (b\<lparr>tb_table := t\<rparr>) }"

definition builder_type_size :: "type_builder \<Rightarrow> type_id \<Rightarrow> u64 option option" where
  "builder_type_size b tid = map_option tv_size (table_get (tb_table b) tid)"

text \<open>\<open>mod scalar_kind\<close>: the tag picks the shape; a tag outside the four falls to \<open>Unknown\<close>.\<close>

definition scalar_shape :: "u32 \<Rightarrow> u8 \<Rightarrow> u32 \<Rightarrow> type_shape" where
  "scalar_shape kind width sgnd =
     (if kind = 1 then TVoid
      else if kind = 2 then TBool
      else if kind = 3 then TInt width (sgnd \<noteq> 0)
      else if kind = 4 then TFloat width
      else TUnknown)"

definition builder_scalar ::
  "u32 \<Rightarrow> u32 \<Rightarrow> u32 \<Rightarrow> u64 \<Rightarrow> u32 \<Rightarrow> type_builder \<Rightarrow> (type_id \<times> type_builder) option" where
  "builder_scalar kind bytes sgnd sz has_size b =
     (let (width, b') =
            (if unat bytes < 256 then (ucast bytes, b)
             else (0, b\<lparr>tb_too_wide :=
                     (case tb_too_wide b of None \<Rightarrow> Some bytes | Some w \<Rightarrow> Some w)\<rparr>))
      in builder_intern
           \<lparr>tv_shape = scalar_shape kind width sgnd, tv_size = opt_size sz has_size\<rparr> b')"

definition builder_ptr ::
  "type_id \<Rightarrow> u64 \<Rightarrow> u32 \<Rightarrow> type_builder \<Rightarrow> (type_id \<times> type_builder) option" where
  "builder_ptr target sz has_size b =
     builder_intern \<lparr>tv_shape = TPtr target, tv_size = opt_size sz has_size\<rparr> b"

definition builder_array ::
  "type_id \<Rightarrow> u64 \<Rightarrow> u64 \<Rightarrow> u32 \<Rightarrow> type_builder \<Rightarrow> (type_id \<times> type_builder) option" where
  "builder_array elem nelems sz has_size b =
     builder_intern \<lparr>tv_shape = TArray elem nelems, tv_size = opt_size sz has_size\<rparr> b"

definition builder_function ::
  "type_id \<Rightarrow> type_id list \<Rightarrow> u32 \<Rightarrow> type_builder \<Rightarrow> (type_id \<times> type_builder) option" where
  "builder_function ret params vararg b =
     builder_intern \<lparr>tv_shape = TFunction ret params (vararg \<noteq> 0), tv_size = None\<rparr> b"

definition builder_opaque :: "string \<Rightarrow> type_builder \<Rightarrow> (type_id \<times> type_builder) option" where
  "builder_opaque name b = builder_intern \<lparr>tv_shape = TOpaque name, tv_size = None\<rparr> b"

definition builder_named_ref :: "string \<Rightarrow> type_builder \<Rightarrow> (type_id \<times> type_builder) option" where
  "builder_named_ref name b =
     (case map_of (tb_name2type b) name of
        Some tid \<Rightarrow> Some (tid, b)
      | None \<Rightarrow>
          do { (tid, b1) \<leftarrow> builder_alloc_placeholder b;
               Some (tid, b1\<lparr>tb_name2type := AList.update name tid (tb_name2type b1),
                             tb_pending := AList.update tid (Some name) (tb_pending b1)\<rparr>) })"

definition builder_anon :: "type_builder \<Rightarrow> (type_id \<times> type_builder) option" where
  "builder_anon b =
     do { (tid, b1) \<leftarrow> builder_alloc_placeholder b;
          Some (tid, b1\<lparr>tb_pending := AList.update tid None (tb_pending b1)\<rparr>) }"

definition builder_take_name :: "type_id \<Rightarrow> type_builder \<Rightarrow> string option \<times> type_builder" where
  "builder_take_name tid b =
     (Option.bind (map_of (tb_pending b) tid) (\<lambda>n. n),
      b\<lparr>tb_pending := AList.delete tid (tb_pending b)\<rparr>)"

definition builder_fill_struct ::
  "type_id \<Rightarrow> bool \<Rightarrow> type_member list \<Rightarrow> u64 \<Rightarrow> u32 \<Rightarrow> type_builder \<Rightarrow> type_builder option" where
  "builder_fill_struct tid is_union members sz has_size b =
     (let (name, b1) = builder_take_name tid b;
          shape = (if is_union then TUnion name members else TStruct name members)
      in builder_fill tid \<lparr>tv_shape = shape, tv_size = opt_size sz has_size\<rparr> b1)"

definition repr_of :: "u32 \<Rightarrow> bool \<Rightarrow> bool \<Rightarrow> value_repr option" where
  "repr_of vtype sgnd leading_zeros =
     map_option (\<lambda>f. \<lparr>vr_format = f, vr_signed = sgnd, vr_leading_zeros = leading_zeros\<rparr>)
       (number_format_try_from vtype)"

definition builder_fill_enum ::
  "type_id \<Rightarrow> type_id \<Rightarrow> enum_member list \<Rightarrow> u64 \<Rightarrow> u32 \<Rightarrow> bool \<Rightarrow> u32 \<Rightarrow> bool \<Rightarrow> bool
   \<Rightarrow> type_builder \<Rightarrow> type_builder option" where
  "builder_fill_enum tid underlying members sz has_size is_bitmask vtype rsigned rzeros b =
     (let (name, b1) = builder_take_name tid b
      in builder_fill tid
           \<lparr>tv_shape = TEnum name underlying members is_bitmask (repr_of vtype rsigned rzeros),
            tv_size = opt_size sz has_size\<rparr> b1)"

definition builder_fill_typedef :: "type_id \<Rightarrow> type_id \<Rightarrow> type_builder \<Rightarrow> type_builder option" where
  "builder_fill_typedef tid underlying b =
     (let (name, b1) = builder_take_name tid b
      in do { sz \<leftarrow> builder_type_size b1 underlying;
              builder_fill tid
                \<lparr>tv_shape = TTypedef (case name of Some n \<Rightarrow> n | None \<Rightarrow> []) underlying,
                 tv_size = sz\<rparr> b1 })"

definition builder_unfilled :: "type_builder \<Rightarrow> nat" where
  "builder_unfilled b = length (tb_pending b)"

subsection \<open>The sink the facade drives\<close>

record member_info =
  mi_name :: string
  mi_bit_offset :: u64
  mi_ty :: u32
  mi_bitfield_width :: u32
  mi_repr_vtype :: u32
  mi_repr_signed :: bool
  mi_repr_leading_zeros :: bool

record enum_const_info =
  ci_name :: string
  ci_value :: u64

definition marshal_member :: "member_info \<Rightarrow> type_member" where
  "marshal_member m =
     \<lparr>tm_name = mi_name m, tm_bit_offset = mi_bit_offset m, tm_ty = mi_ty m,
      tm_bitfield_width = (if mi_bitfield_width m \<noteq> 0 then Some (mi_bitfield_width m) else None),
      tm_repr = repr_of (mi_repr_vtype m) (mi_repr_signed m) (mi_repr_leading_zeros m)\<rparr>"

definition marshal_constant :: "enum_const_info \<Rightarrow> enum_member" where
  "marshal_constant c = \<lparr>em_name = ci_name c, em_value = ci_value c\<rparr>"

datatype sink_op =
    SScalar u32 u32 u32 u64 u32
  | SPtr u32 u64 u32
  | SArray u32 u64 u64 u32
  | SFunc u32 "u32 list" u32
  | SOpaque string
  | SNamedRef string
  | SAnon
  | SFillStruct u32 bool "member_info list" u64 u32
  | SFillEnum u32 u32 "enum_const_info list" u64 u32 bool u32 bool bool
  | SFillTypedef u32 u32

definition ret_id :: "(type_id \<times> type_builder) option \<Rightarrow> (u32 option \<times> type_builder) option" where
  "ret_id r = map_option (\<lambda>(tid, b). (Some tid, b)) r"

definition ret_unit :: "type_builder option \<Rightarrow> (u32 option \<times> type_builder) option" where
  "ret_unit r = map_option (\<lambda>b. (None, b)) r"

text \<open>One callback: the handle it returns to the facade, if any, and the builder after it.\<close>

fun sink_step :: "sink_op \<Rightarrow> type_builder \<Rightarrow> (u32 option \<times> type_builder) option" where
  "sink_step (SScalar kind bytes sgnd sz has_size) b =
     ret_id (builder_scalar kind bytes sgnd sz has_size b)"
| "sink_step (SPtr target sz has_size) b = ret_id (builder_ptr target sz has_size b)"
| "sink_step (SArray elem nelems sz has_size) b =
     ret_id (builder_array elem nelems sz has_size b)"
| "sink_step (SFunc ret params vararg) b = ret_id (builder_function ret params vararg b)"
| "sink_step (SOpaque name) b = ret_id (builder_opaque name b)"
| "sink_step (SNamedRef name) b = ret_id (builder_named_ref name b)"
| "sink_step SAnon b = ret_id (builder_anon b)"
| "sink_step (SFillStruct tid is_union members sz has_size) b =
     ret_unit (builder_fill_struct tid is_union (map marshal_member members) sz has_size b)"
| "sink_step (SFillEnum tid underlying constants sz has_size is_bitmask vtype rsigned rzeros) b =
     ret_unit (builder_fill_enum tid underlying (map marshal_constant constants) sz has_size
                 is_bitmask vtype rsigned rzeros b)"
| "sink_step (SFillTypedef tid underlying) b = ret_unit (builder_fill_typedef tid underlying b)"

fun run_sink :: "sink_op list \<Rightarrow> type_builder \<Rightarrow> type_builder option" where
  "run_sink [] b = Some b"
| "run_sink (op # ops) b = do { (r, b1) \<leftarrow> sink_step op b; run_sink ops b1 }"

subsection \<open>The walk\<close>

record resolved_type =
  rt_types :: type_table
  rt_root :: type_id

text \<open>
  \<open>walk_type\<close>: drive the facade, then refuse a malformed table. A facade run that found no type
  returns no root.
\<close>

definition walk_type ::
  "sink_op list \<Rightarrow> u32 option \<Rightarrow> (extract_error + resolved_type option) option" where
  "walk_type ops root =
     do { b \<leftarrow> run_sink ops builder_new;
          (case root of
             None \<Rightarrow> Some (Inr None)
           | Some r \<Rightarrow>
               (case tb_too_wide b of
                  Some bytes \<Rightarrow> Some (Inl (ScalarTooWide bytes))
                | None \<Rightarrow>
                    if builder_unfilled b \<noteq> 0 then Some (Inl (UnfilledType (builder_unfilled b)))
                    else Some (Inr (Some \<lparr>rt_types = tb_table b, rt_root = r\<rparr>)))) }"

lemmas builder_defs [op_defs] = builder_intern_def builder_alloc_placeholder_def builder_fill_def
  builder_type_size_def builder_scalar_def builder_ptr_def builder_array_def builder_function_def
  builder_opaque_def builder_named_ref_def builder_anon_def builder_take_name_def
  builder_fill_struct_def builder_fill_enum_def builder_fill_typedef_def ret_id_def ret_unit_def

subsection \<open>What the code relies on of the facade\<close>

definition in_range :: "type_builder \<Rightarrow> type_id \<Rightarrow> bool" where
  "in_range b tid \<longleftrightarrow> unat tid < table_len (tb_table b)"

definition is_pending :: "type_builder \<Rightarrow> type_id \<Rightarrow> bool" where
  "is_pending b tid \<longleftrightarrow> tid \<in> fst ` set (tb_pending b)"

fun op_ok :: "type_builder \<Rightarrow> sink_op \<Rightarrow> bool" where
  "op_ok b (SScalar kind _ _ _ _) = (kind \<in> {1, 2, 3, 4})"
| "op_ok b (SPtr target _ _) = in_range b target"
| "op_ok b (SArray elem _ _ _) = in_range b elem"
| "op_ok b (SFunc ret params _) = (in_range b ret \<and> list_all (in_range b) params)"
| "op_ok b (SOpaque _) = True"
| "op_ok b (SNamedRef _) = True"
| "op_ok b SAnon = True"
| "op_ok b (SFillStruct tid _ ms _ _) =
     (is_pending b tid \<and> list_all (in_range b) (map mi_ty ms))"
| "op_ok b (SFillEnum tid underlying _ _ _ _ _ _ _) =
     (is_pending b tid \<and> in_range b underlying)"
| "op_ok b (SFillTypedef tid underlying) = (is_pending b tid \<and> in_range b underlying)"

fun ops_ok :: "sink_op list \<Rightarrow> type_builder \<Rightarrow> bool" where
  "ops_ok [] b = True"
| "ops_ok (op # ops) b =
     (op_ok b op \<and> (case sink_step op b of Some (r, b1) \<Rightarrow> ops_ok ops b1 | None \<Rightarrow> False))"

text \<open>The builders a well-behaved facade can produce.\<close>

inductive reachable_builder :: "type_builder \<Rightarrow> bool" where
  start: "reachable_builder builder_new"
| step: "reachable_builder b \<Longrightarrow> op_ok b op \<Longrightarrow> sink_step op b = Some (r, b')
     \<Longrightarrow> reachable_builder b'"

text \<open>
  The invariant: the cache is consistent and never holds a pending handle, every child handle is
  allocated, and the pending entries are exactly the ones without a body.
\<close>

definition builder_inv :: "type_builder \<Rightarrow> bool" where
  "builder_inv b \<longleftrightarrow>
     table_inv (tb_table b) \<and>
     distinct (map fst (tb_pending b)) \<and>
     (\<forall>tid. is_pending b tid \<longrightarrow> in_range b tid \<and> tid \<notin> ran (tt_dedup (tb_table b))) \<and>
     (\<forall>tid v. table_get (tb_table b) tid = Some v \<longrightarrow>
        list_all (in_range b) (shape_children (tv_shape v)) \<and>
        (is_pending b tid \<longleftrightarrow> tv_shape v = TUnknown)) \<and>
     list_all (in_range b) (map snd (tb_name2type b))"

lemma in_range_iff: "in_range b tid \<longleftrightarrow> table_get (tb_table b) tid \<noteq> None"
  by (auto simp: in_range_def table_len_def table_get_def arena_get_None_iff)

lemma builder_inv_new [simp]: "builder_inv builder_new"
  by (simp add: builder_inv_def builder_new_def is_pending_def)

lemma in_range_frame [simp]:
  "in_range (b\<lparr>tb_too_wide := w\<rparr>) = in_range b" "in_range (b\<lparr>tb_pending := p\<rparr>) = in_range b"
  "in_range (b\<lparr>tb_name2type := n\<rparr>) = in_range b"
  by (simp_all add: fun_eq_iff in_range_def)

lemma is_pending_frame [simp]:
  "is_pending (b\<lparr>tb_too_wide := w\<rparr>) = is_pending b" "is_pending (b\<lparr>tb_table := t\<rparr>) = is_pending b"
  "is_pending (b\<lparr>tb_name2type := n\<rparr>) = is_pending b"
  by (simp_all add: fun_eq_iff is_pending_def)

lemma is_pending_update [simp]:
  "is_pending (b\<lparr>tb_pending := AList.update tid nm (tb_pending b)\<rparr>) i \<longleftrightarrow> i = tid \<or> is_pending b i"
  by (auto simp: is_pending_def dom_update)

lemma is_pending_delete [simp]:
  "is_pending (b\<lparr>tb_pending := AList.delete tid (tb_pending b)\<rparr>) i \<longleftrightarrow> i \<noteq> tid \<and> is_pending b i"
proof -
  have "set (map fst (AList.delete tid (tb_pending b))) = set (map fst (tb_pending b)) - {tid}"
    by (simp only: delete_keys set_removeAll)
  then show ?thesis by (auto simp: is_pending_def)
qed

lemma builder_inv_too_wide [simp]: "builder_inv (b\<lparr>tb_too_wide := w\<rparr>) = builder_inv b"
  by (simp add: builder_inv_def)

lemma list_all_mono: "list_all P xs \<Longrightarrow> (\<And>x. P x \<Longrightarrow> Q x) \<Longrightarrow> list_all Q xs"
  by (auto simp: list_all_iff)

lemma builder_invD:
  assumes "builder_inv b"
  shows "table_inv (tb_table b)" and "distinct (map fst (tb_pending b))"
    and "is_pending b i \<Longrightarrow> in_range b i" and "is_pending b i \<Longrightarrow> i \<notin> ran (tt_dedup (tb_table b))"
    and "table_get (tb_table b) i = Some v \<Longrightarrow> list_all (in_range b) (shape_children (tv_shape v))"
    and "table_get (tb_table b) i = Some v \<Longrightarrow> is_pending b i \<longleftrightarrow> tv_shape v = TUnknown"
    and "list_all (in_range b) (map snd (tb_name2type b))"
  using assms by (simp_all add: builder_inv_def)

lemma builder_invI:
  assumes "table_inv (tb_table b)" and "distinct (map fst (tb_pending b))"
    and "\<And>i. is_pending b i \<Longrightarrow> in_range b i" and "\<And>i. is_pending b i \<Longrightarrow> i \<notin> ran (tt_dedup (tb_table b))"
    and "\<And>i v. table_get (tb_table b) i = Some v \<Longrightarrow> list_all (in_range b) (shape_children (tv_shape v))"
    and "\<And>i v. table_get (tb_table b) i = Some v \<Longrightarrow> is_pending b i \<longleftrightarrow> tv_shape v = TUnknown"
    and "list_all (in_range b) (map snd (tb_name2type b))"
  shows "builder_inv b"
  using assms by (simp add: builder_inv_def)

text \<open>The three primitive updates keep the invariant and every settled handle.\<close>

lemma builder_intern_inv:
  assumes inv: "builder_inv b" and run: "builder_intern v b = Some (tid, b')"
    and shape: "tv_shape v \<noteq> TUnknown" and kids: "list_all (in_range b) (shape_children (tv_shape v))"
  shows "builder_inv b'"
proof -
  from run obtain t where t: "table_intern v (tb_table b) = Some (tid, t)" "b' = b\<lparr>tb_table := t\<rparr>"
    by (auto simp: builder_intern_def)
  note old = builder_invD [OF inv]
  have mono: "in_range b' i" if "in_range b i" for i
    using that t by (auto simp: in_range_iff dest: table_intern_stable)
  from t(1) show ?thesis
  proof (cases rule: table_intern_cases)
    case hit
    with t inv show ?thesis by simp
  next
    case (fresh ar)
    have tid: "\<not> in_range b tid"
      using fresh(2) by (simp add: in_range_iff table_get_def arena_alloc_fresh)
    have get: "table_get t = (table_get (tb_table b))(tid \<mapsto> v)"
      by (rule ext) (use fresh in \<open>simp add: table_get_def arena_get_alloc\<close>)
    show ?thesis
    proof (rule builder_invI)
      show "table_inv (tb_table b')" using table_intern_inv [OF old(1) t(1)] t(2) by simp
      show "distinct (map fst (tb_pending b'))" using old(2) t(2) by simp
      show "list_all (in_range b') (map snd (tb_name2type b'))"
        using old(7) mono t(2) by (auto simp: list_all_iff)
    next
      fix i assume "is_pending b' i"
      then have i: "is_pending b i" using t by simp
      from old(3) [OF i] show "in_range b' i" by (rule mono)
      from old(3) [OF i] tid have "i \<noteq> tid" by auto
      with old(4) [OF i] fresh t show "i \<notin> ran (tt_dedup (tb_table b'))"
        by (auto simp: ran_def split: if_splits)
    next
      fix i w assume w: "table_get (tb_table b') i = Some w"
      have "list_all (in_range b) (shape_children (tv_shape w)) \<and>
          (is_pending b i \<longleftrightarrow> tv_shape w = TUnknown)"
      proof (cases "i = tid")
        case True
        with w get t have "w = v" by simp
        with shape kids show ?thesis using old(3) tid True by blast
      next
        case False
        with w get t have "table_get (tb_table b) i = Some w" by simp
        with old(5,6) show ?thesis by blast
      qed
      with t show "list_all (in_range b') (shape_children (tv_shape w))"
        and "is_pending b' i \<longleftrightarrow> tv_shape w = TUnknown"
        using mono by (simp_all add: list_all_iff)
    qed
  qed
qed

lemma builder_pend_inv:
  assumes inv: "builder_inv b" and run: "table_alloc_placeholder (tb_table b) = Some (tid, t)"
    and names: "set names \<subseteq> insert (n, tid) (set (tb_name2type b))"
    and b': "tb_table b' = t" "tb_name2type b' = names"
      "tb_pending b' = AList.update tid nm (tb_pending b)"
  shows "builder_inv b'"
proof -
  note get = placeholder_get [OF run] and dedup = placeholder_dedup [OF run]
    and old = builder_invD [OF inv]
  have pend: "is_pending b' i \<longleftrightarrow> i = tid \<or> is_pending b i" for i
    unfolding is_pending_def b' dom_update by simp
  have mono: "in_range b' i" if "in_range b i" for i
    using that unfolding in_range_iff b' get by simp
  have self: "in_range b' tid" unfolding in_range_iff b' get by simp
  have fresh: "tid \<notin> ran (tt_dedup (tb_table b))"
    using old(1) placeholder_fresh [OF run] by (auto simp: table_inv_def ran_def)
  show ?thesis
  proof (rule builder_invI)
    show "table_inv (tb_table b')" unfolding b' by (rule placeholder_inv [OF old(1) run])
    show "distinct (map fst (tb_pending b'))" unfolding b' by (rule distinct_update [OF old(2)])
    have "in_range b' (snd e)" if "e \<in> set names" for e
    proof -
      from that names consider "e = (n, tid)" | "e \<in> set (tb_name2type b)" by blast
      then show ?thesis
      proof cases
        case 1
        with self show ?thesis by simp
      next
        case 2
        with old(7) have "in_range b (snd e)" by (simp add: list_all_iff)
        then show ?thesis by (rule mono)
      qed
    qed
    then show "list_all (in_range b') (map snd (tb_name2type b'))"
      unfolding b' by (simp add: list_all_iff)
  next
    fix i assume i: "is_pending b' i"
    show "in_range b' i" using i old(3) mono self unfolding pend by blast
    show "i \<notin> ran (tt_dedup (tb_table b'))" using i old(4) fresh unfolding pend b' dedup by blast
  next
    fix i w assume "table_get (tb_table b') i = Some w"
    then have "i = tid \<and> w = \<lparr>tv_shape = TUnknown, tv_size = None\<rparr> \<or>
        table_get (tb_table b) i = Some w"
      unfolding b' get by (cases "i = tid") simp_all
    then consider "i = tid" "w = \<lparr>tv_shape = TUnknown, tv_size = None\<rparr>"
      | "table_get (tb_table b) i = Some w" by blast
    then have "list_all (in_range b) (shape_children (tv_shape w)) \<and>
        (is_pending b' i \<longleftrightarrow> tv_shape w = TUnknown)"
    proof cases
      case 1
      then show ?thesis by (simp add: pend)
    next
      case 2
      then have "i \<noteq> tid" using placeholder_fresh [OF run] by auto
      with old(5) [OF 2] old(6) [OF 2] show ?thesis unfolding pend by blast
    qed
    then show "list_all (in_range b') (shape_children (tv_shape w))"
      and "is_pending b' i \<longleftrightarrow> tv_shape w = TUnknown"
      using mono by (simp_all add: list_all_iff)
  qed
qed

lemma builder_fill_inv:
  assumes inv: "builder_inv b" and pend: "is_pending b tid"
    and run: "builder_fill tid v (b\<lparr>tb_pending := AList.delete tid (tb_pending b)\<rparr>) = Some b'"
    and shape: "tv_shape v \<noteq> TUnknown" and kids: "list_all (in_range b) (shape_children (tv_shape v))"
  shows "builder_inv b'"
proof -
  from run obtain t where t: "table_fill tid v (tb_table b) = Some t"
    "b' = b\<lparr>tb_pending := AList.delete tid (tb_pending b), tb_table := t\<rparr>"
    by (auto simp: builder_fill_def)
  note get = fill_get [OF t(1)] and dedup = fill_dedup [OF t(1)] and old = builder_invD [OF inv]
  have table: "tb_table b' = t" using t by simp
  have mono: "in_range b' i" if "in_range b i" for i
    using that unfolding in_range_iff table get by auto
  have pend': "is_pending b' i \<longleftrightarrow> i \<noteq> tid \<and> is_pending b i" for i
    unfolding t(2) is_pending_frame is_pending_delete by simp
  show ?thesis
  proof (rule builder_invI)
    show "table_inv (tb_table b')"
      unfolding table by (rule fill_inv [OF old(1) t(1) old(4) [OF pend]])
    show "distinct (map fst (tb_pending b'))" using old(2) t by (simp add: distinct_delete)
    show "list_all (in_range b') (map snd (tb_name2type b'))"
      using old(7) mono t(2) by (auto simp: list_all_iff)
  next
    fix i assume i: "is_pending b' i"
    show "in_range b' i" using i old(3) mono unfolding pend' by blast
    show "i \<notin> ran (tt_dedup (tb_table b'))"
      using i old(4) unfolding pend' table dedup by blast
  next
    fix i w assume w: "table_get (tb_table b') i = Some w"
    then have cases: "(i = tid \<and> w = v) \<or> (i \<noteq> tid \<and> table_get (tb_table b) i = Some w)"
      unfolding table get by (auto split: if_splits)
    then have "list_all (in_range b) (shape_children (tv_shape w))"
      using kids old(5) by blast
    then show "list_all (in_range b') (shape_children (tv_shape w))"
      using mono by (rule list_all_mono)
    show "is_pending b' i \<longleftrightarrow> tv_shape w = TUnknown"
      using cases shape old(6) unfolding pend' by blast
  qed
qed

text \<open>Every callback a well-behaved facade makes keeps the invariant.\<close>

lemma scalar_shape_known: "kind \<in> {1, 2, 3, 4} \<Longrightarrow> scalar_shape kind w s \<noteq> TUnknown"
  by (auto simp: scalar_shape_def)

lemma scalar_shape_children [simp]: "shape_children (scalar_shape kind w s) = []"
  by (simp add: scalar_shape_def)

lemma sink_step_fill:
  assumes "sink_step op b = Some (r, b')" and "op_ok b op" and "r = None"
  obtains tid v where "is_pending b tid"
    and "builder_fill tid v (b\<lparr>tb_pending := AList.delete tid (tb_pending b)\<rparr>) = Some b'"
    and "tv_shape v \<noteq> TUnknown" and "list_all (in_range b) (shape_children (tv_shape v))"
proof (cases op)
  case (SFillStruct tid u ms sz h)
  let ?name = "Option.bind (map_of (tb_pending b) tid) (\<lambda>n. n)"
  from SFillStruct assms show thesis
    by (auto intro!: that [of tid "\<lparr>tv_shape = (if u then TUnion ?name (map marshal_member ms)
               else TStruct ?name (map marshal_member ms)), tv_size = opt_size sz h\<rparr>"]
        simp: builder_fill_struct_def builder_take_name_def ret_unit_def marshal_member_def
          list_all_iff split: if_splits)
next
  case (SFillEnum tid under cs sz h bm vt rs rz)
  let ?name = "Option.bind (map_of (tb_pending b) tid) (\<lambda>n. n)"
  from SFillEnum assms show thesis
    by (auto intro!: that [of tid "\<lparr>tv_shape = TEnum ?name under (map marshal_constant cs) bm
               (repr_of vt rs rz), tv_size = opt_size sz h\<rparr>"]
        simp: builder_fill_enum_def builder_take_name_def ret_unit_def)
next
  case (SFillTypedef tid under)
  let ?name = "Option.bind (map_of (tb_pending b) tid) (\<lambda>n. n)"
  from SFillTypedef assms obtain sz where
    "builder_fill tid \<lparr>tv_shape = TTypedef (case ?name of Some n \<Rightarrow> n | None \<Rightarrow> []) under, tv_size = sz\<rparr>
       (b\<lparr>tb_pending := AList.delete tid (tb_pending b)\<rparr>) = Some b'"
    by (auto simp: builder_fill_typedef_def builder_take_name_def ret_unit_def)
  from that [OF _ this] SFillTypedef assms show thesis by simp
qed (use assms in \<open>auto simp: ret_id_def\<close>)

lemma sink_step_inv:
  assumes inv: "builder_inv b" and ok: "op_ok b op" and run: "sink_step op b = Some (r, b')"
  shows "builder_inv b'"
proof (cases r)
  case None
  then show ?thesis by (rule sink_step_fill [OF run ok]) (rule builder_fill_inv [OF inv])
next
  case (Some i)
  show ?thesis
  proof (cases op)
    case (SNamedRef name)
    show ?thesis
    proof (cases "map_of (tb_name2type b) name")
      case None
      with SNamedRef run obtain k t where alloc: "table_alloc_placeholder (tb_table b) = Some (k, t)"
        and b': "b' = b\<lparr>tb_table := t, tb_name2type := AList.update name k (tb_name2type b),
                        tb_pending := AList.update k (Some name) (tb_pending b)\<rparr>"
        by (auto simp: builder_named_ref_def builder_alloc_placeholder_def ret_id_def)
      have "set (AList.update name k xs) \<subseteq> insert (name, k) (set xs)" for xs
        by (induction xs) auto
      from builder_pend_inv [OF inv alloc this] show ?thesis unfolding b' by simp
    qed (use SNamedRef run inv in \<open>simp add: builder_named_ref_def ret_id_def\<close>)
  next
    case SAnon
    with run obtain k t where alloc: "table_alloc_placeholder (tb_table b) = Some (k, t)"
      and b': "b' = b\<lparr>tb_table := t, tb_pending := AList.update k None (tb_pending b)\<rparr>"
      by (auto simp: builder_anon_def builder_alloc_placeholder_def ret_id_def)
    have "set (tb_name2type b) \<subseteq> insert (undefined, k) (set (tb_name2type b))" by blast
    from builder_pend_inv [OF inv alloc this] show ?thesis unfolding b' by simp
  next
    case (SScalar kind bytes sgnd sz h)
    with run obtain v w k where
      "builder_intern v (b\<lparr>tb_too_wide := w\<rparr>) = Some (k, b') \<or> builder_intern v b = Some (k, b')"
      "tv_shape v = scalar_shape kind (if unat bytes < 256 then ucast bytes else 0) sgnd"
      by (fastforce simp: builder_scalar_def ret_id_def split: if_splits)
    moreover from SScalar ok have "kind \<in> {1, 2, 3, 4}" by simp
    ultimately show ?thesis
      using builder_intern_inv [of b v k b'] builder_intern_inv [of "b\<lparr>tb_too_wide := w\<rparr>" v k b'] inv
      by (auto simp del: insert_iff simp: scalar_shape_known)
  next
    case (SPtr e sz h)
    with run ok show ?thesis
      by (auto simp: builder_ptr_def ret_id_def intro: builder_intern_inv [OF inv])
  next
    case (SArray e n sz h)
    with run ok show ?thesis
      by (auto simp: builder_array_def ret_id_def intro: builder_intern_inv [OF inv])
  next
    case (SFunc ret ps va)
    with run ok show ?thesis
      by (auto simp: builder_function_def ret_id_def intro: builder_intern_inv [OF inv])
  next
    case (SOpaque name)
    with run ok show ?thesis
      by (auto simp: builder_opaque_def ret_id_def intro: builder_intern_inv [OF inv])
  qed (use run Some in \<open>auto simp: ret_unit_def\<close>)
qed

lemma reachable_builder_inv: "reachable_builder b \<Longrightarrow> builder_inv b"
  by (induction rule: reachable_builder.induct) (auto intro: sink_step_inv)

lemma run_sink_reachable:
  "reachable_builder b \<Longrightarrow> ops_ok ops b \<Longrightarrow> run_sink ops b = Some b' \<Longrightarrow> reachable_builder b'"
proof (induction ops arbitrary: b)
  case (Cons op ops)
  then obtain r b1 where "op_ok b op" "sink_step op b = Some (r, b1)" "ops_ok ops b1"
    "run_sink ops b1 = Some b'" by auto
  with Cons.IH [of b1] Cons.prems(1) show ?case by (blast intro: reachable_builder.step)
qed simp

lemma run_sink_inv: "ops_ok ops builder_new \<Longrightarrow> run_sink ops builder_new = Some b \<Longrightarrow> builder_inv b"
  by (blast intro: reachable_builder_inv run_sink_reachable reachable_builder.start)

text \<open>The number of pending handles is the number of entries still without a body.\<close>

definition unknown_entries :: "type_table \<Rightarrow> type_id set" where
  "unknown_entries t = {i. \<exists>sz. table_get t i = Some \<lparr>tv_shape = TUnknown, tv_size = sz\<rparr>}"

lemma builder_unfilled_card:
  assumes "builder_inv b"
  shows "builder_unfilled b = card (unknown_entries (tb_table b))"
proof -
  note old = builder_invD [OF assms]
  have "i \<in> fst ` set (tb_pending b) \<longleftrightarrow> i \<in> unknown_entries (tb_table b)" for i
  proof
    assume "i \<in> fst ` set (tb_pending b)"
    then have i: "is_pending b i" by (simp add: is_pending_def)
    with old(3) obtain v where v: "table_get (tb_table b) i = Some v" by (auto simp: in_range_iff)
    with old(6) i have "tv_shape v = TUnknown" by blast
    with v show "i \<in> unknown_entries (tb_table b)"
      by (cases v) (auto simp: unknown_entries_def)
  next
    assume "i \<in> unknown_entries (tb_table b)"
    then obtain sz where "table_get (tb_table b) i = Some \<lparr>tv_shape = TUnknown, tv_size = sz\<rparr>"
      by (auto simp: unknown_entries_def)
    with old(6) show "i \<in> fst ` set (tb_pending b)" by (fastforce simp: is_pending_def)
  qed
  then have "unknown_entries (tb_table b) = set (map fst (tb_pending b))" by auto
  with distinct_card [OF old(2)] show ?thesis by (simp add: builder_unfilled_def)
qed

lemma walk_closed:
  assumes "ops_ok ops builder_new" and "walk_type ops root = Some (Inr (Some r))"
    and "table_get (rt_types r) tid = Some v"
  shows "tv_shape v \<noteq> TUnknown"
    and "\<forall>c \<in> set (shape_children (tv_shape v)). table_get (rt_types r) c \<noteq> None"
proof -
  from assms(2) obtain b where b: "run_sink ops builder_new = Some b" "rt_types r = tb_table b"
    "tb_pending b = []"
    by (auto simp: walk_type_def builder_unfilled_def split: option.splits if_splits)
  note inv = builder_invD [OF run_sink_inv [OF assms(1) b(1)]]
  from assms(3) b inv(6) show "tv_shape v \<noteq> TUnknown" by (auto simp: is_pending_def)
  from assms(3) b inv(5) show "\<forall>c \<in> set (shape_children (tv_shape v)). table_get (rt_types r) c \<noteq> None"
    by (auto simp: list_all_iff in_range_iff)
qed

text \<open>
  C4: a walk over a facade that keeps its contract yields only a table in which every child
  handle is allocated and no entry is left without a body.
\<close>

theorem walk_type_closed:
  assumes "ops_ok ops builder_new" and "walk_type ops root = Some (Inr (Some r))"
    and "table_get (rt_types r) tid = Some v"
  shows "(tv_shape v \<noteq> TUnknown) \<and>
    (\<forall>c \<in> set (shape_children (tv_shape v)). table_get (rt_types r) c \<noteq> None)"
  using walk_closed [OF assms] by blast

text \<open>\<open>struct node { struct node *next; };\<close>, as the facade streams it.\<close>

definition node_run :: "sink_op list" where
  "node_run =
     [SNamedRef ''node'', SNamedRef ''node'', SPtr 0 8 1,
      SFillStruct 0 False
        [\<lparr>mi_name = ''next'', mi_bit_offset = 0, mi_ty = 1, mi_bitfield_width = 0,
          mi_repr_vtype = 0, mi_repr_signed = False, mi_repr_leading_zeros = False\<rparr>] 8 1]"

lemmas builder_eval = builder_new_def table_new_def table_intern_def table_alloc_placeholder_def
  table_fill_def table_get_def table_len_def arena_defs builder_defs opt_size_def
  marshal_member_def in_range_def is_pending_def builder_unfilled_def

theorem walk_type_closed_witness:
  "\<exists>r v. walk_type node_run (Some 0) = Some (Inr (Some r)) \<and> table_get (rt_types r) 1 = Some v \<and>
     tv_shape v \<noteq> TUnknown"
proof -
  have ok: "ops_ok node_run builder_new"
    by (simp add: node_run_def builder_eval)
  have "\<exists>r v. walk_type node_run (Some 0) = Some (Inr (Some r)) \<and> table_get (rt_types r) 1 = Some v"
    by (simp add: node_run_def walk_type_def builder_eval)
  with walk_type_closed(1) [OF ok] show ?thesis by blast
qed

subsection \<open>What a refused walk reports\<close>

definition first_too_wide :: "sink_op list \<Rightarrow> u32 option" where
  "first_too_wide ops =
     (case filter (\<lambda>w. 256 \<le> unat w) (concat (map (\<lambda>op. case op of SScalar _ bytes _ _ _ \<Rightarrow> [bytes] | _ \<Rightarrow> []) ops)) of
        [] \<Rightarrow> None | w # _ \<Rightarrow> Some w)"

lemma sink_step_too_wide [frame_rules]:
  assumes "sink_step op b = Some (r, b')"
  shows "tb_too_wide b' = (case tb_too_wide b of Some w \<Rightarrow> Some w | None \<Rightarrow> first_too_wide [op])"
  using assms
  by (cases op) (auto simp: builder_defs first_too_wide_def Let_def split: if_splits option.splits)

lemma first_too_wide_Cons:
  "first_too_wide (op # ops) = (case first_too_wide [op] of Some w \<Rightarrow> Some w | None \<Rightarrow> first_too_wide ops)"
  by (cases op) (auto simp: first_too_wide_def)

lemma run_sink_too_wide:
  "run_sink ops b = Some b' \<Longrightarrow>
   tb_too_wide b' = (case tb_too_wide b of Some w \<Rightarrow> Some w | None \<Rightarrow> first_too_wide ops)"
proof (induction ops arbitrary: b)
  case Nil
  then show ?case by (simp add: first_too_wide_def split: option.splits)
next
  case (Cons op ops)
  then obtain r b1 where "sink_step op b = Some (r, b1)" "run_sink ops b1 = Some b'" by auto
  with Cons.IH [of b1] sink_step_too_wide [of op b r b1] first_too_wide_Cons [of op ops]
  show ?case by (simp split: option.splits)
qed

lemma walk_checks:
  assumes "ops_ok ops builder_new" and "run_sink ops builder_new = Some b"
  shows "tb_too_wide b = first_too_wide ops"
    and "builder_unfilled b = card (unknown_entries (tb_table b))"
    and "unknown_entries (tb_table b) = {} \<longleftrightarrow> builder_unfilled b = 0"
proof -
  show "tb_too_wide b = first_too_wide ops"
    using run_sink_too_wide [OF assms(2)] by (simp add: builder_new_def)
  show "builder_unfilled b = card (unknown_entries (tb_table b))"
    by (rule builder_unfilled_card [OF run_sink_inv [OF assms]])
  then show "unknown_entries (tb_table b) = {} \<longleftrightarrow> builder_unfilled b = 0"
    by (simp add: card_eq_0_iff)
qed

text \<open>
  C35: the verdict of a walk over a well-behaved facade: the first scalar wider than a byte count
  holds is reported before anything else; then the number of reserved types never filled, which
  is the number of entries still without a body; otherwise the table is handed out.
\<close>

theorem walk_type_verdict:
  assumes "ops_ok ops builder_new" and "run_sink ops builder_new = Some b"
  shows "walk_type ops (Some r) = Some
           (case first_too_wide ops of
              Some w \<Rightarrow> Inl (ScalarTooWide w)
            | None \<Rightarrow>
                (if unknown_entries (tb_table b) = {} then Inr (Some \<lparr>rt_types = tb_table b, rt_root = r\<rparr>)
                 else Inl (UnfilledType (card (unknown_entries (tb_table b))))))"
  using walk_checks [OF assms] assms(2) by (simp add: walk_type_def split: option.splits)

theorem walk_type_verdict_witness:
  "\<exists>t. walk_type [SNamedRef ''a'', SAnon, SPtr 1 8 1, SFillTypedef 0 2] (Some 0)
      = Some (Inl (UnfilledType (card (unknown_entries t)))) \<and>
     unknown_entries t \<noteq> {}"
proof -
  let ?ops = "[SNamedRef ''a'', SAnon, SPtr 1 8 1, SFillTypedef 0 2]"
  have ok: "ops_ok ?ops builder_new"
    by (simp add: builder_eval)
  obtain b where b: "run_sink ?ops builder_new = Some b"
    "table_get (tb_table b) 1 = Some \<lparr>tv_shape = TUnknown, tv_size = None\<rparr>"
    by (simp add: builder_eval)
  then have "1 \<in> unknown_entries (tb_table b)" by (simp add: unknown_entries_def)
  then have ne: "unknown_entries (tb_table b) \<noteq> {}" by blast
  have "first_too_wide ?ops = None" by (simp add: first_too_wide_def)
  with walk_type_verdict [OF ok b(1), of 0] ne
  have "walk_type ?ops (Some 0) = Some (Inl (UnfilledType (card (unknown_entries (tb_table b)))))"
    by simp
  with ne show ?thesis by blast
qed

subsection \<open>Named types\<close>

lemma sink_step_names:
  assumes "sink_step op b = Some (r, b')" and "map_of (tb_name2type b) n = Some i"
  shows "map_of (tb_name2type b') n = Some i"
  using assms
  by (cases op) (auto simp: builder_defs Let_def update_conv' split: if_splits option.splits)

lemma run_sink_names:
  "run_sink ops b = Some b' \<Longrightarrow> map_of (tb_name2type b) n = Some i \<Longrightarrow> map_of (tb_name2type b') n = Some i"
  by (induction ops arbitrary: b) (auto dest: sink_step_names)

text \<open>
  A type name answers the same handle whenever the facade asks again, whatever it streamed in
  between, and asking again leaves the builder alone: one entry per name.
\<close>

theorem named_ref_stable:
  assumes "builder_named_ref name b = Some (tid, b1)" and "run_sink ops b1 = Some b2"
  shows "builder_named_ref name b2 = Some (tid, b2)"
proof -
  have "map_of (tb_name2type b1) name = Some tid"
    using assms(1) by (auto simp: builder_named_ref_def update_conv' split: option.splits)
  from run_sink_names [OF assms(2) this] show ?thesis by (simp add: builder_named_ref_def)
qed

theorem named_ref_stable_witness:
  "\<exists>b1 b2. builder_named_ref ''node'' builder_new = Some (0, b1) \<and>
     run_sink [SPtr 0 8 1, SNamedRef ''list'', SFillTypedef 0 1] b1 = Some b2 \<and>
     builder_named_ref ''node'' b2 = Some (0, b2)"
proof -
  obtain b1 where b1: "builder_named_ref ''node'' builder_new = Some (0, b1)"
    by (simp add: builder_eval)
  obtain b2 where b2: "run_sink [SPtr 0 8 1, SNamedRef ''list'', SFillTypedef 0 1] b1 = Some b2"
    using b1 by (auto simp: builder_eval)
  from b1 b2 named_ref_stable [OF b1 b2] show ?thesis by blast
qed

text \<open>
  \<open>builder_scalar\<close> accepts a fifth kind: \<open>0\<close>, which the facade streams for a type it cannot
  classify, interns a shape \<open>Unknown\<close>, and the walk hands the table out: the refusal of unfilled
  types does not cover it.
\<close>

theorem unknown_scalar_passes:
  "\<exists>r. walk_type [SScalar 0 0 0 0 0] (Some 0) = Some (Inr (Some r)) \<and>
     table_get (rt_types r) (rt_root r) = Some \<lparr>tv_shape = TUnknown, tv_size = None\<rparr>"
  by (simp add: walk_type_def builder_eval scalar_shape_def)

subsection \<open>The size of the table\<close>

lemma arena_alloc_len: "arena_alloc v a = Some (i, a') \<Longrightarrow> arena_len a' \<le> 2 ^ 32"
  using arena_alloc_bound [of v a i a'] by (simp add: arena_len_alloc)

lemma table_len_steps:
  "table_intern v t = Some (i, t') \<Longrightarrow> table_len t \<le> 2 ^ 32 \<Longrightarrow> table_len t' \<le> 2 ^ 32"
  "table_alloc_placeholder t = Some (i, t') \<Longrightarrow> table_len t \<le> 2 ^ 32 \<Longrightarrow> table_len t' \<le> 2 ^ 32"
  "table_fill i v t = Some t' \<Longrightarrow> table_len t' = table_len t"
    apply (simp add: table_intern_def table_len_def split: option.splits bind_splits prod.splits)
    apply (auto dest: arena_alloc_len)[1]
   apply (auto simp: table_alloc_placeholder_def table_len_def dest: arena_alloc_len)[1]
  apply (auto simp: table_fill_def table_len_def arena_len_set)[1]
  done

lemma sink_step_len:
  assumes "sink_step op b = Some (r, b')" and "table_len (tb_table b) \<le> 2 ^ 32"
  shows "table_len (tb_table b') \<le> 2 ^ 32"
  using assms
  by (cases op) (auto simp: builder_defs Let_def table_len_steps split: if_splits option.splits
      dest: table_len_steps(1,2))

lemma run_sink_len:
  "run_sink ops b = Some b' \<Longrightarrow> table_len (tb_table b) \<le> 2 ^ 32 \<Longrightarrow> table_len (tb_table b') \<le> 2 ^ 32"
  by (induction ops arbitrary: b) (auto dest: sink_step_len)

lemma walk_type_len:
  "walk_type ops root = Some (Inr (Some r)) \<Longrightarrow> table_len (rt_types r) \<le> 2 ^ 32"
  using run_sink_len [of ops builder_new]
  by (fastforce simp: walk_type_def builder_new_def table_new_def table_len_def arena_defs
      split: option.splits if_splits)

end
