(* ===== verification/Canonical.thy ===== *)
theory Canonical
  imports Types
begin

text \<open>
  \<open>types/diff/canonical/model.rs\<close>: the table-free structural form of a type, and the walk of the
  interned table that produces it. A named aggregate away from the root is cut to a nominal
  reference; a cycle the cut misses closes as a back-reference to the enclosing aggregate.

  The walk recurses over the handles of the table, so the model bounds it by a fuel: \<open>None\<close> is a
  handle outside the table (a panic) or too little fuel (the code would recurse deeper).
  \<open>canon_returns\<close> gives a fuel that suffices whenever the type-forming edges that do not go
  through a struct or union are acyclic; \<open>canon_typedef_cycle\<close> shows that no fuel suffices
  otherwise. The vector of enclosing aggregates is pushed and popped in balance, so it is passed
  down and never returned.
\<close>

subsection \<open>The canonical form\<close>

datatype aggregate_kind = KStruct | KUnion | KEnum

fun aggregate_keyword :: "aggregate_kind \<Rightarrow> string" where
  "aggregate_keyword KStruct = ''struct''"
| "aggregate_keyword KUnion = ''union''"
| "aggregate_keyword KEnum = ''enum''"

datatype record_kind = RStruct | RUnion

fun record_keyword :: "record_kind \<Rightarrow> string" where
  "record_keyword RStruct = ''struct''"
| "record_keyword RUnion = ''union''"

fun aggregate_kind_from :: "record_kind \<Rightarrow> aggregate_kind" where
  "aggregate_kind_from RStruct = KStruct"
| "aggregate_kind_from RUnion = KUnion"

datatype 'ty canonical_member = CanonicalMember
  (cm_name: string)
  (cm_bit_offset: "u64 option")
  (cm_bitfield_width: "u32 option")
  (cm_ty: 'ty)

datatype canonical_type =
    CVoid
  | CBool
  | CInt "u8 option" bool
  | CFloat "u8 option"
  | CPtr canonical_type "u8 option"
  | CArray canonical_type u64
  | CNamed string aggregate_kind
  | CAggregate "string option" record_kind "canonical_type canonical_member list" "u64 option"
  | CEnum "string option" canonical_type "(string \<times> u64) list" "u64 option"
  | CFunction canonical_type "canonical_type list" bool
  | CTypedef string canonical_type
  | COpaque string
  | CBackRef nat

text \<open>A member's type is smaller than the aggregate, for recursion through the member list.\<close>

lemma cm_ty_size [termination_simp]:
  fixes sz :: "'a \<Rightarrow> nat"
  assumes "m \<in> set ms"
  shows "sz (cm_ty m) < Suc (size_list (size_canonical_member sz) ms)"
proof -
  have "sz (cm_ty m) \<le> size_canonical_member sz m" by (cases m) simp
  from size_list_estimation' [where f = "size_canonical_member sz", OF assms this]
  show ?thesis by simp
qed

datatype type_identity = Tagged string aggregate_kind | Alias string

fun identity :: "canonical_type \<Rightarrow> type_identity option" where
  "identity (CNamed tag kind) = Some (Tagged tag kind)"
| "identity (CAggregate (Some tag) kind _ _) = Some (Tagged tag (aggregate_kind_from kind))"
| "identity (CEnum (Some tag) _ _ _) = Some (Tagged tag KEnum)"
| "identity (CTypedef name _) = Some (Alias name)"
| "identity _ = None"

subsection \<open>The policy\<close>

record canonical_options =
  include_sizes :: bool

definition strict :: canonical_options where
  "strict = \<lparr>include_sizes = True\<rparr>"

definition logical :: canonical_options where
  "logical = \<lparr>include_sizes = False\<rparr>"

definition opt_width :: "canonical_options \<Rightarrow> u8 \<Rightarrow> u8 option" where
  "opt_width opts bytes = (if include_sizes opts then Some bytes else None)"

definition opt_ptr_width :: "canonical_options \<Rightarrow> u64 option \<Rightarrow> u8 option" where
  "opt_ptr_width opts sz =
     (if include_sizes opts
      then Option.bind sz (\<lambda>s. if unat s < 256 then Some (ucast s) else None) else None)"

definition opt_offset :: "canonical_options \<Rightarrow> u64 \<Rightarrow> u64 option" where
  "opt_offset opts bits = (if include_sizes opts then Some bits else None)"

definition opt_agg_size :: "canonical_options \<Rightarrow> u64 option \<Rightarrow> u64 option" where
  "opt_agg_size opts sz = (if include_sizes opts then sz else None)"

lemmas policy_defs [op_defs] = opt_width_def opt_ptr_width_def opt_offset_def opt_agg_size_def
  strict_def logical_def

lemma policy_facts:
  "opt_width strict b = Some b" "opt_width logical b = None"
  "opt_ptr_width logical sz = None" "opt_offset strict off = Some off" "opt_offset logical off = None"
  "opt_agg_size strict sz = sz" "opt_agg_size logical sz = None"
  by (simp_all add: policy_defs)

subsection \<open>The walk\<close>

definition is_synthetic :: "string \<Rightarrow> bool" where
  "is_synthetic tag = (case tag of [] \<Rightarrow> True | c # _ \<Rightarrow> c = CHR ''$'')"

definition real_tag :: "string option \<Rightarrow> string option" where
  "real_tag name = (case name of Some n \<Rightarrow> if is_synthetic n then None else Some n | None \<Rightarrow> None)"

definition nominal_cut :: "string option \<Rightarrow> aggregate_kind \<Rightarrow> bool \<Rightarrow> canonical_type option" where
  "nominal_cut name kind spell_named =
     (case real_tag name of
        Some tag \<Rightarrow> if spell_named then None else Some (CNamed tag kind)
      | None \<Rightarrow> None)"

fun rposition :: "'a \<Rightarrow> 'a list \<Rightarrow> nat option" where
  "rposition x [] = None"
| "rposition x (y # ys) =
     (case rposition x ys of Some i \<Rightarrow> Some (Suc i) | None \<Rightarrow> if y = x then Some 0 else None)"

text \<open>
  \<open>aggregate\<close>, with the walk of a member's type as its first argument: the walk and the spelling
  of an aggregate call each other.
\<close>

definition canon_aggregate ::
  "(type_id list \<Rightarrow> type_id \<Rightarrow> canonical_type option) \<Rightarrow> canonical_options \<Rightarrow> type_id list \<Rightarrow> bool
   \<Rightarrow> type_id \<Rightarrow> record_kind \<Rightarrow> string option \<Rightarrow> type_member list \<Rightarrow> u64 option
   \<Rightarrow> canonical_type option" where
  "canon_aggregate walk opts stack spell_named tid kind name members sz =
     (case nominal_cut name (aggregate_kind_from kind) spell_named of
        Some c \<Rightarrow> Some c
      | None \<Rightarrow>
          (case rposition tid stack of
             Some pos \<Rightarrow> Some (CBackRef (length stack - pos))
           | None \<Rightarrow>
               do { ms \<leftarrow> traverse (\<lambda>m.
                       do { ty \<leftarrow> walk (stack @ [tid]) (tm_ty m);
                            Some (CanonicalMember (tm_name m) (opt_offset opts (tm_bit_offset m))
                                    (tm_bitfield_width m) ty) }) members;
                    Some (CAggregate (real_tag name) kind
                      (if kind = RUnion then sort_key cm_name ms else ms) (opt_agg_size opts sz)) }))"

fun canon ::
  "nat \<Rightarrow> type_table \<Rightarrow> canonical_options \<Rightarrow> type_id list \<Rightarrow> bool \<Rightarrow> type_id
   \<Rightarrow> canonical_type option" where
  "canon 0 t opts stack spell_named tid = None"
| "canon (Suc fuel) t opts stack spell_named tid =
     do { value \<leftarrow> table_get t tid;
          (case tv_shape value of
             TVoid \<Rightarrow> Some CVoid
           | TBool \<Rightarrow> Some CBool
           | TInt bytes sgnd \<Rightarrow> Some (CInt (opt_width opts bytes) sgnd)
           | TFloat bytes \<Rightarrow> Some (CFloat (opt_width opts bytes))
           | TPtr inner \<Rightarrow>
               do { c \<leftarrow> canon fuel t opts stack False inner;
                    Some (CPtr c (opt_ptr_width opts (tv_size value))) }
           | TArray elem len \<Rightarrow>
               do { c \<leftarrow> canon fuel t opts stack False elem; Some (CArray c len) }
           | TStruct name members \<Rightarrow>
               canon_aggregate (\<lambda>stk i. canon fuel t opts stk False i) opts stack spell_named tid
                 RStruct name members (tv_size value)
           | TUnion name members \<Rightarrow>
               canon_aggregate (\<lambda>stk i. canon fuel t opts stk False i) opts stack spell_named tid
                 RUnion name members (tv_size value)
           | TEnum name underlying members _ _ \<Rightarrow>
               (case nominal_cut name KEnum spell_named of
                  Some c \<Rightarrow> Some c
                | None \<Rightarrow>
                    do { u \<leftarrow> canon fuel t opts stack False underlying;
                         Some (CEnum (real_tag name) u
                           (sort_key fst (map (\<lambda>m. (em_name m, em_value m)) members))
                           (opt_agg_size opts (tv_size value))) })
           | TFunction ret params varargs \<Rightarrow>
               do { r \<leftarrow> canon fuel t opts stack False ret;
                    ps \<leftarrow> traverse (canon fuel t opts stack False) params;
                    Some (CFunction r ps varargs) }
           | TTypedef name underlying \<Rightarrow>
               do { u \<leftarrow> canon fuel t opts stack False underlying; Some (CTypedef name u) }
           | TOpaque name \<Rightarrow> Some (COpaque name)
           | TUnknown \<Rightarrow> Some (COpaque ''<unfilled>'')) }"

definition canonicalize ::
  "nat \<Rightarrow> type_table \<Rightarrow> type_id \<Rightarrow> canonical_options \<Rightarrow> canonical_type option" where
  "canonicalize fuel t root opts = canon fuel t opts [] True root"

subsection \<open>Fuel\<close>

lemma canon_aggregate_mono:
  assumes "canon_aggregate w opts stk sp tid kind name ms sz = Some c"
    and "\<And>s i c. w s i = Some c \<Longrightarrow> w' s i = Some c"
  shows "canon_aggregate w' opts stk sp tid kind name ms sz = Some c"
proof -
  have "traverse (\<lambda>m. do { ty \<leftarrow> w' s (tm_ty m); Some (h m ty) }) ms = Some ys"
    if "traverse (\<lambda>m. do { ty \<leftarrow> w s (tm_ty m); Some (h m ty) }) ms = Some ys" for s ys and h :: "type_member \<Rightarrow> canonical_type \<Rightarrow> canonical_type canonical_member"
    using that by (rule traverse_mono) (auto dest: assms(2))
  with assms(1) show ?thesis by (fastforce simp: canon_aggregate_def split: option.splits)
qed

lemma canon_Suc: "canon f t opts stk sp i = Some c \<Longrightarrow> canon (Suc f) t opts stk sp i = Some c"
proof (induction f arbitrary: stk sp i c)
  case (Suc f)
  note mono = Suc.IH
  from Suc.prems obtain v where v: "table_get t i = Some v" by auto
  have trav: "traverse (canon (Suc f) t opts stk False) xs = Some ys"
    if "traverse (canon f t opts stk False) xs = Some ys" for xs ys
    using that by (rule traverse_mono) (rule mono)
  show ?case
  proof (cases "tv_shape v")
    case (TStruct n ms)
    with v Suc.prems show ?thesis
      by (simp del: canon.simps(2) add: canon.simps(2) [of "Suc f"] canon.simps(2) [of f])
        (erule canon_aggregate_mono, erule mono)
  next
    case (TUnion n ms)
    with v Suc.prems show ?thesis
      by (simp del: canon.simps(2) add: canon.simps(2) [of "Suc f"] canon.simps(2) [of f])
        (erule canon_aggregate_mono, erule mono)
  next
    case (TFunction r ps va)
    with v Suc.prems show ?thesis
      by (auto simp del: canon.simps(2) simp: canon.simps(2) [of "Suc f"] canon.simps(2) [of f]
          dest!: mono trav)
  qed (use v Suc.prems in \<open>auto simp del: canon.simps(2)
      simp: canon.simps(2) [of "Suc f"] canon.simps(2) [of f] dest!: mono split: option.splits\<close>)
qed simp

lemma canon_fuel_mono:
  "canon f t opts stk sp i = Some c \<Longrightarrow> f \<le> f' \<Longrightarrow> canon f' t opts stk sp i = Some c"
proof (induction "f' - f" arbitrary: f)
  case (Suc d)
  then have "canon (Suc f) t opts stk sp i = Some c" "d = f' - Suc f" "Suc f \<le> f'"
    using canon_Suc by auto
  with Suc.hyps(1) show ?case by blast
qed simp

subsection \<open>Termination\<close>

fun is_record :: "type_shape \<Rightarrow> bool" where
  "is_record (TStruct _ _) = True"
| "is_record (TUnion _ _) = True"
| "is_record _ = False"

definition closed_table :: "type_table \<Rightarrow> bool" where
  "closed_table t =
     list_all (\<lambda>v. list_all (\<lambda>c. unat c < table_len t) (shape_children (tv_shape v)))
       (arena_data (tt_arena t))"

text \<open>\<open>rk\<close> ranks the handles so that every edge not out of a struct or union goes down.\<close>

definition ranked :: "type_table \<Rightarrow> (nat \<Rightarrow> nat) \<Rightarrow> nat \<Rightarrow> bool" where
  "ranked t rk R =
     list_all (\<lambda>(i, v). rk i \<le> R \<and>
         (is_record (tv_shape v) \<or> list_all (\<lambda>c. rk (unat c) < rk i) (shape_children (tv_shape v))))
       (enumerate 0 (arena_data (tt_arena t)))"

lemma closed_tableD:
  "closed_table t \<Longrightarrow> table_get t i = Some v \<Longrightarrow> c \<in> set (shape_children (tv_shape v))
   \<Longrightarrow> unat c < table_len t"
  by (auto simp: closed_table_def list_all_iff table_get_def arena_defs split: if_splits)

lemma closed_tableI:
  assumes "\<And>i v c. table_get t i = Some v \<Longrightarrow> c \<in> set (shape_children (tv_shape v))
      \<Longrightarrow> table_get t c \<noteq> None" and "table_len t \<le> 2 ^ 32"
  shows "closed_table t"
proof -
  have "unat c < table_len t" if "v \<in> set (arena_data (tt_arena t))"
    "c \<in> set (shape_children (tv_shape v))" for v c
  proof -
    from that(1) obtain n where n: "n < table_len t" "arena_data (tt_arena t) ! n = v"
      by (auto simp: in_set_conv_nth table_len_def arena_len_def)
    with assms(2) have "table_get t (of_nat n) = Some v"
      by (simp add: table_get_def table_len_def arena_defs)
    from assms(1) [OF this that(2)] show ?thesis
      by (simp add: table_get_def table_len_def arena_defs split: if_splits)
  qed
  then show ?thesis by (auto simp: closed_table_def list_all_iff)
qed

lemma rankedD:
  assumes "ranked t rk R" and "table_get t i = Some v"
  shows "rk (unat i) \<le> R"
    and "c \<in> set (shape_children (tv_shape v)) \<Longrightarrow> is_record (tv_shape v) \<or> rk (unat c) < rk (unat i)"
proof -
  from assms(2) have "(unat i, v) \<in> set (enumerate 0 (arena_data (tt_arena t)))"
    by (auto simp: table_get_def arena_defs in_set_enumerate_eq split: if_splits)
  with assms(1) show "rk (unat i) \<le> R"
    and "c \<in> set (shape_children (tv_shape v)) \<Longrightarrow> is_record (tv_shape v) \<or> rk (unat c) < rk (unat i)"
    by (auto simp: ranked_def list_all_iff)
qed

lemma table_get_len: "unat i < table_len t \<longleftrightarrow> (\<exists>v. table_get t i = Some v)"
  by (simp add: table_get_def table_len_def arena_get_Some_iff)

lemma rposition_None_iff [simp]: "rposition x xs = None \<longleftrightarrow> x \<notin> set xs"
  by (induction xs) (auto split: option.splits)

lemma rposition_Some: "rposition x xs = Some i \<Longrightarrow> i < length xs \<and> xs ! i = x"
  by (induction xs arbitrary: i) (auto split: option.splits if_splits)

lemma canon_aggregate_total:
  assumes "tid \<notin> set stk \<Longrightarrow> (\<And>m. m \<in> set ms \<Longrightarrow> \<exists>c. walk (stk @ [tid]) (tm_ty m) = Some c)"
  shows "\<exists>c. canon_aggregate walk opts stk sp tid kind name ms sz = Some c"
proof (cases "tid \<in> set stk")
  case True
  then have "rposition tid stk \<noteq> None" by simp
  then show ?thesis by (auto simp: canon_aggregate_def split: option.splits)
next
  case False
  from traverse_total [of ms "\<lambda>m. do { ty \<leftarrow> walk (stk @ [tid]) (tm_ty m);
      Some (CanonicalMember (tm_name m) (opt_offset opts (tm_bit_offset m)) (tm_bitfield_width m) ty) }"]
    assms [OF False]
  show ?thesis using False by (fastforce simp: canon_aggregate_def split: option.splits)
qed

definition stack_ok :: "type_table \<Rightarrow> type_id list \<Rightarrow> bool" where
  "stack_ok t stk \<longleftrightarrow> distinct stk \<and> (\<forall>x \<in> set stk. unat x < table_len t)"

lemma stack_ok_push:
  assumes "stack_ok t stk" and "tid \<notin> set stk" and "unat tid < table_len t"
  shows "stack_ok t (stk @ [tid])" and "length stk < table_len t"
proof -
  from assms show "stack_ok t (stk @ [tid])" by (auto simp: stack_ok_def)
  then have "distinct (map unat (stk @ [tid]))" "set (map unat (stk @ [tid])) \<subseteq> {..<table_len t}"
    by (auto simp: stack_ok_def distinct_map inj_on_def dest: word_unat_eq_iff [THEN iffD2])
  then have "length (map unat (stk @ [tid])) \<le> card {..<table_len t}"
    by (metis card_mono distinct_card finite_lessThan)
  then show "length stk < table_len t" by simp
qed

lemma canon_total:
  assumes "closed_table t" and "ranked t rk R"
  shows "stack_ok t stk \<Longrightarrow> unat i < table_len t
    \<Longrightarrow> (table_len t - length stk) * (R + 2) + rk (unat i) < f
    \<Longrightarrow> \<exists>c. canon f t opts stk sp i = Some c"
proof (induction f arbitrary: stk sp i)
  case (Suc f)
  from Suc.prems(2) obtain v where v: "table_get t i = Some v" by (auto simp: table_get_len)
  note child = closed_tableD [OF assms(1) v] and rank = rankedD [OF assms(2)]
  have plain: "\<exists>c'. canon f t opts stk sp' c = Some c'"
    if "c \<in> set (shape_children (tv_shape v))" "\<not> is_record (tv_shape v)" for c sp'
    using rank(2) [OF v that(1)] Suc.prems(3) that(2)
    by (intro Suc.IH [OF Suc.prems(1) child [OF that(1)]]) simp
  have deep: "\<exists>c'. canon f t opts (stk @ [i]) sp' c = Some c'"
    if "i \<notin> set stk" "c \<in> set (shape_children (tv_shape v))" for c sp'
  proof (rule Suc.IH [OF _ child [OF that(2)]])
    note push = stack_ok_push [OF Suc.prems(1) that(1) Suc.prems(2)]
    show "stack_ok t (stk @ [i])" by (rule push(1))
    have "\<exists>w. table_get t c = Some w" using child [OF that(2)] by (simp add: table_get_len)
    with rank(1) have "rk (unat c) \<le> R" by blast
    moreover from push(2) have "table_len t - length stk = Suc (table_len t - length (stk @ [i]))" by simp
    ultimately show "(table_len t - length (stk @ [i])) * (R + 2) + rk (unat c) < f"
      using Suc.prems(3) by simp
  qed
  have agg: "\<exists>c. canon_aggregate (\<lambda>stk i. canon f t opts stk False i) opts stk sp i k n ms sz = Some c"
    if "set (map tm_ty ms) \<subseteq> set (shape_children (tv_shape v))" for k n ms sz
    using that deep by (intro canon_aggregate_total) (auto simp: subset_iff)
  show ?case
  proof (cases "tv_shape v")
    case (TStruct n ms)
    with v agg [of ms] show ?thesis by simp
  next
    case (TUnion n ms)
    with v agg [of ms] show ?thesis by simp
  next
    case (TFunction r ps va)
    with plain obtain rc where "canon f t opts stk False r = Some rc" by fastforce
    moreover obtain pcs where "traverse (canon f t opts stk False) ps = Some pcs"
      using traverse_total [of ps "canon f t opts stk False"] plain TFunction by fastforce
    ultimately show ?thesis using v TFunction by simp
  qed (use v plain in \<open>fastforce split: option.splits\<close>)+
qed simp

lemma canon_returns:
  assumes "closed_table t" and "ranked t rk R" and "unat root < table_len t"
    and "(table_len t + 1) * (R + 2) \<le> fuel"
  shows "\<exists>c. canonicalize fuel t root opts = Some c"
proof -
  from assms(3) obtain v where v: "table_get t root = Some v" by (auto simp: table_get_len)
  have "rk (unat root) \<le> R" by (rule rankedD(1) [OF assms(2) v])
  with assms(4) have "(table_len t - length []) * (R + 2) + rk (unat root) < fuel" by simp
  from canon_total [OF assms(1,2) _ assms(3) this] show ?thesis
    by (simp add: canonicalize_def stack_ok_def)
qed

text \<open>
  C5: over a table whose handles are all allocated and whose edges outside structs and unions are
  acyclic, the walk returns: every chain of calls either descends in rank or pushes an aggregate
  not yet on the stack, so a fuel of one rank range per entry and one more suffices.
\<close>

theorem canon_terminates:
  assumes "closed_table t" and "ranked t rk R" and "unat root < table_len t"
    and "(table_len t + 1) * (R + 2) \<le> fuel"
  shows "\<exists>c. canonicalize fuel t root opts = Some c"
  using assms by (rule canon_returns)

text \<open>\<open>struct node { struct node *next; };\<close> as a table.\<close>

definition node_table :: type_table where
  "node_table =
     \<lparr>tt_arena = \<lparr>arena_data =
        [\<lparr>tv_shape = TStruct (Some ''node'')
            [\<lparr>tm_name = ''next'', tm_bit_offset = 0, tm_ty = 1, tm_bitfield_width = None, tm_repr = None\<rparr>],
          tv_size = Some 8\<rparr>,
         \<lparr>tv_shape = TPtr 0, tv_size = Some 8\<rparr>]\<rparr>,
      tt_dedup = Map.empty\<rparr>"

lemmas table_eval = table_get_def table_len_def arena_defs

theorem canon_terminates_witness:
  "\<exists>c. canonicalize 9 node_table 0 strict = Some c"
proof -
  have "closed_table node_table" by (simp add: closed_table_def node_table_def table_eval)
  moreover have "ranked node_table (\<lambda>n. n) 1"
    by (simp add: ranked_def node_table_def enumerate_eq_zip)
  moreover have "unat (0 :: u32) < table_len node_table" by (simp add: node_table_def table_eval)
  moreover have "(table_len node_table + 1) * (1 + 2) \<le> 9" by (simp add: node_table_def table_eval)
  ultimately show ?thesis by (rule canon_terminates)
qed

subsection \<open>The shape of the result\<close>

text \<open>
  \<open>below d c\<close>: \<open>c\<close> may stand under \<open>d\<close> enclosing aggregates. A back-reference stays within them,
  and an aggregate or enum spelled there has no tag.
\<close>

fun below :: "nat \<Rightarrow> canonical_type \<Rightarrow> bool" where
  "below d (CPtr c _) = below d c"
| "below d (CArray c _) = below d c"
| "below d (CAggregate tag _ ms _) = (tag = None \<and> list_all (\<lambda>m. below (Suc d) (cm_ty m)) ms)"
| "below d (CEnum tag u _ _) = (tag = None \<and> below d u)"
| "below d (CFunction r ps _) = (below d r \<and> list_all (below d) ps)"
| "below d (CTypedef _ u) = below d u"
| "below d (CBackRef n) = (1 \<le> n \<and> n \<le> d)"
| "below d _ = True"

text \<open>The form of a root: fully spelled, and only its own tag kept.\<close>

fun root_form :: "canonical_type \<Rightarrow> bool" where
  "root_form (CNamed _ _) = False"
| "root_form (CBackRef _) = False"
| "root_form (CAggregate _ _ ms _) = list_all (\<lambda>m. below 1 (cm_ty m)) ms"
| "root_form (CEnum _ u _ _) = below 0 u"
| "root_form c = below 0 c"

lemma list_all_sort_key [simp]: "list_all P (sort_key k xs) = list_all P xs"
  by (simp add: list_all_iff)

lemma nominal_cut_None:
  "nominal_cut name kind sp = None \<Longrightarrow> \<not> sp \<Longrightarrow> real_tag name = None"
  by (auto simp: nominal_cut_def split: option.splits)

lemma nominal_cut_spell [simp]: "nominal_cut name kind True = None"
  by (simp add: nominal_cut_def split: option.split)

lemma nominal_cut_Some: "nominal_cut name kind sp = Some c \<Longrightarrow> \<exists>tag. c = CNamed tag kind"
  by (auto simp: nominal_cut_def split: option.splits if_splits)

lemma canon_aggregate_cases:
  assumes "canon_aggregate walk opts stk sp tid kind name ms sz = Some c"
  obtains (cut) tag where "\<not> sp" "c = CNamed tag (aggregate_kind_from kind)"
  | (backref) n where "nominal_cut name (aggregate_kind_from kind) sp = None" "tid \<in> set stk"
      "c = CBackRef n" "1 \<le> n" "n \<le> length stk"
  | (spelled) cs where "nominal_cut name (aggregate_kind_from kind) sp = None" "tid \<notin> set stk"
      "traverse (\<lambda>m. do { ty \<leftarrow> walk (stk @ [tid]) (tm_ty m);
         Some (CanonicalMember (tm_name m) (opt_offset opts (tm_bit_offset m))
                 (tm_bitfield_width m) ty) }) ms = Some cs"
      "c = CAggregate (real_tag name) kind (if kind = RUnion then sort_key cm_name cs else cs)
         (opt_agg_size opts sz)"
proof (cases "nominal_cut name (aggregate_kind_from kind) sp")
  case (Some d)
  then have "\<not> sp" by (cases sp) simp_all
  moreover from nominal_cut_Some [OF Some] obtain tag where "d = CNamed tag (aggregate_kind_from kind)" ..
  ultimately have "\<not> sp" "\<exists>tag. d = CNamed tag (aggregate_kind_from kind)" by simp_all
  with assms Some cut show thesis by (auto simp: canon_aggregate_def)
next
  case None
  note nc = this
  show thesis
  proof (cases "rposition tid stk")
    case None
    with assms nc spelled show thesis by (auto simp: canon_aggregate_def)
  next
    case (Some pos)
    then have pos: "pos < length stk" "stk ! pos = tid" by (auto dest: rposition_Some)
    then have "tid \<in> set stk" by auto
    from backref [OF nc this] assms nc Some pos show thesis by (auto simp: canon_aggregate_def)
  qed
qed

lemma canon_below: "canon f t opts stk False i = Some c \<Longrightarrow> below (length stk) c"
proof (induction f arbitrary: stk i c)
  case (Suc f)
  note IH = Suc.IH
  from Suc.prems obtain v where v: "table_get t i = Some v" by auto
  have agg: "below (length stk) c"
    if "canon_aggregate (\<lambda>stk i. canon f t opts stk False i) opts stk False i kind name ms sz = Some c"
    for kind name ms sz
    using that
  proof (cases rule: canon_aggregate_cases)
    case (spelled cs)
    have "list_all (\<lambda>m. below (Suc (length stk)) (cm_ty m)) cs"
      by (rule traverse_list_all [OF spelled(3)]) (auto dest: IH)
    with spelled nominal_cut_None [OF spelled(1)] show ?thesis by simp
  qed simp_all
  have trav: "list_all (below (length stk)) cs"
    if "traverse (canon f t opts stk False) ps = Some cs" for ps cs
    by (rule traverse_list_all [OF that]) (rule IH)
  show ?case
    using Suc.prems v
    by (cases "tv_shape v")
      (auto dest: IH trav agg nominal_cut_Some nominal_cut_None split: option.splits)
qed simp

lemma below_root: "below 0 c \<Longrightarrow> (\<And>tag kind. c \<noteq> CNamed tag kind) \<Longrightarrow> root_form c"
  by (cases c) (auto simp: list_all_iff)

lemma canon_form:
  assumes "canonicalize fuel t root opts = Some c"
  shows "root_form c"
proof -
  obtain f where f: "fuel = Suc f" using assms by (cases fuel) (auto simp: canonicalize_def)
  with assms obtain v where v: "table_get t root = Some v" by (auto simp: canonicalize_def)
  have sub: "below 0 d" if "canon f t opts [] False i = Some d" for i d
    using canon_below [OF that] by simp
  have trav: "list_all (below 0) cs" if "traverse (canon f t opts [] False) ps = Some cs" for ps cs
    by (rule traverse_list_all [OF that]) (rule sub)
  have agg: "root_form c"
    if "canon_aggregate (\<lambda>stk i. canon f t opts stk False i) opts [] True root kind name ms sz = Some c"
    for kind name ms sz
    using that
  proof (cases rule: canon_aggregate_cases)
    case (spelled cs)
    have "list_all (\<lambda>m. below 1 (cm_ty m)) cs"
      by (rule traverse_list_all [OF spelled(3)]) (auto dest: canon_below)
    with spelled show ?thesis by simp
  qed simp_all
  from assms f v show ?thesis
    by (cases "tv_shape v") (auto simp: canonicalize_def dest: sub trav agg)
qed

text \<open>
  The canonical form of a root is fully spelled: it is never a bare nominal reference or
  back-reference, every aggregate and enum below it is untagged, and every back-reference below
  it points at an enclosing aggregate.
\<close>

theorem canon_root_form:
  assumes "canonicalize fuel t root opts = Some c"
  shows "root_form c"
  using assms by (rule canon_form)

theorem canon_root_form_witness:
  "root_form (CAggregate (Some ''node'') RStruct
     [CanonicalMember ''next'' (Some 0) None (CPtr (CNamed ''node'' KStruct) (Some 8))] (Some 8))"
  by (rule canon_root_form [of 3 node_table 0 strict])
    (simp add: canonicalize_def numeral_3_eq_3 node_table_def table_eval canon_aggregate_def
      nominal_cut_def real_tag_def is_synthetic_def policy_defs)

subsection \<open>The same type in another table\<close>

text \<open>
  What two databases that hold the same type agree on: the shapes up to the numbering of the
  handles, the order of a union's members and of an enum's constants, and the display hints.
\<close>

definition member_facts :: "(type_id \<Rightarrow> type_id) \<Rightarrow> type_member \<Rightarrow> string \<times> u64 \<times> u32 option \<times> type_id" where
  "member_facts f m = (tm_name m, tm_bit_offset m, tm_bitfield_width m, f (tm_ty m))"

definition constant_facts :: "enum_member \<Rightarrow> string \<times> u64" where
  "constant_facts m = (em_name m, em_value m)"

fun same_shape :: "(type_id \<Rightarrow> type_id) \<Rightarrow> type_shape \<Rightarrow> type_shape \<Rightarrow> bool" where
  "same_shape f (TPtr e) s = (s = TPtr (f e))"
| "same_shape f (TArray e n) s = (s = TArray (f e) n)"
| "same_shape f (TStruct name ms) s =
     (case s of TStruct name' ms' \<Rightarrow>
        name' = name \<and> map (member_facts (\<lambda>i. i)) ms' = map (member_facts f) ms
      | _ \<Rightarrow> False)"
| "same_shape f (TUnion name ms) s =
     (case s of TUnion name' ms' \<Rightarrow>
        name' = name \<and> distinct (map tm_name ms) \<and>
        mset (map (member_facts (\<lambda>i. i)) ms') = mset (map (member_facts f) ms)
      | _ \<Rightarrow> False)"
| "same_shape f (TEnum name u ms _ _) s =
     (case s of TEnum name' u' ms' _ _ \<Rightarrow>
        name' = name \<and> u' = f u \<and> distinct (map em_name ms) \<and>
        mset (map constant_facts ms') = mset (map constant_facts ms)
      | _ \<Rightarrow> False)"
| "same_shape f (TFunction r ps va) s = (s = TFunction (f r) (map f ps) va)"
| "same_shape f (TTypedef name u) s = (s = TTypedef name (f u))"
| "same_shape f s s' = (s' = s)"

definition same_types :: "(type_id \<Rightarrow> type_id) \<Rightarrow> type_table \<Rightarrow> type_table \<Rightarrow> bool" where
  "same_types f t t' \<longleftrightarrow> inj_on f (dom (table_get t)) \<and>
     (\<forall>i v. table_get t i = Some v \<longrightarrow>
        (\<exists>w. table_get t' (f i) = Some w \<and> same_shape f (tv_shape v) (tv_shape w) \<and>
             tv_size w = tv_size v))"

definition canon_member ::
  "(type_id \<Rightarrow> canonical_type option) \<Rightarrow> canonical_options \<Rightarrow> string \<times> u64 \<times> u32 option \<times> type_id
   \<Rightarrow> canonical_type canonical_member option" where
  "canon_member walk opts m =
     (case m of (name, off, w, ty) \<Rightarrow>
        do { c \<leftarrow> walk ty; Some (CanonicalMember name (opt_offset opts off) w c) })"

lemma canon_member_traverse:
  "traverse (\<lambda>m. do { ty \<leftarrow> walk (tm_ty m);
       Some (CanonicalMember (tm_name m) (opt_offset opts (tm_bit_offset m)) (tm_bitfield_width m) ty) }) ms
   = traverse (canon_member walk opts) (map (member_facts (\<lambda>i. i)) ms)"
  by (simp add: traverse_map canon_member_def member_facts_def)

lemma canon_member_relocate:
  assumes "traverse (canon_member walk opts) (map (member_facts (\<lambda>i. i)) ms) = Some cs"
    and "\<And>m c. m \<in> set ms \<Longrightarrow> walk (tm_ty m) = Some c \<Longrightarrow> walk' (f (tm_ty m)) = Some c"
  shows "traverse (canon_member walk' opts) (map (member_facts f) ms) = Some cs"
  using assms unfolding traverse_map
  by (elim traverse_mono) (auto simp: canon_member_def member_facts_def)

lemma canon_member_names:
  "traverse (canon_member walk opts) (map (member_facts f) ms) = Some cs
   \<Longrightarrow> map cm_name cs = map tm_name ms"
  by (induction ms arbitrary: cs) (auto simp: canon_member_def member_facts_def)

lemma rposition_map:
  "inj_on f (insert x (set xs)) \<Longrightarrow> rposition (f x) (map f xs) = rposition x xs"
proof (induction xs)
  case (Cons y ys)
  have "rposition (f x) (map f ys) = rposition x ys"
    by (rule Cons.IH) (rule inj_on_subset [OF Cons.prems], auto)
  moreover have "f y = f x \<longleftrightarrow> y = x" by (rule inj_on_eq_iff [OF Cons.prems]) simp_all
  ultimately show ?case by (simp split: option.split)
qed simp

lemma canon_aggregate_relocate:
  assumes run: "canon_aggregate walk opts stk sp i kind name ms sz = Some c"
    and inj: "inj_on f (insert i (set stk))"
    and walk: "\<And>m c. m \<in> set ms \<Longrightarrow> walk (stk @ [i]) (tm_ty m) = Some c
      \<Longrightarrow> walk' (map f stk @ [f i]) (f (tm_ty m)) = Some c"
    and ms: "(kind = RStruct \<and> map (member_facts (\<lambda>i. i)) ms' = map (member_facts f) ms) \<or>
      (kind = RUnion \<and> distinct (map tm_name ms) \<and>
       mset (map (member_facts (\<lambda>i. i)) ms') = mset (map (member_facts f) ms))"
  shows "canon_aggregate walk' opts (map f stk) sp (f i) kind name ms' sz = Some c"
proof -
  have sorted: "\<exists>cs'. traverse (canon_member (walk' (map f stk @ [f i])) opts)
        (map (member_facts (\<lambda>i. i)) ms') = Some cs' \<and>
      (if kind = RUnion then sort_key cm_name cs' else cs') =
      (if kind = RUnion then sort_key cm_name cs else cs)"
    if "traverse (canon_member (walk (stk @ [i])) opts) (map (member_facts (\<lambda>i. i)) ms) = Some cs" for cs
  proof -
    from canon_member_relocate [where walk' = "walk' (map f stk @ [f i])" and f = f, OF that walk]
    have run': "traverse (canon_member (walk' (map f stk @ [f i])) opts) (map (member_facts f) ms) = Some cs" .
    from ms show ?thesis
    proof (elim disjE conjE)
      assume perm: "kind = RUnion" "distinct (map tm_name ms)"
        "mset (map (member_facts (\<lambda>i. i)) ms') = mset (map (member_facts f) ms)"
      from traverse_perm [OF perm(3) [symmetric] run'] obtain cs' where cs':
        "traverse (canon_member (walk' (map f stk @ [f i])) opts) (map (member_facts (\<lambda>i. i)) ms') = Some cs'"
        "mset cs' = mset cs" by blast
      have "distinct (map cm_name cs)" using perm(2) canon_member_names [OF run'] by simp
      with cs' perm(1) show ?thesis by (auto intro: sort_key_perm [symmetric])
    qed (use run' in simp)
  qed
  note pos = rposition_map [OF inj] and agg = canon_aggregate_def canon_member_traverse
  show ?thesis
  proof (cases "nominal_cut name (aggregate_kind_from kind) sp = None \<and> rposition i stk = None")
    case True
    with run obtain cs where "traverse (canon_member (walk (stk @ [i])) opts)
        (map (member_facts (\<lambda>i. i)) ms) = Some cs"
      "c = CAggregate (real_tag name) kind (if kind = RUnion then sort_key cm_name cs else cs)
         (opt_agg_size opts sz)"
      by (auto simp: agg simp del: rposition_None_iff)
    with sorted [OF this(1)] True pos show ?thesis
      by (auto simp: agg simp del: rposition_None_iff)
  qed (use run pos in \<open>auto simp: agg split: option.splits\<close>)
qed

lemma canon_relocate:
  assumes "same_types f t t'"
  shows "canon fuel t opts stk sp i = Some c \<Longrightarrow> set stk \<subseteq> dom (table_get t)
    \<Longrightarrow> canon fuel t' opts (map f stk) sp (f i) = Some c"
proof (induction fuel arbitrary: stk sp i c)
  case (Suc fuel)
  from Suc.prems(1) obtain v where v: "table_get t i = Some v" by auto
  with assms obtain w where w: "table_get t' (f i) = Some w" "same_shape f (tv_shape v) (tv_shape w)"
    "tv_size w = tv_size v" by (auto simp: same_types_def)
  have IH: "canon fuel t' opts (map f stk) False (f j) = Some d"
    if "canon fuel t opts stk False j = Some d" for j d
    by (rule Suc.IH [OF that Suc.prems(2)])
  have push: "canon fuel t' opts (map f stk @ [f i]) False (f j) = Some d"
    if "canon fuel t opts (stk @ [i]) False j = Some d" for j d
    using Suc.IH [OF that] Suc.prems(2) v by auto
  have inj: "inj_on f (insert i (set stk))"
    by (rule inj_on_subset [of f "dom (table_get t)"])
      (use assms Suc.prems(2) v in \<open>auto simp: same_types_def\<close>)
  have agg: "canon_aggregate (\<lambda>stk i. canon fuel t' opts stk False i) opts (map f stk) sp (f i) kind name
      ms' sz = Some c"
    if "canon_aggregate (\<lambda>stk i. canon fuel t opts stk False i) opts stk sp i kind name ms sz = Some c"
      "(kind = RStruct \<and> map (member_facts (\<lambda>i. i)) ms' = map (member_facts f) ms) \<or>
       (kind = RUnion \<and> distinct (map tm_name ms) \<and>
        mset (map (member_facts (\<lambda>i. i)) ms') = mset (map (member_facts f) ms))"
    for kind name ms ms' sz
    by (rule canon_aggregate_relocate [OF that(1) inj _ that(2)]) (rule push)
  have trav: "traverse (canon fuel t' opts (map f stk) False) (map f ps) = Some cs"
    if "traverse (canon fuel t opts stk False) ps = Some cs" for ps cs
    unfolding traverse_map using that by (rule traverse_mono) (rule IH)
  show ?case
  proof (cases "tv_shape v")
    case (TStruct n ms)
    with w obtain ms' where "tv_shape w = TStruct n ms'"
      "map (member_facts (\<lambda>i. i)) ms' = map (member_facts f) ms" by (auto split: type_shape.splits)
    with TStruct v w Suc.prems(1) show ?thesis by (auto intro!: agg)
  next
    case (TUnion n ms)
    with w obtain ms' where "tv_shape w = TUnion n ms'" "distinct (map tm_name ms)"
      "mset (map (member_facts (\<lambda>i. i)) ms') = mset (map (member_facts f) ms)"
      by (auto split: type_shape.splits)
    with TUnion v w Suc.prems(1) show ?thesis by (auto intro!: agg)
  next
    case (TEnum n u cs b r)
    with w obtain cs' b' r' where s: "tv_shape w = TEnum n (f u) cs' b' r'"
      and d: "distinct (map em_name cs)" "mset (map constant_facts cs') = mset (map constant_facts cs)"
      by (auto split: type_shape.splits)
    have "sort_key fst (map (\<lambda>m. (em_name m, em_value m)) cs) =
        sort_key fst (map (\<lambda>m. (em_name m, em_value m)) cs')"
      by (rule sort_key_perm) (use d in \<open>simp_all add: constant_facts_def [abs_def] comp_def\<close>)
    with TEnum s v w Suc.prems(1) show ?thesis by (auto dest: IH split: option.splits)
  qed (use v w Suc.prems(1) in \<open>auto dest: IH trav\<close>)
qed simp

text \<open>
  C7: a type has one canonical form: two tables that hold it under different handles, with the
  members of a union or the constants of an enum in another order and other display hints,
  produce the same value, provided the names within each union and enum are distinct.
\<close>

theorem canonical_form_portable:
  assumes "same_types f t t'" and "canonicalize fuel t root opts = Some c"
  shows "canonicalize fuel t' (f root) opts = Some c"
  using canon_relocate [OF assms(1), of fuel opts "[]" True root c] assms(2)
  by (simp add: canonicalize_def)

text \<open>\<open>union num { int a; float b; };\<close> in two tables.\<close>

definition plain_member :: "string \<Rightarrow> type_id \<Rightarrow> type_member" where
  "plain_member name ty = \<lparr>tm_name = name, tm_bit_offset = 0, tm_ty = ty, tm_bitfield_width = None,
     tm_repr = None\<rparr>"

definition table_of :: "(type_shape \<times> u64 option) list \<Rightarrow> type_table" where
  "table_of vs = \<lparr>tt_arena = \<lparr>arena_data = map (\<lambda>(s, sz). \<lparr>tv_shape = s, tv_size = sz\<rparr>) vs\<rparr>,
     tt_dedup = Map.empty\<rparr>"

definition num_table :: type_table where
  "num_table = table_of
     [(TUnion (Some ''num'') [plain_member ''a'' 1, plain_member ''b'' 2], Some 4),
      (TInt 4 True, Some 4), (TFloat 4, Some 4)]"

definition num_table2 :: type_table where
  "num_table2 = table_of
     [(TFloat 4, Some 4),
      (TUnion (Some ''num'') [plain_member ''b'' 0, plain_member ''a'' 2], Some 4),
      (TInt 4 True, Some 4)]"

lemmas canon_eval = canonicalize_def table_of_def plain_member_def table_eval canon_aggregate_def
  nominal_cut_def real_tag_def is_synthetic_def policy_defs

lemma canon_numeral [simp]: "canon (numeral k) = canon (Suc (pred_numeral k))"
  by (simp add: numeral_eq_Suc)

lemma word_less_3: "unat (i :: u32) < 3 \<Longrightarrow> i = 0 \<or> i = 1 \<or> i = 2"
proof -
  assume "unat i < 3"
  then have "unat i = 0 \<or> unat i = 1 \<or> unat i = 2" by arith
  then show ?thesis by (auto simp: word_unat_eq_iff)
qed

theorem canonical_form_portable_witness:
  "\<exists>c. canonicalize 2 num_table 0 strict = Some c \<and> canonicalize 2 num_table2 1 strict = Some c"
proof -
  let ?f = "\<lambda>i :: u32. if i = 2 then 0 else i + 1"
  have dom: "i = 0 \<or> i = 1 \<or> i = 2" if "table_get num_table i = Some v" for i v
    using that by (intro word_less_3) (simp add: num_table_def canon_eval split: if_splits)
  have "same_types ?f num_table num_table2"
    unfolding same_types_def
  proof (intro conjI allI impI)
    have "dom (table_get num_table) \<subseteq> {0, 1, 2}" using dom by blast
    then show "inj_on ?f (dom (table_get num_table))" by (rule inj_on_subset [rotated]) (simp add: inj_on_def)
    fix i v assume v: "table_get num_table i = Some v"
    from dom [OF v] v
    show "\<exists>w. table_get num_table2 (?f i) = Some w \<and> same_shape ?f (tv_shape v) (tv_shape w) \<and>
        tv_size w = tv_size v"
      by (auto simp: num_table_def num_table2_def canon_eval member_facts_def)
  qed
  moreover obtain c where "canonicalize 2 num_table 0 strict = Some c"
    by (simp add: num_table_def canon_eval)
  ultimately show ?thesis using canonical_form_portable [of ?f num_table num_table2 2 0 strict c] by auto
qed

text \<open>
  The names must be distinct: a union with two unnamed members has two canonical forms, one
  per declaration order, because the sort by name leaves members of equal name in place.
\<close>

theorem unnamed_union_order_matters:
  "\<exists>c c'. canonicalize 2 (table_of
        [(TUnion (Some ''u'') [plain_member [] 1, plain_member [] 2], Some 4), (TInt 4 True, Some 4),
         (TFloat 4, Some 4)]) 0 strict = Some c \<and>
     canonicalize 2 (table_of
        [(TUnion (Some ''u'') [plain_member [] 2, plain_member [] 1], Some 4), (TInt 4 True, Some 4),
         (TFloat 4, Some 4)]) 0 strict = Some c' \<and> c \<noteq> c'"
  by (simp add: canon_eval)

subsection \<open>The two policies\<close>

fun erase_sizes :: "canonical_type \<Rightarrow> canonical_type" where
  "erase_sizes (CInt _ s) = CInt None s"
| "erase_sizes (CFloat _) = CFloat None"
| "erase_sizes (CPtr c _) = CPtr (erase_sizes c) None"
| "erase_sizes (CArray c n) = CArray (erase_sizes c) n"
| "erase_sizes (CAggregate tag k ms _) =
     CAggregate tag k (map (\<lambda>m. CanonicalMember (cm_name m) None (cm_bitfield_width m)
       (erase_sizes (cm_ty m))) ms) None"
| "erase_sizes (CEnum tag u ms _) = CEnum tag (erase_sizes u) ms None"
| "erase_sizes (CFunction r ps va) = CFunction (erase_sizes r) (map erase_sizes ps) va"
| "erase_sizes (CTypedef n u) = CTypedef n (erase_sizes u)"
| "erase_sizes c = c"

definition erase_member :: "canonical_type canonical_member \<Rightarrow> canonical_type canonical_member" where
  "erase_member m = CanonicalMember (cm_name m) None (cm_bitfield_width m) (erase_sizes (cm_ty m))"

lemma erase_nominal_cut [simp]:
  "nominal_cut name kind sp = Some c \<Longrightarrow> erase_sizes c = c"
  by (auto dest: nominal_cut_Some)

lemma canon_aggregate_logical:
  assumes "\<And>s i. w' s i = map_option erase_sizes (w s i)"
  shows "canon_aggregate w' logical stk sp i kind name ms sz =
    map_option erase_sizes (canon_aggregate w strict stk sp i kind name ms sz)"
proof -
  let ?run = "\<lambda>w opts. traverse (\<lambda>m. do { ty \<leftarrow> w (stk @ [i]) (tm_ty m);
      Some (CanonicalMember (tm_name m) (opt_offset opts (tm_bit_offset m)) (tm_bitfield_width m) ty) }) ms"
  have run: "?run w' logical = map_option (map erase_member) (?run w strict)"
    unfolding traverse_map_option [symmetric]
    by (rule traverse_same) (simp add: assms erase_member_def policy_defs map_option_bind comp_def
        bind_map_option split: bind_split)
  have sort: "sort_key cm_name (map erase_member cs) = map erase_member (sort_key cm_name cs)" for cs
    by (rule sort_key_map) (simp add: erase_member_def)
  have erase: "erase_sizes (CAggregate tag kind (if kind = RUnion then sort_key cm_name cs else cs) n) =
      CAggregate tag kind (if kind = RUnion then sort_key cm_name (map erase_member cs)
        else map erase_member cs) None" for tag cs n
    unfolding erase_sizes.simps erase_member_def [abs_def, symmetric] by (simp add: sort)
  have none: "opt_agg_size logical sz = None" by (simp add: policy_defs)
  show ?thesis
  proof (cases "nominal_cut name (aggregate_kind_from kind) sp")
    case None
    note nc = this
    show ?thesis
    proof (cases "rposition i stk")
      case None
      show ?thesis
        unfolding canon_aggregate_def run nc None
        by (cases "?run w strict") (simp_all add: erase none del: erase_sizes.simps)
    qed (simp add: canon_aggregate_def nc)
  qed (simp add: canon_aggregate_def)
qed

lemma canon_logical: "canon f t logical stk sp i = map_option erase_sizes (canon f t strict stk sp i)"
proof (induction f arbitrary: stk sp i)
  case (Suc f)
  note agg = canon_aggregate_logical [where w = "\<lambda>stk i. canon f t strict stk False i", OF Suc.IH]
  have trav: "traverse (canon f t logical stk False) ps =
      map_option (map erase_sizes) (traverse (canon f t strict stk False) ps)" for ps
    unfolding traverse_map_option [symmetric] by (rule traverse_same) (rule Suc.IH)
  show ?case
  proof (cases "table_get t i")
    case (Some v)
    show ?thesis
      by (cases "tv_shape v")
        (simp_all add: Some agg Suc.IH trav policy_facts map_option_bind comp_def bind_map_option
          split: option.split bind_split)
  qed simp
qed simp

text \<open>
  The logical form is the strict form with its sizes erased, so two types that agree strictly
  agree logically, and the logical walk returns exactly when the strict one does.
\<close>

theorem logical_erases_strict:
  "canonicalize fuel t root logical = map_option erase_sizes (canonicalize fuel t root strict)"
  unfolding canonicalize_def by (rule canon_logical)

end
