(* ===== verification/Type_Edit.thy ===== *)
theory Type_Edit
  imports Text Type_Expr Type_Builder Canonical
begin

text \<open>
  \<open>types/edit.rs\<close>: the write cursors over the type library. Every operation checks the strings it is
  about to hand over, makes one call of the facade, and decodes the code the call answers; a durable
  reference to a member carries a fingerprint of the layout it was minted on.

  The facade is a parameter: what a call answers and does to the database. The standard library's
  default hasher and its escaped form of a string are parameters too.
\<close>

subsection \<open>Codes and errors\<close>

datatype type_edit_code =
    TeOk | TeSaveError | TeSerialize | TeBadName | TeBadArg | TeBadType | TeBadSize | TeBadIndex |
    TeBadArray | TeBadBitfield | TeBadOffset | TeBadUnionVar | TeBadVarLast | TeOverlap |
    TeBadSubtype | TeBadValue | TeNoBitmask | TeBadBitmask | TeBadMaskValue | TeBadRepr |
    TeGroupNotEmpty | TeDupName | TeUnionBitfield | TeBadTah | TeBadBase | TeBadGap | TeNested |
    TeNotCompatible | TeBadLayout | TeBadGroups | TeBadSerial | TeAlienName | TeStock |
    TeEnumSize | TeNotImplemented | TeTypeWorse | TeBadFixedSize | TeStructSize | TeNotFound

fun type_edit_code_of :: "type_edit_code \<Rightarrow> int" where
  "type_edit_code_of TeOk = 0"
| "type_edit_code_of TeSaveError = - 1"
| "type_edit_code_of TeSerialize = - 2"
| "type_edit_code_of TeBadName = - 3"
| "type_edit_code_of TeBadArg = - 4"
| "type_edit_code_of TeBadType = - 5"
| "type_edit_code_of TeBadSize = - 6"
| "type_edit_code_of TeBadIndex = - 7"
| "type_edit_code_of TeBadArray = - 8"
| "type_edit_code_of TeBadBitfield = - 9"
| "type_edit_code_of TeBadOffset = - 10"
| "type_edit_code_of TeBadUnionVar = - 11"
| "type_edit_code_of TeBadVarLast = - 12"
| "type_edit_code_of TeOverlap = - 13"
| "type_edit_code_of TeBadSubtype = - 14"
| "type_edit_code_of TeBadValue = - 15"
| "type_edit_code_of TeNoBitmask = - 16"
| "type_edit_code_of TeBadBitmask = - 17"
| "type_edit_code_of TeBadMaskValue = - 18"
| "type_edit_code_of TeBadRepr = - 19"
| "type_edit_code_of TeGroupNotEmpty = - 20"
| "type_edit_code_of TeDupName = - 21"
| "type_edit_code_of TeUnionBitfield = - 22"
| "type_edit_code_of TeBadTah = - 23"
| "type_edit_code_of TeBadBase = - 24"
| "type_edit_code_of TeBadGap = - 25"
| "type_edit_code_of TeNested = - 26"
| "type_edit_code_of TeNotCompatible = - 27"
| "type_edit_code_of TeBadLayout = - 28"
| "type_edit_code_of TeBadGroups = - 29"
| "type_edit_code_of TeBadSerial = - 30"
| "type_edit_code_of TeAlienName = - 31"
| "type_edit_code_of TeStock = - 32"
| "type_edit_code_of TeEnumSize = - 33"
| "type_edit_code_of TeNotImplemented = - 34"
| "type_edit_code_of TeTypeWorse = - 35"
| "type_edit_code_of TeBadFixedSize = - 36"
| "type_edit_code_of TeStructSize = - 37"
| "type_edit_code_of TeNotFound = - 38"

definition type_edit_code_variants :: "type_edit_code list" where
  "type_edit_code_variants =
    [TeOk, TeSaveError, TeSerialize, TeBadName, TeBadArg, TeBadType, TeBadSize, TeBadIndex,
     TeBadArray, TeBadBitfield, TeBadOffset, TeBadUnionVar, TeBadVarLast, TeOverlap, TeBadSubtype,
     TeBadValue, TeNoBitmask, TeBadBitmask, TeBadMaskValue, TeBadRepr, TeGroupNotEmpty, TeDupName,
     TeUnionBitfield, TeBadTah, TeBadBase, TeBadGap, TeNested, TeNotCompatible, TeBadLayout,
     TeBadGroups, TeBadSerial, TeAlienName, TeStock, TeEnumSize, TeNotImplemented, TeTypeWorse,
     TeBadFixedSize, TeStructSize, TeNotFound]"

interpretation type_edit_codes: closed_enum type_edit_code_of type_edit_code_variants
proof
  show "distinct (map type_edit_code_of type_edit_code_variants)"
    by (simp add: type_edit_code_variants_def)
  fix v show "v \<in> set type_edit_code_variants"
    by (cases v) (simp_all add: type_edit_code_variants_def)
qed

definition type_edit_code_try_from :: "int \<Rightarrow> type_edit_code option" where
  "type_edit_code_try_from n = try_from type_edit_code_of type_edit_code_variants n"

fun code_message :: "type_edit_code \<Rightarrow> string" where
  "code_message TeOk = ''ok''"
| "code_message TeSaveError = ''failed to save''"
| "code_message TeSerialize = ''failed to serialize''"
| "code_message TeBadName = ''the name is not acceptable''"
| "code_message TeBadArg = ''bad argument''"
| "code_message TeBadType = ''bad type''"
| "code_message TeBadSize = ''bad size''"
| "code_message TeBadIndex = ''bad index''"
| "code_message TeBadArray = ''arrays are forbidden as function arguments''"
| "code_message TeBadBitfield = ''bitfields are forbidden as function arguments''"
| "code_message TeBadOffset = ''bad member offset''"
| "code_message TeBadUnionVar = ''unions cannot have variable-sized members''"
| "code_message TeBadVarLast = ''a variable-sized member must be the last member''"
| "code_message TeOverlap = ''the member overlaps with members that cannot be deleted''"
| "code_message TeBadSubtype = ''recursive structure nesting is forbidden''"
| "code_message TeBadValue = ''the value is not acceptable''"
| "code_message TeNoBitmask = ''the bitmask was not found''"
| "code_message TeBadBitmask = ''bad enum member mask''"
| "code_message TeBadMaskValue = ''bad bitmask and value combination''"
| "code_message TeBadRepr = ''bad or incompatible field representation''"
| "code_message TeGroupNotEmpty = ''could not delete the group mask of a non-empty group''"
| "code_message TeDupName = ''duplicate name''"
| "code_message TeUnionBitfield = ''unions cannot have bitfields''"
| "code_message TeBadTah = ''bad type-attribute bits''"
| "code_message TeBadBase = ''bad base class''"
| "code_message TeBadGap = ''bad gap''"
| "code_message TeNested = ''recursive structure nesting is forbidden''"
| "code_message TeNotCompatible = ''the new type is not compatible with the old type''"
| "code_message TeBadLayout = ''failed to calculate the structure/union layout''"
| "code_message TeBadGroups = ''bad group sizes for a bitmask enum''"
| "code_message TeBadSerial = ''the enum value has too many serials''"
| "code_message TeAlienName = ''the enum member name is used in another enum''"
| "code_message TeStock = ''stock type info cannot be modified''"
| "code_message TeEnumSize = ''bad enum size''"
| "code_message TeNotImplemented = ''not implemented''"
| "code_message TeTypeWorse = ''the new type is worse than the old type''"
| "code_message TeBadFixedSize = ''cannot extend the struct beyond its fixed size''"
| "code_message TeStructSize = ''bad fixed structure size''"
| "code_message TeNotFound = ''the member was not found''"

datatype type_write_error =
    NoType string
  | NoMember string string
  | MemberIndexOutOfRange string nat nat
  | StaleMemberRef string
  | BuildFailed string
  | Rejected string type_edit_code
  | UnknownCode string int
  | TypeDefineFailed string string
  | WriteFfi ffi_error

abbreviation "TEDIT_NO_TYPE \<equiv> (1 :: int)"
abbreviation "TEDIT_NO_MEMBER \<equiv> (2 :: int)"
abbreviation "TEDIT_BUILD \<equiv> (3 :: int)"

definition MEMBER_APPEND :: u64 where
  "MEMBER_APPEND = - 1"

definition DEFMASK64 :: u64 where
  "DEFMASK64 = - 1"

definition ETF_COMPATIBLE :: u32 where
  "ETF_COMPATIBLE = 0x8"

definition ETF_FORCENAME :: u32 where
  "ETF_FORCENAME = 0x20"

fun decl_type_of :: "aggregate_kind \<Rightarrow> u32" where
  "decl_type_of KStruct = 0x0D"
| "decl_type_of KUnion = 0x1D"
| "decl_type_of KEnum = 0x2D"

definition reason_or :: "string \<Rightarrow> string \<Rightarrow> string" where
  "reason_or reason fallback = (let trimmed = trim reason in if trimmed = [] then fallback else trimmed)"

subsection \<open>Selecting a member\<close>

datatype member_key = KName string | KOffset u64

fun show_member_key :: "(string \<Rightarrow> string) \<Rightarrow> member_key \<Rightarrow> string" where
  "show_member_key dbg (KName n) = ''named '' @ dbg n"
| "show_member_key dbg (KOffset k) = ''at bit offset '' @ show_nat (unat k)"

definition edit_result ::
  "(string \<Rightarrow> string) \<Rightarrow> int \<Rightarrow> string \<Rightarrow> string \<Rightarrow> member_key option \<Rightarrow> type_write_error + unit" where
  "edit_result dbg code reason type_name key =
     (if code = 0 then Inr ()
      else if code = TEDIT_NO_TYPE then Inl (NoType type_name)
      else if code = TEDIT_NO_MEMBER then
        Inl (NoMember type_name (case key of Some k \<Rightarrow> show_member_key dbg k | None \<Rightarrow> []))
      else if code = TEDIT_BUILD then
        Inl (BuildFailed (reason_or reason ''an unknown named type or invalid declaration within it''))
      else (case type_edit_code_try_from code of
              Some c \<Rightarrow> Inl (Rejected type_name c)
            | None \<Rightarrow> Inl (UnknownCode type_name code)))"

subsection \<open>The calls of the facade\<close>

record write_result =
  wr_code :: int
  wr_reason :: string

text \<open>A member is handed over as a name and a bit offset; an empty name selects by the offset.\<close>

datatype facade_call =
    CallDefine string
  | CallDelete string
  | CallRename string string
  | CallForward string u32
  | CallAddMember string string "u8 list" u64
  | CallEnumAdd string string u64 u64 u32
  | CallSetBitmask string bool
  | CallEnumRepr string u32 bool bool
  | CallSetWidth string "32 word"
  | CallDelByValue string u64
  | CallMemberType string string u64 "u8 list" u32
  | CallMemberRename string string u64 string
  | CallMemberComment string string u64 string
  | CallMemberRepr string string u64 u32 bool bool
  | CallMemberDelete string string u64
  | CallConstValue string string u64
  | CallConstRename string string string u32
  | CallConstDelete string string

type_synonym 'db facade = "facade_call \<Rightarrow> 'db \<Rightarrow> write_result \<times> 'db"
type_synonym 'db edit = "'db facade \<Rightarrow> 'db \<Rightarrow> (type_write_error + unit) \<times> 'db"

text \<open>The checks of an operation in its order, then its one call, then the decoding of the answer.\<close>

definition guarded_call ::
  "ffi_error option list \<Rightarrow> facade_call \<Rightarrow> (write_result \<Rightarrow> type_write_error + unit) \<Rightarrow> 'db edit" where
  "guarded_call checks call finish K db =
     (case first_error checks of
        Some e \<Rightarrow> (Inl (WriteFfi e), db)
      | None \<Rightarrow> (case K call db of (r, db') \<Rightarrow> (finish r, db')))"

definition edited :: "(string \<Rightarrow> string) \<Rightarrow> string \<Rightarrow> member_key option \<Rightarrow> write_result \<Rightarrow> type_write_error + unit" where
  "edited dbg type_name key r = edit_result dbg (wr_code r) (wr_reason r) type_name key"

definition types_define :: "string \<Rightarrow> 'db edit" where
  "types_define d =
     guarded_call [nul_checked d ''decl''] (CallDefine d)
       (\<lambda>r. if wr_code r = 0 then Inr ()
            else Inl (TypeDefineFailed d (reason_or (wr_reason r) ''the declaration is not valid'')))"

definition types_delete :: "(string \<Rightarrow> string) \<Rightarrow> string \<Rightarrow> 'db edit" where
  "types_delete dbg name = guarded_call [nul_checked name ''name''] (CallDelete name) (edited dbg name None)"

definition types_rename :: "(string \<Rightarrow> string) \<Rightarrow> string \<Rightarrow> string \<Rightarrow> 'db edit" where
  "types_rename dbg name new_name =
     guarded_call [nul_checked new_name ''new name'', nul_checked name ''name''] (CallRename name new_name)
       (edited dbg name None)"

definition forward_declare :: "(string \<Rightarrow> string) \<Rightarrow> string \<Rightarrow> aggregate_kind \<Rightarrow> 'db edit" where
  "forward_declare dbg name kind =
     guarded_call [nul_checked name ''name''] (CallForward name (decl_type_of kind)) (edited dbg name None)"

subsection \<open>Editing a type\<close>

definition add_member_impl ::
  "(string \<Rightarrow> string) \<Rightarrow> string \<Rightarrow> string \<Rightarrow> type_expr \<Rightarrow> u64 \<Rightarrow> 'db edit" where
  "add_member_impl dbg tn name ty member_bit =
     guarded_call [check ty, nul_checked tn ''type name'', nul_checked name ''member name'']
       (CallAddMember tn name (serialize ty) member_bit) (edited dbg tn None)"

definition add_member :: "(string \<Rightarrow> string) \<Rightarrow> string \<Rightarrow> string \<Rightarrow> type_expr \<Rightarrow> 'db edit" where
  "add_member dbg tn name ty = add_member_impl dbg tn name ty MEMBER_APPEND"

definition add_member_at :: "(string \<Rightarrow> string) \<Rightarrow> string \<Rightarrow> u64 \<Rightarrow> string \<Rightarrow> type_expr \<Rightarrow> 'db edit" where
  "add_member_at dbg tn bit_offset name ty = add_member_impl dbg tn name ty bit_offset"

definition add_member_at_mask ::
  "(string \<Rightarrow> string) \<Rightarrow> string \<Rightarrow> string \<Rightarrow> u64 \<Rightarrow> u64 \<Rightarrow> u32 \<Rightarrow> 'db edit" where
  "add_member_at_mask dbg tn name value msk etf_flags =
     guarded_call [nul_checked tn ''type name'', nul_checked name ''constant name'']
       (CallEnumAdd tn name value msk etf_flags) (edited dbg tn None)"

definition add_constant :: "(string \<Rightarrow> string) \<Rightarrow> string \<Rightarrow> string \<Rightarrow> u64 \<Rightarrow> 'db edit" where
  "add_constant dbg tn name value = add_member_at_mask dbg tn name value DEFMASK64 0"

definition add_constant_forced :: "(string \<Rightarrow> string) \<Rightarrow> string \<Rightarrow> string \<Rightarrow> u64 \<Rightarrow> 'db edit" where
  "add_constant_forced dbg tn name value = add_member_at_mask dbg tn name value DEFMASK64 ETF_FORCENAME"

definition add_flag :: "(string \<Rightarrow> string) \<Rightarrow> string \<Rightarrow> string \<Rightarrow> u64 \<Rightarrow> u64 \<Rightarrow> 'db edit" where
  "add_flag dbg tn name value msk = add_member_at_mask dbg tn name value msk 0"

definition add_flag_forced :: "(string \<Rightarrow> string) \<Rightarrow> string \<Rightarrow> string \<Rightarrow> u64 \<Rightarrow> u64 \<Rightarrow> 'db edit" where
  "add_flag_forced dbg tn name value msk = add_member_at_mask dbg tn name value msk ETF_FORCENAME"

definition set_bitmask :: "(string \<Rightarrow> string) \<Rightarrow> string \<Rightarrow> bool \<Rightarrow> 'db edit" where
  "set_bitmask dbg tn on =
     guarded_call [nul_checked tn ''type name''] (CallSetBitmask tn on) (edited dbg tn None)"

definition set_enum_repr :: "(string \<Rightarrow> string) \<Rightarrow> string \<Rightarrow> value_repr \<Rightarrow> 'db edit" where
  "set_enum_repr dbg tn repr =
     guarded_call [nul_checked tn ''type name'']
       (CallEnumRepr tn (number_format_code (vr_format repr)) (vr_signed repr) (vr_leading_zeros repr))
       (edited dbg tn None)"

definition set_enum_width :: "(string \<Rightarrow> string) \<Rightarrow> string \<Rightarrow> 32 word \<Rightarrow> 'db edit" where
  "set_enum_width dbg tn nbytes =
     guarded_call [nul_checked tn ''type name''] (CallSetWidth tn nbytes) (edited dbg tn None)"

definition delete_constant_by_value :: "(string \<Rightarrow> string) \<Rightarrow> string \<Rightarrow> u64 \<Rightarrow> 'db edit" where
  "delete_constant_by_value dbg tn value =
     guarded_call [nul_checked tn ''type name''] (CallDelByValue tn value) (edited dbg tn None)"

subsection \<open>Editing a member or a constant\<close>

fun key_parts :: "member_key \<Rightarrow> ffi_error option \<times> string \<times> u64" where
  "key_parts (KName n) = (nul_checked n ''member name'', n, 0)"
| "key_parts (KOffset k) = (None, [], k)"

text \<open>\<open>MemberEdit::dispatch\<close>, after the checks of the operation itself.\<close>

definition member_call ::
  "(string \<Rightarrow> string) \<Rightarrow> ffi_error option list \<Rightarrow> string \<Rightarrow> member_key
   \<Rightarrow> (string \<Rightarrow> string \<Rightarrow> u64 \<Rightarrow> facade_call) \<Rightarrow> 'db edit" where
  "member_call dbg checks tn key call =
     (case key_parts key of (e, member, off) \<Rightarrow>
        guarded_call (checks @ [nul_checked tn ''type name'', e]) (call tn member off) (edited dbg tn (Some key)))"

definition set_type_with_flags ::
  "(string \<Rightarrow> string) \<Rightarrow> string \<Rightarrow> member_key \<Rightarrow> type_expr \<Rightarrow> u32 \<Rightarrow> 'db edit" where
  "set_type_with_flags dbg tn key ty etf_flags =
     member_call dbg [check ty] tn key (\<lambda>t m bit. CallMemberType t m bit (serialize ty) etf_flags)"

definition member_set_type :: "(string \<Rightarrow> string) \<Rightarrow> string \<Rightarrow> member_key \<Rightarrow> type_expr \<Rightarrow> 'db edit" where
  "member_set_type dbg tn key ty = set_type_with_flags dbg tn key ty 0"

definition member_set_type_compatible :: "(string \<Rightarrow> string) \<Rightarrow> string \<Rightarrow> member_key \<Rightarrow> type_expr \<Rightarrow> 'db edit" where
  "member_set_type_compatible dbg tn key ty = set_type_with_flags dbg tn key ty ETF_COMPATIBLE"

definition member_rename :: "(string \<Rightarrow> string) \<Rightarrow> string \<Rightarrow> member_key \<Rightarrow> string \<Rightarrow> 'db edit" where
  "member_rename dbg tn key new_name =
     member_call dbg [nul_checked new_name ''new member name''] tn key
       (\<lambda>t m bit. CallMemberRename t m bit new_name)"

definition member_comment :: "(string \<Rightarrow> string) \<Rightarrow> string \<Rightarrow> member_key \<Rightarrow> string \<Rightarrow> 'db edit" where
  "member_comment dbg tn key t =
     member_call dbg [nul_checked t ''comment''] tn key (\<lambda>n m bit. CallMemberComment n m bit t)"

definition member_set_repr :: "(string \<Rightarrow> string) \<Rightarrow> string \<Rightarrow> member_key \<Rightarrow> value_repr \<Rightarrow> 'db edit" where
  "member_set_repr dbg tn key repr =
     member_call dbg [] tn key (\<lambda>t m bit. CallMemberRepr t m bit (number_format_code (vr_format repr))
       (vr_signed repr) (vr_leading_zeros repr))"

definition member_delete :: "(string \<Rightarrow> string) \<Rightarrow> string \<Rightarrow> member_key \<Rightarrow> 'db edit" where
  "member_delete dbg tn key = member_call dbg [] tn key CallMemberDelete"

text \<open>\<open>ConstantEdit::dispatch\<close>.\<close>

definition constant_call ::
  "(string \<Rightarrow> string) \<Rightarrow> ffi_error option list \<Rightarrow> string \<Rightarrow> string
   \<Rightarrow> (string \<Rightarrow> string \<Rightarrow> facade_call) \<Rightarrow> 'db edit" where
  "constant_call dbg checks tn name call =
     guarded_call (checks @ [nul_checked tn ''type name'', nul_checked name ''constant name'']) (call tn name)
       (edited dbg tn (Some (KName name)))"

definition constant_set_value :: "(string \<Rightarrow> string) \<Rightarrow> string \<Rightarrow> string \<Rightarrow> u64 \<Rightarrow> 'db edit" where
  "constant_set_value dbg tn name value = constant_call dbg [] tn name (\<lambda>t n. CallConstValue t n value)"

definition rename_with_flags :: "(string \<Rightarrow> string) \<Rightarrow> string \<Rightarrow> string \<Rightarrow> string \<Rightarrow> u32 \<Rightarrow> 'db edit" where
  "rename_with_flags dbg tn name new_name etf_flags =
     constant_call dbg [nul_checked new_name ''new constant name''] tn name
       (\<lambda>t n. CallConstRename t n new_name etf_flags)"

definition constant_rename :: "(string \<Rightarrow> string) \<Rightarrow> string \<Rightarrow> string \<Rightarrow> string \<Rightarrow> 'db edit" where
  "constant_rename dbg tn name new_name = rename_with_flags dbg tn name new_name 0"

definition constant_rename_forced :: "(string \<Rightarrow> string) \<Rightarrow> string \<Rightarrow> string \<Rightarrow> string \<Rightarrow> 'db edit" where
  "constant_rename_forced dbg tn name new_name = rename_with_flags dbg tn name new_name ETF_FORCENAME"

definition constant_delete :: "(string \<Rightarrow> string) \<Rightarrow> string \<Rightarrow> string \<Rightarrow> 'db edit" where
  "constant_delete dbg tn name = constant_call dbg [] tn name CallConstDelete"

subsection \<open>Every operation\<close>

datatype edit_op =
    OpDefine string
  | OpDelete string
  | OpRename string string
  | OpForward string aggregate_kind
  | OpAddMember string string type_expr
  | OpAddMemberAt string u64 string type_expr
  | OpAddConstant string string u64
  | OpAddConstantForced string string u64
  | OpAddFlag string string u64 u64
  | OpAddFlagForced string string u64 u64
  | OpSetBitmask string bool
  | OpSetEnumRepr string value_repr
  | OpSetEnumWidth string "32 word"
  | OpDelByValue string u64
  | OpMemberType string member_key type_expr
  | OpMemberTypeCompatible string member_key type_expr
  | OpMemberRename string member_key string
  | OpMemberComment string member_key string
  | OpMemberRepr string member_key value_repr
  | OpMemberDelete string member_key
  | OpConstantValue string string u64
  | OpConstantRename string string string
  | OpConstantRenameForced string string string
  | OpConstantDelete string string

fun run_edit :: "(string \<Rightarrow> string) \<Rightarrow> edit_op \<Rightarrow> 'db edit" where
  "run_edit dbg (OpDefine d) = types_define d"
| "run_edit dbg (OpDelete n) = types_delete dbg n"
| "run_edit dbg (OpRename n n') = types_rename dbg n n'"
| "run_edit dbg (OpForward n k) = forward_declare dbg n k"
| "run_edit dbg (OpAddMember t n ty) = add_member dbg t n ty"
| "run_edit dbg (OpAddMemberAt t off n ty) = add_member_at dbg t off n ty"
| "run_edit dbg (OpAddConstant t n v) = add_constant dbg t n v"
| "run_edit dbg (OpAddConstantForced t n v) = add_constant_forced dbg t n v"
| "run_edit dbg (OpAddFlag t n v m) = add_flag dbg t n v m"
| "run_edit dbg (OpAddFlagForced t n v m) = add_flag_forced dbg t n v m"
| "run_edit dbg (OpSetBitmask t on) = set_bitmask dbg t on"
| "run_edit dbg (OpSetEnumRepr t r) = set_enum_repr dbg t r"
| "run_edit dbg (OpSetEnumWidth t w) = set_enum_width dbg t w"
| "run_edit dbg (OpDelByValue t v) = delete_constant_by_value dbg t v"
| "run_edit dbg (OpMemberType t k ty) = member_set_type dbg t k ty"
| "run_edit dbg (OpMemberTypeCompatible t k ty) = member_set_type_compatible dbg t k ty"
| "run_edit dbg (OpMemberRename t k n) = member_rename dbg t k n"
| "run_edit dbg (OpMemberComment t k c) = member_comment dbg t k c"
| "run_edit dbg (OpMemberRepr t k r) = member_set_repr dbg t k r"
| "run_edit dbg (OpMemberDelete t k) = member_delete dbg t k"
| "run_edit dbg (OpConstantValue t n v) = constant_set_value dbg t n v"
| "run_edit dbg (OpConstantRename t n n') = constant_rename dbg t n n'"
| "run_edit dbg (OpConstantRenameForced t n n') = constant_rename_forced dbg t n n'"
| "run_edit dbg (OpConstantDelete t n) = constant_delete dbg t n"

text \<open>The strings an operation is given, in a recipe at any depth too.\<close>

fun key_strings :: "member_key \<Rightarrow> string list" where
  "key_strings (KName n) = [n]"
| "key_strings (KOffset _) = []"

fun op_strings :: "edit_op \<Rightarrow> string list" where
  "op_strings (OpDefine d) = [d]"
| "op_strings (OpDelete n) = [n]"
| "op_strings (OpRename n n') = [n, n']"
| "op_strings (OpForward n _) = [n]"
| "op_strings (OpAddMember t n ty) = t # n # recipe_strings ty"
| "op_strings (OpAddMemberAt t _ n ty) = t # n # recipe_strings ty"
| "op_strings (OpAddConstant t n _) = [t, n]"
| "op_strings (OpAddConstantForced t n _) = [t, n]"
| "op_strings (OpAddFlag t n _ _) = [t, n]"
| "op_strings (OpAddFlagForced t n _ _) = [t, n]"
| "op_strings (OpSetBitmask t _) = [t]"
| "op_strings (OpSetEnumRepr t _) = [t]"
| "op_strings (OpSetEnumWidth t _) = [t]"
| "op_strings (OpDelByValue t _) = [t]"
| "op_strings (OpMemberType t k ty) = t # key_strings k @ recipe_strings ty"
| "op_strings (OpMemberTypeCompatible t k ty) = t # key_strings k @ recipe_strings ty"
| "op_strings (OpMemberRename t k n) = t # key_strings k @ [n]"
| "op_strings (OpMemberComment t k c) = t # key_strings k @ [c]"
| "op_strings (OpMemberRepr t k _) = t # key_strings k"
| "op_strings (OpMemberDelete t k) = t # key_strings k"
| "op_strings (OpConstantValue t n _) = [t, n]"
| "op_strings (OpConstantRename t n n') = [t, n, n']"
| "op_strings (OpConstantRenameForced t n n') = [t, n, n']"
| "op_strings (OpConstantDelete t n) = [t, n]"

definition has_nul :: "string list \<Rightarrow> bool" where
  "has_nul ss \<longleftrightarrow> list_ex (\<lambda>s. CHR 0x00 \<in> set s) ss"

text \<open>An operation that refuses NULs before anything else and otherwise is one call.\<close>

definition one_call :: "string list \<Rightarrow> 'db edit \<Rightarrow> bool" where
  "one_call ss f \<longleftrightarrow>
     (if has_nul ss then (\<exists>e. \<forall>K db. f K db = (Inl (WriteFfi e), db))
      else (\<exists>call finish. (\<forall>K db. f K db = (case K call db of (r, db') \<Rightarrow> (finish r, db'))) \<and>
              (\<forall>r. finish r = Inr () \<longleftrightarrow> wr_code r = 0)))"

named_theorems edit_ops \<open>definitions of the edit operations\<close>

lemmas [edit_ops] = types_define_def types_delete_def types_rename_def forward_declare_def
  add_member_impl_def add_member_def add_member_at_def add_member_at_mask_def add_constant_def
  add_constant_forced_def add_flag_def add_flag_forced_def set_bitmask_def set_enum_repr_def
  set_enum_width_def delete_constant_by_value_def set_type_with_flags_def
  member_set_type_def member_set_type_compatible_def member_rename_def member_comment_def
  member_set_repr_def member_delete_def constant_call_def constant_set_value_def
  rename_with_flags_def constant_rename_def constant_rename_forced_def constant_delete_def

lemma guarded_one_call:
  assumes "first_error checks = None \<longleftrightarrow> \<not> has_nul ss" and "\<And>r. finish r = Inr () \<longleftrightarrow> wr_code r = 0"
  shows "one_call ss (guarded_call checks call finish)"
proof (cases "first_error checks")
  case None
  with assms show ?thesis
    by (simp add: one_call_def guarded_call_def) (blast intro: assms(2))
next
  case (Some e)
  with assms(1) show ?thesis by (simp add: one_call_def guarded_call_def)
qed

lemma edited_ok: "edited dbg tn key r = Inr () \<longleftrightarrow> wr_code r = 0"
  by (simp add: edited_def edit_result_def split: option.split)

lemma check_has_nul: "check ty = None \<longleftrightarrow> \<not> has_nul (recipe_strings ty)"
  by (simp add: check_strings has_nul_def list_all_iff list_ex_iff)

lemma has_nul_simps [simp]:
  "\<not> has_nul []" "has_nul (s # ss) \<longleftrightarrow> CHR 0x00 \<in> set s \<or> has_nul ss"
  "has_nul (ss @ ts) \<longleftrightarrow> has_nul ss \<or> has_nul ts"
  by (simp_all add: has_nul_def)

lemma key_parts_nul: "fst (key_parts key) = None \<longleftrightarrow> \<not> has_nul (key_strings key)"
  by (cases key) (simp_all add: nul_checked_None)

lemma key_one_call:
  assumes "first_error checks = None \<longleftrightarrow> \<not> has_nul ss"
  shows "one_call (tn # key_strings key @ ss) (member_call dbg checks tn key call)"
proof -
  obtain e m off where k: "key_parts key = (e, m, off)" by (cases "key_parts key")
  with key_parts_nul [of key] have "e = None \<longleftrightarrow> \<not> has_nul (key_strings key)" by simp
  with assms show ?thesis
    unfolding member_call_def k prod.case
    by (intro guarded_one_call) (auto simp: first_error_None nul_checked_None edited_ok)
qed

lemma key_one_call_plain: "one_call (tn # key_strings key) (member_call dbg [] tn key call)"
  using key_one_call [of "[]" "[]"] by simp

text \<open>
  No string is cut short on its way to the kernel: an operation given a NUL in any of its
  strings, a recipe's included, is refused with the database untouched, and every other operation is
  exactly one call of the facade, which it reports as done when and only when the call answers zero.
\<close>

theorem edit_is_one_call: "one_call (op_strings op) (run_edit dbg op)"
  by (cases op)
    (simp_all add: edit_ops guarded_one_call key_one_call key_one_call_plain first_error_None
      nul_checked_None check_has_nul edited_ok conj_ac)

subsection \<open>Codes\<close>

fun error_code :: "type_write_error \<Rightarrow> int option" where
  "error_code (NoType _) = Some TEDIT_NO_TYPE"
| "error_code (NoMember _ _) = Some TEDIT_NO_MEMBER"
| "error_code (BuildFailed _) = Some TEDIT_BUILD"
| "error_code (Rejected _ c) = Some (type_edit_code_of c)"
| "error_code (UnknownCode _ n) = Some n"
| "error_code _ = None"

text \<open>
  The decoding of an answer loses no code: zero alone is success, and the error made of any
  other code still tells which it was, a code of the kernel this version does not know included.
\<close>

theorem edit_result_keeps_code:
  "(edit_result dbg code reason tn key = Inr () \<longleftrightarrow> code = 0) \<and>
   (code = 0 \<or> (\<exists>e. edit_result dbg code reason tn key = Inl e \<and> error_code e = Some code))"
proof -
  have "type_edit_code_of c = code" if "type_edit_code_try_from code = Some c" for c
    using that type_edit_codes.try_from_Some_iff by (simp add: type_edit_code_try_from_def)
  then show ?thesis by (auto simp: edit_result_def split: option.split)
qed

subsection \<open>References to members\<close>

record member_ref =
  mr_type_name :: string
  mr_index :: nat
  mr_generation :: u64

text \<open>\<open>mem::discriminant\<close>.\<close>

fun shape_discriminant :: "type_shape \<Rightarrow> nat" where
  "shape_discriminant TVoid = 0"
| "shape_discriminant TBool = 1"
| "shape_discriminant (TInt _ _) = 2"
| "shape_discriminant (TFloat _) = 3"
| "shape_discriminant (TPtr _) = 4"
| "shape_discriminant (TArray _ _) = 5"
| "shape_discriminant (TStruct _ _) = 6"
| "shape_discriminant (TUnion _ _) = 7"
| "shape_discriminant (TEnum _ _ _ _ _) = 8"
| "shape_discriminant (TFunction _ _ _) = 9"
| "shape_discriminant (TTypedef _ _) = 10"
| "shape_discriminant (TOpaque _) = 11"
| "shape_discriminant TUnknown = 12"

text \<open>What is fed to the hasher: the count, then of each member the offset, size and kind of shape.\<close>

type_synonym layout = "nat \<times> (u64 \<times> u64 option \<times> nat) list"

definition type_members :: "resolved_type \<Rightarrow> type_member list option option" where
  "type_members r =
     do { v \<leftarrow> table_get (rt_types r) (rt_root r);
          Some (case tv_shape v of TStruct _ ms \<Rightarrow> Some ms | TUnion _ ms \<Rightarrow> Some ms | _ \<Rightarrow> None) }"

definition layout_of :: "type_table \<Rightarrow> type_member list \<Rightarrow> layout option" where
  "layout_of t ms =
     map_option (\<lambda>items. (length ms, items))
       (traverse (\<lambda>m. do { v \<leftarrow> table_get t (tm_ty m);
                          Some (tm_bit_offset m, tv_size v, shape_discriminant (tv_shape v)) }) ms)"

definition key_of_member :: "type_member \<Rightarrow> member_key" where
  "key_of_member m = (if tm_name m = [] then KOffset (tm_bit_offset m) else KName (tm_name m))"

text \<open>
  \<open>read_layout\<close>: \<open>ty\<close> is what \<open>type_named\<close> answers for the name. The outer option is a panic on a
  foreign handle.
\<close>

definition read_layout ::
  "(layout \<Rightarrow> u64) \<Rightarrow> string \<Rightarrow> resolved_type option \<Rightarrow> nat
   \<Rightarrow> (type_write_error + nat \<times> u64 \<times> member_key option) option" where
  "read_layout hash name ty index =
     (case ty of
        None \<Rightarrow> Some (Inl (NoType name))
      | Some r \<Rightarrow>
          do { members \<leftarrow> type_members r;
               (case members of
                  None \<Rightarrow> Some (Inl (NoType name))
                | Some ms \<Rightarrow>
                    do { l \<leftarrow> layout_of (rt_types r) ms;
                         Some (Inr (length ms, hash l,
                           if index < length ms then Some (key_of_member (ms ! index)) else None)) }) })"

definition member_ref_at ::
  "(layout \<Rightarrow> u64) \<Rightarrow> string \<Rightarrow> resolved_type option \<Rightarrow> nat \<Rightarrow> (type_write_error + member_ref) option" where
  "member_ref_at hash name ty index =
     do { l \<leftarrow> read_layout hash name ty index;
          Some (case l of
                  Inl e \<Rightarrow> Inl e
                | Inr (n, generation, _) \<Rightarrow>
                    if index \<ge> n then Inl (MemberIndexOutOfRange name index n)
                    else Inr \<lparr>mr_type_name = name, mr_index = index, mr_generation = generation\<rparr>) }"

definition member_by_ref ::
  "(layout \<Rightarrow> u64) \<Rightarrow> string \<Rightarrow> resolved_type option \<Rightarrow> member_ref \<Rightarrow> (type_write_error + member_key) option" where
  "member_by_ref hash name ty r =
     do { l \<leftarrow> read_layout hash name ty (mr_index r);
          Some (case l of
                  Inl e \<Rightarrow> Inl e
                | Inr (n, generation, key) \<Rightarrow>
                    let stale = mr_type_name r \<noteq> name \<or> mr_generation r \<noteq> generation \<or> mr_index r \<ge> n
                    in (case key of
                          Some k \<Rightarrow> if stale then Inl (StaleMemberRef name) else Inr k
                        | None \<Rightarrow> Inl (StaleMemberRef name))) }"

lemmas member_ref_defs = member_ref_at_def member_by_ref_def read_layout_def

lemma member_ref_minted:
  assumes "member_ref_at hash name (Some r) index = Some (Inr ref)"
  shows "\<exists>ms l. type_members r = Some (Some ms) \<and> layout_of (rt_types r) ms = Some l \<and> index < length ms \<and>
    ref = \<lparr>mr_type_name = name, mr_index = index, mr_generation = hash l\<rparr>"
proof -
  from assms obtain x where x: "read_layout hash name (Some r) index = Some x"
    "(case x of Inl e \<Rightarrow> Inl e | Inr (n, generation, _) \<Rightarrow>
        if index \<ge> n then Inl (MemberIndexOutOfRange name index n)
        else Inr \<lparr>mr_type_name = name, mr_index = index, mr_generation = generation\<rparr>) = Inr ref"
    unfolding member_ref_at_def by auto
  then obtain n g k where "x = Inr (n, g, k)" "index < n"
    "ref = \<lparr>mr_type_name = name, mr_index = index, mr_generation = g\<rparr>"
    by (cases x) (auto split: if_splits prod.splits)
  with x(1) show ?thesis by (fastforce simp: read_layout_def split: option.splits)
qed

text \<open>
  A reference minted at a member resolves, on every later state of the type, exactly when the
  layout is the one it was minted on as far as the hash tells, and then to the key of the member that
  now sits at its index.
\<close>

theorem member_ref_resolves:
  assumes "member_ref_at hash name (Some r) index = Some (Inr ref)"
    and "type_members r = Some (Some ms)" "layout_of (rt_types r) ms = Some l"
    and "type_members r' = Some (Some ms')" "layout_of (rt_types r') ms' = Some l'"
    and "hash l = hash l' \<longrightarrow> l = l'"
  shows "member_by_ref hash name (Some r') ref =
    Some (if l' = l then Inr (key_of_member (ms' ! index)) else Inl (StaleMemberRef name))"
proof -
  from member_ref_minted [OF assms(1)] assms(2,3) have ref: "index < length ms"
    "ref = \<lparr>mr_type_name = name, mr_index = index, mr_generation = hash l\<rparr>" by auto
  have "length ms = length ms'" if "l = l'"
    using assms(3,5) that by (auto simp: layout_of_def)
  with ref assms(4-6) show ?thesis by (auto simp: member_ref_defs)
qed

subsection \<open>Where a key is not enough\<close>

definition image_of :: "type_value list \<Rightarrow> resolved_type" where
  "image_of vs = \<lparr>rt_types = \<lparr>tt_arena = \<lparr>arena_data = vs\<rparr>, tt_dedup = Map.empty\<rparr>, rt_root = 0\<rparr>"

definition plain_member :: "string \<Rightarrow> u64 \<Rightarrow> type_id \<Rightarrow> type_member" where
  "plain_member name off ty =
     \<lparr>tm_name = name, tm_bit_offset = off, tm_ty = ty, tm_bitfield_width = None, tm_repr = None\<rparr>"

definition sample_union :: resolved_type where
  "sample_union = image_of
     [\<lparr>tv_shape = TUnion (Some ''U'') [plain_member [] 0 1, plain_member [] 0 2], tv_size = Some 8\<rparr>,
      \<lparr>tv_shape = TStruct None [], tv_size = Some 8\<rparr>, \<lparr>tv_shape = TArray 1 2, tv_size = Some 4\<rparr>]"

definition sample_pointer :: "type_shape \<Rightarrow> resolved_type" where
  "sample_pointer target = image_of
     [\<lparr>tv_shape = TStruct (Some ''S'') [plain_member ''p'' 0 1], tv_size = Some 8\<rparr>,
      \<lparr>tv_shape = TPtr 2, tv_size = Some 8\<rparr>, \<lparr>tv_shape = target, tv_size = Some 4\<rparr>]"

lemmas member_eval = member_ref_defs type_members_def layout_of_def image_of_def plain_member_def
  key_of_member_def table_get_def arena_defs

text \<open>
  A reference to an unnamed member does not always select it: the second unnamed member of a
  union resolves, on the very layout it was minted on, to the key of the first.
\<close>

theorem union_refs_alias:
  "\<exists>first second. member_ref_at hash ''U'' (Some sample_union) 0 = Some (Inr first) \<and>
     member_ref_at hash ''U'' (Some sample_union) 1 = Some (Inr second) \<and>
     member_by_ref hash ''U'' (Some sample_union) first = Some (Inr (KOffset 0)) \<and>
     member_by_ref hash ''U'' (Some sample_union) second = Some (Inr (KOffset 0))"
  by (simp add: sample_union_def member_eval)

text \<open>
  A reference survives a change of its member's type: a pointer that comes to point to something
  else leaves the fingerprint as it was, where the documentation has any retyping invalidate it.
\<close>

theorem retyped_ref_survives:
  "\<exists>ref. member_ref_at hash ''S'' (Some (sample_pointer (TInt 4 True))) 0 = Some (Inr ref) \<and>
     member_by_ref hash ''S'' (Some (sample_pointer (TFloat 4))) ref = Some (Inr (KName ''p''))"
  by (simp add: sample_pointer_def member_eval)

lemma empty_name_call:
  assumes "key_parts key = (None, [], 0)"
  shows "member_call dbg checks tn key call =
    guarded_call (checks @ [nul_checked tn ''type name'', None]) (call tn [] 0) (edited dbg tn (Some key))"
  by (simp add: member_call_def assms)

text \<open>
  A member selected by the empty name is the one at bit offset zero: the two selections make the
  same call, so deleting the member named by the empty string deletes the first member of a structure.
\<close>

theorem empty_name_deletes_first:
  "snd (member_delete dbg tn (KName []) K db) = snd (member_delete dbg tn (KOffset 0) K db) \<and>
   (fst (member_delete dbg tn (KName []) K db) = Inr () \<longleftrightarrow> fst (member_delete dbg tn (KOffset 0) K db) = Inr ())"
proof -
  have parts: "key_parts (KName []) = (None, [], 0)" "key_parts (KOffset 0) = (None, [], 0)"
    by (simp_all add: nul_checked_def)
  show ?thesis
    unfolding member_delete_def empty_name_call [OF parts(1)] empty_name_call [OF parts(2)]
    by (cases "K (CallMemberDelete tn [] 0) db") (simp add: guarded_call_def edited_ok split: option.split)
qed

text \<open>A structure, and the same with one more member.\<close>

definition grown :: "bool \<Rightarrow> resolved_type" where
  "grown two = image_of
     [\<lparr>tv_shape = TStruct (Some ''S'') (plain_member ''a'' 0 1 # (if two then [plain_member ''b'' 32 1] else [])),
       tv_size = None\<rparr>, \<lparr>tv_shape = TInt 4 True, tv_size = Some 4\<rparr>]"

theorem member_ref_resolves_witness:
  "\<exists>ref. member_ref_at (\<lambda>l. of_nat (fst l)) ''S'' (Some (grown False)) 0 = Some (Inr ref) \<and>
     member_by_ref (\<lambda>l. of_nat (fst l)) ''S'' (Some (grown True)) ref = Some (Inl (StaleMemberRef ''S''))"
proof -
  obtain ref where ref: "member_ref_at (\<lambda>l. of_nat (fst l)) ''S'' (Some (grown False)) 0 = Some (Inr ref)"
    by (simp add: grown_def member_eval)
  show ?thesis
    using member_ref_resolves [OF ref, of "[plain_member ''a'' 0 1]" "(1, [(0, Some 4, 2)])" "grown True"
        "[plain_member ''a'' 0 1, plain_member ''b'' 32 1]" "(2, [(0, Some 4, 2), (32, Some 4, 2)])"] ref
    by (simp add: grown_def member_eval)
qed

subsection \<open>Messages\<close>

fun show_write_error :: "(string \<Rightarrow> string) \<Rightarrow> type_write_error \<Rightarrow> string" where
  "show_write_error dbg (NoType n) = ''no type named '' @ dbg n @ '' in the local type library''"
| "show_write_error dbg (NoMember t k) = ''no member '' @ k @ '' in type '' @ dbg t"
| "show_write_error dbg (MemberIndexOutOfRange t i n) =
     ''member index '' @ show_nat i @ '' out of range ('' @ show_nat n @ '' member(s)) in type '' @ dbg t"
| "show_write_error dbg (StaleMemberRef t) =
     ''member reference into '' @ dbg t @ '' is stale (the layout changed since it was minted)''"
| "show_write_error dbg (BuildFailed r) = ''could not build the type: '' @ r"
| "show_write_error dbg (Rejected t c) = ''editing '' @ dbg t @ '' was rejected: '' @ code_message c"
| "show_write_error dbg (UnknownCode t n) =
     ''editing '' @ dbg t @ '' returned an unmodeled type-edit code '' @
     (if n < 0 then ''-'' else []) @ show_nat (nat \<bar>n\<bar>)"
| "show_write_error dbg (TypeDefineFailed d r) = ''could not define type '' @ dbg d @ '': '' @ r"
| "show_write_error dbg (WriteFfi (InteriorNul arg)) = ''argument '' @ arg @ '' contains an interior NUL byte''"

end
