(* ===== verification/Location_Edit.thy ===== *)
theory Location_Edit
  imports Database_Session Type_Edit
begin

text \<open>
  \<open>location.rs\<close>, with \<open>FunctionEdit\<close> of \<open>function.rs\<close> and \<open>sig_result\<close> of \<open>function/signature.rs\<close>: the
  write cursor at an address. Each write is one call into the facade, the answer of which is decoded
  into an error; a write that succeeds widens what the cursor will evict from the decompiler's cache,
  and dropping the cursor evicts it once.

  The facade's writes are a parameter over a state of its own; the eviction at the end is asked of
  the kernel of \<open>Database_Session\<close>.
\<close>

subsection \<open>The facade\<close>

datatype location_write =
    WSetName u64 string u32
  | WSetCmt u64 string bool
  | WPatchBytes u64 "u8 list"
  | WApplyNamed u64 string
  | WApplyDecl u64 string
  | WApplyRecipe u64 "u8 list"
  | WApplyTinfo u64 nat
  | WClearType u64
  | WSetRettype u64 "u8 list"
  | WSetArgtype u64 nat "u8 list"
  | WRenameArg u64 nat string
  | WSetCc u64 int
  | WPrependThis u64 "u8 list"

text \<open>What a write answers: a flag, or a code with a reason and the arity of the prototype.\<close>

record write_answer =
  wa_ok :: bool
  wa_code :: u32
  wa_reason :: string
  wa_arity :: nat

type_synonym 'w writes = "location_write \<Rightarrow> 'w \<Rightarrow> write_answer \<times> 'w"

datatype type_apply_code = ApplyOk | ApplyErrInput | ApplyErrApply

definition type_apply_code_of :: "u32 \<Rightarrow> type_apply_code option" where
  "type_apply_code_of c =
     (if c = 0 then Some ApplyOk else if c = 1 then Some ApplyErrInput
      else if c = 2 then Some ApplyErrApply else None)"

datatype sig_write_code = SigOk | SigNoPrototype | SigArgRange | SigBuild | SigApply

definition sig_write_code_of :: "u32 \<Rightarrow> sig_write_code option" where
  "sig_write_code_of c =
     (if c = 0 then Some SigOk else if c = 1 then Some SigNoPrototype
      else if c = 2 then Some SigArgRange else if c = 3 then Some SigBuild
      else if c = 4 then Some SigApply else None)"

datatype location_error =
    LocFfi ffi_error
  | WriteRejected string u64 kernel_errno "string option"
  | LocNoType string
  | ParseFailed string string
  | LocBuildFailed string
  | ApplyRejected u64 string
  | NoPrototype u64
  | ArgIndexOutOfRange u64 nat nat

subsection \<open>Decoding an answer\<close>

definition sig_result ::
  "u32 \<Rightarrow> address \<Rightarrow> (nat \<times> nat) option \<Rightarrow> string \<Rightarrow> location_error + unit" where
  "sig_result code a arg reason =
     (case sig_write_code_of code of
        Some SigOk \<Rightarrow> Inr ()
      | Some SigNoPrototype \<Rightarrow> Inl (NoPrototype (address_get a))
      | Some SigArgRange \<Rightarrow>
          (let (index, arity) = (case arg of Some p \<Rightarrow> p | None \<Rightarrow> (0, 0))
           in Inl (ArgIndexOutOfRange (address_get a) index arity))
      | Some SigBuild \<Rightarrow>
          Inl (LocBuildFailed (reason_or reason ''an unknown named type or invalid declaration within it''))
      | Some SigApply \<Rightarrow>
          Inl (ApplyRejected (address_get a) (reason_or reason ''the kernel rejected the edited signature''))
      | None \<Rightarrow>
          Inl (ApplyRejected (address_get a) (reason_or reason
            (''the kernel rejected the edited signature (unexpected facade code '' @ show_i32 code @ '')''))))"

definition tinfo_apply_result :: "write_answer \<Rightarrow> address \<Rightarrow> location_error + unit" where
  "tinfo_apply_result r a =
     (case type_apply_code_of (wa_code r) of
        Some ApplyOk \<Rightarrow> Inr ()
      | _ \<Rightarrow> Inl (ApplyRejected (address_get a)
               (reason_or (wa_reason r) ''the kernel could not apply the built type'')))"

text \<open>\<open>apply_type_at\<close>: a named type, a declaration, or a recipe; \<open>dbg\<close> is the escaped form of a string.\<close>

definition apply_named ::
  "(string \<Rightarrow> string) \<Rightarrow> address \<Rightarrow> string \<Rightarrow> write_answer \<Rightarrow> location_error + unit" where
  "apply_named dbg a name r =
     (case type_apply_code_of (wa_code r) of
        Some ApplyOk \<Rightarrow> Inr ()
      | Some ApplyErrInput \<Rightarrow> Inl (LocNoType name)
      | _ \<Rightarrow> Inl (ApplyRejected (address_get a) (''the kernel rejected named type '' @ dbg name)))"

definition apply_decl :: "address \<Rightarrow> string \<Rightarrow> write_answer \<Rightarrow> location_error + unit" where
  "apply_decl a d r =
     (case type_apply_code_of (wa_code r) of
        Some ApplyOk \<Rightarrow> Inr ()
      | Some ApplyErrInput \<Rightarrow>
          Inl (ParseFailed d (reason_or (wa_reason r) ''the declaration is not valid''))
      | _ \<Rightarrow> Inl (ApplyRejected (address_get a)
               (reason_or (wa_reason r) ''the kernel could not apply the parsed type'')))"

definition apply_built :: "address \<Rightarrow> type_expr \<Rightarrow> write_answer \<Rightarrow> location_error + unit" where
  "apply_built a ty r =
     (case type_apply_code_of (wa_code r) of
        Some ApplyOk \<Rightarrow> Inr ()
      | Some ApplyErrInput \<Rightarrow>
          Inl (LocBuildFailed (reason_or (wa_reason r)
            (''could not build `'' @ show_type_expr ty @
             ''` (an unknown named type or invalid declaration within it)'')))
      | _ \<Rightarrow> Inl (ApplyRejected (address_get a) (reason_or (wa_reason r)
               (''the kernel could not apply the built type `'' @ show_type_expr ty @ ''`''))))"

definition apply_type_at ::
  "(string \<Rightarrow> string) \<Rightarrow> 'w writes \<Rightarrow> address \<Rightarrow> type_expr \<Rightarrow> 'w \<Rightarrow> (location_error + unit) \<times> 'w" where
  "apply_type_at dbg W a ty w =
     (case ty of
        TxNamed name \<Rightarrow>
          (case nul_checked name ''name'' of
             Some e \<Rightarrow> (Inl (LocFfi e), w)
           | None \<Rightarrow> apfst (apply_named dbg a name) (W (WApplyNamed (address_get a) name) w))
      | TxDecl d \<Rightarrow>
          (case nul_checked d ''decl'' of
             Some e \<Rightarrow> (Inl (LocFfi e), w)
           | None \<Rightarrow> apfst (apply_decl a d) (W (WApplyDecl (address_get a) d) w))
      | _ \<Rightarrow>
          (case checked_serialize ty of
             Inl e \<Rightarrow> (Inl (LocFfi e), w)
           | Inr recipe \<Rightarrow> apfst (apply_built a ty) (W (WApplyRecipe (address_get a) recipe) w)))"

subsection \<open>The cursor\<close>

text \<open>The derived order of \<open>PendingInvalidation\<close> is the order of declaration.\<close>

datatype pending_invalidation = PendNone | PendSelfOnly | PendDependents

primrec pending_rank :: "pending_invalidation \<Rightarrow> nat" where
  "pending_rank PendNone = 0"
| "pending_rank PendSelfOnly = 1"
| "pending_rank PendDependents = 2"

instantiation pending_invalidation :: linorder
begin

definition less_eq_pending_invalidation :: "pending_invalidation \<Rightarrow> pending_invalidation \<Rightarrow> bool" where
  "less_eq_pending_invalidation a b \<longleftrightarrow> pending_rank a \<le> pending_rank b"

definition less_pending_invalidation :: "pending_invalidation \<Rightarrow> pending_invalidation \<Rightarrow> bool" where
  "less_pending_invalidation a b \<longleftrightarrow> pending_rank a < pending_rank b"

instance
proof
  fix a b :: pending_invalidation
  show "a \<le> b \<Longrightarrow> b \<le> a \<Longrightarrow> a = b"
    by (cases a; cases b) (simp_all add: less_eq_pending_invalidation_def)
qed (auto simp: less_eq_pending_invalidation_def less_pending_invalidation_def)

end

record location_mut =
  lm_address :: address
  lm_auto :: bool
  lm_pending :: pending_invalidation

definition at_mut :: "address \<Rightarrow> location_mut" where
  "at_mut a = \<lparr>lm_address = a, lm_auto = True, lm_pending = PendNone\<rparr>"

definition auto_invalidate :: "bool \<Rightarrow> location_mut \<Rightarrow> location_mut" where
  "auto_invalidate on c = c\<lparr>lm_auto := on\<rparr>"

definition queue_invalidation :: "pending_invalidation \<Rightarrow> location_mut \<Rightarrow> location_mut" where
  "queue_invalidation level c = c\<lparr>lm_pending := max (lm_pending c) level\<rparr>"

definition queued ::
  "pending_invalidation \<Rightarrow> (location_error + unit) \<Rightarrow> location_mut \<Rightarrow> (location_error + unit) \<times> location_mut" where
  "queued level out c = (out, case out of Inr _ \<Rightarrow> queue_invalidation level c | Inl _ \<Rightarrow> c)"

text \<open>\<open>rejected\<close> reads the kernel's error code, which is part of the facade's state.\<close>

definition rejected :: "('w \<Rightarrow> answer) \<Rightarrow> string \<Rightarrow> address \<Rightarrow> 'w \<Rightarrow> location_error" where
  "rejected errno op a w =
     (let (code, reason) = last_reason (errno w) in WriteRejected op (address_get a) code reason)"

text \<open>
  A write on the cursor: the check of what is handed over, the call, its answer decoded in the state
  it leaves, and the level a success queues. Most operations below are instances of it.
\<close>

definition cursor_write ::
  "'w writes \<Rightarrow> (ffi_error + location_write) \<Rightarrow> (write_answer \<Rightarrow> 'w \<Rightarrow> location_error + unit)
    \<Rightarrow> pending_invalidation \<Rightarrow> location_mut \<times> 'w \<Rightarrow> (location_error + unit) \<times> location_mut \<times> 'w" where
  "cursor_write W req dec level s =
     (case req of
        Inl e \<Rightarrow> (Inl (LocFfi e), s)
      | Inr call \<Rightarrow>
          (let (r, w) = W call (snd s); (out, c) = queued level (dec r w) (fst s) in (out, c, w)))"

definition checked_arg :: "string \<Rightarrow> string \<Rightarrow> location_write \<Rightarrow> ffi_error + location_write" where
  "checked_arg s arg call = (case nul_checked s arg of Some e \<Rightarrow> Inl e | None \<Rightarrow> Inr call)"

definition ok_or ::
  "('w \<Rightarrow> answer) \<Rightarrow> string \<Rightarrow> address \<Rightarrow> write_answer \<Rightarrow> 'w \<Rightarrow> location_error + unit" where
  "ok_or errno op a r w = (if wa_ok r then Inr () else Inl (rejected errno op a w))"

definition rename_with ::
  "('w \<Rightarrow> answer) \<Rightarrow> 'w writes \<Rightarrow> string \<Rightarrow> u32 \<Rightarrow> location_mut \<times> 'w
    \<Rightarrow> (location_error + unit) \<times> location_mut \<times> 'w" where
  "rename_with errno W name flags s =
     cursor_write W
       (checked_arg name ''name'' (WSetName (address_get (lm_address (fst s))) name flags))
       (ok_or errno ''rename'' (lm_address (fst s))) PendDependents s"

definition rename ::
  "('w \<Rightarrow> answer) \<Rightarrow> 'w writes \<Rightarrow> string \<Rightarrow> location_mut \<times> 'w
    \<Rightarrow> (location_error + unit) \<times> location_mut \<times> 'w" where
  "rename errno W name s = rename_with errno W name 0 s"

text \<open>\<open>set_comment\<close> queues nothing.\<close>

definition set_comment ::
  "('w \<Rightarrow> answer) \<Rightarrow> 'w writes \<Rightarrow> string \<Rightarrow> bool \<Rightarrow> location_mut \<times> 'w
    \<Rightarrow> (location_error + unit) \<times> location_mut \<times> 'w" where
  "set_comment errno W txt repeatable s =
     (case checked_arg txt ''comment'' (WSetCmt (address_get (lm_address (fst s))) txt repeatable) of
        Inl e \<Rightarrow> (Inl (LocFfi e), s)
      | Inr call \<Rightarrow>
          (let (r, w) = W call (snd s)
           in (ok_or errno ''set_comment'' (lm_address (fst s)) r w, fst s, w)))"

definition patch ::
  "('w \<Rightarrow> answer) \<Rightarrow> 'w writes \<Rightarrow> u8 list \<Rightarrow> location_mut \<times> 'w
    \<Rightarrow> (location_error + unit) \<times> location_mut \<times> 'w" where
  "patch errno W bytes s =
     (if bytes = [] then (Inr (), s)
      else cursor_write W (Inr (WPatchBytes (address_get (lm_address (fst s))) bytes))
        (\<lambda>r w. if wa_ok r then Inr ()
           else let (code, reason) = last_reason (errno w)
             in Inl (WriteRejected ''patch'' (address_get (lm_address (fst s))) code
                  (Some (case reason of Some t \<Rightarrow> t | None \<Rightarrow> ''target range is not fully mapped''))))
        PendDependents s)"

definition set_type ::
  "(string \<Rightarrow> string) \<Rightarrow> 'w writes \<Rightarrow> type_expr \<Rightarrow> location_mut \<times> 'w
    \<Rightarrow> (location_error + unit) \<times> location_mut \<times> 'w" where
  "set_type dbg W ty s =
     (let (out, w) = apply_type_at dbg W (lm_address (fst s)) ty (snd s);
          (out, c) = queued PendDependents out (fst s)
      in (out, c, w))"

definition apply_type ::
  "'w writes \<Rightarrow> nat \<Rightarrow> location_mut \<times> 'w \<Rightarrow> (location_error + unit) \<times> location_mut \<times> 'w" where
  "apply_type W tinfo s =
     cursor_write W (Inr (WApplyTinfo (address_get (lm_address (fst s))) tinfo))
       (\<lambda>r _. tinfo_apply_result r (lm_address (fst s))) PendDependents s"

definition clear_type ::
  "('w \<Rightarrow> answer) \<Rightarrow> 'w writes \<Rightarrow> location_mut \<times> 'w
    \<Rightarrow> (location_error + unit) \<times> location_mut \<times> 'w" where
  "clear_type errno W s =
     cursor_write W (Inr (WClearType (address_get (lm_address (fst s)))))
       (\<lambda>r w. case type_apply_code_of (wa_code r) of
          Some ApplyOk \<Rightarrow> Inr ()
        | _ \<Rightarrow> Inl (rejected errno ''clear_type'' (lm_address (fst s)) w)) PendDependents s"

subsection \<open>Editing a function\<close>

definition recipe_arg :: "type_expr \<Rightarrow> (u8 list \<Rightarrow> location_write) \<Rightarrow> ffi_error + location_write" where
  "recipe_arg ty call = (case checked_serialize ty of Inl e \<Rightarrow> Inl e | Inr recipe \<Rightarrow> Inr (call recipe))"

definition decode_sig :: "address \<Rightarrow> nat option \<Rightarrow> write_answer \<Rightarrow> 'w \<Rightarrow> location_error + unit" where
  "decode_sig a index r w =
     sig_result (wa_code r) a (map_option (\<lambda>i. (i, wa_arity r)) index) (wa_reason r)"

definition set_return_type ::
  "'w writes \<Rightarrow> type_expr \<Rightarrow> location_mut \<times> 'w \<Rightarrow> (location_error + unit) \<times> location_mut \<times> 'w" where
  "set_return_type W ret s =
     (let entry = lm_address (fst s)
      in cursor_write W (recipe_arg ret (WSetRettype (address_get entry))) (decode_sig entry None)
           PendDependents s)"

definition set_arg_type ::
  "'w writes \<Rightarrow> nat \<Rightarrow> type_expr \<Rightarrow> location_mut \<times> 'w \<Rightarrow> (location_error + unit) \<times> location_mut \<times> 'w" where
  "set_arg_type W index ty s =
     (let entry = lm_address (fst s)
      in cursor_write W (recipe_arg ty (WSetArgtype (address_get entry) index))
           (decode_sig entry (Some index)) PendDependents s)"

definition rename_arg ::
  "'w writes \<Rightarrow> nat \<Rightarrow> string \<Rightarrow> location_mut \<times> 'w \<Rightarrow> (location_error + unit) \<times> location_mut \<times> 'w" where
  "rename_arg W index name s =
     (let entry = lm_address (fst s)
      in cursor_write W (checked_arg name ''name'' (WRenameArg (address_get entry) index name))
           (decode_sig entry (Some index)) PendSelfOnly s)"

definition set_calling_convention ::
  "'w writes \<Rightarrow> calling_convention \<Rightarrow> location_mut \<times> 'w \<Rightarrow> (location_error + unit) \<times> location_mut \<times> 'w" where
  "set_calling_convention W cc s =
     (let entry = lm_address (fst s)
      in cursor_write W (Inr (WSetCc (address_get entry) (uint (calling_convention_code cc))))
           (decode_sig entry None) PendDependents s)"

definition prepend_this ::
  "'w writes \<Rightarrow> type_expr \<Rightarrow> location_mut \<times> 'w \<Rightarrow> (location_error + unit) \<times> location_mut \<times> 'w" where
  "prepend_this W this s =
     (let entry = lm_address (fst s)
      in cursor_write W (recipe_arg this (WPrependThis (address_get entry))) (decode_sig entry None)
           PendDependents s)"

text \<open>\<open>function_mut\<close>: the cursor stands at the entry of the function covering the address.\<close>

definition function_mut :: "(u64 \<Rightarrow> u64) \<Rightarrow> address \<Rightarrow> location_mut option" where
  "function_mut func_start a = map_option at_mut (try_new (func_start (address_get a)))"

subsection \<open>A cursor from its acquisition to its drop\<close>

definition cursor_drop ::
  "kernel \<Rightarrow> (u64 \<Rightarrow> u64) \<Rightarrow> u64 list \<Rightarrow> location_mut \<Rightarrow> database \<Rightarrow> database" where
  "cursor_drop K func_start refs c db =
     (if \<not> lm_auto c then db
      else case lm_pending c of
             PendNone \<Rightarrow> db
           | PendSelfOnly \<Rightarrow> snd (invalidate_decompilation K (lm_address c) db)
           | PendDependents \<Rightarrow> invalidate_dependents K func_start refs (lm_address c) db)"

datatype cursor_op =
    EdRename string
  | EdRenameWith string u32
  | EdSetComment string bool
  | EdPatch "u8 list"
  | EdSetType type_expr
  | EdApplyType nat
  | EdClearType
  | EdSetReturnType type_expr
  | EdSetArgType nat type_expr
  | EdRenameArg nat string
  | EdSetCallingConvention calling_convention
  | EdPrependThis type_expr

primrec cursor_do ::
  "(string \<Rightarrow> string) \<Rightarrow> ('w \<Rightarrow> answer) \<Rightarrow> 'w writes \<Rightarrow> cursor_op \<Rightarrow> location_mut \<times> 'w
    \<Rightarrow> (location_error + unit) \<times> location_mut \<times> 'w" where
  "cursor_do dbg errno W (EdRename name) s = rename errno W name s"
| "cursor_do dbg errno W (EdRenameWith name flags) s = rename_with errno W name flags s"
| "cursor_do dbg errno W (EdSetComment txt rep) s = set_comment errno W txt rep s"
| "cursor_do dbg errno W (EdPatch bytes) s = patch errno W bytes s"
| "cursor_do dbg errno W (EdSetType ty) s = set_type dbg W ty s"
| "cursor_do dbg errno W (EdApplyType tinfo) s = apply_type W tinfo s"
| "cursor_do dbg errno W EdClearType s = clear_type errno W s"
| "cursor_do dbg errno W (EdSetReturnType ret) s = set_return_type W ret s"
| "cursor_do dbg errno W (EdSetArgType i ty) s = set_arg_type W i ty s"
| "cursor_do dbg errno W (EdRenameArg i name) s = rename_arg W i name s"
| "cursor_do dbg errno W (EdSetCallingConvention cc) s = set_calling_convention W cc s"
| "cursor_do dbg errno W (EdPrependThis this) s = prepend_this W this s"

fun cursor_run ::
  "(string \<Rightarrow> string) \<Rightarrow> ('w \<Rightarrow> answer) \<Rightarrow> 'w writes \<Rightarrow> cursor_op list \<Rightarrow> location_mut \<times> 'w
    \<Rightarrow> (location_error + unit) list \<times> location_mut \<times> 'w" where
  "cursor_run dbg errno W [] s = ([], s)"
| "cursor_run dbg errno W (op # ops) s =
     (let (out, s') = cursor_do dbg errno W op s;
          (outs, s'') = cursor_run dbg errno W ops s'
      in (out # outs, s''))"

text \<open>\<open>with_location_mut\<close> and \<open>with_function_mut\<close>: the cursor is dropped when the scope ends.\<close>

definition with_location_mut ::
  "(string \<Rightarrow> string) \<Rightarrow> ('w \<Rightarrow> answer) \<Rightarrow> 'w writes \<Rightarrow> kernel \<Rightarrow> (u64 \<Rightarrow> u64) \<Rightarrow> u64 list
    \<Rightarrow> location_mut \<Rightarrow> cursor_op list \<Rightarrow> 'w \<times> database \<Rightarrow> (location_error + unit) list \<times> 'w \<times> database" where
  "with_location_mut dbg errno W K func_start refs c ops st =
     (let (outs, c', w) = cursor_run dbg errno W ops (c, fst st)
      in (outs, w, cursor_drop K func_start refs c' (snd st)))"

subsection \<open>What a cursor evicts\<close>

text \<open>The level a write calls for: a comment and an empty patch change no pseudocode.\<close>

definition op_level :: "cursor_op \<Rightarrow> pending_invalidation" where
  "op_level op =
     (case op of
        EdSetComment _ _ \<Rightarrow> PendNone
      | EdPatch [] \<Rightarrow> PendNone
      | EdRenameArg _ _ \<Rightarrow> PendSelfOnly
      | _ \<Rightarrow> PendDependents)"

definition is_ok :: "'e + 'a \<Rightarrow> bool" where
  "is_ok r = (case r of Inr _ \<Rightarrow> True | Inl _ \<Rightarrow> False)"

definition succeeded_level :: "cursor_op list \<Rightarrow> (location_error + unit) list \<Rightarrow> pending_invalidation" where
  "succeeded_level ops outs =
     foldr max (map (\<lambda>(op, out). if is_ok out then op_level op else PendNone) (zip ops outs)) PendNone"

lemma PendNone_le [simp]: "PendNone \<le> l"
  by (simp add: less_eq_pending_invalidation_def)

lemma max_PendNone [simp]: "max l PendNone = l" "max PendNone l = (l :: pending_invalidation)"
  by (simp_all add: max_absorb1 max_absorb2)

lemmas cursor_ops = rename_def rename_with_def set_comment_def patch_def set_type_def apply_type_def
  clear_type_def set_return_type_def set_arg_type_def rename_arg_def set_calling_convention_def
  prepend_this_def

lemma cursor_write_level:
  "cursor_write W req dec level (c, w) = (out, c', w') \<Longrightarrow>
     c' = c\<lparr>lm_pending := max (lm_pending c) (if is_ok out then level else PendNone)\<rparr>"
  by (auto simp: cursor_write_def queued_def queue_invalidation_def is_ok_def Let_def
      split: sum.splits prod.splits)

lemma cursor_do_level:
  assumes "cursor_do dbg errno W op (c, w) = (out, c', w')"
  shows "c' = c\<lparr>lm_pending := max (lm_pending c) (if is_ok out then op_level op else PendNone)\<rparr>"
  using assms
  by (cases op)
    (auto simp: cursor_ops op_level_def Let_def is_ok_def queued_def queue_invalidation_def
      dest!: cursor_write_level split: sum.splits prod.splits list.splits if_splits)

lemma cursor_run_level:
  "cursor_run dbg errno W ops (c, w) = (outs, c', w') \<Longrightarrow>
     c' = c\<lparr>lm_pending := max (lm_pending c) (succeeded_level ops outs)\<rparr>"
proof (induction ops arbitrary: c w outs c' w')
  case Nil
  then show ?case by (simp add: succeeded_level_def)
next
  case (Cons op ops)
  obtain out c1 w1 where one: "cursor_do dbg errno W op (c, w) = (out, c1, w1)" by (metis prod_cases3)
  obtain outs' c2 w2 where rest: "cursor_run dbg errno W ops (c1, w1) = (outs', c2, w2)"
    by (metis prod_cases3)
  from Cons.prems one rest have outs: "outs = out # outs'" "c' = c2" by simp_all
  from Cons.IH [OF rest] cursor_do_level [OF one] show ?case
    by (simp add: outs succeeded_level_def max.assoc)
qed


lemma invalidate_history:
  assumes "db_hexrays db"
  shows "map fst (db_history (snd (invalidate_decompilation K a db))) =
    map fst (db_history db) @ [KDirty (address_get a)]"
  using assms by (simp add: invalidate_decompilation_def ask_defs)

definition evicted :: "(u64 \<Rightarrow> u64) \<Rightarrow> u64 list \<Rightarrow> address \<Rightarrow> pending_invalidation \<Rightarrow> address set" where
  "evicted func_start refs a level =
     (case level of
        PendNone \<Rightarrow> {}
      | PendSelfOnly \<Rightarrow> {a}
      | PendDependents \<Rightarrow> insert a {f. \<exists>x \<in> set refs. try_new (func_start x) = Some f})"

lemma cursor_drop_history:
  assumes "db_hexrays db"
  shows "\<exists>as. map fst (db_history (cursor_drop K fs refs c db)) =
      map fst (db_history db) @ map (\<lambda>a. KDirty (address_get a)) as \<and> distinct as \<and>
    set as = (if lm_auto c then evicted fs refs (lm_address c) (lm_pending c) else {})"
proof (cases "lm_auto c")
  case True
  show ?thesis
  proof (cases "lm_pending c")
    case PendNone
    then show ?thesis by (intro exI [of _ "[]"]) (simp add: cursor_drop_def evicted_def)
  next
    case PendSelfOnly
    with True show ?thesis
      by (intro exI [of _ "[lm_address c]"])
        (simp add: cursor_drop_def evicted_def invalidate_history [OF assms])
  next
    case PendDependents
    with True dependents_history [OF assms, of K fs refs "lm_address c"] show ?thesis
      by (simp add: cursor_drop_def evicted_def)
  qed
qed (simp add: cursor_drop_def)

text \<open>
  C15: whatever writes go through a cursor and however many, its drop evicts each decompiled function
  at most once, and exactly the ones the writes that succeeded call for: none after failures,
  comments or a bulk edit that opted out; the function alone after renamed parameters; otherwise the
  function and every function that refers to it.
\<close>

theorem cursor_evicts_once:
  assumes "db_hexrays db" and "lm_pending c = PendNone"
    and "with_location_mut dbg errno W K fs refs c ops (w, db) = (outs, w', db')"
  shows "\<exists>as. map fst (db_history db') = map fst (db_history db) @ map (\<lambda>a. KDirty (address_get a)) as \<and>
    distinct as \<and>
    set as = (if lm_auto c then evicted fs refs (lm_address c) (succeeded_level ops outs) else {})"
proof -
  obtain outs1 c1 w1 where run: "cursor_run dbg errno W ops (c, w) = (outs1, c1, w1)" by (metis prod_cases3)
  with assms(3) have out: "outs1 = outs" "db' = cursor_drop K fs refs c1 db"
    by (simp_all add: with_location_mut_def)
  from cursor_run_level [OF run] assms(2) have c1: "lm_auto c1 = lm_auto c"
    "lm_address c1 = lm_address c" "lm_pending c1 = succeeded_level ops outs"
    unfolding out by simp_all
  show ?thesis
    using cursor_drop_history [OF assms(1), of K fs refs c1] unfolding out c1 .
qed

definition willing_writes :: "nat writes" where
  "willing_writes call n =
     (\<lparr>wa_ok = (n \<noteq> 1), wa_code = 0, wa_reason = [], wa_arity = 2\<rparr>, n + 1)"

definition calm :: "nat \<Rightarrow> answer" where
  "calm _ = \<lparr>an_outcome = Returned 0, an_text = [], an_errno = 0, an_strerror = []\<rparr>"

theorem cursor_evicts_once_witness:
  "\<exists>as. map fst (db_history (snd (snd (with_location_mut (\<lambda>s. s) calm willing_writes willing_kernel
      (\<lambda>x. 0x1000) [7, 8] (at_mut sample_entry)
      [EdRenameArg 0 ''n'', EdRename ''taken'', EdSetComment ''c'' False]
      (0, (database_new True)\<lparr>db_hexrays := True\<rparr>))))) = map (\<lambda>a. KDirty (address_get a)) as \<and>
    distinct as \<and> set as = {sample_entry}"
proof -
  let ?run = "with_location_mut (\<lambda>s. s) calm willing_writes willing_kernel (\<lambda>x. 0x1000) [7, 8]
    (at_mut sample_entry) [EdRenameArg 0 ''n'', EdRename ''taken'', EdSetComment ''c'' False]
    (0, (database_new True)\<lparr>db_hexrays := True\<rparr>)"
  have outs: "map is_ok (fst ?run) = [True, False, True]"
    by (simp add: with_location_mut_def cursor_ops cursor_write_def checked_arg_def nul_checked_def
        willing_writes_def queued_def ok_or_def decode_sig_def sig_result_def sig_write_code_of_def
        rejected_def is_ok_def at_mut_def Let_def last_reason_def calm_def errno_from_code_def)
  then obtain x y z where "fst ?run = [x, y, z]" "is_ok x" "\<not> is_ok y" "is_ok z"
    by (auto simp: map_eq_Cons_conv)
  then have "succeeded_level [EdRenameArg 0 ''n'', EdRename ''taken'', EdSetComment ''c'' False]
      (fst ?run) = PendSelfOnly"
    by (simp add: succeeded_level_def op_level_def)
  moreover obtain outs w' db' where run: "?run = (outs, w', db')" by (metis prod_cases3)
  moreover have "db_hexrays ((database_new True)\<lparr>db_hexrays := True\<rparr>)" by simp
  moreover have "lm_pending (at_mut sample_entry) = PendNone" by (simp add: at_mut_def)
  ultimately show ?thesis
    using cursor_evicts_once [OF _ _ run] by (simp add: evicted_def at_mut_def database_new_def)
qed

subsection \<open>What reaches the facade\<close>

text \<open>A facade that records its calls.\<close>

definition recording :: "(location_write list \<Rightarrow> location_write \<Rightarrow> write_answer) \<Rightarrow> location_write list writes" where
  "recording f call log = (f log call, log @ [call])"

primrec write_target :: "location_write \<Rightarrow> u64" where
  "write_target (WSetName a name flags) = a"
| "write_target (WSetCmt a t rep) = a"
| "write_target (WPatchBytes a bytes) = a"
| "write_target (WApplyNamed a name) = a"
| "write_target (WApplyDecl a t) = a"
| "write_target (WApplyRecipe a recipe) = a"
| "write_target (WApplyTinfo a t) = a"
| "write_target (WClearType a) = a"
| "write_target (WSetRettype a recipe) = a"
| "write_target (WSetArgtype a i recipe) = a"
| "write_target (WRenameArg a i name) = a"
| "write_target (WSetCc a cc) = a"
| "write_target (WPrependThis a recipe) = a"

abbreviation "no_nul s \<equiv> CHR 0x00 \<notin> set s"

definition checked_recipe :: "u8 list \<Rightarrow> bool" where
  "checked_recipe recipe \<longleftrightarrow> (\<exists>ty. check ty = None \<and> recipe = serialize ty)"

definition clean_write :: "location_write \<Rightarrow> bool" where
  "clean_write call =
     (case call of
        WSetName _ name _ \<Rightarrow> no_nul name
      | WSetCmt _ t _ \<Rightarrow> no_nul t
      | WPatchBytes _ bytes \<Rightarrow> bytes \<noteq> []
      | WApplyNamed _ name \<Rightarrow> no_nul name
      | WApplyDecl _ t \<Rightarrow> no_nul t
      | WApplyRecipe _ recipe \<Rightarrow> checked_recipe recipe
      | WSetRettype _ recipe \<Rightarrow> checked_recipe recipe
      | WSetArgtype _ _ recipe \<Rightarrow> checked_recipe recipe
      | WRenameArg _ _ name \<Rightarrow> no_nul name
      | WPrependThis _ recipe \<Rightarrow> checked_recipe recipe
      | _ \<Rightarrow> True)"

definition one_facade_call :: "address \<Rightarrow> (location_error + unit) \<Rightarrow> location_write list \<Rightarrow> bool" where
  "one_facade_call a out new \<longleftrightarrow>
     length new \<le> 1 \<and> list_all (\<lambda>call. write_target call = address_get a \<and> clean_write call) new \<and>
     (new = [] \<longrightarrow> (\<exists>e. out = Inl (LocFfi e)))"

lemma cursor_write_calls:
  assumes "cursor_write (recording f) req dec level (c, log) = (out, c', log')"
    and "\<And>call. req = Inr call \<Longrightarrow> write_target call = address_get (lm_address c) \<and> clean_write call"
  shows "\<exists>new. log' = log @ new \<and> one_facade_call (lm_address c) out new"
  using assms
  by (cases req) (auto simp: cursor_write_def recording_def Let_def one_facade_call_def split: prod.splits)

lemma checked_arg_clean: "checked_arg s arg call = Inr call' \<Longrightarrow> call' = call \<and> no_nul s"
  by (auto simp: checked_arg_def nul_checked_def split: if_splits)

lemma recipe_arg_clean: "recipe_arg ty call = Inr call' \<Longrightarrow> \<exists>recipe. call' = call recipe \<and> checked_recipe recipe"
  by (auto simp: recipe_arg_def checked_serialize_def checked_recipe_def split: option.splits sum.splits)

lemma serialized_checked: "checked_serialize ty = Inr recipe \<Longrightarrow> checked_recipe recipe"
  by (auto simp: checked_serialize_def checked_recipe_def split: option.splits)

lemma set_type_calls:
  assumes "set_type dbg (recording f) ty (c, log) = (out, c', log')"
  shows "\<exists>new. log' = log @ new \<and> one_facade_call (lm_address c) out new"
proof -
  obtain out1 w1 where one: "apply_type_at dbg (recording f) (lm_address c) ty log = (out1, w1)"
    by (metis surj_pair)
  have "\<exists>new. w1 = log @ new \<and> one_facade_call (lm_address c) out1 new"
    using one
    by (cases ty)
      (auto simp: apply_type_at_def recording_def one_facade_call_def clean_write_def nul_checked_def
        dest: serialized_checked split: sum.splits if_splits)
  with assms one show ?thesis by (auto simp: set_type_def queued_def Let_def)
qed

text \<open>
  Every write, an empty patch apart, is one call of the facade at the cursor's own address with
  texts free of NUL and recipes of checked types, or no call and the error of the check that refused
  it: a write never reports success without having reached the kernel.
\<close>

theorem edit_reaches_facade_once:
  assumes "cursor_do dbg errno (recording f) op (c, log) = (out, c', log')" and "op \<noteq> EdPatch []"
  shows "\<exists>new. log' = log @ new \<and> one_facade_call (lm_address c) out new"
proof -
  have by_write: "\<exists>new. log' = log @ new \<and> one_facade_call (lm_address c) out new"
    if "cursor_do dbg errno (recording f) op (c, log) = cursor_write (recording f) req dec level (c, log)"
      and "\<And>call. req = Inr call \<Longrightarrow> write_target call = address_get (lm_address c) \<and> clean_write call"
    for req dec level
    using cursor_write_calls [OF _ that(2)] assms(1) that(1) by metis
  show ?thesis
  proof (cases op)
    case (EdSetComment t rep)
    with assms(1) show ?thesis
      by (auto simp: set_comment_def recording_def one_facade_call_def clean_write_def Let_def
          dest!: checked_arg_clean split: sum.splits prod.splits)
  next
    case (EdSetType ty)
    with assms(1) set_type_calls show ?thesis by simp
  qed (insert assms(2), (rule by_write, simp add: cursor_ops Let_def,
      fastforce simp: clean_write_def dest: checked_arg_clean recipe_arg_clean)+)
qed


theorem edit_reaches_facade_once_witness:
  "\<exists>new. snd (snd (cursor_do (\<lambda>s. s) (\<lambda>_. calm 0) (recording (\<lambda>_ _. fst (willing_writes (WClearType 0) 0)))
      (EdRename ''main'') (at_mut sample_entry, []))) = [] @ new \<and>
    one_facade_call sample_entry (fst (cursor_do (\<lambda>s. s) (\<lambda>_. calm 0)
      (recording (\<lambda>_ _. fst (willing_writes (WClearType 0) 0))) (EdRename ''main'') (at_mut sample_entry, []))) new"
proof -
  let ?r = "cursor_do (\<lambda>s. s) (\<lambda>_. calm 0) (recording (\<lambda>_ _. fst (willing_writes (WClearType 0) 0)))
    (EdRename ''main'') (at_mut sample_entry, [])"
  obtain out c' log' where r: "?r = (out, c', log')" by (metis prod_cases3)
  from edit_reaches_facade_once [OF r] have "\<exists>new. log' = [] @ new \<and> one_facade_call sample_entry out new"
    by (simp add: at_mut_def)
  then show ?thesis unfolding r fst_conv snd_conv .
qed

end
