(* ===== verification/Netnode.thy ===== *)
theory Netnode
  imports Database_Session Iterator "HOL-Library.Word"
begin

unbundle bit_operations_syntax

text \<open>
  \<open>netnode/\<close>: the persistent store of a database, with the facade's bodies
  (\<open>domains/netnode.rs\<close>, \<open>facade/netnode.cpp\<close>) between it and the kernel. What the kernel stores is a
  parameter, \<open>netnode_kernel\<close>, over a state of its own; the facade's guards, the truncation of a key
  at its first NUL and the clamping of a read are written out.
\<close>

subsection \<open>Node ids, tags and values\<close>

definition BADNODE :: u64 where
  "BADNODE = - 1"

datatype node_id = NodeId (nid_niche: u64)

definition node_id_try_new :: "u64 \<Rightarrow> node_id option" where
  "node_id_try_new raw = (if NOT raw = 0 then None else Some (NodeId (NOT raw)))"

definition node_id_get :: "node_id \<Rightarrow> u64" where
  "node_id_get i = NOT (nid_niche i)"

definition node_id_cmp_le :: "node_id \<Rightarrow> node_id \<Rightarrow> bool" where
  "node_id_cmp_le a b \<longleftrightarrow> node_id_get a \<le> node_id_get b"

definition serialize_node_id :: "node_id \<Rightarrow> u64" where
  "serialize_node_id i = node_id_get i"

definition deserialize_node_id :: "u64 \<Rightarrow> string + node_id" where
  "deserialize_node_id raw =
     (case node_id_try_new raw of
        Some i \<Rightarrow> Inr i
      | None \<Rightarrow> Inl ''node id is the BADNODE sentinel'')"

datatype tag = Tag (tag_get: u8)

definition TAG_ALTVAL :: tag where "TAG_ALTVAL = Tag 65"
definition TAG_SUPVAL :: tag where "TAG_SUPVAL = Tag 83"
definition TAG_HASH :: tag where "TAG_HASH = Tag 72"
definition TAG_BLOB :: tag where "TAG_BLOB = Tag 66"

definition tag_raw :: "tag \<Rightarrow> u32" where
  "tag_raw t = ucast (tag_get t)"

definition MAX_SIZE :: nat where
  "MAX_SIZE = 1024"

datatype netnode_bytes_error = EmptyBytes | TooLarge nat nat

definition netnode_bytes :: "u8 list \<Rightarrow> netnode_bytes_error + u8 list" where
  "netnode_bytes value =
     (if length value = 0 then Inl EmptyBytes
      else if length value > MAX_SIZE then Inl (TooLarge (length value) MAX_SIZE)
      else Inr value)"

subsection \<open>The kernel and the facade\<close>

record 'w netnode_kernel =
  nk_by_name :: "string \<Rightarrow> bool \<Rightarrow> 'w \<Rightarrow> u64 \<times> 'w"
  nk_name :: "u64 \<Rightarrow> 'w \<Rightarrow> string option"
  nk_exists :: "u64 \<Rightarrow> 'w \<Rightarrow> bool"
  nk_rename :: "u64 \<Rightarrow> string \<Rightarrow> 'w \<Rightarrow> bool \<times> 'w"
  nk_kill :: "u64 \<Rightarrow> 'w \<Rightarrow> 'w"
  nk_first :: "'w \<Rightarrow> u64"
  nk_next :: "u64 \<Rightarrow> 'w \<Rightarrow> u64"
  nk_value :: "u64 \<Rightarrow> 'w \<Rightarrow> u8 list option"
  nk_set :: "u64 \<Rightarrow> u8 list \<Rightarrow> 'w \<Rightarrow> bool \<times> 'w"
  nk_delvalue :: "u64 \<Rightarrow> 'w \<Rightarrow> bool \<times> 'w"
  nk_altval :: "u64 \<Rightarrow> u64 \<Rightarrow> u8 \<Rightarrow> 'w \<Rightarrow> u64"
  nk_altset :: "u64 \<Rightarrow> u64 \<Rightarrow> u64 \<Rightarrow> u8 \<Rightarrow> 'w \<Rightarrow> bool \<times> 'w"
  nk_altdel :: "u64 \<Rightarrow> u64 \<Rightarrow> u8 \<Rightarrow> 'w \<Rightarrow> bool \<times> 'w"
  nk_altdel_all :: "u64 \<Rightarrow> u8 \<Rightarrow> 'w \<Rightarrow> bool \<times> 'w"
  nk_altfirst :: "u64 \<Rightarrow> u8 \<Rightarrow> 'w \<Rightarrow> u64"
  nk_altnext :: "u64 \<Rightarrow> u64 \<Rightarrow> u8 \<Rightarrow> 'w \<Rightarrow> u64"
  nk_supval :: "u64 \<Rightarrow> u64 \<Rightarrow> u8 \<Rightarrow> 'w \<Rightarrow> u8 list option"
  nk_supset :: "u64 \<Rightarrow> u64 \<Rightarrow> u8 list \<Rightarrow> u8 \<Rightarrow> 'w \<Rightarrow> bool \<times> 'w"
  nk_supdel :: "u64 \<Rightarrow> u64 \<Rightarrow> u8 \<Rightarrow> 'w \<Rightarrow> bool \<times> 'w"
  nk_supdel_all :: "u64 \<Rightarrow> u8 \<Rightarrow> 'w \<Rightarrow> bool \<times> 'w"
  nk_supfirst :: "u64 \<Rightarrow> u8 \<Rightarrow> 'w \<Rightarrow> u64"
  nk_supnext :: "u64 \<Rightarrow> u64 \<Rightarrow> u8 \<Rightarrow> 'w \<Rightarrow> u64"
  nk_hashval :: "u64 \<Rightarrow> string \<Rightarrow> u8 \<Rightarrow> 'w \<Rightarrow> u8 list option"
  nk_hashval_long :: "u64 \<Rightarrow> string \<Rightarrow> u8 \<Rightarrow> 'w \<Rightarrow> u64"
  nk_hashset :: "u64 \<Rightarrow> string \<Rightarrow> u8 list \<Rightarrow> u8 \<Rightarrow> 'w \<Rightarrow> bool \<times> 'w"
  nk_hashset_long :: "u64 \<Rightarrow> string \<Rightarrow> u64 \<Rightarrow> u8 \<Rightarrow> 'w \<Rightarrow> bool \<times> 'w"
  nk_hashdel :: "u64 \<Rightarrow> string \<Rightarrow> u8 \<Rightarrow> 'w \<Rightarrow> bool \<times> 'w"
  nk_hashdel_all :: "u64 \<Rightarrow> u8 \<Rightarrow> 'w \<Rightarrow> bool \<times> 'w"
  nk_hashfirst :: "u64 \<Rightarrow> u8 \<Rightarrow> 'w \<Rightarrow> string option"
  nk_hashnext :: "u64 \<Rightarrow> string \<Rightarrow> u8 \<Rightarrow> 'w \<Rightarrow> string option"
  nk_blobsize :: "u64 \<Rightarrow> u64 \<Rightarrow> u8 \<Rightarrow> 'w \<Rightarrow> nat"
  nk_getblob :: "u64 \<Rightarrow> u64 \<Rightarrow> u8 \<Rightarrow> 'w \<Rightarrow> u8 list option"
  nk_setblob :: "u64 \<Rightarrow> u8 list \<Rightarrow> u64 \<Rightarrow> u8 \<Rightarrow> 'w \<Rightarrow> bool \<times> 'w"
  nk_delblob :: "u64 \<Rightarrow> u64 \<Rightarrow> u8 \<Rightarrow> 'w \<Rightarrow> int \<times> 'w"
  nk_errno :: "'w \<Rightarrow> answer"

text \<open>A tag reaches the kernel as the low byte of its 32-bit form.\<close>

abbreviation utag :: "tag \<Rightarrow> u8" where
  "utag t \<equiv> ucast (tag_raw t)"

text \<open>
  What a read copies out of its buffer, what a write of bytes is refused, and the key as the C string
  the kernel gets.
\<close>

definition clamped_bytes :: "u8 list option \<Rightarrow> u8 list option" where
  "clamped_bytes stored = map_option (take MAX_SIZE) stored"

definition byte_guards :: "u8 list \<Rightarrow> bool" where
  "byte_guards value \<longleftrightarrow> value \<noteq> [] \<and> length value \<le> MAX_SIZE"

definition f_hashval :: "'w netnode_kernel \<Rightarrow> u64 \<Rightarrow> string \<Rightarrow> tag \<Rightarrow> 'w \<Rightarrow> u8 list option" where
  "f_hashval K node key t w = clamped_bytes (nk_hashval K node (c_str key) (utag t) w)"

definition f_hashset :: "'w netnode_kernel \<Rightarrow> u64 \<Rightarrow> string \<Rightarrow> u8 list \<Rightarrow> tag \<Rightarrow> 'w \<Rightarrow> bool \<times> 'w" where
  "f_hashset K node key value t w =
     (if byte_guards value then nk_hashset K node (c_str key) value (utag t) w else (False, w))"

definition f_supval :: "'w netnode_kernel \<Rightarrow> u64 \<Rightarrow> u64 \<Rightarrow> tag \<Rightarrow> 'w \<Rightarrow> u8 list option" where
  "f_supval K node i t w = clamped_bytes (nk_supval K node i (utag t) w)"

definition f_supset :: "'w netnode_kernel \<Rightarrow> u64 \<Rightarrow> u64 \<Rightarrow> u8 list \<Rightarrow> tag \<Rightarrow> 'w \<Rightarrow> bool \<times> 'w" where
  "f_supset K node i value t w =
     (if byte_guards value then nk_supset K node i value (utag t) w else (False, w))"

definition f_value :: "'w netnode_kernel \<Rightarrow> u64 \<Rightarrow> 'w \<Rightarrow> u8 list option" where
  "f_value K node w = clamped_bytes (nk_value K node w)"

definition f_set_value :: "'w netnode_kernel \<Rightarrow> u64 \<Rightarrow> u8 list \<Rightarrow> 'w \<Rightarrow> bool \<times> 'w" where
  "f_set_value K node value w = (if byte_guards value then nk_set K node value w else (False, w))"

subsection \<open>Reading a node\<close>

definition netnode :: "'w netnode_kernel \<Rightarrow> string \<Rightarrow> 'w \<Rightarrow> node_id option" where
  "netnode K name w = node_id_try_new (fst (nk_by_name K name False w))"

definition netnode_mut :: "'w netnode_kernel \<Rightarrow> string \<Rightarrow> 'w \<Rightarrow> (node_id \<times> 'w) option" where
  "netnode_mut K name w =
     (let (raw, w') = nk_by_name K name True w in map_option (\<lambda>i. (i, w')) (node_id_try_new raw))"

definition nn_name :: "'w netnode_kernel \<Rightarrow> node_id \<Rightarrow> 'w \<Rightarrow> string option" where
  "nn_name K i w = nk_name K (node_id_get i) w"

definition nn_exists :: "'w netnode_kernel \<Rightarrow> node_id \<Rightarrow> 'w \<Rightarrow> bool" where
  "nn_exists K i w = nk_exists K (node_id_get i) w"

definition nn_value :: "'w netnode_kernel \<Rightarrow> node_id \<Rightarrow> 'w \<Rightarrow> u8 list option" where
  "nn_value K i w = f_value K (node_id_get i) w"

definition nn_altval :: "'w netnode_kernel \<Rightarrow> node_id \<Rightarrow> u64 \<Rightarrow> 'w \<Rightarrow> u64" where
  "nn_altval K i index w = nk_altval K (node_id_get i) index (utag TAG_ALTVAL) w"

definition nn_supval :: "'w netnode_kernel \<Rightarrow> node_id \<Rightarrow> u64 \<Rightarrow> 'w \<Rightarrow> u8 list option" where
  "nn_supval K i index w = f_supval K (node_id_get i) index TAG_SUPVAL w"

definition nn_hash :: "'w netnode_kernel \<Rightarrow> node_id \<Rightarrow> string \<Rightarrow> 'w \<Rightarrow> u8 list option" where
  "nn_hash K i key w = f_hashval K (node_id_get i) key TAG_HASH w"

definition nn_hash_integer :: "'w netnode_kernel \<Rightarrow> node_id \<Rightarrow> string \<Rightarrow> 'w \<Rightarrow> u64" where
  "nn_hash_integer K i key w = nk_hashval_long K (node_id_get i) (c_str key) (utag TAG_HASH) w"

definition nn_blob :: "'w netnode_kernel \<Rightarrow> node_id \<Rightarrow> 'w \<Rightarrow> u8 list option" where
  "nn_blob K i w = nk_getblob K (node_id_get i) 0 (utag TAG_BLOB) w"

definition nn_blob_size :: "'w netnode_kernel \<Rightarrow> node_id \<Rightarrow> 'w \<Rightarrow> nat" where
  "nn_blob_size K i w = nk_blobsize K (node_id_get i) 0 (utag TAG_BLOB) w"

definition nn_contains :: "'w netnode_kernel \<Rightarrow> node_id \<Rightarrow> string \<Rightarrow> 'w \<Rightarrow> bool" where
  "nn_contains K i key w \<longleftrightarrow> nn_hash K i key w \<noteq> None"

text \<open>\<open>get\<close>, given how \<open>Persist\<close> decodes the type asked for.\<close>

definition nn_get ::
  "(u8 list \<Rightarrow> 'a option) \<Rightarrow> 'w netnode_kernel \<Rightarrow> node_id \<Rightarrow> string \<Rightarrow> 'w \<Rightarrow> 'a option" where
  "nn_get from_bytes K i key w = Option.bind (nn_hash K i key w) from_bytes"

subsection \<open>Writing a node\<close>

datatype netnode_error =
    NnRejected string u64 kernel_errno "string option"
  | InvalidNetnodeBytes netnode_bytes_error

definition nn_rejected :: "'w netnode_kernel \<Rightarrow> u64 \<Rightarrow> string \<Rightarrow> 'w \<Rightarrow> netnode_error" where
  "nn_rejected K a op w =
     (let (code, reason) = last_reason (nk_errno K w) in NnRejected op a code reason)"

definition nn_checked ::
  "'w netnode_kernel \<Rightarrow> node_id \<Rightarrow> string \<Rightarrow> bool \<times> 'w \<Rightarrow> (netnode_error + unit) \<times> 'w" where
  "nn_checked K i op r =
     (if fst r then Inr () else Inl (nn_rejected K (node_id_get i) op (snd r)), snd r)"

definition set_altval ::
  "'w netnode_kernel \<Rightarrow> node_id \<Rightarrow> u64 \<Rightarrow> u64 \<Rightarrow> 'w \<Rightarrow> (netnode_error + unit) \<times> 'w" where
  "set_altval K i index value w =
     nn_checked K i ''set_altval'' (nk_altset K (node_id_get i) index value (utag TAG_ALTVAL) w)"

definition set_hash_integer ::
  "'w netnode_kernel \<Rightarrow> node_id \<Rightarrow> string \<Rightarrow> u64 \<Rightarrow> 'w \<Rightarrow> (netnode_error + unit) \<times> 'w" where
  "set_hash_integer K i key value w =
     nn_checked K i ''set_hash_integer''
       (nk_hashset_long K (node_id_get i) (c_str key) value (utag TAG_HASH) w)"

definition set_blob ::
  "'w netnode_kernel \<Rightarrow> node_id \<Rightarrow> u8 list \<Rightarrow> 'w \<Rightarrow> (netnode_error + unit) \<times> 'w" where
  "set_blob K i value w =
     nn_checked K i ''set_blob'' (nk_setblob K (node_id_get i) value 0 (utag TAG_BLOB) w)"

definition nn_rename ::
  "'w netnode_kernel \<Rightarrow> node_id \<Rightarrow> string \<Rightarrow> 'w \<Rightarrow> (netnode_error + unit) \<times> 'w" where
  "nn_rename K i name w = nn_checked K i ''rename'' (nk_rename K (node_id_get i) name w)"

text \<open>A setter of bytes converts its argument first.\<close>

definition with_bytes ::
  "u8 list \<Rightarrow> (u8 list \<Rightarrow> 'w \<Rightarrow> (netnode_error + unit) \<times> 'w) \<Rightarrow> 'w \<Rightarrow> (netnode_error + unit) \<times> 'w" where
  "with_bytes value f w =
     (case netnode_bytes value of Inl e \<Rightarrow> (Inl (InvalidNetnodeBytes e), w) | Inr bytes \<Rightarrow> f bytes w)"

definition set_value ::
  "'w netnode_kernel \<Rightarrow> node_id \<Rightarrow> u8 list \<Rightarrow> 'w \<Rightarrow> (netnode_error + unit) \<times> 'w" where
  "set_value K i value =
     with_bytes value (\<lambda>bytes w. nn_checked K i ''set_value'' (f_set_value K (node_id_get i) bytes w))"

definition set_supval ::
  "'w netnode_kernel \<Rightarrow> node_id \<Rightarrow> u64 \<Rightarrow> u8 list \<Rightarrow> 'w \<Rightarrow> (netnode_error + unit) \<times> 'w" where
  "set_supval K i index value =
     with_bytes value (\<lambda>bytes w.
       nn_checked K i ''set_supval'' (f_supset K (node_id_get i) index bytes TAG_SUPVAL w))"

definition set_hash ::
  "'w netnode_kernel \<Rightarrow> node_id \<Rightarrow> string \<Rightarrow> u8 list \<Rightarrow> 'w \<Rightarrow> (netnode_error + unit) \<times> 'w" where
  "set_hash K i key value =
     with_bytes value (\<lambda>bytes w.
       nn_checked K i ''set_hash'' (f_hashset K (node_id_get i) key bytes TAG_HASH w))"

definition nn_put ::
  "('a \<Rightarrow> u8 list) \<Rightarrow> 'w netnode_kernel \<Rightarrow> node_id \<Rightarrow> string \<Rightarrow> 'a \<Rightarrow> 'w \<Rightarrow> (netnode_error + unit) \<times> 'w" where
  "nn_put to_bytes K i key value = set_hash K i key (to_bytes value)"

definition clear_value :: "'w netnode_kernel \<Rightarrow> node_id \<Rightarrow> 'w \<Rightarrow> bool \<times> 'w" where
  "clear_value K i w = nk_delvalue K (node_id_get i) w"

definition remove_altval :: "'w netnode_kernel \<Rightarrow> node_id \<Rightarrow> u64 \<Rightarrow> 'w \<Rightarrow> bool \<times> 'w" where
  "remove_altval K i index w = nk_altdel K (node_id_get i) index (utag TAG_ALTVAL) w"

definition clear_altvals :: "'w netnode_kernel \<Rightarrow> node_id \<Rightarrow> 'w \<Rightarrow> bool \<times> 'w" where
  "clear_altvals K i w = nk_altdel_all K (node_id_get i) (utag TAG_ALTVAL) w"

definition remove_supval :: "'w netnode_kernel \<Rightarrow> node_id \<Rightarrow> u64 \<Rightarrow> 'w \<Rightarrow> bool \<times> 'w" where
  "remove_supval K i index w = nk_supdel K (node_id_get i) index (utag TAG_SUPVAL) w"

definition clear_supvals :: "'w netnode_kernel \<Rightarrow> node_id \<Rightarrow> 'w \<Rightarrow> bool \<times> 'w" where
  "clear_supvals K i w = nk_supdel_all K (node_id_get i) (utag TAG_SUPVAL) w"

definition remove_hash :: "'w netnode_kernel \<Rightarrow> node_id \<Rightarrow> string \<Rightarrow> 'w \<Rightarrow> bool \<times> 'w" where
  "remove_hash K i key w = nk_hashdel K (node_id_get i) (c_str key) (utag TAG_HASH) w"

definition clear_hash :: "'w netnode_kernel \<Rightarrow> node_id \<Rightarrow> 'w \<Rightarrow> bool \<times> 'w" where
  "clear_hash K i w = nk_hashdel_all K (node_id_get i) (utag TAG_HASH) w"

definition remove_blob :: "'w netnode_kernel \<Rightarrow> node_id \<Rightarrow> 'w \<Rightarrow> bool \<times> 'w" where
  "remove_blob K i w = apfst (\<lambda>n. n > 0) (nk_delblob K (node_id_get i) 0 (utag TAG_BLOB) w)"

definition nn_kill :: "'w netnode_kernel \<Rightarrow> node_id \<Rightarrow> 'w \<Rightarrow> 'w" where
  "nn_kill K i w = nk_kill K (node_id_get i) w"

subsection \<open>One tag of a node\<close>

definition tg_integer :: "'w netnode_kernel \<Rightarrow> node_id \<Rightarrow> tag \<Rightarrow> u64 \<Rightarrow> 'w \<Rightarrow> u64" where
  "tg_integer K i t index w = nk_altval K (node_id_get i) index (utag t) w"

definition tg_value :: "'w netnode_kernel \<Rightarrow> node_id \<Rightarrow> tag \<Rightarrow> u64 \<Rightarrow> 'w \<Rightarrow> u8 list option" where
  "tg_value K i t index w = f_supval K (node_id_get i) index t w"

definition tg_hash :: "'w netnode_kernel \<Rightarrow> node_id \<Rightarrow> tag \<Rightarrow> string \<Rightarrow> 'w \<Rightarrow> u8 list option" where
  "tg_hash K i t key w = f_hashval K (node_id_get i) key t w"

definition tg_set_integer ::
  "'w netnode_kernel \<Rightarrow> node_id \<Rightarrow> tag \<Rightarrow> u64 \<Rightarrow> u64 \<Rightarrow> 'w \<Rightarrow> (netnode_error + unit) \<times> 'w" where
  "tg_set_integer K i t index value w =
     nn_checked K i ''set_integer'' (nk_altset K (node_id_get i) index value (utag t) w)"

definition tg_set_value ::
  "'w netnode_kernel \<Rightarrow> node_id \<Rightarrow> tag \<Rightarrow> u64 \<Rightarrow> u8 list \<Rightarrow> 'w \<Rightarrow> (netnode_error + unit) \<times> 'w" where
  "tg_set_value K i t index value =
     with_bytes value (\<lambda>bytes w.
       nn_checked K i ''set_value'' (f_supset K (node_id_get i) index bytes t w))"

definition tg_set_hash ::
  "'w netnode_kernel \<Rightarrow> node_id \<Rightarrow> tag \<Rightarrow> string \<Rightarrow> u8 list \<Rightarrow> 'w \<Rightarrow> (netnode_error + unit) \<times> 'w" where
  "tg_set_hash K i t key value =
     with_bytes value (\<lambda>bytes w.
       nn_checked K i ''set_hash'' (f_hashset K (node_id_get i) key bytes t w))"

definition tg_remove :: "'w netnode_kernel \<Rightarrow> node_id \<Rightarrow> tag \<Rightarrow> u64 \<Rightarrow> 'w \<Rightarrow> bool \<times> 'w" where
  "tg_remove K i t index w = nk_supdel K (node_id_get i) index (utag t) w"

definition tg_clear :: "'w netnode_kernel \<Rightarrow> node_id \<Rightarrow> tag \<Rightarrow> 'w \<Rightarrow> bool \<times> 'w" where
  "tg_clear K i t w = nk_supdel_all K (node_id_get i) (utag t) w"

definition tg_remove_hash :: "'w netnode_kernel \<Rightarrow> node_id \<Rightarrow> tag \<Rightarrow> string \<Rightarrow> 'w \<Rightarrow> bool \<times> 'w" where
  "tg_remove_hash K i t key w = nk_hashdel K (node_id_get i) (c_str key) (utag t) w"

definition tg_clear_hash :: "'w netnode_kernel \<Rightarrow> node_id \<Rightarrow> tag \<Rightarrow> 'w \<Rightarrow> bool \<times> 'w" where
  "tg_clear_hash K i t w = nk_hashdel_all K (node_id_get i) (utag t) w"

subsection \<open>The iterators\<close>

text \<open>
  An iterator keeps the index it yields next; the kernel is borrowed for as long as it lives, so the
  stored state \<open>w\<close> does not change under it.
\<close>

definition index_or_end :: "u64 \<Rightarrow> u64 option" where
  "index_or_end raw = (if raw \<noteq> BADNODE then Some raw else None)"

record index_iter =
  it_node :: node_id
  it_tag :: tag
  it_next :: "u64 option"

definition altvals_new :: "'w netnode_kernel \<Rightarrow> node_id \<Rightarrow> tag \<Rightarrow> 'w \<Rightarrow> index_iter" where
  "altvals_new K i t w =
     \<lparr>it_node = i, it_tag = t, it_next = index_or_end (nk_altfirst K (node_id_get i) (utag t) w)\<rparr>"

definition altvals_next ::
  "'w netnode_kernel \<Rightarrow> 'w \<Rightarrow> index_iter \<Rightarrow> (u64 \<times> u64) option \<times> index_iter" where
  "altvals_next K w it =
     (case it_next it of
        None \<Rightarrow> (None, it)
      | Some index \<Rightarrow>
          let value = nk_altval K (node_id_get (it_node it)) index (utag (it_tag it)) w
          in (Some (index, value),
              it\<lparr>it_next := index_or_end (nk_altnext K (node_id_get (it_node it)) index (utag (it_tag it)) w)\<rparr>))"

definition unwrap_or_default :: "u8 list option \<Rightarrow> u8 list" where
  "unwrap_or_default x = (case x of Some v \<Rightarrow> v | None \<Rightarrow> [])"

definition supvals_new :: "'w netnode_kernel \<Rightarrow> node_id \<Rightarrow> tag \<Rightarrow> 'w \<Rightarrow> index_iter" where
  "supvals_new K i t w =
     \<lparr>it_node = i, it_tag = t, it_next = index_or_end (nk_supfirst K (node_id_get i) (utag t) w)\<rparr>"

definition supvals_next ::
  "'w netnode_kernel \<Rightarrow> 'w \<Rightarrow> index_iter \<Rightarrow> (u64 \<times> u8 list) option \<times> index_iter" where
  "supvals_next K w it =
     (case it_next it of
        None \<Rightarrow> (None, it)
      | Some index \<Rightarrow>
          let value = unwrap_or_default (f_supval K (node_id_get (it_node it)) index (it_tag it) w)
          in (Some (index, value),
              it\<lparr>it_next := index_or_end (nk_supnext K (node_id_get (it_node it)) index (utag (it_tag it)) w)\<rparr>))"

record hash_iter =
  hi_node :: node_id
  hi_tag :: tag
  hi_next :: "string option"

definition hash_entries_new :: "'w netnode_kernel \<Rightarrow> node_id \<Rightarrow> tag \<Rightarrow> 'w \<Rightarrow> hash_iter" where
  "hash_entries_new K i t w =
     \<lparr>hi_node = i, hi_tag = t, hi_next = nk_hashfirst K (node_id_get i) (utag t) w\<rparr>"

definition hash_entries_next ::
  "'w netnode_kernel \<Rightarrow> 'w \<Rightarrow> hash_iter \<Rightarrow> (string \<times> u8 list) option \<times> hash_iter" where
  "hash_entries_next K w it =
     (case hi_next it of
        None \<Rightarrow> (None, it)
      | Some key \<Rightarrow>
          let value = unwrap_or_default (f_hashval K (node_id_get (hi_node it)) key (hi_tag it) w)
          in (Some (key, value),
              it\<lparr>hi_next := nk_hashnext K (node_id_get (hi_node it)) (c_str key) (utag (hi_tag it)) w\<rparr>))"

definition netnodes_new :: "'w netnode_kernel \<Rightarrow> 'w \<Rightarrow> node_id option" where
  "netnodes_new K w = node_id_try_new (nk_first K w)"

definition netnodes_next ::
  "'w netnode_kernel \<Rightarrow> 'w \<Rightarrow> node_id option \<Rightarrow> node_id option \<times> node_id option" where
  "netnodes_next K w nxt =
     (case nxt of
        None \<Rightarrow> (None, nxt)
      | Some i \<Rightarrow> (Some i, node_id_try_new (nk_next K (node_id_get i) w)))"

definition nn_altvals :: "'w netnode_kernel \<Rightarrow> node_id \<Rightarrow> 'w \<Rightarrow> index_iter" where
  "nn_altvals K i w = altvals_new K i TAG_ALTVAL w"

definition nn_supvals :: "'w netnode_kernel \<Rightarrow> node_id \<Rightarrow> 'w \<Rightarrow> index_iter" where
  "nn_supvals K i w = supvals_new K i TAG_SUPVAL w"

definition nn_hash_entries :: "'w netnode_kernel \<Rightarrow> node_id \<Rightarrow> 'w \<Rightarrow> hash_iter" where
  "nn_hash_entries K i w = hash_entries_new K i TAG_HASH w"

definition tg_values :: "'w netnode_kernel \<Rightarrow> node_id \<Rightarrow> tag \<Rightarrow> 'w \<Rightarrow> index_iter" where
  "tg_values K i t w = supvals_new K i t w"

definition tg_hash_entries :: "'w netnode_kernel \<Rightarrow> node_id \<Rightarrow> tag \<Rightarrow> 'w \<Rightarrow> hash_iter" where
  "tg_hash_entries K i t w = hash_entries_new K i t w"

subsection \<open>Typed values\<close>

text \<open>\<open>to_le_bytes\<close> and \<open>from_le_bytes\<close> of an integer of \<open>n\<close> bytes; the signed types have the same bytes.\<close>

definition to_le_bytes :: "nat \<Rightarrow> 'l::len word \<Rightarrow> u8 list" where
  "to_le_bytes n v = map (\<lambda>k. ucast (drop_bit (8 * k) v)) [0..<n]"

fun from_le :: "u8 list \<Rightarrow> 'l::len word" where
  "from_le [] = 0"
| "from_le (b # bs) = ucast b OR push_bit 8 (from_le bs)"

definition from_le_bytes :: "nat \<Rightarrow> u8 list \<Rightarrow> 'l::len word option" where
  "from_le_bytes n bs = (if length bs = n then Some (from_le bs) else None)"

definition bool_to_bytes :: "bool \<Rightarrow> u8 list" where
  "bool_to_bytes b = [if b then 1 else 0]"

definition bool_from_bytes :: "u8 list \<Rightarrow> bool option" where
  "bool_from_bytes bs = (case bs of [b] \<Rightarrow> Some (b \<noteq> 0) | _ \<Rightarrow> None)"

definition string_to_bytes :: "string \<Rightarrow> u8 list" where
  "string_to_bytes s = map (\<lambda>c. of_nat (of_char c)) s"

definition string_from_bytes :: "u8 list \<Rightarrow> string option" where
  "string_from_bytes bs =
     (let s = map (\<lambda>b. char_of (unat b)) bs in if utf8_valid s then Some s else None)"

definition vec_to_bytes :: "u8 list \<Rightarrow> u8 list" where
  "vec_to_bytes v = v"

definition vec_from_bytes :: "u8 list \<Rightarrow> u8 list option" where
  "vec_from_bytes bs = Some bs"

text \<open>
  What a \<open>Persist\<close> implementation owes: a value comes back from its bytes. The typed store works for
  every type that keeps this.
\<close>

definition keeps_hash :: "'w netnode_kernel \<Rightarrow> bool" where
  "keeps_hash K \<longleftrightarrow>
     (\<forall>node key v t w w'. nk_hashset K node key v t w = (True, w') \<longrightarrow>
        nk_hashval K node key t w' = Some v)"

locale persist =
  fixes to_bytes :: "'a \<Rightarrow> u8 list" and from_bytes :: "u8 list \<Rightarrow> 'a option" and valid :: "'a \<Rightarrow> bool"
  assumes decodes: "valid x \<Longrightarrow> from_bytes (to_bytes x) = Some x"
begin

lemma put_get:
  assumes "keeps_hash K" and "valid x" and "nn_put to_bytes K i key x w = (Inr (), w')"
    and "c_str key' = c_str key"
  shows "nn_get from_bytes K i key' w' = Some x"
proof -
  from assms(3) have size: "byte_guards (to_bytes x)"
    and set: "nk_hashset K (node_id_get i) (c_str key) (to_bytes x) (utag TAG_HASH) w = (True, w')"
    by (auto simp: nn_put_def set_hash_def with_bytes_def netnode_bytes_def nn_checked_def f_hashset_def
        prod_eq_iff split: sum.splits if_splits)
  with assms(1) have "nk_hashval K (node_id_get i) (c_str key) (utag TAG_HASH) w' = Some (to_bytes x)"
    by (auto simp: keeps_hash_def)
  with size assms(2,4) show ?thesis
    by (simp add: nn_get_def nn_hash_def f_hashval_def clamped_bytes_def byte_guards_def decodes)
qed

end

subsection \<open>Integers in bytes\<close>

lemma bit_from_le:
  "8 \<le> LENGTH('l) \<Longrightarrow> bit (from_le bs :: 'l::len word) k \<longleftrightarrow>
     k < LENGTH('l) \<and> k div 8 < length bs \<and> bit (bs ! (k div 8)) (k mod 8)"
proof (induction bs arbitrary: k)
  case (Cons b bs)
  have or: "bit (from_le (b # bs) :: 'l word) k \<longleftrightarrow>
      k < LENGTH('l) \<and> (bit b k \<or> 8 \<le> k \<and> bit (from_le bs :: 'l word) (k - 8))"
    by (auto simp: bit_or_iff bit_push_bit_iff bit_ucast_iff dest: bit_imp_le_length)
  show ?case
  proof (cases "k < 8")
    case True
    with Cons.prems show ?thesis unfolding or by simp
  next
    case False
    then have k: "k div 8 = Suc ((k - 8) div 8)" "k mod 8 = (k - 8) mod 8"
      by (simp_all add: le_div_geq le_mod_geq)
    have b: "\<not> bit b k" using False bit_imp_le_length [of b k] by auto
    have small: "k - 8 < LENGTH('l)" if "k < LENGTH('l)" using that by simp
    show ?thesis unfolding or Cons.IH [OF Cons.prems] k using False b small by auto
  qed
qed simp

lemma bit_to_le: "k < n \<Longrightarrow> m < 8 \<Longrightarrow> bit (to_le_bytes n (v :: 'l::len word) ! k) m = bit v (8 * k + m)"
  by (simp add: to_le_bytes_def bit_simps)

lemma from_to_le:
  assumes "LENGTH('l) = 8 * n" and "0 < n"
  shows "from_le_bytes n (to_le_bytes n (v :: 'l::len word)) = Some v"
proof -
  have "bit (from_le (to_le_bytes n v) :: 'l word) k = bit v k" for k
  proof (cases "k < 8 * n")
    case True
    then have "k div 8 < n" by (simp add: div_less_iff_less_mult mult.commute)
    with True assms bit_to_le [of "k div 8" n "k mod 8" v] show ?thesis
      by (simp add: bit_from_le to_le_bytes_def)
  next
    case False
    with assms show ?thesis by (auto simp: bit_from_le dest: bit_imp_le_length)
  qed
  then have "from_le (to_le_bytes n v) = v" by (intro bit_word_eqI) simp
  then show ?thesis by (simp add: from_le_bytes_def to_le_bytes_def)
qed

lemma to_from_le:
  assumes "LENGTH('l) = 8 * n" and "0 < n" and "from_le_bytes n bs = Some (v :: 'l::len word)"
  shows "to_le_bytes n v = bs"
proof (rule nth_equalityI)
  from assms(3) have len: "length bs = n" and v: "v = from_le bs"
    by (auto simp: from_le_bytes_def split: if_splits)
  then show "length (to_le_bytes n v) = length bs" by (simp add: to_le_bytes_def)
  fix k assume "k < length (to_le_bytes n v)"
  then have k: "k < n" by (simp add: to_le_bytes_def)
  show "to_le_bytes n v ! k = bs ! k"
  proof (rule bit_word_eqI)
    fix m assume "m < LENGTH(8)"
    then have m: "m < 8" by simp
    with k have div: "(8 * k + m) div 8 = k" "(8 * k + m) mod 8 = m" "8 * k + m < 8 * n" by simp_all
    show "bit (to_le_bytes n v ! k) m = bit (bs ! k) m"
      unfolding bit_to_le [OF k m] v using assms(1,2) len div k by (simp add: bit_from_le)
  qed
qed

interpretation persist_u8: persist "to_le_bytes 1 :: u8 \<Rightarrow> _" "from_le_bytes 1" "\<lambda>_. True"
  by unfold_locales (simp add: from_to_le)

interpretation persist_u16: persist "to_le_bytes 2 :: u16 \<Rightarrow> _" "from_le_bytes 2" "\<lambda>_. True"
  by unfold_locales (simp add: from_to_le)

interpretation persist_u32: persist "to_le_bytes 4 :: u32 \<Rightarrow> _" "from_le_bytes 4" "\<lambda>_. True"
  by unfold_locales (simp add: from_to_le)

interpretation persist_u64: persist "to_le_bytes 8 :: u64 \<Rightarrow> _" "from_le_bytes 8" "\<lambda>_. True"
  by unfold_locales (simp add: from_to_le)

interpretation persist_bool: persist bool_to_bytes bool_from_bytes "\<lambda>_. True"
  by unfold_locales (simp add: bool_to_bytes_def bool_from_bytes_def)

lemma string_bytes_inverse: "map (\<lambda>b. char_of (unat b)) (string_to_bytes s) = s"
  by (induction s) (simp_all add: string_to_bytes_def unat_of_nat take_bit_nat_eq_self)

interpretation persist_string: persist string_to_bytes string_from_bytes utf8_valid
  by unfold_locales (simp add: string_from_bytes_def string_bytes_inverse)

interpretation persist_vec: persist vec_to_bytes vec_from_bytes "\<lambda>_. True"
  by unfold_locales (simp add: vec_to_bytes_def vec_from_bytes_def)

text \<open>
  An integer is stored as exactly its little-endian bytes: what decodes as an integer of \<open>n\<close> bytes
  is the encoding of one, so no other length is accepted and no two byte strings read as one value.
\<close>

theorem persist_integer_bijective:
  fixes v :: "'l::len word"
  assumes "LENGTH('l) = 8 * n" and "0 < n"
  shows "from_le_bytes n bs = Some v \<longleftrightarrow> bs = to_le_bytes n v"
  using from_to_le [OF assms, of v] to_from_le [OF assms, of bs v] by auto

theorem persist_integer_bijective_witness:
  "from_le_bytes 2 [0x34, 0x12] = Some (0x1234 :: 16 word)"
proof -
  have "to_le_bytes 2 (0x1234 :: 16 word) = [0x34, 0x12]" by code_simp
  then show ?thesis using persist_integer_bijective [of 2 "[0x34, 0x12]" "0x1234 :: 16 word"] by simp
qed

text \<open>
  C22: the typed store: what \<open>put\<close> accepted \<open>get\<close> reads back, for every string, under the same key;
  the kernel is asked only to read back what it stored.
\<close>

theorem put_get_string:
  assumes "keeps_hash K" and "utf8_valid s" and "nn_put string_to_bytes K i key s w = (Inr (), w')"
  shows "nn_get string_from_bytes K i key w' = Some s"
  by (rule persist_string.put_get [OF assms refl])

text \<open>
  An empty string is never stored: \<open>put\<close> refuses it before the kernel is asked, though nothing is
  wrong with the write.
\<close>

theorem put_empty_refused:
  "nn_put string_to_bytes K i key [] w = (Inl (InvalidNetnodeBytes EmptyBytes), w) \<and>
   nn_put vec_to_bytes K i key [] w = (Inl (InvalidNetnodeBytes EmptyBytes), w)"
  by (simp add: nn_put_def set_hash_def with_bytes_def netnode_bytes_def string_to_bytes_def vec_to_bytes_def)

lemma c_str_cut: "c_str (k @ CHR 0x00 # r) = c_str k"
  by (induction k) (simp_all add: c_str_def)

text \<open>
  A key is cut at its first NUL on its way to the kernel and nothing refuses it: two keys that
  agree up to a NUL are one entry to read, to write and to remove.
\<close>

theorem hash_keys_alias:
  "nn_hash K i (k @ [CHR 0x00] @ r) w = nn_hash K i (k @ [CHR 0x00] @ r') w \<and>
   set_hash K i (k @ [CHR 0x00] @ r) v w = set_hash K i (k @ [CHR 0x00] @ r') v w \<and>
   remove_hash K i (k @ [CHR 0x00] @ r) w = remove_hash K i (k @ [CHR 0x00] @ r') w"
  by (simp add: nn_hash_def f_hashval_def set_hash_def f_hashset_def remove_hash_def c_str_cut cong: if_cong)

subsection \<open>A concrete store\<close>

type_synonym map_store = "u64 \<times> string \<times> u8 \<Rightarrow> u8 list option"

text \<open>A store of hash entries in a map, whose alt array has two indices.\<close>

definition map_kernel :: "map_store netnode_kernel" where
  "map_kernel =
     \<lparr>nk_by_name = (\<lambda>_ _ w. (1, w)), nk_name = (\<lambda>_ _. None), nk_exists = (\<lambda>_ _. True),
      nk_rename = (\<lambda>_ _ w. (False, w)), nk_kill = (\<lambda>_ w. w), nk_first = (\<lambda>_. 1), nk_next = (\<lambda>_ _. BADNODE),
      nk_value = (\<lambda>_ _. None), nk_set = (\<lambda>_ _ w. (False, w)), nk_delvalue = (\<lambda>_ w. (False, w)),
      nk_altval = (\<lambda>_ i _ _. i * 2), nk_altset = (\<lambda>_ _ _ _ w. (False, w)),
      nk_altdel = (\<lambda>_ _ _ w. (False, w)), nk_altdel_all = (\<lambda>_ _ w. (False, w)),
      nk_altfirst = (\<lambda>_ _ _. 3), nk_altnext = (\<lambda>_ c _ _. if c < 3 then 3 else if c < 9 then 9 else BADNODE),
      nk_supval = (\<lambda>_ _ _ _. None), nk_supset = (\<lambda>_ _ _ _ w. (False, w)),
      nk_supdel = (\<lambda>_ _ _ w. (False, w)), nk_supdel_all = (\<lambda>_ _ w. (False, w)),
      nk_supfirst = (\<lambda>_ _ _. BADNODE), nk_supnext = (\<lambda>_ _ _ _. BADNODE),
      nk_hashval = (\<lambda>n k t w. w (n, k, t)), nk_hashval_long = (\<lambda>_ _ _ _. 0),
      nk_hashset = (\<lambda>n k v t w. (True, w((n, k, t) \<mapsto> v))), nk_hashset_long = (\<lambda>_ _ _ _ w. (False, w)),
      nk_hashdel = (\<lambda>n k t w. (w (n, k, t) \<noteq> None, w((n, k, t) := None))),
      nk_hashdel_all = (\<lambda>_ _ w. (False, w)), nk_hashfirst = (\<lambda>_ _ _. None), nk_hashnext = (\<lambda>_ _ _ _. None),
      nk_blobsize = (\<lambda>_ _ _ _. 0), nk_getblob = (\<lambda>_ _ _ _. None), nk_setblob = (\<lambda>_ _ _ _ w. (False, w)),
      nk_delblob = (\<lambda>_ _ _ w. (0, w)),
      nk_errno = (\<lambda>_. \<lparr>an_outcome = Returned 0, an_text = [], an_errno = 0, an_strerror = []\<rparr>)\<rparr>"

lemma map_kernel_keeps: "keeps_hash map_kernel"
  by (auto simp: keeps_hash_def map_kernel_def)

theorem put_get_string_witness:
  "nn_get string_from_bytes map_kernel (NodeId 5) ''k''
     (snd (nn_put string_to_bytes map_kernel (NodeId 5) ''k'' ''value'' Map.empty)) = Some ''value''"
proof (rule put_get_string [OF map_kernel_keeps])
  show "utf8_valid ''value''" by code_simp
  show "nn_put string_to_bytes map_kernel (NodeId 5) ''k'' ''value'' Map.empty =
      (Inr (), snd (nn_put string_to_bytes map_kernel (NodeId 5) ''k'' ''value'' Map.empty))"
    by (simp add: nn_put_def set_hash_def with_bytes_def netnode_bytes_def string_to_bytes_def MAX_SIZE_def
        nn_checked_def f_hashset_def byte_guards_def map_kernel_def)
qed

subsection \<open>What the iterators list\<close>

text \<open>An enumeration of the kernel: the least of a finite set of indices, or \<open>BADNODE\<close>.\<close>

definition least_or_bad :: "u64 set \<Rightarrow> u64" where
  "least_or_bad S = (if S = {} then BADNODE else Min S)"

definition from_index_on :: "u64 set \<Rightarrow> u64 \<Rightarrow> u64 list" where
  "from_index_on S c = sorted_list_of_set ({x \<in> S. c \<le> x} - {BADNODE})"

definition indices_left :: "u64 set \<Rightarrow> u64 option \<Rightarrow> u64 list" where
  "indices_left S nxt = (case nxt of None \<Rightarrow> [] | Some c \<Rightarrow> from_index_on S c)"

definition on_index :: "u64 set \<Rightarrow> u64 option \<Rightarrow> bool" where
  "on_index S nxt \<longleftrightarrow> finite S \<and> (\<forall>c. nxt = Some c \<longrightarrow> c \<in> S \<and> c \<noteq> BADNODE)"

lemma BADNODE_greatest: "x \<le> BADNODE"
  by (simp add: BADNODE_def)

lemma least_or_bad_chain:
  assumes "finite S"
  shows "on_index S (index_or_end (least_or_bad {x \<in> S. P x}))"
    and "\<forall>x y. P x \<longrightarrow> x \<le> y \<longrightarrow> P y \<Longrightarrow>
      indices_left S (index_or_end (least_or_bad {x \<in> S. P x})) = sorted_list_of_set ({x \<in> S. P x} - {BADNODE})"
proof -
  let ?T = "{x \<in> S. P x}"
  have fin: "finite ?T" using assms by simp
  show "on_index S (index_or_end (least_or_bad ?T))"
    using fin Min_in [OF fin] assms by (auto simp: on_index_def index_or_end_def least_or_bad_def)
  assume up: "\<forall>x y. P x \<longrightarrow> x \<le> y \<longrightarrow> P y"
  show "indices_left S (index_or_end (least_or_bad ?T)) = sorted_list_of_set (?T - {BADNODE})"
  proof (cases "least_or_bad ?T = BADNODE")
    case True
    have empty: "?T - {BADNODE} = {}"
    proof (cases "?T = {}")
      case False
      with True have "Min ?T = BADNODE" unfolding least_or_bad_def by (simp only: if_False)
      then have "x = BADNODE" if "x \<in> ?T" for x
        using Min_le [OF fin that] BADNODE_greatest [of x] by simp
      then show ?thesis by blast
    qed blast
    show ?thesis unfolding empty True by (simp add: indices_left_def index_or_end_def)
  next
    case False
    have ne: "?T \<noteq> {}"
    proof
      assume e: "?T = {}"
      have "least_or_bad ?T = BADNODE" unfolding e least_or_bad_def by simp
      with False show False by (rule notE)
    qed
    then have m: "least_or_bad ?T = Min ?T" unfolding least_or_bad_def by (simp only: if_False)
    from Min_in [OF fin ne] have "P (Min ?T)" by simp
    with up have "P x" if "Min ?T \<le> x" for x using that by blast
    with Min_le [OF fin] have "{x \<in> S. Min ?T \<le> x} = ?T" by blast
    moreover have "index_or_end (least_or_bad ?T) = Some (Min ?T)"
      using False unfolding m by (simp add: index_or_end_def)
    ultimately show ?thesis unfolding indices_left_def from_index_on_def by simp
  qed
qed

lemma indices_left_step:
  assumes "on_index S (Some c)"
  shows "indices_left S (Some c) = c # indices_left S (index_or_end (least_or_bad {x \<in> S. c < x}))"
proof -
  from assms have S: "finite S" "c \<in> S" "c \<noteq> BADNODE" by (auto simp: on_index_def)
  have split: "{x \<in> S. c \<le> x} - {BADNODE} = insert c ({x \<in> S. c < x} - {BADNODE})" using S by auto
  have "insort c (sorted_list_of_set ({x \<in> S. c < x} - {BADNODE})) =
      c # sorted_list_of_set ({x \<in> S. c < x} - {BADNODE})"
    using S(1) by (intro insort_is_Cons) auto
  then have "sorted_list_of_set (insert c ({x \<in> S. c < x} - {BADNODE})) =
      c # sorted_list_of_set ({x \<in> S. c < x} - {BADNODE})"
    using S(1) by simp
  moreover have "\<forall>x y. c < x \<longrightarrow> x \<le> y \<longrightarrow> c < y" by (blast intro: less_le_trans)
  ultimately show ?thesis
    using least_or_bad_chain(2) [OF S(1), of "\<lambda>x. c < x"]
    by (simp add: indices_left_def [of S "Some c"] from_index_on_def split)
qed


text \<open>
  The kernel's alt array of a node under a tag has the indices \<open>S\<close>, which it enumerates upwards.
\<close>

definition alt_indices :: "'w netnode_kernel \<Rightarrow> 'w \<Rightarrow> node_id \<Rightarrow> tag \<Rightarrow> u64 set \<Rightarrow> bool" where
  "alt_indices K w i t S \<longleftrightarrow>
     finite S \<and> nk_altfirst K (node_id_get i) (utag t) w = least_or_bad S \<and>
     (\<forall>c \<in> S. nk_altnext K (node_id_get i) c (utag t) w = least_or_bad {x \<in> S. c < x})"

definition sup_indices :: "'w netnode_kernel \<Rightarrow> 'w \<Rightarrow> node_id \<Rightarrow> tag \<Rightarrow> u64 set \<Rightarrow> bool" where
  "sup_indices K w i t S \<longleftrightarrow>
     finite S \<and> nk_supfirst K (node_id_get i) (utag t) w = least_or_bad S \<and>
     (\<forall>c \<in> S. nk_supnext K (node_id_get i) c (utag t) w = least_or_bad {x \<in> S. c < x})"

definition alt_walk ::
  "'w netnode_kernel \<times> 'w \<times> u64 set \<times> index_iter
    \<Rightarrow> ((u64 \<times> u64) option \<times> 'w netnode_kernel \<times> 'w \<times> u64 set \<times> index_iter) option" where
  "alt_walk = (\<lambda>(K, w, S, it). let (r, it') = altvals_next K w it in Some (r, K, w, S, it'))"

definition sup_walk ::
  "'w netnode_kernel \<times> 'w \<times> u64 set \<times> index_iter
    \<Rightarrow> ((u64 \<times> u8 list) option \<times> 'w netnode_kernel \<times> 'w \<times> u64 set \<times> index_iter) option" where
  "sup_walk = (\<lambda>(K, w, S, it). let (r, it') = supvals_next K w it in Some (r, K, w, S, it'))"

definition alt_left :: "'w netnode_kernel \<times> 'w \<times> u64 set \<times> index_iter \<Rightarrow> (u64 \<times> u64) list" where
  "alt_left = (\<lambda>(K, w, S, it).
     map (\<lambda>x. (x, nk_altval K (node_id_get (it_node it)) x (utag (it_tag it)) w)) (indices_left S (it_next it)))"

definition sup_left :: "'w netnode_kernel \<times> 'w \<times> u64 set \<times> index_iter \<Rightarrow> (u64 \<times> u8 list) list" where
  "sup_left = (\<lambda>(K, w, S, it).
     map (\<lambda>x. (x, unwrap_or_default (f_supval K (node_id_get (it_node it)) x (it_tag it) w)))
       (indices_left S (it_next it)))"

interpretation alt_iter: lazy_iterator alt_walk
  "\<lambda>(K, w, S, it). alt_indices K w (it_node it) (it_tag it) S \<and> on_index S (it_next it)" alt_left
proof
  fix s :: "'w netnode_kernel \<times> 'w \<times> u64 set \<times> index_iter" and p ps
  let ?inv = "\<lambda>(K, w, S, it). alt_indices K w (it_node it) (it_tag it) S \<and> on_index S (it_next it)"
  obtain K w S it where s: "s = (K, w, S, it)" by (metis prod_cases4)
  assume "?inv s"
  then have law: "alt_indices K w (it_node it) (it_tag it) S" and on: "on_index S (it_next it)"
    by (simp_all add: s)
  from law have fin: "finite S" by (simp add: alt_indices_def)
  show "\<exists>s'. alt_walk s = Some (None, s') \<and> ?inv s' \<and> alt_left s' = []" if "alt_left s = []"
  proof (cases "it_next it")
    case None
    with law on show ?thesis by (simp add: s alt_walk_def altvals_next_def alt_left_def indices_left_def)
  next
    case (Some c)
    with that indices_left_step [of S c] on show ?thesis by (simp add: s alt_left_def)
  qed
  show "\<exists>s'. alt_walk s = Some (Some p, s') \<and> ?inv s' \<and> alt_left s' = ps" if "alt_left s = p # ps"
  proof (cases "it_next it")
    case None
    with that show ?thesis by (simp add: s alt_left_def indices_left_def)
  next
    case (Some c)
    with on have step: "nk_altnext K (node_id_get (it_node it)) c (utag (it_tag it)) w =
        least_or_bad {x \<in> S. c < x}"
      using law by (simp add: alt_indices_def on_index_def)
    from that Some indices_left_step [of S c] on step law least_or_bad_chain(1) [OF fin, of "\<lambda>x. c < x"]
    show ?thesis by (simp add: s alt_walk_def altvals_next_def alt_left_def Let_def)
  qed
qed

interpretation sup_iter: lazy_iterator sup_walk
  "\<lambda>(K, w, S, it). sup_indices K w (it_node it) (it_tag it) S \<and> on_index S (it_next it)" sup_left
proof
  fix s :: "'w netnode_kernel \<times> 'w \<times> u64 set \<times> index_iter" and p ps
  let ?inv = "\<lambda>(K, w, S, it). sup_indices K w (it_node it) (it_tag it) S \<and> on_index S (it_next it)"
  obtain K w S it where s: "s = (K, w, S, it)" by (metis prod_cases4)
  assume "?inv s"
  then have law: "sup_indices K w (it_node it) (it_tag it) S" and on: "on_index S (it_next it)"
    by (simp_all add: s)
  from law have fin: "finite S" by (simp add: sup_indices_def)
  show "\<exists>s'. sup_walk s = Some (None, s') \<and> ?inv s' \<and> sup_left s' = []" if "sup_left s = []"
  proof (cases "it_next it")
    case None
    with law on show ?thesis by (simp add: s sup_walk_def supvals_next_def sup_left_def indices_left_def)
  next
    case (Some c)
    with that indices_left_step [of S c] on show ?thesis by (simp add: s sup_left_def)
  qed
  show "\<exists>s'. sup_walk s = Some (Some p, s') \<and> ?inv s' \<and> sup_left s' = ps" if "sup_left s = p # ps"
  proof (cases "it_next it")
    case None
    with that show ?thesis by (simp add: s sup_left_def indices_left_def)
  next
    case (Some c)
    with on have step: "nk_supnext K (node_id_get (it_node it)) c (utag (it_tag it)) w =
        least_or_bad {x \<in> S. c < x}"
      using law by (simp add: sup_indices_def on_index_def)
    from that Some indices_left_step [of S c] on step law least_or_bad_chain(1) [OF fin, of "\<lambda>x. c < x"]
    show ?thesis by (simp add: s sup_walk_def supvals_next_def sup_left_def Let_def)
  qed
qed

lemma indices_all:
  assumes "finite S"
  shows "on_index S (index_or_end (least_or_bad S))"
    and "indices_left S (index_or_end (least_or_bad S)) = sorted_list_of_set (S - {BADNODE})"
  using least_or_bad_chain [OF assms, of "\<lambda>_. True"] by simp_all

lemma length_indices: "finite S \<Longrightarrow> length (sorted_list_of_set (S - {BADNODE})) \<le> card S"
  by (simp add: card_Diff1_le)

text \<open>
  The iterator over the alt values ends within one call per index and lists each index once, in
  ascending order, with its value; the one index it cannot tell from the end is \<open>BADNODE\<close>. The same
  holds of the sup values under any tag.
\<close>

theorem altvals_list_indices:
  assumes "alt_indices K w i TAG_ALTVAL S" and "card S < n"
  shows "drain n alt_walk (K, w, S, nn_altvals K i w) =
    Some (map (\<lambda>x. (x, nn_altval K i x w)) (sorted_list_of_set (S - {BADNODE})))"
proof -
  from assms(1) have S: "finite S" "nk_altfirst K (node_id_get i) (utag TAG_ALTVAL) w = least_or_bad S"
    by (simp_all add: alt_indices_def)
  have left: "alt_left (K, w, S, nn_altvals K i w) =
      map (\<lambda>x. (x, nn_altval K i x w)) (sorted_list_of_set (S - {BADNODE}))"
    by (simp add: alt_left_def nn_altvals_def altvals_new_def S indices_all(2) [OF S(1)] nn_altval_def)
  with alt_iter.drains [of "(K, w, S, nn_altvals K i w)" n] assms length_indices [OF S(1)]
    indices_all(1) [OF S(1)]
  show ?thesis by (simp add: nn_altvals_def altvals_new_def S)
qed

theorem altvals_list_indices_witness:
  "drain 3 alt_walk (map_kernel, Map.empty, {3, 9}, nn_altvals map_kernel (NodeId 5) Map.empty) =
    Some [(3, 6), (9, 18)]"
proof -
  have above: "{x \<in> {3, 9 :: u64}. 3 < x} = {9}" "{x \<in> {3, 9 :: u64}. 9 < x} = {}"
    by (simp_all add: set_eq_iff conj_disj_distribR) (auto)
  have least: "least_or_bad {3, 9} = 3" "least_or_bad {9} = 9" "least_or_bad {} = BADNODE"
    by (simp_all add: least_or_bad_def)
  have law: "alt_indices map_kernel Map.empty (NodeId 5) TAG_ALTVAL {3, 9}"
    unfolding alt_indices_def ball_simps above least by (simp add: map_kernel_def)
  have "sorted_list_of_set ({3, 9} - {BADNODE}) = [3, 9]"
    by (simp add: BADNODE_def insert_Diff_if)
  with altvals_list_indices [OF law, of 3] show ?thesis
    by (simp add: nn_altval_def map_kernel_def)
qed

lemma supvals_list_indices:
  assumes "sup_indices K w i t S" and "card S < n"
  shows "drain n sup_walk (K, w, S, tg_values K i t w) =
    Some (map (\<lambda>x. (x, unwrap_or_default (tg_value K i t x w))) (sorted_list_of_set (S - {BADNODE})))"
proof -
  from assms(1) have S: "finite S" "nk_supfirst K (node_id_get i) (utag t) w = least_or_bad S"
    by (simp_all add: sup_indices_def)
  have left: "sup_left (K, w, S, tg_values K i t w) =
      map (\<lambda>x. (x, unwrap_or_default (tg_value K i t x w))) (sorted_list_of_set (S - {BADNODE}))"
    by (simp add: sup_left_def tg_values_def supvals_new_def S indices_all(2) [OF S(1)] tg_value_def)
  with sup_iter.drains [of "(K, w, S, tg_values K i t w)" n] assms length_indices [OF S(1)]
    indices_all(1) [OF S(1)]
  show ?thesis by (simp add: tg_values_def supvals_new_def S)
qed

end
