(* ===== verification/Canonical_Diff.thy ===== *)
theory Canonical_Diff
  imports Canonical "HOL-Library.AList"
begin

text \<open>
  \<open>types/diff/canonical/engine.rs\<close>: the structural difference of two canonical types as a list of
  changes. Members pair by name first, then by a bit offset unique on both sides; what stays
  unpaired is a removal or an addition.

  The groups of unpaired members are a \<open>HashMap\<close> whose iteration order the language leaves open:
  the parameter \<open>ord\<close> stands for it, any reordering of the entries. a property below shows
  that the diff does not depend on it. The code appends to one output vector; a definition here
  returns what it appends.
\<close>

subsection \<open>Changes\<close>

datatype change_kind =
    Added canonical_type
  | Removed canonical_type
  | Retyped canonical_type canonical_type
  | Renamed string
  | Moved u64 u64
  | BitfieldChanged "u32 option" "u32 option"
  | SizeChanged "u64 option" "u64 option"
  | ConstantAdded u64
  | ConstantRemoved u64
  | ConstantChanged u64 u64

record change =
  ch_path :: string
  ch_kind :: change_kind

abbreviation mk_change :: "string \<Rightarrow> change_kind \<Rightarrow> change" where
  "mk_change p k \<equiv> \<lparr>ch_path = p, ch_kind = k\<rparr>"

type_synonym type_diff = "change list"

fun is_added :: "change_kind \<Rightarrow> bool" where
  "is_added (Added _) = True"
| "is_added (ConstantAdded _) = True"
| "is_added _ = False"

fun is_removed :: "change_kind \<Rightarrow> bool" where
  "is_removed (Removed _) = True"
| "is_removed (ConstantRemoved _) = True"
| "is_removed _ = False"

fun is_changed :: "change_kind \<Rightarrow> bool" where
  "is_changed (Retyped _ _) = True"
| "is_changed (Renamed _) = True"
| "is_changed (Moved _ _) = True"
| "is_changed (BitfieldChanged _ _) = True"
| "is_changed (ConstantChanged _ _) = True"
| "is_changed _ = False"

definition diff_added :: "type_diff \<Rightarrow> nat" where
  "diff_added d = length (filter (\<lambda>c. is_added (ch_kind c)) d)"

definition diff_removed :: "type_diff \<Rightarrow> nat" where
  "diff_removed d = length (filter (\<lambda>c. is_removed (ch_kind c)) d)"

definition diff_changed :: "type_diff \<Rightarrow> nat" where
  "diff_changed d = length (filter (\<lambda>c. is_changed (ch_kind c)) d)"

fun size_change :: "type_diff \<Rightarrow> (u64 option \<times> u64 option) option" where
  "size_change [] = None"
| "size_change (c # cs) =
     (case ch_kind c of
        SizeChanged l r \<Rightarrow> if ch_path c = [] then Some (l, r) else size_change cs
      | _ \<Rightarrow> size_change cs)"

subsection \<open>Paths\<close>

definition join :: "string \<Rightarrow> string \<Rightarrow> string" where
  "join path name = (if path = [] then name else path @ ''.'' @ name)"

definition path_in :: "'a canonical_member \<Rightarrow> string \<Rightarrow> string" where
  "path_in m parent = (if cm_name m = [] then parent else join parent (cm_name m))"

subsection \<open>Pairing\<close>

text \<open>The state of the pairing: what is used on either side, and the pairs so far.\<close>

type_synonym match_state = "bool list \<times> bool list \<times> (nat \<times> nat \<times> bool) list"

definition name_step ::
  "'a canonical_member list \<Rightarrow> nat \<times> 'a canonical_member \<Rightarrow> match_state \<Rightarrow> match_state" where
  "name_step rm = (\<lambda>(li, l) (lu, ru, pairs).
     if cm_name l = [] then (lu, ru, pairs)
     else (case List.find (\<lambda>ri. \<not> ru ! ri \<and> cm_name (rm ! ri) = cm_name l) [0..<length rm] of
             Some ri \<Rightarrow> (lu[li := True], ru[ri := True], pairs @ [(li, ri, False)])
           | None \<Rightarrow> (lu, ru, pairs)))"

definition match_names :: "'a canonical_member list \<Rightarrow> 'a canonical_member list \<Rightarrow> match_state" where
  "match_names lm rm =
     fold (name_step rm) (enumerate 0 lm)
       (replicate (length lm) False, replicate (length rm) False, [])"

definition group_unpaired_by_offset ::
  "bool list \<Rightarrow> 'a canonical_member list \<Rightarrow> (u64 \<times> nat list) list" where
  "group_unpaired_by_offset used members =
     fold (\<lambda>(i, m) groups.
         if used ! i then groups
         else (case cm_bit_offset m of
                 None \<Rightarrow> groups
               | Some off \<Rightarrow>
                   AList.update off
                     ((case map_of groups off of Some xs \<Rightarrow> xs | None \<Rightarrow> []) @ [i]) groups))
       (enumerate 0 members) []"

type_synonym hash_order = "(u64 \<times> nat list) list \<Rightarrow> (u64 \<times> nat list) list"

definition offset_pair :: "(u64 \<times> nat list) list \<Rightarrow> u64 \<times> nat list \<Rightarrow> (nat \<times> nat) option" where
  "offset_pair rgroups = (\<lambda>(off, ls).
     (case ls of
        [li] \<Rightarrow> (case map_of rgroups off of Some [ri] \<Rightarrow> Some (li, ri) | _ \<Rightarrow> None)
      | _ \<Rightarrow> None))"

definition offset_pairs ::
  "hash_order \<Rightarrow> (u64 \<times> nat list) list \<Rightarrow> (u64 \<times> nat list) list \<Rightarrow> (nat \<times> nat) list" where
  "offset_pairs ord lgroups rgroups = List.map_filter (offset_pair rgroups) (ord lgroups)"

definition offset_step :: "nat \<times> nat \<Rightarrow> match_state \<Rightarrow> match_state" where
  "offset_step = (\<lambda>(li, ri) (lu, ru, pairs). (lu[li := True], ru[ri := True], pairs @ [(li, ri, True)]))"

definition match_members ::
  "hash_order \<Rightarrow> 'a canonical_member list \<Rightarrow> 'a canonical_member list \<Rightarrow> match_state" where
  "match_members ord lm rm =
     (let (lu, ru, pairs) = match_names lm rm
      in fold offset_step
           (sort_key fst (offset_pairs ord (group_unpaired_by_offset lu lm)
                                           (group_unpaired_by_offset ru rm)))
           (lu, ru, pairs))"

subsection \<open>The walk\<close>

text \<open>\<open>dty\<close> is the walk of the left member's type, the recursive call of the code.\<close>

definition diff_against ::
  "(string \<Rightarrow> canonical_type \<Rightarrow> change list) \<Rightarrow> canonical_type canonical_member
   \<Rightarrow> canonical_type canonical_member \<Rightarrow> string \<Rightarrow> bool \<Rightarrow> change list" where
  "diff_against dty l r parent report_move =
     (let at = path_in r parent
      in dty at (cm_ty r) @
         (if cm_bitfield_width l \<noteq> cm_bitfield_width r
          then [mk_change at (BitfieldChanged (cm_bitfield_width l) (cm_bitfield_width r))] else []) @
         (if report_move
          then (case (cm_bit_offset l, cm_bit_offset r) of
                  (Some x, Some y) \<Rightarrow> if x \<noteq> y then [mk_change at (Moved x y)] else []
                | _ \<Rightarrow> [])
          else []))"

definition diff_members ::
  "hash_order \<Rightarrow> (string \<Rightarrow> canonical_type \<Rightarrow> change list) list \<Rightarrow> string
   \<Rightarrow> canonical_type canonical_member list \<Rightarrow> canonical_type canonical_member list
   \<Rightarrow> change list" where
  "diff_members ord dtys path lm rm =
     (let (lu, ru, pairs) = match_members ord lm rm;
          structural = (list_ex (\<lambda>u. \<not> u) lu \<or> list_ex (\<lambda>u. \<not> u) ru)
      in concat (map (\<lambda>(li, ri, renamed).
             (if renamed \<and> cm_name (lm ! li) \<noteq> cm_name (rm ! ri)
              then [mk_change (path_in (rm ! ri) path) (Renamed (cm_name (lm ! li)))] else []) @
             diff_against (dtys ! li) (lm ! li) (rm ! ri) path (\<not> structural)) pairs) @
         map (\<lambda>(_, l). mk_change (path_in l path) (Removed (cm_ty l)))
           (filter (\<lambda>(li, _). \<not> lu ! li) (enumerate 0 lm)) @
         map (\<lambda>(_, r). mk_change (path_in r path) (Added (cm_ty r)))
           (filter (\<lambda>(ri, _). \<not> ru ! ri) (enumerate 0 rm)))"

definition diff_constants ::
  "string \<Rightarrow> (string \<times> u64) list \<Rightarrow> (string \<times> u64) list \<Rightarrow> change list" where
  "diff_constants path lm rm =
     concat (map (\<lambda>(name, v).
       (case List.find (\<lambda>(rn, _). rn = name) rm of
          Some (_, rv) \<Rightarrow>
            if rv \<noteq> v then [mk_change (join path name) (ConstantChanged v rv)] else []
        | None \<Rightarrow> [mk_change (join path name) (ConstantRemoved v)])) lm) @
     concat (map (\<lambda>(name, v).
       if list_ex (\<lambda>(ln, _). ln = name) lm then []
       else [mk_change (join path name) (ConstantAdded v)]) rm)"

definition diff_sizes :: "string \<Rightarrow> u64 option \<Rightarrow> u64 option \<Rightarrow> change list" where
  "diff_sizes path ls rs = (if ls \<noteq> rs then [mk_change path (SizeChanged ls rs)] else [])"

lemma enumerate_zip_left: "(i, x, y) \<in> set (enumerate n (zip xs ys)) \<Longrightarrow> x \<in> set xs"
  by (auto simp: in_set_enumerate_eq dest: nth_mem set_zip_leftD)

lemma param_size: "x \<in> set xs \<Longrightarrow> size x < Suc (size_list size xs + k)"
  using size_list_estimation' [of x xs "size x" size] by simp

function diff_into :: "hash_order \<Rightarrow> string \<Rightarrow> canonical_type \<Rightarrow> canonical_type \<Rightarrow> change list" where
  "diff_into ord path a b =
     (if a = b then []
      else (case a of
        CAggregate lt lk lm ls \<Rightarrow>
          (case b of
             CAggregate rt rk rm rs \<Rightarrow>
               if lk = rk \<and> lt = rt
               then diff_sizes path ls rs @
                 diff_members ord (map (\<lambda>m p r. diff_into ord p (cm_ty m) r) lm) path lm rm
               else [mk_change path (Retyped a b)]
           | _ \<Rightarrow> [mk_change path (Retyped a b)])
      | CEnum lt lu lm ls \<Rightarrow>
          (case b of
             CEnum rt ru rm rs \<Rightarrow>
               if lt = rt
               then diff_into ord (join path ''underlying'') lu ru @ diff_sizes path ls rs @
                 diff_constants path lm rm
               else [mk_change path (Retyped a b)]
           | _ \<Rightarrow> [mk_change path (Retyped a b)])
      | CPtr lp lw \<Rightarrow>
          (case b of
             CPtr rp rw \<Rightarrow>
               if lw = rw then diff_into ord path lp rp else [mk_change path (Retyped a b)]
           | _ \<Rightarrow> [mk_change path (Retyped a b)])
      | CArray le ll \<Rightarrow>
          (case b of
             CArray re rl \<Rightarrow>
               if ll = rl then diff_into ord path le re else [mk_change path (Retyped a b)]
           | _ \<Rightarrow> [mk_change path (Retyped a b)])
      | CFunction lret lp lv \<Rightarrow>
          (case b of
             CFunction rret rp rv \<Rightarrow>
               if lv = rv \<and> length lp = length rp
               then diff_into ord (join path ''return'') lret rret @
                 concat (map (\<lambda>(i, x, y). diff_into ord (join path (''arg'' @ show_nat i)) x y)
                   (enumerate 0 (zip lp rp)))
               else [mk_change path (Retyped a b)]
           | _ \<Rightarrow> [mk_change path (Retyped a b)])
      | _ \<Rightarrow> [mk_change path (Retyped a b)]))"
  by pat_completeness auto
termination
proof (relation "measure (\<lambda>(_, _, a, _). size a)")
qed (auto simp: cm_ty_size dest!: enumerate_zip_left intro: param_size)

declare diff_into.simps [simp del]

definition diff :: "hash_order \<Rightarrow> canonical_type \<Rightarrow> canonical_type \<Rightarrow> type_diff" where
  "diff ord a b = diff_into ord [] a b"

subsection \<open>The pairing is a matching\<close>

definition match_ok :: "nat \<Rightarrow> nat \<Rightarrow> match_state \<Rightarrow> bool" where
  "match_ok m n = (\<lambda>(lu, ru, pairs).
     length lu = m \<and> length ru = n \<and>
     distinct (map fst pairs) \<and> distinct (map (\<lambda>(_, ri, _). ri) pairs) \<and>
     set (map fst pairs) = {i. i < m \<and> lu ! i} \<and>
     set (map (\<lambda>(_, ri, _). ri) pairs) = {i. i < n \<and> ru ! i})"

lemma match_ok_pair:
  assumes "match_ok m n (lu, ru, pairs)" and "li < m" and "\<not> lu ! li" and "ri < n" and "\<not> ru ! ri"
  shows "match_ok m n (lu[li := True], ru[ri := True], pairs @ [(li, ri, b)])"
  using assms by (auto simp: match_ok_def nth_list_update)

text \<open>What the pairs of the first pass have in common: a name.\<close>

definition named_pairs ::
  "'a canonical_member list \<Rightarrow> 'a canonical_member list \<Rightarrow> (nat \<times> nat \<times> bool) list \<Rightarrow> bool" where
  "named_pairs lm rm = list_all (\<lambda>(li, ri, renamed).
     li < length lm \<and> ri < length rm \<and> \<not> renamed \<and> cm_name (lm ! li) = cm_name (rm ! ri) \<and>
     cm_name (lm ! li) \<noteq> [])"

lemma name_step_ok:
  assumes ok: "match_ok (length lm) (length rm) st" and named: "named_pairs lm rm (snd (snd st))"
    and free: "\<forall>j. k \<le> j \<and> j < length lm \<longrightarrow> \<not> fst st ! j" and k: "k < length lm" "lm ! k = l"
  shows "match_ok (length lm) (length rm) (name_step rm (k, l) st) \<and>
    named_pairs lm rm (snd (snd (name_step rm (k, l) st))) \<and>
    (\<forall>j. Suc k \<le> j \<and> j < length lm \<longrightarrow> \<not> fst (name_step rm (k, l) st) ! j)"
proof -
  obtain lu ru pairs where st: "st = (lu, ru, pairs)" by (cases st)
  let ?find = "List.find (\<lambda>ri. \<not> ru ! ri \<and> cm_name (rm ! ri) = cm_name l) [0..<length rm]"
  show ?thesis
  proof (cases "cm_name l = [] \<or> ?find = None")
    case True
    with ok named free show ?thesis by (auto simp: st name_step_def)
  next
    case False
    then obtain ri where ri: "?find = Some ri" by auto
    then have r: "ri < length rm" "\<not> ru ! ri" "cm_name (rm ! ri) = cm_name l"
      by (auto simp: find_Some_iff)
    from match_ok_pair [OF ok [unfolded st] k(1) _ r(1,2)] free k False ri r named
    show ?thesis by (auto simp: st name_step_def named_pairs_def)
  qed
qed

lemma match_names_ok:
  "match_ok (length lm) (length rm) (match_names lm rm) \<and> named_pairs lm rm (snd (snd (match_names lm rm)))"
proof -
  have fold: "match_ok (length lm) (length rm) (fold (name_step rm) (enumerate k ls) st) \<and>
      named_pairs lm rm (snd (snd (fold (name_step rm) (enumerate k ls) st)))"
    if "match_ok (length lm) (length rm) st" "named_pairs lm rm (snd (snd st))"
      "\<forall>j. k \<le> j \<and> j < length lm \<longrightarrow> \<not> fst st ! j" "drop k lm = ls" "k \<le> length lm" for k ls st
    using that
  proof (induction ls arbitrary: k st)
    case (Cons l ls)
    then have k: "k < length lm" by (metis drop_eq_Nil list.distinct(1) not_le_imp_less)
    with Cons.prems(4) have l: "lm ! k = l" "drop (Suc k) lm = ls"
      by (metis Cons_nth_drop_Suc list.inject)+
    from name_step_ok [OF Cons.prems(1,2,3) k l(1)] l(2) k show ?case
      using Cons.IH [of "name_step rm (k, l) st" "Suc k"] by simp
  qed simp
  show ?thesis unfolding match_names_def
    by (rule fold) (auto simp: match_ok_def named_pairs_def)
qed

subsection \<open>Groups of unpaired members\<close>

definition unpaired_at :: "bool list \<Rightarrow> 'a canonical_member list \<Rightarrow> u64 \<Rightarrow> nat list" where
  "unpaired_at used ms off =
     filter (\<lambda>i. \<not> used ! i \<and> cm_bit_offset (ms ! i) = Some off) [0..<length ms]"

lemma unpaired_at_snoc:
  "unpaired_at used (ms @ [m]) off =
     unpaired_at used ms off @
     (if \<not> used ! length ms \<and> cm_bit_offset m = Some off then [length ms] else [])"
  by (auto simp: unpaired_at_def nth_append intro: filter_cong)

lemma group_map_of:
  "map_of (group_unpaired_by_offset used ms) off =
     (if unpaired_at used ms off = [] then None else Some (unpaired_at used ms off)) \<and>
   distinct (map fst (group_unpaired_by_offset used ms))"
proof (induction ms arbitrary: off rule: rev_induct)
  case Nil
  then show ?case by (simp add: group_unpaired_by_offset_def unpaired_at_def)
next
  case (snoc m ms)
  let ?g = "group_unpaired_by_offset used ms"
  have step: "group_unpaired_by_offset used (ms @ [m]) =
      (if used ! length ms then ?g
       else (case cm_bit_offset m of None \<Rightarrow> ?g
             | Some off \<Rightarrow> AList.update off
                 ((case map_of ?g off of Some xs \<Rightarrow> xs | None \<Rightarrow> []) @ [length ms]) ?g))"
    unfolding group_unpaired_by_offset_def enumerate_append_eq
    by (simp split: option.split)
  from snoc.IH have "distinct (map fst ?g)" by simp
  then have d: "distinct (map fst (group_unpaired_by_offset used (ms @ [m])))"
    by (auto simp: step distinct_update split: option.split)
  have "map_of (group_unpaired_by_offset used (ms @ [m])) off =
     (if unpaired_at used (ms @ [m]) off = [] then None else Some (unpaired_at used (ms @ [m]) off))"
    using snoc.IH by (auto simp: step unpaired_at_snoc update_conv' split: option.split)
  with d show ?case by blast
qed

lemma map_filter_distinct:
  assumes "distinct (map k E)"
    and "\<And>e y. e \<in> set E \<Longrightarrow> f e = Some y \<Longrightarrow> key (p y) = k e"
  shows "distinct (map p (List.map_filter f E))"
  using assms
proof (induction E)
  case (Cons e E)
  then have IH: "distinct (map p (List.map_filter f E))" by simp
  have "p y \<notin> p ` set (List.map_filter f E)" if y: "f e = Some y" for y
  proof
    assume "p y \<in> p ` set (List.map_filter f E)"
    then obtain e' z where "e' \<in> set E" "f e' = Some z" "p y = p z"
      by (auto simp: map_filter_def)
    with Cons.prems y have "k e = k e'" by (metis list.set_intros)
    with Cons.prems(1) \<open>e' \<in> set E\<close> show False by auto
  qed
  with IH show ?case by (auto simp: List.map_filter_simps split: option.split)
qed (simp add: List.map_filter_simps)

definition is_hash_order :: "hash_order \<Rightarrow> bool" where
  "is_hash_order ord \<longleftrightarrow> (\<forall>xs. mset (ord xs) = mset xs)"

lemma offset_pairs_set:
  assumes "is_hash_order ord"
  shows "(li, ri) \<in> set (offset_pairs ord (group_unpaired_by_offset lu lm) (group_unpaired_by_offset ru rm))
    \<longleftrightarrow> (\<exists>off. unpaired_at lu lm off = [li] \<and> unpaired_at ru rm off = [ri])"
proof -
  have set: "set (ord xs) = set xs" for xs
    using assms mset_eq_setD by (auto simp: is_hash_order_def)
  have entry: "(off, ls) \<in> set (group_unpaired_by_offset used ms) \<longleftrightarrow>
      ls \<noteq> [] \<and> unpaired_at used ms off = ls" for off ls used and ms :: "'z canonical_member list"
    using group_map_of [of used ms off] map_of_eq_Some_iff [of "group_unpaired_by_offset used ms" off ls]
    by (auto split: if_splits)
  have pair: "offset_pair (group_unpaired_by_offset ru rm) (off, ls) = Some (li, ri) \<longleftrightarrow>
      ls = [li] \<and> unpaired_at ru rm off = [ri]" for off ls li ri
    using group_map_of [of ru rm off]
    by (auto simp: offset_pair_def split: list.splits option.splits if_splits)
  have mf: "y \<in> set (List.map_filter f xs) \<longleftrightarrow> (\<exists>off ls. (off, ls) \<in> set xs \<and> f (off, ls) = Some y)"
    for f :: "u64 \<times> nat list \<Rightarrow> (nat \<times> nat) option" and y xs
    by (force simp: map_filter_def)
  show ?thesis
  proof
    assume "(li, ri) \<in> set (offset_pairs ord (group_unpaired_by_offset lu lm) (group_unpaired_by_offset ru rm))"
    then obtain off ls where "(off, ls) \<in> set (group_unpaired_by_offset lu lm)"
      "ls = [li]" "unpaired_at ru rm off = [ri]"
      unfolding offset_pairs_def mf set pair by blast
    then show "\<exists>off. unpaired_at lu lm off = [li] \<and> unpaired_at ru rm off = [ri]"
      unfolding entry by blast
  next
    assume "\<exists>off. unpaired_at lu lm off = [li] \<and> unpaired_at ru rm off = [ri]"
    then obtain off where "(off, [li]) \<in> set (group_unpaired_by_offset lu lm)"
      "unpaired_at ru rm off = [ri]"
      unfolding entry by blast
    then show "(li, ri) \<in> set (offset_pairs ord (group_unpaired_by_offset lu lm) (group_unpaired_by_offset ru rm))"
      unfolding offset_pairs_def mf set pair by blast
  qed
qed

lemma unpaired_atD:
  assumes "unpaired_at used ms off = [i]"
  shows "i < length ms" and "\<not> used ! i" and "cm_bit_offset (ms ! i) = Some off"
proof -
  have "i \<in> set (unpaired_at used ms off)" using assms by simp
  then show "i < length ms" and "\<not> used ! i" and "cm_bit_offset (ms ! i) = Some off"
    by (auto simp: unpaired_at_def)
qed

lemma offset_pairs_distinct:
  assumes ord: "is_hash_order ord"
  defines "pairs lu ru lm rm \<equiv> offset_pairs ord (group_unpaired_by_offset lu lm) (group_unpaired_by_offset ru rm)"
  shows "distinct (map fst (pairs lu ru lm rm))" and "distinct (map snd (pairs lu ru lm rm))"
proof -
  let ?gl = "group_unpaired_by_offset lu lm" and ?gr = "group_unpaired_by_offset ru rm"
  have mset: "mset (ord ?gl) = mset ?gl" using ord by (simp add: is_hash_order_def)
  then have "mset (map fst (ord ?gl)) = mset (map fst ?gl)" by simp
  with group_map_of have keys: "distinct (map fst (ord ?gl))"
    using mset_eq_imp_distinct_iff by blast
  have offs: "cm_bit_offset (lm ! fst y) = Some (fst e)" "cm_bit_offset (rm ! snd y) = Some (fst e)"
    if "e \<in> set (ord ?gl)" "offset_pair ?gr e = Some y" for e y
  proof -
    obtain off ls where e: "e = (off, ls)" by (cases e)
    have "e \<in> set ?gl" using that(1) mset_eq_setD [OF mset] by simp
    with e have "unpaired_at lu lm off = ls"
      using group_map_of [of lu lm off] map_of_eq_Some_iff [of ?gl off ls] by (auto split: if_splits)
    moreover from that(2) e obtain li ri where "ls = [li]" "y = (li, ri)" "unpaired_at ru rm off = [ri]"
      using group_map_of [of ru rm off]
      by (auto simp: offset_pair_def split: list.splits option.splits if_splits)
    ultimately show "cm_bit_offset (lm ! fst y) = Some (fst e)" "cm_bit_offset (rm ! snd y) = Some (fst e)"
      using unpaired_atD(3) e by auto
  qed
  show "distinct (map fst (pairs lu ru lm rm))" "distinct (map snd (pairs lu ru lm rm))"
    unfolding pairs_def offset_pairs_def
    by (rule map_filter_distinct [OF keys, where key = "\<lambda>i. the (cm_bit_offset (lm ! i))"], simp add: offs,
        rule map_filter_distinct [OF keys, where key = "\<lambda>i. the (cm_bit_offset (rm ! i))"], simp add: offs)
qed

lemma offset_fold_ok:
  assumes "match_ok m n st" and "distinct (map fst ps)" and "distinct (map snd ps)"
    and "\<forall>(li, ri) \<in> set ps. li < m \<and> \<not> fst st ! li \<and> ri < n \<and> \<not> fst (snd st) ! ri"
  shows "match_ok m n (fold offset_step ps st) \<and>
    snd (snd (fold offset_step ps st)) = snd (snd st) @ map (\<lambda>(li, ri). (li, ri, True)) ps"
  using assms
proof (induction ps arbitrary: st)
  case (Cons p ps)
  obtain lu ru pairs where st: "st = (lu, ru, pairs)" by (cases st)
  obtain li ri where p: "p = (li, ri)" by (cases p)
  have step: "match_ok m n (lu[li := True], ru[ri := True], pairs @ [(li, ri, True)])"
    using Cons.prems by (intro match_ok_pair) (auto simp: st p)
  have "\<forall>(lj, rj) \<in> set ps. lj < m \<and> \<not> lu[li := True] ! lj \<and> rj < n \<and> \<not> ru[ri := True] ! rj"
  proof (clarify)
    fix lj rj assume "(lj, rj) \<in> set ps"
    then have "lj \<noteq> li" "rj \<noteq> ri" using Cons.prems(2,3) p by force+
    with Cons.prems(4) st p \<open>(lj, rj) \<in> set ps\<close>
    show "lj < m \<and> \<not> lu[li := True] ! lj \<and> rj < n \<and> \<not> ru[ri := True] ! rj" by auto
  qed
  with Cons.IH [OF step] Cons.prems(2,3) show ?case by (simp add: st p offset_step_def)
qed simp

text \<open>What two paired members share: a name, or the only unpaired offset of its value on either side.\<close>

lemma match_members_ok:
  assumes ord: "is_hash_order ord" and run: "match_members ord lm rm = (lu, ru, pairs)"
  shows "match_ok (length lm) (length rm) (lu, ru, pairs)"
    and "(li, ri, renamed) \<in> set pairs \<Longrightarrow> li < length lm \<and> ri < length rm \<and>
      (if renamed then cm_bit_offset (lm ! li) = cm_bit_offset (rm ! ri) \<and> cm_bit_offset (lm ! li) \<noteq> None
       else cm_name (lm ! li) = cm_name (rm ! ri) \<and> cm_name (lm ! li) \<noteq> [])"
proof -
  obtain lu1 ru1 ps1 where names: "match_names lm rm = (lu1, ru1, ps1)" by (cases "match_names lm rm")
  let ?ps = "offset_pairs ord (group_unpaired_by_offset lu1 lm) (group_unpaired_by_offset ru1 rm)"
  let ?sorted = "sort_key fst ?ps"
  from match_names_ok [of lm rm] names have ok1: "match_ok (length lm) (length rm) (lu1, ru1, ps1)"
    and named: "named_pairs lm rm ps1" by simp_all
  have perm: "mset (map fst ?sorted) = mset (map fst ?ps)" "mset (map snd ?sorted) = mset (map snd ?ps)"
    by simp_all
  have d: "distinct (map fst ?sorted)" "distinct (map snd ?sorted)"
    using offset_pairs_distinct [OF ord, of lu1 lm ru1 rm] mset_eq_imp_distinct_iff perm by blast+
  have at: "li < length lm \<and> \<not> lu1 ! li \<and> ri < length rm \<and> \<not> ru1 ! ri \<and>
      cm_bit_offset (lm ! li) = cm_bit_offset (rm ! ri) \<and> cm_bit_offset (lm ! li) \<noteq> None"
    if "(li, ri) \<in> set ?sorted" for li ri
    using that offset_pairs_set [OF ord, of li ri lu1 lm ru1 rm] unpaired_atD by (metis set_sort not_None_eq)
  have st: "(lu, ru, pairs) = fold offset_step ?sorted (lu1, ru1, ps1)"
    using run by (simp add: match_members_def names)
  have "match_ok (length lm) (length rm) (lu, ru, pairs) \<and>
      pairs = ps1 @ map (\<lambda>(li, ri). (li, ri, True)) ?sorted"
    using offset_fold_ok [OF ok1 d] at by (fastforce simp flip: st)
  then show "match_ok (length lm) (length rm) (lu, ru, pairs)"
    and "(li, ri, renamed) \<in> set pairs \<Longrightarrow> li < length lm \<and> ri < length rm \<and>
      (if renamed then cm_bit_offset (lm ! li) = cm_bit_offset (rm ! ri) \<and> cm_bit_offset (lm ! li) \<noteq> None
       else cm_name (lm ! li) = cm_name (rm ! ri) \<and> cm_name (lm ! li) \<noteq> [])"
    using named at by (auto simp: named_pairs_def list_all_iff)
qed

subsection \<open>What the diff promises\<close>

lemma index_partition:
  assumes "distinct xs" and "set xs = {i. i < n \<and> P i}"
  shows "mset xs + mset (filter (\<lambda>i. \<not> P i) [0..<n]) = mset [0..<n]"
proof -
  have "mset xs = mset (filter P [0..<n])"
    by (rule set_eq_iff_mset_eq_distinct [THEN iffD1]) (use assms in auto)
  moreover have "mset (filter P ys) + mset (filter (\<lambda>i. \<not> P i) ys) = mset ys" for ys
    by (induction ys) auto
  ultimately show ?thesis by (simp only:)
qed

lemma members_split:
  assumes "is_hash_order ord" and "match_members ord lm rm = (lu, ru, pairs)"
  shows "mset (map fst pairs) + mset (filter (\<lambda>i. \<not> lu ! i) [0..<length lm]) = mset [0..<length lm]"
    and "mset (map (\<lambda>(_, ri, _). ri) pairs) + mset (filter (\<lambda>i. \<not> ru ! i) [0..<length rm])
      = mset [0..<length rm]"
    and "\<forall>(li, ri, _) \<in> set pairs.
      (cm_name (lm ! li) = cm_name (rm ! ri) \<and> cm_name (lm ! li) \<noteq> []) \<or>
      (cm_bit_offset (lm ! li) = cm_bit_offset (rm ! ri) \<and> cm_bit_offset (lm ! li) \<noteq> None)"
proof -
  note ok = match_members_ok(1) [OF assms, unfolded match_ok_def prod.case]
  show "mset (map fst pairs) + mset (filter (\<lambda>i. \<not> lu ! i) [0..<length lm]) = mset [0..<length lm]"
    by (rule index_partition) (use ok in blast)+
  show "mset (map (\<lambda>(_, ri, _). ri) pairs) + mset (filter (\<lambda>i. \<not> ru ! i) [0..<length rm]) = mset [0..<length rm]"
    by (rule index_partition) (use ok in blast)+
  show "\<forall>(li, ri, _) \<in> set pairs.
      (cm_name (lm ! li) = cm_name (rm ! ri) \<and> cm_name (lm ! li) \<noteq> []) \<or>
      (cm_bit_offset (lm ! li) = cm_bit_offset (rm ! ri) \<and> cm_bit_offset (lm ! li) \<noteq> None)"
  proof
    fix x assume x: "x \<in> set pairs"
    obtain li ri renamed where "x = (li, ri, renamed)" by (cases x)
    with match_members_ok(2) [OF assms, of li ri renamed] x
    show "case x of (li, ri, _) \<Rightarrow>
      (cm_name (lm ! li) = cm_name (rm ! ri) \<and> cm_name (lm ! li) \<noteq> []) \<or>
      (cm_bit_offset (lm ! li) = cm_bit_offset (rm ! ri) \<and> cm_bit_offset (lm ! li) \<noteq> None)"
      by (cases renamed) auto
  qed
qed

text \<open>
  The pairing accounts for every member once: on either side a member is in exactly one pair
  or reported as removed (added), and a pair shares a non-empty name or an offset.
\<close>

theorem members_partition:
  assumes "is_hash_order ord" and "match_members ord lm rm = (lu, ru, pairs)"
  shows "(mset (map fst pairs) + mset (filter (\<lambda>i. \<not> lu ! i) [0..<length lm]) = mset [0..<length lm]) \<and>
    (mset (map (\<lambda>(_, ri, _). ri) pairs) + mset (filter (\<lambda>i. \<not> ru ! i) [0..<length rm])
      = mset [0..<length rm]) \<and>
    (\<forall>(li, ri, _) \<in> set pairs.
      (cm_name (lm ! li) = cm_name (rm ! ri) \<and> cm_name (lm ! li) \<noteq> []) \<or>
      (cm_bit_offset (lm ! li) = cm_bit_offset (rm ! ri) \<and> cm_bit_offset (lm ! li) \<noteq> None))"
  using members_split [OF assms] by blast

lemma map_filter_mset: "mset xs = mset ys \<Longrightarrow> mset (List.map_filter f xs) = mset (List.map_filter f ys)"
  by (simp add: map_filter_def)

lemma match_members_order:
  assumes "is_hash_order ord"
  shows "match_members ord lm rm = match_members (\<lambda>xs. xs) lm rm"
proof -
  have "sort_key fst (offset_pairs ord (group_unpaired_by_offset lu lm) (group_unpaired_by_offset ru rm))
      = sort_key fst (offset_pairs (\<lambda>xs. xs) (group_unpaired_by_offset lu lm) (group_unpaired_by_offset ru rm))"
    for lu ru
  proof (rule sort_key_perm)
    show "distinct (map fst (offset_pairs ord (group_unpaired_by_offset lu lm) (group_unpaired_by_offset ru rm)))"
      by (rule offset_pairs_distinct(1) [OF assms])
    show "mset (offset_pairs ord (group_unpaired_by_offset lu lm) (group_unpaired_by_offset ru rm)) =
        mset (offset_pairs (\<lambda>xs. xs) (group_unpaired_by_offset lu lm) (group_unpaired_by_offset ru rm))"
      unfolding offset_pairs_def using assms by (intro map_filter_mset) (simp add: is_hash_order_def)
  qed
  then show ?thesis by (simp add: match_members_def split: prod.split)
qed

lemma diff_members_order:
  "is_hash_order ord \<Longrightarrow> diff_members ord dtys path lm rm = diff_members (\<lambda>xs. xs) dtys path lm rm"
  by (simp add: diff_members_def match_members_order)

text \<open>The equations of the walk, and the induction it justifies: a case per pair it takes apart.\<close>

lemma diff_into_same [simp]: "diff_into ord path a a = []"
  by (simp add: diff_into.simps)

lemma diff_into_aggregate:
  "CAggregate tag k lm ls \<noteq> CAggregate tag k rm rs \<Longrightarrow>
   diff_into ord path (CAggregate tag k lm ls) (CAggregate tag k rm rs) =
     diff_sizes path ls rs @ diff_members ord (map (\<lambda>m p r. diff_into ord p (cm_ty m) r) lm) path lm rm"
  by (subst diff_into.simps) (simp del: canonical_type.inject)

lemma diff_into_enum:
  "CEnum tag lu lm ls \<noteq> CEnum tag ru rm rs \<Longrightarrow>
   diff_into ord path (CEnum tag lu lm ls) (CEnum tag ru rm rs) =
     diff_into ord (join path ''underlying'') lu ru @ diff_sizes path ls rs @ diff_constants path lm rm"
  by (subst diff_into.simps) (simp del: canonical_type.inject)

lemma diff_into_ptr: "diff_into ord path (CPtr l w) (CPtr r w) = diff_into ord path l r"
  by (cases "l = r") (simp, subst diff_into.simps, simp)

lemma diff_into_array: "diff_into ord path (CArray l n) (CArray r n) = diff_into ord path l r"
  by (cases "l = r") (simp, subst diff_into.simps, simp)

lemma diff_into_function:
  "CFunction lret lp va \<noteq> CFunction rret rp va \<Longrightarrow> length lp = length rp \<Longrightarrow>
   diff_into ord path (CFunction lret lp va) (CFunction rret rp va) =
     diff_into ord (join path ''return'') lret rret @
     concat (map (\<lambda>(i, x, y). diff_into ord (join path (''arg'' @ show_nat i)) x y)
       (enumerate 0 (zip lp rp)))"
  by (subst diff_into.simps) (simp del: canonical_type.inject)

lemmas diff_into_eqs = diff_into_aggregate diff_into_enum diff_into_ptr diff_into_array
  diff_into_function

lemma diff_induct [case_names same aggregate enum ptr array function_type retyped]:
  assumes same: "\<And>path a. P path a a"
    and aggregate: "\<And>path tag k lm ls rm rs.
      CAggregate tag k lm ls \<noteq> CAggregate tag k rm rs \<Longrightarrow> (\<And>m p r. m \<in> set lm \<Longrightarrow> P p (cm_ty m) r)
      \<Longrightarrow> P path (CAggregate tag k lm ls) (CAggregate tag k rm rs)"
    and enum: "\<And>path tag lu lm ls ru rm rs.
      CEnum tag lu lm ls \<noteq> CEnum tag ru rm rs \<Longrightarrow> (\<And>p. P p lu ru)
      \<Longrightarrow> P path (CEnum tag lu lm ls) (CEnum tag ru rm rs)"
    and ptr: "\<And>path l r w. P path l r \<Longrightarrow> P path (CPtr l w) (CPtr r w)"
    and array: "\<And>path l r n. P path l r \<Longrightarrow> P path (CArray l n) (CArray r n)"
    and function_type: "\<And>path lret lp va rret rp.
      CFunction lret lp va \<noteq> CFunction rret rp va \<Longrightarrow> length lp = length rp \<Longrightarrow> (\<And>p. P p lret rret)
      \<Longrightarrow> (\<And>p x y. x \<in> set lp \<Longrightarrow> P p x y)
      \<Longrightarrow> P path (CFunction lret lp va) (CFunction rret rp va)"
    and retyped: "\<And>path a b. a \<noteq> b \<Longrightarrow> (\<And>ord p. diff_into ord p a b = [mk_change p (Retyped a b)])
      \<Longrightarrow> P path a b"
  shows "P path a b"
proof (induction a arbitrary: path b rule: measure_induct_rule [where f = size])
  case (less a path b)
  show ?case
  proof (cases "a = b")
    case False
    note whole = retyped [OF False]
    show ?thesis
    proof (cases a)
      case (CAggregate tag k lm ls)
      show ?thesis
      proof (cases "\<exists>rm rs. b = CAggregate tag k rm rs")
        case True
        then obtain rm rs where b: "b = CAggregate tag k rm rs" by blast
        have "P path (CAggregate tag k lm ls) (CAggregate tag k rm rs)"
        proof (rule aggregate)
          show "CAggregate tag k lm ls \<noteq> CAggregate tag k rm rs" using CAggregate False b by blast
          show "P p (cm_ty m) r" if "m \<in> set lm" for m p r
            by (rule less.IH) (use that CAggregate in \<open>simp add: cm_ty_size\<close>)
        qed
        with CAggregate b show ?thesis by simp
      next
        case other: False
        show ?thesis
          by (rule whole, subst diff_into.simps) (use CAggregate False other in \<open>auto split: canonical_type.split\<close>)
      qed
    next
      case (CEnum tag lu lm ls)
      show ?thesis
      proof (cases "\<exists>ru rm rs. b = CEnum tag ru rm rs")
        case True
        then obtain ru rm rs where b: "b = CEnum tag ru rm rs" by blast
        have "P path (CEnum tag lu lm ls) (CEnum tag ru rm rs)"
        proof (rule enum)
          show "CEnum tag lu lm ls \<noteq> CEnum tag ru rm rs" using CEnum False b by blast
          show "P p lu ru" for p by (rule less.IH) (use CEnum in simp)
        qed
        with CEnum b show ?thesis by simp
      next
        case other: False
        show ?thesis
          by (rule whole, subst diff_into.simps) (use CEnum False other in \<open>auto split: canonical_type.split\<close>)
      qed
    next
      case (CPtr l w)
      show ?thesis
      proof (cases "\<exists>r. b = CPtr r w")
        case True
        then obtain r where b: "b = CPtr r w" by blast
        have "P path l r" by (rule less.IH) (use CPtr in simp)
        with CPtr b show ?thesis by (simp add: ptr)
      next
        case other: False
        show ?thesis
          by (rule whole, subst diff_into.simps) (use CPtr False other in \<open>auto split: canonical_type.split\<close>)
      qed
    next
      case (CArray l n)
      show ?thesis
      proof (cases "\<exists>r. b = CArray r n")
        case True
        then obtain r where b: "b = CArray r n" by blast
        have "P path l r" by (rule less.IH) (use CArray in simp)
        with CArray b show ?thesis by (simp add: array)
      next
        case other: False
        show ?thesis
          by (rule whole, subst diff_into.simps) (use CArray False other in \<open>auto split: canonical_type.split\<close>)
      qed
    next
      case (CFunction lret lp va)
      show ?thesis
      proof (cases "\<exists>rret rp. b = CFunction rret rp va \<and> length lp = length rp")
        case True
        then obtain rret rp where b: "b = CFunction rret rp va" "length lp = length rp" by blast
        have "P path (CFunction lret lp va) (CFunction rret rp va)"
        proof (rule function_type)
          show "CFunction lret lp va \<noteq> CFunction rret rp va" using CFunction False b by blast
          show "P p lret rret" for p by (rule less.IH) (use CFunction in simp)
          show "P p x y" if "x \<in> set lp" for p x y
            by (rule less.IH) (use that CFunction in \<open>simp add: param_size\<close>)
        qed (rule b(2))
        with CFunction b show ?thesis by simp
      next
        case other: False
        show ?thesis
          by (rule whole, subst diff_into.simps) (use CFunction False other in \<open>auto split: canonical_type.split\<close>)
      qed
    qed (rule whole, subst diff_into.simps, use False in simp)+
  qed (simp add: same)
qed

lemma diff_into_order:
  assumes "is_hash_order ord"
  shows "diff_into ord path a b = diff_into (\<lambda>xs. xs) path a b"
proof (induction path a b rule: diff_induct)
  case (aggregate path tag k lm ls rm rs)
  have same: "map (\<lambda>m p r. diff_into ord p (cm_ty m) r) lm = map (\<lambda>m p r. diff_into (\<lambda>xs. xs) p (cm_ty m) r) lm"
    by (rule map_cong [OF refl]) (intro ext aggregate(2))
  show ?case
    unfolding diff_into_aggregate [OF aggregate(1)] diff_members_order [OF assms] same ..
next
  case (function_type path lret lp va rret rp)
  have same: "map (\<lambda>(i, x, y). diff_into ord (join path (''arg'' @ show_nat i)) x y) (enumerate 0 (zip lp rp)) =
      map (\<lambda>(i, x, y). diff_into (\<lambda>xs. xs) (join path (''arg'' @ show_nat i)) x y) (enumerate 0 (zip lp rp))"
    using function_type(4) by (auto dest!: enumerate_zip_left)
  show ?case
    unfolding diff_into_function [OF function_type(1,2)] same function_type(3) ..
qed (simp_all add: diff_into_eqs)

text \<open>
  C33: the diff does not depend on the iteration order of the hash map of unpaired members.
\<close>

theorem diff_order_irrelevant:
  "is_hash_order ord \<Longrightarrow> diff ord a b = diff (\<lambda>xs. xs) a b"
  unfolding diff_def by (rule diff_into_order)

text \<open>A change that reports a facet reports two different values of it.\<close>

fun change_real :: "change_kind \<Rightarrow> bool" where
  "change_real (Retyped l r) = (l \<noteq> r)"
| "change_real (Moved x y) = (x \<noteq> y)"
| "change_real (BitfieldChanged x y) = (x \<noteq> y)"
| "change_real (SizeChanged l r) = (l \<noteq> r)"
| "change_real (ConstantChanged l r) = (l \<noteq> r)"
| "change_real _ = True"

abbreviation real_diff :: "type_diff \<Rightarrow> bool" where
  "real_diff \<equiv> list_all (\<lambda>c. change_real (ch_kind c))"

lemma diff_sizes_real [simp]: "real_diff (diff_sizes path ls rs)"
  by (simp add: diff_sizes_def)

lemma diff_constants_real [simp]: "real_diff (diff_constants path lm rm)"
  by (auto simp: diff_constants_def list_all_iff split: option.splits if_splits)

lemma diff_against_real:
  "(\<And>p r. real_diff (dty p r)) \<Longrightarrow> real_diff (diff_against dty l r parent mv)"
  by (auto simp: diff_against_def Let_def split: option.split)

lemma diff_members_real:
  assumes ord: "is_hash_order ord" and dtys: "\<And>li p r. li < length lm \<Longrightarrow> real_diff ((dtys ! li) p r)"
  shows "real_diff (diff_members ord dtys path lm rm)"
proof -
  obtain lu ru pairs where run: "match_members ord lm rm = (lu, ru, pairs)"
    by (cases "match_members ord lm rm")
  have "li < length lm" if "(li, ri, b) \<in> set pairs" for li ri b
    using match_members_ok(2) [OF ord run that] by simp
  then have "real_diff (diff_against (dtys ! li) l r path mv)" if "(li, ri, b) \<in> set pairs" for li ri b l r mv
    using that dtys by (intro diff_against_real) blast
  then show ?thesis
    unfolding diff_members_def run
    by (auto simp: list_all_iff Let_def)
qed

text \<open>
  No change is vacuous: a reported retype, move, resize, bitfield or constant change carries
  two different values.
\<close>

theorem diff_reports_real:
  assumes "is_hash_order ord"
  shows "list_all (\<lambda>c. change_real (ch_kind c)) (diff ord a b)"
proof -
  have "real_diff (diff_into ord path a b)" for path
  proof (induction path a b rule: diff_induct)
    case (aggregate path tag k lm ls rm rs)
    have "real_diff (diff_members ord (map (\<lambda>m p r. diff_into ord p (cm_ty m) r) lm) path lm rm)"
      by (rule diff_members_real [OF assms]) (simp add: aggregate)
    with aggregate(1) show ?case by (simp add: diff_into_aggregate)
  next
    case (function_type path lret lp va rret rp)
    have "real_diff (diff_into ord p x y)" if "(i, x, y) \<in> set (enumerate 0 (zip lp rp))" for i x y p
      using function_type(4) enumerate_zip_left [OF that] by blast
    with function_type show ?case by (auto simp: diff_into_function list_all_iff)
  qed (simp_all add: diff_into_eqs)
  then show ?thesis unfolding diff_def .
qed

text \<open>
  The counters split the changes: each is an addition, a removal, a change in place or a
  resize.
\<close>

theorem diff_counts:
  "length d = diff_added d + diff_removed d + diff_changed d +
     length (filter (\<lambda>c. \<exists>l r. ch_kind c = SizeChanged l r) d)"
proof (induction d)
  case (Cons c d)
  then show ?case by (cases "ch_kind c") (auto simp: diff_added_def diff_removed_def diff_changed_def)
qed (simp add: diff_added_def diff_removed_def diff_changed_def)

subsection \<open>An empty diff\<close>

text \<open>
  The ABI-exact forms of types laid out in order: every member has an offset, a struct lists its
  members by increasing offset, a union and an enum by increasing name.
\<close>

fun layout_ok :: "canonical_type \<Rightarrow> bool" where
  "layout_ok (CPtr c _) = layout_ok c"
| "layout_ok (CArray c _) = layout_ok c"
| "layout_ok (CAggregate _ k ms _) =
     (list_all (\<lambda>m. layout_ok (cm_ty m) \<and> cm_bit_offset m \<noteq> None) ms \<and>
      (case k of RStruct \<Rightarrow> sorted_wrt (<) (map (\<lambda>m. the (cm_bit_offset m)) ms)
       | RUnion \<Rightarrow> sorted_wrt (<) (map cm_name ms)))"
| "layout_ok (CEnum _ u ms _) = (layout_ok u \<and> sorted_wrt (<) (map fst ms))"
| "layout_ok (CFunction r ps _) = (layout_ok r \<and> list_all layout_ok ps)"
| "layout_ok (CTypedef _ u) = layout_ok u"
| "layout_ok _ = True"

lemma strict_sorted_perm:
  fixes k :: "'a \<Rightarrow> 'b :: linorder"
  assumes "mset xs = mset ys" and "sorted_wrt (<) (map k xs)" and "sorted_wrt (<) (map k ys)"
  shows "xs = ys"
proof -
  have s: "sort_key k zs = zs" "distinct (map k zs)" if "sorted_wrt (<) (map k zs)" for zs
    using that by (auto simp: strict_sorted_iff sorted_sort_id intro: sort_key_id_if_sorted)
  from sort_key_perm [OF assms(1) s(2) [OF assms(2)]] s(1) assms show ?thesis by metis
qed

lemma matched_perm:
  assumes ok: "match_ok (length lm) (length rm) (lu, ru, pairs)"
    and all: "\<forall>i < length lm. lu ! i" "\<forall>i < length rm. ru ! i"
    and eq: "\<And>li ri b. (li, ri, b) \<in> set pairs \<Longrightarrow> lm ! li = rm ! ri"
  shows "mset lm = mset rm"
proof -
  note ok = ok [unfolded match_ok_def prod.case]
  have "mset (map fst pairs) + mset (filter (\<lambda>i. \<not> lu ! i) [0..<length lm]) = mset [0..<length lm]"
    "mset (map (\<lambda>(_, ri, _). ri) pairs) + mset (filter (\<lambda>i. \<not> ru ! i) [0..<length rm]) = mset [0..<length rm]"
    by (rule index_partition; use ok in blast)+
  moreover have "filter (\<lambda>i. \<not> lu ! i) [0..<length lm] = []" "filter (\<lambda>i. \<not> ru ! i) [0..<length rm] = []"
    using all by (simp_all add: filter_empty_conv)
  ultimately have perm: "mset (map fst pairs) = mset [0..<length lm]"
    "mset (map (\<lambda>(_, ri, _). ri) pairs) = mset [0..<length rm]" by (simp_all only: mset.simps add_0_right)
  have "mset lm = mset (map ((!) lm) [0..<length lm])" by (simp only: map_nth)
  also have "\<dots> = mset (map ((!) lm) (map fst pairs))" using perm(1) by (metis mset_map)
  also have "map ((!) lm) (map fst pairs) = map ((!) rm) (map (\<lambda>(_, ri, _). ri) pairs)"
    using eq by auto
  also have "mset \<dots> = mset (map ((!) rm) [0..<length rm])" using perm(2) by (metis mset_map)
  also have "\<dots> = mset rm" by (simp only: map_nth)
  finally show ?thesis .
qed

lemma diff_constants_empty:
  assumes "diff_constants path lm rm = []" and "sorted_wrt (<) (map fst lm)" and "sorted_wrt (<) (map fst rm)"
  shows "lm = rm"
proof (rule strict_sorted_perm [OF _ assms(2,3)])
  have d: "distinct (map fst lm)" "distinct (map fst rm)" using assms(2,3) by (simp_all add: strict_sorted_iff)
  have left: "(n, v) \<in> set rm" if "(n, v) \<in> set lm" for n v
  proof -
    from that assms(1) have "(case List.find (\<lambda>(rn, _). rn = n) rm of
          Some (_, rv) \<Rightarrow> if rv \<noteq> v then [mk_change (join path n) (ConstantChanged v rv)] else []
        | None \<Rightarrow> [mk_change (join path n) (ConstantRemoved v)]) = []"
      by (auto simp: diff_constants_def)
    then have "List.find (\<lambda>(rn, _). rn = n) rm = Some (n, v)"
      by (auto split: option.splits if_splits dest!: find_Some_iff [THEN iffD1])
    then show ?thesis by (auto dest!: find_Some_iff [THEN iffD1] simp: in_set_conv_nth)
  qed
  have "(n, v) \<in> set lm" if r: "(n, v) \<in> set rm" for n v
  proof -
    from r assms(1) have "list_ex (\<lambda>(ln, _). ln = n) lm"
      by (auto simp: diff_constants_def split: if_splits)
    then obtain v' where v': "(n, v') \<in> set lm" by (auto simp: list_ex_iff)
    from left [OF this] r d(2) have "v' = v" by (meson eq_key_imp_eq_value)
    with v' show ?thesis by simp
  qed
  with left have "set lm = set rm" by auto
  then show "mset lm = mset rm"
    using d by (simp add: distinct_map set_eq_iff_mset_eq_distinct)
qed

lemma diff_against_empty:
  assumes "diff_against dty l r path True = []"
    and "cm_bit_offset l \<noteq> None" and "cm_bit_offset r \<noteq> None"
  shows "dty (path_in r path) (cm_ty r) = []" and "cm_bitfield_width l = cm_bitfield_width r"
    and "cm_bit_offset l = cm_bit_offset r"
  using assms by (auto simp: diff_against_def Let_def split: if_splits)

lemma diff_members_empty:
  assumes ord: "is_hash_order ord" and empty: "diff_members ord dtys path lm rm = []"
    and offs: "\<And>m. m \<in> set lm \<union> set rm \<Longrightarrow> cm_bit_offset m \<noteq> None"
    and tys: "\<And>li r p. li < length lm \<Longrightarrow> r \<in> set rm \<Longrightarrow> (dtys ! li) p (cm_ty r) = []
      \<Longrightarrow> cm_ty (lm ! li) = cm_ty r"
  shows "mset lm = mset rm"
proof -
  obtain lu ru pairs where run: "match_members ord lm rm = (lu, ru, pairs)"
    by (cases "match_members ord lm rm")
  note ok = match_members_ok [OF ord run]
  from empty have parts: "filter (\<lambda>(li, _). \<not> lu ! li) (enumerate 0 lm) = []"
    "filter (\<lambda>(ri, _). \<not> ru ! ri) (enumerate 0 rm) = []"
    by (simp_all add: diff_members_def run Let_def)
  then have all: "\<forall>i < length lm. lu ! i" "\<forall>i < length rm. ru ! i"
    by (auto simp: filter_empty_conv in_set_enumerate_eq)
  with ok(1) have used: "\<not> list_ex (\<lambda>u. \<not> u) lu" "\<not> list_ex (\<lambda>u. \<not> u) ru"
    by (auto simp: match_ok_def list_ex_iff in_set_conv_nth)
  have eq: "lm ! li = rm ! ri" if p: "(li, ri, b) \<in> set pairs" for li ri b
  proof -
    have len: "li < length lm" "ri < length rm" using ok(2) [OF p] by auto
    from empty p used have names: "\<not> (b \<and> cm_name (lm ! li) \<noteq> cm_name (rm ! ri))"
      and sub: "diff_against (dtys ! li) (lm ! li) (rm ! ri) path True = []"
      by (auto simp: diff_members_def run Let_def split: if_splits)
    have "cm_name (lm ! li) = cm_name (rm ! ri)" using ok(2) [OF p] names by (cases b) auto
    moreover from diff_against_empty [OF sub] offs len
    have "(dtys ! li) (path_in (rm ! ri) path) (cm_ty (rm ! ri)) = []"
      "cm_bitfield_width (lm ! li) = cm_bitfield_width (rm ! ri)"
      "cm_bit_offset (lm ! li) = cm_bit_offset (rm ! ri)" by simp_all
    moreover from tys [OF len(1) _ this(1)] len have "cm_ty (lm ! li) = cm_ty (rm ! ri)" by simp
    ultimately show ?thesis by (simp add: canonical_member.expand)
  qed
  show ?thesis by (rule matched_perm [OF ok(1) all eq])
qed

lemma diff_into_empty:
  assumes ord: "is_hash_order ord"
  shows "layout_ok a \<Longrightarrow> layout_ok b \<Longrightarrow> diff_into ord path a b = [] \<Longrightarrow> a = b"
proof (induction path a b rule: diff_induct)
  case (aggregate path tag k lm ls rm rs)
  from aggregate.prems(3) have sizes: "ls = rs"
    and members: "diff_members ord (map (\<lambda>m p r. diff_into ord p (cm_ty m) r) lm) path lm rm = []"
    by (auto simp: diff_into_aggregate [OF aggregate.hyps] diff_sizes_def split: if_splits)
  have "mset lm = mset rm"
  proof (rule diff_members_empty [OF ord members])
    show "cm_bit_offset m \<noteq> None" if "m \<in> set lm \<union> set rm" for m
      using that aggregate.prems by (auto simp: list_all_iff)
    show "cm_ty (lm ! li) = cm_ty r"
      if "li < length lm" "r \<in> set rm"
        "(map (\<lambda>m p r. diff_into ord p (cm_ty m) r) lm ! li) p (cm_ty r) = []" for li r p
    proof (rule aggregate.IH [of "lm ! li"])
      show "lm ! li \<in> set lm" using that by simp
      then show "layout_ok (cm_ty (lm ! li))" using aggregate.prems by (simp add: list_all_iff)
      show "layout_ok (cm_ty r)" using aggregate.prems that by (simp add: list_all_iff)
      show "diff_into ord p (cm_ty (lm ! li)) (cm_ty r) = []" using that by simp
    qed
  qed
  with aggregate.prems have "lm = rm"
    by (cases k) (auto intro: strict_sorted_perm [of lm rm cm_name]
        strict_sorted_perm [of lm rm "\<lambda>m. the (cm_bit_offset m)"])
  with sizes show ?case by simp
next
  case (enum path tag lu lm ls ru rm rs)
  from enum.prems(3) have "ls = rs" "diff_constants path lm rm = []"
    "diff_into ord (join path ''underlying'') lu ru = []"
    by (auto simp: diff_into_enum [OF enum.hyps] diff_sizes_def split: if_splits)
  with enum.prems enum.IH diff_constants_empty [of path lm rm] show ?case by auto
next
  case (function_type path lret lp va rret rp)
  note eq = diff_into_function [OF function_type.hyps]
  from function_type.prems have "lret = rret" by (auto simp: eq intro: function_type.IH(1))
  moreover have "lp = rp"
  proof (rule nth_equalityI [OF function_type.hyps(2)])
    fix i assume i: "i < length lp"
    have "(i, lp ! i, rp ! i) \<in> set (enumerate 0 (zip lp rp))"
      using i function_type.hyps(2) by (simp add: in_set_enumerate_eq)
    with function_type.prems(3) have "diff_into ord (join path (''arg'' @ show_nat i)) (lp ! i) (rp ! i) = []"
      by (auto simp: eq)
    with function_type.prems function_type.hyps(2) i show "lp ! i = rp ! i"
      by (intro function_type.IH(2)) (auto simp: list_all_iff)
  qed
  ultimately show ?case by simp
qed (auto simp: diff_into_eqs)

text \<open>
  C10: on ABI-exact forms of types laid out in order the diff is empty exactly when the two types
  are equal.
\<close>

theorem diff_empty_iff_equal:
  assumes "is_hash_order ord" and "layout_ok a" and "layout_ok b"
  shows "diff ord a b = [] \<longleftrightarrow> a = b"
  using diff_into_empty [OF assms, of "[]"] by (auto simp: diff_def)

subsection \<open>Runs\<close>

abbreviation i32 :: canonical_type where
  "i32 \<equiv> CInt (Some 4) True"

definition pair_ab :: canonical_type where
  "pair_ab = CAggregate (Some ''s'') RStruct
     [CanonicalMember ''a'' (Some 0) None i32, CanonicalMember ''b'' (Some 32) None i32] (Some 8)"

definition pair_ac :: canonical_type where
  "pair_ac = CAggregate (Some ''s'') RStruct
     [CanonicalMember ''a'' (Some 0) None i32, CanonicalMember ''c'' (Some 32) None i32] (Some 8)"

lemma is_hash_order_rev [simp]: "is_hash_order rev" "is_hash_order (\<lambda>xs. xs)"
  by (simp_all add: is_hash_order_def)

lemmas diff_eval = diff_def diff_sizes_def diff_members_def match_members_def
  match_names_def name_step_def group_unpaired_by_offset_def offset_pairs_def offset_pair_def
  offset_step_def diff_against_def path_in_def join_def enumerate_eq_zip upt_rec
  List.map_filter_simps

lemma pair_matching:
  "match_members (\<lambda>xs. xs)
     [CanonicalMember ''a'' (Some 0) None i32, CanonicalMember ''b'' (Some 32) None i32]
     [CanonicalMember ''a'' (Some 0) None i32, CanonicalMember ''c'' (Some 32) None i32] =
   ([True, True], [True, True], [(0, 0, False), (1, 1, True)])"
  by (simp add: diff_eval)

theorem members_partition_witness:
  "mset (map fst [(0 :: nat, 0 :: nat, False), (1, 1, True)]) + mset (filter (\<lambda>i. \<not> [True, True] ! i) [0..<2])
     = mset [0..<2]"
  using members_partition [OF is_hash_order_rev(2) pair_matching] by (simp add: eval_nat_numeral)

theorem diff_order_irrelevant_witness:
  "diff rev pair_ab pair_ac = diff (\<lambda>xs. xs) pair_ab pair_ac"
  by (rule diff_order_irrelevant) simp

theorem diff_reports_real_witness:
  "list_all (\<lambda>c. change_real (ch_kind c)) (diff rev pair_ab pair_ac)"
  by (rule diff_reports_real) simp

theorem diff_empty_iff_equal_witness:
  "diff (\<lambda>xs. xs) pair_ab pair_ac \<noteq> []"
proof -
  have "layout_ok pair_ab" "layout_ok pair_ac" by (simp_all add: pair_ab_def pair_ac_def)
  moreover have "pair_ab \<noteq> pair_ac" by (simp add: pair_ab_def pair_ac_def)
  ultimately show ?thesis using diff_empty_iff_equal [of "\<lambda>xs. xs" pair_ab pair_ac] by simp
qed

text \<open>
  An empty diff does not make two types equal in general: a size-abstracted struct whose
  fields changed places keeps its name pairs and reports no move, so its diff is empty.
\<close>

theorem logical_reorder_unreported:
  "let a = CAggregate (Some ''s'') RStruct
         [CanonicalMember ''x'' None None CBool, CanonicalMember ''y'' None None (CInt None True)] None;
       b = CAggregate (Some ''s'') RStruct
         [CanonicalMember ''y'' None None (CInt None True), CanonicalMember ''x'' None None CBool] None
   in a \<noteq> b \<and> diff (\<lambda>xs. xs) a b = []"
  by (simp add: diff_eval diff_into_aggregate)

text \<open>
  A resize is anchored at the path of the aggregate it concerns, and an unnamed member has its
  parent's path: the only change between these two structs of one size is the resize of their
  unnamed member, which \<open>size_change\<close> reports as the root's; under a name it is no root resize and
  none of the three counters counts it.
\<close>

theorem nested_resize_counts:
  "let inner = (\<lambda>n. CAggregate None RStruct [CanonicalMember ''v'' (Some 0) None i32] (Some n));
       outer = (\<lambda>name n. CAggregate (Some ''s'') RStruct [CanonicalMember name (Some 0) None (inner n)] (Some 16));
       unnamed = diff (\<lambda>xs. xs) (outer [] 4) (outer [] 8);
       named = diff (\<lambda>xs. xs) (outer ''m'' 4) (outer ''m'' 8)
   in size_change unnamed = Some (Some 4, Some 8) \<and>
      length named = 1 \<and> size_change named = None \<and>
      diff_added named + diff_removed named + diff_changed named = 0"
  by (simp add: diff_eval diff_into_aggregate Let_def diff_added_def diff_removed_def diff_changed_def)

end
