(* ===== verification/Catalog.thy ===== *)
theory Catalog
  imports Canonical_Diff
begin

text \<open>
  \<open>types/diff/catalog.rs\<close>: the snapshot of a database's named types as a map from name to
  canonical form, and the name-paired partition of two snapshots.

  Each entry caches a 128-bit digest of its type, the key the comparison reads. The digest
  (\<open>siphasher\<close> over the derived \<open>Hash\<close>) is code outside the repository: it is the parameter \<open>key\<close>.
  What the code relies on of it, that no two of the types at hand collide, is the hypothesis
  \<open>inj_on key\<close> of the theorem that needs it.
\<close>

record entry =
  en_canonical :: canonical_type
  en_key :: nat

record type_catalog =
  tc_types :: "(string \<times> entry) list"
  tc_opts :: canonical_options
  tc_skipped :: nat

text \<open>
  The named types of a database, in the order the kernel lists them, each with its canonical form
  or the error of resolving it.
\<close>

definition catalog_step ::
  "(canonical_type \<Rightarrow> nat) \<Rightarrow> string \<times> ('e + canonical_type)
   \<Rightarrow> (string \<times> entry) list \<times> nat \<Rightarrow> (string \<times> entry) list \<times> nat" where
  "catalog_step key = (\<lambda>(name, r) (types, skipped).
     (case r of
        Inr c \<Rightarrow> (btree_insert name \<lparr>en_canonical = c, en_key = key c\<rparr> types, skipped)
      | Inl _ \<Rightarrow> (types, skipped + 1)))"

definition type_catalog_with ::
  "(canonical_type \<Rightarrow> nat) \<Rightarrow> canonical_options \<Rightarrow> (string \<times> ('e + canonical_type)) list
   \<Rightarrow> type_catalog" where
  "type_catalog_with key opts named =
     (let (types, skipped) = fold (catalog_step key) named ([], 0)
      in \<lparr>tc_types = types, tc_opts = opts, tc_skipped = skipped\<rparr>)"

definition catalog_get :: "type_catalog \<Rightarrow> string \<Rightarrow> canonical_type option" where
  "catalog_get c name = map_option en_canonical (map_of (tc_types c) name)"

definition catalog_contains :: "type_catalog \<Rightarrow> string \<Rightarrow> bool" where
  "catalog_contains c name = (map_of (tc_types c) name \<noteq> None)"

definition catalog_names :: "type_catalog \<Rightarrow> string list" where
  "catalog_names c = map fst (tc_types c)"

definition catalog_iter :: "type_catalog \<Rightarrow> (string \<times> canonical_type) list" where
  "catalog_iter c = map (\<lambda>(n, e). (n, en_canonical e)) (tc_types c)"

definition catalog_len :: "type_catalog \<Rightarrow> nat" where
  "catalog_len c = length (tc_types c)"

record catalog_diff =
  cd_identical :: "string list"
  cd_drifted :: "(string \<times> type_diff) list"
  cd_only_left :: "string list"
  cd_only_right :: "string list"

definition catalog_diff_step ::
  "hash_order \<Rightarrow> type_catalog \<Rightarrow> string \<times> entry
   \<Rightarrow> string list \<times> (string \<times> type_diff) list \<times> string list
   \<Rightarrow> string list \<times> (string \<times> type_diff) list \<times> string list" where
  "catalog_diff_step ord other = (\<lambda>(name, left) (identical, drifted, only_left).
     (case map_of (tc_types other) name of
        Some right \<Rightarrow>
          if en_key left = en_key right then (identical @ [name], drifted, only_left)
          else (identical, drifted @ [(name, diff ord (en_canonical left) (en_canonical right))], only_left)
      | None \<Rightarrow> (identical, drifted, only_left @ [name])))"

text \<open>A debug build refuses catalogs built under different policies: \<open>None\<close> is that panic.\<close>

definition catalog_diff_of ::
  "bool \<Rightarrow> hash_order \<Rightarrow> type_catalog \<Rightarrow> type_catalog \<Rightarrow> catalog_diff option" where
  "catalog_diff_of debug ord c other =
     (if debug \<and> tc_opts c \<noteq> tc_opts other then None
      else
        (let (identical, drifted, only_left) =
               fold (catalog_diff_step ord other) (tc_types c) ([], [], [])
         in Some \<lparr>cd_identical = identical, cd_drifted = drifted, cd_only_left = only_left,
                   cd_only_right = filter (\<lambda>n. \<not> catalog_contains c n) (catalog_names other)\<rparr>))"

definition catalog_diff_shared :: "catalog_diff \<Rightarrow> nat" where
  "catalog_diff_shared d = length (cd_identical d) + length (cd_drifted d)"

definition catalog_diff_is_empty :: "catalog_diff \<Rightarrow> bool" where
  "catalog_diff_is_empty d = (cd_drifted d = [] \<and> cd_only_left d = [] \<and> cd_only_right d = [])"

subsection \<open>Building\<close>

definition catalog_ok :: "(canonical_type \<Rightarrow> nat) \<Rightarrow> type_catalog \<Rightarrow> bool" where
  "catalog_ok key c \<longleftrightarrow> btree_ok (tc_types c) \<and>
     list_all (\<lambda>(_, e). en_key e = key (en_canonical e)) (tc_types c)"

text \<open>The last resolved form of a name in the kernel's listing.\<close>

fun last_resolved :: "(string \<times> ('e + canonical_type)) list \<Rightarrow> string \<Rightarrow> canonical_type option" where
  "last_resolved [] name = None"
| "last_resolved ((n, r) # rest) name =
     (case last_resolved rest name of
        Some c \<Rightarrow> Some c
      | None \<Rightarrow> (case r of Inr c \<Rightarrow> if n = name then Some c else None | Inl _ \<Rightarrow> None))"

lemma btree_insert_all:
  "P (k, v) \<Longrightarrow> list_all P m \<Longrightarrow> list_all P (btree_insert k v m)"
  by (induction m) auto

lemma catalog_fold:
  assumes "btree_ok types" and "list_all (\<lambda>(_, e). en_key e = key (en_canonical e)) types"
  shows "let (types', skipped') = fold (catalog_step key) named (types, skipped) in
    btree_ok types' \<and> list_all (\<lambda>(_, e). en_key e = key (en_canonical e)) types' \<and>
    skipped' = skipped + length (filter (\<lambda>(_, r). \<exists>e. r = Inl e) named) \<and>
    (\<forall>n. map_option en_canonical (map_of types' n) =
       (case last_resolved named n of Some c \<Rightarrow> Some c
        | None \<Rightarrow> map_option en_canonical (map_of types n)))"
  using assms
proof (induction named arbitrary: types skipped)
  case (Cons x named)
  obtain n r where x: "x = (n, r)" by (cases x)
  show ?case
  proof (cases r)
    case (Inl e)
    with Cons.IH [OF Cons.prems, of "skipped + 1"] show ?thesis
      by (auto simp: x catalog_step_def Let_def split: prod.splits option.splits)
  next
    case (Inr c)
    let ?t = "btree_insert n \<lparr>en_canonical = c, en_key = key c\<rparr> types"
    have "btree_ok ?t" using Cons.prems(1) by auto
    moreover have "list_all (\<lambda>(_, e). en_key e = key (en_canonical e)) ?t"
      by (rule btree_insert_all) (simp_all add: Cons.prems(2))
    ultimately show ?thesis
      using Cons.IH [of ?t skipped] btree_insert_map_of [OF Cons.prems(1)] Inr
      by (auto simp: x catalog_step_def Let_def split: prod.splits option.splits)
  qed
qed (simp split: option.split)

lemma catalog_built:
  "catalog_ok key (type_catalog_with key opts named) \<and>
   catalog_get (type_catalog_with key opts named) name = last_resolved named name \<and>
   tc_skipped (type_catalog_with key opts named) = length (filter (\<lambda>(_, r). \<exists>e. r = Inl e) named) \<and>
   sorted_wrt (<) (catalog_names (type_catalog_with key opts named))"
  using catalog_fold [of "[]" key named 0]
  by (auto simp: type_catalog_with_def catalog_ok_def catalog_get_def catalog_names_def btree_ok_def
      Let_def split: prod.splits option.splits)

text \<open>
  A snapshot holds, for each name, the last form that resolved, its cached key is the digest
  of that form, its names are strictly sorted, and every failure is counted.
\<close>

theorem type_catalog_built:
  "catalog_ok key (type_catalog_with key opts named) \<and>
   catalog_get (type_catalog_with key opts named) name = last_resolved named name \<and>
   tc_skipped (type_catalog_with key opts named) = length (filter (\<lambda>(_, r). \<exists>e. r = Inl e) named) \<and>
   sorted_wrt (<) (catalog_names (type_catalog_with key opts named))"
  by (rule catalog_built)

subsection \<open>Comparing\<close>

lemma catalog_diff_fold:
  "fold (catalog_diff_step ord other) types (i, d, l) =
     (i @ map fst (filter (\<lambda>(n, e). \<exists>r. map_of (tc_types other) n = Some r \<and> en_key e = en_key r) types),
      d @ List.map_filter (\<lambda>(n, e). case map_of (tc_types other) n of
            Some r \<Rightarrow> if en_key e = en_key r then None
              else Some (n, diff ord (en_canonical e) (en_canonical r))
          | None \<Rightarrow> None) types,
      l @ map fst (filter (\<lambda>(n, e). map_of (tc_types other) n = None) types))"
  by (induction types arbitrary: i d l)
    (auto simp: catalog_diff_step_def map_filter_simps split: option.splits)

lemma map_filter_fst:
  "(\<And>e y. e \<in> set es \<Longrightarrow> f e = Some y \<Longrightarrow> fst y = fst e)
   \<Longrightarrow> map fst (List.map_filter f es) = map fst (filter (\<lambda>e. f e \<noteq> None) es)"
  by (induction es) (auto simp: map_filter_simps split: option.split)

lemma catalog_entry:
  "catalog_ok key c \<Longrightarrow> (n, e) \<in> set (tc_types c) \<longleftrightarrow> map_of (tc_types c) n = Some e"
  by (simp add: catalog_ok_def btree_entry)

lemma catalog_key:
  "catalog_ok key c \<Longrightarrow> map_of (tc_types c) n = Some e \<Longrightarrow> en_key e = key (en_canonical e)"
  by (fastforce simp: catalog_ok_def list_all_iff dest: map_of_SomeD)

lemma catalog_get_None: "catalog_get c n = None \<longleftrightarrow> map_of (tc_types c) n = None"
  by (simp add: catalog_get_def)

lemma catalog_partition:
  assumes "catalog_ok key a" and "catalog_ok key b" and "catalog_diff_of debug ord a b = Some d"
  shows "set (cd_identical d) = {n. \<exists>x y. catalog_get a n = Some x \<and> catalog_get b n = Some y \<and> key x = key y}"
    and "set (map fst (cd_drifted d)) =
      {n. \<exists>x y. catalog_get a n = Some x \<and> catalog_get b n = Some y \<and> key x \<noteq> key y}"
    and "set (cd_only_left d) = {n. catalog_get a n \<noteq> None \<and> catalog_get b n = None}"
    and "set (cd_only_right d) = {n. catalog_get b n \<noteq> None \<and> catalog_get a n = None}"
    and "sorted_wrt (<) (cd_identical d)" and "sorted_wrt (<) (map fst (cd_drifted d))"
    and "sorted_wrt (<) (cd_only_left d)" and "sorted_wrt (<) (cd_only_right d)"
proof -
  let ?f = "\<lambda>(n, e). case map_of (tc_types b) n of
      Some r \<Rightarrow> if en_key e = en_key r then None else Some (n, diff ord (en_canonical e) (en_canonical r))
    | None \<Rightarrow> None"
  have d: "cd_identical d = map fst (filter (\<lambda>(n, e). \<exists>r. map_of (tc_types b) n = Some r \<and> en_key e = en_key r) (tc_types a))"
    "cd_drifted d = List.map_filter ?f (tc_types a)"
    "cd_only_left d = map fst (filter (\<lambda>(n, e). map_of (tc_types b) n = None) (tc_types a))"
    "cd_only_right d = filter (\<lambda>n. \<not> catalog_contains a n) (catalog_names b)"
    using assms(3) by (auto simp: catalog_diff_of_def catalog_diff_fold Let_def split: if_splits)
  have drift: "map fst (cd_drifted d) = map fst (filter
      (\<lambda>(n, e). \<exists>r. map_of (tc_types b) n = Some r \<and> en_key e \<noteq> en_key r) (tc_types a))"
  proof -
    have "map fst (cd_drifted d) = map fst (filter (\<lambda>e. ?f e \<noteq> None) (tc_types a))"
      unfolding d by (rule map_filter_fst) (auto split: option.splits if_splits)
    also have "filter (\<lambda>e. ?f e \<noteq> None) (tc_types a) = filter
      (\<lambda>(n, e). \<exists>r. map_of (tc_types b) n = Some r \<and> en_key e \<noteq> en_key r) (tc_types a)"
      by (rule filter_cong [OF refl]) (auto split: option.splits)
    finally show ?thesis .
  qed
  note ok = assms(1,2) [unfolded catalog_ok_def]
  note ka = catalog_key [OF assms(1)] and kb = catalog_key [OF assms(2)]
    and na = catalog_get_None [of a] and nb = catalog_get_None [of b]
    and ea = catalog_entry [OF assms(1)]
  have "n \<in> set (cd_identical d) \<longleftrightarrow>
      (\<exists>x y. catalog_get a n = Some x \<and> catalog_get b n = Some y \<and> key x = key y)" for n
  proof -
    have "n \<in> set (cd_identical d) \<longleftrightarrow>
        (\<exists>e r. map_of (tc_types a) n = Some e \<and> map_of (tc_types b) n = Some r \<and> en_key e = en_key r)"
      unfolding d set_map by (force simp: ea)
    then show ?thesis
      using ka [of n] kb [of n]
      by (cases "map_of (tc_types a) n"; cases "map_of (tc_types b) n") (simp_all add: catalog_get_def)
  qed
  then show "set (cd_identical d) = {n. \<exists>x y. catalog_get a n = Some x \<and> catalog_get b n = Some y \<and> key x = key y}"
    by blast
  have "n \<in> set (map fst (cd_drifted d)) \<longleftrightarrow>
      (\<exists>x y. catalog_get a n = Some x \<and> catalog_get b n = Some y \<and> key x \<noteq> key y)" for n
  proof -
    have "n \<in> set (map fst (cd_drifted d)) \<longleftrightarrow>
        (\<exists>e r. map_of (tc_types a) n = Some e \<and> map_of (tc_types b) n = Some r \<and> en_key e \<noteq> en_key r)"
      unfolding drift set_map by (force simp: ea)
    then show ?thesis
      using ka [of n] kb [of n]
      by (cases "map_of (tc_types a) n"; cases "map_of (tc_types b) n") (simp_all add: catalog_get_def)
  qed
  then show "set (map fst (cd_drifted d)) =
      {n. \<exists>x y. catalog_get a n = Some x \<and> catalog_get b n = Some y \<and> key x \<noteq> key y}"
    by blast
  have "n \<in> set (cd_only_left d) \<longleftrightarrow> (\<exists>e. map_of (tc_types a) n = Some e) \<and> map_of (tc_types b) n = None" for n
    unfolding d set_map by (force simp: ea)
  then show "set (cd_only_left d) = {n. catalog_get a n \<noteq> None \<and> catalog_get b n = None}"
    unfolding na nb set_eq_iff mem_Collect_eq by simp
  have "n \<in> set (catalog_names b) \<longleftrightarrow> map_of (tc_types b) n \<noteq> None" for n
    by (simp add: catalog_names_def map_of_eq_None_iff)
  then show "set (cd_only_right d) = {n. catalog_get b n \<noteq> None \<and> catalog_get a n = None}"
    unfolding na nb set_eq_iff d catalog_contains_def by auto
  show "sorted_wrt (<) (cd_identical d)" "sorted_wrt (<) (cd_only_left d)"
    unfolding d using ok by (simp_all add: btree_filter_sorted)
  show "sorted_wrt (<) (map fst (cd_drifted d))"
    unfolding drift using ok by (simp add: btree_filter_sorted)
  show "sorted_wrt (<) (cd_only_right d)"
    unfolding d catalog_names_def using ok by (simp add: btree_ok_def sorted_wrt_filter)
qed

text \<open>
  The diff of two snapshots partitions their names: a name is identical or drifted exactly
  when both hold it, by whether the keys agree, and else unique to its side; every list is
  strictly sorted.
\<close>

theorem catalog_diff_partition:
  assumes "catalog_ok key a" and "catalog_ok key b" and "catalog_diff_of debug ord a b = Some d"
  shows "(set (cd_identical d) = {n. \<exists>x y. catalog_get a n = Some x \<and> catalog_get b n = Some y \<and> key x = key y}) \<and>
    (set (map fst (cd_drifted d)) =
      {n. \<exists>x y. catalog_get a n = Some x \<and> catalog_get b n = Some y \<and> key x \<noteq> key y}) \<and>
    (set (cd_only_left d) = {n. catalog_get a n \<noteq> None \<and> catalog_get b n = None}) \<and>
    (set (cd_only_right d) = {n. catalog_get b n \<noteq> None \<and> catalog_get a n = None}) \<and>
    (sorted_wrt (<) (cd_identical d)) \<and>
    (sorted_wrt (<) (map fst (cd_drifted d))) \<and>
    (sorted_wrt (<) (cd_only_left d)) \<and>
    (sorted_wrt (<) (cd_only_right d))"
  using catalog_partition [OF assms] by blast

text \<open>
  Where the digest tells the types at hand apart, the diff of two snapshots is empty exactly
  when they give every name the same canonical form.
\<close>

theorem catalog_diff_empty_iff:
  assumes "catalog_ok key a" and "catalog_ok key b" and "catalog_diff_of debug ord a b = Some d"
    and inj: "inj_on key (ran (catalog_get a) \<union> ran (catalog_get b))"
  shows "catalog_diff_is_empty d \<longleftrightarrow> (\<forall>n. catalog_get a n = catalog_get b n)"
proof -
  note part = catalog_partition [OF assms(1-3)]
  have eq: "key x = key y \<longleftrightarrow> x = y" if "catalog_get a n = Some x" "catalog_get b n = Some y" for n x y
    by (rule inj_on_eq_iff [OF inj]) (use that in \<open>auto intro: ranI\<close>)
  have "catalog_diff_is_empty d \<longleftrightarrow>
      set (map fst (cd_drifted d)) = {} \<and> set (cd_only_left d) = {} \<and> set (cd_only_right d) = {}"
    by (simp add: catalog_diff_is_empty_def)
  also have "\<dots> \<longleftrightarrow> (\<forall>n. catalog_get a n = catalog_get b n)"
  proof -
    have "(\<not> (\<exists>x y. catalog_get a n = Some x \<and> catalog_get b n = Some y \<and> key x \<noteq> key y) \<and>
        \<not> (catalog_get a n \<noteq> None \<and> catalog_get b n = None) \<and>
        \<not> (catalog_get b n \<noteq> None \<and> catalog_get a n = None)) \<longleftrightarrow> catalog_get a n = catalog_get b n" for n
      using eq [of n] by (cases "catalog_get a n"; cases "catalog_get b n") auto
    then show ?thesis unfolding part by blast
  qed
  finally show ?thesis .
qed

definition sample_key :: "canonical_type \<Rightarrow> nat" where
  "sample_key c = (if c = CBool then 1 else if c = CVoid then 2 else 3)"

definition sample_left :: type_catalog where
  "sample_left = type_catalog_with sample_key strict
     [(''b'', Inr CBool), (''a'', Inr i32), (''z'', Inl (0 :: nat)), (''b'', Inr CVoid)]"

definition sample_right :: type_catalog where
  "sample_right = type_catalog_with sample_key strict
     [(''c'', Inr CBool), (''a'', Inr CBool), (''b'', Inr CVoid :: nat + canonical_type)]"

lemma sample_ok: "catalog_ok sample_key sample_left" "catalog_ok sample_key sample_right"
  unfolding sample_left_def sample_right_def using catalog_built by blast+

lemma sample_diff:
  "catalog_diff_of True (\<lambda>xs. xs) sample_left sample_right = Some
     \<lparr>cd_identical = [''b''], cd_drifted = [(''a'', [mk_change [] (Retyped i32 CBool)])],
      cd_only_left = [], cd_only_right = [''c'']\<rparr>"
  by (simp add: catalog_diff_of_def sample_left_def sample_right_def type_catalog_with_def
      catalog_step_def catalog_diff_step_def catalog_contains_def catalog_names_def sample_key_def
      diff_def diff_into.simps)

theorem catalog_diff_partition_witness:
  "set [''c''] = {n. catalog_get sample_right n \<noteq> None \<and> catalog_get sample_left n = None}"
  using catalog_diff_partition [OF sample_ok sample_diff] by simp

theorem catalog_diff_empty_iff_witness:
  "\<exists>n. catalog_get sample_left n \<noteq> catalog_get sample_right n"
proof -
  have l: "catalog_get sample_left n = (if n = ''b'' then Some CVoid else if n = ''a'' then Some i32 else None)" for n
    by (simp add: catalog_get_def sample_left_def type_catalog_with_def catalog_step_def)
  have r: "catalog_get sample_right n = (if n = ''b'' then Some CVoid else if n = ''a'' then Some CBool
      else if n = ''c'' then Some CBool else None)" for n
    by (simp add: catalog_get_def sample_right_def type_catalog_with_def catalog_step_def)
  have "ran (catalog_get sample_left) \<subseteq> {CVoid, i32, CBool}" "ran (catalog_get sample_right) \<subseteq> {CVoid, i32, CBool}"
    unfolding ran_def l r by auto
  moreover have "inj_on sample_key {CVoid, i32, CBool}" by (simp add: inj_on_def sample_key_def)
  ultimately have "inj_on sample_key (ran (catalog_get sample_left) \<union> ran (catalog_get sample_right))"
    by (auto intro: inj_on_subset)
  from catalog_diff_empty_iff [OF sample_ok sample_diff this] show ?thesis
    by (simp add: catalog_diff_is_empty_def)
qed

end
