(* ===== verification/Ctree_Ops.thy ===== *)
theory Ctree_Ops
  imports Prelude
begin

text \<open>
  \<open>decompiler/ctree/ops.rs\<close>: the operators an expression node carries, with the raw tag of the
  decompiler as discriminant. \<open>u16::from\<close> is \<open>_code\<close>, \<open>Op::try_from\<close> is \<open>_try_from\<close>: a tag outside
  the set is refused. Each enumeration is an instance of \<open>closed_enum\<close>.
\<close>

subsection \<open>\<open>BinaryOp\<close>\<close>

datatype binary_op =
    OpComma | LogOr | LogAnd | BitOr | BitXor | BitAnd | OpEq | OpNe | Sge | Uge | Sle
     | Ule | Sgt | Ugt | Slt | Ult | Sshr | Ushr | OpShl | OpAdd | OpSub | OpMul | Sdiv
     | Udiv | Smod | Umod | Fadd | Fsub | Fmul | Fdiv

fun binary_op_code :: "binary_op \<Rightarrow> u16" where
  "binary_op_code OpComma = 1"
| "binary_op_code LogOr = 17"
| "binary_op_code LogAnd = 18"
| "binary_op_code BitOr = 19"
| "binary_op_code BitXor = 20"
| "binary_op_code BitAnd = 21"
| "binary_op_code OpEq = 22"
| "binary_op_code OpNe = 23"
| "binary_op_code Sge = 24"
| "binary_op_code Uge = 25"
| "binary_op_code Sle = 26"
| "binary_op_code Ule = 27"
| "binary_op_code Sgt = 28"
| "binary_op_code Ugt = 29"
| "binary_op_code Slt = 30"
| "binary_op_code Ult = 31"
| "binary_op_code Sshr = 32"
| "binary_op_code Ushr = 33"
| "binary_op_code OpShl = 34"
| "binary_op_code OpAdd = 35"
| "binary_op_code OpSub = 36"
| "binary_op_code OpMul = 37"
| "binary_op_code Sdiv = 38"
| "binary_op_code Udiv = 39"
| "binary_op_code Smod = 40"
| "binary_op_code Umod = 41"
| "binary_op_code Fadd = 42"
| "binary_op_code Fsub = 43"
| "binary_op_code Fmul = 44"
| "binary_op_code Fdiv = 45"

definition binary_op_variants :: "binary_op list" where
  "binary_op_variants =
    [OpComma, LogOr, LogAnd, BitOr, BitXor, BitAnd, OpEq, OpNe, Sge, Uge, Sle, Ule, Sgt, Ugt
     , Slt, Ult, Sshr, Ushr, OpShl, OpAdd, OpSub, OpMul, Sdiv, Udiv, Smod, Umod, Fadd, Fsub
     , Fmul, Fdiv]"

definition binary_op_try_from :: "u16 \<Rightarrow> binary_op option" where
  "binary_op_try_from n = try_from binary_op_code binary_op_variants n"

interpretation binary_ops: closed_enum binary_op_code binary_op_variants
proof
  show "distinct (map binary_op_code binary_op_variants)"
    by (simp add: binary_op_variants_def)
  show "v \<in> set binary_op_variants" for v
    by (cases v) (simp_all add: binary_op_variants_def)
qed

fun binary_op_symbol :: "binary_op \<Rightarrow> string" where
  "binary_op_symbol OpComma = '',''"
| "binary_op_symbol LogOr = ''||''"
| "binary_op_symbol LogAnd = ''&&''"
| "binary_op_symbol BitOr = ''|''"
| "binary_op_symbol BitXor = ''^''"
| "binary_op_symbol BitAnd = ''&''"
| "binary_op_symbol OpEq = ''==''"
| "binary_op_symbol OpNe = ''!=''"
| "binary_op_symbol Sge = ''>=''"
| "binary_op_symbol Uge = ''>=''"
| "binary_op_symbol Sle = ''<=''"
| "binary_op_symbol Ule = ''<=''"
| "binary_op_symbol Sgt = ''>''"
| "binary_op_symbol Ugt = ''>''"
| "binary_op_symbol Slt = ''<''"
| "binary_op_symbol Ult = ''<''"
| "binary_op_symbol Sshr = ''>>''"
| "binary_op_symbol Ushr = ''>>''"
| "binary_op_symbol OpShl = ''<<''"
| "binary_op_symbol OpAdd = ''+''"
| "binary_op_symbol OpSub = ''-''"
| "binary_op_symbol OpMul = ''*''"
| "binary_op_symbol Sdiv = ''/''"
| "binary_op_symbol Udiv = ''/''"
| "binary_op_symbol Smod = ''%''"
| "binary_op_symbol Umod = ''%''"
| "binary_op_symbol Fadd = ''+''"
| "binary_op_symbol Fsub = ''-''"
| "binary_op_symbol Fmul = ''*''"
| "binary_op_symbol Fdiv = ''/''"

subsection \<open>\<open>AssignmentOp\<close>\<close>

datatype assignment_op =
    PlainAssign | BitOrAssign | BitXorAssign | BitAndAssign | AddAssign | SubAssign
     | MulAssign | SshrAssign | UshrAssign | ShlAssign | SdivAssign | UdivAssign
     | SmodAssign | UmodAssign

fun assignment_op_code :: "assignment_op \<Rightarrow> u16" where
  "assignment_op_code PlainAssign = 2"
| "assignment_op_code BitOrAssign = 3"
| "assignment_op_code BitXorAssign = 4"
| "assignment_op_code BitAndAssign = 5"
| "assignment_op_code AddAssign = 6"
| "assignment_op_code SubAssign = 7"
| "assignment_op_code MulAssign = 8"
| "assignment_op_code SshrAssign = 9"
| "assignment_op_code UshrAssign = 10"
| "assignment_op_code ShlAssign = 11"
| "assignment_op_code SdivAssign = 12"
| "assignment_op_code UdivAssign = 13"
| "assignment_op_code SmodAssign = 14"
| "assignment_op_code UmodAssign = 15"

definition assignment_op_variants :: "assignment_op list" where
  "assignment_op_variants =
    [PlainAssign, BitOrAssign, BitXorAssign, BitAndAssign, AddAssign, SubAssign, MulAssign
     , SshrAssign, UshrAssign, ShlAssign, SdivAssign, UdivAssign, SmodAssign, UmodAssign]"

definition assignment_op_try_from :: "u16 \<Rightarrow> assignment_op option" where
  "assignment_op_try_from n = try_from assignment_op_code assignment_op_variants n"

interpretation assignment_ops: closed_enum assignment_op_code assignment_op_variants
proof
  show "distinct (map assignment_op_code assignment_op_variants)"
    by (simp add: assignment_op_variants_def)
  show "v \<in> set assignment_op_variants" for v
    by (cases v) (simp_all add: assignment_op_variants_def)
qed

fun assignment_op_symbol :: "assignment_op \<Rightarrow> string" where
  "assignment_op_symbol PlainAssign = ''=''"
| "assignment_op_symbol BitOrAssign = ''|=''"
| "assignment_op_symbol BitXorAssign = ''^=''"
| "assignment_op_symbol BitAndAssign = ''&=''"
| "assignment_op_symbol AddAssign = ''+=''"
| "assignment_op_symbol SubAssign = ''-=''"
| "assignment_op_symbol MulAssign = ''*=''"
| "assignment_op_symbol SshrAssign = ''>>=''"
| "assignment_op_symbol UshrAssign = ''>>=''"
| "assignment_op_symbol ShlAssign = ''<<=''"
| "assignment_op_symbol SdivAssign = ''/=''"
| "assignment_op_symbol UdivAssign = ''/=''"
| "assignment_op_symbol SmodAssign = ''%=''"
| "assignment_op_symbol UmodAssign = ''%=''"

subsection \<open>\<open>UnaryOp\<close>\<close>

datatype unary_op =
    FNeg | OpNeg | LogNot | BitNot | OpRef | PostInc | PostDec | PreInc | PreDec

fun unary_op_code :: "unary_op \<Rightarrow> u16" where
  "unary_op_code FNeg = 46"
| "unary_op_code OpNeg = 47"
| "unary_op_code LogNot = 49"
| "unary_op_code BitNot = 50"
| "unary_op_code OpRef = 52"
| "unary_op_code PostInc = 53"
| "unary_op_code PostDec = 54"
| "unary_op_code PreInc = 55"
| "unary_op_code PreDec = 56"

definition unary_op_variants :: "unary_op list" where
  "unary_op_variants =
    [FNeg, OpNeg, LogNot, BitNot, OpRef, PostInc, PostDec, PreInc, PreDec]"

definition unary_op_try_from :: "u16 \<Rightarrow> unary_op option" where
  "unary_op_try_from n = try_from unary_op_code unary_op_variants n"

interpretation unary_ops: closed_enum unary_op_code unary_op_variants
proof
  show "distinct (map unary_op_code unary_op_variants)"
    by (simp add: unary_op_variants_def)
  show "v \<in> set unary_op_variants" for v
    by (cases v) (simp_all add: unary_op_variants_def)
qed

fun unary_op_symbol :: "unary_op \<Rightarrow> string" where
  "unary_op_symbol FNeg = ''-''"
| "unary_op_symbol OpNeg = ''-''"
| "unary_op_symbol LogNot = ''!''"
| "unary_op_symbol BitNot = ''~''"
| "unary_op_symbol OpRef = ''&''"
| "unary_op_symbol PostInc = ''++''"
| "unary_op_symbol PostDec = ''--''"
| "unary_op_symbol PreInc = ''++''"
| "unary_op_symbol PreDec = ''--''"

subsection \<open>The symbols of compound assignments\<close>

text \<open>The operator a compound assignment applies; a plain assignment applies none.\<close>

fun assignment_base :: "assignment_op \<Rightarrow> binary_op option" where
  "assignment_base PlainAssign = None"
| "assignment_base BitOrAssign = Some BitOr"
| "assignment_base BitXorAssign = Some BitXor"
| "assignment_base BitAndAssign = Some BitAnd"
| "assignment_base AddAssign = Some OpAdd"
| "assignment_base SubAssign = Some OpSub"
| "assignment_base MulAssign = Some OpMul"
| "assignment_base SshrAssign = Some Sshr"
| "assignment_base UshrAssign = Some Ushr"
| "assignment_base ShlAssign = Some OpShl"
| "assignment_base SdivAssign = Some Sdiv"
| "assignment_base UdivAssign = Some Udiv"
| "assignment_base SmodAssign = Some Smod"
| "assignment_base UmodAssign = Some Umod"

lemma assignment_symbol_base:
  "assignment_op_symbol op =
     (case assignment_base op of Some b \<Rightarrow> binary_op_symbol b | None \<Rightarrow> []) @ ''=''"
  by (cases op) simp_all

text \<open>The tags of the three enumerations lie in disjoint ranges.\<close>

lemma binary_code_range: "unat (binary_op_code b) = 1 \<or> unat (binary_op_code b) \<in> {17..45}"
  by (cases b) simp_all

lemma assignment_code_range: "unat (assignment_op_code a) \<in> {2..15}"
  by (cases a) simp_all

lemma unary_code_range: "unat (unary_op_code u) \<in> {46..56}"
  by (cases u) simp_all

text \<open>
  A raw tag is the tag of at most one operator of the three enumerations, and of the operator
  it decodes to.
\<close>

theorem operator_tags_disjoint:
  "(binary_op_try_from n = Some b \<longleftrightarrow> binary_op_code b = n) \<and>
   (assignment_op_try_from n = Some a \<longleftrightarrow> assignment_op_code a = n) \<and>
   (unary_op_try_from n = Some u \<longleftrightarrow> unary_op_code u = n) \<and>
   binary_op_code b \<noteq> assignment_op_code a \<and> binary_op_code b \<noteq> unary_op_code u \<and>
   assignment_op_code a \<noteq> unary_op_code u"
proof -
  have "binary_op_code b \<noteq> assignment_op_code a" "binary_op_code b \<noteq> unary_op_code u"
    "assignment_op_code a \<noteq> unary_op_code u"
    using binary_code_range [of b] assignment_code_range [of a] unary_code_range [of u] by auto
  then show ?thesis
    unfolding binary_op_try_from_def assignment_op_try_from_def unary_op_try_from_def
      binary_ops.try_from_Some_iff assignment_ops.try_from_Some_iff unary_ops.try_from_Some_iff
    by blast
qed

end
