(* ===== verification/Ctree.thy ===== *)
theory Ctree
  imports Ctree_Ops Address Type_Builder
begin

text \<open>
  \<open>decompiler/ctree/node.rs\<close> and \<open>tree.rs\<close>: the nodes of a decompiled function, their children, the
  snapshot that holds them and the builder that assembles one. Nodes are allocated children first;
  \<open>finish\<close> walks the tree from its root and writes every child's parent link.

  An \<open>f64\<close> is its 64 bits. The visitor closures of the source (\<open>for_each_child\<close>) are the list of
  nodes they visit, in order. The walk of \<open>finish\<close> counts the nodes it visits and stops past the
  number allocated, so it terminates on any input; a failed assertion is \<open>None\<close>.
\<close>

type_synonym i64 = "64 word"
type_synonym i32 = "32 word"

subsection \<open>Locals\<close>

datatype 'l location_piece = LocationPiece (lp_location: 'l) (lp_offset: u32) (lp_size: u32)

datatype local_location =
    LRegister u32
  | LRegisterPair u32 u32
  | LStack i64
  | LRegisterRelative u32 i64
  | LStatic address
  | LScattered "local_location location_piece list"
  | LCustom
  | LUnallocated

definition from_argloc ::
  "u32 \<Rightarrow> u32 \<Rightarrow> u32 \<Rightarrow> i64 \<Rightarrow> local_location location_piece list \<Rightarrow> local_location option" where
  "from_argloc atype reg1 reg2 sval pieces =
     (if atype = 0 then Some LUnallocated
      else if atype = 1 then Some (LStack sval)
      else if atype = 2 then Some (LScattered pieces)
      else if atype = 3 then Some (LRegister reg1)
      else if atype = 4 then Some (LRegisterPair reg1 reg2)
      else if atype = 5 then Some (LRegisterRelative reg1 sval)
      else if atype = 6 then map_option LStatic (new_const sval)
      else Some LCustom)"

type_synonym local_id = u32

record local =
  lv_name :: string
  lv_ty :: type_id
  lv_is_arg :: bool
  lv_is_result :: bool
  lv_is_byref :: bool
  lv_width :: u32
  lv_comment :: "string option"
  lv_location :: local_location

subsection \<open>Nodes\<close>

type_synonym expression_id = idx
type_synonym statement_id = idx

datatype node_ref = NExpression expression_id | NStatement statement_id

fun as_expression :: "node_ref \<Rightarrow> expression_id option" where
  "as_expression (NExpression e) = Some e"
| "as_expression (NStatement _) = None"

fun as_statement :: "node_ref \<Rightarrow> statement_id option" where
  "as_statement (NStatement s) = Some s"
| "as_statement (NExpression _) = None"

datatype expression_kind =
    EBinary binary_op expression_id expression_id
  | EAssign assignment_op expression_id expression_id
  | EUnary unary_op expression_id
  | ETernary expression_id expression_id expression_id
  | ECall expression_id "expression_id list"
  | EIndex expression_id expression_id
  | EMemberRef expression_id u32
  | EMemberPtr expression_id u32
  | ECast expression_id
  | EDeref expression_id u32
  | ESizeof expression_id
  | ENum u64
  | EFnum u64
  | EStr string
  | EObj address "string option"
  | EVar local_id
  | EHelper string
  | ETypeExpression
  | EEmpty
  | EInternal

datatype switch_case = Case (case_values: "u64 list") (case_body: statement_id)

datatype statement_kind =
    KBlock "statement_id list"
  | KExpression expression_id
  | KIf expression_id statement_id "statement_id option"
  | KFor "expression_id option" "expression_id option" "expression_id option" statement_id
  | KWhile expression_id statement_id
  | KDo statement_id expression_id
  | KSwitch expression_id "switch_case list"
  | KBreak
  | KContinue
  | KReturn "expression_id option"
  | KGoto i32
  | KAsm "address list"
  | KTry statement_id "statement_id list"
  | KThrow "expression_id option"
  | KEmpty

record expression_node =
  ex_address :: "address option"
  ex_ty :: type_id
  ex_parent :: "node_ref option"
  ex_kind :: expression_kind

record statement_node =
  st_address :: "address option"
  st_parent :: "node_ref option"
  st_kind :: statement_kind

definition opt_list :: "'a option \<Rightarrow> 'a list" where
  "opt_list x = (case x of Some v \<Rightarrow> [v] | None \<Rightarrow> [])"

fun expression_children :: "expression_kind \<Rightarrow> node_ref list" where
  "expression_children (EBinary _ x y) = [NExpression x, NExpression y]"
| "expression_children (EAssign _ x y) = [NExpression x, NExpression y]"
| "expression_children (EIndex array ix) = [NExpression array, NExpression ix]"
| "expression_children (EUnary _ x) = [NExpression x]"
| "expression_children (ECast x) = [NExpression x]"
| "expression_children (EDeref x _) = [NExpression x]"
| "expression_children (ESizeof x) = [NExpression x]"
| "expression_children (EMemberRef obj _) = [NExpression obj]"
| "expression_children (EMemberPtr obj _) = [NExpression obj]"
| "expression_children (ETernary c t e) = [NExpression c, NExpression t, NExpression e]"
| "expression_children (ECall callee args) = NExpression callee # map NExpression args"
| "expression_children _ = []"

fun statement_children :: "statement_kind \<Rightarrow> node_ref list" where
  "statement_children (KBlock ss) = map NStatement ss"
| "statement_children (KExpression e) = [NExpression e]"
| "statement_children (KIf c t e) =
     NExpression c # NStatement t # map NStatement (opt_list e)"
| "statement_children (KFor init cond step body) =
     map NExpression (opt_list init) @ map NExpression (opt_list cond) @
     map NExpression (opt_list step) @ [NStatement body]"
| "statement_children (KWhile c body) = [NExpression c, NStatement body]"
| "statement_children (KDo body c) = [NStatement body, NExpression c]"
| "statement_children (KSwitch e cases) =
     NExpression e # map (\<lambda>c. NStatement (case_body c)) cases"
| "statement_children (KReturn e) = map NExpression (opt_list e)"
| "statement_children (KThrow e) = map NExpression (opt_list e)"
| "statement_children (KTry body catches) = NStatement body # map NStatement catches"
| "statement_children _ = []"

text \<open>The accessors the macro \<open>expression_accessors\<close> generates, for the queries that use them.\<close>

fun as_call :: "expression_kind \<Rightarrow> (expression_id \<times> expression_id list) option" where
  "as_call (ECall callee args) = Some (callee, args)"
| "as_call _ = None"

fun as_assign :: "expression_kind \<Rightarrow> (assignment_op \<times> expression_id \<times> expression_id) option" where
  "as_assign (EAssign op x y) = Some (op, x, y)"
| "as_assign _ = None"

fun as_var :: "expression_kind \<Rightarrow> local_id option" where
  "as_var (EVar v) = Some v"
| "as_var _ = None"

subsection \<open>The snapshot\<close>

text \<open>The two arenas both the snapshot and its builder hold.\<close>

record node_store =
  ns_expressions :: "expression_node arena"
  ns_statements :: "statement_node arena"

record ctree = node_store +
  ct_types :: type_table
  ct_locals :: "local list"
  ct_root :: statement_id

definition for_each_child :: "('z) node_store_scheme \<Rightarrow> node_ref \<Rightarrow> node_ref list option" where
  "for_each_child t node =
     (case node of
        NExpression i \<Rightarrow>
          map_option (\<lambda>n. expression_children (ex_kind n)) (arena_get (ns_expressions t) i)
      | NStatement i \<Rightarrow>
          map_option (\<lambda>n. statement_children (st_kind n)) (arena_get (ns_statements t) i))"

definition ctree_parent :: "('z) node_store_scheme \<Rightarrow> node_ref \<Rightarrow> node_ref option option" where
  "ctree_parent t node =
     (case node of
        NExpression i \<Rightarrow> map_option ex_parent (arena_get (ns_expressions t) i)
      | NStatement i \<Rightarrow> map_option st_parent (arena_get (ns_statements t) i))"

definition ctree_local :: "ctree \<Rightarrow> local_id \<Rightarrow> local option" where
  "ctree_local t v = (if unat v < length (ct_locals t) then Some (ct_locals t ! unat v) else None)"

definition this_local :: "ctree \<Rightarrow> local_id option" where
  "this_local t =
     map_option of_nat (List.find (\<lambda>i. lv_is_arg (ct_locals t ! i)) [0..<length (ct_locals t)])"

definition expression_at :: "ctree \<Rightarrow> address \<Rightarrow> expression_id option option" where
  "expression_at t ea =
     map_option (\<lambda>xs. map_option fst (List.find (\<lambda>(_, n). ex_address n = Some ea) xs))
       (arena_iter (ns_expressions t))"

definition statement_at :: "ctree \<Rightarrow> address \<Rightarrow> statement_id option option" where
  "statement_at t ea =
     map_option (\<lambda>xs. map_option fst (List.find (\<lambda>(_, n). st_address n = Some ea) xs))
       (arena_iter (ns_statements t))"

definition items_at :: "ctree \<Rightarrow> address \<Rightarrow> node_ref list option" where
  "items_at t ea =
     do { es \<leftarrow> arena_iter (ns_expressions t);
          ss \<leftarrow> arena_iter (ns_statements t);
          Some (map (\<lambda>(i, _). NExpression i) (filter (\<lambda>(_, n). ex_address n = Some ea) es) @
                map (\<lambda>(i, _). NStatement i) (filter (\<lambda>(_, n). st_address n = Some ea) ss)) }"

definition ctree_calls ::
  "ctree \<Rightarrow> (expression_id \<times> expression_id \<times> expression_id list) list option" where
  "ctree_calls t =
     map_option (List.map_filter (\<lambda>(i, n). map_option (\<lambda>(c, a). (i, c, a)) (as_call (ex_kind n))))
       (arena_iter (ns_expressions t))"

text \<open>
  \<open>descendants\<close>: an explicit stack, the next node at its end, a node's children pushed in reverse.
  The iterator is lazy; here the first \<open>fuel\<close> steps of it are run, and \<open>None\<close> is a handle outside
  the arenas or an iterator not yet exhausted.
\<close>

fun descendants_loop ::
  "nat \<Rightarrow> ('z) node_store_scheme \<Rightarrow> node_ref list \<Rightarrow> node_ref list option" where
  "descendants_loop fuel t [] = Some []"
| "descendants_loop 0 t (_ # _) = None"
| "descendants_loop (Suc fuel) t (x # xs) =
     (let stack = x # xs; node = last stack
      in do { kids \<leftarrow> for_each_child t node;
              rest \<leftarrow> descendants_loop fuel t (butlast stack @ rev kids);
              Some (node # rest) })"

definition descendants :: "nat \<Rightarrow> ('z) node_store_scheme \<Rightarrow> node_ref \<Rightarrow> node_ref list option" where
  "descendants fuel t node = descendants_loop fuel t [node]"

subsection \<open>The builder\<close>

record ctree_builder = node_store +
  cb_types :: type_builder
  cb_locals :: "local list"

definition ctree_builder_new :: ctree_builder where
  "ctree_builder_new = \<lparr>ns_expressions = arena_new, ns_statements = arena_new,
     cb_types = builder_new, cb_locals = []\<rparr>"

definition push_expression ::
  "type_id \<Rightarrow> expression_kind \<Rightarrow> address option \<Rightarrow> ctree_builder
   \<Rightarrow> (expression_id \<times> ctree_builder) option" where
  "push_expression ty kind ea b =
     do { (i, ar) \<leftarrow> arena_alloc
             \<lparr>ex_address = ea, ex_ty = ty, ex_parent = None, ex_kind = kind\<rparr> (ns_expressions b);
          Some (i, b\<lparr>ns_expressions := ar\<rparr>) }"

definition push_statement ::
  "statement_kind \<Rightarrow> address option \<Rightarrow> ctree_builder \<Rightarrow> (statement_id \<times> ctree_builder) option" where
  "push_statement kind ea b =
     do { (i, ar) \<leftarrow> arena_alloc \<lparr>st_address = ea, st_parent = None, st_kind = kind\<rparr> (ns_statements b);
          Some (i, b\<lparr>ns_statements := ar\<rparr>) }"

definition push_local :: "local \<Rightarrow> ctree_builder \<Rightarrow> (local_id \<times> ctree_builder) option" where
  "push_local lv b =
     (if length (cb_locals b) < 2 ^ 32
      then Some (of_nat (length (cb_locals b)), b\<lparr>cb_locals := cb_locals b @ [lv]\<rparr>) else None)"

definition set_parent ::
  "node_ref \<Rightarrow> node_ref \<Rightarrow> ctree_builder \<Rightarrow> ctree_builder option" where
  "set_parent node child b =
     (case child of
        NExpression i \<Rightarrow>
          do { n \<leftarrow> arena_get (ns_expressions b) i;
               ar \<leftarrow> arena_set i (n\<lparr>ex_parent := Some node\<rparr>) (ns_expressions b);
               Some (b\<lparr>ns_expressions := ar\<rparr>) }
      | NStatement i \<Rightarrow>
          do { n \<leftarrow> arena_get (ns_statements b) i;
               ar \<leftarrow> arena_set i (n\<lparr>st_parent := Some node\<rparr>) (ns_statements b);
               Some (b\<lparr>ns_statements := ar\<rparr>) })"

fun link_kids ::
  "node_ref \<Rightarrow> node_ref list \<Rightarrow> node_ref list \<Rightarrow> ctree_builder
   \<Rightarrow> (node_ref list \<times> ctree_builder) option" where
  "link_kids node [] stack b = Some (stack, b)"
| "link_kids node (child # kids) stack b =
     do { b1 \<leftarrow> set_parent node child b; link_kids node kids (stack @ [child]) b1 }"

function finish_loop ::
  "nat \<Rightarrow> node_ref list \<Rightarrow> nat \<Rightarrow> ctree_builder \<Rightarrow> (nat \<times> ctree_builder) option" where
  "finish_loop limit stack visited b =
     (if stack = [] then Some (visited, b)
      else
        let node = last stack; visited' = visited + 1
        in if visited' \<le> limit
           then (case for_each_child b node of
                   None \<Rightarrow> None
                 | Some kids \<Rightarrow>
                     (case link_kids node kids (butlast stack) b of
                        None \<Rightarrow> None
                      | Some (stack', b') \<Rightarrow> finish_loop limit stack' visited' b'))
           else None)"
  by pat_completeness auto
termination
  by (relation "measure (\<lambda>(limit, _, visited, _). limit - visited)") auto

declare finish_loop.simps [simp del]

definition node_total :: "('z) node_store_scheme \<Rightarrow> nat" where
  "node_total b = arena_len (ns_expressions b) + arena_len (ns_statements b)"

text \<open>\<open>debug\<close> says whether the build keeps its debug assertions.\<close>

definition finish :: "bool \<Rightarrow> statement_id \<Rightarrow> ctree_builder \<Rightarrow> ctree option" where
  "finish debug root b =
     (case finish_loop (node_total b) [NStatement root] 0 b of
        None \<Rightarrow> None
      | Some (visited, b') \<Rightarrow>
          if debug \<and> visited \<noteq> node_total b then None
          else Some \<lparr>ns_expressions = ns_expressions b', ns_statements = ns_statements b',
                     ct_types = tb_table (cb_types b'), ct_locals = cb_locals b', ct_root = root\<rparr>)"

subsection \<open>The store under linking\<close>

definition kids_of :: "('z) node_store_scheme \<Rightarrow> node_ref \<Rightarrow> node_ref list" where
  "kids_of t n = (case for_each_child t n of Some ks \<Rightarrow> ks | None \<Rightarrow> [])"

definition node_list :: "('z) node_store_scheme \<Rightarrow> node_ref list" where
  "node_list t = map (\<lambda>i. NExpression (of_nat i)) [0..<arena_len (ns_expressions t)] @
     map (\<lambda>i. NStatement (of_nat i)) [0..<arena_len (ns_statements t)]"

definition store_ok :: "('z) node_store_scheme \<Rightarrow> bool" where
  "store_ok t \<longleftrightarrow> arena_len (ns_expressions t) \<le> 2 ^ 32 \<and> arena_len (ns_statements t) \<le> 2 ^ 32"

lemma length_node_list [simp]: "length (node_list t) = node_total t"
  by (simp add: node_list_def node_total_def)

lemma distinct_node_list:
  assumes "store_ok t"
  shows "distinct (node_list t)"
proof -
  have "i = j" if "i < n" "j < n" "n \<le> 2 ^ 32" "(of_nat i :: u32) = of_nat j" for i j n
  proof -
    from that have "i < 4294967296" "j < 4294967296" by simp_all
    with that(4) show ?thesis by (metis unat_of_nat_u32)
  qed
  with assms show ?thesis
    by (auto simp: node_list_def distinct_map inj_on_def store_ok_def)
qed

lemma node_list_iff:
  assumes "store_ok t"
  shows "n \<in> set (node_list t) \<longleftrightarrow> for_each_child t n \<noteq> None"
proof -
  have idx: "(\<exists>i < k. e = of_nat i) \<longleftrightarrow> unat e < k" if "k \<le> 2 ^ 32" for e :: u32 and k
  proof
    assume "unat e < k"
    then show "\<exists>i < k. e = of_nat i" by (intro exI [of _ "unat e"]) simp
  next
    assume "\<exists>i < k. e = of_nat i"
    then obtain i where "i < k" "e = of_nat i" by blast
    with that show "unat e < k" by simp
  qed
  show ?thesis
    using assms idx [of "arena_len (ns_expressions t)"] idx [of "arena_len (ns_statements t)"]
    by (cases n) (auto simp: node_list_def for_each_child_def store_ok_def image_iff
        arena_get_Some_iff [symmetric] arena_get_None_iff not_le atLeast0LessThan Bex_def)
qed

lemma set_parent_facts:
  assumes "set_parent node child b = Some b'"
  shows "for_each_child b' = for_each_child b \<and>
      ctree_parent b' = (ctree_parent b)(child \<mapsto> Some node) \<and>
      node_total b' = node_total b \<and> cb_types b' = cb_types b \<and> cb_locals b' = cb_locals b"
proof (cases child)
  case (NExpression i)
  with assms obtain n ar where n: "arena_get (ns_expressions b) i = Some n"
    "arena_set i (n\<lparr>ex_parent := Some node\<rparr>) (ns_expressions b) = Some ar" "b' = b\<lparr>ns_expressions := ar\<rparr>"
    by (auto simp: set_parent_def)
  note get = arena_get_set [OF n(2)]
  have "for_each_child b' x = for_each_child b x" for x
    using n(1) by (cases x) (auto simp: for_each_child_def n(3) get)
  moreover have "ctree_parent b' x = ((ctree_parent b)(child \<mapsto> Some node)) x" for x
    by (cases x) (auto simp: ctree_parent_def n(3) get NExpression)
  ultimately show "for_each_child b' = for_each_child b \<and>
      ctree_parent b' = (ctree_parent b)(child \<mapsto> Some node) \<and>
      node_total b' = node_total b \<and> cb_types b' = cb_types b \<and> cb_locals b' = cb_locals b"
    using arena_len_set [OF n(2)] by (auto simp: n(3) node_total_def)
next
  case (NStatement i)
  with assms obtain n ar where n: "arena_get (ns_statements b) i = Some n"
    "arena_set i (n\<lparr>st_parent := Some node\<rparr>) (ns_statements b) = Some ar" "b' = b\<lparr>ns_statements := ar\<rparr>"
    by (auto simp: set_parent_def)
  note get = arena_get_set [OF n(2)]
  have "for_each_child b' x = for_each_child b x" for x
    using n(1) by (cases x) (auto simp: for_each_child_def n(3) get)
  moreover have "ctree_parent b' x = ((ctree_parent b)(child \<mapsto> Some node)) x" for x
    by (cases x) (auto simp: ctree_parent_def n(3) get NStatement)
  ultimately show "for_each_child b' = for_each_child b \<and>
      ctree_parent b' = (ctree_parent b)(child \<mapsto> Some node) \<and>
      node_total b' = node_total b \<and> cb_types b' = cb_types b \<and> cb_locals b' = cb_locals b"
    using arena_len_set [OF n(2)] by (auto simp: n(3) node_total_def)
qed

lemma set_parent_total:
  assumes "for_each_child b child \<noteq> None"
  shows "\<exists>b'. set_parent node child b = Some b'"
proof (cases child)
  case (NExpression i)
  with assms obtain n where n: "arena_get (ns_expressions b) i = Some n"
    by (auto simp: for_each_child_def)
  then have "\<exists>ar. arena_set i (n\<lparr>ex_parent := Some node\<rparr>) (ns_expressions b) = Some ar"
    by (simp add: arena_set_Some_iff)
  with n NExpression show ?thesis by (auto simp: set_parent_def)
next
  case (NStatement i)
  with assms obtain n where n: "arena_get (ns_statements b) i = Some n"
    by (auto simp: for_each_child_def)
  then have "\<exists>ar. arena_set i (n\<lparr>st_parent := Some node\<rparr>) (ns_statements b) = Some ar"
    by (simp add: arena_set_Some_iff)
  with n NStatement show ?thesis by (auto simp: set_parent_def)
qed

lemma link_kids_facts:
  assumes "list_all (\<lambda>c. for_each_child b c \<noteq> None) kids"
  shows "\<exists>b'. link_kids node kids stack b = Some (stack @ kids, b') \<and>
    for_each_child b' = for_each_child b \<and>
    ctree_parent b' = (\<lambda>x. if x \<in> set kids then Some (Some node) else ctree_parent b x) \<and>
    node_total b' = node_total b \<and> cb_types b' = cb_types b \<and> cb_locals b' = cb_locals b"
  using assms
proof (induction kids arbitrary: stack b)
  case (Cons c kids)
  then obtain b1 where b1: "set_parent node c b = Some b1" using set_parent_total by fastforce
  note facts = set_parent_facts [OF b1]
  have "list_all (\<lambda>c. for_each_child b1 c \<noteq> None) kids" using Cons.prems facts by simp
  from Cons.IH [OF this, of "stack @ [c]"] b1 facts show ?case
    by (fastforce simp: fun_eq_iff)
qed simp

subsection \<open>Finishing a tree\<close>

text \<open>
  What the callers promise of the nodes they allocated: the root aside, every node is a child
  exactly once, and a child ranks below its parent (it was allocated first).
\<close>

definition well_linked ::
  "('z) node_store_scheme \<Rightarrow> statement_id \<Rightarrow> (node_ref \<Rightarrow> nat) \<Rightarrow> bool" where
  "well_linked t root rk \<longleftrightarrow> store_ok t \<and>
     mset (NStatement root # concat (map (kids_of t) (node_list t))) = mset (node_list t) \<and>
     list_all (\<lambda>n. list_all (\<lambda>c. rk c < rk n) (kids_of t n)) (node_list t)"

lemma mset_concat_map: "mset xs = mset ys \<Longrightarrow> mset (concat (map f xs)) = mset (concat (map f ys))"
proof -
  have "mset (concat (map f zs)) = sum_mset (image_mset (\<lambda>x. mset (f x)) (mset zs))" for zs
    by (induction zs) simp_all
  then show "mset xs = mset ys \<Longrightarrow> ?thesis" by simp
qed

text \<open>The nodes visited so far and the ones waiting are all distinct and allocated.\<close>

lemma visited_distinct:
  assumes wl: "well_linked t root rk"
    and V: "distinct V" "set V \<subseteq> set (node_list t)"
    and inv: "mset (V @ stack) = mset (NStatement root # concat (map (kids_of t) V))"
  shows "distinct (V @ stack)" and "set (V @ stack) \<subseteq> set (node_list t)"
proof -
  let ?W = "filter (\<lambda>n. n \<notin> set V) (node_list t)"
  have d: "distinct (node_list t)" using wl by (auto simp: well_linked_def intro: distinct_node_list)
  have "mset (V @ ?W) = mset (node_list t)"
    by (rule set_eq_iff_mset_eq_distinct [THEN iffD1]) (use V d in auto)
  then have "mset (concat (map (kids_of t) (V @ ?W))) = mset (concat (map (kids_of t) (node_list t)))"
    by (rule mset_concat_map)
  with wl have all: "mset (NStatement root # concat (map (kids_of t) V) @ concat (map (kids_of t) ?W))
      = mset (node_list t)"
    by (simp add: well_linked_def)
  then have "distinct (NStatement root # concat (map (kids_of t) V) @ concat (map (kids_of t) ?W))"
    using d mset_eq_imp_distinct_iff by blast
  then have "distinct (NStatement root # concat (map (kids_of t) V))" by simp
  with inv show "distinct (V @ stack)" using mset_eq_imp_distinct_iff by blast
  have "set (V @ stack) = set (NStatement root # concat (map (kids_of t) V))"
    by (rule mset_eq_setD [OF inv])
  also have "\<dots> \<subseteq> set (node_list t)" using mset_eq_setD [OF all] by auto
  finally show "set (V @ stack) \<subseteq> set (node_list t)" .
qed

definition finish_inv ::
  "ctree_builder \<Rightarrow> statement_id \<Rightarrow> node_ref list \<Rightarrow> node_ref list \<Rightarrow> ctree_builder \<Rightarrow> bool" where
  "finish_inv b0 root V stack b \<longleftrightarrow>
     distinct V \<and> set V \<subseteq> set (node_list b0) \<and>
     mset (V @ stack) = mset (NStatement root # concat (map (kids_of b0) V)) \<and>
     for_each_child b = for_each_child b0 \<and>
     (\<forall>v \<in> set V. \<forall>c \<in> set (kids_of b0 v). ctree_parent b c = Some (Some v)) \<and>
     (\<forall>x. (\<forall>v \<in> set V. x \<notin> set (kids_of b0 v)) \<longrightarrow> ctree_parent b x = ctree_parent b0 x) \<and>
     node_total b = node_total b0 \<and> cb_types b = cb_types b0 \<and> cb_locals b = cb_locals b0"

lemma kids_disjoint:
  assumes wl: "well_linked t root rk" and n: "n \<in> set (node_list t)" and m: "m \<in> set (node_list t)"
    and c: "c \<in> set (kids_of t n)" "c \<in> set (kids_of t m)"
  shows "n = m"
proof (rule ccontr)
  assume ne: "n \<noteq> m"
  let ?W = "filter (\<lambda>x. x \<noteq> n \<and> x \<noteq> m) (node_list t)"
  have d: "distinct (node_list t)" using wl by (auto simp: well_linked_def intro: distinct_node_list)
  have "mset (n # m # ?W) = mset (node_list t)"
    by (rule set_eq_iff_mset_eq_distinct [THEN iffD1]) (use d n m ne in auto)
  from mset_concat_map [OF this, of "kids_of t"] wl
  have "mset (NStatement root # kids_of t n @ kids_of t m @ concat (map (kids_of t) ?W)) = mset (node_list t)"
    by (simp add: well_linked_def)
  with d have "distinct (NStatement root # kids_of t n @ kids_of t m @ concat (map (kids_of t) ?W))"
    using mset_eq_imp_distinct_iff by blast
  with c show False by auto
qed

lemma finish_step:
  assumes wl: "well_linked b0 root rk" and inv: "finish_inv b0 root V stack b" and ne: "stack \<noteq> []"
  shows "\<exists>stack' b'. finish_loop (node_total b0) stack (length V) b =
      finish_loop (node_total b0) stack' (length (V @ [last stack])) b' \<and>
    finish_inv b0 root (V @ [last stack]) stack' b'"
proof -
  let ?n = "last stack"
  note i = inv [unfolded finish_inv_def]
  from visited_distinct [OF wl, of V stack] i have d: "distinct (V @ stack)" "set (V @ stack) \<subseteq> set (node_list b0)"
    by blast+
  have stack: "stack = butlast stack @ [?n]" using ne by simp
  have n: "?n \<notin> set V" "?n \<in> set (node_list b0)" using d ne by auto
  have ok: "store_ok b0" using wl by (simp add: well_linked_def)
  have V': "distinct (V @ [?n])" "set (V @ [?n]) \<subseteq> set (node_list b0)" using d n i by auto
  have "length (V @ [?n]) \<le> card (set (node_list b0))"
    using V' by (metis card_mono distinct_card List.finite_set)
  also have "\<dots> \<le> node_total b0" by (metis card_length length_node_list)
  finally have len: "length V + 1 \<le> node_total b0" by simp
  from n(2) have "for_each_child b0 ?n \<noteq> None" by (simp add: node_list_iff [OF ok])
  then have kids: "for_each_child b ?n = Some (kids_of b0 ?n)" using i by (auto simp: kids_of_def)
  have mset: "mset ((V @ [?n]) @ butlast stack @ kids_of b0 ?n) =
      mset (NStatement root # concat (map (kids_of b0) (V @ [?n])))"
  proof -
    have "mset stack = mset (butlast stack) + {#?n#}" by (subst stack) simp
    moreover have "mset V + mset stack = mset (NStatement root # concat (map (kids_of b0) V))"
      using i by simp
    ultimately show ?thesis by simp
  qed
  have "set (kids_of b0 ?n) \<subseteq> set (node_list b0)"
    using visited_distinct(2) [OF wl V' mset] by simp
  then have "list_all (\<lambda>c. for_each_child b c \<noteq> None) (kids_of b0 ?n)"
    using i node_list_iff [OF ok] by (auto simp: list_all_iff subset_iff)
  from link_kids_facts [OF this, of ?n "butlast stack"] obtain b' where
    b': "link_kids ?n (kids_of b0 ?n) (butlast stack) b = Some (butlast stack @ kids_of b0 ?n, b')"
    "for_each_child b' = for_each_child b"
    "ctree_parent b' = (\<lambda>x. if x \<in> set (kids_of b0 ?n) then Some (Some ?n) else ctree_parent b x)"
    "node_total b' = node_total b" "cb_types b' = cb_types b" "cb_locals b' = cb_locals b"
    by blast
  have run: "finish_loop (node_total b0) stack (length V) b =
      finish_loop (node_total b0) (butlast stack @ kids_of b0 ?n) (length V + 1) b'"
    by (subst finish_loop.simps) (use ne len kids b'(1) in \<open>simp add: Let_def\<close>)
  have p1: "ctree_parent b' c = Some (Some v)" if "v \<in> set (V @ [?n])" "c \<in> set (kids_of b0 v)" for v c
  proof (cases "c \<in> set (kids_of b0 ?n)")
    case True
    with kids_disjoint [OF wl, of v ?n c] that V'(2) have "v = ?n" by (auto simp: subset_iff)
    with True show ?thesis by (simp add: b'(3))
  next
    case False
    with that have "v \<in> set V" by auto
    with i that False show ?thesis by (simp add: b'(3))
  qed
  have p2: "ctree_parent b' x = ctree_parent b0 x" if "\<forall>v \<in> set (V @ [?n]). x \<notin> set (kids_of b0 v)" for x
    using that i by (simp add: b'(3))
  have "finish_inv b0 root (V @ [?n]) (butlast stack @ kids_of b0 ?n) b'"
    unfolding finish_inv_def
  proof (intro conjI ballI allI impI)
    show "mset ((V @ [?n]) @ butlast stack @ kids_of b0 ?n) =
      mset (NStatement root # concat (map (kids_of b0) (V @ [?n])))" by (rule mset)
    show "ctree_parent b' c = Some (Some v)" if "v \<in> set (V @ [?n])" "c \<in> set (kids_of b0 v)" for v c
      using that by (rule p1)
    show "ctree_parent b' x = ctree_parent b0 x" if "\<forall>v \<in> set (V @ [?n]). x \<notin> set (kids_of b0 v)" for x
      using that by (rule p2)
  qed (use V' b' i in simp_all)
  moreover have "length (V @ [?n]) = length V + 1" by simp
  ultimately show ?thesis using run by metis
qed

lemma finish_loop_inv:
  assumes wl: "well_linked b0 root rk"
  shows "finish_inv b0 root V stack b \<Longrightarrow>
    \<exists>V' b'. finish_loop (node_total b0) stack (length V) b = Some (length V', b') \<and>
      finish_inv b0 root V' [] b'"
proof (induction "node_total b0 - length V" arbitrary: V stack b rule: less_induct)
  case less
  show ?case
  proof (cases "stack = []")
    case True
    with less.prems show ?thesis by (subst finish_loop.simps) auto
  next
    case False
    from finish_step [OF wl less.prems False] obtain stack' b' where
      step: "finish_loop (node_total b0) stack (length V) b =
        finish_loop (node_total b0) stack' (length (V @ [last stack])) b'"
      "finish_inv b0 root (V @ [last stack]) stack' b'" by blast
    from step(2) have "distinct (V @ [last stack])" "set (V @ [last stack]) \<subseteq> set (node_list b0)"
      by (simp_all add: finish_inv_def)
    then have "length (V @ [last stack]) \<le> length (node_list b0)"
      by (metis card_mono card_length distinct_card List.finite_set order_trans)
    then have "node_total b0 - length (V @ [last stack]) < node_total b0 - length V" by simp
    from less.hyps [OF this step(2)] step(1) show ?thesis by simp
  qed
qed

lemma well_linked_set:
  assumes "well_linked t root rk"
  shows "set (node_list t) = insert (NStatement root) (\<Union>n \<in> set (node_list t). set (kids_of t n))"
    and "distinct (NStatement root # concat (map (kids_of t) (node_list t)))"
proof -
  have "mset (NStatement root # concat (map (kids_of t) (node_list t))) = mset (node_list t)"
    using assms by (simp add: well_linked_def)
  from mset_eq_setD [OF this] mset_eq_imp_distinct_iff [OF this] assms
  show "set (node_list t) = insert (NStatement root) (\<Union>n \<in> set (node_list t). set (kids_of t n))"
    and "distinct (NStatement root # concat (map (kids_of t) (node_list t)))"
    by (simp_all del: distinct.simps add: well_linked_def distinct_node_list)
qed

text \<open>Nothing is left out: an unvisited node of highest rank would be the child of a visited one.\<close>

lemma finish_visits_all:
  assumes wl: "well_linked b0 root rk" and inv: "finish_inv b0 root V [] b"
  shows "set V = set (node_list b0)"
proof (rule ccontr)
  assume "set V \<noteq> set (node_list b0)"
  moreover have "set V \<subseteq> set (node_list b0)" using inv unfolding finish_inv_def by (elim conjE)
  ultimately have ne: "set (node_list b0) - set V \<noteq> {}" by blast
  let ?U = "set (node_list b0) - set V"
  have "finite (rk ` ?U)" by simp
  with ne have "Max (rk ` ?U) \<in> rk ` ?U" by (intro Max_in) auto
  then obtain n where "n \<in> ?U" "rk n = Max (rk ` ?U)" by auto
  with Max_ge [OF \<open>finite (rk ` ?U)\<close>] have n: "n \<in> ?U" "\<forall>m \<in> ?U. rk m \<le> rk n" by auto
  have V: "set V = set (NStatement root # concat (map (kids_of b0) V))"
  proof -
    have "mset (V @ []) = mset (NStatement root # concat (map (kids_of b0) V))"
      using inv unfolding finish_inv_def by (elim conjE)
    from mset_eq_setD [OF this] show ?thesis by simp
  qed
  have "NStatement root \<in> set V" by (subst V) simp
  with n(1) have "n \<noteq> NStatement root" by blast
  with n(1) well_linked_set(1) [OF wl]
  obtain p where p: "p \<in> set (node_list b0)" "n \<in> set (kids_of b0 p)" by blast
  then have "rk n < rk p" using wl by (auto simp: well_linked_def list_all_iff)
  have "p \<in> set V"
  proof (rule ccontr)
    assume "p \<notin> set V"
    with p(1) n(2) have "rk p \<le> rk n" by blast
    with \<open>rk n < rk p\<close> show False by simp
  qed
  have "n \<in> set V" by (subst V) (use p(2) \<open>p \<in> set V\<close> in auto)
  with n(1) show False by blast
qed

lemma finish_links:
  assumes wl: "well_linked b root rk"
    and fresh: "\<forall>n p. ctree_parent b n = Some p \<longrightarrow> p = None"
  shows "\<exists>t. finish debug root b = Some t \<and> for_each_child t = for_each_child b \<and>
    ctree_parent t (NStatement root) = Some None \<and>
    (\<forall>c p. ctree_parent t c = Some (Some p) \<longleftrightarrow> c \<in> set (kids_of b p)) \<and>
    ct_types t = tb_table (cb_types b) \<and> ct_locals t = cb_locals b \<and> ct_root t = root"
proof -
  have ok: "store_ok b" using wl by (simp add: well_linked_def)
  have root: "NStatement root \<in> set (node_list b)" using well_linked_set(1) [OF wl] by blast
  have "finish_inv b root [] [NStatement root] b" by (simp add: finish_inv_def)
  from finish_loop_inv [OF wl this] obtain V b' where
    run: "finish_loop (node_total b) [NStatement root] 0 b = Some (length V, b')"
    and inv: "finish_inv b root V [] b'" by auto
  note all = finish_visits_all [OF wl inv]
  have "length V = node_total b"
    using inv all distinct_node_list [OF ok] by (metis distinct_card finish_inv_def length_node_list)
  then obtain t where t: "finish debug root b = Some t"
    "t = \<lparr>ns_expressions = ns_expressions b', ns_statements = ns_statements b',
          ct_types = tb_table (cb_types b'), ct_locals = cb_locals b', ct_root = root\<rparr>"
    using run by (simp add: finish_def)
  have same: "for_each_child t = for_each_child b'" "ctree_parent t = ctree_parent b'"
    by (rule ext, simp add: t(2) for_each_child_def ctree_parent_def split: node_ref.split)+
  have unlinked: "NStatement root \<notin> set (kids_of b v)" if "v \<in> set (node_list b)" for v
    using well_linked_set(2) [OF wl] that by auto
  have "ctree_parent b' (NStatement root) = ctree_parent b (NStatement root)"
    using inv unlinked all by (simp add: finish_inv_def)
  moreover have "for_each_child b (NStatement root) \<noteq> None"
    using root by (simp add: node_list_iff [OF ok])
  then have "\<exists>p. ctree_parent b (NStatement root) = Some p"
    by (simp add: for_each_child_def ctree_parent_def)
  with fresh have "ctree_parent b (NStatement root) = Some None" by blast
  moreover have "ctree_parent b' c = Some (Some p) \<longleftrightarrow> c \<in> set (kids_of b p)" for c p
  proof
    assume c: "c \<in> set (kids_of b p)"
    then have "for_each_child b p \<noteq> None" by (cases "for_each_child b p") (simp_all add: kids_of_def)
    then have "p \<in> set V" by (simp add: all node_list_iff [OF ok])
    with c inv show "ctree_parent b' c = Some (Some p)" by (auto simp: finish_inv_def)
  next
    assume p: "ctree_parent b' c = Some (Some p)"
    show "c \<in> set (kids_of b p)"
    proof (cases "\<exists>v \<in> set V. c \<in> set (kids_of b v)")
      case True
      then obtain v where v: "v \<in> set V" "c \<in> set (kids_of b v)" by blast
      with inv p have "v = p" by (auto simp: finish_inv_def)
      with v show ?thesis by simp
    next
      case False
      with inv p have "ctree_parent b c = Some (Some p)" by (auto simp: finish_inv_def)
      with fresh show ?thesis by blast
    qed
  qed
  moreover have "for_each_child b' = for_each_child b" "cb_types b' = cb_types b" "cb_locals b' = cb_locals b"
    using inv by (simp_all add: finish_inv_def)
  ultimately show ?thesis using t same by auto
qed

text \<open>The nodes of a store with their parent links blanked: kinds, types and addresses in order.\<close>

definition unlinked ::
  "('z) node_store_scheme \<Rightarrow> expression_node list \<times> statement_node list" where
  "unlinked t =
     (map (\<lambda>e. e\<lparr>ex_parent := None\<rparr>) (arena_data (ns_expressions t)),
      map (\<lambda>s. s\<lparr>st_parent := None\<rparr>) (arena_data (ns_statements t)))"

lemma map_update_keeps: "i < length xs \<Longrightarrow> f y = f (xs ! i) \<Longrightarrow> map f (xs[i := y]) = map f xs"
  by (metis list_update_id map_update)

lemma set_parent_unlinked: "set_parent node child b = Some b' \<Longrightarrow> unlinked b' = unlinked b"
  by (auto simp: set_parent_def unlinked_def arena_defs intro!: map_update_keeps
      split: node_ref.splits if_splits)

lemma link_kids_unlinked: "link_kids node kids stack b = Some (stack', b') \<Longrightarrow> unlinked b' = unlinked b"
  by (induction kids arbitrary: stack b) (auto dest: set_parent_unlinked)

lemma finish_loop_unlinked:
  "finish_loop limit stack visited b = Some (n, b') \<Longrightarrow> unlinked b' = unlinked b"
proof (induction limit stack visited b rule: finish_loop.induct)
  case (1 limit stack visited b)
  show ?case
  proof (cases "stack = []")
    case True
    with 1(2) show ?thesis by (simp add: finish_loop.simps)
  next
    case False
    with 1(2) obtain kids stack' b1 where le: "visited + 1 \<le> limit"
      and kids: "for_each_child b (last stack) = Some kids"
      and link: "link_kids (last stack) kids (butlast stack) b = Some (stack', b1)"
      and rest: "finish_loop limit stack' (visited + 1) b1 = Some (n, b')"
      by (subst (asm) finish_loop.simps) (auto simp: Let_def split: if_splits option.splits)
    from 1(1) [OF False refl refl le kids link refl rest] link_kids_unlinked [OF link] show ?thesis by simp
  qed
qed

lemma finish_unlinked:
  assumes "finish debug root b = Some t"
  shows "unlinked t = unlinked b"
proof -
  from assms obtain n b' where run: "finish_loop (node_total b) [NStatement root] 0 b = Some (n, b')"
    and t: "ns_expressions t = ns_expressions b'" "ns_statements t = ns_statements b'"
    by (auto simp: finish_def split: option.splits if_splits)
  from finish_loop_unlinked [OF run] t show ?thesis by (simp add: unlinked_def)
qed

text \<open>
  C1: the walk of \<open>finish\<close> returns on a tree whose nodes are each linked once below the root: no
  assertion fires, the root has no parent, and a node's parent is the node it is a child of. But for
  the parent links every node of the store is the one the builder held, with its kind, type and
  address, and the types and locals are the builder's.
\<close>

theorem finish_links_parents:
  assumes wl: "well_linked b root rk"
    and fresh: "\<forall>n p. ctree_parent b n = Some p \<longrightarrow> p = None"
  shows "\<exists>t. finish debug root b = Some t \<and> unlinked t = unlinked b \<and> for_each_child t = for_each_child b \<and>
    ctree_parent t (NStatement root) = Some None \<and>
    (\<forall>c p. ctree_parent t c = Some (Some p) \<longleftrightarrow> c \<in> set (kids_of b p)) \<and>
    ct_types t = tb_table (cb_types b) \<and> ct_locals t = cb_locals b \<and> ct_root t = root"
  using finish_links [OF assms, of debug] finish_unlinked by blast

text \<open>\<open>{ x; return x; }\<close>, as the builder allocates it.\<close>

definition sample_builder :: ctree_builder where
  "sample_builder =
     \<lparr>ns_expressions = \<lparr>arena_data =
        [\<lparr>ex_address = None, ex_ty = 0, ex_parent = None, ex_kind = EVar 0\<rparr>,
         \<lparr>ex_address = None, ex_ty = 0, ex_parent = None, ex_kind = EVar 0\<rparr>]\<rparr>,
      ns_statements = \<lparr>arena_data = map (\<lambda>k. \<lparr>st_address = None, st_parent = None, st_kind = k\<rparr>)
        [KExpression 0, KReturn (Some 1), KBlock [0, 1]]\<rparr>,
      cb_types = builder_new, cb_locals = []\<rparr>"

fun sample_rank :: "node_ref \<Rightarrow> nat" where
  "sample_rank (NExpression _) = 0"
| "sample_rank (NStatement i) = Suc (unat i)"

lemmas ctree_eval = arena_defs for_each_child_def ctree_parent_def kids_of_def node_list_def
  node_total_def opt_list_def

theorem finish_links_parents_witness:
  "\<exists>t. finish True 2 sample_builder = Some t \<and> ctree_parent t (NExpression 1) = Some (Some (NStatement 1))"
proof -
  have "well_linked sample_builder 2 sample_rank"
    by (simp add: well_linked_def store_ok_def sample_builder_def ctree_eval)
  moreover have "\<forall>n p. ctree_parent sample_builder n = Some p \<longrightarrow> p = None"
    by (auto simp: sample_builder_def ctree_eval nth_Cons' split: node_ref.splits if_splits)
  moreover have "NExpression 1 \<in> set (kids_of sample_builder (NStatement 1))"
    by (simp add: sample_builder_def ctree_eval)
  ultimately show ?thesis using finish_links_parents [of sample_builder 2 sample_rank True] by blast
qed

text \<open>
  The two assertions do not rule out a revisit: a block that lists one statement twice makes up
  for a statement nothing refers to, and \<open>finish\<close> returns a tree with an unreachable node even in a
  debug build.
\<close>

definition shared_builder :: ctree_builder where
  "shared_builder =
     \<lparr>ns_expressions = arena_new,
      ns_statements = \<lparr>arena_data = map (\<lambda>k. \<lparr>st_address = None, st_parent = None, st_kind = k\<rparr>)
        [KReturn None, KReturn None, KBlock [0, 0]]\<rparr>,
      cb_types = builder_new, cb_locals = []\<rparr>"

theorem finish_accepts_shared_child:
  "\<exists>t. finish True 2 shared_builder = Some t \<and>
     for_each_child t (NStatement 2) = Some [NStatement 0, NStatement 0] \<and>
     ctree_parent t (NStatement 1) = Some None"
  by (simp add: finish_def finish_loop.simps set_parent_def shared_builder_def ctree_eval Let_def)

subsection \<open>Descendants\<close>

text \<open>The reading of a subtree in preorder, without a stack or a bound.\<close>

inductive preorder :: "('z) node_store_scheme \<Rightarrow> node_ref \<Rightarrow> node_ref list \<Rightarrow> bool" for t where
  "for_each_child t n = Some kids \<Longrightarrow> list_all2 (preorder t) kids xss
   \<Longrightarrow> preorder t n (n # concat xss)"
monos list.rel_mono_strong

inductive_cases preorderE: "preorder t n xs"

lemma descendants_loop_snoc:
  "descendants_loop (Suc fuel) t (s @ [n]) =
     do { kids \<leftarrow> for_each_child t n;
          rest \<leftarrow> descendants_loop fuel t (s @ rev kids);
          Some (n # rest) }"
proof -
  obtain x xs where x: "s @ [n] = x # xs" by (cases "s @ [n]") auto
  then have "last (x # xs) = n" "butlast (x # xs) = s" by (metis last_snoc, metis butlast_snoc)
  then show ?thesis unfolding x by (simp add: Let_def)
qed

lemma descendants_loop_complete:
  "list_all2 (preorder t) (rev stack) xss \<Longrightarrow> length (concat xss) \<le> fuel
   \<Longrightarrow> descendants_loop fuel t stack = Some (concat xss)"
proof (induction fuel arbitrary: stack xss)
  case 0
  then show ?case by (cases stack rule: rev_cases) (auto simp: list_all2_Cons1 elim!: preorderE)
next
  case (Suc fuel)
  show ?case
  proof (cases stack rule: rev_cases)
    case (snoc s n)
    with Suc.prems(1) obtain xs yss where x: "xss = xs # yss" "preorder t n xs"
      "list_all2 (preorder t) (rev s) yss" by (auto simp: list_all2_Cons1)
    from x(2) obtain kids kss where k: "for_each_child t n = Some kids"
      "list_all2 (preorder t) kids kss" "xs = n # concat kss" by (auto elim: preorderE)
    have "list_all2 (preorder t) (rev (s @ rev kids)) (kss @ yss)"
      using k x by (simp add: list_all2_appendI)
    from Suc.IH [OF this] Suc.prems(2) x k show ?thesis
      unfolding snoc descendants_loop_snoc by simp
  qed (use Suc.prems in simp)
qed

lemma descendants_loop_sound:
  "descendants_loop fuel t stack = Some ys
   \<Longrightarrow> \<exists>xss. list_all2 (preorder t) (rev stack) xss \<and> ys = concat xss"
proof (induction fuel arbitrary: stack ys)
  case 0
  then show ?case by (cases stack) auto
next
  case (Suc fuel)
  show ?case
  proof (cases stack rule: rev_cases)
    case (snoc s n)
    then obtain kids rest where k: "for_each_child t n = Some kids"
      "descendants_loop fuel t (s @ rev kids) = Some rest" "ys = n # rest"
      using Suc.prems unfolding snoc descendants_loop_snoc by auto
    from Suc.IH [OF k(2)] obtain zss where z: "list_all2 (preorder t) (kids @ rev s) zss" "rest = concat zss"
      by auto
    from z(1) obtain kss yss where split: "zss = kss @ yss" "list_all2 (preorder t) kids kss"
      "list_all2 (preorder t) (rev s) yss" by (auto simp: list_all2_append1)
    from preorder.intros [OF k(1) split(2)] split k z snoc
    show ?thesis by (intro exI [of _ "(n # concat kss) # yss"]) simp
  qed (use Suc.prems in simp)
qed

lemma descendants_iff:
  "(\<exists>fuel. descendants fuel t n = Some xs) \<longleftrightarrow> preorder t n xs"
proof
  assume "\<exists>fuel. descendants fuel t n = Some xs"
  then show "preorder t n xs"
    unfolding descendants_def by (auto simp: list_all2_Cons1 dest!: descendants_loop_sound)
next
  assume "preorder t n xs"
  then have "descendants_loop (length xs) t [n] = Some xs"
    using descendants_loop_complete [of t "[n]" "[xs]"] by simp
  then show "\<exists>fuel. descendants fuel t n = Some xs" unfolding descendants_def by blast
qed

text \<open>
  C13: the stack iterator yields exactly the preorder of the subtree: it is exhausted after
  finitely many steps if and only if the subtree has a preorder, and then it has yielded it.
\<close>

theorem descendants_preorder:
  "(\<exists>fuel. descendants fuel t n = Some xs) \<longleftrightarrow> preorder t n xs"
  by (rule descendants_iff)

lemma preorder_exists:
  assumes wl: "well_linked t root rk"
  shows "n \<in> set (node_list t) \<Longrightarrow> \<exists>xs. preorder t n xs"
proof (induction "rk n" arbitrary: n rule: less_induct)
  case less
  have ok: "store_ok t" using wl by (simp add: well_linked_def)
  from less.prems obtain kids where kids: "for_each_child t n = Some kids"
    by (auto simp: node_list_iff [OF ok])
  then have k: "kids_of t n = kids" by (simp add: kids_of_def)
  have "\<exists>xs. preorder t c xs" if "c \<in> set kids" for c
  proof (rule less.hyps)
    show "rk c < rk n" using wl less.prems that k by (auto simp: well_linked_def list_all_iff)
    show "c \<in> set (node_list t)" using well_linked_set(1) [OF wl] less.prems that k by blast
  qed
  then have "list_all2 (preorder t) kids (map (\<lambda>c. SOME xs. preorder t c xs) kids)"
    by (auto simp: list_all2_conv_all_nth intro: someI_ex)
  from preorder.intros [OF kids this] show ?case by blast
qed

lemma preorder_nodes: "preorder t n xs \<Longrightarrow> x \<in> set xs \<Longrightarrow> for_each_child t x \<noteq> None"
  by (induction arbitrary: x rule: preorder.induct) (auto simp: list_all2_conv_all_nth in_set_conv_nth; blast)

lemma preorder_mset: "preorder t n xs \<Longrightarrow> mset xs = mset (n # concat (map (kids_of t) xs))"
proof (induction rule: preorder.induct)
  case (1 n kids xss)
  from 1(2) have "mset (concat xss) = mset (kids @ concat (map (kids_of t) (concat xss)))"
    by (induction rule: list_all2_induct) auto
  moreover have "kids_of t n = kids" using 1(1) by (simp add: kids_of_def)
  ultimately show ?case by simp
qed

lemma count_concat_unique:
  assumes "\<forall>y \<in> set xs. count (mset (f y)) x = (if y = p then 1 else 0)"
  shows "count (mset (concat (map f xs))) x = count (mset xs) p"
  using assms by (induction xs) auto

text \<open>
  In a tree whose nodes are each linked once below the root, the descendants of the root are
  all the nodes, each once.
\<close>

theorem descendants_cover:
  assumes wl: "well_linked t root rk"
  shows "\<exists>fuel xs. descendants fuel t (NStatement root) = Some xs \<and> mset xs = mset (node_list t)"
proof -
  have ok: "store_ok t" using wl by (simp add: well_linked_def)
  note d = distinct_node_list [OF ok] and nodes = well_linked_set [OF wl]
  have root: "NStatement root \<in> set (node_list t)" using nodes(1) by blast
  from preorder_exists [OF wl root] obtain xs where pre: "preorder t (NStatement root) xs" ..
  have sub: "set xs \<subseteq> set (node_list t)"
    using preorder_nodes [OF pre] by (auto simp: node_list_iff [OF ok])
  have count: "count (mset xs) x = count (mset (NStatement root # concat (map (kids_of t) xs))) x" for x
    using preorder_mset [OF pre] by simp
  obtain B where B: "\<forall>n \<in> set (node_list t). rk n \<le> B"
    using finite_nat_set_iff_bounded_le [of "rk ` set (node_list t)"] by auto
  have one: "count (mset xs) x = 1" if "x \<in> set (node_list t)" for x
    using that
  proof (induction "B - rk x" arbitrary: x rule: less_induct)
    case less
    have kids: "distinct (kids_of t y)" if "y \<in> set (node_list t)" for y
      using nodes(2) that by (auto simp: distinct_concat_iff)
    show ?case
    proof (cases "x = NStatement root")
      case True
      have "x \<notin> set (concat (map (kids_of t) xs))" using nodes(2) sub True by auto
      with count [of x] True show ?thesis by simp
    next
      case False
      with less.prems nodes(1) obtain p where p: "p \<in> set (node_list t)" "x \<in> set (kids_of t p)" by blast
      then have rank: "rk x < rk p" using wl by (auto simp: well_linked_def list_all_iff)
      then have "B - rk p < B - rk x" using B p(1) by (meson diff_less_mono2 less_le_trans)
      from less.hyps [OF this p(1)] have "count (mset xs) p = 1" .
      moreover have "count (mset (kids_of t y)) x = (if y = p then 1 else 0)" if "y \<in> set xs" for y
      proof (cases "y = p")
        case True
        with p kids [OF p(1)] show ?thesis by (simp add: distinct_count_atmost_1)
      next
        case other: False
        have "x \<notin> set (kids_of t y)" using kids_disjoint [OF wl _ p(1) _ p(2), of y] sub that other by blast
        with other show ?thesis by simp
      qed
      ultimately have "count (mset (concat (map (kids_of t) xs))) x = 1"
        using count_concat_unique [of xs "kids_of t" x p] by simp
      with count [of x] False show ?thesis by simp
    qed
  qed
  have "mset xs = mset (node_list t)"
  proof (rule multiset_eqI)
    fix x show "count (mset xs) x = count (mset (node_list t)) x"
    proof (cases "x \<in> set (node_list t)")
      case True
      with one d show ?thesis by (simp add: distinct_count_atmost_1)
    next
      case False
      with sub have "x \<notin> set xs" by blast
      with False show ?thesis by (metis count_eq_zero_iff set_mset_mset)
    qed
  qed
  with pre show ?thesis using descendants_iff [of t "NStatement root" xs] by blast
qed

theorem descendants_cover_witness:
  "\<exists>fuel xs. descendants fuel sample_builder (NStatement 2) = Some xs \<and>
     mset xs = mset (node_list sample_builder)"
proof -
  have "well_linked sample_builder 2 sample_rank"
    by (simp add: well_linked_def store_ok_def sample_builder_def ctree_eval)
  then show ?thesis by (rule descendants_cover)
qed

end
