(* ===== verification/Ctree_Extract.thy ===== *)
theory Ctree_Extract
  imports Ctree
begin

text \<open>
  \<open>decompiler/ctree/extract.rs\<close>: the callbacks of the facade's depth-first walk, each of which
  allocates one node over the handles its children's callbacks returned, and the closing step that
  turns the arenas into a tree or the first recorded failure into an error.

  A run of the walk is a list of events; \<open>event_step\<close> dispatches one to its handler, which returns
  the handle the facade gets back, if any, and the builder after it. \<open>None\<close> is a panic.
\<close>

definition NONE :: u32 where
  "NONE = 0xFFFFFFFF"

subsection \<open>Structural tags\<close>

datatype structural_tag = TagEmpty | TagTern | TagCast | TagIdx | TagInsn | TagSizeof | TagType

fun structural_tag_code :: "structural_tag \<Rightarrow> u32" where
  "structural_tag_code TagEmpty = 0"
| "structural_tag_code TagTern = 16"
| "structural_tag_code TagCast = 48"
| "structural_tag_code TagIdx = 58"
| "structural_tag_code TagInsn = 66"
| "structural_tag_code TagSizeof = 67"
| "structural_tag_code TagType = 69"

definition structural_tag_variants :: "structural_tag list" where
  "structural_tag_variants = [TagEmpty, TagTern, TagCast, TagIdx, TagInsn, TagSizeof, TagType]"

definition structural_tag_try_from :: "u32 \<Rightarrow> structural_tag option" where
  "structural_tag_try_from n = try_from structural_tag_code structural_tag_variants n"

interpretation structural_tags: closed_enum structural_tag_code structural_tag_variants
proof
  show "distinct (map structural_tag_code structural_tag_variants)"
    by (simp add: structural_tag_variants_def)
  show "v \<in> set structural_tag_variants" for v
    by (cases v) (simp_all add: structural_tag_variants_def)
qed

subsection \<open>The callback builder\<close>

record callback_builder =
  cb_b :: ctree_builder
  cb_error :: "extract_error option"

definition callback_builder_new :: callback_builder where
  "callback_builder_new = \<lparr>cb_b = ctree_builder_new, cb_error = None\<rparr>"

definition fail :: "extract_error \<Rightarrow> callback_builder \<Rightarrow> callback_builder" where
  "fail e cb = (if cb_error cb = None then cb\<lparr>cb_error := Some e\<rparr> else cb)"

definition node_address :: "u64 \<Rightarrow> address option" where
  "node_address raw = try_new raw"

definition opt_e :: "u32 \<Rightarrow> expression_id option" where
  "opt_e raw = (if raw \<noteq> NONE then Some raw else None)"

definition opt_s :: "u32 \<Rightarrow> statement_id option" where
  "opt_s raw = (if raw \<noteq> NONE then Some raw else None)"

definition emit_expression ::
  "u64 \<Rightarrow> u32 \<Rightarrow> expression_kind \<Rightarrow> callback_builder \<Rightarrow> (u32 \<times> callback_builder) option" where
  "emit_expression ea ty kind cb =
     do { (i, b) \<leftarrow> push_expression ty kind (node_address ea) (cb_b cb); Some (i, cb\<lparr>cb_b := b\<rparr>) }"

definition emit_statement ::
  "u64 \<Rightarrow> statement_kind \<Rightarrow> callback_builder \<Rightarrow> (u32 \<times> callback_builder) option" where
  "emit_statement ea kind cb =
     do { (i, b) \<leftarrow> push_statement kind (node_address ea) (cb_b cb); Some (i, cb\<lparr>cb_b := b\<rparr>) }"

text \<open>The methods the callbacks forward to: one per kind of node.\<close>

definition emit_num ::
  "u64 \<Rightarrow> u64 \<Rightarrow> u32 \<Rightarrow> callback_builder
   \<Rightarrow> (u32 \<times> callback_builder) option" where
  [simp]: "emit_num ea v ty cb = emit_expression ea ty (ENum v) cb"

definition emit_fnum ::
  "u64 \<Rightarrow> u64 \<Rightarrow> u32 \<Rightarrow> callback_builder
   \<Rightarrow> (u32 \<times> callback_builder) option" where
  [simp]: "emit_fnum ea v ty cb = emit_expression ea ty (EFnum v) cb"

definition emit_var ::
  "u64 \<Rightarrow> u32 \<Rightarrow> u32 \<Rightarrow> callback_builder
   \<Rightarrow> (u32 \<times> callback_builder) option" where
  [simp]: "emit_var ea v ty cb = emit_expression ea ty (EVar v) cb"

definition emit_string ::
  "u64 \<Rightarrow> string \<Rightarrow> u32 \<Rightarrow> callback_builder
   \<Rightarrow> (u32 \<times> callback_builder) option" where
  [simp]: "emit_string ea s ty cb = emit_expression ea ty (EStr s) cb"

definition emit_helper ::
  "u64 \<Rightarrow> string \<Rightarrow> u32 \<Rightarrow> callback_builder
   \<Rightarrow> (u32 \<times> callback_builder) option" where
  [simp]: "emit_helper ea s ty cb = emit_expression ea ty (EHelper s) cb"

definition emit_call ::
  "u64 \<Rightarrow> u32 \<Rightarrow> u32 list \<Rightarrow> u32 \<Rightarrow> callback_builder
   \<Rightarrow> (u32 \<times> callback_builder) option" where
  [simp]: "emit_call ea callee args ty cb = emit_expression ea ty (ECall callee args) cb"

definition emit_memref ::
  "u64 \<Rightarrow> u32 \<Rightarrow> u32 \<Rightarrow> u32 \<Rightarrow> callback_builder
   \<Rightarrow> (u32 \<times> callback_builder) option" where
  [simp]: "emit_memref ea obj off ty cb = emit_expression ea ty (EMemberRef obj off) cb"

definition emit_memptr ::
  "u64 \<Rightarrow> u32 \<Rightarrow> u32 \<Rightarrow> u32 \<Rightarrow> callback_builder
   \<Rightarrow> (u32 \<times> callback_builder) option" where
  [simp]: "emit_memptr ea obj off ty cb = emit_expression ea ty (EMemberPtr obj off) cb"

definition emit_deref ::
  "u64 \<Rightarrow> u32 \<Rightarrow> u32 \<Rightarrow> u32 \<Rightarrow> callback_builder
   \<Rightarrow> (u32 \<times> callback_builder) option" where
  [simp]: "emit_deref ea x sz ty cb = emit_expression ea ty (EDeref x sz) cb"

definition emit_block ::
  "u64 \<Rightarrow> u32 list \<Rightarrow> callback_builder
   \<Rightarrow> (u32 \<times> callback_builder) option" where
  [simp]: "emit_block ea kids cb = emit_statement ea (KBlock kids) cb"

definition emit_expression_statement ::
  "u64 \<Rightarrow> u32 \<Rightarrow> callback_builder
   \<Rightarrow> (u32 \<times> callback_builder) option" where
  [simp]: "emit_expression_statement ea e cb = emit_statement ea (KExpression e) cb"

definition emit_if ::
  "u64 \<Rightarrow> u32 \<Rightarrow> u32 \<Rightarrow> u32 \<Rightarrow> callback_builder
   \<Rightarrow> (u32 \<times> callback_builder) option" where
  [simp]: "emit_if ea c t e cb = emit_statement ea (KIf c t (opt_s e)) cb"

definition emit_for ::
  "u64 \<Rightarrow> u32 \<Rightarrow> u32 \<Rightarrow> u32 \<Rightarrow> u32 \<Rightarrow> callback_builder
   \<Rightarrow> (u32 \<times> callback_builder) option" where
  [simp]: "emit_for ea init c step body cb = emit_statement ea (KFor (opt_e init) (opt_e c) (opt_e step) body) cb"

definition emit_while ::
  "u64 \<Rightarrow> u32 \<Rightarrow> u32 \<Rightarrow> callback_builder
   \<Rightarrow> (u32 \<times> callback_builder) option" where
  [simp]: "emit_while ea c body cb = emit_statement ea (KWhile c body) cb"

definition emit_do ::
  "u64 \<Rightarrow> u32 \<Rightarrow> u32 \<Rightarrow> callback_builder
   \<Rightarrow> (u32 \<times> callback_builder) option" where
  [simp]: "emit_do ea body c cb = emit_statement ea (KDo body c) cb"

definition emit_switch_node ::
  "u64 \<Rightarrow> u32 \<Rightarrow> switch_case list \<Rightarrow> callback_builder
   \<Rightarrow> (u32 \<times> callback_builder) option" where
  [simp]: "emit_switch_node ea expr cs cb = emit_statement ea (KSwitch expr cs) cb"

definition emit_return ::
  "u64 \<Rightarrow> u32 \<Rightarrow> callback_builder
   \<Rightarrow> (u32 \<times> callback_builder) option" where
  [simp]: "emit_return ea e cb = emit_statement ea (KReturn (opt_e e)) cb"

definition emit_goto ::
  "u64 \<Rightarrow> i32 \<Rightarrow> callback_builder
   \<Rightarrow> (u32 \<times> callback_builder) option" where
  [simp]: "emit_goto ea label cb = emit_statement ea (KGoto label) cb"

definition emit_try ::
  "u64 \<Rightarrow> u32 \<Rightarrow> u32 list \<Rightarrow> callback_builder
   \<Rightarrow> (u32 \<times> callback_builder) option" where
  [simp]: "emit_try ea body catches cb = emit_statement ea (KTry body catches) cb"

definition emit_throw ::
  "u64 \<Rightarrow> u32 \<Rightarrow> callback_builder
   \<Rightarrow> (u32 \<times> callback_builder) option" where
  [simp]: "emit_throw ea e cb = emit_statement ea (KThrow (opt_e e)) cb"

definition emit_break ::
  "u64 \<Rightarrow> callback_builder
   \<Rightarrow> (u32 \<times> callback_builder) option" where
  [simp]: "emit_break ea cb = emit_statement ea KBreak cb"

definition emit_continue ::
  "u64 \<Rightarrow> callback_builder
   \<Rightarrow> (u32 \<times> callback_builder) option" where
  [simp]: "emit_continue ea cb = emit_statement ea KContinue cb"

definition emit_empty_statement ::
  "u64 \<Rightarrow> callback_builder
   \<Rightarrow> (u32 \<times> callback_builder) option" where
  [simp]: "emit_empty_statement ea cb = emit_statement ea KEmpty cb"

definition emit_obj ::
  "u64 \<Rightarrow> u64 \<Rightarrow> string option \<Rightarrow> u32 \<Rightarrow> callback_builder \<Rightarrow> (u32 \<times> callback_builder) option" where
  "emit_obj ea target name ty cb =
     (case try_new target of
        Some addr \<Rightarrow> emit_expression ea ty (EObj addr name) cb
      | None \<Rightarrow> emit_expression ea ty EEmpty (fail BadAddress cb))"

text \<open>\<open>u16::try_from(ctype).ok()\<close>.\<close>

definition op16 :: "u32 \<Rightarrow> u16 option" where
  "op16 ctype = (if unat ctype < 65536 then Some (ucast ctype) else None)"

definition classify ::
  "u32 \<Rightarrow> u32 \<Rightarrow> u32 \<Rightarrow> u32 \<Rightarrow> callback_builder \<Rightarrow> expression_kind \<times> callback_builder" where
  "classify ctype x y z cb =
     (if ctype = structural_tag_code TagInsn then (EInternal, cb)
      else case Option.bind (op16 ctype) assignment_op_try_from of
        Some op \<Rightarrow> (EAssign op x y, cb)
      | None \<Rightarrow>
     (case Option.bind (op16 ctype) binary_op_try_from of
        Some op \<Rightarrow> (EBinary op x y, cb)
      | None \<Rightarrow>
     (case Option.bind (op16 ctype) unary_op_try_from of
        Some op \<Rightarrow> (EUnary op x, cb)
      | None \<Rightarrow>
     (case structural_tag_try_from ctype of
        Some TagTern \<Rightarrow> (ETernary x y z, cb)
      | Some TagCast \<Rightarrow> (ECast x, cb)
      | Some TagIdx \<Rightarrow> (EIndex x y, cb)
      | Some TagSizeof \<Rightarrow> (ESizeof x, cb)
      | Some TagEmpty \<Rightarrow> (EEmpty, cb)
      | Some TagType \<Rightarrow> (ETypeExpression, cb)
      | Some TagInsn \<Rightarrow> (EInternal, cb)
      | None \<Rightarrow> (EInternal, fail (UnknownExpressionTag ctype) cb)))))"

definition emit_op ::
  "u64 \<Rightarrow> u32 \<Rightarrow> u32 \<Rightarrow> u32 \<Rightarrow> u32 \<Rightarrow> u32 \<Rightarrow> callback_builder \<Rightarrow> (u32 \<times> callback_builder) option" where
  "emit_op ea ctype x y z ty cb =
     (let (kind, cb1) = classify ctype x y z cb in emit_expression ea ty kind cb1)"

text \<open>\<open>asm\<close>: the sentinel is dropped from the list and recorded as a failure.\<close>

fun asm_addrs :: "u64 list \<Rightarrow> callback_builder \<Rightarrow> address list \<times> callback_builder" where
  "asm_addrs [] cb = ([], cb)"
| "asm_addrs (a # addrs) cb =
     (case try_new a of
        Some e \<Rightarrow> (let (out, cb1) = asm_addrs addrs cb in (e # out, cb1))
      | None \<Rightarrow> asm_addrs addrs (fail BadAddress cb))"

definition emit_asm :: "u64 \<Rightarrow> u64 list \<Rightarrow> callback_builder \<Rightarrow> (u32 \<times> callback_builder) option" where
  "emit_asm ea addrs cb = (let (out, cb1) = asm_addrs addrs cb in emit_statement ea (KAsm out) cb1)"

text \<open>The case lists of a switch come flattened; a slice past the end of \<open>values\<close> panics.\<close>

fun split_cases :: "(u32 \<times> u32) list \<Rightarrow> nat \<Rightarrow> u64 list \<Rightarrow> switch_case list option" where
  "split_cases [] pos values = Some []"
| "split_cases ((body, n) # rest) pos values =
     (if pos + unat n \<le> length values
      then do { cs \<leftarrow> split_cases rest (pos + unat n) values;
                Some (Case (take (unat n) (drop pos values)) body # cs) }
      else None)"

definition emit_switch ::
  "u64 \<Rightarrow> u32 \<Rightarrow> u32 list \<Rightarrow> u32 list \<Rightarrow> u64 list \<Rightarrow> callback_builder
   \<Rightarrow> (u32 \<times> callback_builder) option" where
  "emit_switch ea expr bodies counts values cb =
     do { cs \<leftarrow> split_cases (zip bodies counts) 0 values;
          emit_switch_node ea expr cs cb }"

record loc_piece =
  lc_atype :: u32
  lc_reg :: u32
  lc_sval :: i64
  lc_off :: u32
  lc_size :: u32

definition emit_lvar ::
  "string \<Rightarrow> u32 \<Rightarrow> u32 \<Rightarrow> u32 \<Rightarrow> string \<Rightarrow> u32 \<Rightarrow> u32 \<Rightarrow> u32 \<Rightarrow> i64 \<Rightarrow> loc_piece list
   \<Rightarrow> callback_builder \<Rightarrow> callback_builder option" where
  "emit_lvar name ty flags width comment atype reg1 reg2 sval pieces cb =
     do { ps \<leftarrow> traverse (\<lambda>p. do { l \<leftarrow> from_argloc (lc_atype p) (lc_reg p) 0 (lc_sval p) [];
                                  Some (LocationPiece l (lc_off p) (lc_size p)) }) pieces;
          loc \<leftarrow> from_argloc atype reg1 reg2 sval ps;
          (v, b) \<leftarrow> push_local
            \<lparr>lv_name = name, lv_ty = ty, lv_is_arg = bit flags 0, lv_is_result = bit flags 1,
             lv_is_byref = bit flags 2, lv_width = width,
             lv_comment = (if comment = [] then None else Some comment), lv_location = loc\<rparr> (cb_b cb);
          Some (cb\<lparr>cb_b := b\<rparr>) }"

definition callback_finish ::
  "bool \<Rightarrow> u32 \<Rightarrow> callback_builder \<Rightarrow> (extract_error + ctree) option" where
  "callback_finish debug root cb =
     (case cb_error cb of
        Some e \<Rightarrow> Some (Inl e)
      | None \<Rightarrow>
     (case tb_too_wide (cb_types (cb_b cb)) of
        Some bytes \<Rightarrow> Some (Inl (ScalarTooWide bytes))
      | None \<Rightarrow>
          let unfilled = builder_unfilled (cb_types (cb_b cb))
          in if unfilled \<noteq> 0 then Some (Inl (UnfilledType unfilled))
             else map_option Inr (finish debug root (cb_b cb))))"

subsection \<open>Events\<close>

datatype event =
    ENumEv u64 u64 u32
  | EFnumEv u64 u64 u32
  | EObjEv u64 u64 string u32
  | EVarEv u64 u32 u32
  | EStrEv u64 string u32
  | EHelperEv u64 string u32
  | ECallEv u64 u32 "u32 list" u32
  | EMemrefEv u64 u32 u32 u32
  | EMemptrEv u64 u32 u32 u32
  | EDerefEv u64 u32 u32 u32
  | EOpEv u64 u32 u32 u32 u32 u32
  | SBlockEv u64 "u32 list"
  | SExprEv u64 u32
  | SIfEv u64 u32 u32 u32
  | SForEv u64 u32 u32 u32 u32
  | SWhileEv u64 u32 u32
  | SDoEv u64 u32 u32
  | SSwitchEv u64 u32 "u32 list" "u32 list" "u64 list"
  | SBreakEv u64
  | SContinueEv u64
  | SReturnEv u64 u32
  | SGotoEv u64 i32
  | SAsmEv u64 "u64 list"
  | STryEv u64 u32 "u32 list"
  | SThrowEv u64 u32
  | SEmptyEv u64
  | LVarEv string u32 u32 u32 string u32 u32 u32 i64 "loc_piece list"
  | TypeEv sink_op

definition with_id :: "(u32 \<times> callback_builder) option \<Rightarrow> (u32 option \<times> callback_builder) option" where
  "with_id r = map_option (\<lambda>(i, cb). (Some i, cb)) r"

fun event_step :: "event \<Rightarrow> callback_builder \<Rightarrow> (u32 option \<times> callback_builder) option" where
  "event_step (ENumEv ea v ty) cb = with_id (emit_num ea v ty cb)"
| "event_step (EFnumEv ea v ty) cb = with_id (emit_fnum ea v ty cb)"
| "event_step (EObjEv ea target name ty) cb =
     with_id (emit_obj ea target (if name = [] then None else Some name) ty cb)"
| "event_step (EVarEv ea v ty) cb = with_id (emit_var ea v ty cb)"
| "event_step (EStrEv ea s ty) cb = with_id (emit_string ea s ty cb)"
| "event_step (EHelperEv ea s ty) cb = with_id (emit_helper ea s ty cb)"
| "event_step (ECallEv ea callee args ty) cb = with_id (emit_call ea callee args ty cb)"
| "event_step (EMemrefEv ea obj off ty) cb = with_id (emit_memref ea obj off ty cb)"
| "event_step (EMemptrEv ea obj off ty) cb = with_id (emit_memptr ea obj off ty cb)"
| "event_step (EDerefEv ea x sz ty) cb = with_id (emit_deref ea x sz ty cb)"
| "event_step (EOpEv ea ctype x y z ty) cb = with_id (emit_op ea ctype x y z ty cb)"
| "event_step (SBlockEv ea kids) cb = with_id (emit_block ea kids cb)"
| "event_step (SExprEv ea e) cb = with_id (emit_expression_statement ea e cb)"
| "event_step (SIfEv ea c t e) cb = with_id (emit_if ea c t e cb)"
| "event_step (SForEv ea init c step body) cb =
     with_id (emit_for ea init c step body cb)"
| "event_step (SWhileEv ea c body) cb = with_id (emit_while ea c body cb)"
| "event_step (SDoEv ea body c) cb = with_id (emit_do ea body c cb)"
| "event_step (SSwitchEv ea e bodies counts values) cb =
     with_id (emit_switch ea e bodies counts values cb)"
| "event_step (SBreakEv ea) cb = with_id (emit_break ea cb)"
| "event_step (SContinueEv ea) cb = with_id (emit_continue ea cb)"
| "event_step (SReturnEv ea e) cb = with_id (emit_return ea e cb)"
| "event_step (SGotoEv ea label) cb = with_id (emit_goto ea label cb)"
| "event_step (SAsmEv ea addrs) cb = with_id (emit_asm ea addrs cb)"
| "event_step (STryEv ea body catches) cb = with_id (emit_try ea body catches cb)"
| "event_step (SThrowEv ea e) cb = with_id (emit_throw ea e cb)"
| "event_step (SEmptyEv ea) cb = with_id (emit_empty_statement ea cb)"
| "event_step (LVarEv name ty flags width comment atype reg1 reg2 sval pieces) cb =
     map_option (\<lambda>cb'. (None, cb'))
       (emit_lvar name ty flags width comment atype reg1 reg2 sval pieces cb)"
| "event_step (TypeEv op) cb =
     map_option (\<lambda>(r, tb). (r, cb\<lparr>cb_b := cb_b cb\<lparr>cb_types := tb\<rparr>\<rparr>))
       (sink_step op (cb_types (cb_b cb)))"

fun run_events :: "event list \<Rightarrow> callback_builder \<Rightarrow> callback_builder option" where
  "run_events [] cb = Some cb"
| "run_events (ev # evs) cb = do { (r, cb1) \<leftarrow> event_step ev cb; run_events evs cb1 }"

text \<open>\<open>walk\<close>: the facade's events, then the root handle it returns.\<close>

definition extract_ctree :: "bool \<Rightarrow> event list \<Rightarrow> u32 \<Rightarrow> (extract_error + ctree) option" where
  "extract_ctree debug evs root = do { cb \<leftarrow> run_events evs callback_builder_new; callback_finish debug root cb }"

lemmas event_defs = emit_expression_def emit_statement_def emit_obj_def emit_op_def emit_asm_def
  emit_switch_def with_id_def

subsection \<open>Classifying an operator\<close>

lemma op16_Some: "op16 n = Some v \<longleftrightarrow> unat n = unat v"
proof
  assume "op16 n = Some v"
  then have n: "unat n < 65536" "v = ucast n" by (auto simp: op16_def split: if_splits)
  then show "unat n = unat v" by (simp add: unsigned_ucast_eq take_bit_nat_eq_self)
next
  assume eq: "unat n = unat v"
  have v: "unat v < 2 ^ 16" using unsigned_less [of v] by simp
  have "unat (ucast n :: u16) = take_bit 16 (unat v)" by (simp add: unsigned_ucast_eq eq)
  with take_bit_nat_eq_self [OF v] have "(ucast n :: u16) = v" by (simp add: word_unat_eq_iff)
  with v eq show "op16 n = Some v" by (simp add: op16_def)
qed

lemma op16_bind:
  "Option.bind (op16 n) f = Some op \<longleftrightarrow> (\<exists>v. unat n = unat v \<and> f v = Some op)"
  by (auto simp: op16_Some)

lemma assignment_probe:
  "Option.bind (op16 n) assignment_op_try_from = Some a \<longleftrightarrow> unat n = unat (assignment_op_code a)"
  by (auto simp: op16_Some assignment_op_try_from_def assignment_ops.try_from_Some_iff)

lemma binary_probe:
  "Option.bind (op16 n) binary_op_try_from = Some b \<longleftrightarrow> unat n = unat (binary_op_code b)"
  by (auto simp: op16_Some binary_op_try_from_def binary_ops.try_from_Some_iff)

lemma unary_probe:
  "Option.bind (op16 n) unary_op_try_from = Some u \<longleftrightarrow> unat n = unat (unary_op_code u)"
  by (auto simp: op16_Some unary_op_try_from_def unary_ops.try_from_Some_iff)

lemma structural_probe: "structural_tag_try_from n = Some s \<longleftrightarrow> n = structural_tag_code s"
  by (auto simp: structural_tag_try_from_def structural_tags.try_from_Some_iff)

lemma structural_code_range: "unat (structural_tag_code s) \<in> {0, 16, 48, 58, 66, 67, 69}"
  by (cases s) simp_all

lemma unary_code_gaps: "unat (unary_op_code u) \<notin> {48, 51}"
  by (cases u) simp_all

text \<open>The kind a structural tag makes.\<close>

fun structural_kind :: "structural_tag \<Rightarrow> u32 \<Rightarrow> u32 \<Rightarrow> u32 \<Rightarrow> expression_kind" where
  "structural_kind TagEmpty x y z = EEmpty"
| "structural_kind TagTern x y z = ETernary x y z"
| "structural_kind TagCast x y z = ECast x"
| "structural_kind TagIdx x y z = EIndex x y"
| "structural_kind TagInsn x y z = EInternal"
| "structural_kind TagSizeof x y z = ESizeof x"
| "structural_kind TagType x y z = ETypeExpression"

text \<open>The raw tags of the four enumerations do not meet, so the order of the probes is immaterial.\<close>

lemma probes_disjoint:
  "unat n = unat (assignment_op_code a) \<Longrightarrow> Option.bind (op16 n) binary_op_try_from = None"
  "unat n = unat (assignment_op_code a) \<Longrightarrow> n \<noteq> structural_tag_code s"
  "unat n = unat (binary_op_code b) \<Longrightarrow> Option.bind (op16 n) assignment_op_try_from = None"
  "unat n = unat (binary_op_code b) \<Longrightarrow> n \<noteq> structural_tag_code s"
  "unat n = unat (unary_op_code u) \<Longrightarrow> Option.bind (op16 n) assignment_op_try_from = None"
  "unat n = unat (unary_op_code u) \<Longrightarrow> Option.bind (op16 n) binary_op_try_from = None"
  "unat n = unat (unary_op_code u) \<Longrightarrow> n \<noteq> structural_tag_code s"
proof -
  note a = assignment_code_range and b = binary_code_range and u = unary_code_range
    and s = structural_code_range [of s] and g = unary_code_gaps
  have none: "m = None" if "\<And>y. m \<noteq> Some y" for m :: "'z option" using that by (cases m) auto
  show "Option.bind (op16 n) binary_op_try_from = None" if "unat n = unat (assignment_op_code a)"
  proof (rule none)
    fix y show "Option.bind (op16 n) binary_op_try_from \<noteq> Some y"
      unfolding binary_probe using that a [of a] b [of y] by auto
  qed
  show "Option.bind (op16 n) assignment_op_try_from = None" if "unat n = unat (binary_op_code b)"
  proof (rule none)
    fix y show "Option.bind (op16 n) assignment_op_try_from \<noteq> Some y"
      unfolding assignment_probe using that a [of y] b [of b] by auto
  qed
  show "Option.bind (op16 n) assignment_op_try_from = None" if "unat n = unat (unary_op_code u)"
  proof (rule none)
    fix y show "Option.bind (op16 n) assignment_op_try_from \<noteq> Some y"
      unfolding assignment_probe using that a [of y] u [of u] by auto
  qed
  show "Option.bind (op16 n) binary_op_try_from = None" if "unat n = unat (unary_op_code u)"
  proof (rule none)
    fix y show "Option.bind (op16 n) binary_op_try_from \<noteq> Some y"
      unfolding binary_probe using that b [of y] u [of u] by auto
  qed
  show "n \<noteq> structural_tag_code s" if "unat n = unat (assignment_op_code a)"
    using that a [of a] s by auto
  show "n \<noteq> structural_tag_code s" if "unat n = unat (binary_op_code b)"
    using that b [of b] s by auto
  show "n \<noteq> structural_tag_code s" if "unat n = unat (unary_op_code u)"
    using that u [of u] g [of u] s by auto
qed

lemma classify_tag:
  "(unat ctype = unat (assignment_op_code a) \<longrightarrow> classify ctype x y z cb = (EAssign a x y, cb)) \<and>
   (unat ctype = unat (binary_op_code b) \<longrightarrow> classify ctype x y z cb = (EBinary b x y, cb)) \<and>
   (unat ctype = unat (unary_op_code u) \<longrightarrow> classify ctype x y z cb = (EUnary u x, cb)) \<and>
   (ctype = structural_tag_code s \<longrightarrow> classify ctype x y z cb = (structural_kind s x y z, cb)) \<and>
   ((\<forall>a b u s. unat ctype \<noteq> unat (assignment_op_code a) \<and> unat ctype \<noteq> unat (binary_op_code b) \<and>
        unat ctype \<noteq> unat (unary_op_code u) \<and> ctype \<noteq> structural_tag_code s) \<longrightarrow>
    classify ctype x y z cb = (EInternal, fail (UnknownExpressionTag ctype) cb))"
proof (intro conjI impI)
  assume a: "unat ctype = unat (assignment_op_code a)"
  then have "Option.bind (op16 ctype) assignment_op_try_from = Some a" unfolding assignment_probe .
  moreover have "ctype \<noteq> structural_tag_code TagInsn" by (rule probes_disjoint(2) [OF a])
  ultimately show "classify ctype x y z cb = (EAssign a x y, cb)"
    unfolding classify_def by (simp del: bind_Some_iff structural_tag_code.simps)
next
  assume b: "unat ctype = unat (binary_op_code b)"
  then have "Option.bind (op16 ctype) binary_op_try_from = Some b" unfolding binary_probe .
  moreover note probes_disjoint(3) [OF b]
  moreover have "ctype \<noteq> structural_tag_code TagInsn" by (rule probes_disjoint(4) [OF b])
  ultimately show "classify ctype x y z cb = (EBinary b x y, cb)"
    unfolding classify_def by (simp del: bind_Some_iff structural_tag_code.simps)
next
  assume u: "unat ctype = unat (unary_op_code u)"
  then have "Option.bind (op16 ctype) unary_op_try_from = Some u" unfolding unary_probe .
  moreover note probes_disjoint(5) [OF u] probes_disjoint(6) [OF u]
  moreover have "ctype \<noteq> structural_tag_code TagInsn" by (rule probes_disjoint(7) [OF u])
  ultimately show "classify ctype x y z cb = (EUnary u x, cb)"
    unfolding classify_def by (simp del: bind_Some_iff structural_tag_code.simps)
next
  assume s: "ctype = structural_tag_code s"
  have none: "m = None" if "\<And>y. m \<noteq> Some y" for m :: "'z option" using that by (cases m) auto
  have "Option.bind (op16 ctype) assignment_op_try_from = None"
    by (rule none) (unfold assignment_probe, use probes_disjoint(2) s in blast)
  moreover have "Option.bind (op16 ctype) binary_op_try_from = None"
    by (rule none) (unfold binary_probe, use probes_disjoint(4) s in blast)
  moreover have "Option.bind (op16 ctype) unary_op_try_from = None"
    by (rule none) (unfold unary_probe, use probes_disjoint(7) s in blast)
  moreover have "structural_tag_try_from ctype = Some s" using s by (simp add: structural_probe)
  ultimately show "classify ctype x y z cb = (structural_kind s x y z, cb)"
    unfolding classify_def using s by (cases s) simp_all
next
  assume no: "\<forall>a b u s. unat ctype \<noteq> unat (assignment_op_code a) \<and> unat ctype \<noteq> unat (binary_op_code b) \<and>
        unat ctype \<noteq> unat (unary_op_code u) \<and> ctype \<noteq> structural_tag_code s"
  have none: "m = None" if "\<And>y. m \<noteq> Some y" for m :: "'z option" using that by (cases m) auto
  have "Option.bind (op16 ctype) assignment_op_try_from = None"
    by (rule none) (unfold assignment_probe, use no in blast)
  moreover have "Option.bind (op16 ctype) binary_op_try_from = None"
    by (rule none) (unfold binary_probe, use no in blast)
  moreover have "Option.bind (op16 ctype) unary_op_try_from = None"
    by (rule none) (unfold unary_probe, use no in blast)
  moreover have "structural_tag_try_from ctype = None"
    by (rule none) (unfold structural_probe, use no in blast)
  moreover have "ctype \<noteq> structural_tag_code TagInsn" using no by blast
  ultimately show "classify ctype x y z cb = (EInternal, fail (UnknownExpressionTag ctype) cb)"
    unfolding classify_def by (simp del: bind_Some_iff structural_tag_code.simps)
qed

text \<open>
  What an operator tag becomes depends only on which enumeration holds it, and a tag none of
  them holds, and only such a tag, is recorded as unknown.
\<close>

theorem classify_by_tag:
  "(unat ctype = unat (assignment_op_code a) \<longrightarrow> classify ctype x y z cb = (EAssign a x y, cb)) \<and>
   (unat ctype = unat (binary_op_code b) \<longrightarrow> classify ctype x y z cb = (EBinary b x y, cb)) \<and>
   (unat ctype = unat (unary_op_code u) \<longrightarrow> classify ctype x y z cb = (EUnary u x, cb)) \<and>
   (ctype = structural_tag_code s \<longrightarrow> classify ctype x y z cb = (structural_kind s x y z, cb)) \<and>
   ((\<forall>a b u s. unat ctype \<noteq> unat (assignment_op_code a) \<and> unat ctype \<noteq> unat (binary_op_code b) \<and>
        unat ctype \<noteq> unat (unary_op_code u) \<and> ctype \<noteq> structural_tag_code s) \<longrightarrow>
    classify ctype x y z cb = (EInternal, fail (UnknownExpressionTag ctype) cb))"
  by (rule classify_tag)

theorem classify_by_tag_witness:
  "classify 35 0 1 2 callback_builder_new = (EBinary OpAdd 0 1, callback_builder_new)"
  using classify_by_tag [of 35 PlainAssign 0 1 2 callback_builder_new OpAdd OpNeg TagEmpty] by simp

subsection \<open>Failures\<close>

lemma fail_sticky [simp]: "cb_error cb = Some e \<Longrightarrow> fail e' cb = cb"
  by (simp add: fail_def)

lemma classify_error:
  "classify ctype x y z cb = (k, cb') \<Longrightarrow> cb_error cb = Some e \<Longrightarrow> cb' = cb"
  by (auto simp: classify_def split: if_splits option.splits structural_tag.splits)

lemma asm_addrs_error:
  "asm_addrs addrs cb = (out, cb') \<Longrightarrow> cb_error cb = Some e \<Longrightarrow> cb' = cb"
  by (induction addrs arbitrary: out cb') (auto split: option.splits prod.splits)

lemma event_step_error [frame_rules]:
  assumes "event_step ev cb = Some (r, cb')" and "cb_error cb = Some e"
  shows "cb_error cb' = Some e"
  using assms
  by (cases ev) (auto simp: event_defs emit_lvar_def split: option.splits prod.splits
      dest!: classify_error asm_addrs_error)

lemma run_events_error:
  "run_events evs cb = Some cb' \<Longrightarrow> cb_error cb = Some e \<Longrightarrow> cb_error cb' = Some e"
  by (induction evs arbitrary: cb) (auto dest: event_step_error)

text \<open>The first failure a walk records is the error it ends with, whatever follows.\<close>

theorem first_failure_reported:
  assumes "event_step ev cb = Some (r, cb1)" and "cb_error cb1 = Some e"
    and "run_events evs cb1 = Some cb2"
  shows "callback_finish debug root cb2 = Some (Inl e)"
  using run_events_error [OF assms(3,2)] by (simp add: callback_finish_def)

theorem first_failure_reported_witness:
  "\<exists>cb1 cb2. event_step (EObjEv 0 BADADDR ''x'' 0) callback_builder_new = Some (Some 0, cb1) \<and>
     run_events [EOpEv 0 51 0 0 0 0, SExprEv 0 1] cb1 = Some cb2 \<and>
     callback_finish True 0 cb2 = Some (Inl BadAddress)"
proof -
  obtain cb1 where cb1: "event_step (EObjEv 0 BADADDR ''x'' 0) callback_builder_new = Some (Some 0, cb1)"
    "cb_error cb1 = Some BadAddress"
    by (simp add: event_defs try_new_def BADADDR_def fail_def callback_builder_new_def
        ctree_builder_new_def push_expression_def arena_defs)
  then have one: "arena_len (ns_expressions (cb_b cb1)) = 1" "arena_len (ns_statements (cb_b cb1)) = 0"
    by (auto simp: event_defs try_new_def BADADDR_def fail_def callback_builder_new_def
        ctree_builder_new_def push_expression_def arena_defs)
  have "classify 51 0 0 0 cb1 = (EInternal, fail (UnknownExpressionTag 51) cb1)"
  proof -
    have "unat (51 :: u32) \<noteq> unat (assignment_op_code a)" "unat (51 :: u32) \<noteq> unat (binary_op_code b)"
      "unat (51 :: u32) \<noteq> unat (unary_op_code u)" "(51 :: u32) \<noteq> structural_tag_code s" for a b u s
      using assignment_code_range [of a] binary_code_range [of b] unary_code_gaps [of u]
        structural_code_range [of s] by auto
    then show ?thesis using classify_tag by blast
  qed
  with cb1(2) one obtain cb2 where "run_events [EOpEv 0 51 0 0 0 0, SExprEv 0 1] cb1 = Some cb2"
    by (auto simp: event_defs push_expression_def push_statement_def arena_defs)
  with cb1 first_failure_reported [OF cb1 this] show ?thesis by blast
qed

subsection \<open>Switches and locals\<close>

lemma split_cases_append:
  "list_all (\<lambda>c. length (case_values c) < 2 ^ 32) cs \<Longrightarrow>
   split_cases (map (\<lambda>c. (case_body c, of_nat (length (case_values c)))) cs) (length pre)
     (pre @ concat (map case_values cs)) = Some cs"
proof (induction cs arbitrary: pre)
  case (Cons c cs)
  from Cons.IH [of "pre @ case_values c"] Cons.prems
  have "split_cases (map (\<lambda>c. (case_body c, of_nat (length (case_values c)))) cs)
      (length pre + length (case_values c)) (pre @ case_values c @ concat (map case_values cs)) = Some cs"
    by simp
  with Cons.prems show ?case by simp
qed simp

text \<open>
  The flattened case lists of a switch are read back as the cases they came from.
\<close>

theorem switch_cases_roundtrip:
  assumes "list_all (\<lambda>c. length (case_values c) < 2 ^ 32) cs"
  shows "event_step (SSwitchEv ea e (map case_body cs) (map (\<lambda>c. of_nat (length (case_values c))) cs)
      (concat (map case_values cs))) cb = with_id (emit_statement ea (KSwitch e cs) cb)"
  using split_cases_append [OF assms, of "[]"]
  by (simp add: emit_switch_def zip_map_map zip_same_conv_map comp_def)

theorem switch_cases_roundtrip_witness:
  "event_step (SSwitchEv 16 0 [0, 1, 2] [2, 0, 1] [4, 5, 6]) callback_builder_new =
     with_id (emit_statement 16 (KSwitch 0 [Case [4, 5] 0, Case [] 1, Case [6] 2]) callback_builder_new)"
  using switch_cases_roundtrip [of "[Case [4, 5] 0, Case [] 1, Case [6] 2]" 16 0 callback_builder_new]
  by simp

text \<open>
  Every location the facade can describe has a reading, but a static location at the sentinel
  address: that one panics rather than being recorded as a bad address.
\<close>

theorem from_argloc_total:
  "from_argloc atype reg1 reg2 sval pieces = None \<longleftrightarrow> atype = 6 \<and> sval = BADADDR"
  by (auto simp: from_argloc_def new_const_def try_new_def not_eq_zero_iff split: option.splits)

subsection \<open>Children first\<close>

text \<open>The nodes an event's own node will have as children.\<close>

fun event_children :: "event \<Rightarrow> node_ref list" where
  "event_children (ECallEv _ callee args _) = expression_children (ECall callee args)"
| "event_children (EMemrefEv _ obj off _) = expression_children (EMemberRef obj off)"
| "event_children (EMemptrEv _ obj off _) = expression_children (EMemberPtr obj off)"
| "event_children (EDerefEv _ x sz _) = expression_children (EDeref x sz)"
| "event_children (EOpEv _ ctype x y z _) =
     expression_children (fst (classify ctype x y z callback_builder_new))"
| "event_children (SBlockEv _ kids) = statement_children (KBlock kids)"
| "event_children (SExprEv _ e) = statement_children (KExpression e)"
| "event_children (SIfEv _ c t e) = statement_children (KIf c t (opt_s e))"
| "event_children (SForEv _ init c step body) =
     statement_children (KFor (opt_e init) (opt_e c) (opt_e step) body)"
| "event_children (SWhileEv _ c body) = statement_children (KWhile c body)"
| "event_children (SDoEv _ body c) = statement_children (KDo body c)"
| "event_children (SSwitchEv _ e bodies _ _) = NExpression e # map NStatement bodies"
| "event_children (SReturnEv _ e) = statement_children (KReturn (opt_e e))"
| "event_children (STryEv _ body catches) = statement_children (KTry body catches)"
| "event_children (SThrowEv _ e) = statement_children (KThrow (opt_e e))"
| "event_children _ = []"

definition allocated :: "('z) node_store_scheme \<Rightarrow> node_ref \<Rightarrow> bool" where
  "allocated t n \<longleftrightarrow> for_each_child t n \<noteq> None"

text \<open>What the code relies on of the facade: it passes only handles it was given.\<close>

fun events_ok :: "event list \<Rightarrow> callback_builder \<Rightarrow> bool" where
  "events_ok [] cb = True"
| "events_ok (ev # evs) cb =
     (list_all (allocated (cb_b cb)) (event_children ev) \<and>
      (case event_step ev cb of Some (r, cb1) \<Rightarrow> events_ok evs cb1 | None \<Rightarrow> False))"

fun node_rank :: "node_ref \<Rightarrow> nat" where
  "node_rank (NExpression i) = unat i"
| "node_rank (NStatement i) = 2 ^ 32 + unat i"

definition children_first :: "('z) node_store_scheme \<Rightarrow> bool" where
  "children_first t \<longleftrightarrow> store_ok t \<and>
     (\<forall>n kids c. for_each_child t n = Some kids \<longrightarrow> c \<in> set kids \<longrightarrow>
        allocated t c \<and> node_rank c < node_rank n) \<and>
     (\<forall>n p. ctree_parent t n = Some p \<longrightarrow> p = None)"

lemma expression_children_expr:
  "c \<in> set (expression_children k) \<Longrightarrow> \<exists>i. c = NExpression i"
  by (cases k) auto

lemma push_expression_facts:
  assumes "push_expression ty kind ea b = Some (i, b')"
  shows "for_each_child b' = (for_each_child b)(NExpression i \<mapsto> expression_children kind)"
    and "ctree_parent b' = (ctree_parent b)(NExpression i \<mapsto> None)"
    and "for_each_child b (NExpression i) = None"
    and "\<not> unat j < unat i \<Longrightarrow> for_each_child b (NExpression j) = None"
    and "store_ok b \<Longrightarrow> store_ok b'" and "cb_types b' = cb_types b" and "cb_locals b' = cb_locals b"
proof -
  from assms obtain ar where ar: "arena_alloc
      \<lparr>ex_address = ea, ex_ty = ty, ex_parent = None, ex_kind = kind\<rparr> (ns_expressions b) = Some (i, ar)"
    "b' = b\<lparr>ns_expressions := ar\<rparr>"
    by (auto simp: push_expression_def)
  note get = arena_get_alloc [OF ar(1)] and len = arena_len_alloc [OF ar(1)]
    and idx = arena_alloc_index [OF ar(1)]
  note lt = arena_alloc_bound [OF ar(1)]
  show "for_each_child b' = (for_each_child b)(NExpression i \<mapsto> expression_children kind)"
    by (rule ext) (auto simp: for_each_child_def ar(2) get split: node_ref.split)
  show "ctree_parent b' = (ctree_parent b)(NExpression i \<mapsto> None)"
    by (rule ext) (auto simp: ctree_parent_def ar(2) get split: node_ref.split)
  show "for_each_child b (NExpression i) = None" using arena_alloc_fresh [OF ar(1)]
    by (simp add: for_each_child_def)
  show "\<not> unat j < unat i \<Longrightarrow> for_each_child b (NExpression j) = None"
    by (simp add: for_each_child_def arena_get_None_iff idx)
  show "store_ok b \<Longrightarrow> store_ok b'" using lt by (simp add: store_ok_def ar(2) len)
  show "cb_types b' = cb_types b" "cb_locals b' = cb_locals b" by (simp_all add: ar(2))
qed

lemma push_statement_facts:
  assumes "push_statement kind ea b = Some (i, b')"
  shows "for_each_child b' = (for_each_child b)(NStatement i \<mapsto> statement_children kind)"
    and "ctree_parent b' = (ctree_parent b)(NStatement i \<mapsto> None)"
    and "for_each_child b (NStatement i) = None"
    and "\<not> unat j < unat i \<Longrightarrow> for_each_child b (NStatement j) = None"
    and "store_ok b \<Longrightarrow> store_ok b'" and "cb_types b' = cb_types b" and "cb_locals b' = cb_locals b"
proof -
  from assms obtain ar where ar: "arena_alloc
      \<lparr>st_address = ea, st_parent = None, st_kind = kind\<rparr> (ns_statements b) = Some (i, ar)"
    "b' = b\<lparr>ns_statements := ar\<rparr>"
    by (auto simp: push_statement_def)
  note get = arena_get_alloc [OF ar(1)] and len = arena_len_alloc [OF ar(1)]
    and idx = arena_alloc_index [OF ar(1)]
  note lt = arena_alloc_bound [OF ar(1)]
  show "for_each_child b' = (for_each_child b)(NStatement i \<mapsto> statement_children kind)"
    by (rule ext) (auto simp: for_each_child_def ar(2) get split: node_ref.split)
  show "ctree_parent b' = (ctree_parent b)(NStatement i \<mapsto> None)"
    by (rule ext) (auto simp: ctree_parent_def ar(2) get split: node_ref.split)
  show "for_each_child b (NStatement i) = None" using arena_alloc_fresh [OF ar(1)]
    by (simp add: for_each_child_def)
  show "\<not> unat j < unat i \<Longrightarrow> for_each_child b (NStatement j) = None"
    by (simp add: for_each_child_def arena_get_None_iff idx)
  show "store_ok b \<Longrightarrow> store_ok b'" using lt by (simp add: store_ok_def ar(2) len)
  show "cb_types b' = cb_types b" "cb_locals b' = cb_locals b" by (simp_all add: ar(2))
qed

lemma children_first_alloc:
  assumes first: "children_first b" and upd: "for_each_child b' = (for_each_child b)(n \<mapsto> kids)"
    and par: "ctree_parent b' = (ctree_parent b)(n \<mapsto> None)" and ok: "store_ok b'"
    and fresh: "for_each_child b n = None"
    and kids: "\<And>c. c \<in> set kids \<Longrightarrow> allocated b c \<and> node_rank c < node_rank n"
  shows "children_first b'"
proof -
  have alloc: "allocated b' c" if "allocated b c" for c using that upd by (auto simp: allocated_def)
  have "allocated b' c \<and> node_rank c < node_rank m"
    if "for_each_child b' m = Some ks" "c \<in> set ks" for m ks c
  proof (cases "m = n")
    case True
    with that upd kids alloc show ?thesis by auto
  next
    case False
    with that upd have "for_each_child b m = Some ks" by simp
    with first that(2) alloc show ?thesis by (auto simp: children_first_def)
  qed
  moreover have "p = None" if "ctree_parent b' m = Some p" for m p
    using that par first by (cases "m = n") (auto simp: children_first_def)
  ultimately show ?thesis using ok by (auto simp: children_first_def)
qed

lemma emit_expression_first:
  assumes first: "children_first (cb_b cb)" and run: "emit_expression ea ty kind cb = Some (i, cb')"
    and kids: "list_all (allocated (cb_b cb)) (expression_children kind)"
  shows "children_first (cb_b cb')"
proof -
  from run obtain b' where b': "push_expression ty kind (node_address ea) (cb_b cb) = Some (i, b')"
    "cb_b cb' = b'" by (auto simp: emit_expression_def)
  note facts = push_expression_facts [OF b'(1)]
  have ok: "store_ok (cb_b cb)" using first by (simp add: children_first_def)
  have "children_first b'"
  proof (rule children_first_alloc [OF first facts(1,2) facts(5) [OF ok] facts(3)])
    fix c assume c: "c \<in> set (expression_children kind)"
    with kids have a: "allocated (cb_b cb) c" by (simp add: list_all_iff)
    from expression_children_expr [OF c] obtain j where j: "c = NExpression j" ..
    with a facts(4) [of j] have "unat j < unat i" by (cases "unat j < unat i") (simp_all add: allocated_def)
    with a j show "allocated (cb_b cb) c \<and> node_rank c < node_rank (NExpression i)" by simp
  qed
  with b'(2) show ?thesis by simp
qed

lemma emit_statement_first:
  assumes first: "children_first (cb_b cb)" and run: "emit_statement ea kind cb = Some (i, cb')"
    and kids: "list_all (allocated (cb_b cb)) (statement_children kind)"
  shows "children_first (cb_b cb')"
proof -
  from run obtain b' where b': "push_statement kind (node_address ea) (cb_b cb) = Some (i, b')"
    "cb_b cb' = b'" by (auto simp: emit_statement_def)
  note facts = push_statement_facts [OF b'(1)]
  have ok: "store_ok (cb_b cb)" using first by (simp add: children_first_def)
  have "children_first b'"
  proof (rule children_first_alloc [OF first facts(1,2) facts(5) [OF ok] facts(3)])
    fix c assume "c \<in> set (statement_children kind)"
    with kids have a: "allocated (cb_b cb) c" by (simp add: list_all_iff)
    show "allocated (cb_b cb) c \<and> node_rank c < node_rank (NStatement i)"
    proof (cases c)
      case (NExpression j)
      with a unsigned_less [of j] show ?thesis by (simp add: trans_less_add1)
    next
      case (NStatement j)
      with a facts(4) [of j] have "unat j < unat i" by (cases "unat j < unat i") (simp_all add: allocated_def)
      with a NStatement show ?thesis by simp
    qed
  qed
  with b'(2) show ?thesis by simp
qed

lemma fail_b [simp]: "cb_b (fail e cb) = cb_b cb"
  by (simp add: fail_def)

lemma classify_b:
  "classify ctype x y z cb = (k, cb') \<Longrightarrow> cb_b cb' = cb_b cb \<and> k = fst (classify ctype x y z callback_builder_new)"
  by (auto simp: classify_def split: if_splits option.splits structural_tag.splits)

lemma asm_addrs_b: "asm_addrs addrs cb = (out, cb') \<Longrightarrow> cb_b cb' = cb_b cb"
  by (induction addrs arbitrary: cb out cb') (auto split: option.splits prod.splits)

lemma split_cases_bodies:
  "split_cases xs pos values = Some cs \<Longrightarrow> set (map case_body cs) \<subseteq> fst ` set xs"
proof (induction xs arbitrary: pos cs)
  case (Cons x xs)
  obtain body n where x: "x = (body, n)" by (cases x)
  with Cons.prems obtain cs' where "split_cases xs (pos + unat n) values = Some cs'"
    "map case_body cs = body # map case_body cs'"
    by (auto split: if_splits)
  with Cons.IH [of "pos + unat n" cs'] x show ?case by auto
qed simp

lemma children_first_frame:
  assumes "ns_expressions b' = ns_expressions b" and "ns_statements b' = ns_statements b"
    and "children_first b"
  shows "children_first b'"
  using assms(3)
  unfolding children_first_def allocated_def for_each_child_def ctree_parent_def store_ok_def assms(1,2) .

lemma event_step_first:
  assumes first: "children_first (cb_b cb)" and run: "event_step ev cb = Some (r, cb')"
    and ok: "list_all (allocated (cb_b cb)) (event_children ev)"
  shows "children_first (cb_b cb')"
proof -
  note es = emit_expression_first [OF first] and ss = emit_statement_first [OF first]
  show ?thesis
  proof (cases ev)
    case (EObjEv ea target name ty)
    have "children_first (cb_b (fail BadAddress cb))" using first by simp
    from EObjEv run es emit_expression_first [OF this] show ?thesis
      by (fastforce simp: emit_obj_def with_id_def split: option.splits)
  next
    case (EOpEv ea ctype x y z ty)
    obtain k cb1 where k: "classify ctype x y z cb = (k, cb1)" by (cases "classify ctype x y z cb")
    with classify_b [OF k] first have "children_first (cb_b cb1)" by simp
    from emit_expression_first [OF this] EOpEv run ok k classify_b [OF k] show ?thesis
      by (auto simp: emit_op_def with_id_def)
  next
    case (SAsmEv ea addrs)
    obtain out cb1 where k: "asm_addrs addrs cb = (out, cb1)" by (cases "asm_addrs addrs cb")
    with asm_addrs_b [OF k] first have "children_first (cb_b cb1)" by simp
    from emit_statement_first [OF this] SAsmEv run k show ?thesis
      by (auto simp: emit_asm_def with_id_def)
  next
    case (SSwitchEv ea e bodies counts vals)
    with run obtain cs i where cs: "split_cases (zip bodies counts) 0 vals = Some cs"
      "emit_statement ea (KSwitch e cs) cb = Some (i, cb')"
      by (auto simp: emit_switch_def with_id_def)
    have "fst ` set (zip bodies counts) \<subseteq> set bodies" by (auto dest: set_zip_leftD)
    with split_cases_bodies [OF cs(1)] have "set (map case_body cs) \<subseteq> set bodies" by blast
    with ok SSwitchEv have "list_all (allocated (cb_b cb)) (statement_children (KSwitch e cs))"
      by (auto simp: list_all_iff)
    from ss [OF cs(2) this] show ?thesis .
  next
    case (LVarEv name ty flags width comment atype reg1 reg2 sval pieces)
    with run obtain lv where "cb_b cb' = cb_b cb\<lparr>cb_locals := cb_locals (cb_b cb) @ [lv]\<rparr>"
      by (auto simp: emit_lvar_def push_local_def split: if_splits)
    then have "ns_expressions (cb_b cb') = ns_expressions (cb_b cb)"
      "ns_statements (cb_b cb') = ns_statements (cb_b cb)" by simp_all
    from children_first_frame [OF this first] show ?thesis .
  next
    case (TypeEv op)
    with run obtain tb where "cb_b cb' = cb_b cb\<lparr>cb_types := tb\<rparr>" by auto
    then show ?thesis using children_first_frame [of "cb_b cb'" "cb_b cb"] first by simp
  qed (use run ok es ss in \<open>auto simp: with_id_def\<close>)
qed

lemma run_events_first:
  "children_first (cb_b cb) \<Longrightarrow> events_ok evs cb \<Longrightarrow> run_events evs cb = Some cb'
   \<Longrightarrow> children_first (cb_b cb')"
proof (induction evs arbitrary: cb)
  case (Cons ev evs)
  then obtain r cb1 where "event_step ev cb = Some (r, cb1)" "run_events evs cb1 = Some cb'" by auto
  with Cons.IH [of cb1] Cons.prems event_step_first [of cb ev r cb1] show ?case by simp
qed simp

lemma children_first_new [simp]: "children_first (cb_b callback_builder_new)"
  by (auto simp: children_first_def callback_builder_new_def ctree_builder_new_def store_ok_def
      for_each_child_def ctree_parent_def arena_len_def arena_new_def arena_get_def
      split: node_ref.splits)

text \<open>Every node but the root is a child exactly once.\<close>

definition each_linked_once :: "('z) node_store_scheme \<Rightarrow> statement_id \<Rightarrow> bool" where
  "each_linked_once t root \<longleftrightarrow>
     mset (NStatement root # concat (map (kids_of t) (node_list t))) = mset (node_list t)"

text \<open>
  C2: a walk that passes only handles it was given builds an acyclic store, so if it records no
  failure and links every node but the root exactly once, the extraction ends with a tree: no
  assertion fires, and a node's parent is the node it is a child of.
\<close>

theorem extract_builds_tree:
  assumes "events_ok evs callback_builder_new" and "run_events evs callback_builder_new = Some cb"
    and "cb_error cb = None" and "tb_too_wide (cb_types (cb_b cb)) = None"
    and "builder_unfilled (cb_types (cb_b cb)) = 0" and "each_linked_once (cb_b cb) root"
  shows "\<exists>t. extract_ctree debug evs root = Some (Inr t) \<and> ctree_parent t (NStatement root) = Some None \<and>
    (\<forall>c p. ctree_parent t c = Some (Some p) \<longleftrightarrow> c \<in> set (kids_of t p))"
proof -
  have first: "children_first (cb_b cb)" by (rule run_events_first [OF children_first_new assms(1,2)])
  have "node_rank c < node_rank n" if "c \<in> set (kids_of (cb_b cb) n)" for c n
    using first that by (cases "for_each_child (cb_b cb) n") (auto simp: children_first_def kids_of_def)
  then have "well_linked (cb_b cb) root node_rank"
    using first assms(6) by (simp add: well_linked_def each_linked_once_def children_first_def list_all_iff)
  moreover have "\<forall>n p. ctree_parent (cb_b cb) n = Some p \<longrightarrow> p = None"
    using first by (simp add: children_first_def)
  ultimately obtain t where t: "finish debug root (cb_b cb) = Some t" "for_each_child t = for_each_child (cb_b cb)"
    "ctree_parent t (NStatement root) = Some None"
    "\<forall>c p. ctree_parent t c = Some (Some p) \<longleftrightarrow> c \<in> set (kids_of (cb_b cb) p)"
    using finish_links [of "cb_b cb" root node_rank debug] by blast
  have "kids_of t p = kids_of (cb_b cb) p" for p by (simp add: kids_of_def t(2))
  with t assms show ?thesis by (auto simp: extract_ctree_def callback_finish_def)
qed

text \<open>\<open>return a + 1;\<close>, as the facade streams it.\<close>

definition sample_events :: "event list" where
  "sample_events =
     [TypeEv (SScalar 3 4 1 4 1), EVarEv 16 0 0, ENumEv 20 1 0, EOpEv 18 35 0 1 NONE 0,
      SReturnEv 16 2, SBlockEv 16 [0]]"

lemma classify_add: "classify 35 x y z cb = (EBinary OpAdd x y, cb)"
  using classify_tag [of 35 PlainAssign x y z cb OpAdd OpNeg TagEmpty] by simp

lemmas event_eval = event_defs callback_builder_new_def ctree_builder_new_def push_expression_def
  push_statement_def ctree_eval builder_eval scalar_shape_def node_address_def opt_e_def opt_s_def
  NONE_def classify_add allocated_def

theorem extract_builds_tree_witness:
  "\<exists>t. extract_ctree True sample_events 1 = Some (Inr t) \<and> ctree_parent t (NStatement 1) = Some None"
proof -
  obtain cb where cb: "run_events sample_events callback_builder_new = Some cb" "cb_error cb = None"
    "tb_too_wide (cb_types (cb_b cb)) = None" "builder_unfilled (cb_types (cb_b cb)) = 0"
    "each_linked_once (cb_b cb) 1"
    by (simp add: sample_events_def event_eval each_linked_once_def upt_rec del: mset_map mset_upt)
  have "events_ok sample_events callback_builder_new"
    by (simp add: sample_events_def event_eval)
  from extract_builds_tree [OF this cb, of True] show ?thesis by blast
qed

end
