(* ===== verification/Ctree_Query.thy ===== *)
theory Ctree_Query
  imports Ctree
begin

text \<open>
  \<open>decompiler/ctree/query.rs\<close>: looking through the wrappers a decompiler puts around a variable or a
  global. \<open>strip_casts\<close> is a loop and \<open>base_var\<close> a recursion over handles, which nothing in their
  code bounds: they are partial functions, whose \<open>None\<close> is a handle outside the arena, an arithmetic
  overflow a checked build refuses, or a run that never ends. \<open>checked\<close> says whether the build keeps
  its overflow checks.
\<close>

record global_ref =
  gr_address :: address
  gr_name :: "string option"

definition kind_of :: "('z) node_store_scheme \<Rightarrow> expression_id \<Rightarrow> expression_kind option" where
  "kind_of t e = map_option ex_kind (arena_get (ns_expressions t) e)"

text \<open>The operand of the two wrappers that rename nothing.\<close>

fun peel :: "expression_kind \<Rightarrow> expression_id option" where
  "peel (ECast x) = Some x"
| "peel (EUnary OpRef x) = Some x"
| "peel _ = None"

partial_function (option) strip_casts ::
  "('z) node_store_scheme \<Rightarrow> expression_id \<Rightarrow> expression_id option" where
  "strip_casts t e =
     Option.bind (kind_of t e) (\<lambda>k. case peel k of Some x \<Rightarrow> strip_casts t x | None \<Rightarrow> Some e)"

definition i64_add :: "bool \<Rightarrow> i64 \<Rightarrow> i64 \<Rightarrow> i64 option" where
  "i64_add checked a b = (if checked \<and> sint (a + b) \<noteq> sint a + sint b then None else Some (a + b))"

definition i64_mul :: "bool \<Rightarrow> i64 \<Rightarrow> i64 \<Rightarrow> i64 option" where
  "i64_mul checked a b = (if checked \<and> sint (a * b) \<noteq> sint a * sint b then None else Some (a * b))"

text \<open>The outer option is the panic, the inner one the source's.\<close>

definition pointee_size :: "ctree \<Rightarrow> expression_id \<Rightarrow> i64 option option" where
  "pointee_size t e =
     do { n \<leftarrow> arena_get (ns_expressions t) e;
          v \<leftarrow> table_get (ct_types t) (ex_ty n);
          (case shape_pointee (tv_shape v) of
             None \<Rightarrow> Some None
           | Some elem \<Rightarrow> map_option tv_size (table_get (ct_types t) elem)) }"

fun as_num :: "expression_kind \<Rightarrow> u64 option" where
  "as_num (ENum v) = Some v"
| "as_num _ = None"

text \<open>\<open>base + k\<close> or \<open>k + base\<close>: the operand to follow and the constant.\<close>

definition add_operand ::
  "ctree \<Rightarrow> expression_id \<Rightarrow> expression_id \<Rightarrow> (expression_id \<times> u64) option option" where
  "add_operand t x y =
     do { kx \<leftarrow> kind_of t x;
          ky \<leftarrow> kind_of t y;
          Some (case as_num ky of
                  Some k \<Rightarrow> Some (x, k)
                | None \<Rightarrow> (case as_num kx of Some k \<Rightarrow> Some (y, k) | None \<Rightarrow> None)) }"

definition shift_base :: "bool \<Rightarrow> i64 option \<Rightarrow> (local_id \<times> i64) option \<Rightarrow> (local_id \<times> i64) option option" where
  "shift_base checked delta r =
     (case r of
        None \<Rightarrow> Some None
      | Some (v, off) \<Rightarrow>
          do { d \<leftarrow> delta; o' \<leftarrow> i64_add checked off d; Some (Some (v, o')) })"

text \<open>What a place node follows, and by how much it moves.\<close>

datatype place_step = PlaceVar local_id | PlaceFollow expression_id "i64 option" | PlaceNone

definition place_step :: "bool \<Rightarrow> ctree \<Rightarrow> expression_kind \<Rightarrow> place_step option" where
  "place_step checked t k =
     (case k of
        EVar v \<Rightarrow> Some (PlaceVar v)
      | EMemberRef obj off \<Rightarrow> Some (PlaceFollow obj (Some (ucast off)))
      | EMemberPtr obj off \<Rightarrow> Some (PlaceFollow obj (Some (ucast off)))
      | EDeref x _ \<Rightarrow> Some (PlaceFollow x (Some 0))
      | EBinary OpAdd x y \<Rightarrow>
          do { operand \<leftarrow> add_operand t x y;
               (case operand of
                  None \<Rightarrow> Some PlaceNone
                | Some (base, n) \<Rightarrow>
                    do { elem \<leftarrow> pointee_size t base;
                         Some (case elem of
                                 None \<Rightarrow> PlaceNone
                               | Some s \<Rightarrow> PlaceFollow base (i64_mul checked n s)) }) }
      | _ \<Rightarrow> Some PlaceNone)"

partial_function (option) base_var ::
  "bool \<Rightarrow> ctree \<Rightarrow> expression_id \<Rightarrow> (local_id \<times> i64) option option" where
  "base_var checked t e0 =
     Option.bind (strip_casts t e0) (\<lambda>e. Option.bind (kind_of t e) (\<lambda>k.
       Option.bind (place_step checked t k) (\<lambda>s.
         (case s of
            PlaceVar v \<Rightarrow> Some (Some (v, 0))
          | PlaceNone \<Rightarrow> Some None
          | PlaceFollow x delta \<Rightarrow> Option.bind (base_var checked t x) (shift_base checked delta)))))"

definition global_target :: "('z) node_store_scheme \<Rightarrow> expression_id \<Rightarrow> global_ref option option" where
  "global_target t e0 =
     do { e \<leftarrow> strip_casts t e0;
          k \<leftarrow> kind_of t e;
          Some (case k of
                  EObj ea name \<Rightarrow> Some \<lparr>gr_address = ea, gr_name = name\<rparr>
                | _ \<Rightarrow> None) }"

subsection \<open>Following the wrappers\<close>

lemma kind_of_eq: "kind_of t e = Some k \<longleftrightarrow> (\<exists>n. arena_get (ns_expressions t) e = Some n \<and> ex_kind n = k)"
  by (auto simp: kind_of_def)

lemma strip_step: "kind_of t e = Some k \<Longrightarrow> peel k = Some x \<Longrightarrow> strip_casts t e = strip_casts t x"
  by (subst strip_casts.simps) simp

lemma strip_stop: "kind_of t e = Some k \<Longrightarrow> peel k = None \<Longrightarrow> strip_casts t e = Some e"
  by (subst strip_casts.simps) simp

text \<open>Induction along the wrappers a run of \<open>strip_casts\<close> peels.\<close>

lemma strip_induct [consumes 1, case_names stop step]:
  assumes run: "strip_casts t e = Some e'"
    and stop: "\<And>e k. kind_of t e = Some k \<Longrightarrow> peel k = None \<Longrightarrow> P e e"
    and step: "\<And>e k x e'. kind_of t e = Some k \<Longrightarrow> peel k = Some x \<Longrightarrow> P x e' \<Longrightarrow> P e e'"
  shows "P e e'"
proof -
  have "t = t \<longrightarrow> P e e'"
  proof (rule strip_casts.raw_induct [where P = "\<lambda>t' e e'. t' = t \<longrightarrow> P e e'", OF _ run])
    fix f t' e y
    assume ih: "\<And>t' e y. f t' e = Some y \<Longrightarrow> t' = t \<longrightarrow> P e y"
      and "Option.bind (kind_of t' e) (\<lambda>k. case peel k of None \<Rightarrow> Some e | Some x \<Rightarrow> f t' x) = Some y"
    then obtain k where "kind_of t' e = Some k" "(case peel k of None \<Rightarrow> Some e | Some x \<Rightarrow> f t' x) = Some y"
      by auto
    then show "t' = t \<longrightarrow> P e y" using ih by (cases "peel k") (auto intro: stop step)
  qed
  then show ?thesis by simp
qed

lemma strip_casts_stops: "strip_casts t e = Some e' \<Longrightarrow> \<exists>k. kind_of t e' = Some k \<and> peel k = None"
  by (induction rule: strip_induct) auto

lemma strip_casts_idem: "strip_casts t e = Some e' \<Longrightarrow> strip_casts t e' = Some e'"
  using strip_casts_stops strip_stop by blast

lemma base_var_step:
  assumes "kind_of t e = Some k" and "peel k = Some x"
  shows "base_var checked t e = base_var checked t x"
  by (subst (1 2) base_var.simps) (simp only: strip_step [OF assms])

lemma base_var_stop:
  assumes "kind_of t e = Some k" and "peel k = None"
  shows "base_var checked t e = Option.bind (place_step checked t k) (\<lambda>s.
     (case s of
        PlaceVar v \<Rightarrow> Some (Some (v, 0))
      | PlaceNone \<Rightarrow> Some None
      | PlaceFollow x delta \<Rightarrow> Option.bind (base_var checked t x) (shift_base checked delta)))"
  by (subst base_var.simps) (simp only: strip_stop [OF assms] assms bind.bind_lunit)

text \<open>
  What a place expression means, given apart from the code: the local it is rooted at, and the
  displacements in bytes on the way to it, the outermost first, as integers. Casts and \<open>&\<close> name the same
  place, a dereference keeps it, a member lies at its byte offset, and as in C adding a constant to a
  pointer, on either side, moves by that many of the objects it points to; the constant is read as
  signed, so that a pointer may move back.
\<close>

definition pointer_to :: "ctree \<Rightarrow> expression_id \<Rightarrow> u64 \<Rightarrow> bool" where
  "pointer_to t e s \<longleftrightarrow> (\<exists>n v p w. arena_get (ns_expressions t) e = Some n \<and>
     table_get (ct_types t) (ex_ty n) = Some v \<and> tv_shape v = TPtr p \<and>
     table_get (ct_types t) p = Some w \<and> tv_size w = Some s)"

inductive rooted :: "ctree \<Rightarrow> expression_id \<Rightarrow> local_id \<Rightarrow> int list \<Rightarrow> bool" for t where
  rooted_var: "kind_of t e = Some (EVar v) \<Longrightarrow> rooted t e v []"
| rooted_cast: "kind_of t e = Some (ECast x) \<Longrightarrow> rooted t x v ds \<Longrightarrow> rooted t e v ds"
| rooted_address: "kind_of t e = Some (EUnary OpRef x) \<Longrightarrow> rooted t x v ds \<Longrightarrow> rooted t e v ds"
| rooted_deref: "kind_of t e = Some (EDeref x d) \<Longrightarrow> rooted t x v ds \<Longrightarrow> rooted t e v ds"
| rooted_ref: "kind_of t e = Some (EMemberRef x d) \<Longrightarrow> rooted t x v ds \<Longrightarrow> rooted t e v (uint d # ds)"
| rooted_ptr: "kind_of t e = Some (EMemberPtr x d) \<Longrightarrow> rooted t x v ds \<Longrightarrow> rooted t e v (uint d # ds)"
| rooted_add: "kind_of t e = Some (EBinary OpAdd x c) \<Longrightarrow> kind_of t c = Some (ENum n) \<Longrightarrow>
    pointer_to t x s \<Longrightarrow> rooted t x v ds \<Longrightarrow> rooted t e v (sint n * sint s # ds)"
| rooted_add_left: "kind_of t e = Some (EBinary OpAdd c x) \<Longrightarrow> kind_of t c = Some (ENum n) \<Longrightarrow>
    pointer_to t x s \<Longrightarrow> rooted t x v ds \<Longrightarrow> rooted t e v (sint n * sint s # ds)"

text \<open>Every displacement, and every offset from the local on, is a 64-bit signed number.\<close>

definition fits_i64 :: "int \<Rightarrow> bool" where
  "fits_i64 n \<longleftrightarrow> - (2 ^ 63) \<le> n \<and> n < 2 ^ 63"

fun sums_fit :: "int list \<Rightarrow> bool" where
  "sums_fit [] \<longleftrightarrow> True"
| "sums_fit (d # ds) \<longleftrightarrow> sums_fit ds \<and> fits_i64 d \<and> fits_i64 (sum_list ds + d)"

lemma sint_of_int_i64: "sint (of_int n :: i64) = n \<longleftrightarrow> fits_i64 n"
  by (simp add: sint_sbintrunc' signed_take_bit_int_eq_self_iff fits_i64_def)

lemma fits_sint: "fits_i64 (sint (w :: i64))"
  using sint_of_int_i64 [of "sint w"] by simp

lemma sums_fit_sum: "sums_fit ds \<Longrightarrow> fits_i64 (sum_list ds)"
  by (cases ds) (simp_all add: add.commute fits_i64_def)

lemma i64_add_of_int:
  "fits_i64 a \<Longrightarrow> fits_i64 b \<Longrightarrow> i64_add checked (of_int a) (of_int b) =
     (if checked \<and> \<not> fits_i64 (a + b) then None else Some (of_int (a + b)))"
  using sint_of_int_i64 [of a] sint_of_int_i64 [of b] sint_of_int_i64 [of "a + b"] by (simp add: i64_add_def)

lemma i64_mul_of_int:
  "i64_mul checked a b =
     (if checked \<and> \<not> fits_i64 (sint a * sint b) then None else Some (of_int (sint a * sint b)))"
  using sint_of_int_i64 [of "sint a * sint b"] by (simp add: i64_mul_def)

lemma rooted_strip: "strip_casts t e = Some e' \<Longrightarrow> rooted t e' v off \<Longrightarrow> rooted t e v off"
proof (induction rule: strip_induct)
  case (step e k x e')
  then show ?case by (cases k rule: peel.cases) (auto intro: rooted_cast rooted_address)
qed

lemma place_stepE:
  assumes "place_step checked t k = Some (PlaceFollow x delta)"
  obtains d where "k = EMemberRef x d" "delta = Some (ucast d)"
  | d where "k = EMemberPtr x d" "delta = Some (ucast d)"
  | d where "k = EDeref x d" "delta = Some 0"
  | y z n s where "k = EBinary OpAdd y z" "add_operand t y z = Some (Some (x, n))"
      "pointee_size t x = Some (Some s)" "delta = i64_mul checked n s"
  using assms that
  by (auto simp: place_step_def split: expression_kind.splits binary_op.splits option.splits)

lemma add_operandE:
  assumes "add_operand t x y = Some (Some (base, n))"
  obtains "base = x" "kind_of t y = Some (ENum n)" | "base = y" "kind_of t x = Some (ENum n)"
proof -
  have num: "as_num k = Some m \<longleftrightarrow> k = ENum m" for k m by (cases k) auto
  from assms that show ?thesis by (auto simp: add_operand_def num bind_eq_Some_conv split: option.splits)
qed

lemma place_step_var: "place_step checked t k = Some (PlaceVar v) \<longleftrightarrow> k = EVar v"
  by (auto simp: place_step_def split: expression_kind.splits binary_op.splits option.splits)

lemma shift_baseD:
  "shift_base checked delta r = Some (Some (v, w)) \<Longrightarrow>
   \<exists>off d. r = Some (v, off) \<and> delta = Some d \<and> i64_add checked off d = Some w"
  by (auto simp: shift_base_def split: option.splits)

lemma u32_i64: "sint (ucast (d :: u32) :: i64) = uint d"
proof -
  have "uint d < 2 ^ 32" using uint_lt2p [of d] by simp
  then show ?thesis by (simp add: sint_uint unsigned_ucast_eq signed_take_bit_eq_if_positive take_bit_int_eq_self bit_iff_odd)
qed

lemma pointee_pointer: "pointee_size t e = Some (Some s) \<longleftrightarrow> pointer_to t e s"
proof (cases "\<exists>n v. arena_get (ns_expressions t) e = Some n \<and> table_get (ct_types t) (ex_ty n) = Some v")
  case True
  then obtain n v where "arena_get (ns_expressions t) e = Some n" "table_get (ct_types t) (ex_ty n) = Some v" by blast
  then show ?thesis by (cases "tv_shape v") (auto simp: pointee_size_def pointer_to_def)
next
  case False
  then show ?thesis by (auto simp: pointee_size_def pointer_to_def bind_eq_Some_conv)
qed

text \<open>A run that answers a local follows a place, by induction along the recursion.\<close>

lemma base_var_rooted:
  assumes "base_var checked t e = Some (Some (v, w))"
  shows "\<exists>ds. rooted t e v ds"
proof -
  let ?Q = "\<lambda>c t' e r. t' = t \<longrightarrow> (\<forall>v w. r = Some (v, w) \<longrightarrow> (\<exists>ds. rooted t e v ds))"
  have "?Q checked t e (Some (v, w))"
  proof (rule base_var.raw_induct [where P = ?Q, OF _ assms])
    fix f c t' e0 r
    assume ih: "\<And>c t' e r. f c t' e = Some r \<Longrightarrow> ?Q c t' e r"
      and run: "Option.bind (strip_casts t' e0) (\<lambda>e. Option.bind (kind_of t' e) (\<lambda>k.
       Option.bind (place_step c t' k) (\<lambda>s.
         (case s of
            PlaceVar v \<Rightarrow> Some (Some (v, 0))
          | PlaceNone \<Rightarrow> Some None
          | PlaceFollow x delta \<Rightarrow> Option.bind (f c t' x) (shift_base c delta))))) = Some r"
    show "?Q c t' e0 r"
    proof (intro impI allI)
      fix v w
      assume eq: "t' = t" and r: "r = Some (v, w)"
      from run obtain e k s where e: "strip_casts t e0 = Some e" "kind_of t e = Some k"
        "place_step c t k = Some s" and rest: "(case s of
            PlaceVar v \<Rightarrow> Some (Some (v, 0))
          | PlaceNone \<Rightarrow> Some None
          | PlaceFollow x delta \<Rightarrow> Option.bind (f c t x) (shift_base c delta)) = Some (Some (v, w))"
        unfolding eq r bind_Some_iff by blast
      have "\<exists>ds. rooted t e v ds"
      proof (cases s)
        case (PlaceVar u)
        with e rest show ?thesis by (auto simp: place_step_var intro: rooted_var)
      next
        case (PlaceFollow x delta)
        with rest have "Option.bind (f c t x) (shift_base c delta) = Some (Some (v, w))" by simp
        then obtain r' where r': "f c t x = Some r'" "shift_base c delta r' = Some (Some (v, w))"
          unfolding bind_Some_iff by blast
        from shift_baseD [OF r'(2)] r'(1) obtain off' where "f c t x = Some (Some (v, off'))" by blast
        from ih [OF this] obtain ds where ds: "rooted t x v ds" by blast
        from e(3) [unfolded PlaceFollow] show ?thesis
        proof (cases rule: place_stepE)
          case (1 d)
          with e(2) ds show ?thesis by (auto intro: rooted_ref)
        next
          case (2 d)
          with e(2) ds show ?thesis by (auto intro: rooted_ptr)
        next
          case (3 d)
          with e(2) ds show ?thesis by (auto intro: rooted_deref)
        next
          case (4 y z n s)
          have ptr: "pointer_to t x s" using 4(3) by (simp add: pointee_pointer)
          have k: "kind_of t e = Some (EBinary OpAdd y z)" using e(2) 4(1) by simp
          from 4(2) show ?thesis
          proof (rule add_operandE)
            assume x: "x = y" "kind_of t z = Some (ENum n)"
            from rooted_add [OF k x(2) ptr [unfolded x(1)] ds [unfolded x(1)]] show ?thesis by blast
          next
            assume x: "x = z" "kind_of t y = Some (ENum n)"
            from rooted_add_left [OF k x(2) ptr [unfolded x(1)] ds [unfolded x(1)]] show ?thesis by blast
          qed
        qed
      qed (use rest in simp)
      with rooted_strip [OF e(1)] show "\<exists>ds. rooted t e0 v ds" by blast
    qed
  qed
  then show ?thesis by blast
qed

lemma rooted_not_num: "rooted t e v ds \<Longrightarrow> kind_of t e = Some k \<Longrightarrow> as_num k = None"
  by (cases rule: rooted.cases) auto

text \<open>What a place answers: the sum of its displacements, or the panic of a checked build.\<close>

definition place_answer :: "bool \<Rightarrow> local_id \<Rightarrow> int list \<Rightarrow> (local_id \<times> i64) option option" where
  "place_answer checked v ds =
     (if checked \<and> \<not> sums_fit ds then None else Some (Some (v, of_int (sum_list ds))))"

lemma shift_place:
  assumes "delta = (if checked \<and> \<not> fits_i64 d then None else Some (of_int d))"
  shows "Option.bind (place_answer checked v ds) (shift_base checked delta) = place_answer checked v (d # ds)"
proof (cases checked)
  case True
  show ?thesis
  proof (cases "sums_fit ds \<and> fits_i64 d")
    case fit: True
    with True i64_add_of_int [OF sums_fit_sum, of ds d True] assms show ?thesis
      by (simp add: place_answer_def shift_base_def add.commute)
  qed (use True assms in \<open>auto simp: place_answer_def shift_base_def\<close>)
qed (use assms in \<open>simp add: place_answer_def shift_base_def i64_add_def add.commute\<close>)

lemma shift_member: "Option.bind (place_answer checked v ds) (shift_base checked (Some (ucast (d :: u32)))) =
    place_answer checked v (uint d # ds)"
proof (rule shift_place)
  have "fits_i64 (uint d)" using u32_i64 [of d] fits_sint [of "ucast d"] by simp
  then show "Some (ucast d) = (if checked \<and> \<not> fits_i64 (uint d) then None else Some (of_int (uint d) :: i64))"
    using of_int_sint [of "ucast d :: i64"] by (simp add: u32_i64)
qed

lemma shift_zero: "shift_base checked (Some 0) = Some"
  by (rule ext) (auto simp: shift_base_def i64_add_def split: option.split)

lemma rooted_base_var: "rooted t e v ds \<Longrightarrow> base_var checked t e = place_answer checked v ds"
proof (induction rule: rooted.induct)
  case (rooted_add e x c n s v ds)
  then obtain kx where "kind_of t x = Some kx" by (auto simp: pointer_to_def kind_of_def)
  with rooted_add have "add_operand t x c = Some (Some (x, n))" by (simp add: add_operand_def)
  with rooted_add show ?case
    by (subst base_var_stop)
      (auto simp: place_step_def i64_mul_of_int shift_place simp flip: pointee_pointer)
next
  case (rooted_add_left e c x n s v ds)
  then obtain kx where "kind_of t x = Some kx" by (auto simp: pointer_to_def kind_of_def)
  with rooted_add_left rooted_not_num [of t x v ds kx]
  have "add_operand t c x = Some (Some (x, n))" by (simp add: add_operand_def)
  with rooted_add_left show ?case
    by (subst base_var_stop)
      (auto simp: place_step_def i64_mul_of_int shift_place simp flip: pointee_pointer)
next
  case (rooted_var e v)
  then show ?case by (simp add: base_var_stop place_step_def place_answer_def)
qed (simp_all add: base_var_step base_var_stop place_step_def shift_member shift_zero)

text \<open>
  C30: \<open>base_var\<close> resolves an expression to a local only if the expression is a place rooted at it, and
  every such place resolves, at the sum of its displacements: read modulo 64 bits without overflow
  checks; with them exactly, or with a panic when a displacement or an offset on the way leaves the 64-bit
  signed range.
\<close>

theorem base_var_refines:
  "(base_var checked t e = Some (Some (v, w)) \<longrightarrow>
      (\<exists>ds. rooted t e v ds \<and> w = of_int (sum_list ds) \<and> (checked \<longrightarrow> sint w = sum_list ds))) \<and>
   (rooted t e v ds \<longrightarrow> base_var checked t e =
      (if checked \<and> \<not> sums_fit ds then None else Some (Some (v, of_int (sum_list ds)))))"
proof (intro conjI impI)
  assume b: "base_var checked t e = Some (Some (v, w))"
  from base_var_rooted [OF this] obtain ds' where ds: "rooted t e v ds'" ..
  from rooted_base_var [OF this, of checked] b
  have "w = of_int (sum_list ds')" "checked \<longrightarrow> sums_fit ds'" by (auto simp: place_answer_def split: if_splits)
  with ds sums_fit_sum [of ds'] sint_of_int_i64 [of "sum_list ds'"]
  show "\<exists>ds. rooted t e v ds \<and> w = of_int (sum_list ds) \<and> (checked \<longrightarrow> sint w = sum_list ds)" by blast
next
  assume "rooted t e v ds"
  from rooted_base_var [OF this] show "base_var checked t e =
      (if checked \<and> \<not> sums_fit ds then None else Some (Some (v, of_int (sum_list ds))))"
    by (simp add: place_answer_def)
qed

text \<open>
  The typed and the untyped spelling of one place agree: a member access at a byte offset, and
  the pointer arithmetic that moves by the same bytes, resolve to the same local and offset.
\<close>

theorem typed_untyped_agree:
  assumes "kind_of t m = Some (EMemberPtr p d)"
    and "kind_of t s = Some (EDeref a width)" and "kind_of t a = Some (EBinary OpAdd c k)"
    and "kind_of t c = Some (ECast p)" and "kind_of t k = Some (ENum n)"
    and "pointee_size t c = Some (Some elem)" and "n * elem = ucast d"
  shows "base_var False t m = base_var False t s"
proof -
  have "add_operand t c k = Some (Some (c, n))" using assms(4,5) by (simp add: add_operand_def)
  then have "base_var False t a = Option.bind (base_var False t p) (shift_base False (Some (ucast d)))"
    using assms by (simp add: base_var_stop [OF assms(3)] place_step_def i64_mul_def
        base_var_step [OF assms(4)])
  then show ?thesis
    by (simp add: shift_zero base_var_stop [OF assms(1)] base_var_stop [OF assms(2)] place_step_def)
qed

subsection \<open>The queries return\<close>

text \<open>Every expression's type, and what a pointer type addresses, is in the table.\<close>

definition types_resolve :: "ctree \<Rightarrow> bool" where
  "types_resolve t \<longleftrightarrow> list_all (\<lambda>n. case table_get (ct_types t) (ex_ty n) of
       None \<Rightarrow> False
     | Some v \<Rightarrow> (case shape_pointee (tv_shape v) of
           None \<Rightarrow> True | Some p \<Rightarrow> table_get (ct_types t) p \<noteq> None)) (arena_data (ns_expressions t))"

lemma expression_listed:
  assumes "store_ok t"
  shows "NExpression e \<in> set (node_list t) \<longleftrightarrow> (\<exists>k. kind_of t e = Some k)"
  by (auto simp: node_list_iff [OF assms] for_each_child_def kind_of_def)

lemma operand_below:
  assumes wl: "well_linked t root rk" and e: "kind_of t e = Some k" "NExpression x \<in> set (expression_children k)"
  shows "(\<exists>k'. kind_of t x = Some k') \<and> rk (NExpression x) < rk (NExpression e)"
proof -
  have ok: "store_ok t" using wl by (simp add: well_linked_def)
  have node: "NExpression e \<in> set (node_list t)" using e by (auto simp: expression_listed [OF ok])
  have kid: "NExpression x \<in> set (kids_of t (NExpression e))"
    using e by (auto simp: kids_of_def for_each_child_def kind_of_def)
  with node have "NExpression x \<in> set (node_list t)" using well_linked_set(1) [OF wl] by blast
  moreover have "rk (NExpression x) < rk (NExpression e)"
    using wl node kid by (auto simp: well_linked_def list_all_iff)
  ultimately show ?thesis by (simp add: expression_listed [OF ok])
qed

lemma peel_child: "peel k = Some x \<Longrightarrow> NExpression x \<in> set (expression_children k)"
  by (cases k rule: peel.cases) auto

lemma strip_returns:
  assumes wl: "well_linked t root rk"
  shows "kind_of t e = Some k \<Longrightarrow> \<exists>e'. strip_casts t e = Some e' \<and> rk (NExpression e') \<le> rk (NExpression e)"
proof (induction "rk (NExpression e)" arbitrary: e k rule: less_induct)
  case less
  show ?case
  proof (cases "peel k")
    case None
    with less.prems show ?thesis by (simp add: strip_stop)
  next
    case (Some x)
    note below = operand_below [OF wl less.prems peel_child [OF Some]]
    then obtain k' where k': "kind_of t x = Some k'" by blast
    from less.hyps [OF _ k'] below obtain e' where
      "strip_casts t x = Some e'" "rk (NExpression e') \<le> rk (NExpression x)" by blast
    with below show ?thesis by (auto simp: strip_step [OF less.prems Some])
  qed
qed

lemma pointee_returns:
  assumes "types_resolve t" and "kind_of t e = Some k"
  shows "\<exists>r. pointee_size t e = Some r"
proof -
  from assms(2) obtain n where n: "arena_get (ns_expressions t) e = Some n" by (auto simp: kind_of_def)
  then have "n \<in> set (arena_data (ns_expressions t))" by (auto simp: arena_defs split: if_splits)
  with assms(1) have ok: "case table_get (ct_types t) (ex_ty n) of None \<Rightarrow> False
     | Some v \<Rightarrow> (case shape_pointee (tv_shape v) of
           None \<Rightarrow> True | Some p \<Rightarrow> table_get (ct_types t) p \<noteq> None)"
    unfolding types_resolve_def list_all_iff by blast
  then obtain v where v: "table_get (ct_types t) (ex_ty n) = Some v"
    by (cases "table_get (ct_types t) (ex_ty n)") simp_all
  with ok n show ?thesis
    by (cases "shape_pointee (tv_shape v)") (auto simp: pointee_size_def)
qed

lemma place_step_returns:
  assumes wl: "well_linked t root rk" and ty: "types_resolve t" and e: "kind_of t e = Some k"
  shows "\<exists>s. place_step False t k = Some s \<and>
    (\<forall>x delta. s = PlaceFollow x delta \<longrightarrow> NExpression x \<in> set (expression_children k) \<and> delta \<noteq> None)"
proof (cases "\<exists>x y. k = EBinary OpAdd x y")
  case True
  then obtain x y where k: "k = EBinary OpAdd x y" by blast
  obtain kx ky where kxy: "kind_of t x = Some kx" "kind_of t y = Some ky"
    using operand_below [OF wl e] k by fastforce
  obtain r where r: "add_operand t x y = Some r" "\<forall>b n. r = Some (b, n) \<longrightarrow> b = x \<or> b = y"
    using kxy by (auto simp: add_operand_def split: option.splits)
  show ?thesis
  proof (cases r)
    case None
    with r k show ?thesis by (simp add: place_step_def)
  next
    case (Some bn)
    obtain b n where bn: "bn = (b, n)" by (cases bn)
    with r Some have b: "b = x \<or> b = y" by blast
    with kxy pointee_returns [OF ty] obtain p where "pointee_size t b = Some p" by blast
    with r Some bn k b show ?thesis by (cases p) (auto simp: place_step_def i64_mul_def)
  qed
next
  case False
  show ?thesis
  proof (cases k)
    case (EBinary op x y)
    with False have "op \<noteq> OpAdd" by blast
    then have "place_step False t k = Some PlaceNone" by (cases op) (simp_all add: place_step_def EBinary)
    then show ?thesis by simp
  qed (simp_all add: place_step_def)
qed

lemma base_var_returns:
  assumes wl: "well_linked t root rk" and ty: "types_resolve t"
  shows "kind_of t e = Some k \<Longrightarrow> \<exists>r. base_var False t e = Some r"
proof (induction "rk (NExpression e)" arbitrary: e k rule: less_induct)
  case less
  from strip_returns [OF wl less.prems] obtain e' where
    e': "strip_casts t e = Some e'" "rk (NExpression e') \<le> rk (NExpression e)" by blast
  then obtain k' where k': "kind_of t e' = Some k'" using strip_casts_stops by blast
  obtain s where s: "place_step False t k' = Some s"
    "\<And>x delta. s = PlaceFollow x delta \<Longrightarrow> NExpression x \<in> set (expression_children k') \<and> delta \<noteq> None"
    using place_step_returns [OF wl ty k'] by blast
  show ?case
  proof (cases s)
    case (PlaceFollow x delta)
    from s(2) [OF this] obtain d where x: "NExpression x \<in> set (expression_children k')" "delta = Some d" by auto
    from operand_below [OF wl k' x(1)] obtain kx where kx: "kind_of t x = Some kx"
      and "rk (NExpression x) < rk (NExpression e')" by blast
    with e'(2) have "rk (NExpression x) < rk (NExpression e)" by simp
    from less.hyps [OF this kx] obtain r where "base_var False t x = Some r" ..
    moreover have "\<exists>r'. shift_base False delta r = Some r'"
      by (auto simp: shift_base_def i64_add_def x(2) split: option.split)
    ultimately show ?thesis using e'(1) k' s(1) PlaceFollow by (subst base_var.simps) simp
  qed (use e'(1) k' s(1) in \<open>subst base_var.simps, simp\<close>)+
qed

text \<open>
  In a tree whose nodes are each linked once below the root and whose types resolve, both
  queries return on every expression, whatever its shape: the loop ends and no handle is foreign.
\<close>

theorem queries_return:
  assumes "well_linked t root rk" and "types_resolve t" and "NExpression e \<in> set (node_list t)"
  shows "(\<exists>e' k. strip_casts t e = Some e' \<and> kind_of t e' = Some k \<and> peel k = None) \<and>
    (\<exists>r. base_var False t e = Some r) \<and> (\<exists>g. global_target t e = Some g)"
proof -
  have "store_ok t" using assms(1) by (simp add: well_linked_def)
  with assms(3) obtain k where k: "kind_of t e = Some k" by (auto simp: expression_listed)
  from strip_returns [OF assms(1) k] obtain e' where e': "strip_casts t e = Some e'" by blast
  with strip_casts_stops obtain k' where "kind_of t e' = Some k'" "peel k' = None" by blast
  with e' base_var_returns [OF assms(1,2) k] show ?thesis by (simp add: global_target_def)
qed

subsection \<open>Examples\<close>

definition query_tree :: "(expression_kind \<times> type_id) list \<Rightarrow> statement_node list \<Rightarrow> ctree" where
  "query_tree es ss =
     \<lparr>ns_expressions = \<lparr>arena_data =
        map (\<lambda>(k, ty). \<lparr>ex_address = None, ex_ty = ty, ex_parent = None, ex_kind = k\<rparr>) es\<rparr>,
      ns_statements = \<lparr>arena_data = ss\<rparr>,
      ct_types = \<lparr>tt_arena = \<lparr>arena_data = [\<lparr>tv_shape = TInt 8 False, tv_size = Some 8\<rparr>,
          \<lparr>tv_shape = TPtr 0, tv_size = Some 8\<rparr>]\<rparr>, tt_dedup = Map.empty\<rparr>,
      ct_locals = [], ct_root = 1\<rparr>"

text \<open>\<open>*(p + 2)\<close> through a cast, with \<open>p->field_16\<close> beside it.\<close>

definition untyped_load :: ctree where
  "untyped_load = query_tree
     [(EVar 0, 1), (ECast 0, 1), (ENum 2, 0), (EBinary OpAdd 1 2, 1), (EDeref 3 8, 0)]
     [\<lparr>st_address = None, st_parent = None, st_kind = KExpression 4\<rparr>,
      \<lparr>st_address = None, st_parent = None, st_kind = KBlock [0]\<rparr>]"

definition both_loads :: ctree where
  "both_loads = query_tree
     [(EVar 0, 1), (ECast 0, 1), (ENum 2, 0), (EBinary OpAdd 1 2, 1), (EDeref 3 8, 0), (EMemberPtr 0 16, 0)] []"

fun query_rank :: "node_ref \<Rightarrow> nat" where
  "query_rank (NExpression i) = unat i"
| "query_rank (NStatement i) = 5 + unat i"

lemmas query_eval = query_tree_def untyped_load_def both_loads_def kind_of_def pointee_size_def
  table_get_def ctree_eval

theorem base_var_refines_witness:
  "base_var True both_loads 4 = Some (Some (0, 16)) \<and> rooted both_loads 4 0 [16]"
proof -
  have var: "rooted both_loads 0 0 []" by (rule rooted_var) (simp add: query_eval)
  have cast: "rooted both_loads 1 0 []" by (rule rooted_cast [OF _ var]) (simp add: query_eval)
  have "rooted both_loads 3 0 (sint (2 :: u64) * sint (8 :: u64) # [])"
    by (rule rooted_add [OF _ _ _ cast, where c = 2]) (simp_all add: query_eval pointer_to_def)
  then have "rooted both_loads 4 0 (sint (2 :: u64) * sint (8 :: u64) # [])"
    by (rule rooted_deref [rotated]) (simp add: query_eval)
  then have place: "rooted both_loads 4 0 [16]" by simp
  with base_var_refines [of True both_loads 4 0 16 "[16]"] show ?thesis by (simp add: fits_i64_def)
qed

theorem typed_untyped_agree_witness:
  "base_var False both_loads 5 = base_var False both_loads 4"
  by (rule typed_untyped_agree [of both_loads 5 0 16 4 3 8 1 2 2 8]) (simp_all add: query_eval)

theorem queries_return_witness:
  "\<exists>r. base_var False untyped_load 4 = Some r"
proof -
  have "well_linked untyped_load 1 query_rank" by (simp add: well_linked_def store_ok_def query_eval upt_rec)
  moreover have "types_resolve untyped_load" by (simp add: types_resolve_def query_eval)
  moreover have "NExpression 4 \<in> set (node_list untyped_load)" by (simp add: query_eval upt_rec)
  ultimately show ?thesis using queries_return [of untyped_load 1 query_rank 4] by blast
qed

text \<open>
  Nothing bounds the constants of decompiled pointer arithmetic, so in a build with overflow
  checks \<open>base_var\<close> panics on an expression the other build answers.
\<close>

theorem base_var_overflow_panics:
  "\<exists>t e. base_var True t e = None \<and> base_var False t e = Some (Some (0, 0))"
proof -
  define t where "t = query_tree [(EVar 0, 1), (ENum (2 ^ 62), 0), (EBinary OpAdd 0 1, 1)] []"
  have k: "kind_of t 0 = Some (EVar 0)" "kind_of t 2 = Some (EBinary OpAdd 0 1)"
    "kind_of t 1 = Some (ENum (2 ^ 62))" "pointee_size t 0 = Some (Some 8)"
    by (simp_all add: t_def query_eval)
  have v: "base_var c t 0 = Some (Some (0, 0))" for c
    by (simp add: base_var_stop [OF k(1)] place_step_def)
  have "base_var c t 2 = (if c then None else Some (Some (0, 0)))" for c
    using k by (simp add: base_var_stop [OF k(2)] place_step_def add_operand_def v shift_base_def
        i64_mul_def i64_add_def)
  then show ?thesis by (intro exI [of _ t] exI [of _ 2]) simp
qed

end
