(* ===== verification/Ctree_Render.thy ===== *)
theory Ctree_Render
  imports Ctree_Query
begin

text \<open>
  \<open>decompiler/ctree/render.rs\<close>: the printer of C-like pseudocode. \<open>printer\<close> is the state of the
  source's \<open>Printer\<close>: the output so far and the indentation; every operation takes it and returns it
  updated. The tree is walked over handles, so the operations carry fuel: \<open>None\<close> is a handle outside
  an arena or a nesting deeper than the fuel.

  \<open>formats\<close> stands for two formatting traits of the standard library whose tables are not modelled:
  the shortest decimal of an \<open>f64\<close>, and the escapes of a quoted string.
\<close>

record formats =
  fm_f64 :: "u64 \<Rightarrow> string"
  fm_str :: "string \<Rightarrow> string"

record printer =
  pr_out :: string
  pr_indent :: nat

type_synonym print = "printer \<Rightarrow> printer option"

subsection \<open>Precedence\<close>

type_synonym prec = nat

abbreviation "PREC_ANY \<equiv> (0 :: prec)"
abbreviation "PREC_COMMA \<equiv> (1 :: prec)"
abbreviation "PREC_ASSIGN \<equiv> (2 :: prec)"
abbreviation "PREC_TERNARY \<equiv> (3 :: prec)"
abbreviation "PREC_LOGOR \<equiv> (4 :: prec)"
abbreviation "PREC_LOGAND \<equiv> (5 :: prec)"
abbreviation "PREC_BITOR \<equiv> (6 :: prec)"
abbreviation "PREC_BITXOR \<equiv> (7 :: prec)"
abbreviation "PREC_BITAND \<equiv> (8 :: prec)"
abbreviation "PREC_EQ \<equiv> (9 :: prec)"
abbreviation "PREC_REL \<equiv> (10 :: prec)"
abbreviation "PREC_SHIFT \<equiv> (11 :: prec)"
abbreviation "PREC_ADD \<equiv> (12 :: prec)"
abbreviation "PREC_MUL \<equiv> (13 :: prec)"
abbreviation "PREC_UNARY \<equiv> (14 :: prec)"
abbreviation "PREC_POSTFIX \<equiv> (15 :: prec)"
abbreviation "PREC_PRIMARY \<equiv> (16 :: prec)"

definition tighter :: "prec \<Rightarrow> prec" where
  "tighter p = p + 1"

fun bin_prec :: "binary_op \<Rightarrow> prec" where
  "bin_prec OpComma = PREC_COMMA"
| "bin_prec LogOr = PREC_LOGOR"
| "bin_prec LogAnd = PREC_LOGAND"
| "bin_prec BitOr = PREC_BITOR"
| "bin_prec BitXor = PREC_BITXOR"
| "bin_prec BitAnd = PREC_BITAND"
| "bin_prec OpEq = PREC_EQ"
| "bin_prec OpNe = PREC_EQ"
| "bin_prec Sge = PREC_REL"
| "bin_prec Uge = PREC_REL"
| "bin_prec Sle = PREC_REL"
| "bin_prec Ule = PREC_REL"
| "bin_prec Sgt = PREC_REL"
| "bin_prec Ugt = PREC_REL"
| "bin_prec Slt = PREC_REL"
| "bin_prec Ult = PREC_REL"
| "bin_prec Sshr = PREC_SHIFT"
| "bin_prec Ushr = PREC_SHIFT"
| "bin_prec OpShl = PREC_SHIFT"
| "bin_prec OpAdd = PREC_ADD"
| "bin_prec OpSub = PREC_ADD"
| "bin_prec Fadd = PREC_ADD"
| "bin_prec Fsub = PREC_ADD"
| "bin_prec OpMul = PREC_MUL"
| "bin_prec Sdiv = PREC_MUL"
| "bin_prec Udiv = PREC_MUL"
| "bin_prec Smod = PREC_MUL"
| "bin_prec Umod = PREC_MUL"
| "bin_prec Fmul = PREC_MUL"
| "bin_prec Fdiv = PREC_MUL"

fun is_postfix :: "unary_op \<Rightarrow> bool" where
  "is_postfix PostInc = True"
| "is_postfix PostDec = True"
| "is_postfix _ = False"

fun kind_prec :: "expression_kind \<Rightarrow> prec" where
  "kind_prec (EBinary op _ _) = bin_prec op"
| "kind_prec (EAssign _ _ _) = PREC_ASSIGN"
| "kind_prec (ETernary _ _ _) = PREC_TERNARY"
| "kind_prec (EUnary op _) = (if is_postfix op then PREC_POSTFIX else PREC_UNARY)"
| "kind_prec (ECall _ _) = PREC_POSTFIX"
| "kind_prec (EIndex _ _) = PREC_POSTFIX"
| "kind_prec (EMemberRef _ _) = PREC_POSTFIX"
| "kind_prec (EMemberPtr _ _) = PREC_POSTFIX"
| "kind_prec (ECast _) = PREC_UNARY"
| "kind_prec (EDeref _ _) = PREC_UNARY"
| "kind_prec (ESizeof _) = PREC_UNARY"
| "kind_prec _ = PREC_PRIMARY"

subsection \<open>Names and types\<close>

definition show_hex :: "nat \<Rightarrow> string" where
  "show_hex n = ''0x'' @ show_base 16 n"

definition show_i32 :: "i32 \<Rightarrow> string" where
  "show_i32 n = (if sint n < 0 then ''-'' else []) @ show_nat (nat (abs (sint n)))"

definition join_strings :: "string \<Rightarrow> string list \<Rightarrow> string" where
  "join_strings sep xs = concat (case xs of [] \<Rightarrow> [] | y # ys \<Rightarrow> y # map (\<lambda>z. sep @ z) ys)"

definition name_or :: "string option \<Rightarrow> string \<Rightarrow> string" where
  "name_or name other = (case name of Some n \<Rightarrow> n | None \<Rightarrow> other)"

fun print_type :: "nat \<Rightarrow> type_table \<Rightarrow> type_id \<Rightarrow> string option" where
  "print_type 0 tt tid = None"
| "print_type (Suc fuel) tt tid =
     do { v \<leftarrow> table_get tt tid;
          (case tv_shape v of
             TVoid \<Rightarrow> Some ''void''
           | TBool \<Rightarrow> Some ''bool''
           | TInt bytes sg \<Rightarrow>
               Some ((if sg then ''__int'' else ''unsigned __int'') @ show_nat (unat bytes * 8))
           | TFloat bytes \<Rightarrow>
               Some (if bytes = 4 then ''float'' else if bytes = 8 then ''double'' else ''long double'')
           | TPtr p \<Rightarrow> map_option (\<lambda>s. s @ '' *'') (print_type fuel tt p)
           | TArray elem len \<Rightarrow>
               map_option (\<lambda>s. s @ ''['' @ show_nat (unat len) @ '']'') (print_type fuel tt elem)
           | TStruct name _ \<Rightarrow> Some (name_or name ''struct'')
           | TUnion name _ \<Rightarrow> Some (name_or name ''union'')
           | TEnum name _ _ _ _ \<Rightarrow> Some (name_or name ''enum'')
           | TFunction ret params varargs \<Rightarrow>
               do { parts \<leftarrow> traverse (print_type fuel tt) params;
                    r \<leftarrow> print_type fuel tt ret;
                    Some (r @ '' (*)('' @
                      join_strings '', '' (parts @ (if varargs then [''...''] else [])) @ '')'') }
           | TTypedef name _ \<Rightarrow> Some name
           | TOpaque name \<Rightarrow> Some name
           | TUnknown \<Rightarrow> Some ''_UNKNOWN'') }"

definition type_tag_name :: "type_table \<Rightarrow> type_id \<Rightarrow> string option option" where
  "type_tag_name tt tid = map_option (\<lambda>v.
     (case tv_shape v of
        TStruct name _ \<Rightarrow> name
      | TUnion name _ \<Rightarrow> name
      | TEnum name _ _ _ _ \<Rightarrow> name
      | TTypedef name _ \<Rightarrow> Some name
      | TOpaque name \<Rightarrow> Some name
      | _ \<Rightarrow> None)) (table_get tt tid)"

definition shape_members :: "type_shape \<Rightarrow> type_member list option" where
  "shape_members sh = (case sh of TStruct _ ms \<Rightarrow> Some ms | TUnion _ ms \<Rightarrow> Some ms | _ \<Rightarrow> None)"

definition field_name :: "ctree \<Rightarrow> expression_id \<Rightarrow> u32 \<Rightarrow> bool \<Rightarrow> string option" where
  "field_name t obj byte_off through_ptr =
     do { n \<leftarrow> arena_get (ns_expressions t) obj;
          ty \<leftarrow> table_get (ct_types t) (ex_ty n);
          ty' \<leftarrow> (case tv_shape ty of
                   TPtr p \<Rightarrow> if through_ptr then table_get (ct_types t) p else Some ty
                 | _ \<Rightarrow> Some ty);
          let fallback = ''field_'' @ show_hex (unat byte_off);
          (case shape_members (tv_shape ty') of
             None \<Rightarrow> Some fallback
           | Some members \<Rightarrow>
               (case List.find (\<lambda>m. tm_bit_offset m = ucast byte_off * 8) members of
                  None \<Rightarrow> Some fallback
                | Some m \<Rightarrow>
                    if tm_name m \<noteq> [] then Some (tm_name m)
                    else map_option (\<lambda>tag. name_or tag fallback) (type_tag_name (ct_types t) (tm_ty m)))) }"

definition local_name :: "ctree \<Rightarrow> local_id \<Rightarrow> string" where
  "local_name t v =
     (if unat v < length (ct_locals t) then lv_name (ct_locals t ! unat v)
      else ''v'' @ show_nat (unat v))"

subsection \<open>Expressions\<close>

definition push_str :: "string \<Rightarrow> printer \<Rightarrow> printer" where
  "push_str s p = p\<lparr>pr_out := pr_out p @ s\<rparr>"

definition push_indent :: "printer \<Rightarrow> printer" where
  "push_indent p = push_str (concat (replicate (pr_indent p) ''  '')) p"

definition newline :: string where
  "newline = [CHR 0x0A]"

definition line :: "string \<Rightarrow> printer \<Rightarrow> printer" where
  "line s p = push_str newline (push_str s (push_indent p))"

fun print_args :: "(expression_id \<Rightarrow> print) \<Rightarrow> nat \<Rightarrow> expression_id list \<Rightarrow> print" where
  "print_args expr i [] p = Some p"
| "print_args expr i (a # args) p =
     do { p1 \<leftarrow> expr a (if i > 0 then push_str '', '' p else p); print_args expr (i + 1) args p1 }"

definition expression_inner ::
  "formats \<Rightarrow> nat \<Rightarrow> ctree \<Rightarrow> (expression_id \<Rightarrow> prec \<Rightarrow> print) \<Rightarrow> expression_id \<Rightarrow> print" where
  "expression_inner fm tf t expr e p =
     do { n \<leftarrow> arena_get (ns_expressions t) e;
          (case ex_kind n of
             EBinary op x y \<Rightarrow>
               if op = OpComma
               then do { p1 \<leftarrow> expr x PREC_COMMA p;
                         expr y (tighter PREC_COMMA) (push_str '', '' p1) }
               else do { p1 \<leftarrow> expr x (bin_prec op) p;
                         expr y (tighter (bin_prec op))
                           (push_str ('' '' @ binary_op_symbol op @ '' '') p1) }
           | EAssign op x y \<Rightarrow>
               do { p1 \<leftarrow> expr x (tighter PREC_ASSIGN) p;
                    expr y PREC_ASSIGN (push_str ('' '' @ assignment_op_symbol op @ '' '') p1) }
           | EUnary op x \<Rightarrow>
               if is_postfix op
               then do { p1 \<leftarrow> expr x PREC_POSTFIX p; Some (push_str (unary_op_symbol op) p1) }
               else expr x PREC_UNARY (push_str (unary_op_symbol op) p)
           | ETernary c a b \<Rightarrow>
               do { p1 \<leftarrow> expr c (tighter PREC_TERNARY) p;
                    p2 \<leftarrow> expr a PREC_ANY (push_str '' ? '' p1);
                    expr b PREC_TERNARY (push_str '' : '' p2) }
           | ECall callee args \<Rightarrow>
               do { p1 \<leftarrow> expr callee PREC_POSTFIX p;
                    p2 \<leftarrow> print_args (\<lambda>a. expr a PREC_ASSIGN) 0 args (push_str ''('' p1);
                    Some (push_str '')'' p2) }
           | EIndex array ix \<Rightarrow>
               do { p1 \<leftarrow> expr array PREC_POSTFIX p;
                    p2 \<leftarrow> expr ix PREC_ANY (push_str ''['' p1);
                    Some (push_str '']'' p2) }
           | EMemberRef obj off \<Rightarrow>
               do { name \<leftarrow> field_name t obj off False;
                    p1 \<leftarrow> expr obj PREC_POSTFIX p;
                    Some (push_str name (push_str ''.'' p1)) }
           | EMemberPtr obj off \<Rightarrow>
               do { name \<leftarrow> field_name t obj off True;
                    p1 \<leftarrow> expr obj PREC_POSTFIX p;
                    Some (push_str name (push_str ''->'' p1)) }
           | ECast x \<Rightarrow>
               do { ts \<leftarrow> print_type tf (ct_types t) (ex_ty n);
                    expr x PREC_UNARY (push_str (''('' @ ts @ '')'') p) }
           | EDeref x _ \<Rightarrow> expr x PREC_UNARY (push_str ''*'' p)
           | ESizeof x \<Rightarrow>
               do { p1 \<leftarrow> expr x PREC_ANY (push_str ''sizeof('' p); Some (push_str '')'' p1) }
           | ENum v \<Rightarrow> Some (push_str (if v < 10 then show_nat (unat v) else show_hex (unat v)) p)
           | EFnum f \<Rightarrow> Some (push_str (fm_f64 fm f) p)
           | EStr s \<Rightarrow> Some (push_str (fm_str fm s) p)
           | EObj ea name \<Rightarrow>
               Some (push_str (name_or name (show_hex (unat (address_get ea)))) p)
           | EVar v \<Rightarrow> Some (push_str (local_name t v) p)
           | EHelper s \<Rightarrow> Some (push_str s p)
           | ETypeExpression \<Rightarrow>
               do { ts \<leftarrow> print_type tf (ct_types t) (ex_ty n); Some (push_str ts p) }
           | EEmpty \<Rightarrow> Some p
           | EInternal \<Rightarrow> Some (push_str ''/* internal */'' p)) }"

fun expression ::
  "nat \<Rightarrow> formats \<Rightarrow> nat \<Rightarrow> ctree \<Rightarrow> expression_id \<Rightarrow> prec \<Rightarrow> print" where
  "expression 0 fm tf t e min_prec p = None"
| "expression (Suc fuel) fm tf t e min_prec p =
     do { k \<leftarrow> kind_of t e;
          let paren = kind_prec k < min_prec;
          p1 \<leftarrow> expression_inner fm tf t (expression fuel fm tf t) e (if paren then push_str ''('' p else p);
          Some (if paren then push_str '')'' p1 else p1) }"

subsection \<open>Statements\<close>

fun print_each :: "('a \<Rightarrow> print) \<Rightarrow> 'a list \<Rightarrow> print" where
  "print_each f [] p = Some p"
| "print_each f (x # xs) p = do { p1 \<leftarrow> f x p; print_each f xs p1 }"

definition print_case :: "(statement_id \<Rightarrow> print) \<Rightarrow> switch_case \<Rightarrow> print" where
  "print_case stmt c p =
     stmt (case_body c)
       (if case_values c = [] then line ''default:'' p
        else fold (\<lambda>v q. push_str (''case '' @ show_nat (unat v) @ '':'' @ newline) (push_indent q))
               (case_values c) p)"

definition print_opt :: "(expression_id \<Rightarrow> print) \<Rightarrow> expression_id option \<Rightarrow> print" where
  "print_opt expr e p = (case e of None \<Rightarrow> Some p | Some x \<Rightarrow> expr x p)"

text \<open>\<open>return\<close> and \<open>throw\<close>: a keyword and an optional value after a space.\<close>

definition print_keyword :: "(expression_id \<Rightarrow> print) \<Rightarrow> string \<Rightarrow> expression_id option \<Rightarrow> print" where
  "print_keyword expr kw e p =
     (let p1 = push_str kw (push_indent p)
      in do { p2 \<leftarrow> (case e of None \<Rightarrow> Some p1 | Some x \<Rightarrow> expr x (push_str '' '' p1));
              Some (push_str ('';'' @ newline) p2) })"

definition print_indented :: "(statement_id \<Rightarrow> print) \<Rightarrow> statement_id list \<Rightarrow> print" where
  "print_indented stmt ss p =
     do { p1 \<leftarrow> print_each stmt ss (p\<lparr>pr_indent := pr_indent p + 1\<rparr>);
          Some (p1\<lparr>pr_indent := pr_indent p1 - 1\<rparr>) }"

definition statement_inner ::
  "(expression_id \<Rightarrow> print) \<Rightarrow> (statement_id \<Rightarrow> print) \<Rightarrow> statement_kind \<Rightarrow> print" where
  "statement_inner expr stmt k p =
     (case k of
        KBlock ss \<Rightarrow>
          do { p1 \<leftarrow> print_indented stmt ss (line ''{'' p); Some (line ''}'' p1) }
      | KExpression e \<Rightarrow>
          do { p1 \<leftarrow> expr e (push_indent p); Some (push_str ('';'' @ newline) p1) }
      | KIf c a b \<Rightarrow>
          do { p1 \<leftarrow> expr c (push_str ''if ( '' (push_indent p));
               p2 \<leftarrow> stmt a (push_str ('' )'' @ newline) p1);
               (case b of None \<Rightarrow> Some p2 | Some e \<Rightarrow> stmt e (line ''else'' p2)) }
      | KFor init cond step body \<Rightarrow>
          do { p1 \<leftarrow> print_opt expr init (push_str ''for ( '' (push_indent p));
               p2 \<leftarrow> print_opt expr cond (push_str ''; '' p1);
               p3 \<leftarrow> print_opt expr step (push_str ''; '' p2);
               stmt body (push_str ('' )'' @ newline) p3) }
      | KWhile c body \<Rightarrow>
          do { p1 \<leftarrow> expr c (push_str ''while ( '' (push_indent p));
               stmt body (push_str ('' )'' @ newline) p1) }
      | KDo body c \<Rightarrow>
          do { p1 \<leftarrow> stmt body (line ''do'' p);
               p2 \<leftarrow> expr c (push_str ''while ( '' (push_indent p1));
               Some (push_str ('' );'' @ newline) p2) }
      | KSwitch e cases \<Rightarrow>
          do { p1 \<leftarrow> expr e (push_str ''switch ( '' (push_indent p));
               p2 \<leftarrow> print_each (print_case stmt) cases (line ''{'' (push_str ('' )'' @ newline) p1));
               Some (line ''}'' p2) }
      | KBreak \<Rightarrow> Some (line ''break;'' p)
      | KContinue \<Rightarrow> Some (line ''continue;'' p)
      | KReturn e \<Rightarrow> print_keyword expr ''return'' e p
      | KGoto label \<Rightarrow>
          Some (push_str (''goto LABEL_'' @ show_i32 label @ '';'' @ newline) (push_indent p))
      | KAsm eas \<Rightarrow>
          Some (push_str (''__asm { /* '' @ show_nat (length eas) @ '' insns */ }'' @ newline) (push_indent p))
      | KTry body catches \<Rightarrow>
          do { p1 \<leftarrow> stmt body (line ''try'' p);
               print_each (\<lambda>c q. stmt c (line ''catch'' q)) catches p1 }
      | KThrow e \<Rightarrow> print_keyword expr ''throw'' e p
      | KEmpty \<Rightarrow> Some (line '';'' p))"

fun statement :: "nat \<Rightarrow> formats \<Rightarrow> nat \<Rightarrow> ctree \<Rightarrow> statement_id \<Rightarrow> print" where
  "statement 0 fm tf t s p = None"
| "statement (Suc fuel) fm tf t s p =
     do { n \<leftarrow> arena_get (ns_statements t) s;
          statement_inner (\<lambda>e. expression fuel fm tf t e PREC_ANY) (statement fuel fm tf t) (st_kind n) p }"

definition to_pseudocode :: "nat \<Rightarrow> formats \<Rightarrow> nat \<Rightarrow> ctree \<Rightarrow> string option" where
  "to_pseudocode fuel fm tf t =
     map_option pr_out (statement fuel fm tf t (ct_root t) \<lparr>pr_out = [], pr_indent = 0\<rparr>)"

subsection \<open>Types print\<close>

text \<open>The edges \<open>print_type\<close> follows: it stops at a name.\<close>

fun spine :: "type_shape \<Rightarrow> type_id list" where
  "spine (TPtr p) = [p]"
| "spine (TArray elem _) = [elem]"
| "spine (TFunction ret params _) = ret # params"
| "spine _ = []"

definition spine_down :: "type_table \<Rightarrow> bool" where
  "spine_down tt \<longleftrightarrow> (\<forall>i v. table_get tt i = Some v \<longrightarrow> (\<forall>c \<in> set (spine (tv_shape v)).
     table_get tt c \<noteq> None \<and> unat c < unat i))"

lemma spine_downD:
  "spine_down tt \<Longrightarrow> table_get tt i = Some v \<Longrightarrow> c \<in> set (spine (tv_shape v)) \<Longrightarrow>
   (\<exists>w. table_get tt c = Some w) \<and> unat c < unat i"
  unfolding spine_down_def by blast

lemma traverse_returns: "(\<And>x. x \<in> set xs \<Longrightarrow> \<exists>y. f x = Some y) \<Longrightarrow> \<exists>ys. traverse f xs = Some ys"
  by (induction xs) fastforce+

lemma print_type_returns:
  assumes "spine_down tt"
  shows "table_get tt tid = Some v \<Longrightarrow> unat tid < fuel \<Longrightarrow> \<exists>s. print_type fuel tt tid = Some s"
proof (induction fuel arbitrary: tid v)
  case (Suc fuel)
  have sub: "\<exists>s. print_type fuel tt c = Some s" if "c \<in> set (spine (tv_shape v))" for c
  proof -
    from spine_downD [OF assms Suc.prems(1) that] obtain w where
      w: "table_get tt c = Some w" "unat c < unat tid" by blast
    with Suc.prems(2) show ?thesis by (intro Suc.IH [OF w(1)]) simp
  qed
  show ?case
  proof (cases "tv_shape v")
    case (TFunction ret params varargs)
    with sub obtain r where "print_type fuel tt ret = Some r" by auto
    moreover obtain ps where "traverse (print_type fuel tt) params = Some ps"
      using sub TFunction traverse_returns [of params "print_type fuel tt"] by auto
    ultimately show ?thesis using Suc.prems TFunction by simp
  next
    case (TPtr p)
    with sub obtain s where "print_type fuel tt p = Some s" by auto
    with Suc.prems TPtr show ?thesis by simp
  next
    case (TArray elem len)
    with sub obtain s where "print_type fuel tt elem = Some s" by auto
    with Suc.prems TArray show ?thesis by simp
  qed (use Suc.prems in simp_all)
qed simp

lemma spine_down_intern:
  assumes "spine_down t" and "table_intern v t = Some (i, t')"
    and "\<And>c. c \<in> set (spine (tv_shape v)) \<Longrightarrow> unat c < table_len t"
  shows "spine_down t'"
proof (cases "tt_dedup t v")
  case (Some j)
  with assms show ?thesis by (simp add: table_intern_def)
next
  case None
  with assms(2) have get: "table_get t' = (table_get t)(i \<mapsto> v)" and i: "unat i = table_len t"
    by (auto simp: table_intern_def table_get_def table_len_def arena_get_alloc arena_alloc_index fun_eq_iff)
  have none: "table_get t i = None" using i by (auto simp: table_get_def table_len_def arena_defs)
  have range: "table_get t c \<noteq> None \<longleftrightarrow> unat c < table_len t" for c
    by (simp add: table_get_def table_len_def arena_defs)
  show ?thesis
    unfolding spine_down_def get
  proof (intro allI impI ballI)
    fix j w c assume j: "((table_get t)(i \<mapsto> v)) j = Some w" and c: "c \<in> set (spine (tv_shape w))"
    show "((table_get t)(i \<mapsto> v)) c \<noteq> None \<and> unat c < unat j"
    proof (cases "j = i")
      case True
      with j c assms(3) i range show ?thesis by auto
    next
      case False
      with j have "table_get t j = Some w" by simp
      from spine_downD [OF assms(1) this c] none show ?thesis by auto
    qed
  qed
qed

lemma spine_down_update:
  assumes "spine_down t" and "table_get t' = (table_get t)(i \<mapsto> v)" and "spine (tv_shape v) = []"
  shows "spine_down t'"
  unfolding spine_down_def assms(2)
proof (intro allI impI ballI)
  fix j w c assume j: "((table_get t)(i \<mapsto> v)) j = Some w" and c: "c \<in> set (spine (tv_shape w))"
  then have "table_get t j = Some w" using assms(3) by (cases "j = i") auto
  from spine_downD [OF assms(1) this c] show "((table_get t)(i \<mapsto> v)) c \<noteq> None \<and> unat c < unat j" by auto
qed

lemmas spine_down_placeholder = spine_down_update [OF _ placeholder_get]
lemmas spine_down_fill = spine_down_update [OF _ fill_get]

lemma scalar_spine [simp]: "spine (scalar_shape kind w s) = []"
  by (auto simp: scalar_shape_def)

lemma sink_step_spine:
  assumes down: "spine_down (tb_table b)" and ok: "op_ok b op" and run: "sink_step op b = Some (r, b')"
  shows "spine_down (tb_table b')"
proof (cases r)
  case None
  have fill: "spine_down t" if "table_fill i v (tb_table b) = Some t" "spine (tv_shape v) = []" for i v t
    using down that by (rule spine_down_fill)
  from run None ok show ?thesis
    by (cases op) (auto simp: ret_id_def ret_unit_def builder_defs Let_def
        split: option.splits if_splits intro!: fill)
next
  case (Some i)
  have intern: "spine_down t" if "table_intern v (tb_table b) = Some (i, t)"
    "\<And>c. c \<in> set (spine (tv_shape v)) \<Longrightarrow> unat c < table_len (tb_table b)" for i v t
    using down that by (rule spine_down_intern)
  have alloc: "spine_down t" if "table_alloc_placeholder (tb_table b) = Some (i, t)" for i t
    by (rule spine_down_placeholder [OF down that]) simp
  show ?thesis
  proof (cases op)
    case (SFunc ret params vararg)
    with run ok show ?thesis
      by (auto simp: ret_id_def builder_defs in_range_def list_all_iff elim!: intern)
  next
    case (SNamedRef name)
    with run down show ?thesis
      by (auto simp: ret_id_def builder_defs split: option.splits intro: alloc)
  qed (use run Some ok in \<open>auto simp: ret_id_def ret_unit_def builder_defs in_range_def
        split: option.splits if_splits intro: intern alloc\<close>)
qed

lemma run_sink_spine:
  "spine_down (tb_table b) \<Longrightarrow> ops_ok ops b \<Longrightarrow> run_sink ops b = Some b' \<Longrightarrow> spine_down (tb_table b')"
  by (induction ops arbitrary: b) (auto split: option.splits prod.splits dest: sink_step_spine)

lemma walk_spine:
  assumes "ops_ok ops builder_new" and "walk_type ops root = Some (Inr (Some r))"
  shows "spine_down (rt_types r)"
proof -
  from assms(2) obtain b where b: "run_sink ops builder_new = Some b" "rt_types r = tb_table b"
    by (auto simp: walk_type_def split: option.splits if_splits)
  have "spine_down (tb_table builder_new)" by (simp add: spine_down_def builder_eval)
  from run_sink_spine [OF this assms(1) b(1)] b(2) show ?thesis by simp
qed

text \<open>
  Every type of a table the facade streamed under its contract prints: the handles a pointer, an
  array or a prototype holds were allocated before it, so the recursion over them ends, within as
  many levels as the table has entries.
\<close>

theorem walked_types_print:
  assumes "ops_ok ops builder_new" and "walk_type ops root = Some (Inr (Some r))"
    and "unat tid < table_len (rt_types r)"
  shows "\<exists>s. print_type (table_len (rt_types r)) (rt_types r) tid = Some s"
proof -
  from assms(3) obtain v where "table_get (rt_types r) tid = Some v"
    by (auto simp: table_get_def table_len_def arena_defs)
  from print_type_returns [OF walk_spine [OF assms(1,2)] this assms(3)] show ?thesis .
qed

theorem walked_types_print_witness:
  "\<exists>r s. walk_type node_run (Some 0) = Some (Inr (Some r)) \<and> print_type 2 (rt_types r) 1 = Some s"
proof -
  obtain r where r: "walk_type node_run (Some 0) = Some (Inr (Some r))" "table_len (rt_types r) = 2"
    by (simp add: node_run_def walk_type_def builder_eval)
  have ok: "ops_ok node_run builder_new" by (simp add: node_run_def builder_eval)
  from walked_types_print [OF ok r(1), of 1] r show ?thesis by auto
qed

subsection \<open>Expressions are phrases of the grammar\<close>

lemma push_str_push_str [simp]: "push_str b (push_str a p) = push_str (a @ b) p"
  by (simp add: push_str_def)

lemma push_str_Nil [simp]: "push_str [] p = p"
  by (simp add: push_str_def)

lemma push_str_indent [simp]: "pr_indent (push_str s p) = pr_indent p"
  by (simp add: push_str_def)

text \<open>
  A C integer literal: hexadecimal after \<open>0x\<close>, otherwise decimal; \<open>c_literal\<close> is the number it denotes.
\<close>

definition c_digit :: "char \<Rightarrow> nat option" where
  "c_digit c = map_of (zip ''0123456789abcdef'' [0..<16]) c"

fun c_digits :: "nat \<Rightarrow> nat \<Rightarrow> string \<Rightarrow> nat option" where
  "c_digits b acc [] = Some acc"
| "c_digits b acc (c # cs) =
     (case c_digit c of Some d \<Rightarrow> if d < b then c_digits b (acc * b + d) cs else None | None \<Rightarrow> None)"

definition c_literal :: "string \<Rightarrow> nat option" where
  "c_literal s =
     (if s = [] \<or> s = ''0x'' then None
      else if take 2 s = ''0x'' then c_digits 16 0 (drop 2 s) else c_digits 10 0 s)"

lemma c_digits_append:
  "c_digits b acc (xs @ ys) = (case c_digits b acc xs of None \<Rightarrow> None | Some n \<Rightarrow> c_digits b n ys)"
  by (induction b acc xs rule: c_digits.induct) (auto split: option.splits)

lemma c_digit_char: "d < 16 \<Longrightarrow> c_digit (digit_char d) = Some d"
proof -
  have "list_all (\<lambda>d. c_digit (digit_char d) = Some d) [0..<16]"
    by (simp add: c_digit_def digit_char_def char_of_def upt_rec bit_Suc_0_iff)
  then show "d < 16 \<Longrightarrow> ?thesis" unfolding list_all_iff by simp
qed

lemma c_digits_show: "2 \<le> b \<Longrightarrow> b \<le> 16 \<Longrightarrow> c_digits b 0 (show_base b n) = Some n"
proof (induction b n rule: show_base.induct)
  case (1 b n)
  then have "n mod b < b" "n mod b < 16" by (simp_all add: order_less_le_trans [of _ b])
  with 1 show ?case by (cases "n < b") (auto simp: show_base.simps [of b n] c_digits_append c_digit_char)
qed

lemma show_base_nonempty: "show_base b n \<noteq> []"
  by (simp add: show_base.simps [of b n])

lemma c_literal_hex: "c_literal (show_hex n) = Some n"
  by (simp add: c_literal_def show_hex_def c_digits_show show_base_nonempty)

lemma c_literal_digit: "n < 10 \<Longrightarrow> c_literal (show_nat n) = Some n"
  by (simp add: c_literal_def show_nat_def show_base.simps [of 10 n] c_digit_char)

text \<open>
  The expression grammar of C, as the standard lays it out: a nonterminal for each level, from the
  comma expression to the primary one. It is given here by tables of its own, with the spelling of
  every operator and the tree operators a spelling may stand for (C takes the signedness and the
  floating point of an operation from the types of its operands), and shares nothing with the printer's
  levels. Where C separates the two, the casts are counted among the unary expressions; and what is
  assigned to may be any conditional expression, where C asks for a unary one.
\<close>

datatype c_nonterminal =
  CExpression | CAssignment | CConditional | CLogicalOr | CLogicalAnd | CInclusiveOr | CExclusiveOr
   | CAnd | CEquality | CRelational | CShift | CAdditive | CMultiplicative | CUnary | CPostfix | CPrimary

definition c_levels :: "c_nonterminal list" where
  "c_levels = [CExpression, CAssignment, CConditional, CLogicalOr, CLogicalAnd, CInclusiveOr, CExclusiveOr,
     CAnd, CEquality, CRelational, CShift, CAdditive, CMultiplicative, CUnary, CPostfix, CPrimary]"

text \<open>\<open>(n, m)\<close>: an \<open>m\<close> expression is an \<open>n\<close> expression.\<close>

definition c_units :: "(c_nonterminal \<times> c_nonterminal) list" where
  "c_units = zip c_levels (tl c_levels)"

text \<open>\<open>n: n tok m\<close>: the left operand is of the level itself, the right one of the next.\<close>

definition c_binaries :: "(c_nonterminal \<times> string \<times> c_nonterminal \<times> binary_op list) list" where
  "c_binaries =
     [(CLogicalOr, ''||'', CLogicalAnd, [LogOr]),
      (CLogicalAnd, ''&&'', CInclusiveOr, [LogAnd]),
      (CInclusiveOr, ''|'', CExclusiveOr, [BitOr]),
      (CExclusiveOr, ''^'', CAnd, [BitXor]),
      (CAnd, ''&'', CEquality, [BitAnd]),
      (CEquality, ''=='', CRelational, [OpEq]),
      (CEquality, ''!='', CRelational, [OpNe]),
      (CRelational, ''<'', CShift, [Slt, Ult]),
      (CRelational, ''>'', CShift, [Sgt, Ugt]),
      (CRelational, ''<='', CShift, [Sle, Ule]),
      (CRelational, ''>='', CShift, [Sge, Uge]),
      (CShift, ''<<'', CAdditive, [OpShl]),
      (CShift, ''>>'', CAdditive, [Sshr, Ushr]),
      (CAdditive, ''+'', CMultiplicative, [OpAdd, Fadd]),
      (CAdditive, ''-'', CMultiplicative, [OpSub, Fsub]),
      (CMultiplicative, ''*'', CUnary, [OpMul, Fmul]),
      (CMultiplicative, ''/'', CUnary, [Sdiv, Udiv, Fdiv]),
      (CMultiplicative, ''%'', CUnary, [Smod, Umod])]"

definition c_assignments :: "(string \<times> assignment_op list) list" where
  "c_assignments =
     [(''='', [PlainAssign]), (''*='', [MulAssign]), (''/='', [SdivAssign, UdivAssign]),
      (''%='', [SmodAssign, UmodAssign]), (''+='', [AddAssign]), (''-='', [SubAssign]),
      (''<<='', [ShlAssign]), (''>>='', [SshrAssign, UshrAssign]), (''&='', [BitAndAssign]),
      (''^='', [BitXorAssign]), (''|='', [BitOrAssign])]"

definition c_prefixes :: "(string \<times> unary_op list) list" where
  "c_prefixes = [(''++'', [PreInc]), (''--'', [PreDec]), (''&'', [OpRef]), (''-'', [OpNeg, FNeg]),
     (''~'', [BitNot]), (''!'', [LogNot])]"

definition c_postfixes :: "(string \<times> unary_op list) list" where
  "c_postfixes = [(''++'', [PostInc]), (''--'', [PostDec])]"

text \<open>What a name, a constant of the formatting traits or a type stands as.\<close>

definition leaf_text :: "formats \<Rightarrow> nat \<Rightarrow> ctree \<Rightarrow> type_id \<Rightarrow> expression_kind \<Rightarrow> string option" where
  "leaf_text fm tf t ty k =
     (case k of
        EFnum f \<Rightarrow> Some (fm_f64 fm f)
      | EStr s \<Rightarrow> Some (fm_str fm s)
      | EObj ea name \<Rightarrow> name
      | EVar v \<Rightarrow> Some (local_name t v)
      | EHelper s \<Rightarrow> Some s
      | ETypeExpression \<Rightarrow> print_type tf (ct_types t) ty
      | EEmpty \<Rightarrow> Some []
      | EInternal \<Rightarrow> Some ''/* internal */''
      | _ \<Rightarrow> None)"

text \<open>
  \<open>phrase fm tf t n s e\<close>: the string \<open>s\<close> is an \<open>n\<close> of that grammar, with a derivation that has the shape of
  the tree below the node \<open>e\<close>.
\<close>

inductive phrase :: "formats \<Rightarrow> nat \<Rightarrow> ctree \<Rightarrow> c_nonterminal \<Rightarrow> string \<Rightarrow> expression_id \<Rightarrow> bool" for fm tf t where
  c_unit: "(n, m) \<in> set c_units \<Longrightarrow> phrase fm tf t m s e \<Longrightarrow> phrase fm tf t n s e"
| c_paren: "phrase fm tf t CExpression s e \<Longrightarrow> phrase fm tf t CPrimary (''('' @ s @ '')'') e"
| c_number: "kind_of t e = Some (ENum v) \<Longrightarrow> c_literal s = Some (unat v) \<Longrightarrow> phrase fm tf t CPrimary s e"
| c_address: "kind_of t e = Some (EObj ea None) \<Longrightarrow> c_literal s = Some (unat (address_get ea)) \<Longrightarrow>
    phrase fm tf t CPrimary s e"
| c_leaf: "arena_get (ns_expressions t) e = Some n \<Longrightarrow> leaf_text fm tf t (ex_ty n) (ex_kind n) = Some s \<Longrightarrow>
    phrase fm tf t CPrimary s e"
| c_comma: "kind_of t e = Some (EBinary OpComma x y) \<Longrightarrow> phrase fm tf t CExpression a x \<Longrightarrow>
    phrase fm tf t CAssignment b y \<Longrightarrow> phrase fm tf t CExpression (a @ '', '' @ b) e"
| c_binary: "kind_of t e = Some (EBinary op x y) \<Longrightarrow> (n, tok, m, ops) \<in> set c_binaries \<Longrightarrow> op \<in> set ops \<Longrightarrow>
    phrase fm tf t n a x \<Longrightarrow> phrase fm tf t m b y \<Longrightarrow> phrase fm tf t n (a @ '' '' @ tok @ '' '' @ b) e"
| c_assign: "kind_of t e = Some (EAssign op x y) \<Longrightarrow> (tok, ops) \<in> set c_assignments \<Longrightarrow> op \<in> set ops \<Longrightarrow>
    phrase fm tf t CConditional a x \<Longrightarrow> phrase fm tf t CAssignment b y \<Longrightarrow>
    phrase fm tf t CAssignment (a @ '' '' @ tok @ '' '' @ b) e"
| c_ternary: "kind_of t e = Some (ETernary c x y) \<Longrightarrow> phrase fm tf t CLogicalOr q c \<Longrightarrow>
    phrase fm tf t CExpression a x \<Longrightarrow> phrase fm tf t CConditional b y \<Longrightarrow>
    phrase fm tf t CConditional (q @ '' ? '' @ a @ '' : '' @ b) e"
| c_prefix: "kind_of t e = Some (EUnary op x) \<Longrightarrow> (tok, ops) \<in> set c_prefixes \<Longrightarrow> op \<in> set ops \<Longrightarrow>
    phrase fm tf t CUnary a x \<Longrightarrow> phrase fm tf t CUnary (tok @ a) e"
| c_postfix: "kind_of t e = Some (EUnary op x) \<Longrightarrow> (tok, ops) \<in> set c_postfixes \<Longrightarrow> op \<in> set ops \<Longrightarrow>
    phrase fm tf t CPostfix a x \<Longrightarrow> phrase fm tf t CPostfix (a @ tok) e"
| c_deref: "kind_of t e = Some (EDeref x w) \<Longrightarrow> phrase fm tf t CUnary a x \<Longrightarrow>
    phrase fm tf t CUnary (''*'' @ a) e"
| c_cast: "arena_get (ns_expressions t) e = Some n \<Longrightarrow> ex_kind n = ECast x \<Longrightarrow>
    print_type tf (ct_types t) (ex_ty n) = Some ts \<Longrightarrow> phrase fm tf t CUnary a x \<Longrightarrow>
    phrase fm tf t CUnary (''('' @ ts @ '')'' @ a) e"
| c_sizeof: "kind_of t e = Some (ESizeof x) \<Longrightarrow> phrase fm tf t CExpression a x \<Longrightarrow>
    phrase fm tf t CUnary (''sizeof('' @ a @ '')'') e"
| c_call: "kind_of t e = Some (ECall x args) \<Longrightarrow> phrase fm tf t CPostfix a x \<Longrightarrow>
    list_all2 (phrase fm tf t CAssignment) bs args \<Longrightarrow>
    phrase fm tf t CPostfix (a @ ''('' @ join_strings '', '' bs @ '')'') e"
| c_index: "kind_of t e = Some (EIndex x y) \<Longrightarrow> phrase fm tf t CPostfix a x \<Longrightarrow>
    phrase fm tf t CExpression b y \<Longrightarrow> phrase fm tf t CPostfix (a @ ''['' @ b @ '']'') e"
| c_member: "kind_of t e = Some (EMemberRef x off) \<Longrightarrow> phrase fm tf t CPostfix a x \<Longrightarrow>
    field_name t x off False = Some f \<Longrightarrow> phrase fm tf t CPostfix (a @ ''.'' @ f) e"
| c_arrow: "kind_of t e = Some (EMemberPtr x off) \<Longrightarrow> phrase fm tf t CPostfix a x \<Longrightarrow>
    field_name t x off True = Some f \<Longrightarrow> phrase fm tf t CPostfix (a @ ''->'' @ f) e"

text \<open>
  What each level of the printer asks for: the positions that accept any expression and the one left of a
  comma take an expression of the grammar, and so on up to the primary ones.
\<close>

definition position :: "prec \<Rightarrow> c_nonterminal" where
  "position m = (CExpression # c_levels) ! m"

abbreviation "at_level fm tf t m \<equiv> phrase fm tf t (position m)"

lemma position_simps [simp]:
  "position 0 = CExpression" "position 1 = CExpression" "position (Suc 0) = CExpression"
  "position (Suc (Suc 0)) = CAssignment" "position 2 = CAssignment"
  "position 3 = CConditional" "position 4 = CLogicalOr" "position 5 = CLogicalAnd" "position 6 = CInclusiveOr"
  "position 7 = CExclusiveOr" "position 8 = CAnd" "position 9 = CEquality" "position 10 = CRelational"
  "position 11 = CShift" "position 12 = CAdditive" "position 13 = CMultiplicative" "position 14 = CUnary"
  "position 15 = CPostfix" "position 16 = CPrimary"
  by (simp_all add: position_def c_levels_def)

lemma position_unit: "m < PREC_PRIMARY \<Longrightarrow> position m = position (Suc m) \<or> (position m, position (Suc m)) \<in> set c_units"
proof -
  have "list_all (\<lambda>m. position m = position (Suc m) \<or> (position m, position (Suc m)) \<in> set c_units) [0..<PREC_PRIMARY]"
    by code_simp
  then show "m < PREC_PRIMARY \<Longrightarrow> ?thesis" unfolding list_all_iff by simp
qed

lemma at_looser:
  assumes "at_level fm tf t l s e" and "k \<le> l" and "l \<le> PREC_PRIMARY"
  shows "at_level fm tf t k s e"
  using assms(2,1,3)
proof (induction rule: inc_induct)
  case (step n)
  then have "at_level fm tf t (Suc n) s e" "n < PREC_PRIMARY" by simp_all
  with position_unit [of n] show ?case by (auto intro: c_unit)
qed

lemma bin_prec_range: "bin_prec op < PREC_UNARY"
  by (cases op) simp_all

lemma kind_prec_range: "kind_prec k \<le> PREC_PRIMARY"
proof (cases k)
  case (EBinary op x y)
  then show ?thesis by (cases op) simp_all
qed simp_all

text \<open>The operators stand in the tables at the printer's level and under the printer's spelling.\<close>

lemma binary_in_table:
  "op \<noteq> OpComma \<Longrightarrow> \<exists>ops. (position (bin_prec op), binary_op_symbol op, position (bin_prec op + 1), ops)
     \<in> set c_binaries \<and> op \<in> set ops"
  by (cases op) (simp_all add: c_binaries_def)

lemma assignment_in_table: "\<exists>ops. (assignment_op_symbol op, ops) \<in> set c_assignments \<and> op \<in> set ops"
  by (cases op) (simp_all add: c_assignments_def)

lemma prefix_in_table: "\<not> is_postfix op \<Longrightarrow> \<exists>ops. (unary_op_symbol op, ops) \<in> set c_prefixes \<and> op \<in> set ops"
  by (cases op) (simp_all add: c_prefixes_def)

lemma postfix_in_table: "is_postfix op \<Longrightarrow> \<exists>ops. (unary_op_symbol op, ops) \<in> set c_postfixes \<and> op \<in> set ops"
  by (cases op) (simp_all add: c_postfixes_def)

lemma at_binary:
  assumes "kind_of t e = Some (EBinary op x y)" and "op \<noteq> OpComma"
    and "at_level fm tf t (bin_prec op) a x" and "at_level fm tf t (bin_prec op + 1) b y"
  shows "at_level fm tf t (bin_prec op) (a @ '' '' @ binary_op_symbol op @ '' '' @ b) e"
  using binary_in_table [OF assms(2)] assms by (blast intro: c_binary)

lemma at_assign:
  assumes "kind_of t e = Some (EAssign op x y)" and "at_level fm tf t PREC_TERNARY a x"
    and "at_level fm tf t PREC_ASSIGN b y"
  shows "at_level fm tf t PREC_ASSIGN (a @ '' '' @ assignment_op_symbol op @ '' '' @ b) e"
proof -
  obtain ops where "(assignment_op_symbol op, ops) \<in> set c_assignments" "op \<in> set ops"
    using assignment_in_table by blast
  from c_assign [OF assms(1) this] assms(2,3) show ?thesis by simp
qed

lemma at_prefix:
  assumes "kind_of t e = Some (EUnary op x)" and "\<not> is_postfix op" and "at_level fm tf t PREC_UNARY a x"
  shows "at_level fm tf t PREC_UNARY (unary_op_symbol op @ a) e"
  using prefix_in_table [OF assms(2)] assms by (auto intro: c_prefix)

lemma at_postfix:
  assumes "kind_of t e = Some (EUnary op x)" and "is_postfix op" and "at_level fm tf t PREC_POSTFIX a x"
  shows "at_level fm tf t PREC_POSTFIX (a @ unary_op_symbol op) e"
  using postfix_in_table [OF assms(2)] assms by (auto intro: c_postfix)

text \<open>A leaf prints as a primary.\<close>

lemma at_leaf:
  assumes e: "arena_get (ns_expressions t) e = Some n" and p: "kind_prec (ex_kind n) = PREC_PRIMARY"
    and run: "expression_inner fm tf t expr e p = Some p'"
  shows "\<exists>s. p' = push_str s p \<and> at_level fm tf t PREC_PRIMARY s e"
proof -
  have kind: "kind_of t e = Some (ex_kind n)" using e by (simp add: kind_of_def)
  note run = run [unfolded expression_inner_def e bind.bind_lunit]
  have leaf: ?thesis if "leaf_text fm tf t (ex_ty n) (ex_kind n) = Some s" "p' = push_str s p" for s
    using c_leaf [OF e that(1)] that(2) by auto
  show ?thesis
  proof (cases "ex_kind n")
    case (ENum v)
    have "c_literal (if v < 10 then show_nat (unat v) else show_hex (unat v)) = Some (unat v)"
      by (simp add: c_literal_digit c_literal_hex word_less_nat_alt)
    with c_number [OF kind [unfolded ENum]] run ENum show ?thesis by auto
  next
    case (EObj ea name)
    show ?thesis
    proof (cases name)
      case None
      with c_address [OF kind [unfolded EObj None] c_literal_hex] run EObj
      show ?thesis by (auto simp: name_or_def)
    next
      case (Some nm)
      with run EObj leaf [of nm] show ?thesis by (auto simp: leaf_text_def name_or_def)
    qed
  next
    case (EBinary op x y)
    with p bin_prec_range [of op] show ?thesis by simp
  qed (use p run leaf in \<open>auto simp: leaf_text_def split: if_splits\<close>)
qed

text \<open>What an operation that prints one expression has done: appended a phrase for it.\<close>

definition prints :: "formats \<Rightarrow> nat \<Rightarrow> ctree \<Rightarrow> (expression_id \<Rightarrow> prec \<Rightarrow> print) \<Rightarrow> bool" where
  "prints fm tf t expr \<longleftrightarrow> (\<forall>e m p p'. m \<le> PREC_PRIMARY \<longrightarrow> expr e m p = Some p' \<longrightarrow>
     (\<exists>s. p' = push_str s p \<and> at_level fm tf t m s e))"

lemma printsD:
  "prints fm tf t expr \<Longrightarrow> expr e m p = Some p' \<Longrightarrow> m \<le> PREC_PRIMARY \<Longrightarrow>
   \<exists>s. p' = push_str s p \<and> at_level fm tf t m s e"
  unfolding prints_def by blast

lemma print_args_prints:
  assumes "prints fm tf t expr"
  shows "print_args (\<lambda>a. expr a PREC_ASSIGN) i args p = Some p' \<Longrightarrow>
    \<exists>bs. list_all2 (at_level fm tf t PREC_ASSIGN) bs args \<and>
      p' = push_str (if i > 0 then concat (map ((@) '', '') bs) else join_strings '', '' bs) p"
proof (induction args arbitrary: i p)
  case Nil
  then show ?case by (auto simp: join_strings_def intro: exI [of _ "[]"])
next
  case (Cons a args)
  then obtain p1 where p1: "expr a PREC_ASSIGN (if i > 0 then push_str '', '' p else p) = Some p1"
    "print_args (\<lambda>a. expr a PREC_ASSIGN) (i + 1) args p1 = Some p'" by auto
  from printsD [OF assms p1(1)] obtain s where s: "at_level fm tf t PREC_ASSIGN s a"
    "p1 = push_str s (if i > 0 then push_str '', '' p else p)" by auto
  from Cons.IH [OF p1(2)] obtain bs where bs: "list_all2 (at_level fm tf t PREC_ASSIGN) bs args"
    "p' = push_str (concat (map ((@) '', '') bs)) p1" by auto
  with s show ?case by (intro exI [of _ "s # bs"]) (auto simp: join_strings_def)
qed

lemma printed: "at_level fm tf t l s e \<Longrightarrow> p' = push_str s p \<Longrightarrow> \<exists>s. p' = push_str s p \<and> at_level fm tf t l s e"
  by blast

lemma printsE:
  assumes "prints fm tf t expr" and "expr e m p = Some p'" and "m \<le> PREC_PRIMARY"
  obtains s where "p' = push_str s p" "at_level fm tf t m s e"
  using printsD [OF assms] by blast

lemma expression_inner_prints:
  assumes ex: "prints fm tf t expr"
    and e: "arena_get (ns_expressions t) e = Some n"
    and run: "expression_inner fm tf t expr e p = Some p'"
  shows "\<exists>s. p' = push_str s p \<and> at_level fm tf t (kind_prec (ex_kind n)) s e"
proof -
  note E = printsE [OF ex]
  have kind: "kind_of t e = Some (ex_kind n)" using e by (simp add: kind_of_def)
  note run = run [unfolded expression_inner_def e bind.bind_lunit]
  have leaf: ?thesis if "kind_prec (ex_kind n) = PREC_PRIMARY"
    using at_leaf [OF e that assms(3)] that by simp
  show ?thesis
  proof (cases "ex_kind n")
    case (EBinary op x y)
    show ?thesis
    proof (cases "op = OpComma")
      case True
      with run EBinary obtain p1 where p1: "expr x PREC_COMMA p = Some p1"
        "expr y (tighter PREC_COMMA) (push_str '', '' p1) = Some p'" by auto
      obtain a where a: "p1 = push_str a p" "at_level fm tf t PREC_COMMA a x" by (rule E [OF p1(1)]) simp_all
      obtain b where b: "p' = push_str b (push_str '', '' p1)" "at_level fm tf t (tighter PREC_COMMA) b y"
        by (rule E [OF p1(2)]) (simp_all add: tighter_def)
      have "at_level fm tf t (bin_prec op) (a @ '', '' @ b) e"
        using c_comma [OF kind [unfolded EBinary True]] a(2) b(2) by (simp add: True tighter_def)
      with a(1) b(1) show ?thesis unfolding EBinary kind_prec.simps by (intro printed) simp_all
    next
      case False
      with run EBinary obtain p1 where p1: "expr x (bin_prec op) p = Some p1"
        "expr y (tighter (bin_prec op)) (push_str ('' '' @ binary_op_symbol op @ '' '') p1) = Some p'"
        by auto
      note range = bin_prec_range [of op]
      obtain a where a: "p1 = push_str a p" "at_level fm tf t (bin_prec op) a x"
        by (rule E [OF p1(1)]) (use range in simp_all)
      obtain b where b: "p' = push_str b (push_str ('' '' @ binary_op_symbol op @ '' '') p1)"
        "at_level fm tf t (tighter (bin_prec op)) b y"
        by (rule E [OF p1(2)]) (use range in \<open>simp_all add: tighter_def\<close>)
      from at_binary [OF kind [unfolded EBinary] False a(2) b(2) [unfolded tighter_def]] a(1) b(1)
      show ?thesis unfolding EBinary kind_prec.simps by (intro printed) simp_all
    qed
  next
    case (EAssign op x y)
    with run obtain p1 where p1: "expr x (tighter PREC_ASSIGN) p = Some p1"
      "expr y PREC_ASSIGN (push_str ('' '' @ assignment_op_symbol op @ '' '') p1) = Some p'" by auto
    obtain a where a: "p1 = push_str a p" "at_level fm tf t (tighter PREC_ASSIGN) a x"
      by (rule E [OF p1(1)]) (simp_all add: tighter_def)
    obtain b where b: "p' = push_str b (push_str ('' '' @ assignment_op_symbol op @ '' '') p1)"
      "at_level fm tf t PREC_ASSIGN b y" by (rule E [OF p1(2)]) simp_all
    have "at_level fm tf t PREC_ASSIGN (a @ '' '' @ assignment_op_symbol op @ '' '' @ b) e"
      using at_assign [OF kind [unfolded EAssign] _ b(2)] a(2) by (simp add: tighter_def)
    with a(1) b(1) show ?thesis unfolding EAssign kind_prec.simps by (intro printed) simp_all
  next
    case (EUnary op x)
    show ?thesis
    proof (cases "is_postfix op")
      case True
      with run EUnary obtain p1 where p1: "expr x PREC_POSTFIX p = Some p1"
        "p' = push_str (unary_op_symbol op) p1" by auto
      obtain a where a: "p1 = push_str a p" "at_level fm tf t PREC_POSTFIX a x" by (rule E [OF p1(1)]) simp_all
      from at_postfix [OF kind [unfolded EUnary] True a(2)] a(1) p1(2) True
      show ?thesis unfolding EUnary kind_prec.simps by (intro printed) simp_all
    next
      case False
      with run EUnary have p1: "expr x PREC_UNARY (push_str (unary_op_symbol op) p) = Some p'" by auto
      obtain a where a: "p' = push_str a (push_str (unary_op_symbol op) p)" "at_level fm tf t PREC_UNARY a x"
        by (rule E [OF p1]) simp_all
      from at_prefix [OF kind [unfolded EUnary] False a(2)] a(1) False
      show ?thesis unfolding EUnary kind_prec.simps by (intro printed) simp_all
    qed
  next
    case (ETernary c a b)
    with run obtain p1 p2 where p1: "expr c (tighter PREC_TERNARY) p = Some p1"
      "expr a PREC_ANY (push_str '' ? '' p1) = Some p2"
      "expr b PREC_TERNARY (push_str '' : '' p2) = Some p'" by auto
    obtain q where q: "p1 = push_str q p" "at_level fm tf t (tighter PREC_TERNARY) q c"
      by (rule E [OF p1(1)]) (simp_all add: tighter_def)
    obtain u where u: "p2 = push_str u (push_str '' ? '' p1)" "at_level fm tf t PREC_ANY u a"
      by (rule E [OF p1(2)]) simp_all
    obtain v where v: "p' = push_str v (push_str '' : '' p2)" "at_level fm tf t PREC_TERNARY v b"
      by (rule E [OF p1(3)]) simp_all
    have "at_level fm tf t PREC_TERNARY (q @ '' ? '' @ u @ '' : '' @ v) e"
      using c_ternary [OF kind [unfolded ETernary]] q(2) u(2) v(2) by (simp add: tighter_def)
    with q(1) u(1) v(1) show ?thesis unfolding ETernary kind_prec.simps by (intro printed) simp_all
  next
    case (ECall callee args)
    with run obtain p1 p2 where p1: "expr callee PREC_POSTFIX p = Some p1"
      "print_args (\<lambda>a. expr a PREC_ASSIGN) 0 args (push_str ''('' p1) = Some p2"
      "p' = push_str '')'' p2" by auto
    obtain a where a: "p1 = push_str a p" "at_level fm tf t PREC_POSTFIX a callee" by (rule E [OF p1(1)]) simp_all
    from print_args_prints [OF ex p1(2)] obtain bs where
      bs: "list_all2 (at_level fm tf t PREC_ASSIGN) bs args"
      "p2 = push_str (join_strings '', '' bs) (push_str ''('' p1)" by auto
    from c_call [OF kind [unfolded ECall] a(2) [unfolded position_simps] bs(1) [unfolded position_simps]] a(1) bs(2) p1(3)
    show ?thesis unfolding ECall kind_prec.simps by (intro printed) simp_all
  next
    case (EIndex x y)
    with run obtain p1 p2 where p1: "expr x PREC_POSTFIX p = Some p1"
      "expr y PREC_ANY (push_str ''['' p1) = Some p2" "p' = push_str '']'' p2" by auto
    obtain a where a: "p1 = push_str a p" "at_level fm tf t PREC_POSTFIX a x" by (rule E [OF p1(1)]) simp_all
    obtain b where b: "p2 = push_str b (push_str ''['' p1)" "at_level fm tf t PREC_ANY b y"
      by (rule E [OF p1(2)]) simp_all
    from c_index [OF kind [unfolded EIndex] a(2) [unfolded position_simps] b(2) [unfolded position_simps]] a(1) b(1) p1(3)
    show ?thesis unfolding EIndex kind_prec.simps by (intro printed) simp_all
  next
    case (EMemberRef x off)
    with run obtain f p1 where p1: "field_name t x off False = Some f" "expr x PREC_POSTFIX p = Some p1"
      "p' = push_str f (push_str ''.'' p1)" by auto
    obtain a where a: "p1 = push_str a p" "at_level fm tf t PREC_POSTFIX a x" by (rule E [OF p1(2)]) simp_all
    from c_member [OF kind [unfolded EMemberRef] a(2) [unfolded position_simps] p1(1)] a(1) p1(3)
    show ?thesis unfolding EMemberRef kind_prec.simps by (intro printed) simp_all
  next
    case (EMemberPtr x off)
    with run obtain f p1 where p1: "field_name t x off True = Some f" "expr x PREC_POSTFIX p = Some p1"
      "p' = push_str f (push_str ''->'' p1)" by auto
    obtain a where a: "p1 = push_str a p" "at_level fm tf t PREC_POSTFIX a x" by (rule E [OF p1(2)]) simp_all
    from c_arrow [OF kind [unfolded EMemberPtr] a(2) [unfolded position_simps] p1(1)] a(1) p1(3)
    show ?thesis unfolding EMemberPtr kind_prec.simps by (intro printed) simp_all
  next
    case (ECast x)
    with run obtain ts where ts: "print_type tf (ct_types t) (ex_ty n) = Some ts"
      "expr x PREC_UNARY (push_str (''('' @ ts @ '')'') p) = Some p'" by auto
    obtain a where a: "p' = push_str a (push_str (''('' @ ts @ '')'') p)" "at_level fm tf t PREC_UNARY a x"
      by (rule E [OF ts(2)]) simp_all
    from c_cast [OF e ECast ts(1) a(2) [unfolded position_simps]] a(1)
    show ?thesis unfolding ECast kind_prec.simps by (intro printed) simp_all
  next
    case (EDeref x w)
    with run have p1: "expr x PREC_UNARY (push_str ''*'' p) = Some p'" by auto
    obtain a where a: "p' = push_str a (push_str ''*'' p)" "at_level fm tf t PREC_UNARY a x"
      by (rule E [OF p1]) simp_all
    from c_deref [OF kind [unfolded EDeref] a(2) [unfolded position_simps]] a(1)
    show ?thesis unfolding EDeref kind_prec.simps by (intro printed) simp_all
  next
    case (ESizeof x)
    with run obtain p1 where p1: "expr x PREC_ANY (push_str ''sizeof('' p) = Some p1"
      "p' = push_str '')'' p1" by auto
    obtain a where a: "p1 = push_str a (push_str ''sizeof('' p)" "at_level fm tf t PREC_ANY a x"
      by (rule E [OF p1(1)]) simp_all
    from c_sizeof [OF kind [unfolded ESizeof] a(2) [unfolded position_simps]] a(1) p1(2)
    show ?thesis unfolding ESizeof kind_prec.simps by (intro printed) simp_all
  qed (use leaf in simp_all)
qed

lemma expression_prints: "prints fm tf t (expression fuel fm tf t)"
proof (induction fuel)
  case (Suc fuel)
  show ?case
    unfolding prints_def
  proof (intro allI impI)
    fix e m p p' assume m: "m \<le> PREC_PRIMARY" and run: "expression (Suc fuel) fm tf t e m p = Some p'"
    then obtain n where n: "arena_get (ns_expressions t) e = Some n" by (auto simp: kind_of_def)
    let ?paren = "kind_prec (ex_kind n) < m"
    from run n obtain p1 where p1: "expression_inner fm tf t (expression fuel fm tf t) e
        (if ?paren then push_str ''('' p else p) = Some p1"
      "p' = (if ?paren then push_str '')'' p1 else p1)"
      by (auto simp: kind_of_def Let_def)
    from expression_inner_prints [OF Suc.IH n p1(1)] obtain s where
      s: "p1 = push_str s (if ?paren then push_str ''('' p else p)"
      "at_level fm tf t (kind_prec (ex_kind n)) s e" by blast
    show "\<exists>s. p' = push_str s p \<and> at_level fm tf t m s e"
    proof (cases ?paren)
      case True
      have "at_level fm tf t m (''('' @ s @ '')'') e"
        using at_looser [OF s(2), of PREC_ANY] kind_prec_range [of "ex_kind n"]
          at_looser [of fm tf t PREC_PRIMARY "''('' @ s @ '')''" e m] m c_paren [of fm tf t s e] by simp
      with True p1(2) s(1) show ?thesis by auto
    next
      case False
      with p1(2) s at_looser [OF s(2), of m] kind_prec_range [of "ex_kind n"] show ?thesis by auto
    qed
  qed
qed (simp add: prints_def)


subsection \<open>The printer returns\<close>

definition returns :: "print \<Rightarrow> bool" where
  "returns f \<longleftrightarrow> (\<forall>p. f p \<noteq> None)"

lemma returnsE: "returns f \<Longrightarrow> (\<And>p'. f p = Some p' \<Longrightarrow> P) \<Longrightarrow> P"
  unfolding returns_def by (metis option.exhaust)

lemma print_args_returns:
  "(\<And>a. a \<in> set args \<Longrightarrow> returns (f a)) \<Longrightarrow> print_args f i args p \<noteq> None"
proof (induction args arbitrary: i p)
  case (Cons a args)
  then have "returns (f a)" by simp
  then obtain q where "f a (if i > 0 then push_str '', '' p else p) = Some q" by (rule returnsE)
  with Cons show ?case by simp
qed simp

lemma print_each_returns:
  "(\<And>x. x \<in> set xs \<Longrightarrow> returns (f x)) \<Longrightarrow> print_each f xs p \<noteq> None"
proof (induction xs arbitrary: p)
  case (Cons x xs)
  then have "returns (f x)" by simp
  then obtain q where "f x p = Some q" by (rule returnsE)
  with Cons show ?case by simp
qed simp

lemma kid_below:
  assumes wl: "well_linked t root rk" and n: "for_each_child t n = Some ks" "c \<in> set ks"
  shows "for_each_child t c \<noteq> None \<and> rk c < rk n"
proof -
  have ok: "store_ok t" using wl by (simp add: well_linked_def)
  have node: "n \<in> set (node_list t)" using n by (simp add: node_list_iff [OF ok])
  have kid: "c \<in> set (kids_of t n)" using n by (simp add: kids_of_def)
  with node have "c \<in> set (node_list t)" using well_linked_set(1) [OF wl] by blast
  moreover have "rk c < rk n" using wl node kid by (auto simp: well_linked_def list_all_iff)
  ultimately show ?thesis by (simp add: node_list_iff [OF ok])
qed

text \<open>Every expression has a type in the table, and the table is closed and prints.\<close>

definition handles_closed :: "type_table \<Rightarrow> bool" where
  "handles_closed tt \<longleftrightarrow> (\<forall>i v. table_get tt i = Some v \<longrightarrow>
     (\<forall>c \<in> set (shape_children (tv_shape v)). table_get tt c \<noteq> None))"

definition typed_tree :: "ctree \<Rightarrow> bool" where
  "typed_tree t \<longleftrightarrow> handles_closed (ct_types t) \<and> spine_down (ct_types t) \<and>
     list_all (\<lambda>n. unat (ex_ty n) < table_len (ct_types t)) (arena_data (ns_expressions t))"

lemma table_get_in: "unat i < table_len tt \<Longrightarrow> \<exists>v. table_get tt i = Some v"
  by (auto simp: table_get_def table_len_def arena_defs)

lemma typed_treeD:
  assumes "typed_tree t" and "arena_get (ns_expressions t) e = Some n"
  shows "\<exists>v. table_get (ct_types t) (ex_ty n) = Some v"
    and "table_len (ct_types t) \<le> tf \<Longrightarrow> \<exists>s. print_type tf (ct_types t) (ex_ty n) = Some s"
proof -
  have r: "unat (ex_ty n) < table_len (ct_types t)"
    using assms by (auto simp: typed_tree_def list_all_iff arena_defs split: if_splits)
  then show v: "\<exists>v. table_get (ct_types t) (ex_ty n) = Some v" by (rule table_get_in)
  assume "table_len (ct_types t) \<le> tf"
  with r v print_type_returns [of "ct_types t" "ex_ty n" _ tf] assms(1)
  show "\<exists>s. print_type tf (ct_types t) (ex_ty n) = Some s" by (auto simp: typed_tree_def)
qed

lemma type_tag_returns: "table_get tt i = Some v \<Longrightarrow> \<exists>s. type_tag_name tt i = Some s"
  by (simp add: type_tag_name_def)

lemma field_name_returns:
  assumes ty: "typed_tree t" and e: "arena_get (ns_expressions t) obj = Some n"
  shows "\<exists>s. field_name t obj off ptr = Some s"
proof -
  have closed: "handles_closed (ct_types t)" using ty by (simp add: typed_tree_def)
  from typed_treeD(1) [OF ty e] obtain v where v: "table_get (ct_types t) (ex_ty n) = Some v" ..
  have child: "\<exists>w. table_get (ct_types t) c = Some w"
    if "table_get (ct_types t) i = Some u" "c \<in> set (shape_children (tv_shape u))" for i u c
    using closed that unfolding handles_closed_def by blast
  obtain i w where w: "table_get (ct_types t) i = Some w" and eq: "(case tv_shape v of
       TPtr p \<Rightarrow> if ptr then table_get (ct_types t) p else Some v | _ \<Rightarrow> Some v) = Some w"
  proof (cases "\<exists>p. tv_shape v = TPtr p \<and> ptr")
    case True
    then obtain p where p: "tv_shape v = TPtr p" "ptr" by blast
    with child [OF v, of p] that show ?thesis by auto
  next
    case False
    with v that [of "ex_ty n" v] show ?thesis by (cases "tv_shape v") auto
  qed
  let ?find = "\<lambda>ms. List.find (\<lambda>m. tm_bit_offset m = ucast off * 8) ms"
  have tag: "\<exists>s. type_tag_name (ct_types t) (tm_ty m) = Some s"
    if "shape_members (tv_shape w) = Some ms" "?find ms = Some m" for ms m
  proof -
    from that(2) have "m \<in> set ms" by (auto simp: find_Some_iff)
    with that(1) have "tm_ty m \<in> set (shape_children (tv_shape w))"
      by (cases "tv_shape w") (auto simp: shape_members_def)
    with child [OF w] type_tag_returns show ?thesis by blast
  qed
  show ?thesis
  proof (cases "shape_members (tv_shape w)")
    case (Some ms)
    with tag v e eq show ?thesis by (cases "?find ms") (auto simp: field_name_def)
  qed (use v e eq in \<open>simp add: field_name_def\<close>)
qed

lemma returns_choice:
  assumes "\<And>c. c \<in> A \<Longrightarrow> returns (f c)"
  obtains F where "\<And>c p. c \<in> A \<Longrightarrow> f c p = Some (F c p)"
proof
  fix c p assume "c \<in> A"
  with assms have "f c p \<noteq> None" unfolding returns_def by blast
  then show "f c p = Some ((\<lambda>c p. the (f c p)) c p)" by simp
qed

lemma expression_inner_returns:
  assumes ty: "typed_tree t" and tf: "table_len (ct_types t) \<le> tf"
    and e: "arena_get (ns_expressions t) e = Some n"
    and kids: "\<And>c m. NExpression c \<in> set (expression_children (ex_kind n)) \<Longrightarrow> returns (expr c m)"
    and stored: "\<And>c. NExpression c \<in> set (expression_children (ex_kind n)) \<Longrightarrow>
      \<exists>k. arena_get (ns_expressions t) c = Some k"
  shows "expression_inner fm tf t expr e p \<noteq> None"
proof -
  let ?A = "{(c, m). NExpression c \<in> set (expression_children (ex_kind n))}"
  have R: "returns (case_prod expr cm)" if "cm \<in> ?A" for cm using kids that by (cases cm) auto
  obtain F where F': "\<And>cm p. cm \<in> ?A \<Longrightarrow> case_prod expr cm p = Some (F cm p)"
    using returns_choice [of ?A "case_prod expr", OF R] by blast
  have F: "expr c m q = Some (F (c, m) q)" if "NExpression c \<in> set (expression_children (ex_kind n))" for c m q
    using F' [of "(c, m)" q] that by simp
  obtain s where ts: "print_type tf (ct_types t) (ex_ty n) = Some s" using typed_treeD(2) [OF ty e tf] ..
  have args: "print_args (\<lambda>a. expr a m) i as q \<noteq> None" if "ex_kind n = ECall x as" for x as m i q
    by (rule print_args_returns) (use kids that in auto)
  have field: "\<exists>s. field_name t c off ptr = Some s"
    if "NExpression c \<in> set (expression_children (ex_kind n))" for c off ptr
    using stored [OF that] field_name_returns [OF ty] by blast
  show ?thesis
  proof (cases "ex_kind n")
    case (ECall x as)
    then have "expr x PREC_POSTFIX p = Some (F (x, PREC_POSTFIX) p)" by (intro F) simp
    with e ECall args [OF ECall] show ?thesis by (simp add: expression_inner_def)
  next
    case (EMemberRef x off)
    with field [of x off False] obtain f where "field_name t x off False = Some f" by auto
    moreover have "expr x PREC_POSTFIX p = Some (F (x, PREC_POSTFIX) p)" using EMemberRef by (intro F) simp
    ultimately show ?thesis using e EMemberRef by (simp add: expression_inner_def)
  next
    case (EMemberPtr x off)
    with field [of x off True] obtain f where "field_name t x off True = Some f" by auto
    moreover have "expr x PREC_POSTFIX p = Some (F (x, PREC_POSTFIX) p)" using EMemberPtr by (intro F) simp
    ultimately show ?thesis using e EMemberPtr by (simp add: expression_inner_def)
  qed (use F e ts in \<open>simp_all add: expression_inner_def\<close>)
qed

lemma stored_iff:
  "(\<exists>ks. for_each_child t (NExpression e) = Some ks) \<longleftrightarrow> (\<exists>n. arena_get (ns_expressions t) e = Some n)"
  "(\<exists>ks. for_each_child t (NStatement s) = Some ks) \<longleftrightarrow> (\<exists>n. arena_get (ns_statements t) s = Some n)"
  by (simp_all add: for_each_child_def)

lemma expression_returns:
  assumes wl: "well_linked t root rk" and ty: "typed_tree t" and tf: "table_len (ct_types t) \<le> tf"
  shows "arena_get (ns_expressions t) e = Some n \<Longrightarrow> rk (NExpression e) < fuel \<Longrightarrow>
    returns (expression fuel fm tf t e m)"
proof (induction fuel arbitrary: e n m)
  case (Suc fuel)
  have kids: "(\<exists>k. arena_get (ns_expressions t) c = Some k) \<and> rk (NExpression c) < fuel"
    if "NExpression c \<in> set (expression_children (ex_kind n))" for c
  proof -
    have "for_each_child t (NExpression e) = Some (expression_children (ex_kind n))"
      using Suc.prems(1) by (simp add: for_each_child_def)
    from kid_below [OF wl this that] Suc.prems(2) show ?thesis by (simp add: stored_iff)
  qed
  have "expression_inner fm tf t (expression fuel fm tf t) e q \<noteq> None" for q
    by (rule expression_inner_returns [OF ty tf Suc.prems(1)]) (use kids Suc.IH in blast)+
  then show ?case
    unfolding returns_def by (simp add: kind_of_def Suc.prems Let_def)
qed simp

lemma print_case_returns: "returns (stmt (case_body c)) \<Longrightarrow> returns (print_case stmt c)"
  by (simp add: returns_def print_case_def)

lemma statement_inner_returns:
  assumes ex: "\<And>c. NExpression c \<in> set (statement_children k) \<Longrightarrow> returns (expr c)"
    and st: "\<And>c. NStatement c \<in> set (statement_children k) \<Longrightarrow> returns (stmt c)"
  shows "returns (statement_inner expr stmt k)"
proof -
  obtain F where F: "\<And>c q. NExpression c \<in> set (statement_children k) \<Longrightarrow> expr c q = Some (F c q)"
    using returns_choice [of "{c. NExpression c \<in> set (statement_children k)}" expr] ex by auto
  obtain G where G: "\<And>c q. NStatement c \<in> set (statement_children k) \<Longrightarrow> stmt c q = Some (G c q)"
    using returns_choice [of "{c. NStatement c \<in> set (statement_children k)}" stmt] st by auto
  have each: "print_each f xs q \<noteq> None" if "\<And>x. x \<in> set xs \<Longrightarrow> returns (f x)" for f xs and q
    using that by (rule print_each_returns)
  show ?thesis
    unfolding returns_def
  proof
    fix p
    show "statement_inner expr stmt k p \<noteq> None"
    proof (cases k)
      case (KBlock ss)
      have "print_each stmt ss q \<noteq> None" for q by (rule print_each_returns) (use st KBlock in simp)
      then show ?thesis by (simp add: statement_inner_def KBlock print_indented_def)
    next
      case (KSwitch e cases)
      have "print_each (print_case stmt) cases q \<noteq> None" for q
        by (rule print_each_returns, rule print_case_returns) (use st KSwitch in auto)
      moreover have "expr e q = Some (F e q)" for q using KSwitch by (intro F) simp
      ultimately show ?thesis by (simp add: statement_inner_def KSwitch)
    next
      case (KTry body catches)
      have "print_each (\<lambda>c q. stmt c (line ''catch'' q)) catches q \<noteq> None" for q
        by (rule print_each_returns) (use st KTry in \<open>simp add: returns_def\<close>)
      moreover have "stmt body q = Some (G body q)" for q using KTry by (intro G) simp
      ultimately show ?thesis by (simp add: statement_inner_def KTry)
    next
      case (KFor init cond step body)
      have R: "returns (print_opt expr e)" if "e \<in> {init, cond, step}" for e
        using that F KFor by (cases e) (auto simp: returns_def print_opt_def opt_list_def)
      obtain p1 where p1: "print_opt expr init (push_str ''for ( '' (push_indent p)) = Some p1"
        by (rule returnsE [OF R [of init]]) auto
      obtain p2 where p2: "print_opt expr cond (push_str ''; '' p1) = Some p2"
        by (rule returnsE [OF R [of cond]]) auto
      obtain p3 where p3: "print_opt expr step (push_str ''; '' p2) = Some p3"
        by (rule returnsE [OF R [of step]]) auto
      have "stmt body q = Some (G body q)" for q using KFor by (intro G) simp
      with p1 p2 p3 show ?thesis by (simp add: statement_inner_def KFor)
    next
      case (KReturn e)
      with F show ?thesis
        by (cases e) (simp_all add: statement_inner_def print_keyword_def opt_list_def Let_def)
    next
      case (KThrow e)
      with F show ?thesis
        by (cases e) (simp_all add: statement_inner_def print_keyword_def opt_list_def Let_def)
    qed (use F G in \<open>simp_all add: statement_inner_def opt_list_def split: option.splits\<close>)
  qed
qed

lemma statement_returns:
  assumes wl: "well_linked t root rk" and ty: "typed_tree t" and tf: "table_len (ct_types t) \<le> tf"
  shows "arena_get (ns_statements t) s = Some n \<Longrightarrow> rk (NStatement s) < fuel \<Longrightarrow>
    returns (statement fuel fm tf t s)"
proof (induction fuel arbitrary: s n)
  case (Suc fuel)
  have child: "for_each_child t (NStatement s) = Some (statement_children (st_kind n))"
    using Suc.prems(1) by (simp add: for_each_child_def)
  have below: "for_each_child t c \<noteq> None \<and> rk c < fuel" if "c \<in> set (statement_children (st_kind n))" for c
    using kid_below [OF wl child that] Suc.prems(2) by simp
  have "returns (statement_inner (\<lambda>e. expression fuel fm tf t e PREC_ANY) (statement fuel fm tf t) (st_kind n))"
  proof (rule statement_inner_returns)
    fix c assume "NExpression c \<in> set (statement_children (st_kind n))"
    with below obtain k where "arena_get (ns_expressions t) c = Some k" "rk (NExpression c) < fuel"
      using stored_iff(1) by blast
    then show "returns (expression fuel fm tf t c PREC_ANY)" by (rule expression_returns [OF wl ty tf])
  next
    fix c assume "NStatement c \<in> set (statement_children (st_kind n))"
    with below obtain k where "arena_get (ns_statements t) c = Some k" "rk (NStatement c) < fuel"
      using stored_iff(2) by blast
    then show "returns (statement fuel fm tf t c)" by (rule Suc.IH)
  qed
  then show ?case by (simp add: returns_def Suc.prems)
qed simp

lemma printer_returns:
  assumes "well_linked t (ct_root t) rk" and "typed_tree t"
    and "rk (NStatement (ct_root t)) < fuel" and "table_len (ct_types t) \<le> tf"
  shows "\<exists>s. to_pseudocode fuel fm tf t = Some s"
proof -
  have "store_ok t" using assms(1) by (simp add: well_linked_def)
  moreover have "NStatement (ct_root t) \<in> set (node_list t)" using well_linked_set(1) [OF assms(1)] by blast
  ultimately obtain n where n: "arena_get (ns_statements t) (ct_root t) = Some n"
    using stored_iff(2) by (auto simp: node_list_iff)
  from statement_returns [OF assms(1,2,4) n assms(3)] show ?thesis
    unfolding returns_def to_pseudocode_def by blast
qed

text \<open>
  The printer returns on every tree whose nodes are each linked once below the root and whose
  types resolve: no handle is foreign, and the nesting is bounded by the rank of the root.
\<close>

theorem pseudocode_returns:
  assumes "well_linked t (ct_root t) rk" and "typed_tree t"
    and "rk (NStatement (ct_root t)) < fuel" and "table_len (ct_types t) \<le> tf"
  shows "\<exists>s. to_pseudocode fuel fm tf t = Some s"
  by (rule printer_returns [OF assms])

subsection \<open>Statements print whole lines\<close>

text \<open>One state extends another by a text, and by a text that ends its line.\<close>

definition extends :: "printer \<Rightarrow> printer \<Rightarrow> bool" where
  "extends p p' \<longleftrightarrow> (\<exists>s. p' = push_str s p)"

definition lined :: "printer \<Rightarrow> printer \<Rightarrow> bool" where
  "lined p p' \<longleftrightarrow> (\<exists>s. p' = push_str (s @ newline) p)"

named_theorems line_rules \<open>how the printing operations extend the output\<close>

lemma extends_refl [line_rules]: "extends p p"
  unfolding extends_def by (rule exI [of _ "[]"]) simp

lemma extends_push [line_rules]: "extends p q \<Longrightarrow> extends p (push_str s q)"
  unfolding extends_def by auto

lemma extends_indent [line_rules]: "extends p q \<Longrightarrow> extends p (push_indent q)"
  unfolding push_indent_def by (rule extends_push)

lemma lined_line [line_rules]: "extends p q \<Longrightarrow> lined p (line s q)"
  unfolding extends_def lined_def line_def push_indent_def by (metis append.assoc push_str_push_str)

lemma lined_push: "extends p q \<Longrightarrow> lined p (push_str (s @ newline) q)"
  unfolding extends_def lined_def by (metis append.assoc push_str_push_str)

lemma lined_extends [line_rules]: "lined p q \<Longrightarrow> extends p q"
  unfolding extends_def lined_def by auto

lemma lined_trans: "extends p q \<Longrightarrow> lined q r \<Longrightarrow> lined p r"
  unfolding extends_def lined_def by (metis append.assoc push_str_push_str)

lemma extends_trans: "extends p q \<Longrightarrow> extends q r \<Longrightarrow> extends p r"
  unfolding extends_def by auto

lemma print_each_lined:
  assumes "\<And>x q q'. x \<in> set xs \<Longrightarrow> f x q = Some q' \<Longrightarrow> lined q q'"
  shows "print_each f xs p = Some p' \<Longrightarrow> p' = p \<or> lined p p'"
  using assms
proof (induction xs arbitrary: p)
  case (Cons x xs)
  then obtain q where q: "f x p = Some q" "print_each f xs q = Some p'" by auto
  have "lined p q" by (rule Cons.prems(2) [OF _ q(1)]) simp
  moreover have "p' = q \<or> lined q p'" by (rule Cons.IH [OF q(2)]) (rule Cons.prems(2); simp)
  ultimately show ?case using lined_trans [OF lined_extends] by blast
qed simp

lemma print_opt_extends:
  "(\<And>x q q'. expr x q = Some q' \<Longrightarrow> extends q q') \<Longrightarrow> print_opt expr e p = Some p' \<Longrightarrow> extends p p'"
  by (cases e) (auto simp: print_opt_def intro: extends_refl)

lemma push_str_reindent: "(push_str s p)\<lparr>pr_indent := n\<rparr> = push_str s (p\<lparr>pr_indent := n\<rparr>)"
  by (simp add: push_str_def)

lemma print_indented_extends:
  assumes "\<And>x q q'. stmt x q = Some q' \<Longrightarrow> lined q q'" and "print_indented stmt ss p = Some p'"
  shows "extends p p'"
proof -
  from assms(2) obtain q where q: "print_each stmt ss (p\<lparr>pr_indent := pr_indent p + 1\<rparr>) = Some q"
    "p' = q\<lparr>pr_indent := pr_indent q - 1\<rparr>" by (auto simp: print_indented_def)
  have "q = p\<lparr>pr_indent := pr_indent p + 1\<rparr> \<or> lined (p\<lparr>pr_indent := pr_indent p + 1\<rparr>) q"
    by (rule print_each_lined [OF _ q(1)]) (rule assms(1))
  then have "extends (p\<lparr>pr_indent := pr_indent p + 1\<rparr>) q"
    using extends_refl lined_extends by blast
  then obtain s where "q = push_str s (p\<lparr>pr_indent := pr_indent p + 1\<rparr>)" unfolding extends_def ..
  with q(2) have "p' = push_str s p" by (simp add: push_str_def)
  then show ?thesis unfolding extends_def ..
qed

lemma print_case_lined:
  assumes "\<And>x q q'. stmt x q = Some q' \<Longrightarrow> lined q q'" and "print_case stmt c p = Some p'"
  shows "lined p p'"
proof -
  have "extends p (fold (\<lambda>v q. push_str (''case '' @ show_nat (unat v) @ '':'' @ newline) (push_indent q)) vs q)"
    if "extends p q" for vs q
    using that by (induction vs arbitrary: q) (auto intro: extends_push extends_indent)
  then have "extends p (if case_values c = [] then line ''default:'' p
      else fold (\<lambda>v q. push_str (''case '' @ show_nat (unat v) @ '':'' @ newline) (push_indent q))
             (case_values c) p)"
    using extends_refl lined_extends lined_line by (auto split: if_split)
  with assms(1) [OF assms(2) [unfolded print_case_def]] show ?thesis by (rule lined_trans [rotated])
qed

lemma print_keyword_lined:
  assumes "\<And>x q q'. expr x q = Some q' \<Longrightarrow> extends q q'" and "print_keyword expr kw e p = Some p'"
  shows "lined p p'"
proof -
  from assms(2) obtain q where q: "p' = push_str ('';'' @ newline) q" and
    run: "(case e of None \<Rightarrow> Some (push_str kw (push_indent p))
      | Some x \<Rightarrow> expr x (push_str '' '' (push_str kw (push_indent p)))) = Some q"
    unfolding print_keyword_def Let_def by auto
  have kw: "extends p (push_str kw (push_indent p))" by (intro line_rules)
  have "extends p q"
  proof (cases e)
    case (Some x)
    with run have "expr x (push_str '' '' (push_str kw (push_indent p))) = Some q" by simp
    from extends_trans [OF extends_push [OF kw] assms(1) [OF this]] show ?thesis .
  qed (use run kw in auto)
  with lined_push show ?thesis unfolding q by blast
qed

lemma expression_extends: "expression fuel fm tf t e PREC_ANY p = Some p' \<Longrightarrow> extends p p'"
  using printsD [OF expression_prints, of fuel fm tf t e PREC_ANY p p'] unfolding extends_def by auto

lemma statement_inner_lined:
  assumes ex: "\<And>x q q'. expr x q = Some q' \<Longrightarrow> extends q q'"
    and st: "\<And>x q q'. stmt x q = Some q' \<Longrightarrow> lined q q'"
    and run: "statement_inner expr stmt k p = Some p'"
  shows "lined p p'"
proof -
  note run = run [unfolded statement_inner_def]
  have push: "extends p q \<Longrightarrow> expr x (push_str s q) = Some q' \<Longrightarrow> extends p q'" for p q q' x s
    by (rule extends_trans [OF extends_push ex])
  have head: "expr x (push_str s (push_indent p)) = Some q \<Longrightarrow> extends p q" for x s p q
    by (rule push [OF extends_indent [OF extends_refl]])
  have tail: "extends p q \<Longrightarrow> stmt x (push_str s q) = Some q' \<Longrightarrow> lined p q'" for p q q' x s
    by (rule lined_trans [OF extends_push st])
  have opt: "extends p q \<Longrightarrow> print_opt expr e (push_str s q) = Some q' \<Longrightarrow> extends p q'" for p q q' e s
    by (rule extends_trans [OF extends_push print_opt_extends [of expr, OF ex]])
  show ?thesis
  proof (cases k)
    case (KBlock ss)
    with run obtain q where q: "print_indented stmt ss (line ''{'' p) = Some q" "p' = line ''}'' q" by auto
    have "extends p q"
      by (rule extends_trans [OF lined_extends [OF lined_line [OF extends_refl]]
            print_indented_extends [OF st q(1)]])
    then show ?thesis unfolding q(2) by (rule lined_line)
  next
    case (KExpression e)
    with run obtain q where q: "expr e (push_indent p) = Some q" "p' = push_str ('';'' @ newline) q" by auto
    have "extends p q" by (rule extends_trans [OF extends_indent [OF extends_refl] ex [OF q(1)]])
    then show ?thesis unfolding q(2) by (rule lined_push)
  next
    case (KIf c a b)
    with run obtain q r where q: "expr c (push_str ''if ( '' (push_indent p)) = Some q"
      "stmt a (push_str ('' )'' @ newline) q) = Some r"
      "(case b of None \<Rightarrow> Some r | Some e \<Rightarrow> stmt e (line ''else'' r)) = Some p'" by auto
    have r: "lined p r" by (rule tail [OF head [OF q(1)] q(2)])
    show ?thesis
    proof (cases b)
      case (Some e)
      with q(3) have "stmt e (line ''else'' r) = Some p'" by simp
      from lined_trans [OF lined_extends [OF lined_line [OF lined_extends [OF r]]] st [OF this]]
      show ?thesis .
    qed (use r q(3) in simp)
  next
    case (KFor init cond step body)
    with run obtain p1 p2 p3 where q: "print_opt expr init (push_str ''for ( '' (push_indent p)) = Some p1"
      "print_opt expr cond (push_str ''; '' p1) = Some p2" "print_opt expr step (push_str ''; '' p2) = Some p3"
      "stmt body (push_str ('' )'' @ newline) p3) = Some p'" by auto
    show ?thesis
      by (rule tail [OF opt [OF opt [OF opt [OF extends_indent [OF extends_refl] q(1)] q(2)] q(3)] q(4)])
  next
    case (KWhile c body)
    with run obtain q where q: "expr c (push_str ''while ( '' (push_indent p)) = Some q"
      "stmt body (push_str ('' )'' @ newline) q) = Some p'" by auto
    show ?thesis by (rule tail [OF head [OF q(1)] q(2)])
  next
    case (KDo body c)
    with run obtain q r where q: "stmt body (line ''do'' p) = Some q"
      "expr c (push_str ''while ( '' (push_indent q)) = Some r" "p' = push_str ('' );'' @ newline) r" by auto
    have "extends p q"
      by (rule lined_extends [OF lined_trans [OF lined_extends [OF lined_line [OF extends_refl]] st [OF q(1)]]])
    from extends_trans [OF this head [OF q(2)]] show ?thesis unfolding q(3) by (rule lined_push)
  next
    case (KSwitch e cases)
    with run obtain q r where q: "expr e (push_str ''switch ( '' (push_indent p)) = Some q"
      "print_each (print_case stmt) cases (line ''{'' (push_str ('' )'' @ newline) q)) = Some r"
      "p' = line ''}'' r" by auto
    have "r = line ''{'' (push_str ('' )'' @ newline) q) \<or> lined (line ''{'' (push_str ('' )'' @ newline) q)) r"
      by (rule print_each_lined [OF _ q(2)]) (rule print_case_lined [OF st])
    then have "extends (line ''{'' (push_str ('' )'' @ newline) q)) r"
      using extends_refl lined_extends by blast
    from extends_trans [OF lined_extends [OF lined_line [OF extends_push [OF head [OF q(1)]]]] this]
    show ?thesis unfolding q(3) by (rule lined_line)
  next
    case (KTry body catches)
    with run obtain q where q: "stmt body (line ''try'' p) = Some q"
      "print_each (\<lambda>c q. stmt c (line ''catch'' q)) catches q = Some p'" by auto
    have l: "lined p q" by (rule lined_trans [OF lined_extends [OF lined_line [OF extends_refl]] st [OF q(1)]])
    have "lined q q'" if "stmt c (line ''catch'' q) = Some q'" for c q q'
      by (rule lined_trans [OF lined_extends [OF lined_line [OF extends_refl]] st [OF that]])
    then have "p' = q \<or> lined q p'" by (rule print_each_lined [OF _ q(2)])
    with l lined_trans [OF lined_extends [OF l]] show ?thesis by blast
  next
    case (KReturn e)
    with run print_keyword_lined [of expr, OF ex] show ?thesis by simp
  next
    case (KThrow e)
    with run print_keyword_lined [of expr, OF ex] show ?thesis by simp
  next
    case (KGoto label)
    have "lined p (push_str ((''goto LABEL_'' @ show_i32 label @ '';'') @ newline) (push_indent p))"
      by (rule lined_push [OF extends_indent [OF extends_refl]])
    with run KGoto show ?thesis by simp
  next
    case (KAsm eas)
    have "lined p (push_str ((''__asm { /* '' @ show_nat (length eas) @ '' insns */ }'') @ newline) (push_indent p))"
      by (rule lined_push [OF extends_indent [OF extends_refl]])
    with run KAsm show ?thesis by simp
  qed (use run lined_line [OF extends_refl] in auto)
qed

lemma statement_lined: "statement fuel fm tf t s p = Some p' \<Longrightarrow> lined p p'"
proof (induction fuel arbitrary: s p p')
  case (Suc fuel)
  from Suc.prems obtain n :: statement_node where "statement_inner (\<lambda>e. expression fuel fm tf t e PREC_ANY) (statement fuel fm tf t)
      (st_kind n) p = Some p'" by auto
  from statement_inner_lined [OF expression_extends Suc.IH this] show ?case .
qed simp

text \<open>
  A statement appends whole lines and leaves the indentation as it found it, whatever its
  nesting.
\<close>

theorem statement_prints_lines:
  assumes "statement fuel fm tf t s p = Some p'"
  shows "\<exists>text. p' = p\<lparr>pr_out := pr_out p @ text @ newline\<rparr>"
  using statement_lined [OF assms] by (simp add: lined_def push_str_def)

subsection \<open>Examples\<close>

declare expression.simps [simp del]

lemma digit_zero: "digit_char 0 = CHR ''0''"
  by code_simp

lemma unat_one_iff: "unat (i :: 'a :: len word) = Suc 0 \<longleftrightarrow> i = 1"
  by (metis One_nat_def unat_1 word_unat_eq_iff)

lemma untyped_load_types:
  "table_get (ct_types untyped_load) i = Some v \<longleftrightarrow>
     i = 0 \<and> v = \<lparr>tv_shape = TInt 8 False, tv_size = Some 8\<rparr> \<or>
     i = 1 \<and> v = \<lparr>tv_shape = TPtr 0, tv_size = Some 8\<rparr>"
proof -
  consider "i = 0" | "i = 1" | "unat i \<ge> 2"
    using unat_eq_zero [of i] unat_one_iff [of i] by linarith
  then show ?thesis by cases (auto simp: query_eval)
qed

lemma untyped_load_typed: "typed_tree untyped_load"
proof -
  have "table_get (ct_types untyped_load) 0 \<noteq> None"
    using untyped_load_types [of 0 "\<lparr>tv_shape = TInt 8 False, tv_size = Some 8\<rparr>"] by simp
  then have "handles_closed (ct_types untyped_load)" "spine_down (ct_types untyped_load)"
    unfolding handles_closed_def spine_down_def untyped_load_types by auto
  moreover have "list_all (\<lambda>n. unat (ex_ty n) < table_len (ct_types untyped_load))
      (arena_data (ns_expressions untyped_load))"
    by (simp add: query_eval table_len_def)
  ultimately show ?thesis by (simp add: typed_tree_def)
qed

lemma untyped_load_linked: "well_linked untyped_load 1 query_rank"
  by (simp add: well_linked_def store_ok_def query_eval upt_rec)

theorem pseudocode_returns_witness:
  "\<forall>fm. \<exists>s. to_pseudocode 7 fm 2 untyped_load = Some s"
  by (rule allI, rule pseudocode_returns [of _ query_rank])
    (use untyped_load_linked untyped_load_typed in \<open>simp_all add: query_eval table_len_def\<close>)

lemmas render_eval = expression_inner_def push_str_def push_indent_def line_def newline_def
  statement_inner_def print_indented_def local_name_def name_or_def tighter_def field_name_def
  shape_members_def show_hex_def show_nat_def digit_char_def


theorem statement_prints_lines_witness:
  "\<forall>fm. \<exists>p' text. statement 7 fm 2 untyped_load 1 \<lparr>pr_out = [], pr_indent = 0\<rparr> = Some p' \<and>
     pr_out p' = text @ newline \<and> pr_indent p' = 0"
proof
  fix fm
  let ?p = "\<lparr>pr_out = [], pr_indent = 0\<rparr>"
  obtain n :: statement_node where n: "arena_get (ns_statements untyped_load) 1 = Some n" by (simp add: query_eval)
  have "returns (statement 7 fm 2 untyped_load 1)"
    by (rule statement_returns [OF untyped_load_linked untyped_load_typed _ n])
      (simp_all add: query_eval table_len_def)
  then obtain p' where p': "statement 7 fm 2 untyped_load 1 ?p = Some p'" by (rule returnsE)
  from statement_prints_lines [OF p'] p' show "\<exists>p' text. statement 7 fm 2 untyped_load 1 \<lparr>pr_out = [], pr_indent = 0\<rparr> = Some p' \<and>
     pr_out p' = text @ newline \<and> pr_indent p' = 0" by auto
qed

lemma expression_unparen:
  "arena_get (ns_expressions t) e = Some n \<Longrightarrow> m \<le> kind_prec (ex_kind n) \<Longrightarrow>
   expression (Suc fuel) fm tf t e m p = expression_inner fm tf t (expression fuel fm tf t) e p"
  by (simp add: expression.simps kind_of_def Let_def)

text \<open>
  The text alone does not determine the tree: two nested negations print as a decrement.
\<close>

theorem nested_minus_ambiguous:
  "\<exists>t. kind_of t 1 = Some (EUnary OpNeg 0) \<and> kind_of t 2 = Some (EUnary OpNeg 1) \<and>
     kind_of t 3 = Some (EUnary PreDec 0) \<and>
     expression 3 fm tf t 2 PREC_ANY p = Some (push_str ''--v0'' p) \<and>
     expression 3 fm tf t 3 PREC_ANY p = Some (push_str ''--v0'' p)"
proof -
  define t where "t = query_tree [(EVar 0, 1), (EUnary OpNeg 0, 1), (EUnary OpNeg 1, 1), (EUnary PreDec 0, 1)] []"
  define nd where "nd k = \<lparr>ex_address = None, ex_ty = 1, ex_parent = None, ex_kind = k\<rparr>" for k
  have g: "arena_get (ns_expressions t) 0 = Some (nd (EVar 0))"
    "arena_get (ns_expressions t) 1 = Some (nd (EUnary OpNeg 0))"
    "arena_get (ns_expressions t) 2 = Some (nd (EUnary OpNeg 1))"
    "arena_get (ns_expressions t) 3 = Some (nd (EUnary PreDec 0))"
    by (simp_all add: t_def nd_def query_tree_def arena_defs)
  have k: "ex_kind (nd k) = k" for k by (simp add: nd_def)
  have name: "local_name t 0 = ''v0''"
    by (simp add: local_name_def t_def query_tree_def show_nat_def show_base.simps digit_zero)
  have v: "expression (Suc f) fm tf t 0 m q = Some (push_str ''v0'' q)" if "m \<le> PREC_PRIMARY" for f m q
    using that by (simp add: expression_unparen [OF g(1)] k expression_inner_def g name)
  have pre: "expression (Suc (Suc f)) fm tf t 3 m q = Some (push_str ''--v0'' q)" if "m \<le> PREC_UNARY" for f m q
    using that by (simp add: expression_unparen [OF g(4)] k expression_inner_def g v)
  have neg: "expression (Suc (Suc f)) fm tf t 1 m q = Some (push_str ''-v0'' q)" if "m \<le> PREC_UNARY" for f m q
    using that by (simp add: expression_unparen [OF g(2)] k expression_inner_def g v)
  have "expression (Suc (Suc (Suc 0))) fm tf t 2 PREC_ANY p = Some (push_str ''--v0'' p)"
    by (simp add: expression_unparen [OF g(3)] k expression_inner_def g neg)
  with pre [of PREC_ANY "Suc 0" p] g k show ?thesis
    by (intro exI [of _ t]) (simp add: numeral_3_eq_3 kind_of_def)
qed

end
