(* ===== verification/Ctree_Decompile.thy ===== *)
theory Ctree_Decompile
  imports Ctree_Extract Ctree_Render
begin

text \<open>
  The composition of the ctree's parts, as \<open>decompile\<close> and \<open>to_pseudocode\<close> compose them: the facade
  streams types and nodes into one builder, \<open>finish\<close> links and freezes it, and the printer runs on
  what comes out. The contract of the facade is the one of \<open>Type_Builder\<close> on the types it streams,
  and that a node's type is one it was given a handle for.
\<close>

subsection \<open>What linking leaves alone\<close>

definition node_types :: "('z) node_store_scheme \<Rightarrow> type_id list" where
  "node_types t = map ex_ty (arena_data (ns_expressions t))"

definition same_nodes :: "('y) node_store_scheme \<Rightarrow> ('z) node_store_scheme \<Rightarrow> bool" where
  "same_nodes t t' \<longleftrightarrow> node_types t = node_types t' \<and>
     arena_len (ns_expressions t) = arena_len (ns_expressions t') \<and>
     arena_len (ns_statements t) = arena_len (ns_statements t')"

lemma same_nodes_refl [simp]: "same_nodes t t"
  by (simp add: same_nodes_def)

lemma same_nodes_trans [trans]: "same_nodes t u \<Longrightarrow> same_nodes u v \<Longrightarrow> same_nodes t v"
  by (simp add: same_nodes_def)

lemma map_update_same: "i < length xs \<Longrightarrow> map f xs = (map f xs)[i := f (xs ! i)]"
  by (metis list_update_id nth_map)

lemma set_parent_nodes: "set_parent node child b = Some b' \<Longrightarrow> same_nodes b b'"
proof (cases child)
  case (NExpression i)
  assume "set_parent node child b = Some b'"
  with NExpression have "unat i < length (arena_data (ns_expressions b))"
    "arena_data (ns_expressions b') =
      (arena_data (ns_expressions b))[unat i := (arena_data (ns_expressions b) ! unat i)\<lparr>ex_parent := Some node\<rparr>]"
    "ns_statements b' = ns_statements b"
    by (auto simp: set_parent_def arena_defs split: if_splits)
  with map_update_same [of "unat i" "arena_data (ns_expressions b)" ex_ty] show ?thesis
    by (simp add: same_nodes_def node_types_def arena_len_def map_update)
qed (auto simp: set_parent_def same_nodes_def node_types_def arena_defs split: if_splits)

lemma link_kids_nodes: "link_kids node kids stack b = Some (stack', b') \<Longrightarrow> same_nodes b b'"
proof (induction kids arbitrary: stack b)
  case (Cons c kids)
  then obtain b1 where b1: "set_parent node c b = Some b1" "link_kids node kids (stack @ [c]) b1 = Some (stack', b')"
    by auto
  from set_parent_nodes [OF b1(1)] Cons.IH [OF b1(2)] show ?case by (rule same_nodes_trans)
qed simp

lemma finish_loop_nodes: "finish_loop limit stack visited b = Some (n, b') \<Longrightarrow> same_nodes b b'"
proof (induction limit stack visited b arbitrary: n b' rule: finish_loop.induct)
  case (1 limit stack visited b)
  show ?case
  proof (cases "stack = []")
    case True
    with "1.prems" show ?thesis by (simp add: finish_loop.simps)
  next
    case False
    with "1.prems" obtain kids stack' b1 where step: "visited + 1 \<le> limit"
      "for_each_child b (last stack) = Some kids"
      "link_kids (last stack) kids (butlast stack) b = Some (stack', b1)"
      "finish_loop limit stack' (visited + 1) b1 = Some (n, b')"
      by (auto simp: finish_loop.simps [of limit stack] Let_def split: if_splits option.splits)
    from "1.IH" [OF False refl refl step(1-3) _ step(4)] link_kids_nodes [OF step(3)] show ?thesis
      by (auto intro: same_nodes_trans)
  qed
qed

lemma finish_nodes: "finish debug root b = Some t \<Longrightarrow> same_nodes b t"
  by (auto simp: finish_def same_nodes_def node_types_def dest!: finish_loop_nodes
      split: option.splits if_splits)

lemma well_linked_same:
  assumes "well_linked b root rk" and "same_nodes b t" and "for_each_child t = for_each_child b"
  shows "well_linked t root rk"
proof -
  have "node_list t = node_list b" "store_ok t = store_ok b" "kids_of t = kids_of b"
    using assms(2,3) by (simp_all add: node_list_def store_ok_def same_nodes_def kids_of_def fun_eq_iff)
  with assms(1) show ?thesis by (simp add: well_linked_def)
qed

subsection \<open>The types of the nodes\<close>

text \<open>The type handle an event hands over with the expression it builds.\<close>

fun event_type :: "event \<Rightarrow> type_id list" where
  "event_type (ENumEv _ _ ty) = [ty]"
| "event_type (EFnumEv _ _ ty) = [ty]"
| "event_type (EObjEv _ _ _ ty) = [ty]"
| "event_type (EVarEv _ _ ty) = [ty]"
| "event_type (EStrEv _ _ ty) = [ty]"
| "event_type (EHelperEv _ _ ty) = [ty]"
| "event_type (ECallEv _ _ _ ty) = [ty]"
| "event_type (EMemrefEv _ _ _ ty) = [ty]"
| "event_type (EMemptrEv _ _ _ ty) = [ty]"
| "event_type (EDerefEv _ _ _ ty) = [ty]"
| "event_type (EOpEv _ _ _ _ _ ty) = [ty]"
| "event_type _ = []"

fun event_typed :: "type_builder \<Rightarrow> event \<Rightarrow> bool" where
  "event_typed b (TypeEv op) = op_ok b op"
| "event_typed b ev = list_all (in_range b) (event_type ev)"

fun events_typed :: "event list \<Rightarrow> callback_builder \<Rightarrow> bool" where
  "events_typed [] cb = True"
| "events_typed (ev # evs) cb =
     (event_typed (cb_types (cb_b cb)) ev \<and>
      (case event_step ev cb of Some (r, cb1) \<Rightarrow> events_typed evs cb1 | None \<Rightarrow> False))"

text \<open>The invariant: the builder of types keeps its own, and every node's type is in its table.\<close>

definition cb_typed :: "callback_builder \<Rightarrow> bool" where
  "cb_typed cb \<longleftrightarrow> builder_inv (cb_types (cb_b cb)) \<and> spine_down (tb_table (cb_types (cb_b cb))) \<and>
     table_len (tb_table (cb_types (cb_b cb))) \<le> 2 ^ 32 \<and>
     list_all (in_range (cb_types (cb_b cb))) (node_types (cb_b cb))"

lemma cb_typed_new [simp]: "cb_typed callback_builder_new"
  by (simp add: cb_typed_def callback_builder_new_def ctree_builder_new_def spine_down_def node_types_def
      builder_eval table_len_def arena_defs builder_inv_new [unfolded builder_eval arena_defs])

lemma table_len_intern: "table_intern v t = Some (i, t') \<Longrightarrow> table_len t \<le> table_len t'"
  by (auto simp: table_intern_def table_len_def arena_len_alloc split: option.splits bind_splits prod.splits)

lemma table_len_placeholder: "table_alloc_placeholder t = Some (i, t') \<Longrightarrow> table_len t \<le> table_len t'"
  by (auto simp: table_alloc_placeholder_def table_len_def arena_len_alloc)

lemma sink_step_grows: "sink_step op b = Some (r, b') \<Longrightarrow> table_len (tb_table b) \<le> table_len (tb_table b')"
  by (cases op) (auto simp: builder_defs Let_def table_len_steps(3) split: if_splits option.splits
      dest: table_len_intern table_len_placeholder)

lemma push_expression_types:
  "push_expression ty kind ea b = Some (i, b') \<Longrightarrow> node_types b' = node_types b @ [ty] \<and> cb_types b' = cb_types b"
  by (auto simp: push_expression_def node_types_def arena_defs split: if_splits)

lemma push_statement_types:
  "push_statement kind ea b = Some (i, b') \<Longrightarrow> node_types b' = node_types b \<and> cb_types b' = cb_types b"
  by (auto simp: push_statement_def node_types_def arena_defs split: if_splits)

lemma emit_expression_typed:
  assumes "emit_expression ea ty kind cb = Some (i, cb')" and "cb_typed cb" and "in_range (cb_types (cb_b cb)) ty"
  shows "cb_typed cb'"
  using assms push_expression_types [of ty kind _ "cb_b cb" i]
  by (fastforce simp: emit_expression_def cb_typed_def)

lemma emit_statement_typed:
  assumes "emit_statement ea kind cb = Some (i, cb')" and "cb_typed cb"
  shows "cb_typed cb'"
  using assms push_statement_types [of kind _ "cb_b cb" i]
  by (fastforce simp: emit_statement_def cb_typed_def)

lemma cb_typed_same: "cb_b cb' = cb_b cb \<Longrightarrow> cb_typed cb' = cb_typed cb"
  by (simp add: cb_typed_def)

lemma event_step_typed:
  assumes ty: "cb_typed cb" and run: "event_step ev cb = Some (r, cb')"
    and ok: "event_typed (cb_types (cb_b cb)) ev"
  shows "cb_typed cb'"
proof -
  note es = emit_expression_typed [OF _ ty] and ss = emit_statement_typed [OF _ ty]
  show ?thesis
  proof (cases ev)
    case (EObjEv ea target name ty')
    have bad: "cb_typed (fail BadAddress cb)" using ty cb_typed_same [OF fail_b] by simp
    from EObjEv run ok show ?thesis
      by (auto simp: emit_obj_def with_id_def split: option.splits
          intro: es emit_expression_typed [OF _ bad])
  next
    case (EOpEv ea ctype x y z ty')
    obtain k cb1 where k: "classify ctype x y z cb = (k, cb1)" by (cases "classify ctype x y z cb")
    with classify_b [OF k] ty cb_typed_same [of cb1 cb] have "cb_typed cb1" by simp
    from emit_expression_typed [OF _ this] EOpEv run ok k classify_b [OF k] show ?thesis
      by (auto simp: emit_op_def with_id_def)
  next
    case (SAsmEv ea addrs)
    obtain out cb1 where k: "asm_addrs addrs cb = (out, cb1)" by (cases "asm_addrs addrs cb")
    with asm_addrs_b [OF k] ty cb_typed_same [of cb1 cb] have "cb_typed cb1" by simp
    from emit_statement_typed [OF _ this] SAsmEv run k show ?thesis
      by (auto simp: emit_asm_def with_id_def)
  next
    case (SSwitchEv ea e bodies counts vals)
    with run ss show ?thesis by (auto simp: emit_switch_def with_id_def)
  next
    case (LVarEv name ty' flags width comment atype reg1 reg2 sval pieces)
    with run obtain lv where "cb_b cb' = cb_b cb\<lparr>cb_locals := cb_locals (cb_b cb) @ [lv]\<rparr>"
      by (auto simp: emit_lvar_def push_local_def split: if_splits)
    with ty show ?thesis by (simp add: cb_typed_def node_types_def)
  next
    case (TypeEv op)
    with run obtain tb where tb: "sink_step op (cb_types (cb_b cb)) = Some (r, tb)"
      "cb_b cb' = cb_b cb\<lparr>cb_types := tb\<rparr>" by auto
    have "list_all (in_range tb) (node_types (cb_b cb))"
      using ty sink_step_grows [OF tb(1)] by (auto simp: cb_typed_def in_range_def list_all_iff)
    moreover have "op_ok (cb_types (cb_b cb)) op" using ok TypeEv by simp
    ultimately show ?thesis
      using ty sink_step_inv [OF _ _ tb(1)] sink_step_spine [OF _ _ tb(1)] sink_step_len [OF tb(1)]
      by (simp add: cb_typed_def node_types_def tb(2))
  qed (use run ok in \<open>auto simp: with_id_def intro: es ss\<close>)
qed

lemma run_events_typed:
  "cb_typed cb \<Longrightarrow> events_typed evs cb \<Longrightarrow> run_events evs cb = Some cb' \<Longrightarrow> cb_typed cb'"
proof (induction evs arbitrary: cb)
  case (Cons ev evs)
  then obtain r cb1 where "event_step ev cb = Some (r, cb1)" "run_events evs cb1 = Some cb'" by auto
  with Cons.IH [of cb1] Cons.prems event_step_typed [of cb ev r cb1] show ?case by simp
qed simp

subsection \<open>What was extracted prints\<close>

lemma each_linked_well:
  assumes "children_first b" and "each_linked_once b root"
  shows "well_linked b root node_rank"
proof -
  have "node_rank c < node_rank n" if "c \<in> set (kids_of b n)" for c n
    using assms(1) that by (cases "for_each_child b n") (auto simp: children_first_def kids_of_def)
  with assms show ?thesis
    by (simp add: well_linked_def each_linked_once_def children_first_def list_all_iff)
qed

text \<open>
  C3: whatever a facade that keeps its contract streams, if the extraction records no failure and
  every node but the root is linked once, the extracted tree prints: no panic in linking, freezing
  or printing, on a recursion depth the widths of the handles bound.
\<close>

theorem extracted_tree_prints:
  assumes "events_ok evs callback_builder_new" and "events_typed evs callback_builder_new"
    and "run_events evs callback_builder_new = Some cb"
    and "cb_error cb = None" and "tb_too_wide (cb_types (cb_b cb)) = None"
    and "builder_unfilled (cb_types (cb_b cb)) = 0" and "each_linked_once (cb_b cb) root"
    and "2 ^ 33 \<le> fuel" and "2 ^ 32 \<le> tf"
  shows "\<exists>t s. extract_ctree debug evs root = Some (Inr t) \<and> to_pseudocode fuel fm tf t = Some s"
proof -
  have first: "children_first (cb_b cb)" by (rule run_events_first [OF children_first_new assms(1,3)])
  note wl = each_linked_well [OF this assms(7)]
  have "\<forall>n p. ctree_parent (cb_b cb) n = Some p \<longrightarrow> p = None"
    using first by (simp add: children_first_def)
  from finish_links [OF wl this, of debug] obtain t where t: "finish debug root (cb_b cb) = Some t"
    "for_each_child t = for_each_child (cb_b cb)" "ct_types t = tb_table (cb_types (cb_b cb))" "ct_root t = root"
    by blast
  note same = finish_nodes [OF t(1)]
  have ty: "cb_typed cb" by (rule run_events_typed [OF cb_typed_new assms(2,3)])
  have "handles_closed (ct_types t)"
    using builder_invD(5) [of "cb_types (cb_b cb)"] ty
    by (auto simp: handles_closed_def t(3) cb_typed_def list_all_iff in_range_iff)
  moreover have "list_all (in_range (cb_types (cb_b cb))) (node_types t)"
    using ty same by (simp add: cb_typed_def same_nodes_def)
  ultimately have typed: "typed_tree t"
    using ty by (simp add: typed_tree_def t(3) cb_typed_def node_types_def list_all_iff in_range_def)
  have "unat root < 2 ^ 32" using unsigned_less [of root, where ?'a = nat] by simp
  then have "2 ^ 32 + unat root < (2 ^ 33 :: nat)" by simp
  from less_le_trans [OF this assms(8)] have rank: "node_rank (NStatement (ct_root t)) < fuel"
    by (simp add: t(4))
  have "table_len (ct_types t) \<le> tf" using ty assms(9) by (simp add: t(3) cb_typed_def)
  moreover have "well_linked t (ct_root t) node_rank" using well_linked_same [OF wl same t(2)] by (simp add: t(4))
  ultimately obtain s where "to_pseudocode fuel fm tf t = Some s" using printer_returns [of t node_rank fuel tf] typed rank by blast
  moreover have "extract_ctree debug evs root = Some (Inr t)"
    using assms t(1) by (simp add: extract_ctree_def callback_finish_def)
  ultimately show ?thesis by blast
qed

theorem extracted_tree_prints_witness:
  "\<forall>fm. \<exists>t s. extract_ctree True sample_events 1 = Some (Inr t) \<and>
     to_pseudocode (2 ^ 33) fm (2 ^ 32) t = Some s"
proof
  fix fm
  obtain cb where cb: "run_events sample_events callback_builder_new = Some cb" "cb_error cb = None"
    "tb_too_wide (cb_types (cb_b cb)) = None" "builder_unfilled (cb_types (cb_b cb)) = 0"
    "each_linked_once (cb_b cb) 1"
    by (simp add: sample_events_def event_eval each_linked_once_def upt_rec del: mset_map mset_upt)
  have ok: "events_ok sample_events callback_builder_new"
    "events_typed sample_events callback_builder_new"
    by (simp_all add: sample_events_def event_eval in_range_def table_len_def)
  show "\<exists>t s. extract_ctree True sample_events 1 = Some (Inr t) \<and>
     to_pseudocode (2 ^ 33) fm (2 ^ 32) t = Some s"
    by (rule extracted_tree_prints [OF ok cb]) simp_all
qed

end
