(* ===== verification/Runner_Protocol.thy ===== *)
theory Runner_Protocol
  imports Text
begin

text \<open>
  \<open>idakit-runner/src/protocol.rs\<close> and \<open>worker.rs\<close>, and the reading half of \<open>runner.rs\<close>: the
  requests and events the runner and its workers exchange, the reader that tells a control frame
  from what a case prints, the worker's loop, and the loop that collects one case's result.

  A stream is the bytes not read yet. What a case prints and how it ends is a parameter (the
  handler); the clock is one too. The channel between the draining thread and the runner is the list
  of what \<open>recv_timeout\<close> answers, one after the other.
\<close>

subsection \<open>Bytes and lines\<close>

abbreviation "LF \<equiv> CHR 0x0A"
abbreviation "CR \<equiv> CHR 0x0D"

fun take_line :: "string \<Rightarrow> string \<times> string" where
  "take_line [] = ([], [])"
| "take_line (c # cs) = (if c = LF then ([c], cs) else (case take_line cs of (l, r) \<Rightarrow> (c # l, r)))"

definition trim_eol :: "string \<Rightarrow> string" where
  "trim_eol s = rev (dropWhile (\<lambda>c. c = CR \<or> c = LF) (rev s))"

fun split_once :: "char \<Rightarrow> string \<Rightarrow> (string \<times> string) option" where
  "split_once d [] = None"
| "split_once d (c # cs) =
     (if c = d then Some ([], cs) else map_option (\<lambda>(a, b). (c # a, b)) (split_once d cs))"

fun splitn :: "nat \<Rightarrow> char \<Rightarrow> string \<Rightarrow> string list" where
  "splitn 0 d s = []"
| "splitn (Suc 0) d s = [s]"
| "splitn (Suc (Suc n)) d s =
     (case split_once d s of None \<Rightarrow> [s] | Some (a, b) \<Rightarrow> a # splitn (Suc n) d b)"

text \<open>\<open>parse::<u64>()\<close>: an optional plus sign and decimal digits, in range.\<close>

definition parse_u64 :: "string \<Rightarrow> u64 option" where
  "parse_u64 s =
     (let ds = (case s of c # cs \<Rightarrow> if c = CHR ''+'' then cs else s | [] \<Rightarrow> [])
      in if ds = [] then None
         else case traverse digit_value ds of
                None \<Rightarrow> None
              | Some vs \<Rightarrow> let n = foldl (\<lambda>acc v. 10 * acc + v) 0 vs
                          in if n < 2 ^ 64 then Some (of_nat n) else None)"

subsection \<open>Frames\<close>

definition CONTROL_PREFIX :: string where
  "CONTROL_PREFIX = [CHR 0x1E]"

datatype request = RunCase string | Quit

datatype status = Passed | Failed | Skipped

datatype proto_event = Start string | End status u64 string

datatype proto_line = Control proto_event | Output string

text \<open>
  The errors the readers meet, and the ones the runner makes of a silent or dead worker.
  \<open>CapacityOverflow\<close> is a panic of the reading thread: no buffer is longer than \<open>isize::MAX\<close>.
\<close>

datatype io_error =
    Malformed string
  | NotUtf8
  | ShortRead
  | CapacityOverflow
  | BrokenPipe
  | CaseTimedOut nat "string list"
  | WorkerExited string "string list"

fun as_str :: "status \<Rightarrow> string" where
  "as_str Passed = ''ok''"
| "as_str Failed = ''fail''"
| "as_str Skipped = ''skip''"

definition status_parse :: "string \<Rightarrow> status option" where
  "status_parse t =
     (if t = ''ok'' then Some Passed else if t = ''fail'' then Some Failed
      else if t = ''skip'' then Some Skipped else None)"

fun write_request :: "request \<Rightarrow> string" where
  "write_request (RunCase name) = ''RUN '' @ name @ [LF]"
| "write_request Quit = ''QUIT'' @ [LF]"

fun write_event :: "proto_event \<Rightarrow> string" where
  "write_event (Start name) = CONTROL_PREFIX @ ''START '' @ name @ [LF]"
| "write_event (End st millis message) =
     CONTROL_PREFIX @ ''END '' @ as_str st @ '' '' @ show_nat (unat millis) @ '' '' @
     show_nat (length message) @ [LF] @ message"

text \<open>\<open>BufRead::read_line\<close> into a string: the bytes are consumed whether or not they are text.\<close>

definition read_text :: "string \<Rightarrow> (io_error + string) \<times> string" where
  "read_text s = (case take_line s of (l, rest) \<Rightarrow> (if utf8_valid l then Inr l else Inl NotUtf8, rest))"

definition read_request :: "string \<Rightarrow> (io_error + request option) \<times> string" where
  "read_request s =
     (case read_text s of
        (Inl e, rest) \<Rightarrow> (Inl e, rest)
      | (Inr l, rest) \<Rightarrow>
          (if l = [] then (Inr None, rest)
           else let l = trim_eol l
                in (case split_once CHR '' '' l of
                      Some (a, name) \<Rightarrow>
                        if a = ''RUN'' then (Inr (Some (RunCase name)), rest)
                        else if l = ''QUIT'' then (Inr (Some Quit), rest) else (Inr None, rest)
                    | None \<Rightarrow> if l = ''QUIT'' then (Inr (Some Quit), rest) else (Inr None, rest))))"

definition parse_end :: "string \<Rightarrow> (status \<times> u64 \<times> u64) option" where
  "parse_end s =
     (case splitn 3 CHR '' '' s of
        [a, b, c] \<Rightarrow> do { st \<leftarrow> status_parse a; ms \<leftarrow> parse_u64 b; len \<leftarrow> parse_u64 c; Some (st, ms, len) }
      | _ \<Rightarrow> None)"

definition read_line :: "string \<Rightarrow> (io_error + proto_line option) \<times> string" where
  "read_line s =
     (case read_text s of
        (Inl e, rest) \<Rightarrow> (Inl e, rest)
      | (Inr l, rest) \<Rightarrow>
          (if l = [] then (Inr None, rest)
           else let trimmed = trim_eol l
                in case strip_prefix CONTROL_PREFIX trimmed of
                     None \<Rightarrow> (Inr (Some (Output trimmed)), rest)
                   | Some frame \<Rightarrow>
                       (case strip_prefix ''START '' frame of
                          Some name \<Rightarrow> (Inr (Some (Control (Start name))), rest)
                        | None \<Rightarrow>
                            (case strip_prefix ''END '' frame of
                               None \<Rightarrow> (Inl (Malformed frame), rest)
                             | Some r \<Rightarrow>
                                 (case parse_end r of
                                    None \<Rightarrow> (Inl (Malformed frame), rest)
                                  | Some (st, ms, len) \<Rightarrow>
                                      if 2 ^ 63 \<le> unat len then (Inl CapacityOverflow, rest)
                                      else if length rest < unat len then (Inl ShortRead, [])
                                      else (Inr (Some (Control (End st ms
                                              (from_utf8_lossy (take (unat len) rest))))),
                                            drop (unat len) rest))))))"

subsection \<open>Reading back text\<close>

lemma take_line_plain: "LF \<notin> set l \<Longrightarrow> take_line (l @ LF # rest) = (l @ [LF], rest)"
  by (induction l) auto

text \<open>What a line may carry and be read back: text without a line feed that no trimming shortens.\<close>

definition clean :: "string \<Rightarrow> bool" where
  "clean l \<longleftrightarrow> LF \<notin> set l \<and> utf8_valid l \<and> (l = [] \<or> last l \<noteq> CR)"

lemma trim_eol_clean:
  assumes "l = [] \<or> last l \<noteq> CR" and "LF \<notin> set l"
  shows "trim_eol (l @ [LF]) = l"
proof (cases l rule: rev_cases)
  case (snoc xs x)
  with assms show ?thesis by (auto simp: trim_eol_def)
qed (simp add: trim_eol_def)

lemma read_text_line: "clean l \<Longrightarrow> read_text (l @ LF # rest) = (Inr (l @ [LF]), rest)"
  using utf8_valid_append [of l "[LF]"]
  by (simp add: read_text_def take_line_plain clean_def utf8_valid_ascii)

lemma clean_trim: "clean l \<Longrightarrow> trim_eol (l @ [LF]) = l"
  by (rule trim_eol_clean) (simp_all add: clean_def)

lemma clean_prefix:
  assumes "clean l" and "list_all (\<lambda>c. byte c < 0x80 \<and> c \<noteq> LF \<and> c \<noteq> CR) p"
  shows "clean (p @ l)"
proof -
  have each: "byte c < 0x80 \<and> c \<noteq> LF \<and> c \<noteq> CR" if "c \<in> set p" for c
    using assms(2) that unfolding list_all_iff by blast
  then have "utf8_valid p" by (intro utf8_valid_all_ascii) (unfold list_all_iff, blast)
  moreover have "LF \<notin> set p" "p = [] \<or> last p \<noteq> CR" using each last_in_set by blast+
  ultimately show ?thesis using assms(1) unfolding clean_def
    by (auto simp: utf8_valid_append last_append)
qed

lemma split_once_piece: "d \<notin> set a \<Longrightarrow> split_once d (a @ d # b) = Some (a, b)"
  by (induction a) auto

lemma split_once_None: "split_once d s = None \<longleftrightarrow> d \<notin> set s"
  by (induction s) auto

subsection \<open>Numbers\<close>

lemma parse_show: "n < 2 ^ 64 \<Longrightarrow> parse_u64 (show_nat n) = Some (of_nat n)"
proof -
  assume n: "n < 2 ^ 64"
  obtain vs where vs: "traverse digit_value (show_nat n) = Some vs"
    "foldl (\<lambda>acc v. 10 * acc + v) 0 vs = n" "show_nat n \<noteq> []"
    using show_nat_digits [of n] by (auto simp: show_nat_def)
  obtain c cs where c: "show_nat n = c # cs" using vs(3) by (cases "show_nat n") auto
  with show_nat_plain [of c n] have "48 \<le> byte c" by simp
  moreover have "byte (CHR ''+'') = 43" by simp
  ultimately have "c \<noteq> CHR ''+''" by force
  with c have "(case show_nat n of c # cs \<Rightarrow> if c = CHR ''+'' then cs else show_nat n | [] \<Rightarrow> []) = show_nat n"
    by simp
  with vs n show ?thesis by (simp add: parse_u64_def Let_def)
qed

subsection \<open>Frames read back\<close>

lemma byte_neq: "byte a \<noteq> byte b \<Longrightarrow> a \<noteq> b"
  by auto

lemma show_nat_ascii: "list_all (\<lambda>c. byte c < 0x80 \<and> c \<noteq> LF \<and> c \<noteq> CR) (show_nat n)"
proof -
  have "byte c < 0x80 \<and> c \<noteq> LF \<and> c \<noteq> CR" if "c \<in> set (show_nat n)" for c
    using show_nat_plain [OF that] by (intro conjI notI) simp_all
  then show ?thesis unfolding list_all_iff by blast
qed

lemma show_nat_no_blank: "CHR '' '' \<notin> set (show_nat n)"
proof
  assume "CHR '' '' \<in> set (show_nat n)"
  from show_nat_plain [OF this] show False by simp
qed

lemma as_str_ascii: "list_all (\<lambda>c. byte c < 0x80 \<and> c \<noteq> LF \<and> c \<noteq> CR) (as_str st)"
  by (cases st) simp_all

lemma as_str_no_blank: "CHR '' '' \<notin> set (as_str st)"
  by (cases st) simp_all

lemma status_parse_str [simp]: "status_parse (as_str st) = Some st"
  by (cases st) (simp_all add: status_parse_def)

lemma splitn_three:
  "d \<notin> set a \<Longrightarrow> d \<notin> set b \<Longrightarrow> d \<notin> set c \<Longrightarrow> splitn 3 d (a @ d # b @ d # c) = [a, b, c]"
  by (simp add: numeral_3_eq_3 split_once_piece)

lemma parse_end_written:
  assumes "len < 2 ^ 64"
  shows "parse_end (as_str st @ CHR '' '' # show_nat (unat ms) @ CHR '' '' # show_nat len) =
    Some (st, ms, of_nat len)"
proof -
  have "unat ms < 2 ^ 64" using unat_less_u64 [of ms] by simp
  from parse_show [OF this] have "parse_u64 (show_nat (unat ms)) = Some ms" by simp
  then show ?thesis
    using splitn_three [OF as_str_no_blank show_nat_no_blank show_nat_no_blank, of st "unat ms" len]
      parse_show [OF assms] by (simp add: parse_end_def)
qed

text \<open>The header of an end frame: the line before its message.\<close>

definition end_header :: "status \<Rightarrow> u64 \<Rightarrow> nat \<Rightarrow> string" where
  "end_header st ms len = ''END '' @ as_str st @ CHR '' '' # show_nat (unat ms) @ CHR '' '' # show_nat len"

lemma write_end: "write_event (End st ms msg) = (CONTROL_PREFIX @ end_header st ms (length msg)) @ LF # msg"
  by (simp add: end_header_def)

lemma end_header_clean: "clean (CONTROL_PREFIX @ end_header st ms len)"
proof -
  let ?ok = "list_all (\<lambda>c. byte c < 0x80 \<and> c \<noteq> LF \<and> c \<noteq> CR)"
  have "?ok (CONTROL_PREFIX @ end_header st ms len)"
    using as_str_ascii [of st] show_nat_ascii by (simp add: end_header_def CONTROL_PREFIX_def)
  from clean_prefix [of "[]", OF _ this] show ?thesis by (simp add: clean_def)
qed

lemma read_line_end:
  assumes "utf8_valid msg" and "length msg < 2 ^ 63"
  shows "read_line (write_event (End st ms msg) @ rest) = (Inr (Some (Control (End st ms msg))), rest)"
proof -
  have strip: "strip_prefix ''START '' (end_header st ms n) = None" for n
    by (simp add: strip_prefix_def end_header_def)
  have "(2 :: nat) ^ 63 < 2 ^ 64" by (rule power_strict_increasing) simp_all
  with assms(2) have fit: "length msg < 2 ^ 64" by (rule less_trans)
  have len: "unat (of_nat (length msg) :: u64) = length msg"
    using fit by (simp add: unsigned_of_nat take_bit_nat_eq_self)
  have "strip_prefix ''END '' (end_header st ms (length msg)) =
      Some (as_str st @ CHR '' '' # show_nat (unat ms) @ CHR '' '' # show_nat (length msg))"
    unfolding end_header_def by (rule strip_prefix_append)
  then show ?thesis
    unfolding write_end read_line_def append_assoc append_Cons
    using read_text_line [OF end_header_clean, of st ms "length msg" "msg @ rest"]
      clean_trim [OF end_header_clean, of st ms "length msg"] parse_end_written [OF fit] strip assms len
    by (simp add: Let_def from_utf8_lossy_valid)
qed

lemma read_line_start:
  assumes "clean name"
  shows "read_line (write_event (Start name) @ rest) = (Inr (Some (Control (Start name))), rest)"
proof -
  have "clean (CONTROL_PREFIX @ ''START '' @ name)"
    using clean_prefix [OF assms, of "CONTROL_PREFIX @ ''START ''"] by (simp add: CONTROL_PREFIX_def)
  from read_text_line [OF this, of rest] clean_trim [OF this] show ?thesis
    unfolding write_event.simps append_assoc
    by (simp add: read_line_def Let_def strip_prefix_def)
qed

text \<open>A line a case prints: clean, and not opening with the mark of a frame.\<close>

definition output_line :: "string \<Rightarrow> bool" where
  "output_line l \<longleftrightarrow> clean l \<and> strip_prefix CONTROL_PREFIX l = None"

lemma read_line_output:
  "output_line l \<Longrightarrow> read_line (l @ LF # rest) = (Inr (Some (Output l)), rest)"
  by (simp add: output_line_def read_line_def read_text_line clean_trim Let_def)

text \<open>What an event can carry: a name that is one line, a message that is text and fits a buffer.\<close>

fun event_clean :: "proto_event \<Rightarrow> bool" where
  "event_clean (Start name) = clean name"
| "event_clean (End _ _ msg) = (utf8_valid msg \<and> length msg < 2 ^ 63)"

lemma read_written_event:
  "event_clean ev \<Longrightarrow> read_line (write_event ev @ rest) = (Inr (Some (Control ev)), rest)"
  by (cases ev) (simp_all only: event_clean.simps read_line_start read_line_end)

fun request_clean :: "request \<Rightarrow> bool" where
  "request_clean (RunCase name) = clean name"
| "request_clean Quit = True"

lemma read_written_request:
  assumes "request_clean rq"
  shows "read_request (write_request rq @ rest) = (Inr (Some rq), rest)"
proof (cases rq)
  case (RunCase name)
  with assms have "clean (''RUN '' @ name)" using clean_prefix [of name "''RUN ''"] by simp
  from read_text_line [OF this, of rest] clean_trim [OF this] split_once_piece [of "CHR '' ''" "''RUN''" name] RunCase
  show ?thesis by (simp add: read_request_def Let_def)
next
  case Quit
  have "clean ''QUIT''" using clean_prefix [of "[]" "''QUIT''"] by (simp add: clean_def)
  from read_text_line [OF this, of rest] clean_trim [OF this] Quit show ?thesis
    by (simp add: read_request_def Let_def)
qed

text \<open>What a line that was read holds, its end trimmed.\<close>

definition one_line :: "string \<Rightarrow> bool" where
  "one_line l \<longleftrightarrow> LF \<notin> set l \<and> (l = [] \<or> last l \<noteq> CR)"

lemma clean_one_line: "clean l \<longleftrightarrow> utf8_valid l \<and> one_line l"
  by (auto simp: clean_def one_line_def)

lemma take_line_LF: "take_line s = (l, r) \<Longrightarrow> LF \<notin> set (butlast l)"
  by (induction s arbitrary: l r) (auto split: if_splits prod.splits)

lemma trim_eol_end: "trim_eol s = [] \<or> (last (trim_eol s) \<noteq> CR \<and> last (trim_eol s) \<noteq> LF)"
proof (cases "dropWhile (\<lambda>c. c = CR \<or> c = LF) (rev s)")
  case (Cons c cs)
  with hd_dropWhile [of "\<lambda>c. c = CR \<or> c = LF" "rev s"] show ?thesis by (simp add: trim_eol_def)
qed (simp add: trim_eol_def)

lemma trim_eol_set: "set (trim_eol s) \<subseteq> set s"
  unfolding trim_eol_def by (metis set_dropWhileD set_rev subsetI)

lemma trim_eol_butlast:
  assumes "LF \<notin> set (butlast s)"
  shows "LF \<notin> set (trim_eol s)"
proof (cases s rule: rev_cases)
  case (snoc xs x)
  have "trim_eol (xs @ [x]) = (if x = CR \<or> x = LF then trim_eol xs else xs @ [x])"
    by (simp add: trim_eol_def)
  with snoc assms trim_eol_set [of xs] show ?thesis by auto
qed (simp add: trim_eol_def)

lemma trimmed_one_line:
  assumes "read_text s = (Inr l, rest)"
  shows "one_line (trim_eol l)"
proof -
  obtain t r where "take_line s = (t, r)" by (cases "take_line s")
  with assms have "take_line s = (l, r)" by (simp add: read_text_def split: if_splits)
  from trim_eol_butlast [OF take_line_LF [OF this]] trim_eol_end [of l] show ?thesis
    by (auto simp: one_line_def)
qed

lemma one_line_suffix: "one_line (p @ l) \<Longrightarrow> one_line l"
  by (auto simp: one_line_def split: if_splits)

lemma strip_prefix_Some: "strip_prefix p s = Some r \<Longrightarrow> s = p @ r"
  by (auto simp: strip_prefix_def split: if_splits) (metis append_take_drop_id)

lemma split_once_Some: "split_once d s = Some (a, b) \<Longrightarrow> s = a @ d # b"
  by (induction s arbitrary: a) (auto split: if_splits)

lemma read_start_one_line:
  assumes "read_line s = (Inr (Some (Control (Start name))), rest)"
  shows "one_line name"
proof -
  from assms obtain l r frame where l: "read_text s = (Inr l, r)"
    and "strip_prefix CONTROL_PREFIX (trim_eol l) = Some frame" "strip_prefix ''START '' frame = Some name"
    by (auto simp: read_line_def Let_def split: prod.splits sum.splits if_splits option.splits)
  then have "trim_eol l = (CONTROL_PREFIX @ ''START '') @ name" by (auto dest!: strip_prefix_Some)
  with trimmed_one_line [OF l] one_line_suffix show ?thesis by metis
qed

lemma read_run_one_line:
  assumes "read_request s = (Inr (Some (RunCase name)), rest)"
  shows "one_line name"
proof -
  from assms obtain l r a where l: "read_text s = (Inr l, r)" and "split_once CHR '' '' (trim_eol l) = Some (a, name)"
    by (auto simp: read_request_def Let_def split: prod.splits sum.splits if_splits option.splits)
  then have "trim_eol l = (a @ '' '') @ name" by (auto dest!: split_once_Some)
  with trimmed_one_line [OF l] one_line_suffix show ?thesis by metis
qed

text \<open>What every frame holds: its strings are text, and no message is longer than a buffer can be.\<close>

fun event_text :: "proto_event \<Rightarrow> bool" where
  "event_text (Start name) = utf8_valid name"
| "event_text (End _ _ msg) = (utf8_valid msg \<and> length msg < 2 ^ 63)"

fun request_text :: "request \<Rightarrow> bool" where
  "request_text (RunCase name) = utf8_valid name"
| "request_text Quit = True"

text \<open>
  C34: which frames read back as they were written, whatever follows them on the stream. An end frame
  always does, its message with line feeds and all, and so does the request to quit; a start frame and
  a request to run a case do exactly when the name of the case has no line feed and does not end in a
  carriage return. The strings are Rust strings: valid UTF-8, shorter than \<open>isize::MAX\<close>.
\<close>

theorem frames_roundtrip:
  assumes "event_text ev" and "request_text rq"
  shows "(read_line (write_event ev @ rest) = (Inr (Some (Control ev)), rest) \<longleftrightarrow>
      (case ev of Start name \<Rightarrow> one_line name | End _ _ _ \<Rightarrow> True)) \<and>
    (read_request (write_request rq @ rest) = (Inr (Some rq), rest) \<longleftrightarrow>
      (case rq of RunCase name \<Rightarrow> one_line name | Quit \<Rightarrow> True))"
proof
  show "read_line (write_event ev @ rest) = (Inr (Some (Control ev)), rest) \<longleftrightarrow>
      (case ev of Start name \<Rightarrow> one_line name | End _ _ _ \<Rightarrow> True)"
    using assms(1) read_written_event [of ev rest] read_start_one_line [of "write_event ev @ rest" _ rest]
    by (cases ev) (auto simp: clean_one_line simp del: write_event.simps)
  show "read_request (write_request rq @ rest) = (Inr (Some rq), rest) \<longleftrightarrow>
      (case rq of RunCase name \<Rightarrow> one_line name | Quit \<Rightarrow> True)"
    using assms(2) read_written_request [of rq rest] read_run_one_line [of "write_request rq @ rest" _ rest]
    by (cases rq) (auto simp: clean_one_line simp del: write_request.simps)
qed

theorem frames_roundtrip_witness:
  "read_line (write_event (End Failed 42 (''a'' @ [LF] @ ''b'')) @ ''next'') =
     (Inr (Some (Control (End Failed 42 (''a'' @ [LF] @ ''b'')))), ''next'') \<and>
   read_request (write_request (RunCase (''a'' @ [LF])) @ ''next'') \<noteq> (Inr (Some (RunCase (''a'' @ [LF]))), ''next'')"
proof -
  have "utf8_valid (''a'' @ [LF] @ ''b'')" by (rule utf8_valid_all_ascii) simp
  moreover have "utf8_valid (''a'' @ [LF])" by (rule utf8_valid_all_ascii) simp
  ultimately show ?thesis
    using frames_roundtrip [of "End Failed 42 (''a'' @ [LF] @ ''b'')" "RunCase (''a'' @ [LF])" "''next''"]
    by (simp add: one_line_def del: write_event.simps write_request.simps)
qed

subsection \<open>The worker\<close>

datatype payload = PayloadStr string | PayloadString string | PayloadOther

datatype outcome = OutPassed "string option" | OutSkipped string | OutFailed string

datatype 'v caught = Returned 'v | Panicked payload

definition outcome_from_string :: "string \<Rightarrow> outcome" where
  "outcome_from_string summary = OutPassed (Some summary)"


fun panic_message :: "payload \<Rightarrow> string" where
  "panic_message (PayloadStr s) = s"
| "panic_message (PayloadString s) = s"
| "panic_message PayloadOther = ''panicked''"

text \<open>\<open>str::contains\<close>.\<close>

fun contains :: "string \<Rightarrow> string \<Rightarrow> bool" where
  "contains [] p = (p = [])"
| "contains (c # s) p = (take (length p) (c # s) = p \<or> contains s p)"

text \<open>\<open>dbg\<close> is the standard library's escaped form of a string.\<close>

definition expecting_panic :: "(string \<Rightarrow> string) \<Rightarrow> string \<Rightarrow> unit caught \<Rightarrow> outcome" where
  "expecting_panic dbg expected body =
     (case body of
        Returned _ \<Rightarrow> OutFailed ''expected a panic, but the case returned''
      | Panicked payload \<Rightarrow>
          let message = panic_message payload
          in if expected = [] \<or> contains message expected then OutPassed None
             else OutFailed (''panicked with '' @ dbg message @ '', which does not contain '' @ dbg expected))"

text \<open>One run of a handler: what it prints on the shared stream, how it ends, how long it took.\<close>

record case_run =
  run_printed :: string
  run_caught :: "outcome caught"
  run_millis :: u64

fun run_verdict :: "outcome caught \<Rightarrow> status \<times> string" where
  "run_verdict (Returned (OutPassed summary)) = (Passed, case summary of Some s \<Rightarrow> s | None \<Rightarrow> [])"
| "run_verdict (Returned (OutSkipped reason)) = (Skipped, reason)"
| "run_verdict (Returned (OutFailed reason)) = (Failed, reason)"
| "run_verdict (Panicked p) = (Failed, panic_message p)"

definition run_one :: "string \<Rightarrow> case_run \<Rightarrow> string" where
  "run_one name run =
     (case run_verdict (run_caught run) of (st, message) \<Rightarrow>
        write_event (Start name) @ run_printed run @ write_event (End st (run_millis run) message))"

lemma take_line_length: "take_line s = (l, rest) \<Longrightarrow> length s = length l + length rest"
  by (induction s arbitrary: l) (auto split: if_splits prod.splits)

lemma take_line_shorter: "take_line s = (l, rest) \<Longrightarrow> l \<noteq> [] \<Longrightarrow> length rest < length s"
  using take_line_length [of s l rest] by simp




subsection \<open>The runner's side of a worker\<close>

text \<open>What one \<open>recv_timeout\<close> on the channel of a worker answers.\<close>

datatype received = Got "io_error + proto_line" | DeadlinePassed | Disconnected

lemma read_line_shorter:
  assumes "read_line s = (Inr (Some l), rest)"
  shows "length rest < length s"
proof -
  obtain t r where t: "take_line s = (t, r)" by (cases "take_line s")
  with assms have "t \<noteq> []" "length rest \<le> length r"
    by (auto simp: read_line_def read_text_def Let_def split: if_splits option.splits prod.splits)
  with take_line_shorter [OF t] show ?thesis by simp
qed

text \<open>\<open>drain\<close>: everything the reading thread sends; the channel then hangs up, at once when it panics.\<close>

function drain_lines :: "string \<Rightarrow> received list" where
  "drain_lines s =
     (case read_line s of
        (Inr (Some l), rest) \<Rightarrow> Got (Inr l) # drain_lines rest
      | (Inr None, rest) \<Rightarrow> [Disconnected]
      | (Inl e, rest) \<Rightarrow> if e = CapacityOverflow then [Disconnected] else [Got (Inl e), Disconnected])"
  by pat_completeness auto
termination
  by (relation "measure length") (auto dest!: sym [of "(Inr _, _)"] read_line_shorter)

declare drain_lines.simps [simp del]

record case_result =
  cr_name :: string
  cr_status :: status
  cr_millis :: u64
  cr_message :: string
  cr_output :: "string list"

text \<open>
  The loop of \<open>run_case\<close>: the result and what is left in the channel; \<open>None\<close> while it still waits.
  \<open>secs\<close> is the timeout it names in its error.
\<close>

fun run_case_loop ::
  "string \<Rightarrow> nat \<Rightarrow> string list \<Rightarrow> received list \<Rightarrow> ((io_error + case_result) \<times> received list) option" where
  "run_case_loop name secs output [] = None"
| "run_case_loop name secs output (DeadlinePassed # rs) = Some (Inl (CaseTimedOut secs output), rs)"
| "run_case_loop name secs output (Disconnected # rs) = Some (Inl (WorkerExited name output), rs)"
| "run_case_loop name secs output (Got (Inl e) # rs) = Some (Inl e, rs)"
| "run_case_loop name secs output (Got (Inr (Output t)) # rs) = run_case_loop name secs (output @ [t]) rs"
| "run_case_loop name secs output (Got (Inr (Control (Start _))) # rs) = run_case_loop name secs output rs"
| "run_case_loop name secs output (Got (Inr (Control (End st ms message))) # rs) =
     Some (Inr \<lparr>cr_name = name, cr_status = st, cr_millis = ms, cr_message = message, cr_output = output\<rparr>, rs)"

text \<open>\<open>run_case\<close>: a request that cannot be written is a dead worker.\<close>

definition run_case ::
  "bool \<Rightarrow> string \<Rightarrow> nat \<Rightarrow> received list \<Rightarrow> ((io_error + case_result) \<times> received list) option" where
  "run_case written name secs rs =
     (if written then run_case_loop name secs [] rs else Some (Inl BrokenPipe, rs))"

definition join_lines :: "string list \<Rightarrow> string" where
  "join_lines ls = (case ls of [] \<Rightarrow> [] | l # ls \<Rightarrow> l @ concat (map (\<lambda>x. LF # x) ls))"

fun io_error_text :: "(string \<Rightarrow> string) \<Rightarrow> io_error \<Rightarrow> string" where
  "io_error_text dbg (Malformed frame) = ''malformed worker frame: '' @ dbg frame"
| "io_error_text dbg NotUtf8 = ''stream did not contain valid UTF-8''"
| "io_error_text dbg CapacityOverflow = ''capacity overflow''"
| "io_error_text dbg ShortRead = ''failed to fill whole buffer''"
| "io_error_text dbg BrokenPipe = ''Broken pipe (os error 32)''"
| "io_error_text dbg (CaseTimedOut secs output) =
     ''case exceeded the '' @ show_nat secs @ ''s timeout and its worker was killed:'' @ LF # join_lines output"
| "io_error_text dbg (WorkerExited name output) =
     ''worker exited during '' @ name @ '':'' @ LF # join_lines output"

definition crashed :: "string \<Rightarrow> string \<Rightarrow> case_result" where
  "crashed name reason =
     \<lparr>cr_name = name, cr_status = Failed, cr_millis = 0, cr_message = reason, cr_output = []\<rparr>"

subsection \<open>A worker answers for its handler\<close>

definition unlines :: "string list \<Rightarrow> string" where
  "unlines ls = concat (map (\<lambda>l. l @ [LF]) ls)"






lemma drain_step: "read_line s = (Inr (Some l), rest) \<Longrightarrow> drain_lines s = Got (Inr l) # drain_lines rest"
  by (simp add: drain_lines.simps [of s])

lemma drain_event:
  "event_clean ev \<Longrightarrow> drain_lines (write_event ev @ rest) = Got (Inr (Control ev)) # drain_lines rest"
  by (rule drain_step [OF read_written_event])

lemma drain_output:
  "list_all output_line ls \<Longrightarrow>
   drain_lines (unlines ls @ rest) = map (\<lambda>l. Got (Inr (Output l))) ls @ drain_lines rest"
  by (induction ls) (simp_all add: unlines_def drain_step [OF read_line_output])

lemma run_case_output:
  "run_case_loop name secs acc (map (\<lambda>l. Got (Inr (Output l))) ls @ rs) =
   run_case_loop name secs (acc @ ls) rs"
  by (induction ls arbitrary: acc) simp_all




lemma utf8_sample: "utf8_valid ''hi''" "utf8_valid ''boom''" "utf8_valid ''a''" "utf8_valid ''b''"
  by (rule utf8_valid_all_ascii, simp)+


subsection \<open>A line left open\<close>

text \<open>
  A case that passes after printing a line it does not end is not seen to pass: its end frame
  reads as more of that line, so the runner collects no result and waits until the deadline, or until
  the worker goes, and reports a failure.
\<close>

theorem open_line_loses_end:
  assumes "clean name" and "list_all output_line ls" and "clean tail" and "tail \<noteq> []" and "hd tail \<noteq> CHR 0x1E"
    and "run_printed run = unlines ls @ tail" and "run_verdict (run_caught run) = (Passed, [])"
  shows "\<exists>rs out. drain_lines (run_one name run) = rs @ [Disconnected] \<and>
    run_case True name secs (rs @ [DeadlinePassed]) = Some (Inl (CaseTimedOut secs out), []) \<and>
    run_case True name secs (rs @ [Disconnected]) = Some (Inl (WorkerExited name out), [])"
proof -
  let ?glued = "tail @ CONTROL_PREFIX @ end_header Passed (run_millis run) 0"
  have "utf8_valid tail" "LF \<notin> set tail" using assms(3) by (simp_all add: clean_def)
  moreover have h: "clean (CONTROL_PREFIX @ end_header Passed (run_millis run) 0)" by (rule end_header_clean)
  ultimately have "clean ?glued"
    unfolding clean_def by (auto simp: utf8_valid_append last_append CONTROL_PREFIX_def)
  moreover have "strip_prefix CONTROL_PREFIX ?glued = None"
    using assms(4,5) by (cases tail) (simp_all add: strip_prefix_def CONTROL_PREFIX_def)
  ultimately have glued: "output_line ?glued" by (simp add: output_line_def)
  have "drain_lines (?glued @ LF # []) = Got (Inr (Output ?glued)) # drain_lines []"
    by (rule drain_step [OF read_line_output [OF glued]])
  moreover have "drain_lines [] = [Disconnected]"
    by (simp add: drain_lines.simps [of "[]"] read_line_def read_text_def)
  moreover have "run_one name run = write_event (Start name) @ unlines ls @ ?glued @ LF # []"
    using assms(6,7) write_end [of Passed "run_millis run" "[]"]
    by (simp add: run_one_def del: write_event.simps)
  ultimately have "drain_lines (run_one name run) =
      (Got (Inr (Control (Start name))) # map (\<lambda>l. Got (Inr (Output l))) (ls @ [?glued])) @ [Disconnected]"
    using drain_event [of "Start name"] assms(1) drain_output [OF assms(2)]
    by (simp del: write_event.simps)
  moreover have "run_case True name secs
      ((Got (Inr (Control (Start name))) # map (\<lambda>l. Got (Inr (Output l))) (ls @ [?glued])) @ [m]) =
    run_case_loop name secs (ls @ [?glued]) [m]" for m
    using run_case_output [of name secs "[]" "ls @ [?glued]" "[m]"] by (simp add: run_case_def)
  ultimately show ?thesis by fastforce
qed

theorem open_line_loses_end_witness:
  "\<exists>rs out. drain_lines (run_one ''a'' \<lparr>run_printed = unlines [] @ ''hi'', run_caught = Returned (OutPassed None),
       run_millis = 3\<rparr>) = rs @ [Disconnected] \<and>
     run_case True ''a'' 180 (rs @ [DeadlinePassed]) = Some (Inl (CaseTimedOut 180 out), []) \<and>
     run_case True ''a'' 180 (rs @ [Disconnected]) = Some (Inl (WorkerExited ''a'' out), [])"
  by (rule open_line_loses_end [where ls = "[]" and tail = "''hi''"]) (simp_all add: clean_def utf8_sample)

end
