(* ===== verification/Runner_Scheduler.thy ===== *)
theory Runner_Scheduler
  imports Runner_Protocol
begin

text \<open>
  \<open>idakit-runner/src/runner.rs\<close>: the scheduler that hands out pending cases, and the pool of worker
  threads that lease from it. The scheduler and the results are each behind a lock, so a run is an
  interleaving of the critical sections of the threads: a step relation on the shared state and the
  control points of the threads. What a worker process does in between is the channel of
  \<open>Runner_Protocol\<close>.
\<close>

subsection \<open>Cases and the scheduler\<close>

record runner_case =
  ca_name :: string
  ca_group :: "string option"

definition case_new :: "string \<Rightarrow> runner_case" where
  "case_new name = \<lparr>ca_name = name, ca_group = None\<rparr>"

definition case_group :: "string \<Rightarrow> runner_case \<Rightarrow> runner_case" where
  "case_group g c = c\<lparr>ca_group := Some g\<rparr>"

record scheduler =
  sc_pending :: "runner_case list"
  sc_workers :: "string \<Rightarrow> nat option"

text \<open>\<open>Vec::remove\<close>, which panics out of range.\<close>

definition vec_remove :: "nat \<Rightarrow> 'a list \<Rightarrow> ('a \<times> 'a list) option" where
  "vec_remove i xs = (if i < length xs then Some (xs ! i, take i xs @ drop (Suc i) xs) else None)"

fun index_of :: "('a \<Rightarrow> bool) \<Rightarrow> 'a list \<Rightarrow> nat option" where
  "index_of P [] = None"
| "index_of P (x # xs) = (if P x then Some 0 else map_option Suc (index_of P xs))"

text \<open>\<open>leave\<close>: decrementing a n of zero panics.\<close>

definition leave :: "string \<Rightarrow> scheduler \<Rightarrow> scheduler option" where
  "leave g sc =
     (case sc_workers sc g of
        None \<Rightarrow> Some sc
      | Some n \<Rightarrow>
          if n = 0 then None
          else Some (sc\<lparr>sc_workers :=
            (sc_workers sc)(g := if n - 1 = 0 then None else Some (n - 1))\<rparr>))"

definition pending_in :: "string \<Rightarrow> runner_case list \<Rightarrow> nat" where
  "pending_in g cs = length (filter (\<lambda>c. ca_group c = Some g) cs)"

text \<open>A case's score: the pending cases its open would serve, over the workers they would then have.\<close>

definition case_score :: "scheduler \<Rightarrow> runner_case \<Rightarrow> nat \<times> nat" where
  "case_score sc c =
     (case ca_group c of
        None \<Rightarrow> (1, 1)
      | Some g \<Rightarrow> (pending_in g (sc_pending sc), (case sc_workers sc g of Some n \<Rightarrow> n | None \<Rightarrow> 0) + 1))"

fun best_loop ::
  "scheduler \<Rightarrow> nat \<Rightarrow> runner_case list \<Rightarrow> (nat \<times> nat \<times> nat) option \<Rightarrow> (nat \<times> nat \<times> nat) option" where
  "best_loop sc i [] best = best"
| "best_loop sc i (c # cs) best =
     (case case_score sc c of
        (n, w) \<Rightarrow> best_loop sc (i + 1) cs
          (case best of
             None \<Rightarrow> Some (i, n, w)
           | Some (j, bn, bw) \<Rightarrow> if n * bw > bn * w then Some (i, n, w) else Some (j, bn, bw)))"

definition best_index :: "scheduler \<Rightarrow> nat option" where
  "best_index sc = map_option fst (best_loop sc 0 (sc_pending sc) None)"

definition take_fresh :: "scheduler \<Rightarrow> (runner_case option \<times> scheduler) option" where
  "take_fresh sc =
     (case best_index sc of
        None \<Rightarrow> Some (None, sc)
      | Some i \<Rightarrow>
          do { (c, rest) \<leftarrow> vec_remove i (sc_pending sc);
               let workers = (case ca_group c of
                   None \<Rightarrow> sc_workers sc
                 | Some g \<Rightarrow> (sc_workers sc)
                     (g \<mapsto> (case sc_workers sc g of Some n \<Rightarrow> n | None \<Rightarrow> 0) + 1));
               Some (Some c, sc\<lparr>sc_pending := rest, sc_workers := workers\<rparr>) })"

definition take_case :: "string option \<Rightarrow> scheduler \<Rightarrow> (runner_case option \<times> scheduler) option" where
  "take_case current sc =
     (case current of
        None \<Rightarrow> take_fresh sc
      | Some g \<Rightarrow>
          (case index_of (\<lambda>c. ca_group c = Some g) (sc_pending sc) of
             Some i \<Rightarrow>
               do { (c, rest) \<leftarrow> vec_remove i (sc_pending sc); Some (Some c, sc\<lparr>sc_pending := rest\<rparr>) }
           | None \<Rightarrow> do { sc1 \<leftarrow> leave g sc; take_fresh sc1 }))"

definition scheduler_drain :: "scheduler \<Rightarrow> runner_case list \<times> scheduler" where
  "scheduler_drain sc = (sc_pending sc, sc\<lparr>sc_pending := []\<rparr>)"

subsection \<open>Choosing a case\<close>

lemma index_of_Some:
  "index_of P xs = Some i \<longleftrightarrow> i < length xs \<and> P (xs ! i) \<and> (\<forall>j < i. \<not> P (xs ! j))"
proof (induction xs arbitrary: i)
  case (Cons x xs)
  then show ?case by (cases i) (auto simp: less_Suc_eq_0_disj)
qed simp

lemma index_of_None: "index_of P xs = None \<longleftrightarrow> (\<forall>x \<in> set xs. \<not> P x)"
  by (induction xs) auto

lemma vec_remove_mset:
  assumes "vec_remove i xs = Some (x, rest)"
  shows "mset xs = add_mset x (mset rest)"
proof -
  from assms have i: "i < length xs" "x = xs ! i" "rest = take i xs @ drop (Suc i) xs"
    by (auto simp: vec_remove_def split: if_splits)
  have "mset xs = mset (take i xs @ xs ! i # drop (Suc i) xs)" using id_take_nth_drop [OF i(1)] by simp
  with i show ?thesis by simp
qed

text \<open>The invariant of the loop: the best so far is the first of the best scores seen.\<close>

definition first_best :: "scheduler \<Rightarrow> runner_case list \<Rightarrow> nat \<times> nat \<times> nat \<Rightarrow> bool" where
  "first_best sc cs b \<longleftrightarrow>
     (case b of (i, n, w) \<Rightarrow>
        i < length cs \<and> case_score sc (cs ! i) = (n, w) \<and>
        (\<forall>j < length cs. fst (case_score sc (cs ! j)) * w \<le> n * snd (case_score sc (cs ! j)) \<and>
           (j < i \<longrightarrow> fst (case_score sc (cs ! j)) * w < n * snd (case_score sc (cs ! j)))))"

lemma ratio_trans:
  fixes n bn :: nat
  assumes "n * bw > bn * w" and "m * bw \<le> bn * v" and "0 < v" and "0 < bw"
  shows "m * w < n * v"
proof -
  have "(m * w) * bw \<le> (bn * w) * v" using mult_right_mono [OF assms(2), of w] by (simp add: mult_ac)
  also have "\<dots> < (n * v) * bw" using mult_strict_right_mono [OF assms(1,3)] by (simp add: mult_ac)
  finally show ?thesis using assms(4) by simp
qed

lemma case_score_pos: "0 < snd (case_score sc c)"
  by (simp add: case_score_def split: option.split)

lemma best_loop_first:
  "(\<And>b. best = Some b \<Longrightarrow> first_best sc seen b) \<Longrightarrow> (best = None \<longleftrightarrow> seen = []) \<Longrightarrow>
   (case best_loop sc (length seen) cs best of None \<Rightarrow> seen @ cs = [] | Some b \<Rightarrow> first_best sc (seen @ cs) b)"
proof (induction cs arbitrary: seen best)
  case Nil
  then show ?case by (cases best) auto
next
  case (Cons c cs)
  obtain n w where s: "case_score sc c = (n, w)" by (cases "case_score sc c")
  have w: "0 < w" using case_score_pos [of sc c] s by simp
  let ?next = "case best of None \<Rightarrow> Some (length seen, n, w)
    | Some (j, bn, bw) \<Rightarrow> if n * bw > bn * w then Some (length seen, n, w) else Some (j, bn, bw)"
  have "first_best sc (seen @ [c]) b" if b: "?next = Some b" for b
  proof (cases best)
    case None
    with b Cons.prems(2) s show ?thesis by (auto simp: first_best_def)
  next
    case (Some old)
    obtain j bn bw where old: "old = (j, bn, bw)" by (cases old)
    with Cons.prems(1) [OF Some] have f: "first_best sc seen (j, bn, bw)" by simp
    then have bw: "0 < bw" using case_score_pos [of sc "seen ! j"] by (auto simp: first_best_def)
    show ?thesis
    proof (cases "n * bw > bn * w")
      case True
      have "fst (case_score sc (seen ! k)) * w < n * snd (case_score sc (seen ! k))" if "k < length seen" for k
        by (rule ratio_trans [OF True _ case_score_pos bw]) (use f that in \<open>auto simp: first_best_def\<close>)
      with True b Some old s show ?thesis by (auto simp: first_best_def nth_append less_Suc_eq less_imp_le)
    next
      case False
      with f b Some old s show ?thesis
        by (auto simp: first_best_def nth_append less_Suc_eq not_less mult.commute)
    qed
  qed
  moreover have "?next \<noteq> None" by (auto split: option.splits)
  ultimately show ?case
    using Cons.IH [of ?next "seen @ [c]"] s by (simp cong: option.case_cong)
qed

lemma best_index_first:
  "case best_index sc of
     None \<Rightarrow> sc_pending sc = []
   | Some i \<Rightarrow> \<exists>n w. first_best sc (sc_pending sc) (i, n, w)"
  using best_loop_first [of None sc "[]" "sc_pending sc"]
  by (auto simp: best_index_def split: option.splits)

text \<open>
  The scheduler's choice: none exactly when nothing is pending, and otherwise the first of the
  pending cases whose score, pending cases over workers, no other case beats.
\<close>

theorem best_index_optimal:
  "case best_index sc of
     None \<Rightarrow> sc_pending sc = []
   | Some i \<Rightarrow>
       \<exists>n w. i < length (sc_pending sc) \<and> case_score sc (sc_pending sc ! i) = (n, w) \<and> 0 < w \<and>
         list_all (\<lambda>c. fst (case_score sc c) * w \<le> n * snd (case_score sc c)) (sc_pending sc) \<and>
         list_all (\<lambda>c. fst (case_score sc c) * w < n * snd (case_score sc c)) (take i (sc_pending sc))"
proof (cases "best_index sc")
  case (Some i)
  with best_index_first [of sc] obtain n w where f: "first_best sc (sc_pending sc) (i, n, w)" by auto
  then have "0 < w" using case_score_pos [of sc "sc_pending sc ! i"] by (simp add: first_best_def)
  with f Some show ?thesis by (auto simp: first_best_def list_all_length)
qed (use best_index_first [of sc] in simp)

text \<open>What a lease takes out of the queue.\<close>

lemma take_fresh_facts:
  shows "\<exists>r. take_fresh sc = Some r"
    and "take_fresh sc = Some (Some c, sc') \<Longrightarrow> mset (sc_pending sc) = add_mset c (mset (sc_pending sc')) \<and>
      sc_workers sc' = (case ca_group c of
          None \<Rightarrow> sc_workers sc
        | Some g \<Rightarrow> (sc_workers sc)(g \<mapsto> (case sc_workers sc g of Some n \<Rightarrow> n | None \<Rightarrow> 0) + 1))"
    and "take_fresh sc = Some (None, sc') \<Longrightarrow> sc_pending sc = [] \<and> sc' = sc"
proof -
  have in_range: "i < length (sc_pending sc)" if "best_index sc = Some i" for i
    using best_index_first [of sc] that by (auto simp: first_best_def)
  then show "\<exists>r. take_fresh sc = Some r"
    by (cases "best_index sc") (auto simp: take_fresh_def vec_remove_def)
  show "take_fresh sc = Some (Some c, sc') \<Longrightarrow> mset (sc_pending sc) = add_mset c (mset (sc_pending sc')) \<and>
      sc_workers sc' = (case ca_group c of
          None \<Rightarrow> sc_workers sc
        | Some g \<Rightarrow> (sc_workers sc)(g \<mapsto> (case sc_workers sc g of Some n \<Rightarrow> n | None \<Rightarrow> 0) + 1))"
    by (auto simp: take_fresh_def Let_def dest: vec_remove_mset split: option.splits)
  show "take_fresh sc = Some (None, sc') \<Longrightarrow> sc_pending sc = [] \<and> sc' = sc"
    using best_index_first [of sc] by (auto simp: take_fresh_def split: option.splits)
qed

lemma leave_pending: "leave g sc = Some sc' \<Longrightarrow> sc_pending sc' = sc_pending sc"
  by (auto simp: leave_def split: option.splits if_splits)

lemma take_case_mset:
  "take_case cur sc = Some (Some c, sc') \<Longrightarrow> mset (sc_pending sc) = add_mset c (mset (sc_pending sc'))"
  using take_fresh_facts(2) [of sc c sc']
  by (auto simp: take_case_def dest!: take_fresh_facts(2) leave_pending vec_remove_mset split: option.splits)

lemma take_case_none: "take_case cur sc = Some (None, sc') \<Longrightarrow> sc_pending sc = [] \<and> sc_pending sc' = []"
  by (auto simp: take_case_def dest!: take_fresh_facts(3) leave_pending split: option.splits)

lemma take_stays:
  assumes "c \<in> set (sc_pending sc)" and "ca_group c = Some g"
  shows "\<exists>c' sc' i. take_case (Some g) sc = Some (Some c', sc') \<and> ca_group c' = Some g \<and>
    sc_workers sc' = sc_workers sc \<and> i < length (sc_pending sc) \<and> c' = sc_pending sc ! i \<and>
    list_all (\<lambda>d. ca_group d \<noteq> Some g) (take i (sc_pending sc))"
proof -
  obtain i where i: "index_of (\<lambda>c. ca_group c = Some g) (sc_pending sc) = Some i"
    using assms by (cases "index_of (\<lambda>c. ca_group c = Some g) (sc_pending sc)") (auto simp: index_of_None)
  then have "i < length (sc_pending sc)" "ca_group (sc_pending sc ! i) = Some g"
    "\<forall>j < i. ca_group (sc_pending sc ! j) \<noteq> Some g" by (simp_all add: index_of_Some)
  with i show ?thesis by (auto simp: take_case_def vec_remove_def list_all_length intro!: exI [of _ i])
qed

text \<open>
  A worker never leaves a group that still has work: while a case of its group is pending it is
  leased the first of them, and the counts of workers stay.
\<close>

theorem take_stays_in_group:
  assumes "c \<in> set (sc_pending sc)" and "ca_group c = Some g"
  shows "\<exists>c' sc' i. take_case (Some g) sc = Some (Some c', sc') \<and> ca_group c' = Some g \<and>
    sc_workers sc' = sc_workers sc \<and> i < length (sc_pending sc) \<and> c' = sc_pending sc ! i \<and>
    list_all (\<lambda>d. ca_group d \<noteq> Some g) (take i (sc_pending sc))"
  by (rule take_stays [OF assms])

theorem take_stays_in_group_witness:
  "\<exists>c' sc'. take_case (Some ''a'') \<lparr>sc_pending = [case_group ''b'' (case_new ''b1''), case_group ''a'' (case_new ''a1'')],
       sc_workers = [''a'' \<mapsto> 1]\<rparr> = Some (Some c', sc') \<and> ca_name c' = ''a1''"
  using take_stays_in_group [of "case_group ''a'' (case_new ''a1'')"
      "\<lparr>sc_pending = [case_group ''b'' (case_new ''b1''), case_group ''a'' (case_new ''a1'')], sc_workers = [''a'' \<mapsto> 1]\<rparr>" "''a''"]
  by (auto simp: case_group_def case_new_def less_Suc_eq_0_disj)

subsection \<open>A run\<close>

text \<open>
  Where a worker thread stands: spawning its process (for the first time, or again after a crash),
  about to lease, inside a case, or past a failure to spawn, with the queue still to drain or to
  report. Each but a running one carries \<open>last_group\<close>, the group its claim is on.
\<close>

datatype thread =
    Spawning "string option"
  | Ready "string option"
  | Running runner_case
  | DrainingQueue "string option" string
  | Reporting "string option" "runner_case list" string
  | Finished "string option"

record run_state =
  rs_sched :: scheduler
  rs_threads :: "thread list"
  rs_results :: "case_result list"

definition set_workers :: "nat \<Rightarrow> nat" where
  "set_workers n = (if n = 0 then 1 else n)"

definition run_init :: "nat \<Rightarrow> runner_case list \<Rightarrow> run_state" where
  "run_init workers cases =
     \<lparr>rs_sched = \<lparr>sc_pending = cases, sc_workers = \<lambda>g. None\<rparr>,
      rs_threads = replicate (min workers (length cases)) (Spawning None), rs_results = []\<rparr>"

text \<open>
  One critical section of one thread: \<open>serve\<close> and \<open>drain_as_failed\<close>. A spawn may fail; a case ends
  as its worker's channel says.
\<close>

inductive runner_step :: "(string \<Rightarrow> string) \<Rightarrow> nat \<Rightarrow> run_state \<Rightarrow> run_state \<Rightarrow> bool" for dbg secs where
  spawned: "rs_threads s = ts @ Spawning g # us \<Longrightarrow>
    runner_step dbg secs s (s\<lparr>rs_threads := ts @ Ready g # us\<rparr>)"
| spawn_failed: "rs_threads s = ts @ Spawning g # us \<Longrightarrow>
    runner_step dbg secs s (s\<lparr>rs_threads := ts @ DrainingQueue g reason # us\<rparr>)"
| leased: "rs_threads s = ts @ Ready g # us \<Longrightarrow> take_case g (rs_sched s) = Some (Some c, sc) \<Longrightarrow>
    runner_step dbg secs s (s\<lparr>rs_sched := sc, rs_threads := ts @ Running c # us\<rparr>)"
| no_more: "rs_threads s = ts @ Ready g # us \<Longrightarrow> take_case g (rs_sched s) = Some (None, sc) \<Longrightarrow>
    runner_step dbg secs s (s\<lparr>rs_sched := sc, rs_threads := ts @ Finished None # us\<rparr>)"
| completed: "rs_threads s = ts @ Running c # us \<Longrightarrow>
    run_case written (ca_name c) secs rs = Some (Inr r, rs') \<Longrightarrow>
    runner_step dbg secs s
      (s\<lparr>rs_threads := ts @ Ready (ca_group c) # us, rs_results := rs_results s @ [r]\<rparr>)"
| worker_died: "rs_threads s = ts @ Running c # us \<Longrightarrow>
    run_case written (ca_name c) secs rs = Some (Inl e, rs') \<Longrightarrow>
    runner_step dbg secs s
      (s\<lparr>rs_threads := ts @ Spawning (ca_group c) # us,
         rs_results := rs_results s @ [crashed (ca_name c) (io_error_text dbg e)]\<rparr>)"
| drained: "rs_threads s = ts @ DrainingQueue g reason # us \<Longrightarrow>
    scheduler_drain (rs_sched s) = (stranded, sc) \<Longrightarrow>
    runner_step dbg secs s (s\<lparr>rs_sched := sc, rs_threads := ts @ Reporting g stranded reason # us\<rparr>)"
| reported: "rs_threads s = ts @ Reporting g stranded reason # us \<Longrightarrow>
    runner_step dbg secs s
      (s\<lparr>rs_threads := ts @ Finished g # us,
         rs_results := rs_results s @ map (\<lambda>c. crashed (ca_name c) reason) stranded\<rparr>)"

definition runner_reaches :: "(string \<Rightarrow> string) \<Rightarrow> nat \<Rightarrow> nat \<Rightarrow> runner_case list \<Rightarrow> run_state \<Rightarrow> bool" where
  "runner_reaches dbg secs workers cases s \<longleftrightarrow>
     (runner_step dbg secs)\<^sup>*\<^sup>* (run_init (set_workers workers) cases) s"

fun is_finished :: "thread \<Rightarrow> bool" where
  "is_finished (Finished _) = True"
| "is_finished _ = False"

text \<open>\<open>run\<close> returns once the scope has joined every thread.\<close>

definition run_over :: "run_state \<Rightarrow> bool" where
  "run_over s \<longleftrightarrow> list_all is_finished (rs_threads s)"

subsection \<open>Every case is reported once\<close>

fun held :: "thread \<Rightarrow> runner_case list" where
  "held (Running c) = [c]"
| "held (Reporting _ cs _) = cs"
| "held _ = []"

definition names_of :: "run_state \<Rightarrow> string multiset" where
  "names_of s =
     mset (map ca_name (sc_pending (rs_sched s))) +
     mset (map ca_name (concat (map held (rs_threads s)))) + mset (map cr_name (rs_results s))"

lemma run_case_loop_name: "run_case_loop n secs acc rs = Some (Inr r, rs') \<Longrightarrow> cr_name r = n"
  by (induction n secs acc rs rule: run_case_loop.induct) auto

lemma run_case_name: "run_case w n secs rs = Some (Inr r, rs') \<Longrightarrow> cr_name r = n"
  by (auto simp: run_case_def dest: run_case_loop_name split: if_splits)

lemma runner_step_names: "runner_step dbg secs s s' \<Longrightarrow> names_of s' = names_of s"
proof (induction rule: runner_step.induct)
  case (leased s ts g us c sc)
  from take_case_mset [OF leased(2)] have "mset (map ca_name (sc_pending (rs_sched s))) =
      add_mset (ca_name c) (mset (map ca_name (sc_pending sc)))"
    by (metis image_mset_add_mset mset_map)
  with leased(1) show ?case by (simp add: names_of_def)
next
  case (no_more s ts g us sc)
  with take_case_none [OF no_more(2)] show ?case by (simp add: names_of_def)
qed (auto simp: names_of_def scheduler_drain_def crashed_def comp_def dest: run_case_name)

text \<open>Once a thread is past draining or has found nothing, nothing is pending any more.\<close>

fun past_queue :: "thread \<Rightarrow> bool" where
  "past_queue (Reporting _ _ _) = True"
| "past_queue (Finished _) = True"
| "past_queue _ = False"

definition queue_inv :: "run_state \<Rightarrow> bool" where
  "queue_inv s \<longleftrightarrow> (list_ex past_queue (rs_threads s) \<longrightarrow> sc_pending (rs_sched s) = [])"

lemma runner_step_queue: "runner_step dbg secs s s' \<Longrightarrow> queue_inv s \<Longrightarrow> queue_inv s'"
proof (induction rule: runner_step.induct)
  case (leased s ts g us c sc)
  from take_case_mset [OF leased(2)] have "sc_pending (rs_sched s) \<noteq> []" by auto
  with leased(1,3) show ?case by (auto simp: queue_inv_def)
next
  case (no_more s ts g us sc)
  with take_case_none [OF no_more(2)] show ?case by (simp add: queue_inv_def)
qed (auto simp: queue_inv_def scheduler_drain_def)

lemma runner_step_threads: "runner_step dbg secs s s' \<Longrightarrow> length (rs_threads s') = length (rs_threads s)"
  by (induction rule: runner_step.induct) simp_all

lemma runner_reaches_inv:
  assumes "runner_reaches dbg secs workers cases s"
  shows "names_of s = mset (map ca_name cases)" and "queue_inv s"
    and "length (rs_threads s) = min (set_workers workers) (length cases)"
proof -
  let ?ok = "\<lambda>s. names_of s = mset (map ca_name cases) \<and> queue_inv s \<and>
    length (rs_threads s) = min (set_workers workers) (length cases)"
  have "?ok s"
    using assms unfolding runner_reaches_def
  proof (induction rule: rtranclp_induct)
    case base
    have "list_ex past_queue (replicate n (Spawning None)) = False" for n by (induction n) auto
    moreover have "concat (map held (replicate n (Spawning None))) = []" for n by (induction n) auto
    ultimately show ?case by (simp add: run_init_def names_of_def queue_inv_def)
  next
    case (step s s')
    with runner_step_names [of dbg secs s s'] runner_step_queue [of dbg secs s s']
      runner_step_threads [of dbg secs s s'] show ?case by simp
  qed
  then show "names_of s = mset (map ca_name cases)" and "queue_inv s"
    and "length (rs_threads s) = min (set_workers workers) (length cases)" by blast+
qed

text \<open>
  C8: however the threads interleave, whichever spawns fail and whichever workers die or run over
  their deadline, a run that is over has reported every case exactly once.
\<close>

theorem every_case_reported:
  assumes "runner_reaches dbg secs workers cases s" and "run_over s"
  shows "mset (map cr_name (rs_results s)) = mset (map ca_name cases)"
proof (cases "cases = []")
  case True
  with runner_reaches_inv(1) [OF assms(1)] show ?thesis by (simp add: names_of_def)
next
  case False
  note inv = runner_reaches_inv [OF assms(1)]
  have "rs_threads s \<noteq> []" using inv(3) False by (auto simp: set_workers_def min_def split: if_splits)
  then obtain t ts where t: "rs_threads s = t # ts" by (cases "rs_threads s") auto
  with assms(2) have "past_queue t" by (cases t) (simp_all add: run_over_def)
  with inv(2) t have "sc_pending (rs_sched s) = []" by (simp add: queue_inv_def)
  moreover have "held x = []" if "is_finished x" for x using that by (cases x) simp_all
  then have "concat (map held (rs_threads s)) = []" using assms(2) by (auto simp: run_over_def list_all_iff)
  ultimately show ?thesis using inv(1) by (simp add: names_of_def del: concat_eq_Nil_conv)
qed

subsection \<open>The counts of workers\<close>

fun claim :: "thread \<Rightarrow> string option" where
  "claim (Spawning g) = g"
| "claim (Ready g) = g"
| "claim (Running c) = ca_group c"
| "claim (DrainingQueue g _) = g"
| "claim (Reporting g _ _) = g"
| "claim (Finished g) = g"

definition claims_on :: "thread list \<Rightarrow> string \<Rightarrow> nat" where
  "claims_on ts g = length (filter (\<lambda>t. claim t = Some g) ts)"

definition worker_counts :: "thread list \<Rightarrow> string \<Rightarrow> nat option" where
  "worker_counts ts g = (if claims_on ts g = 0 then None else Some (claims_on ts g))"

definition counts_inv :: "run_state \<Rightarrow> bool" where
  "counts_inv s \<longleftrightarrow> sc_workers (rs_sched s) = worker_counts (rs_threads s)"

lemma claims_on_insert [simp]:
  "claims_on (ts @ t # us) g = (if claim t = Some g then 1 else 0) + claims_on (ts @ us) g"
  by (simp add: claims_on_def)

lemma worker_counts_same: "claim t = claim t' \<Longrightarrow> worker_counts (ts @ t # us) = worker_counts (ts @ t' # us)"
  by (simp add: fun_eq_iff worker_counts_def)

lemma leave_counts:
  assumes "sc_workers sc = worker_counts (ts @ t # us)" and "claim t = Some g" and "claim t' = None"
  shows "\<exists>sc'. leave g sc = Some sc' \<and> sc_workers sc' = worker_counts (ts @ t' # us)"
  using assms by (auto simp: leave_def worker_counts_def fun_eq_iff)

lemma take_fresh_counts:
  assumes "sc_workers sc = worker_counts (ts @ t # us)" and "claim t = None"
    and "take_fresh sc = Some (Some c, sc')"
  shows "sc_workers sc' = worker_counts (ts @ Running c # us)"
  using take_fresh_facts(2) [OF assms(3)] assms(1,2)
  by (auto simp: worker_counts_def fun_eq_iff split: option.splits)

lemma take_case_counts:
  assumes "sc_workers sc = worker_counts (ts @ Ready g # us)"
  shows "\<exists>r sc'. take_case g sc = Some (r, sc') \<and>
    sc_workers sc' = worker_counts (ts @ (case r of Some c \<Rightarrow> Running c | None \<Rightarrow> Finished None) # us)"
proof -
  have fresh: "\<exists>r sc'. take_fresh sc1 = Some (r, sc') \<and>
      sc_workers sc' = worker_counts (ts @ (case r of Some c \<Rightarrow> Running c | None \<Rightarrow> Finished None) # us)"
    if eq: "sc_workers sc1 = worker_counts (ts @ Ready None # us)" for sc1
  proof -
    obtain r sc' where r: "take_fresh sc1 = Some (r, sc')" using take_fresh_facts(1) [of sc1] by auto
    show ?thesis
    proof (cases r)
      case None
      with take_fresh_facts(3) [of sc1 sc'] r eq worker_counts_same [of "Ready None" "Finished None" ts us]
      show ?thesis by simp
    next
      case (Some c)
      with r take_fresh_counts [OF eq, of c sc'] show ?thesis by simp
    qed
  qed
  show ?thesis
  proof (cases g)
    case None
    with fresh assms show ?thesis by (simp add: take_case_def)
  next
    case (Some x)
    show ?thesis
    proof (cases "index_of (\<lambda>c. ca_group c = Some x) (sc_pending sc)")
      case None
      from leave_counts [OF assms, of x "Ready None"] Some obtain sc1 where sc1: "leave x sc = Some sc1"
        "sc_workers sc1 = worker_counts (ts @ Ready None # us)" by auto
      from fresh [OF sc1(2)] sc1(1) None Some show ?thesis by (simp add: take_case_def)
    next
      case (Some i)
      then have i: "i < length (sc_pending sc)" "ca_group (sc_pending sc ! i) = Some x"
        by (simp_all add: index_of_Some)
      with worker_counts_same [of "Ready g" "Running (sc_pending sc ! i)" ts us] Some \<open>g = Some x\<close> assms
      show ?thesis by (simp add: take_case_def vec_remove_def)
    qed
  qed
qed

lemma runner_step_counts: "runner_step dbg secs s s' \<Longrightarrow> counts_inv s \<Longrightarrow> counts_inv s'"
proof (induction rule: runner_step.induct)
  case (leased s ts g us c sc)
  then have "sc_workers (rs_sched s) = worker_counts (ts @ Ready g # us)" by (simp add: counts_inv_def)
  from take_case_counts [OF this] leased(2) show ?case by (auto simp: counts_inv_def)
next
  case (no_more s ts g us sc)
  then have "sc_workers (rs_sched s) = worker_counts (ts @ Ready g # us)" by (simp add: counts_inv_def)
  from take_case_counts [OF this] no_more(2) show ?case by (auto simp: counts_inv_def)
qed (auto simp: counts_inv_def scheduler_drain_def fun_eq_iff worker_counts_def)

lemma runner_reaches_counts:
  assumes "runner_reaches dbg secs workers cases s"
  shows "counts_inv s"
  using assms unfolding runner_reaches_def
proof (induction rule: rtranclp_induct)
  case base
  show ?case by (simp add: counts_inv_def run_init_def worker_counts_def claims_on_def fun_eq_iff)
qed (rule runner_step_counts)

text \<open>
  C31: at every moment of a run the count kept for a group is the number of threads whose claim is on
  it, the ones respawning after a crash and the ones that failed to among them; so no count is ever
  decremented below zero and a lease never panics.
\<close>

theorem worker_counts_exact:
  assumes "runner_reaches dbg secs workers cases s"
  shows "(\<forall>g. sc_workers (rs_sched s) g =
      (if claims_on (rs_threads s) g = 0 then None else Some (claims_on (rs_threads s) g))) \<and>
    (\<forall>ts us g. rs_threads s = ts @ Ready g # us \<longrightarrow> (\<exists>r. take_case g (rs_sched s) = Some r))"
proof -
  have inv: "sc_workers (rs_sched s) = worker_counts (rs_threads s)"
    using runner_reaches_counts [OF assms] by (simp add: counts_inv_def)
  moreover have "\<exists>r. take_case g (rs_sched s) = Some r" if "rs_threads s = ts @ Ready g # us" for ts us g
    using take_case_counts [of "rs_sched s" ts g us] inv that by auto
  ultimately show ?thesis by (simp add: worker_counts_def)
qed

subsection \<open>A run ends\<close>

fun thread_work :: "thread \<Rightarrow> nat" where
  "thread_work (Running _) = 5"
| "thread_work (Spawning _) = 4"
| "thread_work (Ready _) = 3"
| "thread_work (DrainingQueue _ _) = 2"
| "thread_work (Reporting _ _ _) = 1"
| "thread_work (Finished _) = 0"

definition run_work :: "run_state \<Rightarrow> nat" where
  "run_work s = 3 * length (sc_pending (rs_sched s)) + sum_list (map thread_work (rs_threads s))"

lemma runner_step_work: "runner_step dbg secs s s' \<Longrightarrow> run_work s' < run_work s"
proof (induction rule: runner_step.induct)
  case (leased s ts g us c sc)
  from arg_cong [OF take_case_mset [OF leased(2)], of size]
  have "length (sc_pending (rs_sched s)) = Suc (length (sc_pending sc))" by simp
  with leased(1) show ?case by (simp add: run_work_def)
next
  case (no_more s ts g us sc)
  with take_case_none [OF no_more(2)] show ?case by (simp add: run_work_def)
qed (auto simp: run_work_def scheduler_drain_def)

lemma runner_steps_work: "(runner_step dbg secs ^^ n) s s' \<Longrightarrow> n + run_work s' \<le> run_work s"
proof (induction n arbitrary: s')
  case (Suc n)
  then obtain t where "(runner_step dbg secs ^^ n) s t" "runner_step dbg secs t s'" by auto
  with Suc.IH [of t] runner_step_work [of dbg secs t s'] show ?case by simp
qed simp

lemma run_case_outcomes:
  "run_case written name secs [DeadlinePassed] = Some (Inl (if written then CaseTimedOut secs [] else BrokenPipe),
     if written then [] else [DeadlinePassed])"
  by (simp add: run_case_def)

lemma runner_progress:
  assumes "counts_inv s" and "\<not> run_over s"
  shows "\<exists>s'. runner_step dbg secs s s'"
proof -
  from assms(2) obtain t where t: "t \<in> set (rs_threads s)" "\<not> is_finished t"
    by (auto simp: run_over_def list_all_iff)
  from split_list [OF t(1)] obtain ts us where s: "rs_threads s = ts @ t # us" by blast
  show ?thesis
  proof (cases t)
    case (Spawning g)
    with s show ?thesis by (blast intro: runner_step.spawned)
  next
    case (Ready g)
    with s assms(1) have "sc_workers (rs_sched s) = worker_counts (ts @ Ready g # us)"
      by (simp add: counts_inv_def)
    from take_case_counts [OF this] obtain r sc where r: "take_case g (rs_sched s) = Some (r, sc)" by blast
    with s Ready show ?thesis by (cases r) (blast intro: runner_step.leased runner_step.no_more)+
  next
    case (Running c)
    from runner_step.worker_died [OF s [unfolded Running] run_case_outcomes [of True "ca_name c" secs]]
    show ?thesis by blast
  next
    case (DrainingQueue g reason)
    with s show ?thesis
      by (cases "scheduler_drain (rs_sched s)") (blast intro: runner_step.drained)
  next
    case (Reporting g cs reason)
    with s show ?thesis by (blast intro: runner_step.reported)
  next
    case (Finished g)
    with t(2) show ?thesis by simp
  qed
qed

text \<open>
  C26: every run ends: from the start no interleaving takes more steps than three for each case and
  four for each thread, and a state where no thread can step is one where every thread is finished.
\<close>

theorem run_terminates:
  "(\<forall>n s. (runner_step dbg secs ^^ n) (run_init w cases) s \<longrightarrow> n \<le> 3 * length cases + 4 * min w (length cases)) \<and>
   (runner_reaches dbg secs workers cases s \<longrightarrow> (\<exists>s'. runner_step dbg secs s s') \<or> run_over s)"
proof (intro conjI allI impI)
  fix n s
  assume "(runner_step dbg secs ^^ n) (run_init w cases) s"
  from runner_steps_work [OF this] show "n \<le> 3 * length cases + 4 * min w (length cases)"
    by (simp add: run_work_def run_init_def sum_list_replicate)
next
  assume "runner_reaches dbg secs workers cases s"
  then show "(\<exists>s'. runner_step dbg secs s s') \<or> run_over s"
    using runner_progress [OF runner_reaches_counts] by blast
qed

subsection \<open>Witnesses\<close>

text \<open>Two cases of one group on two workers; the second worker's process cannot be spawned.\<close>

definition two_cases :: "runner_case list" where
  "two_cases = [case_group ''a'' (case_new ''a1''), case_group ''a'' (case_new ''a2'')]"

lemma reaches_start: "runner_reaches dbg secs w cases (run_init (set_workers w) cases)"
  by (simp add: runner_reaches_def)

lemma reaches_step:
  "runner_reaches dbg secs w cases s \<Longrightarrow> runner_step dbg secs s s' \<Longrightarrow> runner_reaches dbg secs w cases s'"
  unfolding runner_reaches_def by (rule rtranclp.rtrancl_into_rtrancl)

lemma spawn_failure_run:
  assumes "2 \<le> length cases"
  shows "\<exists>s. runner_reaches dbg secs 2 cases s \<and> sc_pending (rs_sched s) = [] \<and>
    rs_threads s = [Finished None, Ready None] \<and>
    rs_results s = map (\<lambda>c. crashed (ca_name c) reason) cases"
proof -
  let ?s0 = "run_init (set_workers 2) cases"
  have t0: "rs_threads ?s0 = [] @ Spawning None # [Spawning None]"
    using assms(1) by (simp add: run_init_def set_workers_def min_def numeral_2_eq_2)
  define s1 where "s1 = ?s0\<lparr>rs_threads := [] @ DrainingQueue None reason # [Spawning None]\<rparr>"
  define s2 where "s2 = s1\<lparr>rs_threads := [DrainingQueue None reason] @ Ready None # []\<rparr>"
  define s3 where "s3 = s2\<lparr>rs_sched := (rs_sched s2)\<lparr>sc_pending := []\<rparr>,
    rs_threads := [] @ Reporting None cases reason # [Ready None]\<rparr>"
  define s4 where "s4 = s3\<lparr>rs_threads := [] @ Finished None # [Ready None],
    rs_results := rs_results s3 @ map (\<lambda>c. crashed (ca_name c) reason) cases\<rparr>"
  have "runner_step dbg secs ?s0 s1" unfolding s1_def by (rule runner_step.spawn_failed [OF t0])
  then have r1: "runner_reaches dbg secs 2 cases s1" by (rule reaches_step [OF reaches_start])
  have "runner_step dbg secs s1 s2" unfolding s2_def by (rule runner_step.spawned) (simp add: s1_def)
  then have r2: "runner_reaches dbg secs 2 cases s2" by (rule reaches_step [OF r1])
  have "runner_step dbg secs s2 s3"
    unfolding s3_def by (rule runner_step.drained) (simp_all add: s2_def s1_def scheduler_drain_def run_init_def)
  then have r3: "runner_reaches dbg secs 2 cases s3" by (rule reaches_step [OF r2])
  have "runner_step dbg secs s3 s4" unfolding s4_def by (rule runner_step.reported) (simp add: s3_def)
  then have r4: "runner_reaches dbg secs 2 cases s4" by (rule reaches_step [OF r3])
  show ?thesis
  proof (intro exI conjI)
    show "runner_reaches dbg secs 2 cases s4" by (rule r4)
  qed (simp_all add: s4_def s3_def s2_def s1_def run_init_def)
qed

text \<open>
  One worker whose process cannot be spawned takes the whole queue down with it: every pending
  case is reported failed while the other worker, which did start, finds nothing left to run.
\<close>

theorem spawn_failure_fails_all:
  assumes "2 \<le> length cases"
  shows "\<exists>s. runner_reaches dbg secs 2 cases s \<and> rs_threads s = [Finished None, Ready None] \<and>
    rs_results s = map (\<lambda>c. crashed (ca_name c) reason) cases \<and>
    take_case None (rs_sched s) = Some (None, rs_sched s)"
proof -
  from spawn_failure_run [OF assms] obtain s where s: "runner_reaches dbg secs 2 cases s"
    "sc_pending (rs_sched s) = []" "rs_threads s = [Finished None, Ready None]"
    "rs_results s = map (\<lambda>c. crashed (ca_name c) reason) cases" by blast
  have "take_case None (rs_sched s) = Some (None, rs_sched s)"
    using s(2) by (simp add: take_case_def take_fresh_def best_index_def)
  with s show ?thesis by blast
qed

theorem spawn_failure_fails_all_witness:
  "\<exists>s :: run_state. map cr_status (rs_results s) = [Failed, Failed] \<and> map cr_name (rs_results s) = [''a1'', ''a2''] \<and>
     rs_threads s = [Finished None, Ready None]"
proof -
  have "2 \<le> length two_cases" by (simp add: two_cases_def)
  from spawn_failure_fails_all [OF this, of "\<lambda>s. s" 180 "''no such file''"] obtain s :: run_state where
    "rs_threads s = [Finished None, Ready None]"
    "rs_results s = map (\<lambda>c. crashed (ca_name c) ''no such file'') two_cases" by blast
  then show ?thesis
    by (intro exI [of _ s]) (simp add: two_cases_def case_group_def case_new_def crashed_def)
qed

lemma two_cases_over:
  "\<exists>s. runner_reaches (\<lambda>s. s) 180 2 two_cases s \<and> run_over s"
proof -
  have "2 \<le> length two_cases" by (simp add: two_cases_def)
  from spawn_failure_run [OF this, of "\<lambda>s. s" 180 "''no such file''"] obtain s where s:
    "runner_reaches (\<lambda>s. s) 180 2 two_cases s" "sc_pending (rs_sched s) = []"
    "rs_threads s = [Finished None] @ Ready None # []"
    by auto
  have "take_case None (rs_sched s) = Some (None, rs_sched s)"
    using s(2) by (simp add: take_case_def take_fresh_def best_index_def)
  from reaches_step [OF s(1) runner_step.no_more [OF s(3) this]] show ?thesis
    by (rule exI [of _ "s\<lparr>rs_sched := rs_sched s, rs_threads := [Finished None] @ Finished None # []\<rparr>", OF conjI])
      (simp add: run_over_def)
qed

theorem every_case_reported_witness:
  "\<exists>s. run_over s \<and> mset (map cr_name (rs_results s)) = mset [''a1'', ''a2'']"
proof -
  obtain s where s: "runner_reaches (\<lambda>s. s) 180 2 two_cases s" "run_over s" using two_cases_over by blast
  from every_case_reported [OF s] s(2) show ?thesis
    by (auto simp: two_cases_def case_group_def case_new_def)
qed

theorem worker_counts_exact_witness:
  "sc_workers (rs_sched (run_init (set_workers 2) two_cases)) ''a'' = None"
  using worker_counts_exact [OF reaches_start, of 2 two_cases]
  by (simp add: run_init_def claims_on_def)

theorem run_terminates_witness:
  "\<exists>s'. runner_step (\<lambda>s. s) 180 (run_init (set_workers 2) two_cases) s'"
proof -
  have "\<not> run_over (run_init (set_workers 2) two_cases)"
    by (simp add: run_over_def run_init_def set_workers_def two_cases_def numeral_2_eq_2)
  with run_terminates [where dbg = "\<lambda>s. s" and secs = 180 and workers = 2 and cases = two_cases
      and s = "run_init (set_workers 2) two_cases"] reaches_start
  show ?thesis by blast
qed

end
