(* ===== verification/Search.thy ===== *)
theory Search
  imports Text Address
begin

unbundle bit_operations_syntax

text \<open>
  \<open>search.rs\<close>, with the part of \<open>meta.rs\<close> and of the facade's \<open>bytes.cpp\<close> it rests on: the binary
  search patterns, the two grammars parsed here rather than by the kernel, the conditions a pattern
  is refused under, and the iterator over the matches.

  A compiled pattern is what the facade stores: alternatives of bytes and a mask, an empty mask
  meaning that every byte counts. The kernel's own parser and its search are parameters.
\<close>

subsection \<open>The two grammars\<close>

datatype pattern_rejection =
    BadToken string nat
  | BadMaskChar string nat
  | MaskMismatch nat nat
  | NoAnchor nat
  | Unparseable "string option"

definition show_pattern_rejection ::
  "(string \<Rightarrow> string) \<Rightarrow> (string \<Rightarrow> string) \<Rightarrow> pattern_rejection \<Rightarrow> string" where
  "show_pattern_rejection dbg dbg_char r =
     (case r of
        BadToken token i \<Rightarrow>
          ''token '' @ dbg token @ '' at position '' @ show_nat i @
            '' is not a hex byte, nibble, or wildcard''
      | BadMaskChar ch i \<Rightarrow>
          ''mask character '' @ dbg_char ch @ '' at position '' @ show_nat i @
            '' is not one of x, ?, .''
      | MaskMismatch bytes m \<Rightarrow>
          ''mask length '' @ show_nat m @ '' does not match pattern length '' @ show_nat bytes
      | NoAnchor n \<Rightarrow>
          if n = 0 then ''pattern is empty''
          else ''pattern pins no concrete bits ('' @ show_nat n @ '' wildcard bytes)''
      | Unparseable (Some d) \<Rightarrow> ''could not parse ('' @ d @ '')''
      | Unparseable None \<Rightarrow> ''could not parse'')"

text \<open>\<open>char::to_digit(16)\<close> on a character given as its encoding.\<close>

definition to_digit16 :: "string \<Rightarrow> nat option" where
  "to_digit16 c =
     (case c of
        [b] \<Rightarrow>
          if 48 \<le> byte b \<and> byte b \<le> 57 then Some (byte b - 48)
          else if 65 \<le> byte b \<and> byte b \<le> 70 then Some (byte b - 55)
          else if 97 \<le> byte b \<and> byte b \<le> 102 then Some (byte b - 87)
          else None
      | _ \<Rightarrow> None)"

definition nibble :: "string \<Rightarrow> (u8 \<times> u8) option" where
  "nibble c =
     (if c = ''?'' then Some (0, 0) else map_option (\<lambda>d. (of_nat d, 0xF)) (to_digit16 c))"

definition parse_hex_token :: "string \<Rightarrow> (u8 \<times> u8) option" where
  "parse_hex_token tok =
     (case str_chars tok of
        [] \<Rightarrow> None
      | [a] \<Rightarrow>
          (case nibble a of
             None \<Rightarrow> None
           | Some (v, m) \<Rightarrow> if m = 0 then Some (0, 0) else Some (v, 0xFF))
      | [a, b] \<Rightarrow>
          do { (hv, hm) \<leftarrow> nibble a; (lv, lm) \<leftarrow> nibble b;
               Some (push_bit 4 hv OR lv, push_bit 4 hm OR lm) }
      | _ \<Rightarrow> None)"

fun parse_hex_tokens :: "nat \<Rightarrow> string list \<Rightarrow> pattern_rejection + u8 list \<times> u8 list" where
  "parse_hex_tokens i [] = Inr ([], [])"
| "parse_hex_tokens i (tok # toks) =
     (case parse_hex_token tok of
        None \<Rightarrow> Inl (BadToken tok i)
      | Some (b, m) \<Rightarrow>
          (case parse_hex_tokens (Suc i) toks of
             Inl e \<Rightarrow> Inl e
           | Inr (bs, ms) \<Rightarrow> Inr (b # bs, m # ms)))"

definition parse_hex :: "string \<Rightarrow> pattern_rejection + u8 list \<times> u8 list" where
  "parse_hex s = parse_hex_tokens 0 (split_whitespace s)"

fun parse_mask_chars :: "nat \<Rightarrow> string list \<Rightarrow> pattern_rejection + u8 list" where
  "parse_mask_chars i [] = Inr []"
| "parse_mask_chars i (c # cs) =
     (if c = ''x'' \<or> c = ''X'' \<or> c = ''?'' \<or> c = ''.''
      then (case parse_mask_chars (Suc i) cs of
              Inl e \<Rightarrow> Inl e
            | Inr ms \<Rightarrow> Inr ((if c = ''x'' \<or> c = ''X'' then 0xFF else 0) # ms))
      else Inl (BadMaskChar c i))"

definition parse_mask :: "string \<Rightarrow> pattern_rejection + u8 list" where
  "parse_mask s = parse_mask_chars 0 (str_chars s)"

text \<open>\<open>{b:02X}\<close>, joined by spaces.\<close>

definition upper_digit :: "nat \<Rightarrow> char" where
  "upper_digit d = char_of (if d < 10 then 48 + d else 55 + d)"

definition show_byte :: "u8 \<Rightarrow> string" where
  "show_byte b = [upper_digit (unat b div 16), upper_digit (unat b mod 16)]"

fun join_space :: "string list \<Rightarrow> string" where
  "join_space [] = []"
| "join_space [s] = s"
| "join_space (s # t # ss) = s @ '' '' @ join_space (t # ss)"

definition render :: "u8 list \<Rightarrow> string" where
  "render bytes = join_space (map show_byte bytes)"

subsection \<open>Compiling a pattern\<close>

record compiled_binpat =
  bp_bytes :: "u8 list"
  bp_mask :: "u8 list"

record binpat_stats =
  st_total :: nat
  st_anchors :: nat

record pattern =
  pat_handle :: "compiled_binpat list"
  pat_flags :: u32

abbreviation "BIN_SEARCH_CASE \<equiv> (0x01 :: u32)"
abbreviation "BIN_SEARCH_BITMASK \<equiv> (0x20 :: u32)"

definition binpat_from_bytes :: "u8 list \<Rightarrow> u8 list \<Rightarrow> compiled_binpat list" where
  "binpat_from_bytes bytes m = [\<lparr>bp_bytes = bytes, bp_mask = m\<rparr>]"

definition binpat_stats_of :: "compiled_binpat list \<Rightarrow> binpat_stats" where
  "binpat_stats_of pat =
     (case pat of
        [] \<Rightarrow> \<lparr>st_total = 0, st_anchors = 0\<rparr>
      | b # _ \<Rightarrow>
          \<lparr>st_total = length (bp_bytes b),
           st_anchors = (if bp_mask b = [] then length (bp_bytes b)
                         else length (filter (\<lambda>m. m \<noteq> 0) (bp_mask b)))\<rparr>)"

text \<open>The facade's compiler: the kernel's parser answers the pattern or its message.\<close>

definition binpat_compile ::
  "(u64 \<Rightarrow> string \<Rightarrow> u32 \<Rightarrow> string + compiled_binpat list) \<Rightarrow> u64 \<Rightarrow> string \<Rightarrow> u32 \<Rightarrow>
     string + compiled_binpat list" where
  "binpat_compile parser ea pat radix =
     (case parser ea pat radix of
        Inl err \<Rightarrow> Inl (if err = [] then ''unparseable pattern'' else err)
      | Inr p \<Rightarrow> Inr p)"

datatype search_error = PatternRejected string pattern_rejection

definition count_anchors :: "nat \<Rightarrow> u8 list option \<Rightarrow> nat" where
  "count_anchors bytes_len m =
     (case m of Some ms \<Rightarrow> length (filter (\<lambda>b. b \<noteq> 0) ms) | None \<Rightarrow> bytes_len)"

definition require_anchor :: "nat \<Rightarrow> nat \<Rightarrow> pattern_rejection option" where
  "require_anchor anchors n = (if anchors = 0 then Some (NoAnchor n) else None)"

definition require_matching_length :: "nat \<Rightarrow> nat \<Rightarrow> pattern_rejection option" where
  "require_matching_length data_len mask_len =
     (if mask_len \<noteq> data_len then Some (MaskMismatch data_len mask_len) else None)"

definition non_empty :: "string \<Rightarrow> string option" where
  "non_empty detail = (if detail \<noteq> [] then Some detail else None)"

definition from_parts :: "string \<Rightarrow> u8 list \<Rightarrow> u8 list option \<Rightarrow> search_error + pattern" where
  "from_parts repr bytes m =
     (case require_anchor (count_anchors (length bytes) m) (length bytes) of
        Some kind \<Rightarrow> Inl (PatternRejected repr kind)
      | None \<Rightarrow>
          Inr \<lparr>pat_handle = binpat_from_bytes bytes (case m of Some ms \<Rightarrow> ms | None \<Rightarrow> []),
               pat_flags = BIN_SEARCH_BITMASK\<rparr>)"

definition pattern_hex :: "string \<Rightarrow> search_error + pattern" where
  "pattern_hex pat =
     (case parse_hex pat of
        Inl kind \<Rightarrow> Inl (PatternRejected pat kind)
      | Inr (bytes, m) \<Rightarrow> from_parts pat bytes (Some m))"

definition pattern_code_mask :: "u8 list \<Rightarrow> string \<Rightarrow> search_error + pattern" where
  "pattern_code_mask code m =
     (let repr = render code
      in case parse_mask m of
           Inl kind \<Rightarrow> Inl (PatternRejected repr kind)
         | Inr mask_bytes \<Rightarrow>
             (case require_matching_length (length code) (length mask_bytes) of
                Some kind \<Rightarrow> Inl (PatternRejected repr kind)
              | None \<Rightarrow> from_parts repr code (Some mask_bytes)))"

definition pattern_bytes :: "u8 list \<Rightarrow> u8 list option \<Rightarrow> search_error + pattern" where
  "pattern_bytes bytes m =
     (case Option.bind m (\<lambda>ms. require_matching_length (length bytes) (length ms)) of
        Some kind \<Rightarrow> Inl (PatternRejected (render bytes) kind)
      | None \<Rightarrow> from_parts (render bytes) bytes m)"

definition pattern_ida ::
  "(u64 \<Rightarrow> string \<Rightarrow> u32 \<Rightarrow> string + compiled_binpat list) \<Rightarrow> u64 \<Rightarrow> string \<Rightarrow> u32 \<Rightarrow> bool \<Rightarrow>
     search_error + pattern" where
  "pattern_ida parser min_ea pat radix case_sensitive =
     (case binpat_compile parser min_ea pat radix of
        Inl detail \<Rightarrow> Inl (PatternRejected pat (Unparseable (non_empty detail)))
      | Inr handle \<Rightarrow>
          (case require_anchor (st_anchors (binpat_stats_of handle)) (st_total (binpat_stats_of handle)) of
             Some kind \<Rightarrow> Inl (PatternRejected pat kind)
           | None \<Rightarrow>
               Inr \<lparr>pat_handle = handle,
                    pat_flags = (if case_sensitive then BIN_SEARCH_CASE else 0)\<rparr>))"

subsection \<open>The matches\<close>

text \<open>\<open>bin_search\<close> of the kernel: start, end, pattern and flags, answering \<open>BADADDR\<close> for no match.\<close>

type_synonym bin_search = "u64 \<Rightarrow> u64 \<Rightarrow> compiled_binpat list \<Rightarrow> u32 \<Rightarrow> u64"

record matches =
  mt_pat :: pattern
  mt_cur :: "address option"
  mt_end :: address

definition matches_empty :: "pattern \<Rightarrow> matches" where
  "matches_empty pat = \<lparr>mt_pat = pat, mt_cur = None, mt_end = Address (NOT 0)\<rparr>"

definition search_in :: "address \<Rightarrow> address \<Rightarrow> pattern \<Rightarrow> matches" where
  "search_in start end_address pat = \<lparr>mt_pat = pat, mt_cur = Some start, mt_end = end_address\<rparr>"

definition address_range :: "u64 \<Rightarrow> u64 \<Rightarrow> (address \<times> address) option" where
  "address_range min_ea max_ea =
     do { lo \<leftarrow> try_new min_ea; hi \<leftarrow> try_new max_ea; Some (lo, hi) }"

definition search :: "u64 \<Rightarrow> u64 \<Rightarrow> pattern \<Rightarrow> matches" where
  "search min_ea max_ea pat =
     (case address_range min_ea max_ea of
        Some (lo, hi) \<Rightarrow> search_in lo hi pat
      | None \<Rightarrow> matches_empty pat)"

text \<open>\<open>next\<close>; \<open>None\<close> is a panic of the advance.\<close>

definition matches_next :: "bin_search \<Rightarrow> matches \<Rightarrow> (address option \<times> matches) option" where
  "matches_next bs it =
     (case mt_cur it of
        None \<Rightarrow> Some (None, it)
      | Some start \<Rightarrow>
          if start \<ge> mt_end it then Some (None, it\<lparr>mt_cur := None\<rparr>)
          else
            (case try_new (bs (address_get start) (address_get (mt_end it))
                             (pat_handle (mt_pat it)) (pat_flags (mt_pat it))) of
               Some a \<Rightarrow> do { n \<leftarrow> address_add a 1; Some (Some a, it\<lparr>mt_cur := Some n\<rparr>) }
             | None \<Rightarrow> Some (None, it\<lparr>mt_cur := None\<rparr>)))"

text \<open>Driving the iterator to its end, as a \<open>for\<close> loop does; \<open>None\<close> is a panic or no end in sight.\<close>

fun matches_collect :: "nat \<Rightarrow> bin_search \<Rightarrow> matches \<Rightarrow> address list option" where
  "matches_collect 0 bs it = None"
| "matches_collect (Suc n) bs it =
     (case matches_next bs it of
        None \<Rightarrow> None
      | Some (None, it') \<Rightarrow> Some []
      | Some (Some a, it') \<Rightarrow> map_option (Cons a) (matches_collect n bs it'))"

subsection \<open>Lemmas on the grammars\<close>

text \<open>
  A cell is a byte with the nibbles that count; its text is the two characters the grammar spells
  it with.
\<close>

definition cell_ok :: "u8 \<times> u8 \<Rightarrow> bool" where
  "cell_ok c \<longleftrightarrow> snd c \<in> {0, 0x0F, 0xF0, 0xFF} \<and> fst c AND NOT (snd c) = 0"

definition show_cell :: "u8 \<times> u8 \<Rightarrow> string" where
  "show_cell c =
     [if snd c AND 0xF0 = 0 then CHR ''?'' else upper_digit (unat (fst c) div 16),
      if snd c AND 0x0F = 0 then CHR ''?'' else upper_digit (unat (fst c) mod 16)]"

lemma to_digit16_less: "to_digit16 c = Some d \<Longrightarrow> d < 16"
  by (auto simp: to_digit16_def split: list.splits if_splits)

lemma upper_digit_byte: "d < 16 \<Longrightarrow> byte (upper_digit d) = (if d < 10 then 48 + d else 55 + d)"
  by (simp add: upper_digit_def)

lemma nibble_upper: "d < 16 \<Longrightarrow> nibble [upper_digit d] = Some (of_nat d, 0xF)"
proof -
  assume d: "d < 16"
  then have "upper_digit d \<noteq> CHR ''?''" using upper_digit_byte [OF d] by (auto split: if_splits)
  moreover have "to_digit16 [upper_digit d] = Some d"
    using upper_digit_byte [OF d] d by (simp add: to_digit16_def)
  ultimately show ?thesis by (simp add: nibble_def)
qed

lemma nibble_wild: "nibble ''?'' = Some (0, 0)"
  by (simp add: nibble_def)

lemma nibbleE:
  assumes "nibble c = Some (v, m)"
  obtains "v = 0" "m = 0" | d where "d < 16" "v = of_nat d" "m = 0xF"
  using assms by (auto simp: nibble_def split: if_splits dest: to_digit16_less)

lemma nibbles_join:
  assumes "a < 16" and "b < 16"
  shows "push_bit 4 (of_nat a) OR of_nat b = (of_nat (16 * a + b) :: u8)"
proof -
  have "\<forall>a \<in> set [0..<16]. \<forall>b \<in> set [0..<16]. push_bit 4 (of_nat a) OR of_nat b = (of_nat (16 * a + b) :: u8)"
    by code_simp
  then show ?thesis using assms by simp
qed

lemma cell_join:
  assumes "hm \<in> {0, 0xF}" and "lm \<in> {0, 0xF}" and "a < 16" and "b < 16"
    and "hm = 0 \<longrightarrow> a = 0" and "lm = 0 \<longrightarrow> b = 0"
  shows "cell_ok (of_nat (16 * a + b), push_bit 4 hm OR lm)"
proof -
  have "\<forall>a \<in> set [0..<16]. \<forall>b \<in> set [0..<16].
      cell_ok (of_nat (16 * a + b), 0xFF) \<and>
      (a = 0 \<longrightarrow> cell_ok (of_nat (16 * a + b), 0x0F)) \<and>
      (b = 0 \<longrightarrow> cell_ok (of_nat (16 * a + b), 0xF0)) \<and>
      (a = 0 \<longrightarrow> b = 0 \<longrightarrow> cell_ok (of_nat (16 * a + b), 0))"
    by code_simp
  moreover have "push_bit 4 0xF OR 0xF = (0xFF :: u8)" "push_bit 4 0xF OR 0 = (0xF0 :: u8)"
    "push_bit 4 0 OR 0xF = (0x0F :: u8)" "push_bit 4 0 OR 0 = (0 :: u8)"
    by code_simp+
  moreover have "a \<in> set [0..<16]" "b \<in> set [0..<16]" using assms(3,4) by simp_all
  moreover have "hm = 0 \<or> hm = 0xF" "lm = 0 \<or> lm = 0xF" using assms(1,2) by simp_all
  ultimately show ?thesis using assms(5,6) by metis
qed

lemma nibble_cell:
  assumes "nibble c = Some (v, m)"
  shows "\<exists>d<16. v = of_nat d \<and> (m = 0xF \<or> m = 0 \<and> d = 0)"
  using assms by (auto elim!: nibbleE)

lemma nibble_lone: "nibble c = Some (v, 0) \<Longrightarrow> v = 0"
  by (auto elim!: nibbleE)

lemma parse_hex_token_cell:
  assumes "parse_hex_token tok = Some c"
  shows "cell_ok c"
proof -
  have lone: "cell_ok (v, 0xFF)" for v :: u8
  proof -
    have "NOT 0xFF = (0 :: u8)" by code_simp
    then have "v AND NOT 0xFF = 0" by (simp only: bit.conj_zero_right)
    then show ?thesis unfolding cell_ok_def by (simp only: fst_conv snd_conv insert_iff simp_thms)
  qed
  consider "c = (0, 0)" | v where "c = (v, 0xFF)"
    | x y hv hm lv lm where "nibble x = Some (hv, hm)" "nibble y = Some (lv, lm)"
      "c = (push_bit 4 hv OR lv, push_bit 4 hm OR lm)"
    using assms by (auto simp: parse_hex_token_def split: list.splits option.splits if_splits)
  then show ?thesis
  proof cases
    case 1
    then show ?thesis by (simp add: cell_ok_def)
  next
    case 2
    then show ?thesis using lone by simp
  next
    case 3
    from nibble_cell [OF 3(1)] obtain d where d: "d < 16" "hv = of_nat d" "hm = 0xF \<or> hm = 0 \<and> d = 0"
      by blast
    from nibble_cell [OF 3(2)] obtain e where e: "e < 16" "lv = of_nat e" "lm = 0xF \<or> lm = 0 \<and> e = 0"
      by blast
    have "cell_ok (of_nat (16 * d + e), push_bit 4 hm OR lm)"
      by (rule cell_join) (use d e in auto)
    then show ?thesis by (simp only: 3(3) d(2) e(2) nibbles_join [OF d(1) e(1)])
  qed
qed

lemma show_cell_ascii: "list_all (\<lambda>c. byte c < 0x80) (show_cell c)"
proof -
  have "unat (fst c) < 256" using unsigned_less [of "fst c", where ?'a = nat] by simp
  then have "unat (fst c) div 16 < 16" by simp
  moreover have "unat (fst c) mod 16 < 16" by simp
  moreover have "byte (upper_digit d) < 128" if "d < 16" for d
    using that upper_digit_byte [OF that] by (simp split: if_splits)
  ultimately show ?thesis by (simp add: show_cell_def)
qed

lemma parse_show_cell:
  assumes "cell_ok c"
  shows "parse_hex_token (show_cell c) = Some c"
proof -
  obtain v m where c: "c = (v, m)" by (cases c)
  define a b where "a = unat v div 16" and "b = unat v mod 16"
  have ab: "a < 16" "b < 16" "v = of_nat (16 * a + b)"
    using unsigned_less [of v, where ?'a = nat] by (simp_all add: a_def b_def)
  have m: "m = 0 \<or> m = 0x0F \<or> m = 0xF0 \<or> m = 0xFF" and z: "v AND NOT m = 0"
    using assms by (auto simp: cell_ok_def c)
  have clear: "\<forall>a \<in> set [0..<16]. \<forall>b \<in> set [0..<16].
      (of_nat (16 * a + b) AND NOT 0 = (0 :: u8) \<longrightarrow> a = 0 \<and> b = 0) \<and>
      (of_nat (16 * a + b) AND NOT 0x0F = (0 :: u8) \<longrightarrow> a = 0) \<and>
      (of_nat (16 * a + b) AND NOT 0xF0 = (0 :: u8) \<longrightarrow> b = 0)"
    by code_simp
  have masks: "push_bit 4 0xF OR 0xF = (0xFF :: u8)" "push_bit 4 0xF OR 0 = (0xF0 :: u8)"
    "push_bit 4 0 OR 0xF = (0x0F :: u8)" "push_bit 4 0 OR 0 = (0 :: u8)"
    "0xFF AND 0xF0 \<noteq> (0 :: u8)" "0xFF AND 0x0F \<noteq> (0 :: u8)" "0xF0 AND 0x0F = (0 :: u8)"
    "0x0F AND 0xF0 = (0 :: u8)" "0xF0 AND 0xF0 \<noteq> (0 :: u8)" "0x0F AND 0x0F \<noteq> (0 :: u8)"
    by code_simp+
  have chars: "str_chars (show_cell c) = map (\<lambda>c. [c]) (show_cell c)"
    by (rule str_chars_all_ascii [OF show_cell_ascii])
  have in_range: "a \<in> set [0..<16]" "b \<in> set [0..<16]" using ab by simp_all
  have bits: "(v AND NOT 0 = 0 \<longrightarrow> a = 0 \<and> b = 0) \<and> (v AND NOT 0x0F = 0 \<longrightarrow> a = 0) \<and>
      (v AND NOT 0xF0 = 0 \<longrightarrow> b = 0)"
    unfolding ab(3) by (rule bspec [OF bspec [OF clear in_range(1)] in_range(2)])
  define x y where "x = (if m AND 0xF0 = 0 then CHR ''?'' else upper_digit a)"
    and "y = (if m AND 0x0F = 0 then CHR ''?'' else upper_digit b)"
  then have xy: "show_cell c = [x, y]" by (simp add: show_cell_def c a_def b_def)
  have hi: "nibble [x] =
      Some (of_nat a, if m AND 0xF0 = 0 then 0 else 0xF)"
    using m z bits masks nibble_upper [OF ab(1)] nibble_wild by (auto simp: x_def)
  have lo: "nibble [y] =
      Some (of_nat b, if m AND 0x0F = 0 then 0 else 0xF)"
    using m z bits masks nibble_upper [OF ab(2)] nibble_wild by (auto simp: y_def)
  have "push_bit 4 (if m AND 0xF0 = 0 then 0 else 0xF) OR (if m AND 0x0F = 0 then 0 else 0xF) = m"
    using m masks by auto
  then show ?thesis
    using chars unfolding parse_hex_token_def xy
    by (simp add: c ab(3) hi lo nibbles_join [OF ab(1,2)])
qed


lemma parse_hex_tokens_ok:
  "parse_hex_tokens i toks = Inr p \<longleftrightarrow>
     (\<exists>cells. traverse parse_hex_token toks = Some cells \<and> p = (map fst cells, map snd cells))"
proof (induction toks arbitrary: i p)
  case (Cons tok toks)
  show ?case
  proof (cases "parse_hex_tokens (Suc i) toks")
    case (Inl e)
    then have "traverse parse_hex_token toks = None"
      using Cons.IH [of "Suc i" "(map fst cells, map snd cells)" for cells]
      by (cases "traverse parse_hex_token toks") auto
    with Inl show ?thesis by (auto split: option.splits)
  next
    case (Inr q)
    with Cons.IH [of "Suc i" q] show ?thesis by (auto split: option.splits)
  qed
qed auto

lemma parse_hex_tokens_bad:
  "parse_hex_tokens i toks = Inl e \<longleftrightarrow>
     (\<exists>pre tok post cells. toks = pre @ tok # post \<and> map parse_hex_token pre = map Some cells \<and>
        parse_hex_token tok = None \<and> e = BadToken tok (i + length pre))"
proof (induction toks arbitrary: i)
  case (Cons tok toks)
  show ?case
  proof (cases "parse_hex_token tok")
    case None
    then show ?thesis by (force simp: Cons_eq_append_conv)
  next
    case (Some c)
    obtain b m where c: "c = (b, m)" by (cases c)
    have "parse_hex_tokens i (tok # toks) = Inl e \<longleftrightarrow> parse_hex_tokens (Suc i) toks = Inl e"
      by (simp add: Some c split: sum.splits)
    also have "\<dots> \<longleftrightarrow> (\<exists>pre t post cells. tok # toks = (tok # pre) @ t # post \<and>
        map parse_hex_token (tok # pre) = map Some (c # cells) \<and>
        parse_hex_token t = None \<and> e = BadToken t (i + length (tok # pre)))"
      by (simp add: Cons.IH Some)
    also have "\<dots> \<longleftrightarrow> (\<exists>pre t post cells. tok # toks = pre @ t # post \<and>
        map parse_hex_token pre = map Some cells \<and>
        parse_hex_token t = None \<and> e = BadToken t (i + length pre))" (is "?L \<longleftrightarrow> ?R")
    proof
      assume ?R
      then obtain pre t post cells where r: "tok # toks = pre @ t # post"
        "map parse_hex_token pre = map Some cells" "parse_hex_token t = None"
        "e = BadToken t (i + length pre)" by blast
      with Some obtain pre' where "pre = tok # pre'" by (cases pre) auto
      with r Some show ?L by (auto simp: Cons_eq_map_conv)
    qed blast
    finally show ?thesis .
  qed
qed simp

subsection \<open>White space\<close>

lemma ascii_space: "byte c < 0x80 \<Longrightarrow> [c] \<in> set white_space \<longleftrightarrow> byte c \<in> {9, 10, 11, 12, 13, 32}"
proof -
  have "[c] \<in> set white_space \<longleftrightarrow> c \<in> set (map char_of [9, 10, 11, 12, 13, 32 :: nat])"
    by (auto simp: white_space_def)
  also have "\<dots> \<longleftrightarrow> byte c \<in> {9, 10, 11, 12, 13, 32 :: nat}"
  proof -
    have "c = char_of n \<longleftrightarrow> byte c = n" if "n < 256" for n :: nat
      using that by (auto simp: take_bit_nat_eq_self)
    then show ?thesis by simp
  qed
  finally show ?thesis by simp
qed

definition word_char :: "char \<Rightarrow> bool" where
  "word_char c \<longleftrightarrow> byte c < 0x80 \<and> [c] \<notin> set white_space"

lemma split_blank_word:
  "list_all word_char s \<Longrightarrow> split_blank acc (map (\<lambda>c. [c]) s @ cs) = split_blank (acc @ map (\<lambda>c. [c]) s) cs"
  by (induction s arbitrary: acc) (auto simp: word_char_def)

lemma concat_singletons: "concat (map (\<lambda>c. [c]) s) = s"
  by (induction s) simp_all

lemma split_whitespace_join:
  assumes "list_all (\<lambda>s. s \<noteq> [] \<and> list_all word_char s) toks"
  shows "split_whitespace (join_space toks) = toks"
proof -
  have ascii: "list_all (\<lambda>c. byte c < 0x80) (join_space toks)"
    using assms by (induction toks rule: join_space.induct) (auto simp: word_char_def list_all_iff)
  have space: "'' '' \<in> set white_space" using ascii_space [of "CHR '' ''"] by simp
  have "map concat (split_blank [] (map (\<lambda>c. [c]) (join_space toks))) = toks"
    using assms
  proof (induction toks rule: join_space.induct)
    case (2 s)
    then show ?case using split_blank_word [of s "[]" "[]"] by (auto simp: concat_singletons)
  next
    case (3 s t ss)
    then have "split_blank [] (map (\<lambda>c. [c]) (s @ '' '' @ join_space (t # ss))) =
        map (\<lambda>c. [c]) s # split_blank [] (map (\<lambda>c. [c]) (join_space (t # ss)))"
      using split_blank_word [of s "[]"] space by auto
    with 3 show ?case by (auto simp: concat_singletons)
  qed simp
  with str_chars_all_ascii [OF ascii] show ?thesis by (simp add: split_whitespace_def)
qed


lemma word_char_hex: "d < 16 \<Longrightarrow> word_char (upper_digit d)"
  using upper_digit_byte [of d] ascii_space [of "upper_digit d"]
  by (simp add: word_char_def split: if_splits)

lemma show_cell_word: "list_all word_char (show_cell c)"
proof -
  have "word_char (CHR ''?'')" using ascii_space [of "CHR ''?''"] by (simp add: word_char_def)
  moreover have "unat (fst c) div 16 < 16" "unat (fst c) mod 16 < 16"
    using unsigned_less [of "fst c", where ?'a = nat] by simp_all
  ultimately show ?thesis by (simp add: show_cell_def word_char_hex)
qed

lemma parse_hex_cells:
  assumes "list_all cell_ok cells"
  shows "parse_hex (join_space (map show_cell cells)) = Inr (map fst cells, map snd cells)"
proof -
  have "list_all (\<lambda>s. s \<noteq> [] \<and> list_all word_char s) (map show_cell cells)"
    by (simp add: list_all_iff show_cell_word [unfolded list_all_iff]) (simp add: show_cell_def)
  moreover have "traverse parse_hex_token (map show_cell cells) = Some cells"
    using assms by (induction cells) (simp_all add: parse_show_cell)
  ultimately show ?thesis
    by (simp add: parse_hex_def split_whitespace_join parse_hex_tokens_ok)
qed

lemma parse_hex_ok:
  assumes "parse_hex s = Inr (bs, ms)"
  shows "length bs = length ms \<and> list_all cell_ok (zip bs ms)"
proof -
  from assms obtain cells where c: "traverse parse_hex_token (split_whitespace s) = Some cells"
    "bs = map fst cells" "ms = map snd cells"
    by (auto simp: parse_hex_def parse_hex_tokens_ok)
  have "list_all cell_ok cells"
    by (rule traverse_list_all [OF c(1)]) (rule parse_hex_token_cell)
  then show ?thesis using c(2,3) by (simp add: zip_map_fst_snd)
qed

lemma show_byte_cell: "show_byte b = show_cell (b, 0xFF)"
proof -
  have "0xFF AND 0xF0 \<noteq> (0 :: u8)" "0xFF AND 0x0F \<noteq> (0 :: u8)" by code_simp+
  then show ?thesis by (simp add: show_byte_def show_cell_def)
qed

lemma cell_ok_full: "cell_ok (b, 0xFF)"
proof -
  have "NOT 0xFF = (0 :: u8)" by code_simp
  then have "b AND NOT 0xFF = 0" by (simp only: bit.conj_zero_right)
  then show ?thesis unfolding cell_ok_def by (simp only: fst_conv snd_conv insert_iff simp_thms)
qed

subsection \<open>Lemmas on patterns\<close>

definition anchored :: "pattern \<Rightarrow> bool" where
  "anchored p \<longleftrightarrow> 0 < st_anchors (binpat_stats_of (pat_handle p))"

definition fitting :: "pattern \<Rightarrow> bool" where
  "fitting p \<longleftrightarrow>
     (\<exists>b. pat_handle p = [b] \<and> (bp_mask b = [] \<or> length (bp_mask b) = length (bp_bytes b)) \<and>
        pat_flags p = BIN_SEARCH_BITMASK)"

lemma from_parts_anchored:
  assumes "from_parts repr bytes m = Inr p" and "\<And>ms. m = Some ms \<Longrightarrow> length ms = length bytes"
  shows "anchored p \<and> fitting p"
proof (cases m)
  case None
  with assms(1) show ?thesis
    by (auto simp: from_parts_def require_anchor_def count_anchors_def anchored_def fitting_def
        binpat_from_bytes_def binpat_stats_of_def split: if_splits)
next
  case (Some ms)
  then have "0 < length (filter (\<lambda>b. b \<noteq> 0) ms)" "pat_handle p = [\<lparr>bp_bytes = bytes, bp_mask = ms\<rparr>]"
    "pat_flags p = BIN_SEARCH_BITMASK"
    using assms(1)
    by (auto simp: from_parts_def require_anchor_def count_anchors_def binpat_from_bytes_def
        split: if_splits)
  moreover from this(1) have "ms \<noteq> []" by auto
  ultimately show ?thesis
    using assms(2) [OF Some] by (simp add: anchored_def fitting_def binpat_stats_of_def)
qed

lemma parse_mask_length: "parse_mask_chars i cs = Inr ms \<Longrightarrow> length ms = length cs"
  by (induction i cs arbitrary: ms rule: parse_mask_chars.induct) (auto split: if_splits sum.splits)

subsection \<open>Lemmas on the matches\<close>

text \<open>
  What the facade documents of \<open>bin_search\<close>: the first match in the range, \<open>BADADDR\<close> for none.
  Where a pattern matches is up to the kernel and the database.
\<close>

definition first_match :: "bin_search \<Rightarrow> compiled_binpat list \<Rightarrow> u32 \<Rightarrow> u64 \<Rightarrow> (u64 \<Rightarrow> bool) \<Rightarrow> bool" where
  "first_match bs pat flags e hit \<longleftrightarrow>
     (\<forall>s. (bs s e pat flags = BADADDR \<and> (\<forall>a. s \<le> a \<longrightarrow> a < e \<longrightarrow> \<not> hit a)) \<or>
          (s \<le> bs s e pat flags \<and> bs s e pat flags < e \<and> hit (bs s e pat flags) \<and>
           (\<forall>a. s \<le> a \<longrightarrow> a < bs s e pat flags \<longrightarrow> \<not> hit a)))"

definition hits_from :: "(u64 \<Rightarrow> bool) \<Rightarrow> u64 \<Rightarrow> u64 \<Rightarrow> u64 set" where
  "hits_from hit s e = {a. s \<le> a \<and> a < e \<and> hit a}"

lemma hits_from_first:
  assumes "s \<le> h" "h < e" "hit h" "\<forall>a. s \<le> a \<longrightarrow> a < h \<longrightarrow> \<not> hit a"
  shows "hits_from hit s e = insert h (hits_from hit (h + 1) e)" "h \<notin> hits_from hit (h + 1) e"
proof -
  have "unat h < unat e" using assms(2) by (simp add: word_less_nat_alt)
  with unat_less_u64 [of e] have "unat h + 1 < 18446744073709551616" by linarith
  then have "unat (h + 1) = unat h + 1" by (simp add: unat_word_ariths)
  then have step: "h + 1 \<le> a \<longleftrightarrow> h < a" for a
    by (simp add: word_le_nat_alt word_less_nat_alt Suc_le_eq)
  show "hits_from hit s e = insert h (hits_from hit (h + 1) e)"
    using assms by (auto simp: hits_from_def step)
  show "h \<notin> hits_from hit (h + 1) e" by (simp add: hits_from_def step)
qed


lemma collect_hits:
  assumes "first_match bs (pat_handle (mt_pat it)) (pat_flags (mt_pat it)) (address_get (mt_end it)) hit"
    and "mt_cur it = Some start" and "valid_address start" and "valid_address (mt_end it)"
    and "card (hits_from hit (address_get start) (address_get (mt_end it))) < fuel"
  shows "\<exists>as. matches_collect fuel bs it = Some as \<and> sorted_wrt (<) (map address_get as) \<and>
    list_all valid_address as \<and>
    set (map address_get as) = hits_from hit (address_get start) (address_get (mt_end it))"
  using assms
proof (induction fuel arbitrary: it start)
  case (Suc fuel)
  define h where "h = bs (address_get start) (address_get (mt_end it))
      (pat_handle (mt_pat it)) (pat_flags (mt_pat it))"
  let ?hits = "\<lambda>s. hits_from hit s (address_get (mt_end it))"
  show ?case
  proof (cases "h = BADADDR \<or> mt_end it \<le> start")
    case True
    have "?hits (address_get start) = {}"
    proof (cases "mt_end it \<le> start")
      case True
      then show ?thesis by (auto simp: hits_from_def address_le_iff)
    next
      case False
      with True have "h = BADADDR" by simp
      moreover have "h \<noteq> BADADDR" if "h < address_get (mt_end it)"
        using that by (metis BADADDR_def word_order.extremum_strict)
      ultimately show ?thesis
        using Suc.prems(1) by (auto simp: first_match_def hits_from_def h_def)
    qed
    moreover have "matches_next bs it = Some (None, it\<lparr>mt_cur := None\<rparr>)"
      using True Suc.prems(2) 
      by (auto simp: matches_next_def h_def try_new_Some_iff dest: get_ne_BADADDR split: option.splits)
    ultimately show ?thesis by simp
  next
    case False
    then have h: "address_get start \<le> h" "h < address_get (mt_end it)" "hit h"
      "\<forall>a. address_get start \<le> a \<longrightarrow> a < h \<longrightarrow> \<not> hit a"
      using Suc.prems(1) unfolding first_match_def h_def by blast+
    from False obtain a where a: "try_new h = Some a" by (cases "try_new h") auto
    then have va: "valid_address a" "address_get a = h" by (simp_all add: try_new_Some_iff)
    from add_lands [OF va(1), of 1] obtain n where n: "address_add a 1 = Some n" "valid_address n"
      "unat (address_get n) = min (unat h + 1) (2 ^ 64 - 2)" by (auto simp: va(2))
    have "unat h + 1 \<le> 2 ^ 64 - 2"
      using h(2) get_le_MAX_EA [OF Suc.prems(4)] by (simp add: word_less_nat_alt)
    then have "unat (address_get n) = unat (h + 1)" using n(3) by (simp add: unat_word_ariths)
    then have gn: "address_get n = h + 1" by (simp only: word_unat_eq_iff)
    note more = hits_from_first [OF h]
    have fin: "finite (?hits s)" for s by simp
    have "card (?hits (address_get n)) < fuel"
      using Suc.prems(5) more fin by (simp add: gn)
    with Suc.IH [of "it\<lparr>mt_cur := Some n\<rparr>" n] Suc.prems(1,4) n(2) obtain as where
      as: "matches_collect fuel bs (it\<lparr>mt_cur := Some n\<rparr>) = Some as"
      "sorted_wrt (<) (map address_get as)" "list_all valid_address as"
      "set (map address_get as) = ?hits (address_get n)" by auto
    have one: "matches_next bs it = Some (Some a, it\<lparr>mt_cur := Some n\<rparr>)"
      using False Suc.prems(2) a n(1) by (simp add: matches_next_def flip: h_def)
    have "\<forall>x \<in> set (map address_get as). h < x"
    proof
      fix x assume "x \<in> set (map address_get as)"
      then have "h + 1 \<le> x" "x \<noteq> h" using as(4) more(2) by (auto simp: gn hits_from_def)
      then show "h < x"
        using n(3) \<open>unat h + 1 \<le> 2 ^ 64 - 2\<close> by (simp add: word_le_nat_alt word_less_nat_alt flip: gn)
    qed
    then have "sorted_wrt (<) (map address_get (a # as))" using as(2) va(2) by simp
    with one as va more(1) show ?thesis by (simp add: gn)
  qed
qed simp


subsection \<open>Properties\<close>

text \<open>
  The grammar of \<open>hex\<close>: what parses is a list of cells, and the canonical text of those cells
  parses to the same bytes and mask; what does not parse is refused with its first bad token and
  that token's position.
\<close>

theorem hex_grammar:
  "case parse_hex s of
     Inr (bs, ms) \<Rightarrow>
       length bs = length ms \<and> list_all cell_ok (zip bs ms) \<and>
       parse_hex (join_space (map show_cell (zip bs ms))) = Inr (bs, ms)
   | Inl e \<Rightarrow>
       \<exists>pre tok post cells. split_whitespace s = pre @ tok # post \<and>
         map parse_hex_token pre = map Some cells \<and> parse_hex_token tok = None \<and>
         e = BadToken tok (length pre)"
proof (cases "parse_hex s")
  case (Inl e)
  then show ?thesis
    using parse_hex_tokens_bad [of 0 "split_whitespace s" e] by (simp add: parse_hex_def)
next
  case (Inr p)
  obtain bs ms where p: "p = (bs, ms)" by (cases p)
  from parse_hex_ok [of s bs ms] Inr p have ok: "length bs = length ms" "list_all cell_ok (zip bs ms)" by simp_all
  from parse_hex_cells [OF ok(2)] ok show ?thesis by (simp add: Inr p)
qed

text \<open>
  A byte string rendered and compiled as a hex signature is the pattern of those bytes under a
  full mask, the refusal of the empty one included.
\<close>

theorem rendered_hex_is_bytes:
  "pattern_hex (render bytes) = pattern_bytes bytes (Some (replicate (length bytes) 0xFF))"
proof -
  let ?cells = "map (\<lambda>b. (b, 0xFF)) bytes"
  have "list_all cell_ok ?cells" by (simp add: list_all_iff cell_ok_full)
  moreover have "join_space (map show_cell ?cells) = render bytes"
    by (simp add: render_def comp_def flip: show_byte_cell)
  ultimately have "parse_hex (render bytes) = Inr (bytes, replicate (length bytes) 0xFF)"
    using parse_hex_cells [of ?cells] by (simp add: comp_def map_replicate_const)
  then show ?thesis
    by (simp add: pattern_hex_def pattern_bytes_def require_matching_length_def)
qed

text \<open>
  Whichever constructor built it, a pattern pins at least one byte down; and one compiled here
  has a mask as long as its bytes, or none, and is searched bit by bit.
\<close>

theorem patterns_pin_a_byte:
  assumes "Inr p \<in> {pattern_hex s, pattern_code_mask code m, pattern_bytes bytes ms,
      pattern_ida parser ea s radix cs}"
  shows "anchored p \<and> (fitting p \<or> pattern_ida parser ea s radix cs = Inr p)"
proof -
  have "anchored p \<and> fitting p" if "pattern_hex s = Inr p"
  proof -
    from that obtain bs ms where "parse_hex s = Inr (bs, ms)" "from_parts s bs (Some ms) = Inr p"
      by (auto simp: pattern_hex_def split: sum.splits)
    with parse_hex_ok [of s bs ms] from_parts_anchored [of s bs "Some ms" p] show ?thesis by simp
  qed
  moreover have "anchored p \<and> fitting p" if "pattern_code_mask code m = Inr p"
  proof -
    from that obtain k where "length k = length code" "from_parts (render code) code (Some k) = Inr p"
      by (auto simp: pattern_code_mask_def require_matching_length_def Let_def
          split: sum.splits option.splits if_splits)
    with from_parts_anchored [of "render code" code "Some k" p] show ?thesis by simp
  qed
  moreover have "anchored p \<and> fitting p" if "pattern_bytes bytes ms = Inr p"
    using that from_parts_anchored [of "render bytes" bytes ms p]
    by (cases ms) (auto simp: pattern_bytes_def require_matching_length_def split: if_splits)
  moreover have "anchored p" if "pattern_ida parser ea s radix cs = Inr p"
    using that by (auto simp: pattern_ida_def require_anchor_def anchored_def
        split: sum.splits if_splits)
  ultimately show ?thesis using assms by (auto simp: eq_commute)
qed

theorem patterns_pin_a_byte_witness:
  "\<exists>p. pattern_code_mask [0x48, 0x8B] ''x?'' = Inr p \<and> anchored p"
proof -
  obtain p where p: "pattern_code_mask [0x48, 0x8B] ''x?'' = Inr p"
    by (simp add: pattern_code_mask_def parse_mask_def from_parts_def require_anchor_def
        count_anchors_def require_matching_length_def Let_def)
  with patterns_pin_a_byte [of p "[]" "[0x48, 0x8B]" "''x?''" "[]" None "\<lambda>_ _ _. Inl []" 0 0 False]
  show ?thesis by auto
qed

text \<open>
  C28: driven to its end, the search yields every match of the range exactly once, in ascending
  order, overlapping ones included, and it does end, where the kernel answers the first match of
  the range it is given.
\<close>

theorem search_yields_every_match:
  assumes "first_match bs (pat_handle pat) (pat_flags pat) (address_get e) hit"
    and "valid_address start" and "valid_address e"
    and "card (hits_from hit (address_get start) (address_get e)) < fuel"
  shows "\<exists>as. matches_collect fuel bs (search_in start e pat) = Some as \<and>
    sorted_wrt (<) (map address_get as) \<and>
    set (map address_get as) = hits_from hit (address_get start) (address_get e)"
  using collect_hits [of bs "search_in start e pat" hit start fuel] assms
  by (auto simp: search_in_def)

definition sample_hits :: bin_search where
  "sample_hits s e pat flags =
     (if s \<le> 5 \<and> 5 < e then 5 else if s \<le> 6 \<and> 6 < e then 6 else BADADDR)"

definition sample_pattern :: pattern where
  "sample_pattern = \<lparr>pat_handle = [], pat_flags = 0\<rparr>"

lemma sample_hits_first: "first_match sample_hits pat flags 8 (\<lambda>a. a = 5 \<or> a = 6)"
  unfolding first_match_def
proof
  fix s :: u64
  consider "s \<le> 5" | "\<not> s \<le> 5" "s \<le> 6" | "\<not> s \<le> 6" by blast
  then show "(sample_hits s 8 pat flags = BADADDR \<and> (\<forall>a. s \<le> a \<longrightarrow> a < 8 \<longrightarrow> \<not> (a = 5 \<or> a = 6))) \<or>
      (s \<le> sample_hits s 8 pat flags \<and> sample_hits s 8 pat flags < 8 \<and>
       (sample_hits s 8 pat flags = 5 \<or> sample_hits s 8 pat flags = 6) \<and>
       (\<forall>a. s \<le> a \<longrightarrow> a < sample_hits s 8 pat flags \<longrightarrow> \<not> (a = 5 \<or> a = 6)))"
  proof cases
    case 1
    then have "sample_hits s 8 pat flags = 5" by (simp add: sample_hits_def)
    with 1 show ?thesis by auto
  next
    case 2
    then have "sample_hits s 8 pat flags = 6" by (simp add: sample_hits_def)
    with 2 show ?thesis by auto
  next
    case 3
    then have "\<not> s \<le> 5" by (simp add: word_le_nat_alt)
    with 3 show ?thesis by (auto simp: sample_hits_def)
  qed
qed

definition sample_start :: address where
  "sample_start = Address (NOT 4)"

definition sample_end :: address where
  "sample_end = Address (NOT 8)"

lemma sample_range:
  "address_get sample_start = 4" "address_get sample_end = 8"
  "valid_address sample_start" "valid_address sample_end"
  by (simp_all add: sample_start_def sample_end_def address_get_def valid_address_def)

lemma sample_hits_set: "hits_from (\<lambda>a. a = 5 \<or> a = 6) 4 8 = {5, 6}"
  by (auto simp: hits_from_def)

lemma sample_sorted: "sorted_wrt (<) (as :: u64 list) \<Longrightarrow> set as = {5, 6} \<Longrightarrow> as = [5, 6]"
  by (rule strict_sorted_equal) simp_all

theorem search_yields_every_match_witness:
  "\<exists>as. matches_collect 3 sample_hits (search_in sample_start sample_end sample_pattern) = Some as \<and>
     map address_get as = [5, 6]"
proof -
  have few: "card (hits_from (\<lambda>a. a = 5 \<or> a = 6) (address_get sample_start) (address_get sample_end)) < 3"
    unfolding sample_range sample_hits_set by simp
  have first: "first_match sample_hits (pat_handle sample_pattern) (pat_flags sample_pattern)
      (address_get sample_end) (\<lambda>a. a = 5 \<or> a = 6)"
    unfolding sample_range by (rule sample_hits_first)
  from search_yields_every_match [OF first sample_range(3,4) few, unfolded sample_range sample_hits_set]
  show ?thesis using sample_sorted by blast
qed

end
