(* ===== verification/Kernel_Claim.thy ===== *)
theory Kernel_Claim
  imports Prelude
begin

text \<open>
  \<open>kernel.rs\<close> and the claim of \<open>claim.rs\<close>: the process-wide flags a bring-up goes through, the
  thread the kernel takes for its main one, and what threads competing for the kernel can reach.

  The kernel's own initialisation and the location of its private main-thread variable are
  parameters: the code the one answers, and whether the other was found. Threads are numbered;
  \<open>is_main_thread\<close> is what \<open>claim.rs\<close> documents of it, that it claims the caller when the variable is
  null and compares otherwise.
\<close>

subsection \<open>The flags of the process\<close>

record process =
  pr_live :: bool
  pr_inited :: bool
  pr_main :: "nat option"

definition process_start :: process where
  "process_start = \<lparr>pr_live = False, pr_inited = False, pr_main = None\<rparr>"

datatype init_error = AlreadyRunning | ClaimFailed string | InitLibrary "32 word" | KernelGone

text \<open>\<open>KERNEL_LIVE.swap(true)\<close>: an error when it was set, and the flag is set either way.\<close>

definition claim_acquire :: "process \<Rightarrow> (init_error + unit) \<times> process" where
  "claim_acquire p = (if pr_live p then Inl AlreadyRunning else Inr (), p\<lparr>pr_live := True\<rparr>)"

definition claim_release :: "process \<Rightarrow> process" where
  "claim_release p = p\<lparr>pr_live := False\<rparr>"

subsection \<open>The main thread\<close>

definition is_main_thread :: "nat \<Rightarrow> process \<Rightarrow> bool \<times> process" where
  "is_main_thread t p =
     (case pr_main p of
        None \<Rightarrow> (True, p\<lparr>pr_main := Some t\<rparr>)
      | Some t' \<Rightarrow> (t' = t, p))"

definition reclaim :: "nat \<Rightarrow> process \<Rightarrow> (string + unit) \<times> process" where
  "reclaim t p =
     (case is_main_thread t (p\<lparr>pr_main := None\<rparr>) of
        (ok, p') \<Rightarrow>
          (if ok then Inr ()
           else Inl ''re-claim did not take (located g_main address is wrong)'', p'))"

text \<open>\<open>steal_main\<close>, given whether the variable was located.\<close>

definition steal_main :: "string + unit \<Rightarrow> nat \<Rightarrow> process \<Rightarrow> (string + unit) \<times> process" where
  "steal_main located t p =
     (case located of Inl reason \<Rightarrow> (Inl reason, p) | Inr _ \<Rightarrow> reclaim t p)"

text \<open>What every call into the kernel runs first; \<open>None\<close> is the panic of its \<open>expect\<close>.\<close>

definition ensure_kernel_thread :: "string + unit \<Rightarrow> nat \<Rightarrow> process \<Rightarrow> process option" where
  "ensure_kernel_thread located t p =
     (case is_main_thread t p of
        (ok, p') \<Rightarrow>
          if ok then Some p'
          else (case steal_main located t p' of (Inr _, p'') \<Rightarrow> Some p'' | (Inl _, _) \<Rightarrow> None))"

subsection \<open>Bringing the kernel up\<close>

definition bring_up_kernel ::
  "string + unit \<Rightarrow> 32 word \<Rightarrow> nat \<Rightarrow> process \<Rightarrow> (init_error + unit) \<times> process" where
  "bring_up_kernel located rc t p =
     (case steal_main located t p of
        (Inl reason, p1) \<Rightarrow> (Inl (ClaimFailed reason), p1)
      | (Inr _, p1) \<Rightarrow>
          if pr_inited p1 then (Inr (), p1)
          else if rc \<noteq> 0 then (Inl (InitLibrary rc), p1\<lparr>pr_inited := False\<rparr>)
          else (Inr (), p1\<lparr>pr_inited := True\<rparr>))"

text \<open>\<open>here\<close>: an error drops the claim on the way out, success moves it into the \<open>Database\<close>.\<close>

definition kernel_here ::
  "string + unit \<Rightarrow> 32 word \<Rightarrow> nat \<Rightarrow> process \<Rightarrow> (init_error + unit) \<times> process" where
  "kernel_here located rc t p =
     (case claim_acquire p of
        (Inl e, p1) \<Rightarrow> (Inl e, p1)
      | (Inr _, p1) \<Rightarrow>
          (case bring_up_kernel located rc t p1 of
             (Inl e, p2) \<Rightarrow> (Inl e, claim_release p2)
           | (Inr _, p2) \<Rightarrow> (Inr (), p2)))"

text \<open>
  The bring-up half of \<open>run\<close>: the kernel thread \<open>t\<close> makes the setup and sends what came of it;
  \<open>sent\<close> is false when the thread ended before that, which the caller reads as the kernel gone.
\<close>

definition kernel_run_setup ::
  "bool \<Rightarrow> string + unit \<Rightarrow> 32 word \<Rightarrow> nat \<Rightarrow> process \<Rightarrow> (init_error + unit) \<times> process" where
  "kernel_run_setup sent located rc t p =
     (case claim_acquire p of
        (Inl e, p1) \<Rightarrow> (Inl e, p1)
      | (Inr _, p1) \<Rightarrow>
          if \<not> sent then (Inl KernelGone, claim_release p1)
          else
            (case bring_up_kernel located rc t p1 of
               (Inl e, p2) \<Rightarrow> (Inl e, claim_release p2)
             | (Inr _, p2) \<Rightarrow> (Inr (), p2)))"

subsection \<open>Competing for the kernel\<close>

text \<open>
  Sessions interleave at the atomic operations. A session is idle, or holds the claim: before the
  steal, then on its thread before the swap of the library flag, inside the initialisation and before
  the batch mode is set, up, or on its way out.

  A session that is up may be driven from any thread, as \<open>Database\<close> is \<open>Send\<close>; what goes through the
  database runs \<open>ensure_kernel_thread\<close> first. What such a call answers may borrow the database (a
  decompilation, a pattern): its own calls run no guard, and while it lives the database stays on its
  thread and open. Or it may be a live type handle: it borrows nothing and cannot leave its thread,
  and its composites (\<open>pointer\<close>, \<open>array\<close>, \<open>const_\<close>, \<open>volatile_\<close>) and its drop run no guard either.

  Every call is logged with the thread it runs on and the main thread the kernel sees.
\<close>

datatype phase = Idle | Claimed | Stolen nat | Initing nat | Inited nat | Up | Leaving

datatype call_via = ViaClaim | ViaSetup | ViaDatabase | ViaBorrow | ViaHandle

record kernel_log =
  kl_via :: call_via
  kl_thread :: nat
  kl_main :: "nat option"

record kernel_world =
  kw_process :: process
  kw_phase :: "nat \<Rightarrow> phase"
  kw_inits :: "32 word list"
  kw_calls :: "kernel_log list"
  kw_lent :: "nat option"
  kw_handles :: "nat set"

definition world_start :: kernel_world where
  "world_start = \<lparr>kw_process = process_start, kw_phase = (\<lambda>_. Idle), kw_inits = [], kw_calls = [],
     kw_lent = None, kw_handles = {}\<rparr>"

definition call_of :: "call_via \<Rightarrow> nat \<Rightarrow> process \<Rightarrow> kernel_log" where
  "call_of via t p = \<lparr>kl_via = via, kl_thread = t, kl_main = pr_main p\<rparr>"

inductive world_step :: "kernel_world \<Rightarrow> kernel_world \<Rightarrow> bool" where
  w_acquire:
    "kw_phase w i = Idle \<Longrightarrow> claim_acquire (kw_process w) = (Inr (), p) \<Longrightarrow>
     world_step w (w\<lparr>kw_process := p, kw_phase := (kw_phase w)(i := Claimed)\<rparr>)"
| w_busy:
    "kw_phase w i = Idle \<Longrightarrow> claim_acquire (kw_process w) = (Inl e, p) \<Longrightarrow>
     world_step w (w\<lparr>kw_process := p\<rparr>)"
| w_steal:
    "kw_phase w i = Claimed \<Longrightarrow> steal_main located t (kw_process w) = (Inr (), p) \<Longrightarrow>
     world_step w (w\<lparr>kw_process := p, kw_phase := (kw_phase w)(i := Stolen t),
       kw_calls := kw_calls w @ [call_of ViaClaim t p]\<rparr>)"
| w_no_steal:
    "kw_phase w i = Claimed \<Longrightarrow> steal_main located t (kw_process w) = (Inl e, p) \<Longrightarrow>
     world_step w (w\<lparr>kw_process := p, kw_phase := (kw_phase w)(i := Leaving)\<rparr>)"
| w_swap:
    "kw_phase w i = Stolen t \<Longrightarrow> \<not> pr_inited (kw_process w) \<Longrightarrow>
     world_step w (w\<lparr>kw_process := (kw_process w)\<lparr>pr_inited := True\<rparr>,
       kw_phase := (kw_phase w)(i := Initing t)\<rparr>)"
| w_inited:
    "kw_phase w i = Stolen t \<Longrightarrow> pr_inited (kw_process w) \<Longrightarrow>
     world_step w (w\<lparr>kw_phase := (kw_phase w)(i := Inited t)\<rparr>)"
| w_init:
    "kw_phase w i = Initing t \<Longrightarrow>
     world_step w (w\<lparr>kw_phase := (kw_phase w)(i := Inited t), kw_inits := kw_inits w @ [0],
       kw_calls := kw_calls w @ [call_of ViaSetup t (kw_process w)]\<rparr>)"
| w_init_fails:
    "kw_phase w i = Initing t \<Longrightarrow> rc \<noteq> 0 \<Longrightarrow>
     world_step w (w\<lparr>kw_process := (kw_process w)\<lparr>pr_inited := False\<rparr>,
       kw_phase := (kw_phase w)(i := Leaving), kw_inits := kw_inits w @ [rc],
       kw_calls := kw_calls w @ [call_of ViaSetup t (kw_process w)]\<rparr>)"
| w_batch:
    "kw_phase w i = Inited t \<Longrightarrow>
     world_step w (w\<lparr>kw_phase := (kw_phase w)(i := Up),
       kw_calls := kw_calls w @ [call_of ViaSetup t (kw_process w)]\<rparr>)"
| w_call:
    "kw_phase w i = Up \<Longrightarrow> kw_lent w = None \<or> kw_lent w = Some t \<Longrightarrow>
     ensure_kernel_thread located t (kw_process w) = Some p \<Longrightarrow>
     lent = kw_lent w \<or> lent = Some t \<Longrightarrow> handles = kw_handles w \<or> handles = insert t (kw_handles w) \<Longrightarrow>
     world_step w (w\<lparr>kw_process := p, kw_calls := kw_calls w @ [call_of ViaDatabase t p],
       kw_lent := lent, kw_handles := handles\<rparr>)"
| w_borrowed:
    "kw_lent w = Some t \<Longrightarrow>
     world_step w (w\<lparr>kw_calls := kw_calls w @ [call_of ViaBorrow t (kw_process w)]\<rparr>)"
| w_return:
    "kw_lent w = Some t \<Longrightarrow> world_step w (w\<lparr>kw_lent := None\<rparr>)"
| w_handle:
    "t \<in> kw_handles w \<Longrightarrow> handles = kw_handles w \<or> handles = kw_handles w - {t} \<Longrightarrow>
     world_step w (w\<lparr>kw_calls := kw_calls w @ [call_of ViaHandle t (kw_process w)], kw_handles := handles\<rparr>)"
| w_close:
    "kw_phase w i = Up \<Longrightarrow> kw_lent w = None \<Longrightarrow>
     world_step w (w\<lparr>kw_phase := (kw_phase w)(i := Leaving)\<rparr>)"
| w_release:
    "kw_phase w i = Leaving \<Longrightarrow>
     world_step w (w\<lparr>kw_process := claim_release (kw_process w), kw_phase := (kw_phase w)(i := Idle)\<rparr>)"

inductive world_reaches :: "kernel_world \<Rightarrow> bool" where
  world_init: "world_reaches world_start"
| world_next: "world_reaches w \<Longrightarrow> world_step w w' \<Longrightarrow> world_reaches w'"

inductive_cases world_stepE: "world_step w w'"

subsection \<open>Lemmas\<close>

lemmas main_defs = is_main_thread_def reclaim_def steal_main_def ensure_kernel_thread_def

lemma reclaim_main [simp]: "reclaim t p = (Inr (), p\<lparr>pr_main := Some t\<rparr>)"
  by (simp add: reclaim_def is_main_thread_def)

lemma steal_main_eq:
  "steal_main located t p =
     (case located of Inl e \<Rightarrow> (Inl e, p) | Inr _ \<Rightarrow> (Inr (), p\<lparr>pr_main := Some t\<rparr>))"
  by (simp add: steal_main_def split: sum.splits)

lemma main_same: "pr_main p = Some t \<Longrightarrow> p\<lparr>pr_main := Some t\<rparr> = p"
  by (cases p) simp

lemma ensure_main:
  assumes "ensure_kernel_thread located t p = Some p'"
  shows "p' = p\<lparr>pr_main := Some t\<rparr>"
proof (cases "pr_main p = None \<or> pr_main p = Some t")
  case True
  then show ?thesis
    using assms main_same [of p t] by (auto simp: ensure_kernel_thread_def is_main_thread_def)
next
  case False
  then have "is_main_thread t p = (False, p)" by (cases "pr_main p") (simp_all add: is_main_thread_def)
  with assms show ?thesis
    by (cases located) (simp_all add: ensure_kernel_thread_def steal_main_eq split: unit.splits)
qed

lemma claim_acquire_cases:
  "claim_acquire p = (Inr (), p') \<longleftrightarrow> \<not> pr_live p \<and> p' = p\<lparr>pr_live := True\<rparr>"
  "claim_acquire p = (Inl e, p') \<longleftrightarrow> pr_live p \<and> e = AlreadyRunning \<and> p' = p\<lparr>pr_live := True\<rparr>"
  by (auto simp: claim_acquire_def)

lemma steal_main_frame:
  assumes "steal_main located t p = (r, p')"
  shows "pr_live p' = pr_live p \<and> pr_inited p' = pr_inited p"
proof (cases located)
  case (Inl e)
  with assms show ?thesis by (simp add: steal_main_eq)
next
  case (Inr u)
  with assms have "p' = p\<lparr>pr_main := Some t\<rparr>" by (cases u) (simp add: steal_main_eq)
  then show ?thesis by simp
qed

text \<open>
  What holds of every reachable world. At most one session is not idle, and the flag is up exactly
  then. The library flag is set exactly while the library is being brought up or once it is, and no
  call of the initialisation follows one that succeeded. The kernel's main thread is the one of a
  bring-up and of a borrow, and always the thread of the last call that was not a type handle's.
\<close>

definition initing :: "phase \<Rightarrow> bool" where "initing ph \<longleftrightarrow> (\<exists>t. ph = Initing t)"

definition past_init :: "phase \<Rightarrow> bool" where "past_init ph \<longleftrightarrow> ph = Up \<or> (\<exists>t. ph = Inited t)"

definition library_ok :: "32 word list \<Rightarrow> bool \<Rightarrow> phase \<Rightarrow> bool" where
  "library_ok rcs inited ph \<longleftrightarrow>
     0 \<notin> set rcs \<and> (inited \<longleftrightarrow> initing ph) \<and> \<not> past_init ph \<or>
     (\<exists>fails. rcs = fails @ [0] \<and> 0 \<notin> set fails) \<and> inited \<and> \<not> initing ph"

lemma phase_simps [simp]:
  "\<not> initing Idle" "\<not> initing Claimed" "\<not> initing (Stolen t)" "initing (Initing t)" "\<not> initing (Inited t)"
  "\<not> initing Up" "\<not> initing Leaving"
  "\<not> past_init Idle" "\<not> past_init Claimed" "\<not> past_init (Stolen t)" "\<not> past_init (Initing t)"
  "past_init (Inited t)" "past_init Up" "\<not> past_init Leaving"
  by (simp_all add: initing_def past_init_def)

definition on_main :: "kernel_log \<Rightarrow> bool" where
  "on_main c \<longleftrightarrow> kl_main c = Some (kl_thread c)"

lemma on_main_call [simp]:
  "on_main (call_of via t p) \<longleftrightarrow> pr_main p = Some t"
  "kl_via (call_of via t p) = via" "kl_thread (call_of via t p) = t"
  by (simp_all add: on_main_def call_of_def)

fun phase_main :: "phase \<Rightarrow> nat option \<Rightarrow> bool" where
  "phase_main (Stolen t) m \<longleftrightarrow> m = Some t"
| "phase_main (Initing t) m \<longleftrightarrow> m = Some t"
| "phase_main (Inited t) m \<longleftrightarrow> m = Some t"
| "phase_main _ m \<longleftrightarrow> True"

definition calls_ok :: "kernel_log list \<Rightarrow> bool" where
  "calls_ok cs \<longleftrightarrow> list_all (\<lambda>c. kl_via c \<noteq> ViaHandle \<longrightarrow> on_main c) cs"

definition other_threads :: "kernel_log list \<Rightarrow> nat set" where
  "other_threads cs = kl_thread ` {c \<in> set cs. kl_via c \<noteq> ViaHandle}"

lemma other_threads_snoc [simp]:
  "other_threads (cs @ [c]) = (if kl_via c = ViaHandle then other_threads cs else insert (kl_thread c) (other_threads cs))"
proof -
  have "{d \<in> set (cs @ [c]). kl_via d \<noteq> ViaHandle} =
      {d \<in> set cs. kl_via d \<noteq> ViaHandle} \<union> (if kl_via c = ViaHandle then {} else {c})" by auto
  then show ?thesis by (simp only: other_threads_def image_Un) simp
qed

definition one_thread_ok :: "kernel_log list \<Rightarrow> bool" where
  "one_thread_ok cs \<longleftrightarrow> (\<forall>t. other_threads cs \<subseteq> {t} \<longrightarrow> list_all (\<lambda>c. kl_thread c = t \<and> on_main c) cs)"

definition main_inv :: "kernel_world \<Rightarrow> bool" where
  "main_inv w \<longleftrightarrow>
     calls_ok (kw_calls w) \<and> one_thread_ok (kw_calls w) \<and>
     (\<forall>t. kw_lent w = Some t \<longrightarrow> pr_main (kw_process w) = Some t) \<and>
     kw_handles w \<subseteq> other_threads (kw_calls w) \<and>
     (\<forall>t. pr_main (kw_process w) = Some t \<longrightarrow> t \<in> other_threads (kw_calls w)) \<and>
     (pr_main (kw_process w) = None \<longrightarrow> other_threads (kw_calls w) = {})"

definition world_inv :: "kernel_world \<Rightarrow> bool" where
  "world_inv w \<longleftrightarrow> main_inv w \<and>
     (\<exists>i ph. kw_phase w = (\<lambda>_. Idle)(i := ph) \<and> (pr_live (kw_process w) \<longleftrightarrow> ph \<noteq> Idle) \<and>
        (kw_lent w \<noteq> None \<longrightarrow> ph = Up) \<and> phase_main ph (pr_main (kw_process w)) \<and>
        library_ok (kw_inits w) (pr_inited (kw_process w)) ph)"

lemma calls_ok_snoc [simp]:
  "calls_ok (cs @ [c]) \<longleftrightarrow> calls_ok cs \<and> (kl_via c \<noteq> ViaHandle \<longrightarrow> on_main c)"
  by (simp add: calls_ok_def)

lemma one_thread_snoc:
  assumes "one_thread_ok cs"
    and "kl_via c \<noteq> ViaHandle \<Longrightarrow> on_main c"
    and "\<And>t. kl_via c = ViaHandle \<Longrightarrow> other_threads cs \<subseteq> {t} \<Longrightarrow> kl_thread c = t \<and> on_main c"
  shows "one_thread_ok (cs @ [c])"
  using assms by (auto simp: one_thread_ok_def split: if_splits)

text \<open>A call on the main thread of the process it leaves; a call of a type handle.\<close>

lemma main_inv_call:
  assumes "main_inv w" and "via \<noteq> ViaHandle" and "pr_main p = Some t"
    and "kw_lent w' = None \<or> kw_lent w' = Some t" and "kw_handles w' \<subseteq> insert t (kw_handles w)"
    and "kw_calls w' = kw_calls w @ [call_of via t p]" and "pr_main (kw_process w') = Some t"
  shows "main_inv w'"
proof -
  have "one_thread_ok (kw_calls w')"
    unfolding assms(6) by (rule one_thread_snoc) (use assms(1-3) in \<open>simp_all add: main_inv_def\<close>)
  with assms show ?thesis by (auto simp: main_inv_def)
qed

lemma main_inv_handle:
  assumes "main_inv w" and "t \<in> kw_handles w" and "handles \<subseteq> kw_handles w"
  shows "main_inv (w\<lparr>kw_calls := kw_calls w @ [call_of ViaHandle t (kw_process w)], kw_handles := handles\<rparr>)"
proof -
  have "one_thread_ok (kw_calls w @ [call_of ViaHandle t (kw_process w)])"
  proof (rule one_thread_snoc)
    show "one_thread_ok (kw_calls w)" using assms(1) by (simp add: main_inv_def)
    fix t' assume one: "other_threads (kw_calls w) \<subseteq> {t'}"
    with assms(1,2) have "t = t'" by (auto simp: main_inv_def)
    moreover from one assms(1,2) have "pr_main (kw_process w) = Some t'"
      by (auto simp: main_inv_def split: option.splits)
    ultimately show "kl_thread (call_of ViaHandle t (kw_process w)) = t' \<and>
        on_main (call_of ViaHandle t (kw_process w))" by simp
  qed simp
  with assms show ?thesis by (auto simp: main_inv_def)
qed

lemma main_inv_frame:
  assumes "main_inv w" and "kw_calls w' = kw_calls w" "kw_handles w' \<subseteq> kw_handles w"
    and "kw_lent w' = None \<or> kw_lent w' = kw_lent w" and "pr_main (kw_process w') = pr_main (kw_process w)"
  shows "main_inv w'"
proof -
  have "\<forall>t. kw_lent w' = Some t \<longrightarrow> pr_main (kw_process w') = Some t"
    using assms(1,4,5) by (auto simp: main_inv_def)
  with assms(1,2,3,5) show ?thesis unfolding main_inv_def by (metis subset_trans)
qed

lemma world_inv_start: "world_inv world_start"
  unfolding world_inv_def
  by (intro conjI exI [of _ 0] exI [of _ Idle])
    (simp_all add: world_start_def process_start_def library_ok_def fun_upd_idem main_inv_def calls_ok_def
      one_thread_ok_def other_threads_def)

lemma world_invI:
  "main_inv w \<Longrightarrow> kw_phase w = (\<lambda>_. Idle)(i := ph) \<Longrightarrow> (pr_live (kw_process w) \<longleftrightarrow> ph \<noteq> Idle) \<Longrightarrow>
   (kw_lent w \<noteq> None \<longrightarrow> ph = Up) \<Longrightarrow> phase_main ph (pr_main (kw_process w)) \<Longrightarrow>
   library_ok (kw_inits w) (pr_inited (kw_process w)) ph \<Longrightarrow> world_inv w"
  unfolding world_inv_def by blast

lemma world_invE:
  assumes "world_inv w" and "kw_phase w i \<noteq> Idle"
  obtains "main_inv w" "kw_phase w = (\<lambda>_. Idle)(i := kw_phase w i)" "pr_live (kw_process w)"
    "kw_lent w \<noteq> None \<longrightarrow> kw_phase w i = Up" "phase_main (kw_phase w i) (pr_main (kw_process w))"
    "library_ok (kw_inits w) (pr_inited (kw_process w)) (kw_phase w i)"
  using assms unfolding world_inv_def by (metis fun_upd_apply)

text \<open>A step that moves the one session there is, the main thread aside.\<close>

lemma session_moves:
  assumes "world_inv w" and "kw_phase w i \<noteq> Idle" and "main_inv w'"
    and "kw_phase w' = (kw_phase w)(i := ph)" and "pr_live (kw_process w') \<longleftrightarrow> ph \<noteq> Idle"
    and "kw_lent w' = None \<or> ph = Up" and "phase_main ph (pr_main (kw_process w'))"
    and "library_ok (kw_inits w) (pr_inited (kw_process w)) (kw_phase w i) \<Longrightarrow>
      library_ok (kw_inits w') (pr_inited (kw_process w')) ph"
  shows "world_inv w'"
proof -
  from assms(1,2) obtain inv: "kw_phase w = (\<lambda>_. Idle)(i := kw_phase w i)"
    "library_ok (kw_inits w) (pr_inited (kw_process w)) (kw_phase w i)" by (elim world_invE)
  from inv(1) assms(4) have "kw_phase w' = (\<lambda>_. Idle)(i := ph)" by (metis fun_upd_upd)
  with assms inv(2) show ?thesis by (intro world_invI [of w' i ph]) auto
qed

lemma world_inv_step:
  assumes "world_step w w'" and "world_inv w"
  shows "world_inv w'"
  using assms(1)
proof (cases rule: world_step.cases)
  case (w_acquire i p)
  from assms(2) w_acquire have idle: "kw_phase w = (\<lambda>_. Idle)"
    by (auto simp: world_inv_def claim_acquire_cases)
  from assms(2) have m: "main_inv w" by (simp add: world_inv_def)
  have "main_inv w'" by (rule main_inv_frame [OF m]) (use w_acquire in \<open>simp_all add: claim_acquire_cases\<close>)
  moreover have "kw_lent w = None" "library_ok (kw_inits w) (pr_inited (kw_process w)) Claimed"
    using assms(2) w_acquire by (auto simp: world_inv_def claim_acquire_cases library_ok_def)
  ultimately show ?thesis
    using w_acquire idle by (intro world_invI [of _ i Claimed]) (auto simp: claim_acquire_cases)
next
  case (w_busy i e p)
  then have "w' = w" by (cases w) (auto simp: claim_acquire_cases)
  with assms(2) show ?thesis by simp
next
  case (w_steal i located t p)
  from assms(2) w_steal obtain inv: "main_inv w" "kw_lent w = None" "pr_live (kw_process w)"
    by (elim world_invE [of w i]) auto
  from w_steal(3) have p: "pr_main p = Some t" by (auto simp: steal_main_eq split: sum.splits)
  show ?thesis
    by (rule session_moves [OF assms(2), of i _ "Stolen t"])
      (use w_steal inv p steal_main_frame [OF w_steal(3)] main_inv_call [OF inv(1) _ p, of ViaClaim w'] in
        \<open>auto simp: library_ok_def\<close>)
next
  case (w_no_steal i located t e p)
  from assms(2) w_no_steal obtain inv: "main_inv w" "kw_lent w = None" "pr_live (kw_process w)"
    by (elim world_invE [of w i]) auto
  from w_no_steal(3) have p: "p = kw_process w" by (auto simp: steal_main_eq split: sum.splits)
  show ?thesis
    by (rule session_moves [OF assms(2), of i _ Leaving])
      (use w_no_steal inv p main_inv_frame [OF inv(1), of w'] in \<open>auto simp: library_ok_def\<close>)
next
  case (w_swap i t)
  from assms(2) w_swap obtain inv: "main_inv w" "kw_lent w = None" "pr_live (kw_process w)"
    "pr_main (kw_process w) = Some t" by (elim world_invE [of w i]) auto
  show ?thesis
    by (rule session_moves [OF assms(2), of i _ "Initing t"])
      (use w_swap inv main_inv_frame [OF inv(1), of w'] in \<open>auto simp: library_ok_def\<close>)
next
  case (w_inited i t)
  from assms(2) w_inited obtain inv: "main_inv w" "kw_lent w = None" "pr_live (kw_process w)"
    "pr_main (kw_process w) = Some t" by (elim world_invE [of w i]) auto
  show ?thesis
    by (rule session_moves [OF assms(2), of i _ "Inited t"])
      (use w_inited inv main_inv_frame [OF inv(1), of w'] in \<open>auto simp: library_ok_def\<close>)
next
  case (w_init i t)
  from assms(2) w_init obtain inv: "main_inv w" "kw_lent w = None" "pr_live (kw_process w)"
    "pr_main (kw_process w) = Some t" by (elim world_invE [of w i]) auto
  show ?thesis
    by (rule session_moves [OF assms(2), of i _ "Inited t"])
      (use w_init inv main_inv_call [OF inv(1) _ inv(4), of ViaSetup w'] in \<open>auto simp: library_ok_def\<close>)
next
  case (w_init_fails i t rc)
  from assms(2) w_init_fails obtain inv: "main_inv w" "kw_lent w = None" "pr_live (kw_process w)"
    "pr_main (kw_process w) = Some t" by (elim world_invE [of w i]) auto
  show ?thesis
    by (rule session_moves [OF assms(2), of i _ Leaving])
      (use w_init_fails inv main_inv_call [OF inv(1) _ inv(4), of ViaSetup w'] in \<open>auto simp: library_ok_def\<close>)
next
  case (w_batch i t)
  from assms(2) w_batch obtain inv: "main_inv w" "kw_lent w = None" "pr_live (kw_process w)"
    "pr_main (kw_process w) = Some t" by (elim world_invE [of w i]) auto
  show ?thesis
    by (rule session_moves [OF assms(2), of i _ Up])
      (use w_batch inv main_inv_call [OF inv(1) _ inv(4), of ViaSetup w'] in \<open>auto simp: library_ok_def\<close>)
next
  case (w_call i t located p lent handles)
  from assms(2) w_call obtain inv: "main_inv w" "pr_live (kw_process w)" by (elim world_invE [of w i]) auto
  have p: "pr_main p = Some t" "pr_live p = pr_live (kw_process w)" "pr_inited p = pr_inited (kw_process w)"
    using ensure_main [OF w_call(4)] by simp_all
  show ?thesis
    by (rule session_moves [OF assms(2), of i _ Up])
      (use w_call inv p main_inv_call [OF inv(1) _ p(1), of ViaDatabase w'] in auto)
next
  case (w_borrowed t)
  from assms(2) obtain i ph where inv: "kw_phase w = (\<lambda>_. Idle)(i := ph)" "ph = Up" "main_inv w"
    using w_borrowed by (auto simp: world_inv_def)
  have main: "pr_main (kw_process w) = Some t" using inv(3) w_borrowed(2) by (simp add: main_inv_def)
  have "main_inv w'"
    by (rule main_inv_call [OF inv(3) _ main, of ViaBorrow]) (use w_borrowed main in auto)
  with assms(2) w_borrowed show ?thesis by (auto simp: world_inv_def)
next
  case (w_return t)
  have "main_inv w'" by (rule main_inv_frame [of w]) (use assms(2) w_return in \<open>auto simp: world_inv_def\<close>)
  moreover obtain i where "kw_phase w = (\<lambda>_. Idle)(i := Up)" "pr_live (kw_process w)"
    "library_ok (kw_inits w) (pr_inited (kw_process w)) Up"
    using assms(2) w_return by (auto simp: world_inv_def)
  ultimately show ?thesis using w_return by (intro world_invI [of _ i Up]) simp_all
next
  case (w_handle t handles)
  have "main_inv w'"
    unfolding w_handle(1) by (rule main_inv_handle) (use assms(2) w_handle in \<open>auto simp: world_inv_def\<close>)
  with assms(2) w_handle show ?thesis by (auto simp: world_inv_def)
next
  case (w_close i)
  from assms(2) w_close obtain inv: "main_inv w" "pr_live (kw_process w)" by (elim world_invE [of w i]) auto
  show ?thesis
    by (rule session_moves [OF assms(2), of i _ Leaving])
      (use w_close inv main_inv_frame [OF inv(1), of w'] in \<open>auto simp: library_ok_def\<close>)
next
  case (w_release i)
  from assms(2) w_release obtain inv: "main_inv w" "kw_lent w = None" by (elim world_invE [of w i]) auto
  show ?thesis
    by (rule session_moves [OF assms(2), of i _ Idle])
      (use w_release inv main_inv_frame [OF inv(1), of w'] in \<open>auto simp: library_ok_def claim_release_def\<close>)
qed

lemma world_reaches_inv: "world_reaches w \<Longrightarrow> world_inv w"
  by (induction rule: world_reaches.induct) (auto intro: world_inv_start world_inv_step)

text \<open>\<open>here\<close> as the steps it is made of: one session moves, the others stay.\<close>

definition session_at ::
  "kernel_world \<Rightarrow> nat \<Rightarrow> phase \<Rightarrow> process \<Rightarrow> 32 word list \<Rightarrow> kernel_log list \<Rightarrow> kernel_world" where
  "session_at w i ph p rcs cs =
     \<lparr>kw_process = p, kw_phase = (kw_phase w)(i := ph), kw_inits = rcs, kw_calls = cs, kw_lent = kw_lent w,
      kw_handles = kw_handles w\<rparr>"

lemma session_at_simps [simp]:
  "kw_process (session_at w i ph p rcs cs) = p"
  "kw_inits (session_at w i ph p rcs cs) = rcs" "kw_calls (session_at w i ph p rcs cs) = cs"
  "kw_phase (session_at w i ph p rcs cs) = (kw_phase w)(i := ph)"
  by (simp_all add: session_at_def)

lemma session_at_self: "kw_phase w i = ph \<Longrightarrow> session_at w i ph (kw_process w) (kw_inits w) (kw_calls w) = w"
  by (cases w) (simp add: session_at_def fun_upd_idem)

lemma session_acquire:
  "claim_acquire p = (Inr (), p') \<Longrightarrow> world_step (session_at w i Idle p rcs cs) (session_at w i Claimed p' rcs cs)"
  using w_acquire [of "session_at w i Idle p rcs cs" i p'] by (simp add: session_at_def)

lemma session_steal:
  "steal_main located t p = (Inr (), p') \<Longrightarrow>
   world_step (session_at w i Claimed p rcs cs) (session_at w i (Stolen t) p' rcs (cs @ [call_of ViaClaim t p']))"
  using w_steal [of "session_at w i Claimed p rcs cs" i located t p'] by (simp add: session_at_def)

lemma session_no_steal:
  "steal_main located t p = (Inl e, p') \<Longrightarrow>
   world_step (session_at w i Claimed p rcs cs) (session_at w i Leaving p' rcs cs)"
  using w_no_steal [of "session_at w i Claimed p rcs cs" i located t e p'] by (simp add: session_at_def)

lemma session_swap:
  "\<not> pr_inited p \<Longrightarrow>
   world_step (session_at w i (Stolen t) p rcs cs) (session_at w i (Initing t) (p\<lparr>pr_inited := True\<rparr>) rcs cs)"
  using w_swap [of "session_at w i (Stolen t) p rcs cs" i t] by (simp add: session_at_def)

lemma session_inited:
  "pr_inited p \<Longrightarrow> world_step (session_at w i (Stolen t) p rcs cs) (session_at w i (Inited t) p rcs cs)"
  using w_inited [of "session_at w i (Stolen t) p rcs cs" i t] by (simp add: session_at_def)

lemma session_init:
  "world_step (session_at w i (Initing t) p rcs cs)
     (session_at w i (Inited t) p (rcs @ [0]) (cs @ [call_of ViaSetup t p]))"
  using w_init [of "session_at w i (Initing t) p rcs cs" i t] by (simp add: session_at_def)

lemma session_init_fails:
  "rc \<noteq> 0 \<Longrightarrow> world_step (session_at w i (Initing t) p rcs cs)
     (session_at w i Leaving (p\<lparr>pr_inited := False\<rparr>) (rcs @ [rc]) (cs @ [call_of ViaSetup t p]))"
  using w_init_fails [of "session_at w i (Initing t) p rcs cs" i t rc] by (simp add: session_at_def)

lemma session_batch:
  "world_step (session_at w i (Inited t) p rcs cs) (session_at w i Up p rcs (cs @ [call_of ViaSetup t p]))"
  using w_batch [of "session_at w i (Inited t) p rcs cs" i t] by (simp add: session_at_def)

lemma session_release:
  "world_step (session_at w i Leaving p rcs cs) (session_at w i Idle (claim_release p) rcs cs)"
  using w_release [of "session_at w i Leaving p rcs cs" i] by (simp add: session_at_def)

lemma here_steps:
  assumes idle: "kw_phase w i = Idle" and here: "kernel_here located rc t (kw_process w) = (r, p')"
  shows "\<exists>w'. world_step\<^sup>*\<^sup>* w w' \<and> kw_process w' = p' \<and>
    kw_phase w' = (kw_phase w)(i := if r = Inr () then Up else Idle)"
proof (cases "pr_live (kw_process w)")
  case True
  then have "claim_acquire (kw_process w) = (Inl AlreadyRunning, kw_process w\<lparr>pr_live := True\<rparr>)"
    by (simp add: claim_acquire_def)
  with here idle w_busy [OF idle this] show ?thesis
    by (intro exI [of _ "w\<lparr>kw_process := kw_process w\<lparr>pr_live := True\<rparr>\<rparr>"])
      (auto simp: kernel_here_def fun_upd_idem)
next
  case False
  define p1 where "p1 = kw_process w\<lparr>pr_live := True\<rparr>"
  let ?at = "session_at w i" and ?rcs = "kw_inits w" and ?cs = "kw_calls w"
  have acq: "claim_acquire (kw_process w) = (Inr (), p1)"
    using False by (simp add: claim_acquire_def p1_def)
  have s1: "world_step\<^sup>*\<^sup>* w (?at Claimed p1 ?rcs ?cs)"
    using session_acquire [OF acq, of w i ?rcs ?cs] session_at_self [OF idle] by simp
  have leave: "\<exists>w'. world_step\<^sup>*\<^sup>* w w' \<and> kw_process w' = claim_release p \<and>
      kw_phase w' = (kw_phase w)(i := Idle)" if "world_step\<^sup>*\<^sup>* w (?at Leaving p rcs cs)" for p rcs cs
    using rtranclp.rtrancl_into_rtrancl [OF that session_release]
    by (intro exI [of _ "?at Idle (claim_release p) rcs cs"]) simp
  have up: "\<exists>w'. world_step\<^sup>*\<^sup>* w w' \<and> kw_process w' = p \<and> kw_phase w' = (kw_phase w)(i := Up)"
    if "world_step\<^sup>*\<^sup>* w (?at (Inited t) p rcs cs)" for p rcs cs
    using rtranclp.rtrancl_into_rtrancl [OF that session_batch]
    by (intro exI [of _ "?at Up p rcs (cs @ [call_of ViaSetup t p])"]) simp
  show ?thesis
  proof (cases located)
    case (Inl e)
    then have "steal_main located t p1 = (Inl e, p1)" by (simp add: steal_main_eq)
    from leave [OF rtranclp.rtrancl_into_rtrancl [OF s1 session_no_steal [OF this]]] here Inl acq
    show ?thesis by (auto simp: kernel_here_def bring_up_kernel_def steal_main_eq)
  next
    case (Inr u)
    define p2 where "p2 = p1\<lparr>pr_main := Some t\<rparr>"
    have steal: "steal_main located t p1 = (Inr (), p2)" using Inr by (simp add: steal_main_eq p2_def)
    note s2 = rtranclp.rtrancl_into_rtrancl [OF s1 session_steal [OF steal]]
    have here': "kernel_here located rc t (kw_process w) =
        (if pr_inited p2 then (Inr (), p2)
         else if rc \<noteq> 0 then (Inl (InitLibrary rc), claim_release (p2\<lparr>pr_inited := False\<rparr>))
         else (Inr (), p2\<lparr>pr_inited := True\<rparr>))"
      by (simp add: kernel_here_def bring_up_kernel_def acq steal)
    show ?thesis
    proof (cases "pr_inited p2")
      case True
      from up [OF rtranclp.rtrancl_into_rtrancl [OF s2 session_inited [OF True]]] here here' True
      show ?thesis by auto
    next
      case fresh: False
      note s3 = rtranclp.rtrancl_into_rtrancl [OF s2 session_swap [OF fresh]]
      show ?thesis
      proof (cases "rc = 0")
        case True
        from up [OF rtranclp.rtrancl_into_rtrancl [OF s3 session_init]] here here' fresh True
        show ?thesis by auto
      next
        case False
        from leave [OF rtranclp.rtrancl_into_rtrancl [OF s3 session_init_fails [OF False]]]
          here here' fresh False
        show ?thesis by auto
      qed
    qed
  qed
qed

subsection \<open>Properties\<close>

text \<open>
  C24: however the threads of the process interleave, at most one session holds the kernel, and the flag
  is up exactly while one does; every call of a bring-up, every call that goes through a database,
  wherever it had moved, and every call of a handle that borrows one runs on the thread the kernel
  takes for its main one. The calls of a live type handle, which neither run the guard nor borrow the
  database, are known to run there only as long as every other call was made on one thread.
\<close>

theorem one_kernel_per_process:
  assumes "world_reaches w"
  shows "(kw_phase w i \<noteq> Idle \<and> kw_phase w j \<noteq> Idle \<longrightarrow> i = j) \<and>
    (pr_live (kw_process w) \<longleftrightarrow> (\<exists>k. kw_phase w k \<noteq> Idle)) \<and>
    (\<forall>c \<in> set (kw_calls w). kl_via c \<noteq> ViaHandle \<longrightarrow> kl_main c = Some (kl_thread c)) \<and>
    (kl_thread ` {c \<in> set (kw_calls w). kl_via c \<noteq> ViaHandle} \<subseteq> {t} \<longrightarrow>
       (\<forall>c \<in> set (kw_calls w). kl_thread c = t \<and> kl_main c = Some t))"
proof -
  from world_reaches_inv [OF assms] obtain k ph where inv: "main_inv w" "kw_phase w = (\<lambda>_. Idle)(k := ph)"
    "pr_live (kw_process w) \<longleftrightarrow> ph \<noteq> Idle" unfolding world_inv_def by blast
  from inv(1) have "\<forall>c \<in> set (kw_calls w). kl_via c \<noteq> ViaHandle \<longrightarrow> kl_main c = Some (kl_thread c)"
    "kl_thread ` {c \<in> set (kw_calls w). kl_via c \<noteq> ViaHandle} \<subseteq> {t} \<longrightarrow>
       (\<forall>c \<in> set (kw_calls w). kl_thread c = t \<and> kl_main c = Some t)"
    by (auto simp: main_inv_def calls_ok_def one_thread_ok_def other_threads_def on_main_def list_all_iff)
  with inv(2,3) show ?thesis by (auto split: if_splits)
qed

text \<open>
  C40: the library is initialised once in the life of the process: initialisations that failed may
  be tried again, none follows the one that succeeded, and a session is up only after it.
\<close>

theorem library_initialised_once:
  assumes "world_reaches w"
  shows "\<exists>fails n. kw_inits w = fails @ replicate n 0 \<and> 0 \<notin> set fails \<and> n \<le> 1 \<and>
    (kw_phase w i = Up \<longrightarrow> n = 1)"
proof -
  from world_reaches_inv [OF assms] obtain j ph where w: "kw_phase w = (\<lambda>_. Idle)(j := ph)"
    "library_ok (kw_inits w) (pr_inited (kw_process w)) ph" unfolding world_inv_def by blast
  from w(2) consider "0 \<notin> set (kw_inits w)" "\<not> past_init ph"
    | fails where "kw_inits w = fails @ [0]" "0 \<notin> set fails" unfolding library_ok_def by blast
  then show ?thesis
  proof cases
    case 1
    then have "ph \<noteq> Up" by auto
    with 1 w(1) show ?thesis by (intro exI [of _ "kw_inits w"] exI [of _ 0]) simp
  next
    case 2
    then show ?thesis by (intro exI [of _ fails] exI [of _ 1]) simp
  qed
qed

text \<open>
  Bringing the kernel up in place is a run of those atomic steps by one session: it ends with
  the session up exactly when \<open>here\<close> answers a database, and idle, the claim given back, on every
  error.
\<close>

theorem here_refines_steps:
  assumes "kw_phase w i = Idle" and "kernel_here located rc t (kw_process w) = (r, p')"
  shows "\<exists>w'. world_step\<^sup>*\<^sup>* w w' \<and> kw_process w' = p' \<and>
    kw_phase w' = (kw_phase w)(i := if r = Inr () then Up else Idle)"
  by (rule here_steps [OF assms])

theorem here_refines_steps_witness:
  "\<exists>w'. world_step\<^sup>*\<^sup>* world_start w' \<and> kw_phase w' 3 = Up \<and> pr_main (kw_process w') = Some 7"
proof -
  have "kernel_here (Inr ()) 0 7 (kw_process world_start) =
      (Inr (), \<lparr>pr_live = True, pr_inited = True, pr_main = Some 7\<rparr>)"
    by (simp add: kernel_here_def bring_up_kernel_def steal_main_eq claim_acquire_def world_start_def
        process_start_def)
  from here_refines_steps [OF _ this, of 3] show ?thesis by (auto simp: world_start_def)
qed

lemma reaches_steps: "world_step\<^sup>*\<^sup>* w w' \<Longrightarrow> world_reaches w \<Longrightarrow> world_reaches w'"
  by (induction rule: rtranclp.induct) (auto intro: world_next)

lemma sample_world: "\<exists>w. world_reaches w \<and> kw_phase w 3 = Up"
proof -
  have "\<exists>p. kernel_here (Inr ()) 0 7 (kw_process world_start) = (Inr (), p)"
    by (simp add: kernel_here_def bring_up_kernel_def steal_main_eq claim_acquire_def world_start_def
        process_start_def)
  then obtain p where p: "kernel_here (Inr ()) 0 7 (kw_process world_start) = (Inr (), p)" by blast
  have idle: "kw_phase world_start 3 = Idle" by (simp add: world_start_def)
  from here_steps [OF idle p] obtain w where "world_step\<^sup>*\<^sup>* world_start w" "kw_phase w 3 = Up"
    by auto
  then show ?thesis using reaches_steps world_init by blast
qed

text \<open>
  A session that is up makes a type handle on one thread; the database moves to another and is driven
  from there; then the handle, which stayed behind, is used.
\<close>

lemma moved_world:
  "\<exists>w. world_reaches w \<and> kw_phase w 3 = Up \<and> (\<exists>cs. kw_calls w = cs @
     [\<lparr>kl_via = ViaDatabase, kl_thread = 7, kl_main = Some 7\<rparr>, \<lparr>kl_via = ViaDatabase, kl_thread = 8, kl_main = Some 8\<rparr>,
      \<lparr>kl_via = ViaHandle, kl_thread = 7, kl_main = Some 8\<rparr>])"
proof -
  from sample_world obtain w where w: "world_reaches w" "kw_phase w 3 = Up" by blast
  from w have lent: "kw_lent w = None \<or> (\<exists>t. kw_lent w = Some t)" by auto
  obtain w0 where w0: "world_reaches w0" "kw_phase w0 3 = Up" "kw_lent w0 = None"
  proof (cases "kw_lent w")
    case (Some t)
    from world_next [OF w(1) w_return [OF this]] w(2) that show ?thesis by auto
  qed (use w that in blast)
  let ?p = "\<lambda>t. (kw_process w0)\<lparr>pr_main := Some t\<rparr>"
  have guard: "ensure_kernel_thread (Inr ()) t p = Some (p\<lparr>pr_main := Some t\<rparr>)" for t p
    using main_same [of p t] by (auto simp: ensure_kernel_thread_def is_main_thread_def steal_main_eq split: option.splits)
  let ?w1 = "w0\<lparr>kw_process := ?p 7, kw_calls := kw_calls w0 @ [call_of ViaDatabase 7 (?p 7)],
      kw_lent := None, kw_handles := insert 7 (kw_handles w0)\<rparr>"
  have s1: "world_step w0 ?w1"
    by (rule w_call [of w0 3 7 "Inr ()"]) (use w0 guard in auto)
  let ?w2 = "?w1\<lparr>kw_process := ?p 8, kw_calls := kw_calls ?w1 @ [call_of ViaDatabase 8 (?p 8)],
      kw_lent := None, kw_handles := kw_handles ?w1\<rparr>"
  have s2: "world_step ?w1 ?w2"
    by (rule w_call [of ?w1 3 8 "Inr ()"]) (use w0 guard [of 8 "?p 7"] in auto)
  let ?w3 = "?w2\<lparr>kw_calls := kw_calls ?w2 @ [call_of ViaHandle 7 (kw_process ?w2)], kw_handles := kw_handles ?w2\<rparr>"
  have s3: "world_step ?w2 ?w3" by (rule w_handle) simp_all
  have "world_reaches ?w3" using world_next [OF world_next [OF world_next [OF w0(1) s1] s2] s3] .
  moreover have "kw_phase ?w3 3 = Up" using w0 by simp
  moreover have "kw_calls ?w3 = kw_calls w0 @
     [\<lparr>kl_via = ViaDatabase, kl_thread = 7, kl_main = Some 7\<rparr>, \<lparr>kl_via = ViaDatabase, kl_thread = 8, kl_main = Some 8\<rparr>,
      \<lparr>kl_via = ViaHandle, kl_thread = 7, kl_main = Some 8\<rparr>]" by (simp add: call_of_def)
  ultimately show ?thesis by blast
qed

theorem one_kernel_per_process_witness:
  "\<exists>(w :: kernel_world) cs. kw_phase w 3 = Up \<and> kw_phase w 4 = Idle \<and> pr_live (kw_process w) \<and>
     kw_calls w \<noteq> [] \<and> (\<forall>c \<in> set (kw_calls w). kl_via c \<noteq> ViaHandle \<longrightarrow> kl_main c = Some (kl_thread c))"
proof -
  from moved_world obtain w where w: "world_reaches w" "kw_phase w 3 = Up" "kw_calls w \<noteq> []" by auto
  then have "\<exists>k. kw_phase w k \<noteq> Idle" by (intro exI [of _ 3]) simp
  with one_kernel_per_process [OF w(1), of 3 4] w(2,3) show ?thesis by (intro exI [of _ w]) auto
qed

text \<open>
  The kernel is called off its main thread: a type handle is confined to its thread and runs no guard,
  so the database moving on leaves it behind, and its composites then call a kernel whose main
  thread is another.
\<close>

theorem type_handle_off_main:
  "\<exists>w. world_reaches w \<and> (\<exists>c \<in> set (kw_calls w). kl_via c = ViaHandle \<and> kl_main c \<noteq> Some (kl_thread c))"
proof -
  from moved_world obtain w cs where w: "world_reaches w" "kw_calls w = cs @
     [\<lparr>kl_via = ViaDatabase, kl_thread = 7, kl_main = Some 7\<rparr>, \<lparr>kl_via = ViaDatabase, kl_thread = 8, kl_main = Some 8\<rparr>,
      \<lparr>kl_via = ViaHandle, kl_thread = 7, kl_main = Some 8\<rparr>]" by blast
  then show ?thesis by (intro exI [of _ w]) auto
qed

theorem library_initialised_once_witness:
  "\<exists>(w :: kernel_world) fails. kw_phase w 3 = Up \<and> kw_inits w = fails @ [0] \<and> 0 \<notin> set fails"
proof -
  from sample_world obtain w where w: "world_reaches w" "kw_phase w 3 = Up" by blast
  from library_initialised_once [OF w(1), of 3] w(2) show ?thesis by (intro exI [of _ w]) auto
qed

end
