(* ===== verification/Kernel_Actor.thy ===== *)
theory Kernel_Actor
  imports Prelude
begin

text \<open>
  The kernel thread of \<open>kernel.rs\<close>: \<open>run\<close> hands out a cloneable handle, \<open>call\<close> sends a closure to
  the pump and waits for its answer, and \<open>run\<close> returns once the kernel thread is joined.

  A closure is a function of the database; it answers a value or panics, and may have changed the
  database either way. The channel keeps its order; the pump ends when every sender is gone and the
  queue is empty. Handles are counted: those somebody may still clone, use and drop, and among them
  the ones the value \<open>app\<close> returned holds, which nobody can drop before \<open>run\<close> has returned it.
\<close>

subsection \<open>Calls\<close>

datatype call_error = Panicked | Disconnected

type_synonym ('s, 'r) job = "'s \<Rightarrow> 'r option \<times> 's"

text \<open>What \<open>call\<close> answers for a closure that ran: \<open>catch_unwind\<close> turns its panic into an error.\<close>

definition call_answer :: "'r option \<Rightarrow> call_error + 'r" where
  "call_answer r = (case r of Some v \<Rightarrow> Inr v | None \<Rightarrow> Inl Panicked)"

record ('s, 'r) actor =
  ac_queue :: "(nat \<times> ('s, 'r) job) list"
  ac_db :: 's
  ac_pumping :: bool
  ac_closed :: bool
  ac_handles :: nat
  ac_kept :: nat
  ac_app_done :: bool
  ac_joined :: bool
  ac_sent :: "(nat \<times> ('s, 'r) job) list"
  ac_replies :: "(nat \<times> (call_error + 'r)) list"

definition actor_start :: "'s \<Rightarrow> ('s, 'r) actor" where
  "actor_start db =
     \<lparr>ac_queue = [], ac_db = db, ac_pumping = True, ac_closed = False, ac_handles = 1, ac_kept = 0,
      ac_app_done = False, ac_joined = False, ac_sent = [], ac_replies = []\<rparr>"

text \<open>One turn of the pump, on the job at the front of the queue.\<close>

definition pump_job :: "nat \<times> ('s, 'r) job \<Rightarrow> ('s, 'r) actor \<Rightarrow> ('s, 'r) actor" where
  "pump_job j a =
     (let (r, db') = snd j (ac_db a)
      in a\<lparr>ac_db := db', ac_replies := ac_replies a @ [(fst j, call_answer r)]\<rparr>)"

inductive actor_step :: "('s, 'r) actor \<Rightarrow> ('s, 'r) actor \<Rightarrow> bool" where
  a_send:
    "0 < ac_handles a \<Longrightarrow> ac_pumping a \<Longrightarrow> c \<notin> fst ` set (ac_sent a) \<Longrightarrow>
     actor_step a (a\<lparr>ac_queue := ac_queue a @ [(c, f)], ac_sent := ac_sent a @ [(c, f)]\<rparr>)"
| a_disconnected:
    "0 < ac_handles a \<Longrightarrow> \<not> ac_pumping a \<Longrightarrow>
     actor_step a (a\<lparr>ac_replies := ac_replies a @ [(c, Inl Disconnected)]\<rparr>)"
| a_clone: "0 < ac_handles a \<Longrightarrow> actor_step a (a\<lparr>ac_handles := ac_handles a + 1\<rparr>)"
| a_drop: "ac_kept a < ac_handles a \<Longrightarrow> actor_step a (a\<lparr>ac_handles := ac_handles a - 1\<rparr>)"
| a_app_returns:
    "\<not> ac_app_done a \<Longrightarrow> k \<le> ac_handles a \<Longrightarrow>
     actor_step a (a\<lparr>ac_app_done := True, ac_kept := k\<rparr>)"
| a_pump:
    "ac_pumping a \<Longrightarrow> ac_queue a = j # js \<Longrightarrow>
     actor_step a (pump_job j (a\<lparr>ac_queue := js\<rparr>))"
| a_pump_ends:
    "ac_pumping a \<Longrightarrow> ac_queue a = [] \<Longrightarrow> ac_handles a = 0 \<Longrightarrow>
     actor_step a (a\<lparr>ac_pumping := False, ac_closed := True\<rparr>)"
| a_join:
    "ac_app_done a \<Longrightarrow> \<not> ac_pumping a \<Longrightarrow> \<not> ac_joined a \<Longrightarrow> actor_step a (a\<lparr>ac_joined := True\<rparr>)"

inductive actor_reaches :: "'s \<Rightarrow> ('s, 'r) actor \<Rightarrow> bool" for db where
  actor_init: "actor_reaches db (actor_start db)"
| actor_next: "actor_reaches db a \<Longrightarrow> actor_step a a' \<Longrightarrow> actor_reaches db a'"

text \<open>The reference: the closures run one after the other on the database.\<close>

fun run_jobs :: "(nat \<times> ('s, 'r) job) list \<Rightarrow> 's \<Rightarrow> (nat \<times> (call_error + 'r)) list \<times> 's" where
  "run_jobs [] db = ([], db)"
| "run_jobs ((c, f) # js) db =
     (let (r, db1) = f db; (rs, db2) = run_jobs js db1 in ((c, call_answer r) # rs, db2))"

subsection \<open>Lemmas\<close>

lemma run_jobs_append:
  "run_jobs (js @ js') db =
     (let (rs, db1) = run_jobs js db; (rs', db2) = run_jobs js' db1 in (rs @ rs', db2))"
  by (induction js db rule: run_jobs.induct) (auto simp: Let_def split: prod.splits)

lemma run_jobs_ids: "map fst (fst (run_jobs js db)) = map fst js"
  by (induction js db rule: run_jobs.induct) (auto simp: Let_def split: prod.splits)

definition actor_inv :: "'s \<Rightarrow> ('s, 'r) actor \<Rightarrow> bool" where
  "actor_inv db a \<longleftrightarrow>
     (\<exists>finished. ac_sent a = finished @ ac_queue a \<and>
        run_jobs finished db = (ac_replies a, ac_db a)) \<and>
     distinct (map fst (ac_sent a)) \<and> ac_kept a \<le> ac_handles a \<and>
     (ac_pumping a \<or> ac_queue a = [] \<and> ac_handles a = 0) \<and> (ac_closed a \<longleftrightarrow> \<not> ac_pumping a) \<and>
     (ac_joined a \<longrightarrow> ac_app_done a \<and> \<not> ac_pumping a) \<and> (\<not> ac_app_done a \<longrightarrow> ac_kept a = 0)"

lemma actor_inv_start: "actor_inv db (actor_start db)"
  by (simp add: actor_inv_def actor_start_def)

lemma actor_inv_step:
  assumes "actor_step a a'" and "actor_inv db a"
  shows "actor_inv db a'"
  using assms
proof (cases rule: actor_step.cases)
  case (a_pump j js)
  from assms(2) obtain finished where f: "ac_sent a = finished @ ac_queue a"
    "run_jobs finished db = (ac_replies a, ac_db a)" unfolding actor_inv_def by blast
  obtain c g where j: "j = (c, g)" by (cases j)
  obtain r db' where g: "g (ac_db a) = (r, db')" by fastforce
  have "run_jobs (finished @ [j]) db = (ac_replies a @ [(c, call_answer r)], db')"
    by (simp add: run_jobs_append f(2) j g)
  moreover have "ac_sent a = (finished @ [j]) @ js" using f(1) a_pump by simp
  ultimately show ?thesis
    using assms(2) a_pump unfolding actor_inv_def
    by (auto simp: pump_job_def j g Let_def intro!: exI [of _ "finished @ [(c, g)]"])
qed (auto simp: actor_inv_def)

lemma actor_reaches_inv: "actor_reaches db a \<Longrightarrow> actor_inv db a"
  by (induction rule: actor_reaches.induct) (auto intro: actor_inv_start actor_inv_step)

lemma actor_reaches_steps: "actor_step\<^sup>*\<^sup>* a a' \<Longrightarrow> actor_reaches db a \<Longrightarrow> actor_reaches db a'"
  by (induction rule: rtranclp_induct) (auto intro: actor_next)

text \<open>With no handle kept in the result, the remaining work runs down.\<close>

lemma actor_progress:
  assumes "actor_inv db a" and "ac_app_done a" and "ac_kept a = 0" and "\<not> ac_joined a"
    and "ac_pumping a"
  shows "\<exists>a'. actor_step a a' \<and> ac_app_done a' \<and> ac_kept a' = 0 \<and> \<not> ac_joined a' \<and>
    (ac_pumping a' \<longrightarrow> ac_handles a' + length (ac_queue a') < ac_handles a + length (ac_queue a))"
proof -
  consider j js where "ac_queue a = j # js" | "ac_queue a = []" "0 < ac_handles a"
    | "ac_queue a = []" "ac_handles a = 0" by (cases "ac_queue a") auto
  then show ?thesis
  proof cases
    case 1
    from a_pump [OF assms(5) 1] show ?thesis
      using assms 1 by (intro exI [of _ "pump_job j (a\<lparr>ac_queue := js\<rparr>)"])
        (simp add: pump_job_def split_beta Let_def)
  next
    case 2
    then have "ac_kept a < ac_handles a" using assms(3) by simp
    from a_drop [OF this] show ?thesis
      using assms 2 by (intro exI [of _ "a\<lparr>ac_handles := ac_handles a - 1\<rparr>"]) simp
  next
    case 3
    from a_pump_ends [OF assms(5) 3] show ?thesis
      using assms by (intro exI [of _ "a\<lparr>ac_pumping := False, ac_closed := True\<rparr>"]) simp
  qed
qed

lemma actor_joins:
  assumes "actor_inv db a" and "ac_app_done a" and "ac_kept a = 0"
  shows "\<exists>a'. actor_step\<^sup>*\<^sup>* a a' \<and> ac_joined a'"
  using assms
proof (induction "ac_handles a + length (ac_queue a)" arbitrary: a rule: less_induct)
  case less
  consider "ac_joined a" | "\<not> ac_joined a" "\<not> ac_pumping a" | "\<not> ac_joined a" "ac_pumping a" by blast
  then show ?case
  proof cases
    case 1
    then show ?thesis by blast
  next
    case 2
    from a_join [OF less.prems(2) 2(2) 2(1)] show ?thesis
      by (intro exI [of _ "a\<lparr>ac_joined := True\<rparr>"]) auto
  next
    case 3
    from actor_progress [OF less.prems 3] obtain b where b: "actor_step a b" "ac_app_done b"
      "ac_kept b = 0" "\<not> ac_joined b" "ac_pumping b \<Longrightarrow>
        ac_handles b + length (ac_queue b) < ac_handles a + length (ac_queue a)" by blast
    have inv: "actor_inv db b" by (rule actor_inv_step [OF b(1) less.prems(1)])
    have "\<exists>a'. actor_step\<^sup>*\<^sup>* b a' \<and> ac_joined a'"
    proof (cases "ac_pumping b")
      case True
      from less.hyps [OF b(5) [OF True] inv b(2,3)] show ?thesis .
    next
      case False
      from a_join [OF b(2) False b(4)] show ?thesis
        by (intro exI [of _ "b\<lparr>ac_joined := True\<rparr>"]) auto
    qed
    with b(1) show ?thesis by (meson converse_rtranclp_into_rtranclp)
  qed
qed

lemma kept_handle_stays:
  assumes "actor_step a a'" and "ac_app_done a" and "0 < ac_kept a" and "ac_kept a \<le> ac_handles a"
    and "ac_pumping a" and "\<not> ac_joined a"
  shows "ac_app_done a' \<and> ac_kept a' = ac_kept a \<and> ac_kept a' \<le> ac_handles a' \<and> ac_pumping a' \<and>
    \<not> ac_joined a'"
  using assms by (cases rule: actor_step.cases) (auto simp: pump_job_def split_beta Let_def)

subsection \<open>Properties\<close>

text \<open>
  C23: calls from any number of threads linearise: the answers so far, and the database, are those
  of the closures run one after the other in the order they were sent, and what is left in the
  queue is the rest of that order; a panicking closure answers as an error and stops nothing.
\<close>

theorem calls_linearise:
  assumes "actor_reaches db a"
  shows "\<exists>n. run_jobs (take n (ac_sent a)) db = (ac_replies a, ac_db a) \<and>
    ac_queue a = drop n (ac_sent a)"
proof -
  from actor_reaches_inv [OF assms] obtain finished where "ac_sent a = finished @ ac_queue a"
    "run_jobs finished db = (ac_replies a, ac_db a)" unfolding actor_inv_def by blast
  then show ?thesis by (intro exI [of _ "length finished"]) simp
qed

text \<open>
  C29: when \<open>run\<close> has joined the kernel thread, every call that was sent was answered, by its
  closure and never as disconnected, the database was closed and no handle is left.
\<close>

theorem run_answers_every_call:
  assumes "actor_reaches db a" and "ac_joined a"
  shows "run_jobs (ac_sent a) db = (ac_replies a, ac_db a) \<and>
    map fst (ac_replies a) = map fst (ac_sent a) \<and> ac_closed a \<and> ac_handles a = 0"
proof -
  from actor_reaches_inv [OF assms(1)] assms(2) have "run_jobs (ac_sent a) db = (ac_replies a, ac_db a)"
    "ac_closed a" "ac_handles a = 0" by (auto simp: actor_inv_def)
  then show ?thesis using run_jobs_ids [of "ac_sent a" db] by simp
qed

text \<open>
  Once \<open>app\<close> has returned a value that holds no handle, \<open>run\<close> can always still return,
  whatever handles other threads hold and whatever is queued.
\<close>

theorem run_can_return:
  assumes "actor_reaches db a" and "ac_app_done a" and "ac_kept a = 0"
  shows "\<exists>a'. actor_step\<^sup>*\<^sup>* a a' \<and> ac_joined a'"
  by (rule actor_joins [OF actor_reaches_inv [OF assms(1)] assms(2,3)])

text \<open>
  Where the value \<open>app\<close> returned holds a handle, \<open>run\<close> never returns it: the pump waits for
  that handle and \<open>run\<close> waits for the pump.
\<close>

theorem kept_handle_blocks_run:
  assumes "actor_reaches db a" and "ac_app_done a" and "0 < ac_kept a" and "actor_step\<^sup>*\<^sup>* a a'"
  shows "\<not> ac_joined a' \<and> ac_pumping a'"
proof -
  have inv: "ac_kept a \<le> ac_handles a" "ac_pumping a" "\<not> ac_joined a"
    using actor_reaches_inv [OF assms(1)] assms(3) by (auto simp: actor_inv_def)
  have "ac_app_done a' \<and> 0 < ac_kept a' \<and> ac_kept a' \<le> ac_handles a' \<and> ac_pumping a' \<and> \<not> ac_joined a'"
    using assms(4)
  proof (induction rule: rtranclp_induct)
    case base
    then show ?case using assms(2,3) inv by blast
  next
    case (step b c)
    with kept_handle_stays [OF step.hyps(2)] show ?case by metis
  qed
  then show ?thesis by blast
qed

text \<open>Two calls, one of which panics, on a database that counts them.\<close>

definition count_job :: "(nat, nat) job" where
  "count_job n = (if n = 0 then None else Some n, Suc n)"

definition two_calls :: "(nat, nat) actor" where
  "two_calls =
     (actor_start 0)\<lparr>ac_db := 1, ac_queue := [(8, count_job)], ac_sent := [(7, count_job), (8, count_job)],
       ac_replies := [(7, Inl Panicked)]\<rparr>"

definition one_sent :: "(nat, nat) actor" where
  "one_sent = (actor_start 0)\<lparr>ac_queue := [(7, count_job)], ac_sent := [(7, count_job)]\<rparr>"

definition two_sent :: "(nat, nat) actor" where
  "two_sent = (actor_start 0)\<lparr>ac_queue := [(7, count_job), (8, count_job)],
     ac_sent := [(7, count_job), (8, count_job)]\<rparr>"

lemma sample_queue:
  "one_sent = (actor_start 0)\<lparr>ac_queue := ac_queue (actor_start 0) @ [(7, count_job)],
     ac_sent := ac_sent (actor_start 0) @ [(7, count_job)]\<rparr>"
  "two_sent = one_sent\<lparr>ac_queue := ac_queue one_sent @ [(8, count_job)],
     ac_sent := ac_sent one_sent @ [(8, count_job)]\<rparr>"
  by (simp_all add: one_sent_def two_sent_def actor_start_def)

lemma sample_first: "actor_step (actor_start 0) one_sent"
  unfolding sample_queue(1) by (rule a_send) (simp_all add: actor_start_def)

lemma sample_second: "actor_step one_sent two_sent"
  unfolding sample_queue(2) by (rule a_send) (simp_all add: one_sent_def actor_start_def)

lemma sample_pump: "pump_job (7, count_job) (two_sent\<lparr>ac_queue := [(8, count_job)]\<rparr>) = two_calls"
  by (simp add: pump_job_def count_job_def call_answer_def two_calls_def two_sent_def actor_start_def)

lemma two_calls_reached: "actor_reaches 0 two_calls"
proof -
  have "actor_step two_sent (pump_job (7, count_job) (two_sent\<lparr>ac_queue := [(8, count_job)]\<rparr>))"
    by (rule a_pump) (simp_all add: two_sent_def actor_start_def)
  then have "actor_step two_sent two_calls" by (simp only: sample_pump)
  then show ?thesis by (rule actor_next [OF actor_next [OF actor_next [OF actor_init
    sample_first] sample_second]])
qed

theorem calls_linearise_witness:
  "\<exists>n. run_jobs (take n [(7 :: nat, count_job), (8, count_job)]) 0 = ([(7, Inl Panicked)], 1)"
  using calls_linearise [OF two_calls_reached] by (auto simp: two_calls_def)

definition app_over :: "nat \<Rightarrow> (nat, nat) actor" where
  "app_over k = (actor_start 0)\<lparr>ac_app_done := True, ac_kept := k\<rparr>"

lemma app_over_reached: "k \<le> 1 \<Longrightarrow> actor_reaches 0 (app_over k)"
  unfolding app_over_def
  by (rule actor_next [OF actor_init], rule a_app_returns) (simp_all add: actor_start_def)

theorem run_can_return_witness: "\<exists>a'. actor_step\<^sup>*\<^sup>* (app_over 0) a' \<and> ac_joined a'"
  by (rule run_can_return [OF app_over_reached]) (simp_all add: app_over_def actor_start_def)

theorem kept_handle_blocks_run_witness: "\<not> ac_joined (app_over 1) \<and> ac_pumping (app_over 1)"
  by (rule kept_handle_blocks_run [OF app_over_reached [of 1]])
    (simp_all add: app_over_def actor_start_def)

lemma joined_reached: "\<exists>a :: (nat, nat) actor. actor_reaches 0 a \<and> ac_joined a"
proof -
  have inv: "actor_inv 0 (app_over 0)" by (rule actor_reaches_inv [OF app_over_reached]) simp
  have "\<exists>a. actor_step\<^sup>*\<^sup>* (app_over 0) a \<and> ac_joined a"
    by (rule actor_joins [OF inv]) (simp_all add: app_over_def actor_start_def)
  then obtain a where a: "actor_step\<^sup>*\<^sup>* (app_over 0) a" "ac_joined a" by blast
  have "actor_reaches 0 (app_over 0)" by (rule app_over_reached) simp
  with actor_reaches_steps [OF a(1)] a(2) show ?thesis by blast
qed

theorem run_answers_every_call_witness:
  "\<exists>a :: (nat, nat) actor. ac_joined a \<and> ac_closed a \<and> map fst (ac_replies a) = map fst (ac_sent a)"
proof -
  from joined_reached obtain a :: "(nat, nat) actor" where a: "actor_reaches 0 a" "ac_joined a" by blast
  from run_answers_every_call [OF a] a(2) show ?thesis by blast
qed

end
