(* ===== verification/Stack_Frame.thy ===== *)
theory Stack_Frame
  imports Ctree_Extract
begin

unbundle bit_operations_syntax

text \<open>
  \<open>stack.rs\<close> with \<open>frame_flags.rs\<close>: the snapshot of a function's stack frame. The facade streams the
  types of the variables into a type builder, as a type walk does, and returns the frame's size and
  its members, each with the handle of its type; the reserved members keep neither name nor type.

  A run of the facade is the list of its callbacks and the frame it returned, if the function has
  one; \<open>frame_walk_ok\<close> is what the code relies on of the latter, that a handle is one the walk made.
\<close>

subsection \<open>Slots\<close>

record frame_var =
  fv_name :: string
  fv_offset :: i64
  fv_size :: u64
  fv_flags :: u32
  fv_ty :: u32

record frame_walk =
  fw_size :: u64
  fw_vars :: "frame_var list"

definition RETADDR :: u32 where "RETADDR = 1"
definition SAVREGS :: u32 where "SAVREGS = 2"

datatype stack_slot_kind =
    SlotVariable string "type_id option"
  | SlotReturnAddress
  | SlotSavedRegisters

definition slot_kind_from_parts :: "u32 \<Rightarrow> string \<Rightarrow> type_id option \<Rightarrow> stack_slot_kind" where
  "slot_kind_from_parts flags name ty =
     (if contains_flag flags RETADDR then SlotReturnAddress
      else if contains_flag flags SAVREGS then SlotSavedRegisters
      else SlotVariable name ty)"

record stack_slot =
  ss_offset :: i64
  ss_size :: u64
  ss_kind :: stack_slot_kind

definition slot_name :: "stack_slot \<Rightarrow> string option" where
  "slot_name s = (case ss_kind s of SlotVariable name _ \<Rightarrow> Some name | _ \<Rightarrow> None)"

definition slot_ty :: "stack_slot \<Rightarrow> type_id option" where
  "slot_ty s = (case ss_kind s of SlotVariable _ ty \<Rightarrow> ty | _ \<Rightarrow> None)"

definition is_special :: "stack_slot \<Rightarrow> bool" where
  "is_special s \<longleftrightarrow> \<not> (case ss_kind s of SlotVariable _ _ \<Rightarrow> True | _ \<Rightarrow> False)"

subsection \<open>The frame\<close>

record stack_frame =
  sf_size :: u64
  sf_types :: type_table
  sf_slots :: "stack_slot list"

definition frame_type_of :: "stack_frame \<Rightarrow> type_id \<Rightarrow> type_value option" where
  "frame_type_of f tid = table_get (sf_types f) tid"

definition frame_variables :: "stack_frame \<Rightarrow> stack_slot list" where
  "frame_variables f = filter (\<lambda>s. \<not> is_special s) (sf_slots f)"

definition frame_len :: "stack_frame \<Rightarrow> nat" where
  "frame_len f = length (sf_slots f)"

definition frame_is_empty :: "stack_frame \<Rightarrow> bool" where
  "frame_is_empty f \<longleftrightarrow> sf_slots f = []"

definition slot_of_var :: "frame_var \<Rightarrow> stack_slot" where
  "slot_of_var v =
     \<lparr>ss_offset = fv_offset v, ss_size = fv_size v,
      ss_kind = slot_kind_from_parts (fv_flags v) (fv_name v) (if fv_ty v \<noteq> NONE then Some (fv_ty v) else None)\<rparr>"

text \<open>\<open>Error::Extract\<close>: the address asked for, and what went wrong.\<close>

record frame_error =
  fe_address :: u64
  fe_source :: extract_error

text \<open>\<open>Database::frame\<close>; the outer option is a panic of the walk.\<close>

definition frame ::
  "sink_op list \<Rightarrow> frame_walk option \<Rightarrow> address \<Rightarrow> (frame_error + stack_frame option) option" where
  "frame ops found a =
     do { ft \<leftarrow> run_sink ops builder_new;
          case found of
            None \<Rightarrow> Some (Inr None)
          | Some w \<Rightarrow>
              (case tb_too_wide ft of
                 Some bytes \<Rightarrow> Some (Inl \<lparr>fe_address = address_get a, fe_source = ScalarTooWide bytes\<rparr>)
               | None \<Rightarrow>
                   let unfilled = builder_unfilled ft
                   in if unfilled \<noteq> 0
                      then Some (Inl \<lparr>fe_address = address_get a, fe_source = UnfilledType unfilled\<rparr>)
                      else Some (Inr (Some
                        \<lparr>sf_size = fw_size w, sf_types = tb_table ft,
                         sf_slots = map slot_of_var (fw_vars w)\<rparr>))) }"

subsection \<open>What a frame guarantees\<close>

definition frame_walk_ok :: "type_builder \<Rightarrow> frame_walk \<Rightarrow> bool" where
  "frame_walk_ok b w \<longleftrightarrow> list_all (\<lambda>v. fv_ty v = NONE \<or> in_range b (fv_ty v)) (fw_vars w)"

text \<open>A member that is a real variable: neither reserved bit is set.\<close>

definition real_var :: "frame_var \<Rightarrow> bool" where
  "real_var v \<longleftrightarrow> fv_flags v AND 3 = 0"

lemma contains_flag_01:
  "contains_flag (w :: u32) 1 \<longleftrightarrow> bit w 0" "contains_flag (w :: u32) 2 \<longleftrightarrow> bit w 1"
  using contains_flag_bit [of 0 w] contains_flag_bit [of 1 w] by simp_all

lemma real_var_bits: "real_var v \<longleftrightarrow> \<not> bit (fv_flags v) 0 \<and> \<not> bit (fv_flags v) 1"
proof -
  have "(3 :: u32) = 2 ^ 0 OR 2 ^ 1" by simp
  then have "fv_flags v AND 3 = (fv_flags v AND 2 ^ 0) OR (fv_flags v AND 2 ^ 1)"
    by (simp only: bit.conj_disj_distrib)
  then show ?thesis by (simp only: real_var_def or_eq_0_iff and_exp_eq_0_iff_not_bit)
qed

lemma slot_special_iff: "is_special (slot_of_var v) \<longleftrightarrow> \<not> real_var v"
  by (auto simp: is_special_def slot_of_var_def slot_kind_from_parts_def RETADDR_def SAVREGS_def
      contains_flag_01 real_var_bits)

lemma slot_name_of_var: "slot_name (slot_of_var v) = (if real_var v then Some (fv_name v) else None)"
  by (auto simp: slot_name_def slot_of_var_def slot_kind_from_parts_def RETADDR_def SAVREGS_def
      contains_flag_01 real_var_bits)

lemma slot_ty_of_var:
  "slot_ty (slot_of_var v) = (if real_var v \<and> fv_ty v \<noteq> NONE then Some (fv_ty v) else None)"
  by (auto simp: slot_ty_def slot_of_var_def slot_kind_from_parts_def RETADDR_def SAVREGS_def
      contains_flag_01 real_var_bits)

lemma frame_Some:
  assumes "frame ops (Some w) a = Some (Inr (Some f))"
  shows "\<exists>b. run_sink ops builder_new = Some b \<and> tb_too_wide b = None \<and> builder_unfilled b = 0 \<and>
    f = \<lparr>sf_size = fw_size w, sf_types = tb_table b, sf_slots = map slot_of_var (fw_vars w)\<rparr>"
  using assms by (auto simp: frame_def Let_def split: option.splits if_splits)

text \<open>A frame is refused exactly as a type walk over the same callbacks is.\<close>

lemma frame_walk_type:
  "frame ops (Some w) a =
     map_option (\<lambda>r. case r of
         Inl e \<Rightarrow> Inl \<lparr>fe_address = address_get a, fe_source = e\<rparr>
       | Inr None \<Rightarrow> Inr None
       | Inr (Some t) \<Rightarrow> Inr (Some
           \<lparr>sf_size = fw_size w, sf_types = rt_types t, sf_slots = map slot_of_var (fw_vars w)\<rparr>))
       (walk_type ops (Some 0))"
  by (cases "run_sink ops builder_new") (auto simp: frame_def walk_type_def Let_def split: option.splits)

text \<open>
  C20: given that the walk of the facade answers for a member no type handle but one it made, a frame the
  snapshot hands out keeps IDA's members in order, one slot each; its variables are exactly the members
  with neither reserved bit, each under its own name; every type the walk reserved was filled; and the
  type handle of a slot, which no special slot has, resolves in the frame's own table. It resolves to a
  type with a body where the callbacks keep their contract, which excludes the scalar of no known kind
  the facade streams for a type it cannot classify.
\<close>

theorem frame_slots_resolve:
  assumes "run_sink ops builder_new = Some b" and "frame_walk_ok b w"
    and "frame ops (Some w) a = Some (Inr (Some f))"
  shows "map ss_offset (sf_slots f) = map fv_offset (fw_vars w) \<and>
    map slot_name (frame_variables f) = map (\<lambda>v. Some (fv_name v)) (filter real_var (fw_vars w)) \<and>
    tb_pending b = [] \<and>
    list_all (\<lambda>s. case slot_ty s of
        None \<Rightarrow> True
      | Some t \<Rightarrow> \<not> is_special s \<and>
          (\<exists>v. frame_type_of f t = Some v \<and> (ops_ok ops builder_new \<longrightarrow> tv_shape v \<noteq> TUnknown)))
      (sf_slots f)"
proof -
  from frame_Some [OF assms(3)] assms(1) have b: "builder_unfilled b = 0"
    and f: "f = \<lparr>sf_size = fw_size w, sf_types = tb_table b, sf_slots = map slot_of_var (fw_vars w)\<rparr>"
    by auto
  have nopend: "\<not> is_pending b i" for i using b by (simp add: builder_unfilled_def is_pending_def)
  have vars: "map slot_name (frame_variables f) = map (\<lambda>v. Some (fv_name v)) (filter real_var (fw_vars w))"
    by (simp add: f frame_variables_def filter_map comp_def slot_special_iff slot_name_of_var)
  have "\<exists>v. table_get (tb_table b) t = Some v \<and> (ops_ok ops builder_new \<longrightarrow> tv_shape v \<noteq> TUnknown)"
    if "in_range b t" for t
  proof -
    from that obtain v where v: "table_get (tb_table b) t = Some v" by (auto simp: in_range_iff)
    have "tv_shape v \<noteq> TUnknown" if "ops_ok ops builder_new"
      using builder_invD(6) [OF run_sink_inv [OF that assms(1)], of t] v nopend [of t] by auto
    with v show ?thesis by blast
  qed
  with assms(2) have "list_all (\<lambda>s. case slot_ty s of None \<Rightarrow> True
      | Some t \<Rightarrow> \<not> is_special s \<and>
          (\<exists>v. frame_type_of f t = Some v \<and> (ops_ok ops builder_new \<longrightarrow> tv_shape v \<noteq> TUnknown)))
      (sf_slots f)"
    by (auto simp: f list_all_iff frame_walk_ok_def slot_ty_of_var slot_special_iff frame_type_of_def)
  with vars b show ?thesis by (simp add: f slot_of_var_def builder_unfilled_def)
qed

definition node_frame :: frame_walk where
  "node_frame = \<lparr>fw_size = 24, fw_vars =
     [\<lparr>fv_name = ''var_8'', fv_offset = - 8, fv_size = 8, fv_flags = 0, fv_ty = 1\<rparr>,
      \<lparr>fv_name = ''__return_address'', fv_offset = 8, fv_size = 8, fv_flags = 1, fv_ty = NONE\<rparr>]\<rparr>"

theorem frame_slots_resolve_witness:
  "\<exists>f. frame node_run (Some node_frame) (Address 1) = Some (Inr (Some f)) \<and>
    map slot_name (frame_variables f) = [Some ''var_8'']"
proof -
  obtain b where b: "run_sink node_run builder_new = Some b" and w: "frame_walk_ok b node_frame"
    by (simp add: node_run_def builder_eval frame_walk_ok_def node_frame_def NONE_def)
  obtain f where f: "frame node_run (Some node_frame) (Address 1) = Some (Inr (Some f))"
    by (simp add: frame_def node_run_def builder_eval)
  from frame_slots_resolve [OF b w f] f show ?thesis
    by (simp add: node_frame_def real_var_def)
qed

text \<open>
  The verdict on a frame: a function without one is no error; otherwise the first scalar too wide
  is reported before the number of reserved types never filled, and only then is the frame handed out.
\<close>

theorem frame_verdict:
  assumes "ops_ok ops builder_new" and "run_sink ops builder_new = Some b"
  shows "frame ops None a = Some (Inr None) \<and>
    frame ops (Some w) a = Some
      (case first_too_wide ops of
         Some bytes \<Rightarrow> Inl \<lparr>fe_address = address_get a, fe_source = ScalarTooWide bytes\<rparr>
       | None \<Rightarrow>
           (if unknown_entries (tb_table b) = {}
            then Inr (Some \<lparr>sf_size = fw_size w, sf_types = tb_table b, sf_slots = map slot_of_var (fw_vars w)\<rparr>)
            else Inl \<lparr>fe_address = address_get a,
                      fe_source = UnfilledType (card (unknown_entries (tb_table b)))\<rparr>))"
  using walk_checks [OF assms] assms(2) by (simp add: frame_def Let_def split: option.splits)

theorem frame_verdict_witness:
  "frame node_run None (Address 1) = Some (Inr None)"
proof -
  have ok: "ops_ok node_run builder_new" by (simp add: node_run_def builder_eval)
  obtain b where b: "run_sink node_run builder_new = Some b"
    by (simp add: node_run_def builder_eval)
  from frame_verdict [OF ok b] show ?thesis by blast
qed

end
