(* ===== verification/Listing.thy ===== *)
theory Listing
  imports Item_Walk
begin

unbundle bit_operations_syntax

text \<open>
  The lists of a database: functions, segments, names, strings, imports and exports
  (\<open>function.rs\<close>, \<open>segment.rs\<close>, \<open>name.rs\<close>, \<open>strings.rs\<close>, \<open>import.rs\<close>, \<open>export.rs\<close>) and the cross references
  of an address (\<open>xref.rs\<close>). An iterator either asks the kernel for one entry after another, up to the
  count it took when it was made, or works off rows the kernel handed over in one piece. A view of an
  entry is its key.

  What the kernel answers is the record \<open>listing_kernel\<close>; nothing is assumed of it.
\<close>

subsection \<open>The kernel\<close>

record strlist_row =
  sr_ea :: u64
  sr_length :: "32 word"
  sr_type :: "32 word"

record import_rec =
  imr_ea :: u64
  imr_ord :: u64
  imr_name :: string
  imr_module :: string

record xref_rec =
  xr_from :: u64
  xr_to :: u64
  xr_type :: "32 word"
  xr_iscode :: bool
  xr_user :: bool

record listing_kernel =
  lk_func_qty :: nat
  lk_func_ea :: "nat \<Rightarrow> u64"
  lk_nlist_size :: nat
  lk_nlist_ea :: "nat \<Rightarrow> u64"
  lk_nlist_name :: "nat \<Rightarrow> string option"
  lk_strlist_qty :: nat
  lk_strlist_item :: "nat \<Rightarrow> strlist_row option"
  lk_seg_qty :: "32 word"
  lk_export_qty :: nat
  lk_export_ea :: "nat \<Rightarrow> u64"
  lk_imports :: "import_rec list"
  lk_xrefs :: "u64 \<Rightarrow> bool \<Rightarrow> bool \<Rightarrow> xref_rec list"

subsection \<open>Entry after entry, skipping what does not translate\<close>

record cursor =
  cu_next :: nat
  cu_count :: nat

definition cursor_new :: "nat \<Rightarrow> cursor" where
  "cursor_new n = \<lparr>cu_next = 0, cu_count = n\<rparr>"

text \<open>
  The loop of \<open>Functions::next\<close>, \<open>Names::next\<close> and \<open>Strings::next\<close>, over the translation of an entry:
  the position moves on before the entry is looked at.
\<close>

function skip_next :: "(nat \<Rightarrow> 'i option) \<Rightarrow> cursor \<Rightarrow> 'i option \<times> cursor" where
  "skip_next fetch c =
     (if cu_next c < cu_count c then
        let n = cu_next c; c' = c\<lparr>cu_next := Suc n\<rparr>
        in (case fetch n of Some i \<Rightarrow> (Some i, c') | None \<Rightarrow> skip_next fetch c')
      else (None, c))"
  by pat_completeness auto
termination
  by (relation "measure (\<lambda>(_, c). cu_count c - cu_next c)") auto

declare skip_next.simps [simp del]

text \<open>\<open>size_hint\<close>: no lower bound, and the entries not yet looked at as the upper one.\<close>

definition skip_size_hint :: "cursor \<Rightarrow> nat \<times> nat option" where
  "skip_size_hint c = (0, Some (cu_count c - cu_next c))"

definition skip_left :: "(nat \<Rightarrow> 'i option) \<Rightarrow> cursor \<Rightarrow> 'i list" where
  "skip_left fetch c = List.map_filter fetch [cu_next c ..< cu_count c]"

lemma skip_left_step:
  assumes "cu_next c < cu_count c"
  shows "skip_left fetch c =
    (case fetch (cu_next c) of Some i \<Rightarrow> [i] | None \<Rightarrow> []) @ skip_left fetch (c\<lparr>cu_next := Suc (cu_next c)\<rparr>)"
  using assms by (simp add: skip_left_def upt_conv_Cons map_filter_simps split: option.splits)

lemma skip_next_spec:
  "fst (skip_next fetch c) = (case skip_left fetch c of [] \<Rightarrow> None | i # _ \<Rightarrow> Some i) \<and>
   skip_left fetch (snd (skip_next fetch c)) = tl (skip_left fetch c)"
proof (induction fetch c rule: skip_next.induct)
  case (1 fetch c)
  show ?case
  proof (cases "cu_next c < cu_count c")
    case True
    show ?thesis
    proof (cases "fetch (cu_next c)")
      case None
      with 1 [OF True refl refl None] True show ?thesis
        by (simp add: skip_next.simps [of fetch c] skip_left_step Let_def)
    next
      case (Some i)
      with True show ?thesis by (simp add: skip_next.simps [of fetch c] skip_left_step Let_def)
    qed
  next
    case False
    then show ?thesis by (simp add: skip_next.simps [of fetch c] skip_left_def map_filter_simps)
  qed
qed

text \<open>
  The contract of such an iterator, its state being the kernel and the position, and what follows of
  it: it is a lazy iterator.
\<close>

locale skipping_iterator =
  fixes fetch :: "'k \<Rightarrow> nat \<Rightarrow> 'i option"
    and nxt :: "'k \<times> cursor \<Rightarrow> ('i option \<times> 'k \<times> cursor) option"
  assumes nxt_skips: "nxt (k, c) = Some (fst (skip_next (fetch k) c), k, snd (skip_next (fetch k) c))"
begin

lemma left_length: "length (skip_left (fetch k) c) \<le> cu_count c - cu_next c"
  unfolding skip_left_def by (rule order_trans [OF map_filter_length]) simp

end

sublocale skipping_iterator \<subseteq> lazy_iterator nxt "\<lambda>_. True" "\<lambda>(k, c). skip_left (fetch k) c"
proof
  fix s :: "'k \<times> cursor" and i js
  obtain k c where s: "s = (k, c)" by (cases s)
  note spec = skip_next_spec [of "fetch k" c]
  show "\<exists>s'. nxt s = Some (None, s') \<and> True \<and> (case s' of (k, c) \<Rightarrow> skip_left (fetch k) c) = []"
    if "(case s of (k, c) \<Rightarrow> skip_left (fetch k) c) = []"
    using spec that by (simp add: s nxt_skips)
  show "\<exists>s'. nxt s = Some (Some i, s') \<and> True \<and> (case s' of (k, c) \<Rightarrow> skip_left (fetch k) c) = js"
    if "(case s of (k, c) \<Rightarrow> skip_left (fetch k) c) = i # js"
    using spec that by (simp add: s nxt_skips)
qed

context skipping_iterator
begin

text \<open>From the start, one call more than there are entries is enough.\<close>

lemma enumerates:
  assumes "n < fuel"
  shows "drain fuel nxt (k, cursor_new n) = Some (List.map_filter (fetch k) [0 ..< n])"
proof -
  have "length (skip_left (fetch k) (cursor_new n)) < fuel"
    using left_length [of k "cursor_new n"] assms by (simp add: cursor_new_def)
  then have "drain fuel nxt (k, cursor_new n) = Some (skip_left (fetch k) (cursor_new n))"
    using drains [of "(k, cursor_new n)" fuel] by simp
  then show ?thesis by (simp add: skip_left_def cursor_new_def)
qed

end

subsection \<open>Functions, names and strings\<close>

definition functions_new :: "listing_kernel \<Rightarrow> cursor" where
  "functions_new k = cursor_new (lk_func_qty k)"

definition function_at_index :: "listing_kernel \<Rightarrow> nat \<Rightarrow> address option" where
  "function_at_index k n = try_new (lk_func_ea k n)"

definition functions_next :: "listing_kernel \<times> cursor \<Rightarrow> (address option \<times> listing_kernel \<times> cursor) option" where
  "functions_next = (\<lambda>(k, c). let (r, c') = skip_next (function_at_index k) c in Some (r, k, c'))"

record name_entry =
  ne_address :: address
  ne_name :: string

definition names_new :: "listing_kernel \<Rightarrow> cursor" where
  "names_new k = cursor_new (lk_nlist_size k)"

definition name_at_index :: "listing_kernel \<Rightarrow> nat \<Rightarrow> name_entry option" where
  "name_at_index k n =
     (case try_new (lk_nlist_ea k n) of
        Some a \<Rightarrow> Some \<lparr>ne_address = a, ne_name = unwrap_or (lk_nlist_name k n) []\<rparr>
      | None \<Rightarrow> None)"

definition names_next :: "listing_kernel \<times> cursor \<Rightarrow> (name_entry option \<times> listing_kernel \<times> cursor) option" where
  "names_next = (\<lambda>(k, c). let (r, c') = skip_next (name_at_index k) c in Some (r, k, c'))"

record string_literal =
  sl_address :: address
  sl_length :: nat
  sl_raw_type :: "32 word"

text \<open>\<open>Database::strings\<close> has the kernel build its list first.\<close>

definition strings_new :: "(listing_kernel \<Rightarrow> listing_kernel) \<Rightarrow> listing_kernel \<Rightarrow> listing_kernel \<times> cursor" where
  "strings_new build k = (let k' = build k in (k', cursor_new (lk_strlist_qty k')))"

definition string_item :: "listing_kernel \<Rightarrow> nat \<Rightarrow> string_literal option" where
  "string_item k n =
     do { item \<leftarrow> lk_strlist_item k n;
          a \<leftarrow> try_new (sr_ea item);
          Some \<lparr>sl_address = a, sl_length = nat (max (sint (sr_length item)) 0), sl_raw_type = sr_type item\<rparr> }"

definition strings_next :: "listing_kernel \<times> cursor \<Rightarrow> (string_literal option \<times> listing_kernel \<times> cursor) option" where
  "strings_next = (\<lambda>(k, c). let (r, c') = skip_next (string_item k) c in Some (r, k, c'))"

interpretation function_list: skipping_iterator function_at_index functions_next
  by unfold_locales (simp add: functions_next_def case_prod_unfold Let_def)

interpretation name_list: skipping_iterator name_at_index names_next
  by unfold_locales (simp add: names_next_def case_prod_unfold Let_def)

interpretation string_list: skipping_iterator string_item strings_next
  by unfold_locales (simp add: strings_next_def case_prod_unfold Let_def)

subsection \<open>Iterators of known length\<close>

text \<open>\<open>ExactSizeIterator\<close>: the size hint is the number of items left.\<close>

locale exact_size_iterator = lazy_iterator nxt inv remaining
  for nxt :: "'s \<Rightarrow> ('i option \<times> 's) option" and inv and remaining +
  fixes hint :: "'s \<Rightarrow> nat"
  assumes hint_exact: "inv s \<Longrightarrow> hint s = length (remaining s)"
begin

lemma drains_hint: "inv s \<Longrightarrow> \<exists>is. drain (Suc (hint s)) nxt s = Some is \<and> length is = hint s"
proof (intro exI conjI)
  assume "inv s"
  then show "drain (Suc (hint s)) nxt s = Some (remaining s)" "length (remaining s) = hint s"
    using hint_exact [of s] by (simp_all only: drains lessI)
qed

lemma hint_counts_down:
  assumes "inv s" and "nxt s = Some (Some i, s')"
  shows "hint s = Suc (hint s')"
proof (cases "remaining s")
  case Nil
  from ends [OF assms(1) Nil] assms(2) show ?thesis by simp
next
  case (Cons j js)
  from yields [OF assms(1) Cons] assms(2) have "inv s'" "remaining s' = js" by auto
  with Cons hint_exact [OF assms(1)] hint_exact [of s'] show ?thesis by simp
qed

end

text \<open>Rows handed over in one piece: \<open>vec::IntoIter\<close>.\<close>

definition rows_next :: "'r list \<Rightarrow> ('r option \<times> 'r list) option" where
  "rows_next rows = Some (case rows of [] \<Rightarrow> (None, []) | r # rs \<Rightarrow> (Some r, rs))"

definition rows_size_hint :: "'r list \<Rightarrow> nat" where
  "rows_size_hint rows = length rows"

interpretation row_list: exact_size_iterator rows_next "\<lambda>_. True" id rows_size_hint
  by unfold_locales (auto simp: rows_next_def rows_size_hint_def)

text \<open>\<open>FunctionChunks\<close>.\<close>

definition chunks_next ::
  "function_chunk list \<Rightarrow> (function_chunk option \<times> function_chunk list) option" where
  "chunks_next chunks = rows_next chunks"

definition chunks_size_hint :: "function_chunk list \<Rightarrow> nat" where
  "chunks_size_hint chunks = rows_size_hint chunks"

interpretation chunk_list: exact_size_iterator chunks_next "\<lambda>_. True" id chunks_size_hint
  unfolding chunks_next_def chunks_size_hint_def by (rule row_list.exact_size_iterator_axioms)

subsection \<open>Segments\<close>

text \<open>The position and the count are \<open>i32\<close>, so the count may be negative; a segment is its index.\<close>

record segments_iter =
  sg_next :: "32 word"
  sg_count :: "32 word"

definition segments_new :: "listing_kernel \<Rightarrow> segments_iter" where
  "segments_new k = \<lparr>sg_next = 0, sg_count = lk_seg_qty k\<rparr>"

definition segments_next :: "segments_iter \<Rightarrow> (32 word option \<times> segments_iter) option" where
  "segments_next it = Some
     (if sint (sg_count it) \<le> sint (sg_next it) then (None, it)
      else (Some (sg_next it), it\<lparr>sg_next := sg_next it + 1\<rparr>))"

definition segments_size_hint :: "segments_iter \<Rightarrow> nat" where
  "segments_size_hint it = nat (max (sint (sg_count it - sg_next it)) 0)"

definition segments_left :: "segments_iter \<Rightarrow> 32 word list" where
  "segments_left it = map word_of_int [sint (sg_next it) .. sint (sg_count it) - 1]"

lemma sint_range: "- (2 ^ 31) \<le> sint (w :: 32 word) \<and> sint w < 2 ^ 31"
  using sint_greater_eq [of w] sint_less [of w] by simp

lemma sint_of_int: "- (2 ^ 31) \<le> i \<Longrightarrow> i < 2 ^ 31 \<Longrightarrow> sint (word_of_int i :: 32 word) = i"
  by (simp add: sint_sbintrunc' signed_take_bit_int_eq_self)

lemma sint_step: "sint (a :: 32 word) < sint (b :: 32 word) \<Longrightarrow> sint (a + 1) = sint a + 1"
  using sint_range [of a] sint_range [of b] sint_of_int [of "sint a + 1"] by simp

lemma sint_gap:
  assumes "0 \<le> sint (a :: 32 word)" and "sint a \<le> max (sint (b :: 32 word)) 0"
  shows "sint (b - a) = sint b - sint a"
proof -
  have "- (2 ^ 31) \<le> sint b - sint a" "sint b - sint a < 2 ^ 31"
    using assms sint_range [of a] sint_range [of b] by (auto simp: max_def split: if_splits)
  with sint_of_int [of "sint b - sint a"] show ?thesis by simp
qed

text \<open>
  The position never passes the count, and stays at zero where the count is negative: with that the
  subtraction of the hint cannot overflow.
\<close>

definition segments_inv :: "segments_iter \<Rightarrow> bool" where
  "segments_inv it \<longleftrightarrow> 0 \<le> sint (sg_next it) \<and> sint (sg_next it) \<le> max (sint (sg_count it)) 0"

interpretation segment_list:
  exact_size_iterator segments_next segments_inv segments_left segments_size_hint
proof
  fix it :: segments_iter and i js
  assume inv: "segments_inv it"
  show "\<exists>s'. segments_next it = Some (None, s') \<and> segments_inv s' \<and> segments_left s' = []"
    if "segments_left it = []"
    using that inv by (auto simp: segments_left_def segments_next_def)
  show "\<exists>s'. segments_next it = Some (Some i, s') \<and> segments_inv s' \<and> segments_left s' = js"
    if "segments_left it = i # js"
  proof -
    from that have less: "sint (sg_next it) < sint (sg_count it)"
      by (auto simp: segments_left_def upto.simps split: if_splits)
    with that have "i = sg_next it" "js = map word_of_int [sint (sg_next it) + 1 .. sint (sg_count it) - 1]"
      by (auto simp: segments_left_def upto.simps [of "sint (sg_next it)"])
    with less inv sint_step [OF less] show ?thesis
      by (simp add: segments_next_def segments_left_def segments_inv_def)
  qed
  show "segments_size_hint it = length (segments_left it)"
    using inv by (auto simp: segments_size_hint_def segments_left_def segments_inv_def sint_gap)
qed

subsection \<open>Exports and imports\<close>

definition exports_new :: "listing_kernel \<Rightarrow> cursor" where
  "exports_new k = cursor_new (lk_export_qty k)"

definition exports_next :: "cursor \<Rightarrow> (nat option \<times> cursor) option" where
  "exports_next c = Some
     (if cu_count c \<le> cu_next c then (None, c)
      else (Some (cu_next c), c\<lparr>cu_next := Suc (cu_next c)\<rparr>))"

definition exports_size_hint :: "cursor \<Rightarrow> nat" where
  "exports_size_hint c = cu_count c - cu_next c"

definition export_address :: "listing_kernel \<Rightarrow> nat \<Rightarrow> address option" where
  "export_address k index = try_new (lk_export_ea k index)"

interpretation export_list:
  exact_size_iterator exports_next "\<lambda>_. True" "\<lambda>c. [cu_next c ..< cu_count c]" exports_size_hint
proof
  fix c :: cursor and i js
  show "\<exists>s'. exports_next c = Some (None, s') \<and> True \<and> [cu_next s' ..< cu_count s'] = []"
    if "[cu_next c ..< cu_count c] = []"
    using that by (cases "cu_count c = 0") (simp_all add: exports_next_def)
  show "\<exists>s'. exports_next c = Some (Some i, s') \<and> True \<and> [cu_next s' ..< cu_count s'] = js"
    if "[cu_next c ..< cu_count c] = i # js"
    using that by (auto simp: exports_next_def upt_eq_Cons_conv)
qed (simp add: exports_size_hint_def)

record import_row =
  im_address :: address
  im_ordinal :: u64
  im_name :: "string option"
  im_module :: string

definition import_from_rec :: "import_rec \<Rightarrow> import_row option" where
  "import_from_rec rec =
     (case try_new (imr_ea rec) of
        None \<Rightarrow> None
      | Some a \<Rightarrow> Some
          \<lparr>im_address = a, im_ordinal = imr_ord rec,
           im_name = (if imr_name rec \<noteq> [] then Some (imr_name rec) else None),
           im_module = imr_module rec\<rparr>)"

definition import_ordinal :: "import_row \<Rightarrow> u64 option" where
  "import_ordinal i = (if im_ordinal i \<noteq> 0 then Some (im_ordinal i) else None)"

definition imports_new :: "listing_kernel \<Rightarrow> import_row list" where
  "imports_new k = List.map_filter import_from_rec (lk_imports k)"

definition imports_next :: "import_row list \<Rightarrow> (import_row option \<times> import_row list) option" where
  "imports_next rows = rows_next rows"

definition imports_size_hint :: "import_row list \<Rightarrow> nat" where
  "imports_size_hint rows = rows_size_hint rows"

interpretation import_list: exact_size_iterator imports_next "\<lambda>_. True" id imports_size_hint
  unfolding imports_next_def imports_size_hint_def by (rule row_list.exact_size_iterator_axioms)

subsection \<open>Cross references\<close>

datatype code_xref =
    CxUnknown | CxCallFar | CxCallNear | CxJumpFar | CxJumpNear | CxUserObsolete | CxFlow

primrec code_xref_code :: "code_xref \<Rightarrow> u8" where
  "code_xref_code CxUnknown = 0"
| "code_xref_code CxCallFar = 16"
| "code_xref_code CxCallNear = 17"
| "code_xref_code CxJumpFar = 18"
| "code_xref_code CxJumpNear = 19"
| "code_xref_code CxUserObsolete = 20"
| "code_xref_code CxFlow = 21"

definition code_xref_variants :: "code_xref list" where
  "code_xref_variants =
     [CxUnknown, CxCallFar, CxCallNear, CxJumpFar, CxJumpNear, CxUserObsolete, CxFlow]"

primrec show_code_xref :: "code_xref \<Rightarrow> string" where
  "show_code_xref CxUnknown = ''unknown''"
| "show_code_xref CxCallFar = ''far call''"
| "show_code_xref CxCallNear = ''near call''"
| "show_code_xref CxJumpFar = ''far jump''"
| "show_code_xref CxJumpNear = ''near jump''"
| "show_code_xref CxUserObsolete = ''user-specified (obsolete)''"
| "show_code_xref CxFlow = ''ordinary flow''"

datatype data_xref =
    DxUnknown | DxOffset | DxWrite | DxRead | DxText | DxInformational | DxSymbolic

primrec data_xref_code :: "data_xref \<Rightarrow> u8" where
  "data_xref_code DxUnknown = 0"
| "data_xref_code DxOffset = 1"
| "data_xref_code DxWrite = 2"
| "data_xref_code DxRead = 3"
| "data_xref_code DxText = 4"
| "data_xref_code DxInformational = 5"
| "data_xref_code DxSymbolic = 6"

definition data_xref_variants :: "data_xref list" where
  "data_xref_variants =
     [DxUnknown, DxOffset, DxWrite, DxRead, DxText, DxInformational, DxSymbolic]"

primrec show_data_xref :: "data_xref \<Rightarrow> string" where
  "show_data_xref DxUnknown = ''unknown''"
| "show_data_xref DxOffset = ''offset''"
| "show_data_xref DxWrite = ''write''"
| "show_data_xref DxRead = ''read''"
| "show_data_xref DxText = ''text''"
| "show_data_xref DxInformational = ''informational''"
| "show_data_xref DxSymbolic = ''symbolic''"

interpretation code_xrefs: closed_enum code_xref_code code_xref_variants
proof
  show "distinct (map code_xref_code code_xref_variants)" by (simp add: code_xref_variants_def)
  show "v \<in> set code_xref_variants" for v by (cases v) (simp_all add: code_xref_variants_def)
qed

interpretation data_xrefs: closed_enum data_xref_code data_xref_variants
proof
  show "distinct (map data_xref_code data_xref_variants)" by (simp add: data_xref_variants_def)
  show "v \<in> set data_xref_variants" for v by (cases v) (simp_all add: data_xref_variants_def)
qed

datatype xref_kind = XCode code_xref | XData data_xref
datatype xref_origin = OriginAnalysis | OriginUser

record xref =
  xf_from :: address
  xf_to :: address
  xf_kind :: xref_kind
  xf_origin :: xref_origin

definition xref_from_raw :: "u64 \<Rightarrow> u64 \<Rightarrow> u8 \<Rightarrow> u8 \<Rightarrow> u8 \<Rightarrow> xref option" where
  "xref_from_raw from_ea to_ea ty iscode user =
     do { f \<leftarrow> try_new from_ea;
          t \<leftarrow> try_new to_ea;
          kind \<leftarrow> (if iscode \<noteq> 0
                  then map_option XCode (try_from code_xref_code code_xref_variants ty)
                  else map_option XData (try_from data_xref_code data_xref_variants ty));
          Some \<lparr>xf_from = f, xf_to = t, xf_kind = kind,
                xf_origin = (if user \<noteq> 0 then OriginUser else OriginAnalysis)\<rparr> }"

definition xref_is_code :: "xref \<Rightarrow> bool" where
  "xref_is_code x \<longleftrightarrow> (case xf_kind x of XCode _ \<Rightarrow> True | XData _ \<Rightarrow> False)"

definition xref_is_user :: "xref \<Rightarrow> bool" where
  "xref_is_user x \<longleftrightarrow> (case xf_origin x of OriginUser \<Rightarrow> True | OriginAnalysis \<Rightarrow> False)"

text \<open>\<open>u8::from\<close> of a flag, and the record with the low byte of its type.\<close>

definition flag_byte :: "bool \<Rightarrow> u8" where
  "flag_byte b = (if b then 1 else 0)"

definition xref_of_rec :: "xref_rec \<Rightarrow> xref option" where
  "xref_of_rec r =
     xref_from_raw (xr_from r) (xr_to r) (ucast (xr_type r)) (flag_byte (xr_iscode r)) (flag_byte (xr_user r))"

fun xrefs_next :: "xref_rec list \<Rightarrow> (xref option \<times> xref_rec list) option" where
  "xrefs_next [] = Some (None, [])"
| "xrefs_next (r # rs) =
     (case xref_of_rec r of Some x \<Rightarrow> Some (Some x, rs) | None \<Rightarrow> xrefs_next rs)"

definition xrefs_size_hint :: "xref_rec list \<Rightarrow> nat \<times> nat option" where
  "xrefs_size_hint recs = (0, Some (length recs))"

definition xrefs_to_with :: "listing_kernel \<Rightarrow> address \<Rightarrow> bool \<Rightarrow> xref_rec list" where
  "xrefs_to_with k a flow = lk_xrefs k (address_get a) True flow"

definition xrefs_from_with :: "listing_kernel \<Rightarrow> address \<Rightarrow> bool \<Rightarrow> xref_rec list" where
  "xrefs_from_with k a flow = lk_xrefs k (address_get a) False flow"

definition xrefs_to :: "listing_kernel \<Rightarrow> address \<Rightarrow> xref_rec list" where
  "xrefs_to k a = xrefs_to_with k a False"

definition xrefs_from :: "listing_kernel \<Rightarrow> address \<Rightarrow> xref_rec list" where
  "xrefs_from k a = xrefs_from_with k a False"

interpretation xref_list: lazy_iterator xrefs_next "\<lambda>_. True" "List.map_filter xref_of_rec"
proof
  fix recs :: "xref_rec list" and i js
  show "\<exists>s'. xrefs_next recs = Some (None, s') \<and> True \<and> List.map_filter xref_of_rec s' = []"
    if "List.map_filter xref_of_rec recs = []"
    using that by (induction recs) (auto simp: map_filter_simps split: option.splits)
  show "\<exists>s'. xrefs_next recs = Some (Some i, s') \<and> True \<and> List.map_filter xref_of_rec s' = js"
    if "List.map_filter xref_of_rec recs = i # js"
    using that by (induction recs) (auto simp: map_filter_simps split: option.splits)
qed

subsection \<open>String types\<close>

definition STRWIDTH_MASK :: "32 word" where "STRWIDTH_MASK = 0x03"
definition STRLYT_MASK :: "32 word" where "STRLYT_MASK = 0xFC"
definition STRLYT_SHIFT :: nat where "STRLYT_SHIFT = 2"

text \<open>\<open>1u8 << n\<close>: \<open>None\<close> is the panic of a shift by eight or more.\<close>

definition char_width_of :: "32 word \<Rightarrow> u8 option" where
  "char_width_of raw_type =
     (let shift = ucast (raw_type AND STRWIDTH_MASK) :: u8
      in if unat shift < 8 then Some (push_bit (unat shift) 1) else None)"

definition is_pascal_of :: "32 word \<Rightarrow> bool" where
  "is_pascal_of raw_type \<longleftrightarrow>
     (let layout = signed_drop_bit STRLYT_SHIFT (raw_type AND STRLYT_MASK)
      in 1 \<le> sint layout \<and> sint layout \<le> 3)"

definition string_char_width :: "string_literal \<Rightarrow> u8 option" where
  "string_char_width s = char_width_of (sl_raw_type s)"

definition string_is_pascal :: "string_literal \<Rightarrow> bool" where
  "string_is_pascal s = is_pascal_of (sl_raw_type s)"

definition string_is_empty :: "string_literal \<Rightarrow> bool" where
  "string_is_empty s \<longleftrightarrow> sl_length s = 0"

subsection \<open>Properties\<close>

text \<open>
  The listings of functions, names and strings always end, within one call more than the count
  the kernel gave, and yield in index order, each once, exactly the entries at a real address; a name
  the kernel cannot read is empty, a negative length zero.
\<close>

theorem listings_enumerate:
  "drain (Suc (lk_func_qty k)) functions_next (k, functions_new k) =
     Some (List.map_filter (\<lambda>n. try_new (lk_func_ea k n)) [0 ..< lk_func_qty k]) \<and>
   drain (Suc (lk_nlist_size k)) names_next (k, names_new k) =
     Some (List.map_filter (name_at_index k) [0 ..< lk_nlist_size k]) \<and>
   drain (Suc (lk_strlist_qty (build k))) strings_next (strings_new build k) =
     Some (List.map_filter (string_item (build k)) [0 ..< lk_strlist_qty (build k)])"
  unfolding functions_new_def names_new_def strings_new_def Let_def function_at_index_def [symmetric]
  by (intro conjI function_list.enumerates name_list.enumerates string_list.enumerates lessI)

text \<open>
  The size hint of the segments is exact at every point of the walk, also where the kernel's count
  is negative: its \<open>i32\<close> subtraction does not wrap, that many segments follow, and they are the
  indices from the position up to the count.
\<close>

theorem segments_size_exact:
  assumes "segments_inv it"
  shows "sint (sg_count it - sg_next it) = sint (sg_count it) - sint (sg_next it) \<and>
    (\<exists>is. drain (Suc (segments_size_hint it)) segments_next it = Some is \<and>
      length is = segments_size_hint it \<and>
      map sint is = [sint (sg_next it) .. sint (sg_count it) - 1])"
proof -
  have "map sint (segments_left it) = [sint (sg_next it) .. sint (sg_count it) - 1]"
    using assms sint_range [of "sg_count it"]
    by (auto simp: segments_left_def comp_def segments_inv_def sint_of_int intro: map_idI)
  with assms segment_list.hint_exact [OF assms]
    segment_list.drains [OF assms, of "Suc (segments_size_hint it)"]
  show ?thesis by (auto simp: segments_inv_def sint_gap)
qed

theorem segments_size_exact_witness:
  "\<exists>is. drain 4 segments_next \<lparr>sg_next = 0, sg_count = 3\<rparr> = Some is \<and> map sint is = [0, 1, 2]"
proof -
  have "segments_inv \<lparr>sg_next = 0, sg_count = 3\<rparr>" by (simp add: segments_inv_def)
  from segments_size_exact [OF this] show ?thesis
    by (auto simp: segments_size_hint_def upto.simps simp del: drain.simps)
qed

text \<open>
  The cross references of an address are the kernel's records in order, but for those with an
  endpoint at the sentinel or a type whose low byte is none of the enumeration that the record's flag
  selects; of the others each keeps its endpoints, its space, its type and its origin.
\<close>

theorem xrefs_translate:
  "drain (Suc (length recs)) xrefs_next recs = Some (List.map_filter xref_of_rec recs) \<and>
   (xref_of_rec r = None \<longleftrightarrow>
      xr_from r = BADADDR \<or> xr_to r = BADADDR \<or>
      ucast (xr_type r) \<notin> set (if xr_iscode r then map code_xref_code code_xref_variants
                              else map data_xref_code data_xref_variants)) \<and>
   (case xref_of_rec r of
      None \<Rightarrow> True
    | Some x \<Rightarrow> address_get (xf_from x) = xr_from r \<and> address_get (xf_to x) = xr_to r \<and>
        xref_is_code x = xr_iscode r \<and> xref_is_user x = xr_user r \<and>
        (case xf_kind x of XCode c \<Rightarrow> code_xref_code c | XData d \<Rightarrow> data_xref_code d) = ucast (xr_type r))"
proof (intro conjI)
  show "drain (Suc (length recs)) xrefs_next recs = Some (List.map_filter xref_of_rec recs)"
    by (rule xref_list.drains) (simp_all add: less_Suc_eq_le map_filter_length)
  show "xref_of_rec r = None \<longleftrightarrow> xr_from r = BADADDR \<or> xr_to r = BADADDR \<or>
      ucast (xr_type r) \<notin> set (if xr_iscode r then map code_xref_code code_xref_variants
                              else map data_xref_code data_xref_variants)"
    using code_xrefs.try_from_None_iff data_xrefs.try_from_None_iff
    by (auto simp: xref_of_rec_def xref_from_raw_def flag_byte_def bind_eq_None_conv)
  show "case xref_of_rec r of None \<Rightarrow> True
    | Some x \<Rightarrow> address_get (xf_from x) = xr_from r \<and> address_get (xf_to x) = xr_to r \<and>
        xref_is_code x = xr_iscode r \<and> xref_is_user x = xr_user r \<and>
        (case xf_kind x of XCode c \<Rightarrow> code_xref_code c | XData d \<Rightarrow> data_xref_code d) = ucast (xr_type r)"
    by (auto simp: xref_of_rec_def xref_from_raw_def flag_byte_def xref_is_code_def xref_is_user_def
        try_new_Some_iff code_xrefs.try_from_Some_iff data_xrefs.try_from_Some_iff bind_eq_Some_conv
        split: option.splits)
qed

lemma width_shift: "(ucast (t AND STRWIDTH_MASK :: 32 word) :: u8) = ucast t AND 3"
  by (rule bit_word_eqI) (auto simp: bit_simps STRWIDTH_MASK_def)

lemma low_bits_le: "unat (ucast t AND 3 :: u8) \<le> 3"
  using word_and_le1 [of "ucast t" "3 :: u8"] by (simp add: word_le_nat_alt)

lemma low_bits_cases: "unat (ucast t AND 3 :: u8) \<in> {0, 1, 2, 3}"
  using low_bits_le [of t] by auto

text \<open>
  The width of a string's characters is the power of two its two low type bits give: the shift
  never overflows the byte, and 8 is a width it can answer.
\<close>

theorem char_width_bounded:
  "\<exists>w. char_width_of t = Some w \<and> w = 2 ^ unat (ucast t AND 3 :: u8) \<and> w \<in> {1, 2, 4, 8}"
  using low_bits_cases [of t]
  by (auto simp: char_width_of_def width_shift push_bit_eq_mult numeral_3_eq_3)

end
