(* ===== verification/Database_View.thy ===== *)
theory Database_View
  imports Listing
begin

unbundle bit_operations_syntax

text \<open>
  The views of a database: a function (\<open>function.rs\<close>), a segment (\<open>segment.rs\<close>), the addressing
  width (\<open>bitness.rs\<close>) and the typed reads (\<open>data.rs\<close>). A view is a key; each accessor asks the kernel
  and decodes what it answers, sentinels into options and codes into closed enumerations.

  The kernel is the record \<open>view_kernel\<close>; a segment is its index, a function its entry address.
\<close>

subsection \<open>The kernel\<close>

record entry_info =
  ei_start :: u64
  ei_end :: u64
  ei_flags :: u64
  ei_frame_id :: u64
  ei_locals_size :: u64
  ei_saved_regs_size :: u32
  ei_purged_bytes :: u64
  ei_frame_pointer_delta :: u64
  ei_color :: u32
  ei_name :: string
  ei_cmt :: string
  ei_cmt_rpt :: string

record view_kernel =
  vk_bitness_bits :: "32 word"
  vk_flags :: "u64 \<Rightarrow> u64"
  vk_func_start :: "u64 \<Rightarrow> u64"
  vk_func_end :: "u64 \<Rightarrow> u64"
  vk_func_flags :: "u64 \<Rightarrow> u64"
  vk_func_bitness :: "u64 \<Rightarrow> 32 word"
  vk_func_name :: "u64 \<Rightarrow> string option"
  vk_func_type :: "u64 \<Rightarrow> string option"
  vk_entry_info :: "u64 \<Rightarrow> 32 word \<Rightarrow> entry_info option"
  vk_get_u8 :: "u64 \<Rightarrow> u8 option"
  vk_get_u16 :: "u64 \<Rightarrow> u16 option"
  vk_get_u32 :: "u64 \<Rightarrow> u32 option"
  vk_get_u64 :: "u64 \<Rightarrow> u64 option"
  vk_get_bytes :: "u64 \<Rightarrow> u64 \<Rightarrow> u8 list option"
  vk_seg_at :: "u64 \<Rightarrow> 32 word"
  vk_seg_start :: "32 word \<Rightarrow> u64"
  vk_seg_end :: "32 word \<Rightarrow> u64"
  vk_seg_class :: "32 word \<Rightarrow> string option"
  vk_seg_bitness :: "32 word \<Rightarrow> 32 word"
  vk_seg_perm :: "32 word \<Rightarrow> 32 word"
  vk_seg_type :: "32 word \<Rightarrow> 32 word"
  vk_seg_flags :: "32 word \<Rightarrow> 32 word"
  vk_seg_color :: "32 word \<Rightarrow> u32"
  vk_seg_align :: "32 word \<Rightarrow> 32 word"
  vk_seg_comb :: "32 word \<Rightarrow> 32 word"

text \<open>\<open>code.max(0) as u8\<close>.\<close>

definition clamp_u8 :: "32 word \<Rightarrow> u8" where
  "clamp_u8 code = ucast (if sint code < 0 then 0 else code)"

subsection \<open>Addressing width and typed reads\<close>

datatype bitness = Bits16 | Bits32 | Bits64

definition try_from_bits :: "u8 \<Rightarrow> bitness option" where
  "try_from_bits bits =
     (if bits = 16 then Some Bits16 else if bits = 32 then Some Bits32
      else if bits = 64 then Some Bits64 else None)"

primrec bitness_bits :: "bitness \<Rightarrow> u8" where
  "bitness_bits Bits16 = 16"
| "bitness_bits Bits32 = 32"
| "bitness_bits Bits64 = 64"

definition show_bitness :: "bitness \<Rightarrow> string" where
  "show_bitness b = show_nat (unat (bitness_bits b)) @ ''-bit''"

definition database_bitness :: "view_kernel \<Rightarrow> bitness option" where
  "database_bitness k = try_from_bits (clamp_u8 (vk_bitness_bits k))"

definition db_read_u8 :: "view_kernel \<Rightarrow> address \<Rightarrow> u8 option" where
  "db_read_u8 k a = vk_get_u8 k (address_get a)"

definition db_read_u16 :: "view_kernel \<Rightarrow> address \<Rightarrow> u16 option" where
  "db_read_u16 k a = vk_get_u16 k (address_get a)"

definition db_read_u32 :: "view_kernel \<Rightarrow> address \<Rightarrow> u32 option" where
  "db_read_u32 k a = vk_get_u32 k (address_get a)"

definition db_read_u64 :: "view_kernel \<Rightarrow> address \<Rightarrow> u64 option" where
  "db_read_u64 k a = vk_get_u64 k (address_get a)"

definition read_pointer :: "view_kernel \<Rightarrow> address \<Rightarrow> address option" where
  "read_pointer k a =
     do { b \<leftarrow> database_bitness k;
          raw \<leftarrow> (case b of
                  Bits64 \<Rightarrow> db_read_u64 k a
                | Bits32 \<Rightarrow> map_option ucast (db_read_u32 k a)
                | Bits16 \<Rightarrow> map_option ucast (db_read_u16 k a));
          try_new raw }"

subsection \<open>Functions\<close>

definition function_at :: "view_kernel \<Rightarrow> address \<Rightarrow> address option" where
  "function_at k a = try_new (vk_func_start k (address_get a))"

definition function_end :: "view_kernel \<Rightarrow> address \<Rightarrow> address option" where
  "function_end k f = try_new (vk_func_end k (address_get f))"

definition function_size :: "view_kernel \<Rightarrow> address \<Rightarrow> u64" where
  "function_size k f = (case function_end k f of None \<Rightarrow> 0 | Some e \<Rightarrow> distance_to f e)"

text \<open>The sum of \<open>total_size\<close>, in order; \<open>None\<close> is the overflow of an addition.\<close>

fun sum_u64 :: "u64 \<Rightarrow> u64 list \<Rightarrow> u64 option" where
  "sum_u64 acc [] = Some acc"
| "sum_u64 acc (x # xs) =
     (if unat acc + unat x < 2 ^ 64 then sum_u64 (acc + x) xs else None)"

definition chunk_size :: "function_chunk \<Rightarrow> u64" where
  "chunk_size c = distance_to (fch_start c) (fch_end c)"

definition total_size :: "item_kernel \<Rightarrow> address \<Rightarrow> u64 option" where
  "total_size k f = sum_u64 0 (map chunk_size (function_chunks_new k f))"

definition function_bitness :: "view_kernel \<Rightarrow> address \<Rightarrow> bitness option" where
  "function_bitness k f = try_from_bits (clamp_u8 (vk_func_bitness k (address_get f)))"

definition FUNC_NORET :: u64 where "FUNC_NORET = 1"
definition FUNC_LIB :: u64 where "FUNC_LIB = 4"
definition FUNC_THUNK :: u64 where "FUNC_THUNK = 0x80"

definition function_is_lib :: "view_kernel \<Rightarrow> address \<Rightarrow> bool" where
  "function_is_lib k f = contains_flag (vk_func_flags k (address_get f)) FUNC_LIB"

definition function_is_thunk :: "view_kernel \<Rightarrow> address \<Rightarrow> bool" where
  "function_is_thunk k f = contains_flag (vk_func_flags k (address_get f)) FUNC_THUNK"

definition function_is_noreturn :: "view_kernel \<Rightarrow> address \<Rightarrow> bool" where
  "function_is_noreturn k f = contains_flag (vk_func_flags k (address_get f)) FUNC_NORET"

datatype function_name = UserName string | AutoName string | DummyName string

definition FF_NAME :: u64 where "FF_NAME = push_bit 14 1"
definition FF_LABL :: u64 where "FF_LABL = push_bit 15 1"

definition name_from_flags :: "u64 \<Rightarrow> string \<Rightarrow> function_name" where
  "name_from_flags flags text =
     (let named = flags AND FF_NAME \<noteq> 0; labeled = flags AND FF_LABL \<noteq> 0
      in case (named, labeled) of
           (True, False) \<Rightarrow> UserName text
         | (True, True) \<Rightarrow> AutoName text
         | _ \<Rightarrow> DummyName text)"

primrec function_name_str :: "function_name \<Rightarrow> string" where
  "function_name_str (UserName s) = s"
| "function_name_str (AutoName s) = s"
| "function_name_str (DummyName s) = s"

definition named_function :: "view_kernel \<Rightarrow> address \<Rightarrow> function_name" where
  "named_function k f =
     name_from_flags (vk_flags k (address_get f)) (unwrap_or (vk_func_name k (address_get f)) [])"

definition function_prototype :: "view_kernel \<Rightarrow> address \<Rightarrow> string option" where
  "function_prototype k f = vk_func_type k (address_get f)"

record function_snapshot =
  fs_address :: address
  fs_name :: function_name
  fs_prototype :: "string option"

definition snapshot_function :: "view_kernel \<Rightarrow> address \<Rightarrow> function_snapshot" where
  "snapshot_function k f =
     \<lparr>fs_address = f, fs_name = named_function k f, fs_prototype = function_prototype k f\<rparr>"

record function_entry =
  fe_start :: address
  fe_end :: address
  fe_flags :: u64
  fe_frame_id :: "u64 option"
  fe_locals_size :: u64
  fe_saved_regs_size :: u32
  fe_purged_bytes :: u64
  fe_frame_pointer_delta :: u64
  fe_color :: "u32 option"
  fe_name :: "string option"
  fe_comment :: "string option"
  fe_repeatable_comment :: "string option"

definition text_opt :: "string \<Rightarrow> string option" where
  "text_opt s = (if s \<noteq> [] then Some s else None)"

definition entry_from_raw :: "entry_info \<Rightarrow> function_entry option" where
  "entry_from_raw raw =
     do { s \<leftarrow> try_new (ei_start raw);
          e \<leftarrow> try_new (ei_end raw);
          Some \<lparr>fe_start = s, fe_end = e, fe_flags = ei_flags raw,
            fe_frame_id = (if ei_frame_id raw \<noteq> - 1 then Some (ei_frame_id raw) else None),
            fe_locals_size = ei_locals_size raw, fe_saved_regs_size = ei_saved_regs_size raw,
            fe_purged_bytes = ei_purged_bytes raw, fe_frame_pointer_delta = ei_frame_pointer_delta raw,
            fe_color = (if ei_color raw \<noteq> - 1 then Some (ei_color raw) else None),
            fe_name = text_opt (ei_name raw), fe_comment = text_opt (ei_cmt raw),
            fe_repeatable_comment = text_opt (ei_cmt_rpt raw)\<rparr> }"

definition GFI_NAME :: "32 word" where "GFI_NAME = 1"
definition GFI_COMMENTS :: "32 word" where "GFI_COMMENTS = 2 OR 4"

text \<open>\<open>entry_with\<close>: the error is \<open>NoFunction\<close> at the address.\<close>

definition entry_with :: "view_kernel \<Rightarrow> bool \<Rightarrow> bool \<Rightarrow> address \<Rightarrow> u64 + function_entry" where
  "entry_with k name comments f =
     (let fields = (if name then GFI_NAME else 0) OR (if comments then GFI_COMMENTS else 0)
      in case Option.bind (vk_entry_info k (address_get f) fields) entry_from_raw of
           Some e \<Rightarrow> Inr e
         | None \<Rightarrow> Inl (address_get f))"

definition function_entry_of :: "view_kernel \<Rightarrow> address \<Rightarrow> u64 + function_entry" where
  "function_entry_of k f = entry_with k False False f"

subsection \<open>Segments\<close>

datatype segment_type =
    StNormal | StExtern | StCode | StData
  | StJavaImpl | StGroup | StNull | StUndefined
  | StBss | StAbsoluteSymbols | StCommon | StInternalMemory

primrec segment_type_code :: "segment_type \<Rightarrow> u8" where
  "segment_type_code StNormal = 0"
| "segment_type_code StExtern = 1"
| "segment_type_code StCode = 2"
| "segment_type_code StData = 3"
| "segment_type_code StJavaImpl = 4"
| "segment_type_code StGroup = 6"
| "segment_type_code StNull = 7"
| "segment_type_code StUndefined = 8"
| "segment_type_code StBss = 9"
| "segment_type_code StAbsoluteSymbols = 10"
| "segment_type_code StCommon = 11"
| "segment_type_code StInternalMemory = 12"

definition segment_type_variants :: "segment_type list" where
  "segment_type_variants =
    [StNormal, StExtern, StCode, StData,
     StJavaImpl, StGroup, StNull, StUndefined,
     StBss, StAbsoluteSymbols, StCommon, StInternalMemory]"

interpretation segment_types: closed_enum segment_type_code segment_type_variants
proof
  show "distinct (map segment_type_code segment_type_variants)" by (simp add: segment_type_variants_def)
  show "v \<in> set segment_type_variants" for v by (cases v) (simp_all add: segment_type_variants_def)
qed

datatype segment_alignment =
    SaAbsolute | SaRelocatableByte | SaRelocatableWord | SaRelocatableParagraph
  | SaRelocatablePage | SaRelocatableDouble | SaRelocatablePage4K | SaGroup
  | SaRelocatable32Bytes | SaRelocatable64Bytes | SaRelocatableQword | SaRelocatable128Bytes
  | SaRelocatable512Bytes | SaRelocatable1024Bytes | SaRelocatable2048Bytes

primrec segment_alignment_code :: "segment_alignment \<Rightarrow> u8" where
  "segment_alignment_code SaAbsolute = 0"
| "segment_alignment_code SaRelocatableByte = 1"
| "segment_alignment_code SaRelocatableWord = 2"
| "segment_alignment_code SaRelocatableParagraph = 3"
| "segment_alignment_code SaRelocatablePage = 4"
| "segment_alignment_code SaRelocatableDouble = 5"
| "segment_alignment_code SaRelocatablePage4K = 6"
| "segment_alignment_code SaGroup = 7"
| "segment_alignment_code SaRelocatable32Bytes = 8"
| "segment_alignment_code SaRelocatable64Bytes = 9"
| "segment_alignment_code SaRelocatableQword = 10"
| "segment_alignment_code SaRelocatable128Bytes = 11"
| "segment_alignment_code SaRelocatable512Bytes = 12"
| "segment_alignment_code SaRelocatable1024Bytes = 13"
| "segment_alignment_code SaRelocatable2048Bytes = 14"

definition segment_alignment_variants :: "segment_alignment list" where
  "segment_alignment_variants =
    [SaAbsolute, SaRelocatableByte, SaRelocatableWord, SaRelocatableParagraph,
     SaRelocatablePage, SaRelocatableDouble, SaRelocatablePage4K, SaGroup,
     SaRelocatable32Bytes, SaRelocatable64Bytes, SaRelocatableQword, SaRelocatable128Bytes,
     SaRelocatable512Bytes, SaRelocatable1024Bytes, SaRelocatable2048Bytes]"

interpretation segment_alignments: closed_enum segment_alignment_code segment_alignment_variants
proof
  show "distinct (map segment_alignment_code segment_alignment_variants)" by (simp add: segment_alignment_variants_def)
  show "v \<in> set segment_alignment_variants" for v by (cases v) (simp_all add: segment_alignment_variants_def)
qed

datatype segment_combination =
    ScPrivate | ScGroup | ScPublic | ScPublic2
  | ScStack | ScCommon | ScPublic3

primrec segment_combination_code :: "segment_combination \<Rightarrow> u8" where
  "segment_combination_code ScPrivate = 0"
| "segment_combination_code ScGroup = 1"
| "segment_combination_code ScPublic = 2"
| "segment_combination_code ScPublic2 = 4"
| "segment_combination_code ScStack = 5"
| "segment_combination_code ScCommon = 6"
| "segment_combination_code ScPublic3 = 7"

definition segment_combination_variants :: "segment_combination list" where
  "segment_combination_variants =
    [ScPrivate, ScGroup, ScPublic, ScPublic2,
     ScStack, ScCommon, ScPublic3]"

interpretation segment_combinations: closed_enum segment_combination_code segment_combination_variants
proof
  show "distinct (map segment_combination_code segment_combination_variants)" by (simp add: segment_combination_variants_def)
  show "v \<in> set segment_combination_variants" for v by (cases v) (simp_all add: segment_combination_variants_def)
qed

primrec show_segment_type :: "segment_type \<Rightarrow> string" where
  "show_segment_type StNormal = ''normal''"
| "show_segment_type StExtern = ''extern''"
| "show_segment_type StCode = ''code''"
| "show_segment_type StData = ''data''"
| "show_segment_type StJavaImpl = ''java implementation''"
| "show_segment_type StGroup = ''group''"
| "show_segment_type StNull = ''null''"
| "show_segment_type StUndefined = ''undefined''"
| "show_segment_type StBss = ''bss''"
| "show_segment_type StAbsoluteSymbols = ''absolute symbols''"
| "show_segment_type StCommon = ''common''"
| "show_segment_type StInternalMemory = ''internal memory''"

datatype segment_class =
    ClsCode | ClsData | ClsConst | ClsStack | ClsBss | ClsExternal | ClsCommon | ClsAbsolute | ClsOther string

definition segment_class_from_raw :: "string \<Rightarrow> segment_class" where
  "segment_class_from_raw raw =
     (if raw = ''CODE'' then ClsCode
      else if raw = ''DATA'' then ClsData
      else if raw = ''CONST'' then ClsConst
      else if raw = ''STACK'' then ClsStack
      else if raw = ''BSS'' then ClsBss
      else if raw = ''XTRN'' then ClsExternal
      else if raw = ''COMM'' then ClsCommon
      else if raw = ''ABS'' then ClsAbsolute
      else ClsOther raw)"

primrec show_segment_class :: "segment_class \<Rightarrow> string" where
  "show_segment_class ClsCode = ''CODE''"
| "show_segment_class ClsData = ''DATA''"
| "show_segment_class ClsConst = ''CONST''"
| "show_segment_class ClsStack = ''STACK''"
| "show_segment_class ClsBss = ''BSS''"
| "show_segment_class ClsExternal = ''XTRN''"
| "show_segment_class ClsCommon = ''COMM''"
| "show_segment_class ClsAbsolute = ''ABS''"
| "show_segment_class (ClsOther s) = s"

definition segment_at :: "view_kernel \<Rightarrow> address \<Rightarrow> 32 word option" where
  "segment_at k a = (let index = vk_seg_at k (address_get a) in if 0 \<le> sint index then Some index else None)"

definition segment_start :: "view_kernel \<Rightarrow> 32 word \<Rightarrow> address option" where
  "segment_start k i = try_new (vk_seg_start k i)"

definition segment_end :: "view_kernel \<Rightarrow> 32 word \<Rightarrow> address option" where
  "segment_end k i = try_new (vk_seg_end k i)"

definition segment_bytes :: "view_kernel \<Rightarrow> 32 word \<Rightarrow> u8 list option" where
  "segment_bytes k i =
     do { s \<leftarrow> segment_start k i;
          e \<leftarrow> segment_end k i;
          Some (unwrap_or (vk_get_bytes k (address_get s) (distance_to s e)) []) }"

definition segment_class_of :: "view_kernel \<Rightarrow> 32 word \<Rightarrow> segment_class option" where
  "segment_class_of k i = map_option segment_class_from_raw (vk_seg_class k i)"

definition segment_bitness :: "view_kernel \<Rightarrow> 32 word \<Rightarrow> bitness option" where
  "segment_bitness k i = try_from_bits (clamp_u8 (vk_seg_bitness k i))"

definition SEGPERM_EXEC :: "32 word" where "SEGPERM_EXEC = 1"
definition SEGPERM_WRITE :: "32 word" where "SEGPERM_WRITE = 2"
definition SEGPERM_READ :: "32 word" where "SEGPERM_READ = 4"

definition is_readable :: "view_kernel \<Rightarrow> 32 word \<Rightarrow> bool" where
  "is_readable k i = contains_flag (vk_seg_perm k i) SEGPERM_READ"

definition is_writable :: "view_kernel \<Rightarrow> 32 word \<Rightarrow> bool" where
  "is_writable k i = contains_flag (vk_seg_perm k i) SEGPERM_WRITE"

definition is_executable :: "view_kernel \<Rightarrow> 32 word \<Rightarrow> bool" where
  "is_executable k i = contains_flag (vk_seg_perm k i) SEGPERM_EXEC"

definition segment_kind :: "view_kernel \<Rightarrow> 32 word \<Rightarrow> segment_type option" where
  "segment_kind k i = try_from segment_type_code segment_type_variants (clamp_u8 (vk_seg_type k i))"

definition segment_color :: "view_kernel \<Rightarrow> 32 word \<Rightarrow> u32 option" where
  "segment_color k i = (let raw = vk_seg_color k i in if raw \<noteq> - 1 then Some raw else None)"

definition segment_align :: "view_kernel \<Rightarrow> 32 word \<Rightarrow> segment_alignment option" where
  "segment_align k i =
     try_from segment_alignment_code segment_alignment_variants (clamp_u8 (vk_seg_align k i))"

definition segment_comb :: "view_kernel \<Rightarrow> 32 word \<Rightarrow> segment_combination option" where
  "segment_comb k i =
     try_from segment_combination_code segment_combination_variants (clamp_u8 (vk_seg_comb k i))"

definition SFL_HIDDEN :: "32 word" where "SFL_HIDDEN = 0x04"
definition SFL_DEBUG :: "32 word" where "SFL_DEBUG = 0x08"
definition SFL_LOADER :: "32 word" where "SFL_LOADER = 0x10"
definition SFL_HIDETYPE :: "32 word" where "SFL_HIDETYPE = 0x20"
definition SFL_HEADER :: "32 word" where "SFL_HEADER = 0x40"

definition segment_is_visible :: "view_kernel \<Rightarrow> 32 word \<Rightarrow> bool" where
  "segment_is_visible k i \<longleftrightarrow> \<not> contains_flag (vk_seg_flags k i) SFL_HIDDEN"

definition segment_is_debugger :: "view_kernel \<Rightarrow> 32 word \<Rightarrow> bool" where
  "segment_is_debugger k i \<longleftrightarrow> contains_flag (vk_seg_flags k i) SFL_DEBUG"

definition segment_is_loader :: "view_kernel \<Rightarrow> 32 word \<Rightarrow> bool" where
  "segment_is_loader k i \<longleftrightarrow> contains_flag (vk_seg_flags k i) SFL_LOADER"

definition segment_is_type_hidden :: "view_kernel \<Rightarrow> 32 word \<Rightarrow> bool" where
  "segment_is_type_hidden k i \<longleftrightarrow> contains_flag (vk_seg_flags k i) SFL_HIDETYPE"

definition segment_is_header :: "view_kernel \<Rightarrow> 32 word \<Rightarrow> bool" where
  "segment_is_header k i \<longleftrightarrow> contains_flag (vk_seg_flags k i) SFL_HEADER"

subsection \<open>Sizes\<close>

definition chunk_span :: "function_chunk \<Rightarrow> u64 set" where
  "chunk_span c = {x. address_get (fch_start c) \<le> x \<and> x < address_get (fch_end c)}"

text \<open>What the kernel promises of a function's fragments: no two of them overlap.\<close>

fun chunks_disjoint :: "function_chunk list \<Rightarrow> bool" where
  "chunks_disjoint [] = True"
| "chunks_disjoint (c # cs) =
     (list_all (\<lambda>d. fch_end c \<le> fch_start d \<or> fch_end d \<le> fch_start c) cs \<and> chunks_disjoint cs)"

lemma unat_surj: "n < 2 ^ 64 \<Longrightarrow> \<exists>w :: u64. unat w = n"
  by (rule exI [of _ "of_nat n"]) (simp add: unat_of_nat)

lemma unat_image_interval: "unat ` {x :: u64. a \<le> x \<and> x < b} = {unat a ..< unat b}"
proof (rule set_eqI, rule iffI)
  fix n assume n: "n \<in> {unat a ..< unat b}"
  then have "n < unat b" by simp
  also have "\<dots> < 2 ^ 64" using unat_less_u64 [of b] by simp
  finally obtain w :: u64 where "unat w = n" using unat_surj by blast
  with n show "n \<in> unat ` {x. a \<le> x \<and> x < b}" by (auto simp: word_le_nat_alt word_less_nat_alt)
qed (auto simp: word_le_nat_alt word_less_nat_alt)

lemma card_u64_interval: "card {x :: u64. a \<le> x \<and> x < b} = unat b - unat a"
proof -
  have "card {x :: u64. a \<le> x \<and> x < b} = card (unat ` {x :: u64. a \<le> x \<and> x < b})"
    by (rule card_image [symmetric]) (simp add: inj_on_def word_unat_eq_iff)
  then show ?thesis by (simp only: unat_image_interval card_atLeastLessThan)
qed

lemma card_chunk_span: "card (chunk_span c) = unat (chunk_size c)"
  by (simp add: chunk_span_def card_u64_interval chunk_size_def distance_to_def unat_saturating_sub)

lemma chunk_span_disjoint:
  "fch_end c \<le> fch_start d \<or> fch_end d \<le> fch_start c \<Longrightarrow> chunk_span c \<inter> chunk_span d = {}"
  by (auto simp: chunk_span_def address_le_iff)

lemma card_chunk_spans:
  "chunks_disjoint cs \<Longrightarrow>
   card (\<Union> (set (map chunk_span cs))) = sum_list (map (unat \<circ> chunk_size) cs)"
proof (induction cs)
  case (Cons c cs)
  then have "chunk_span c \<inter> \<Union> (set (map chunk_span cs)) = {}"
    using chunk_span_disjoint by (fastforce simp: list_all_iff)
  with Cons show ?case by (simp add: card_Un_disjoint card_chunk_span)
qed simp

lemma sum_u64_exact:
  "unat acc + sum_list (map unat xs) < 2 ^ 64 \<Longrightarrow>
   \<exists>r. sum_u64 acc xs = Some r \<and> unat r = unat acc + sum_list (map unat xs)"
proof (induction xs arbitrary: acc)
  case (Cons x xs)
  then have "unat (acc + x) = unat acc + unat x" by (simp add: unat_word_ariths)
  with Cons.IH [of "acc + x"] Cons.prems show ?case by (simp add: add.assoc)
qed simp

lemma spans_fit: "card (\<Union> (set (map chunk_span cs))) < 2 ^ 64"
proof -
  have "- 1 \<notin> chunk_span c" for c
    using max_word_max [of "address_get (fch_end c)"] by (auto simp: chunk_span_def)
  then have "- 1 \<notin> \<Union> (set (map chunk_span cs))" by auto
  then have "\<Union> (set (map chunk_span cs)) \<subset> UNIV" by blast
  then have "card (\<Union> (set (map chunk_span cs))) < card (UNIV :: u64 set)"
    by (rule psubset_card_mono [OF finite])
  then show ?thesis by (simp add: card_word)
qed

lemma chunk_size_le_total:
  "c \<in> set cs \<Longrightarrow> unat (chunk_size c) \<le> sum_list (map (unat \<circ> chunk_size) cs)"
  by (rule member_le_sum_list) auto

text \<open>
  C21: where no two fragments of a function overlap, the sum of their sizes never overflows: the total
  size is the number of addresses the fragments cover together, and no fragment is larger than it.
\<close>

theorem total_size_covers:
  assumes "chunks_disjoint (function_chunks_new k f)"
  shows "\<exists>n. total_size k f = Some n \<and>
    unat n = card (\<Union>c \<in> set (function_chunks_new k f). chunk_span c) \<and>
    list_all (\<lambda>c. chunk_size c \<le> n) (function_chunks_new k f)"
proof -
  let ?cs = "function_chunks_new k f"
  have card: "card (\<Union>c \<in> set ?cs. chunk_span c) = sum_list (map (unat \<circ> chunk_size) ?cs)"
    using card_chunk_spans [OF assms] by simp
  with spans_fit [of ?cs] have "unat (0 :: u64) + sum_list (map unat (map chunk_size ?cs)) < 2 ^ 64"
    by simp
  from sum_u64_exact [OF this] obtain n where
    n: "total_size k f = Some n" "unat n = sum_list (map (unat \<circ> chunk_size) ?cs)"
    by (auto simp: total_size_def)
  with card chunk_size_le_total [of _ ?cs] show ?thesis
    by (auto simp: list_all_iff word_le_nat_alt)
qed

theorem total_size_covers_witness:
  "\<exists>n. total_size sample_kernel (Address 1) = Some n \<and> list_all (\<lambda>c. chunk_size c \<le> n)
     (function_chunks_new sample_kernel (Address 1))"
proof -
  have "chunks_disjoint (function_chunks_new sample_kernel (Address 1))"
    by (simp add: function_chunks_new_def sample_kernel_def map_filter_simps try_new_def
        address_le_iff address_get_def)
  from total_size_covers [OF this] show ?thesis by blast
qed

lemma try_from_bits_iff: "try_from_bits w = Some b \<longleftrightarrow> w = bitness_bits b"
  by (cases b) (auto simp: try_from_bits_def)

lemma database_bitness_iff:
  "database_bitness k = Some b \<longleftrightarrow> clamp_u8 (vk_bitness_bits k) = bitness_bits b"
  by (simp add: database_bitness_def try_from_bits_iff)

lemma ucast_ne_BADADDR:
  "(ucast (w :: u32) :: u64) \<noteq> BADADDR" "(ucast (v :: u16) :: u64) \<noteq> BADADDR"
proof -
  have "\<not> bit (ucast w :: u64) 63" "\<not> bit (ucast v :: u64) 63" "bit BADADDR 63"
    using bit_imp_le_length [of w 63] bit_imp_le_length [of v 63] by (auto simp: BADADDR_def bit_simps)
  then show "(ucast w :: u64) \<noteq> BADADDR" "(ucast v :: u64) \<noteq> BADADDR" by metis+
qed

lemma get_try_new: "map_option address_get (try_new w) = (if w = BADADDR then None else Some w)"
  by (cases "try_new w") (auto simp: try_new_Some_iff get_ne_BADADDR)

text \<open>
  A pointer is read at the width of the database: it is the integer of that width stored there,
  and is refused where the database has no width, where the bytes are unmapped, and in a 64-bit
  database where they are the sentinel; the narrower widths cannot hold it.
\<close>

theorem read_pointer_width:
  "map_option address_get (read_pointer k a) =
     (case database_bitness k of
        None \<Rightarrow> None
      | Some Bits64 \<Rightarrow> (case db_read_u64 k a of None \<Rightarrow> None | Some w \<Rightarrow> if w = BADADDR then None else Some w)
      | Some Bits32 \<Rightarrow> map_option ucast (db_read_u32 k a)
      | Some Bits16 \<Rightarrow> map_option ucast (db_read_u16 k a))"
proof -
  have "map_option address_get (Option.bind (map_option ucast x) try_new) = map_option ucast x"
    for x :: "u32 option" by (cases x) (simp_all add: get_try_new ucast_ne_BADADDR)
  moreover have "map_option address_get (Option.bind (map_option ucast x) try_new) = map_option ucast x"
    for x :: "u16 option" by (cases x) (simp_all add: get_try_new ucast_ne_BADADDR)
  ultimately show ?thesis
    by (auto simp: read_pointer_def get_try_new split: option.splits bitness.splits)
qed

text \<open>
  A segment class is its name: printing the class a name parses to gives the name back, and
  parsing a printed class gives the class back exactly when it does not smuggle one of the eight
  known names in as another.
\<close>

theorem segment_class_roundtrip:
  "show_segment_class (segment_class_from_raw s) = s \<and>
   (segment_class_from_raw (show_segment_class c) = c \<longleftrightarrow>
      (case c of
         ClsOther r \<Rightarrow> r \<notin> {''CODE'', ''DATA'', ''CONST'', ''STACK'', ''BSS'', ''XTRN'', ''COMM'', ''ABS''}
       | _ \<Rightarrow> True))"
  by (cases c) (auto simp: segment_class_from_raw_def)

lemma unwrap_sentinel:
  "unwrap_or (if x \<noteq> d then Some x else None) d = x" "(if x \<noteq> d then Some x else None) \<noteq> Some d"
  by (simp_all add: unwrap_or_def)

lemma text_opt_facts: "unwrap_or (text_opt s) [] = s" "text_opt s \<noteq> Some []"
  by (simp_all add: unwrap_or_def text_opt_def)

lemma entry_from_raw_None:
  "entry_from_raw raw = None \<longleftrightarrow> ei_start raw = BADADDR \<or> ei_end raw = BADADDR"
  by (auto simp: entry_from_raw_def bind_eq_None_conv)

lemma entry_from_raw_fields:
  assumes "entry_from_raw raw = Some e"
  shows "address_get (fe_start e) = ei_start raw \<and> address_get (fe_end e) = ei_end raw \<and>
    fe_frame_id e = (if ei_frame_id raw \<noteq> - 1 then Some (ei_frame_id raw) else None) \<and>
    fe_color e = (if ei_color raw \<noteq> - 1 then Some (ei_color raw) else None) \<and>
    fe_name e = text_opt (ei_name raw) \<and> fe_comment e = text_opt (ei_cmt raw) \<and>
    fe_repeatable_comment e = text_opt (ei_cmt_rpt raw)"
proof -
  from assms obtain a b where ab: "try_new (ei_start raw) = Some a" "try_new (ei_end raw) = Some b"
    by (auto simp: entry_from_raw_def bind_eq_Some_conv)
  with assms have "fe_start e = a \<and> fe_end e = b \<and>
    fe_frame_id e = (if ei_frame_id raw \<noteq> - 1 then Some (ei_frame_id raw) else None) \<and>
    fe_color e = (if ei_color raw \<noteq> - 1 then Some (ei_color raw) else None) \<and>
    fe_name e = text_opt (ei_name raw) \<and> fe_comment e = text_opt (ei_cmt raw) \<and>
    fe_repeatable_comment e = text_opt (ei_cmt_rpt raw)"
    by (auto simp: entry_from_raw_def)
  with ab show ?thesis by (simp add: try_new_Some_iff)
qed

lemma entry_fields_mask:
  "(if name then GFI_NAME else 0) OR (if comments then GFI_COMMENTS else 0) =
     (if name then (if comments then 7 else 1) else (if comments then 6 else 0))"
  by (simp add: GFI_NAME_def GFI_COMMENTS_def)

text \<open>
  The details of a function are asked for with exactly the strings wanted; they are refused, at
  the function's address, when the kernel has none or one of its ends is the sentinel, and otherwise
  keep every field, the sentinels of frame and colour and the empty strings being none.
\<close>

theorem entry_verdict:
  "entry_with k name comments f =
     (case vk_entry_info k (address_get f)
             (if name then (if comments then 7 else 1) else (if comments then 6 else 0)) of
        None \<Rightarrow> Inl (address_get f)
      | Some raw \<Rightarrow>
          if ei_start raw = BADADDR \<or> ei_end raw = BADADDR then Inl (address_get f)
          else Inr (the (entry_from_raw raw))) \<and>
   (case entry_from_raw raw of
      None \<Rightarrow> ei_start raw = BADADDR \<or> ei_end raw = BADADDR
    | Some e \<Rightarrow>
        address_get (fe_start e) = ei_start raw \<and> address_get (fe_end e) = ei_end raw \<and>
        unwrap_or (fe_frame_id e) (- 1) = ei_frame_id raw \<and> unwrap_or (fe_color e) (- 1) = ei_color raw \<and>
        unwrap_or (fe_name e) [] = ei_name raw \<and> unwrap_or (fe_comment e) [] = ei_cmt raw \<and>
        unwrap_or (fe_repeatable_comment e) [] = ei_cmt_rpt raw \<and>
        fe_name e \<noteq> Some [] \<and> fe_comment e \<noteq> Some [] \<and> fe_repeatable_comment e \<noteq> Some [] \<and>
        fe_frame_id e \<noteq> Some (- 1) \<and> fe_color e \<noteq> Some (- 1))"
proof
  show "entry_with k name comments f =
     (case vk_entry_info k (address_get f)
             (if name then (if comments then 7 else 1) else (if comments then 6 else 0)) of
        None \<Rightarrow> Inl (address_get f)
      | Some raw \<Rightarrow>
          if ei_start raw = BADADDR \<or> ei_end raw = BADADDR then Inl (address_get f)
          else Inr (the (entry_from_raw raw)))"
    unfolding entry_with_def entry_fields_mask Let_def entry_from_raw_None [symmetric]
    by (auto split: option.splits)
  show "case entry_from_raw raw of
      None \<Rightarrow> ei_start raw = BADADDR \<or> ei_end raw = BADADDR
    | Some e \<Rightarrow>
        address_get (fe_start e) = ei_start raw \<and> address_get (fe_end e) = ei_end raw \<and>
        unwrap_or (fe_frame_id e) (- 1) = ei_frame_id raw \<and> unwrap_or (fe_color e) (- 1) = ei_color raw \<and>
        unwrap_or (fe_name e) [] = ei_name raw \<and> unwrap_or (fe_comment e) [] = ei_cmt raw \<and>
        unwrap_or (fe_repeatable_comment e) [] = ei_cmt_rpt raw \<and>
        fe_name e \<noteq> Some [] \<and> fe_comment e \<noteq> Some [] \<and> fe_repeatable_comment e \<noteq> Some [] \<and>
        fe_frame_id e \<noteq> Some (- 1) \<and> fe_color e \<noteq> Some (- 1)"
  proof (cases "entry_from_raw raw")
    case None
    then show ?thesis using entry_from_raw_None [of raw] by simp
  next
    case (Some e)
    from entry_from_raw_fields [OF Some] show ?thesis
      unfolding Some option.case by (simp only: unwrap_sentinel text_opt_facts simp_thms)
  qed
qed

text \<open>
  A code below zero is clamped to zero, which the segment enumerations name: what the kernel reports as
  no code at all reads as a normal, absolute, private segment, not as an unrecognised one.
\<close>

lemma negative_code_recognised:
  assumes "sint (vk_seg_type k i) < 0" and "sint (vk_seg_align k i) < 0" and "sint (vk_seg_comb k i) < 0"
  shows "segment_kind k i = Some StNormal \<and> segment_align k i = Some SaAbsolute \<and>
    segment_comb k i = Some ScPrivate"
  using assms
  by (simp add: segment_kind_def segment_align_def segment_comb_def clamp_u8_def
      segment_types.try_from_Some_iff segment_alignments.try_from_Some_iff
      segment_combinations.try_from_Some_iff)

end
