(* ===== verification/Main_Locator.thy ===== *)
theory Main_Locator
  imports Netnode Kernel_Claim
begin

unbundle bit_operations_syntax

text \<open>
  The decoders of \<open>claim.rs\<close>: the address of the kernel's private main-thread variable is recovered
  from the machine code of \<open>is_main_thread\<close>, a load relative to the instruction pointer on x86-64, a page
  address and a load through it on aarch64; on either the function's address may first be an import
  thunk. Memory is a function from addresses to bytes.

  The instructions the decoders are meant to find are given by encoders, which are the reference they
  are compared with.
\<close>

type_synonym code_memory = "u64 \<Rightarrow> u8"

definition read_bytes :: "code_memory \<Rightarrow> u64 \<Rightarrow> nat \<Rightarrow> u8 list" where
  "read_bytes mem a n = map (\<lambda>i. mem (a + of_nat i)) [0..<n]"

definition read_pointer_at :: "code_memory \<Rightarrow> u64 \<Rightarrow> u64" where
  "read_pointer_at mem a = from_le (read_bytes mem a 8)"

text \<open>The integers of an array, each padded to so many hexadecimal digits.\<close>

definition show_hex_pad :: "nat \<Rightarrow> nat \<Rightarrow> string" where
  "show_hex_pad w n = (let ds = show_base 16 n in replicate (w - length ds) (CHR ''0'') @ ds)"

fun show_hex_items :: "nat \<Rightarrow> nat list \<Rightarrow> string" where
  "show_hex_items w [] = []"
| "show_hex_items w [n] = show_hex_pad w n"
| "show_hex_items w (n # ns) = show_hex_pad w n @ '', '' @ show_hex_items w ns"

definition show_hex_array :: "nat \<Rightarrow> nat list \<Rightarrow> string" where
  "show_hex_array w ns = ''['' @ show_hex_items w ns @ '']''"

subsection \<open>x86-64\<close>

definition follow_jmp_thunk :: "code_memory \<Rightarrow> u64 \<Rightarrow> u64" where
  "follow_jmp_thunk mem entry =
     (let head = read_bytes mem entry 6
      in if head ! 0 = 0xff \<and> head ! 1 = 0x25 then
           let disp = from_le (drop 2 head) :: 32 word
           in read_pointer_at mem (entry + (6 + scast disp))
         else entry)"

definition is_rip_load :: "u8 list \<Rightarrow> nat \<Rightarrow> bool" where
  "is_rip_load head k \<longleftrightarrow>
     head ! k = 0x48 \<and> head ! (k + 1) = 0x8b \<and> head ! (k + 2) AND 0xc7 = 0x05"

definition x86_window :: nat where "x86_window = 32"

definition decode_g_main_x86 :: "code_memory \<Rightarrow> u64 \<Rightarrow> string + u64" where
  "decode_g_main_x86 mem entry =
     (let entry = follow_jmp_thunk mem entry;
          head = read_bytes mem entry x86_window
      in case List.find (is_rip_load head) [0 ..< x86_window - 7 + 1] of
           Some k \<Rightarrow>
             (let disp = from_le (take 4 (drop (k + 3) head)) :: 32 word
              in Inr (entry + (of_nat k + 7 + scast disp)))
         | None \<Rightarrow> Inl (''no rip-relative g_main load in is_main_thread prologue '' @
                       show_hex_array 2 (map unat head)))"

subsection \<open>aarch64\<close>

definition adrp_page :: "u64 \<Rightarrow> u32 \<Rightarrow> (u32 \<times> u64) option" where
  "adrp_page pc insn =
     (if insn AND 0x9f000000 \<noteq> 0x90000000 then None
      else
        let imm = ucast (push_bit 2 (drop_bit 5 insn AND 0x7ffff) OR (drop_bit 29 insn AND 0x3)) :: u64;
            page = (imm XOR 0x100000) - 0x100000
        in Some (insn AND 0x1f, (pc AND NOT 0xfff) + push_bit 12 page))"

definition add_imm :: "u32 \<Rightarrow> u32 \<Rightarrow> (u32 \<times> u64) option" where
  "add_imm insn rn =
     (if insn AND 0xff800000 \<noteq> 0x91000000 \<or> drop_bit 5 insn AND 0x1f \<noteq> rn then None
      else
        let shift = (if insn AND 0x00400000 = 0 then 0 else 12)
        in Some (insn AND 0x1f, push_bit shift (ucast (drop_bit 10 insn AND 0xfff))))"

definition ldr_offset :: "u32 \<Rightarrow> u32 \<Rightarrow> u64 option" where
  "ldr_offset insn rn =
     (if insn AND 0xffc00000 \<noteq> 0xf9400000 \<or> drop_bit 5 insn AND 0x1f \<noteq> rn then None
      else Some (ucast (drop_bit 10 insn AND 0xfff) * 8))"

definition read_insns :: "code_memory \<Rightarrow> u64 \<Rightarrow> nat \<Rightarrow> u32 list" where
  "read_insns mem a n = map (\<lambda>i. from_le (read_bytes mem (a + of_nat (4 * i)) 4)) [0..<n]"

definition follow_import_thunk :: "code_memory \<Rightarrow> u64 \<Rightarrow> u64" where
  "follow_import_thunk mem entry =
     (let insns = read_insns mem entry 3; adrp = insns ! 0; ldr = insns ! 1; br = insns ! 2
      in case adrp_page entry adrp of
           None \<Rightarrow> entry
         | Some (rd, base) \<Rightarrow>
             if ldr AND 0x1f \<noteq> rd \<or> br \<noteq> (0xd61f0000 OR push_bit 5 rd) then entry
             else (case ldr_offset ldr rd of
                     Some off \<Rightarrow> read_pointer_at mem (base + off)
                   | None \<Rightarrow> entry))"

text \<open>The inner loop, from the instruction after the page address on.\<close>

fun scan_load :: "u32 \<Rightarrow> u64 \<Rightarrow> u32 list \<Rightarrow> u64 option" where
  "scan_load reg base [] = None"
| "scan_load reg base (insn # insns) =
     (case ldr_offset insn reg of
        Some off \<Rightarrow> Some (base + off)
      | None \<Rightarrow>
          (case add_imm insn reg of
             Some (dst, imm) \<Rightarrow> scan_load dst (base + imm) insns
           | None \<Rightarrow> scan_load reg base insns))"

fun scan_adrp :: "u64 \<Rightarrow> u32 list \<Rightarrow> u64 option" where
  "scan_adrp pc [] = None"
| "scan_adrp pc (insn # insns) =
     (case adrp_page pc insn of
        None \<Rightarrow> scan_adrp (pc + 4) insns
      | Some (reg, base) \<Rightarrow>
          (case scan_load reg base insns of
             Some target \<Rightarrow> Some target
           | None \<Rightarrow> scan_adrp (pc + 4) insns))"

definition arm_window :: nat where "arm_window = 8"

definition decode_g_main_arm :: "code_memory \<Rightarrow> u64 \<Rightarrow> string + u64" where
  "decode_g_main_arm mem entry =
     (let entry = follow_import_thunk mem entry;
          insns = read_insns mem entry arm_window
      in case scan_adrp entry insns of
           Some target \<Rightarrow> Inr target
         | None \<Rightarrow> Inl (''no g_main load in is_main_thread prologue '' @
                       show_hex_array 8 (map unat insns)))"

text \<open>\<open>MainClaim::locate\<close>, as \<open>steal_main\<close> takes it.\<close>

definition locate :: "(code_memory \<Rightarrow> u64 \<Rightarrow> string + u64) \<Rightarrow> code_memory \<Rightarrow> u64 \<Rightarrow> string + unit" where
  "locate decode_g_main mem is_main_thread_ea =
     (case decode_g_main mem is_main_thread_ea of Inl e \<Rightarrow> Inl e | Inr _ \<Rightarrow> Inr ())"

subsection \<open>The instructions\<close>

text \<open>\<open>mov register, [rip + disp]\<close> and \<open>jmp qword [rip + disp]\<close>.\<close>

definition enc_rip_load :: "3 word \<Rightarrow> 32 word \<Rightarrow> u8 list" where
  "enc_rip_load reg disp = [0x48, 0x8b, push_bit 3 (ucast reg) OR 0x05] @ to_le_bytes 4 disp"

definition enc_jmp_slot :: "32 word \<Rightarrow> u8 list" where
  "enc_jmp_slot disp = [0xff, 0x25] @ to_le_bytes 4 disp"

text \<open>\<open>adrp Xd, pages\<close>, \<open>add Xd, Xn, imm {, lsl 12}\<close>, \<open>ldr Xt, [Xn, imm]\<close> and \<open>br Xn\<close>.\<close>

definition enc_adrp :: "5 word \<Rightarrow> 21 word \<Rightarrow> u32" where
  "enc_adrp rd pages =
     0x90000000 OR push_bit 29 (ucast pages AND 3) OR push_bit 5 (ucast (drop_bit 2 pages)) OR ucast rd"

definition enc_add :: "5 word \<Rightarrow> 5 word \<Rightarrow> 12 word \<Rightarrow> bool \<Rightarrow> u32" where
  "enc_add rd rn imm sh =
     0x91000000 OR (if sh then 0x00400000 else 0) OR push_bit 10 (ucast imm) OR push_bit 5 (ucast rn) OR ucast rd"

definition enc_ldr :: "5 word \<Rightarrow> 5 word \<Rightarrow> 12 word \<Rightarrow> u32" where
  "enc_ldr rt rn imm = 0xf9400000 OR push_bit 10 (ucast imm) OR push_bit 5 (ucast rn) OR ucast rt"

definition enc_br :: "5 word \<Rightarrow> u32" where
  "enc_br rn = 0xd61f0000 OR push_bit 5 (ucast rn)"

subsection \<open>Bits\<close>

lemma u32_eqI:
  fixes a b :: u32
  assumes "list_all (\<lambda>n. bit a n = bit b n)
   [0, 1, 2, 3, 4, 5, 6, 7, 8, 9, 10, 11, 12, 13, 14, 15,
    16, 17, 18, 19, 20, 21, 22, 23, 24, 25, 26, 27, 28, 29, 30, 31]"
  shows "a = b"
proof (rule bit_word_eqI)
  fix n assume "n < LENGTH(32)"
  then have "n \<in> {0 ..< 32}" by simp
  also have "\<dots> = set [0, 1, 2, 3, 4, 5, 6, 7, 8, 9, 10, 11, 12, 13, 14, 15,
    16, 17, 18, 19, 20, 21, 22, 23, 24, 25, 26, 27, 28, 29, 30, 31]" by (simp add: atLeast0LessThan lessThan_nat_numeral lessThan_Suc insert_commute)
  finally show "bit a n = bit b n" using assms by (simp only: list_all_iff)
qed

lemma u8_eqI: "list_all (\<lambda>n. bit a n = bit b n) [0, 1, 2, 3, 4, 5, 6, 7] \<Longrightarrow> a = b" for a b :: u8
proof (rule bit_word_eqI)
  fix n assume all: "list_all (\<lambda>n. bit a n = bit b n) [0, 1, 2, 3, 4, 5, 6, 7]" and "n < LENGTH(8)"
  then have "n \<in> {0 ..< 8}" by simp
  also have "\<dots> = set [0, 1, 2, 3, 4, 5, 6, 7]"
    by (simp add: atLeast0LessThan lessThan_nat_numeral lessThan_Suc insert_commute)
  finally have "n \<in> set [0, 1, 2, 3, 4, 5, 6, 7]" .
  with all show "bit a n = bit b n" by (simp only: list_all_iff)
qed

lemma bit_beyond: "LENGTH('a) \<le> n \<Longrightarrow> bit w n = False" for w :: "'a::len word"
  using bit_imp_le_length [of w n] by auto

lemma rip_load_modrm: "(push_bit 3 (ucast (reg :: 3 word)) OR 0x05 :: u8) AND 0xc7 = 0x05"
  by (rule u8_eqI) (simp add: bit_simps bit_beyond)

lemma adrp_opcode: "enc_adrp rd pages AND 0x9f000000 = 0x90000000"
  by (rule u32_eqI) (simp add: enc_adrp_def bit_simps bit_beyond)

lemma adrp_rd: "enc_adrp rd pages AND 0x1f = ucast rd"
  by (rule u32_eqI) (simp add: enc_adrp_def bit_simps bit_beyond)

lemma adrp_imm:
  "push_bit 2 (drop_bit 5 (enc_adrp rd pages) AND 0x7ffff) OR (drop_bit 29 (enc_adrp rd pages) AND 0x3)
    = ucast pages"
  by (rule u32_eqI, simp add: enc_adrp_def bit_simps bit_beyond) (simp add: numeral_2_eq_2 numeral_3_eq_3)

lemma add_fields:
  "enc_add rd rn imm sh AND 0xff800000 = 0x91000000"
  "drop_bit 5 (enc_add rd rn imm sh) AND 0x1f = ucast rn"
  "enc_add rd rn imm sh AND 0x00400000 = (if sh then 0x00400000 else 0)"
  "enc_add rd rn imm sh AND 0x1f = ucast rd"
  "drop_bit 10 (enc_add rd rn imm sh) AND 0xfff = ucast imm"
  by (cases sh; rule u32_eqI; simp add: enc_add_def bit_simps bit_beyond)+

lemma ldr_fields:
  "enc_ldr rt rn imm AND 0xffc00000 = 0xf9400000"
  "drop_bit 5 (enc_ldr rt rn imm) AND 0x1f = ucast rn"
  "enc_ldr rt rn imm AND 0x1f = ucast rt"
  "drop_bit 10 (enc_ldr rt rn imm) AND 0xfff = ucast imm"
  by (rule u32_eqI; simp add: enc_ldr_def bit_simps bit_beyond)+

lemma add_not_ldr: "enc_add rd rn imm sh AND 0xffc00000 \<noteq> 0xf9400000"
proof -
  have "\<not> bit (enc_add rd rn imm sh AND 0xffc00000) 30" by (simp add: enc_add_def bit_simps bit_beyond)
  moreover have "bit (0xf9400000 :: u32) 30" by simp
  ultimately show ?thesis by metis
qed

lemma ucast_5_inj: "ucast (a :: 5 word) = (ucast b :: u32) \<longleftrightarrow> a = b"
proof -
  have "ucast (ucast x :: u32) = x" for x :: "5 word"
    by (rule bit_word_eqI) (auto simp: bit_simps dest: bit_imp_le_length)
  then show ?thesis by metis
qed

text \<open>The sign extension of a field of 21 bits.\<close>

lemma xor_exp: "w XOR 2 ^ n = (if bit w n then w - 2 ^ n else w + 2 ^ n)"
  if "n < LENGTH('a)" for w :: "'a::len word"
proof -
  have "w XOR 2 ^ n = flip_bit n w" by (simp add: flip_bit_eq_xor)
  with that show ?thesis by (simp add: flip_bit_eq_if set_bit_eq unset_bit_eq)
qed

lemma take_bit_uint_21: "take_bit (Suc 20) (uint (p :: 21 word)) = uint p"
  using uint_lt2p [of p] by (simp add: take_bit_int_eq_self_iff)

lemma sint_21: "sint (p :: 21 word) = uint p - 2 ^ 21 * of_bool (bit p 20)"
proof -
  have "sint p = signed_take_bit 20 (uint p)" by (simp add: sint_uint)
  also have "\<dots> = take_bit (Suc 20) (uint p) - 2 ^ Suc 20 * of_bool (bit (uint p) 20)"
    by (rule signed_take_bit_eq_take_bit_minus)
  finally show ?thesis by (simp only: take_bit_uint_21 bit_uint_iff) simp
qed

lemma scast_21: "(scast (p :: 21 word) :: u64) = (if bit p 20 then ucast p - 2 ^ 21 else ucast p)"
  by (simp only: scast_eq ucast_eq sint_21) simp

lemma sign_extend_21: "(ucast (p :: 21 word) XOR 0x100000) - 0x100000 = (scast p :: u64)"
proof -
  have b: "bit (ucast p :: u64) 20 = bit p 20" by (simp add: bit_simps)
  have "(ucast p XOR 2 ^ 20) - 2 ^ 20 = (scast p :: u64)"
    using xor_exp [of 20 "ucast p :: u64"] by (simp only: b scast_21 split: if_split) simp
  then show ?thesis by simp
qed

lemma adrp_decodes:
  "adrp_page pc (enc_adrp rd pages) = Some (ucast rd, (pc AND NOT 0xfff) + push_bit 12 (scast pages))"
proof -
  have "ucast (ucast pages :: u32) = (ucast pages :: u64)" by (rule bit_word_eqI) (auto simp: bit_simps dest: bit_imp_le_length)
  with sign_extend_21 [of pages] show ?thesis
    unfolding adrp_page_def adrp_opcode adrp_rd adrp_imm by (simp add: Let_def)
qed

lemma ldr_decodes:
  "ldr_offset (enc_ldr rt rn imm) (ucast rn') = (if rn = rn' then Some (8 * ucast imm) else None)"
proof -
  have "ucast (ucast imm :: u32) = (ucast imm :: u64)" by (rule bit_word_eqI) (auto simp: bit_simps dest: bit_imp_le_length)
  then show ?thesis unfolding ldr_offset_def ldr_fields by (simp add: ucast_5_inj mult.commute)
qed

lemma add_decodes:
  "add_imm (enc_add rd rn imm sh) (ucast rn) =
     Some (ucast rd, if sh then push_bit 12 (ucast imm) else ucast imm)"
proof -
  have "ucast (ucast imm :: u32) = (ucast imm :: u64)" by (rule bit_word_eqI) (auto simp: bit_simps dest: bit_imp_le_length)
  then show ?thesis unfolding add_imm_def add_fields by simp
qed

lemma add_no_load: "ldr_offset (enc_add rd rn imm sh) r = None"
  by (simp add: ldr_offset_def add_not_ldr)

subsection \<open>What the decoders find\<close>

lemma read_bytes_window:
  "k + m \<le> n \<Longrightarrow> take m (drop k (read_bytes mem a n)) = read_bytes mem (a + of_nat k) m"
  by (rule nth_equalityI) (auto simp: read_bytes_def ac_simps)

lemma from_le_4: "from_le (to_le_bytes 4 (v :: 32 word)) = v"
  using from_to_le [where n = 4 and v = v] by (simp add: from_le_bytes_def to_le_bytes_def)

lemma from_le_8: "from_le (to_le_bytes 8 (v :: 64 word)) = v"
  using from_to_le [where n = 8 and v = v] by (simp add: from_le_bytes_def to_le_bytes_def)

lemma find_upt: "k < n \<Longrightarrow> P k \<Longrightarrow> \<forall>j < k. \<not> P j \<Longrightarrow> List.find P [0..<n] = Some k"
  by (auto simp: find_Some_iff simp del: upt_Suc intro!: exI [of _ k])

lemma rip_load_in_window:
  assumes "k + 7 \<le> x86_window" and "read_bytes mem (e + of_nat k) 7 = enc_rip_load reg disp"
  shows "is_rip_load (read_bytes mem e x86_window) k"
    and "from_le (take 4 (drop (k + 3) (read_bytes mem e x86_window))) = disp"
proof -
  have w: "take 7 (drop k (read_bytes mem e x86_window)) = enc_rip_load reg disp"
    using read_bytes_window [OF assms(1)] assms(2) by simp
  have at: "read_bytes mem e x86_window ! (k + i) = enc_rip_load reg disp ! i" if "i < 7" for i
    using that assms(1) by (simp add: read_bytes_def flip: w)
  from at [of 0] at [of 1] at [of 2] rip_load_modrm [of reg]
  show "is_rip_load (read_bytes mem e x86_window) k"
    by (simp add: is_rip_load_def enc_rip_load_def numeral_2_eq_2)
  have "take 4 (drop (k + 3) (read_bytes mem e x86_window)) =
      drop 3 (take 7 (drop k (read_bytes mem e x86_window)))"
    by (simp add: drop_take add.commute)
  also have "\<dots> = to_le_bytes 4 disp" by (simp add: w enc_rip_load_def)
  finally show "from_le (take 4 (drop (k + 3) (read_bytes mem e x86_window))) = disp"
    by (simp add: from_le_4)
qed

text \<open>
  On x86-64 the decoder answers the address the load refers to, relative to the instruction after
  it and sign-extended, for the first load of that form that lies within the window, whatever register
  it is into.
\<close>

theorem x86_locates_load:
  assumes "follow_jmp_thunk mem entry = body" and "k + 7 \<le> x86_window"
    and "read_bytes mem (body + of_nat k) 7 = enc_rip_load reg disp"
    and "\<forall>j < k. \<not> is_rip_load (read_bytes mem body x86_window) j"
  shows "decode_g_main_x86 mem entry = Inr (body + of_nat k + 7 + scast disp)"
proof -
  note load = rip_load_in_window [OF assms(2,3)]
  have "List.find (is_rip_load (read_bytes mem body x86_window)) [0 ..< x86_window - 7 + 1] = Some k"
    using load(1) assms(2,4) by (intro find_upt) simp_all
  with load(2) assms(1) show ?thesis
    by (simp add: decode_g_main_x86_def Let_def ac_simps)
qed

definition code_at :: "u64 \<Rightarrow> u8 list \<Rightarrow> code_memory" where
  "code_at base bs a = (let i = unat (a - base) in if i < length bs then bs ! i else 0x90)"

lemma code_at_window:
  assumes "i + n \<le> length bs" and "length bs < 2 ^ 64"
  shows "read_bytes (code_at base bs) (base + of_nat i) n = take n (drop i bs)"
proof (rule nth_equalityI)
  fix j assume "j < length (read_bytes (code_at base bs) (base + of_nat i) n)"
  then have j: "j < n" by (simp add: read_bytes_def)
  have "base + of_nat i + of_nat j - base = (of_nat (i + j) :: u64)" by simp
  moreover have "unat (of_nat (i + j) :: u64) = i + j" using assms j by (simp add: unat_of_nat del: of_nat_add)
  ultimately show "read_bytes (code_at base bs) (base + of_nat i) n ! j = take n (drop i bs) ! j"
    using assms(1) j by (simp add: read_bytes_def code_at_def Let_def)
qed (use assms(1) in \<open>simp add: read_bytes_def\<close>)

theorem x86_locates_load_witness:
  "decode_g_main_x86 (code_at 0x1000 (enc_rip_load 3 (- 16))) 0x1000 = Inr 0xFF7"
proof -
  let ?bs = "enc_rip_load 3 (- 16)" and ?mem = "code_at 0x1000 (enc_rip_load 3 (- 16))"
  have len: "length ?bs = 7" by (simp add: enc_rip_load_def to_le_bytes_def)
  have "read_bytes ?mem (0x1000 + of_nat 0) 6 = take 6 ?bs"
    using code_at_window [of 0 6 ?bs "0x1000"] len by simp
  then have "follow_jmp_thunk ?mem 0x1000 = 0x1000"
    by (simp add: follow_jmp_thunk_def enc_rip_load_def)
  moreover have "read_bytes ?mem (0x1000 + of_nat 0) 7 = ?bs"
    using code_at_window [of 0 7 ?bs "0x1000"] len by simp
  ultimately show ?thesis
    using x86_locates_load [of ?mem "0x1000" "0x1000" 0 3 "- 16"] by (simp add: x86_window_def)
qed

lemma scan_adrp_skips:
  "list_all (\<lambda>w. w AND 0x9f000000 \<noteq> 0x90000000) pre \<Longrightarrow>
   scan_adrp pc (pre @ insns) = scan_adrp (pc + 4 * of_nat (length pre)) insns"
  by (induction pre arbitrary: pc) (simp_all add: adrp_page_def algebra_simps)

text \<open>
  C38: on aarch64 the decoder answers the address that a page address and the load through it denote,
  behind any prologue without a page address, whether the load is through the page address itself or
  through a sum with an immediate in between.
\<close>

theorem arm_locates_load:
  assumes "follow_import_thunk mem entry = body"
    and "list_all (\<lambda>w. w AND 0x9f000000 \<noteq> 0x90000000) pre"
    and "read_insns mem body arm_window = pre @ [enc_adrp rd pages] @ adds @ [enc_ldr rt rn off] @ post"
    and "adds = [] \<and> rn = rd \<and> imm = 0 \<or>
         adds = [enc_add rn rd lo sh] \<and> imm = (if sh then push_bit 12 (ucast lo) else ucast lo)"
  shows "decode_g_main_arm mem entry =
    Inr (((body + 4 * of_nat (length pre)) AND NOT 0xfff) + push_bit 12 (scast pages) + imm + 8 * ucast off)"
proof -
  have "scan_adrp body (read_insns mem body arm_window) =
      Some (((body + 4 * of_nat (length pre)) AND NOT 0xfff) + push_bit 12 (scast pages) + imm + 8 * ucast off)"
    unfolding assms(3) scan_adrp_skips [OF assms(2)]
    using assms(4) by (auto simp: adrp_decodes ldr_decodes add_decodes add_no_load)
  with assms(1) show ?thesis by (simp add: decode_g_main_arm_def Let_def)
qed

lemma read_insns_prefix: "n \<le> m \<Longrightarrow> read_insns mem a m = read_insns mem a n @ drop n (read_insns mem a m)"
  by (rule nth_equalityI) (auto simp: read_insns_def nth_append)

definition arm_code :: "u8 list" where
  "arm_code = to_le_bytes 4 (0xa9be7bfd :: u32) @ to_le_bytes 4 (enc_adrp 8 1) @
     to_le_bytes 4 (enc_add 9 8 24 False) @ to_le_bytes 4 (enc_ldr 0 9 2)"

theorem arm_locates_load_witness:
  "decode_g_main_arm (code_at 0x1000 arm_code) 0x1000 = Inr 0x2028"
proof -
  let ?mem = "code_at 0x1000 arm_code"
  have len: "length arm_code = 16" by (simp add: arm_code_def to_le_bytes_def)
  have at: "from_le (read_bytes ?mem (0x1000 + of_nat (4 * i)) 4) = w"
    if "take 4 (drop (4 * i) arm_code) = to_le_bytes 4 (w :: 32 word)" and "i < 4" for i w
  proof -
    have "read_bytes ?mem (0x1000 + of_nat (4 * i)) 4 = take 4 (drop (4 * i) arm_code)"
      using that(2) len by (intro code_at_window) simp_all
    with that(1) show ?thesis by (simp add: from_le_4)
  qed
  have four: "read_insns ?mem 0x1000 4 = [0xa9be7bfd, enc_adrp 8 1, enc_add 9 8 24 False, enc_ldr 0 9 2]"
    using at [of 0 "0xa9be7bfd"] at [of 1 "enc_adrp 8 1"] at [of 2 "enc_add 9 8 24 False"] at [of 3 "enc_ldr 0 9 2"]
    by (simp add: read_insns_def arm_code_def to_le_bytes_def upt_rec)
  have "follow_import_thunk ?mem 0x1000 = 0x1000"
    using read_insns_prefix [of 3 4 ?mem "0x1000"] four by (simp add: follow_import_thunk_def read_insns_def adrp_page_def upt_rec)
  with arm_locates_load [of ?mem "0x1000" "0x1000" "[0xa9be7bfd]" 8 1 "[enc_add 9 8 24 False]" 0 9 2
      "drop 4 (read_insns ?mem 0x1000 arm_window)" 24 24 False]
    read_insns_prefix [of 4 arm_window ?mem "0x1000"] four
  show ?thesis by (simp add: arm_window_def)
qed

lemma br_register: "0xd61f0000 OR push_bit 5 (ucast rd) = enc_br rd"
  by (simp add: enc_br_def)

lemma ldr_rt: "enc_ldr rt rn imm AND 0x1f = ucast rt" by (rule ldr_fields)

text \<open>
  Both import thunks are followed to the pointer in the slot they jump through; the decoders then
  read the body's code and not the thunk's.
\<close>

lemma thunks_followed:
  assumes "read_bytes mem entry 6 = enc_jmp_slot disp"
    and "read_insns mem' entry 3 = [enc_adrp rd pages, enc_ldr rd rd off, enc_br rd]"
  shows "follow_jmp_thunk mem entry = read_pointer_at mem (entry + 6 + scast disp) \<and>
    follow_import_thunk mem' entry =
      read_pointer_at mem' ((entry AND NOT 0xfff) + push_bit 12 (scast pages) + 8 * ucast off)"
proof
  show "follow_jmp_thunk mem entry = read_pointer_at mem (entry + 6 + scast disp)"
    by (simp add: follow_jmp_thunk_def assms(1) enc_jmp_slot_def from_le_4 ac_simps)
  show "follow_import_thunk mem' entry =
      read_pointer_at mem' ((entry AND NOT 0xfff) + push_bit 12 (scast pages) + 8 * ucast off)"
    by (simp add: follow_import_thunk_def assms(2) adrp_decodes ldr_rt ldr_decodes br_register numeral_2_eq_2)
qed

end
