(* ===== verification/Canonical_Text.thy ===== *)
theory Canonical_Text
  imports Canonical Text
begin

text \<open>
  The \<open>Display\<close> of a canonical type (\<open>types/diff/canonical/model.rs\<close>): its key form, which the source
  documents as self-delimiting and a stable key, and the compact form of a diff.

  A reader of the key form is the reference the first claim is stated against: it reads back every
  type whose names do not contain the characters that delimit a name where it stands.
\<close>

subsection \<open>The key form\<close>

text \<open>The loop over the items of a list, which writes the separator before all but the first.\<close>

fun write_items :: "string \<Rightarrow> nat \<Rightarrow> string list \<Rightarrow> string" where
  "write_items sep i [] = []"
| "write_items sep i (x # xs) = (if 0 < i then sep else []) @ x @ write_items sep (Suc i) xs"

definition show_u8 :: "u8 \<Rightarrow> string" where "show_u8 w = show_nat (unat w)"
definition show_u64 :: "u64 \<Rightarrow> string" where "show_u64 w = show_nat (unat w)"

text \<open>An optional part behind its mark.\<close>

definition opt_part :: "string \<Rightarrow> ('a \<Rightarrow> string) \<Rightarrow> 'a option \<Rightarrow> string" where
  "opt_part mark sh x = (case x of Some v \<Rightarrow> mark @ sh v | None \<Rightarrow> [])"

fun write_scalar :: "canonical_type \<Rightarrow> string option" where
  "write_scalar CVoid = Some ''void''"
| "write_scalar CBool = Some ''bool''"
| "write_scalar (CInt bytes sgnd) =
     (let sign = (if sgnd then ''i'' else ''u'')
      in case bytes of
           Some b \<Rightarrow> Some (sign @ show_nat (unat b * 8))
         | None \<Rightarrow> Some (sign @ ''int''))"
| "write_scalar (CFloat bytes) =
     (case bytes of Some b \<Rightarrow> Some (''f'' @ show_nat (unat b * 8)) | None \<Rightarrow> Some ''float'')"
| "write_scalar (CBackRef n) = Some (''#'' @ show_nat n)"
| "write_scalar _ = None"

definition scalar_text :: "canonical_type \<Rightarrow> string" where
  "scalar_text t = (case write_scalar t of Some s \<Rightarrow> s | None \<Rightarrow> [])"

fun write_canonical :: "canonical_type \<Rightarrow> string" where
  "write_canonical (CPtr pointee width) =
     ''ptr'' @ opt_part '':'' show_u8 width @ ''('' @ write_canonical pointee @ '')''"
| "write_canonical (CArray elem len) =
     ''['' @ write_canonical elem @ '';'' @ show_u64 len @ '']''"
| "write_canonical (CNamed tag kind) = aggregate_keyword kind @ '':'' @ tag"
| "write_canonical (CAggregate tag kind members sz) =
     record_keyword kind @ opt_part '':'' id tag @ ''{'' @
     write_items '','' 0
       (map (\<lambda>m. cm_name m @ opt_part ''@'' show_u64 (cm_bit_offset m) @
                opt_part '':'' (\<lambda>w. show_nat (unat w)) (cm_bitfield_width m) @
                ''='' @ write_canonical (cm_ty m)) members) @
     ''}'' @ opt_part ''='' show_u64 sz"
| "write_canonical (CEnum tag underlying members sz) =
     ''enum'' @ opt_part '':'' id tag @ ''('' @ write_canonical underlying @ ''){'' @
     write_items '','' 0 (map (\<lambda>(n, v). n @ ''='' @ show_u64 v) members) @
     ''}'' @ opt_part ''='' show_u64 sz"
| "write_canonical (CFunction ret params varargs) =
     ''fn('' @ write_items '','' 0 (map write_canonical params) @
     (if varargs then (if params \<noteq> [] then '','' else []) @ ''...'' else []) @
     '')->'' @ write_canonical ret"
| "write_canonical (CTypedef name underlying) =
     ''typedef '' @ name @ ''='' @ write_canonical underlying"
| "write_canonical (COpaque name) = ''opaque:'' @ name"
| "write_canonical CVoid = scalar_text CVoid"
| "write_canonical CBool = scalar_text CBool"
| "write_canonical (CInt bytes sgnd) = scalar_text (CInt bytes sgnd)"
| "write_canonical (CFloat bytes) = scalar_text (CFloat bytes)"
| "write_canonical (CBackRef n) = scalar_text (CBackRef n)"

subsection \<open>The compact form\<close>

fun write_compact :: "canonical_type \<Rightarrow> string" where
  "write_compact (CPtr pointee _) = write_compact pointee @ ''*''"
| "write_compact (CArray elem len) = write_compact elem @ ''['' @ show_u64 len @ '']''"
| "write_compact (CNamed tag _) = tag"
| "write_compact (CAggregate tag kind _ _) =
     record_keyword kind @ (case tag of Some t \<Rightarrow> '' '' @ t | None \<Rightarrow> '' {...}'')"
| "write_compact (CEnum tag _ _ _) = (case tag of Some t \<Rightarrow> ''enum '' @ t | None \<Rightarrow> ''enum {...}'')"
| "write_compact (CFunction ret params varargs) =
     write_compact ret @ ''('' @ write_items '', '' 0 (map write_compact params) @
     (if varargs then (if params \<noteq> [] then '', '' else []) @ ''...'' else []) @ '')''"
| "write_compact (CTypedef name _) = name"
| "write_compact (COpaque name) = name"
| "write_compact CVoid = scalar_text CVoid"
| "write_compact CBool = scalar_text CBool"
| "write_compact (CInt bytes sgnd) = scalar_text (CInt bytes sgnd)"
| "write_compact (CFloat bytes) = scalar_text (CFloat bytes)"
| "write_compact (CBackRef n) = scalar_text (CBackRef n)"

text \<open>\<open>fmt\<close>: the alternate flag picks the form.\<close>

definition show_canonical :: "bool \<Rightarrow> canonical_type \<Rightarrow> string" where
  "show_canonical alternate t = (if alternate then write_compact t else write_canonical t)"

text \<open>The digest of a type prints as 32 hexadecimal digits.\<close>

definition show_type_key :: "128 word \<Rightarrow> string" where
  "show_type_key k =
     (let ds = show_base 16 (unat k) in replicate (32 - length ds) (CHR ''0'') @ ds)"

subsection \<open>Names that do not hide a delimiter\<close>

definition tag_char :: "char \<Rightarrow> bool" where
  "tag_char c \<longleftrightarrow> c \<notin> set '',;){}(''"

definition member_char :: "char \<Rightarrow> bool" where
  "member_char c \<longleftrightarrow> c \<notin> set ''@:=}''"

definition plain_char :: "char \<Rightarrow> bool" where
  "plain_char c \<longleftrightarrow> c \<notin> set ''=}''"

fun names_ok :: "canonical_type \<Rightarrow> bool" where
  "names_ok (CPtr t _) = names_ok t"
| "names_ok (CArray t _) = names_ok t"
| "names_ok (CNamed tag _) = list_all tag_char tag"
| "names_ok (CAggregate tag _ ms _) =
     ((case tag of Some t \<Rightarrow> list_all tag_char t | None \<Rightarrow> True) \<and>
      (\<forall>m \<in> set ms. list_all member_char (cm_name m) \<and> names_ok (cm_ty m)))"
| "names_ok (CEnum tag t ms _) =
     ((case tag of Some t \<Rightarrow> list_all tag_char t | None \<Rightarrow> True) \<and> names_ok t \<and>
      (\<forall>(n, _) \<in> set ms. list_all plain_char n))"
| "names_ok (CFunction r ps _) = (names_ok r \<and> (\<forall>p \<in> set ps. names_ok p))"
| "names_ok (CTypedef n t) = (list_all plain_char n \<and> names_ok t)"
| "names_ok (COpaque n) = list_all tag_char n"
| "names_ok _ = True"

subsection \<open>A reader of the key form\<close>

definition read_num :: "string \<Rightarrow> (nat \<times> string) option" where
  "read_num s =
     (case traverse digit_value (takeWhile (\<lambda>c. digit_value c \<noteq> None) s) of
        Some (d # ds) \<Rightarrow>
          Some (foldl (\<lambda>acc v. 10 * acc + v) 0 (d # ds), dropWhile (\<lambda>c. digit_value c \<noteq> None) s)
      | _ \<Rightarrow> None)"

definition read_word :: "string \<Rightarrow> ('l::len word \<times> string) option" where
  "read_word s = map_option (apfst of_nat) (read_num s)"

definition read_opt :: "char \<Rightarrow> (string \<Rightarrow> ('a \<times> string) option) \<Rightarrow> string \<Rightarrow> ('a option \<times> string) option" where
  "read_opt c rd s =
     (case s of
        x # r \<Rightarrow> if x = c then map_option (apfst Some) (rd r) else Some (None, s)
      | [] \<Rightarrow> Some (None, s))"

definition expect :: "string \<Rightarrow> string \<Rightarrow> string option" where
  "expect p s = strip_prefix p s"

fun read_sep :: "(string \<Rightarrow> ('a \<times> string) option) \<Rightarrow> nat \<Rightarrow> string \<Rightarrow> ('a list \<times> string) option" where
  "read_sep item 0 s = None"
| "read_sep item (Suc k) s =
     do { (x, r) \<leftarrow> item s;
          case strip_prefix '','' r of
            None \<Rightarrow> Some ([x], r)
          | Some r' \<Rightarrow> map_option (apfst (Cons x)) (read_sep item k r') }"

text \<open>A list up to the character that closes it.\<close>

definition read_list :: "string \<Rightarrow> (string \<Rightarrow> ('a \<times> string) option) \<Rightarrow> string \<Rightarrow> ('a list \<times> string) option" where
  "read_list close item s =
     (case strip_prefix close s of
        Some r \<Rightarrow> Some ([], r)
      | None \<Rightarrow>
          do { (xs, r) \<leftarrow> read_sep item (Suc (length s)) s;
               r' \<leftarrow> strip_prefix close r;
               Some (xs, r') })"

type_synonym reader = "string \<Rightarrow> (canonical_type \<times> string) option"

definition read_member :: "reader \<Rightarrow> string \<Rightarrow> (canonical_type canonical_member \<times> string) option" where
  "read_member rd s =
     (let name = takeWhile member_char s
      in do { (off, r1) \<leftarrow> read_opt (CHR ''@'') read_word (dropWhile member_char s);
              (w, r2) \<leftarrow> read_opt (CHR '':'') read_word r1;
              r3 \<leftarrow> strip_prefix ''='' r2;
              (t, r4) \<leftarrow> rd r3;
              Some (CanonicalMember name off w t, r4) })"

definition read_constant :: "string \<Rightarrow> ((string \<times> u64) \<times> string) option" where
  "read_constant s =
     do { r1 \<leftarrow> strip_prefix ''='' (dropWhile plain_char s);
          (v, r2) \<leftarrow> read_word r1;
          Some ((takeWhile plain_char s, v), r2) }"

text \<open>A parameter, or the dots of a variable argument list.\<close>

definition read_param :: "reader \<Rightarrow> string \<Rightarrow> (canonical_type option \<times> string) option" where
  "read_param rd s =
     (case strip_prefix ''...'' s of
        Some r \<Rightarrow> Some (None, r)
      | None \<Rightarrow> map_option (apfst Some) (rd s))"

definition read_record :: "reader \<Rightarrow> record_kind \<Rightarrow> string \<Rightarrow> (canonical_type \<times> string) option" where
  "read_record rd kind s =
     do { (tag, r1) \<leftarrow> read_opt (CHR '':'') (\<lambda>r. Some (takeWhile tag_char r, dropWhile tag_char r)) s;
          case strip_prefix ''{'' r1 of
            None \<Rightarrow> map_option (\<lambda>t. (CNamed t (aggregate_kind_from kind), r1)) tag
          | Some r2 \<Rightarrow>
              do { (ms, r3) \<leftarrow> read_list ''}'' (read_member rd) r2;
                   (sz, r4) \<leftarrow> read_opt (CHR ''='') read_word r3;
                   Some (CAggregate tag kind ms sz, r4) } }"

definition read_enum :: "reader \<Rightarrow> string \<Rightarrow> (canonical_type \<times> string) option" where
  "read_enum rd s =
     do { (tag, r1) \<leftarrow> read_opt (CHR '':'') (\<lambda>r. Some (takeWhile tag_char r, dropWhile tag_char r)) s;
          case strip_prefix ''('' r1 of
            None \<Rightarrow> map_option (\<lambda>t. (CNamed t KEnum, r1)) tag
          | Some r2 \<Rightarrow>
              do { (u, r3) \<leftarrow> rd r2;
                   r4 \<leftarrow> strip_prefix ''){'' r3;
                   (ms, r5) \<leftarrow> read_list ''}'' read_constant r4;
                   (sz, r6) \<leftarrow> read_opt (CHR ''='') read_word r5;
                   Some (CEnum tag u ms sz, r6) } }"

definition read_function :: "reader \<Rightarrow> string \<Rightarrow> (canonical_type \<times> string) option" where
  "read_function rd s =
     do { (ps, r1) \<leftarrow> read_list '')'' (read_param rd) s;
          r2 \<leftarrow> strip_prefix ''->'' r1;
          (ret, r3) \<leftarrow> rd r2;
          Some (CFunction ret (List.map_filter id ps) (None \<in> set ps), r3) }"

definition read_ptr :: "reader \<Rightarrow> string \<Rightarrow> (canonical_type \<times> string) option" where
  "read_ptr rd s =
     do { (w, r1) \<leftarrow> read_opt (CHR '':'') read_word s;
          r2 \<leftarrow> strip_prefix ''('' r1;
          (t, r3) \<leftarrow> rd r2;
          r4 \<leftarrow> strip_prefix '')'' r3;
          Some (CPtr t w, r4) }"

definition read_array :: "reader \<Rightarrow> string \<Rightarrow> (canonical_type \<times> string) option" where
  "read_array rd s =
     do { (t, r1) \<leftarrow> rd s;
          r2 \<leftarrow> strip_prefix '';'' r1;
          (n, r3) \<leftarrow> read_word r2;
          r4 \<leftarrow> strip_prefix '']'' r3;
          Some (CArray t n, r4) }"

definition read_typedef :: "reader \<Rightarrow> string \<Rightarrow> (canonical_type \<times> string) option" where
  "read_typedef rd s =
     do { r1 \<leftarrow> strip_prefix ''='' (dropWhile plain_char s);
          (t, r2) \<leftarrow> rd r1;
          Some (CTypedef (takeWhile plain_char s) t, r2) }"

definition read_bytes_of :: "(u8 option \<Rightarrow> canonical_type) \<Rightarrow> string \<Rightarrow> (canonical_type \<times> string) option" where
  "read_bytes_of mk s = map_option (\<lambda>(n, r). (mk (Some (of_nat (n div 8))), r)) (read_num s)"

text \<open>The first keyword a text starts with decides the production.\<close>

fun first_production :: "(string \<times> (string \<Rightarrow> 'a option)) list \<Rightarrow> string \<Rightarrow> 'a option" where
  "first_production [] s = None"
| "first_production ((k, f) # ps) s =
     (case strip_prefix k s of Some r \<Rightarrow> f r | None \<Rightarrow> first_production ps s)"

definition productions :: "reader \<Rightarrow> (string \<times> (string \<Rightarrow> (canonical_type \<times> string) option)) list" where
  "productions rd =
     [(''void'', \<lambda>r. Some (CVoid, r)), (''bool'', \<lambda>r. Some (CBool, r)),
      (''ptr'', read_ptr rd), (''['', read_array rd),
      (''struct'', read_record rd RStruct), (''union'', read_record rd RUnion),
      (''enum'', read_enum rd), (''fn('', read_function rd), (''typedef '', read_typedef rd),
      (''opaque:'', \<lambda>r. Some (COpaque (takeWhile tag_char r), dropWhile tag_char r)),
      (''#'', \<lambda>r. map_option (apfst CBackRef) (read_num r)),
      (''float'', \<lambda>r. Some (CFloat None, r)), (''f'', read_bytes_of CFloat),
      (''iint'', \<lambda>r. Some (CInt None True, r)), (''i'', read_bytes_of (\<lambda>b. CInt b True)),
      (''uint'', \<lambda>r. Some (CInt None False, r)), (''u'', read_bytes_of (\<lambda>b. CInt b False))]"

primrec read_key :: "nat \<Rightarrow> reader" where
  "read_key 0 = (\<lambda>s. None)"
| "read_key (Suc n) = first_production (productions (read_key n))"

subsection \<open>Reading back what was written\<close>

definition ends :: "string \<Rightarrow> bool" where
  "ends r \<longleftrightarrow> (case r of [] \<Rightarrow> True | c # _ \<Rightarrow> c \<in> set '',;)}'')"

lemma ends_Cons [simp]: "ends (c # r) \<longleftrightarrow> c \<in> set '',;)}''" by (simp add: ends_def)
lemma ends_Nil [simp]: "ends []" by (simp add: ends_def)

lemma takeWhile_span:
  assumes "list_all P xs" and "r = [] \<or> \<not> P (hd r)"
  shows "takeWhile P (xs @ r) = xs" and "dropWhile P (xs @ r) = r"
proof -
  have "takeWhile P r = [] \<and> dropWhile P r = r" using assms(2) by (cases r) auto
  with assms(1) show "takeWhile P (xs @ r) = xs" "dropWhile P (xs @ r) = r"
    by (simp_all add: list_all_iff)
qed

lemma digit_char_iff: "digit_value c \<noteq> None \<longleftrightarrow> 48 \<le> byte c \<and> byte c \<le> 57"
  by (simp add: digit_value_def)

lemma read_num_show:
  assumes "r = [] \<or> digit_value (hd r) = None"
  shows "read_num (show_nat n @ r) = Some (n, r)"
proof -
  have "list_all (\<lambda>c. digit_value c \<noteq> None) (show_nat n)"
    using show_nat_bytes [of n] by (simp only: digit_char_iff)
  note span = takeWhile_span [OF this, of r]
  obtain vs where vs: "traverse digit_value (show_nat n) = Some vs"
    "foldl (\<lambda>acc v. 10 * acc + v) 0 vs = n" "show_nat n \<noteq> []"
    using show_nat_digits [of n] by (auto simp: show_nat_def)
  then obtain d ds where "vs = d # ds" by (cases vs; cases "show_nat n") (auto simp: bind_eq_Some_conv)
  with span vs assms show ?thesis by (simp add: read_num_def)
qed

lemma read_word_show:
  assumes "r = [] \<or> digit_value (hd r) = None"
  shows "read_word (show_nat (unat w) @ r) = Some (w, r)"
  using read_num_show [OF assms] by (simp add: read_word_def)

lemma read_opt_part:
  assumes "\<And>v. x = Some v \<Longrightarrow> rd (sh v @ r) = Some (v, r)" and "r = [] \<or> hd r \<noteq> c"
  shows "read_opt c rd (opt_part [c] sh x @ r) = Some (x, r)"
  using assms by (cases x; cases r) (simp_all add: read_opt_def opt_part_def)

lemma write_items_Cons:
  "write_items sep (Suc i) xs = concat (map (\<lambda>x. sep @ x) xs)"
  by (induction xs arbitrary: i) simp_all

lemma write_items_0:
  "write_items sep 0 (x # xs) = x @ concat (map (\<lambda>x. sep @ x) xs)"
  by (simp add: write_items_Cons)

lemma strip_prefix_Cons: "strip_prefix (c # p) (c # s) = strip_prefix p s"
  "c \<noteq> d \<Longrightarrow> strip_prefix (c # p) (d # s) = None" "strip_prefix (c # p) [] = None"
  "strip_prefix [] s = Some s"
  by (auto simp: strip_prefix_def)

lemma read_sep_write:
  assumes "\<And>x r. x \<in> set xs \<Longrightarrow> ends r \<Longrightarrow> item (f x @ r) = Some (g x, r)"
    and "ends r" and "strip_prefix '','' r = None" and "length xs < k" and "xs \<noteq> []"
  shows "read_sep item k (write_items '','' 0 (map f xs) @ r) = Some (map g xs, r)"
  using assms
proof (induction xs arbitrary: k)
  case (Cons x xs)
  then obtain k' where k: "k = Suc k'" by (cases k) auto
  show ?case
  proof (cases xs)
    case Nil
    with Cons k show ?thesis by simp
  next
    case (Cons y ys)
    have "read_sep item k' (write_items '','' 0 (map f xs) @ r) = Some (map g xs, r)"
      using Cons.prems k Cons by (intro Cons.IH) auto
    moreover have "write_items '','' 0 (map f (x # xs)) @ r =
        f x @ CHR '','' # write_items '','' 0 (map f xs) @ r"
      using Cons by (simp add: write_items_Cons)
    ultimately show ?thesis using Cons.prems(1) [of x] k by (simp add: strip_prefix_Cons)
  qed
qed simp

lemma write_items_length: "length xs \<le> Suc (length (write_items '','' 0 xs))"
proof (cases xs)
  case (Cons x xs')
  have "length xs' \<le> length (concat (map (\<lambda>x. '','' @ x) xs'))" by (induction xs') auto
  with Cons show ?thesis by (simp add: write_items_Cons)
qed simp

lemma read_list_write:
  assumes "\<And>x r. x \<in> set xs \<Longrightarrow> ends r \<Longrightarrow> item (f x @ r) = Some (g x, r)"
    and "\<And>x s. x \<in> set xs \<Longrightarrow> strip_prefix [c] (f x @ s) = None" and "c \<in> set '')}''"
  shows "read_list [c] item (write_items '','' 0 (map f xs) @ c # r) = Some (map g xs, r)"
proof (cases xs)
  case Nil
  then show ?thesis by (simp add: read_list_def strip_prefix_Cons)
next
  case (Cons x xs')
  let ?w = "write_items '','' 0 (map f xs) @ c # r"
  have "strip_prefix [c] ?w = None" using assms(2) [of x] Cons by (simp add: write_items_0)
  moreover have "length xs < Suc (length ?w)"
    using write_items_length [of "map f xs"] by simp
  then have "read_sep item (Suc (length ?w)) ?w = Some (map g xs, c # r)"
    using assms(1,3) Cons by (intro read_sep_write) (auto simp: strip_prefix_Cons)
  ultimately show ?thesis by (simp add: read_list_def strip_prefix_Cons del: read_sep.simps)
qed

lemma ends_not_digit: "ends r \<Longrightarrow> r = [] \<or> digit_value (hd r) = None"
  by (cases r) (auto simp: digit_value_def)

lemma ends_not_tag: "ends r \<Longrightarrow> r = [] \<or> \<not> tag_char (hd r)"
  by (cases r) (auto simp: tag_char_def)

lemma ends_not: "ends r \<Longrightarrow> c \<notin> set '',;)}'' \<Longrightarrow> r = [] \<or> hd r \<noteq> c"
  by (cases r) auto

lemma ends_strip: "ends r \<Longrightarrow> c \<notin> set '',;)}'' \<Longrightarrow> strip_prefix (c # p) r = None"
  by (cases r) (auto simp: strip_prefix_def)

lemma strip_digit: "digit_value d = None \<Longrightarrow> strip_prefix (d # p) (show_nat n @ r) = None"
proof -
  assume d: "digit_value d = None"
  obtain c cs where c: "show_nat n = c # cs"
    using show_nat_digits [of n] by (cases "show_nat n") (auto simp: show_nat_def)
  with show_nat_plain [of c n] d have "c \<noteq> d" by (auto simp: digit_value_def)
  with c show ?thesis by (simp add: strip_prefix_def)
qed

lemma read_size: "ends r \<Longrightarrow> read_opt (CHR ''='') read_word (opt_part ''='' show_u64 sz @ r) = Some (sz, r)"
  using ends_not [of r "CHR ''=''"]
  by (intro read_opt_part) (auto simp: show_u64_def read_word_show ends_not_digit)

lemma read_tag:
  assumes "case tag of Some t \<Rightarrow> list_all tag_char t | None \<Rightarrow> True" and "\<not> tag_char c" and "c \<noteq> CHR '':''"
  shows "read_opt (CHR '':'') (\<lambda>r. Some (takeWhile tag_char r, dropWhile tag_char r))
      (opt_part '':'' id tag @ c # r) = Some (tag, c # r)"
  using assms takeWhile_span [of tag_char _ "c # r"]
  by (cases tag) (auto simp: opt_part_def read_opt_def)

lemma read_tag_end:
  assumes "list_all tag_char tag" and "ends r"
  shows "read_opt (CHR '':'') (\<lambda>r. Some (takeWhile tag_char r, dropWhile tag_char r))
      (CHR '':'' # tag @ r) = Some (Some tag, r)"
  using takeWhile_span [OF assms(1) ends_not_tag [OF assms(2)]] by (simp add: read_opt_def)

lemma read_ptr_write:
  assumes "\<And>r. ends r \<Longrightarrow> rd (write_canonical t @ r) = Some (t, r)"
  shows "read_ptr rd (opt_part '':'' show_u8 w @ ''('' @ write_canonical t @ '')'' @ r) = Some (CPtr t w, r)"
proof -
  have "read_opt (CHR '':'') read_word (opt_part '':'' show_u8 w @ ''('' @ write_canonical t @ '')'' @ r) =
      Some (w, ''('' @ write_canonical t @ '')'' @ r)"
    by (intro read_opt_part) (auto simp: show_u8_def read_word_show digit_value_def)
  with assms [of "'')'' @ r"] show ?thesis by (simp add: read_ptr_def strip_prefix_Cons)
qed

lemma read_array_write:
  assumes "\<And>r. ends r \<Longrightarrow> rd (write_canonical t @ r) = Some (t, r)"
  shows "read_array rd (write_canonical t @ '';'' @ show_u64 n @ '']'' @ r) = Some (CArray t n, r)"
  using assms [of "'';'' @ show_u64 n @ '']'' @ r"] read_word_show [of "'']'' @ r" n]
  by (simp add: read_array_def strip_prefix_Cons show_u64_def digit_value_def)

lemma read_typedef_write:
  assumes "\<And>r. ends r \<Longrightarrow> rd (write_canonical t @ r) = Some (t, r)" and "list_all plain_char n" and "ends r"
  shows "read_typedef rd (n @ ''='' @ write_canonical t @ r) = Some (CTypedef n t, r)"
  using assms takeWhile_span [OF assms(2), of "''='' @ write_canonical t @ r"]
  by (simp add: read_typedef_def strip_prefix_Cons plain_char_def)

lemma read_constant_write:
  assumes "list_all plain_char n" and "ends r"
  shows "read_constant (n @ ''='' @ show_u64 v @ r) = Some ((n, v), r)"
  using assms takeWhile_span [OF assms(1), of "''='' @ show_u64 v @ r"] read_word_show [OF ends_not_digit, of r v]
  by (simp add: read_constant_def strip_prefix_Cons plain_char_def show_u64_def)

definition write_member :: "canonical_type canonical_member \<Rightarrow> string" where
  "write_member m = cm_name m @ opt_part ''@'' show_u64 (cm_bit_offset m) @
     opt_part '':'' (\<lambda>w. show_nat (unat w)) (cm_bitfield_width m) @ ''='' @ write_canonical (cm_ty m)"

lemma read_member_write:
  assumes "\<And>r. ends r \<Longrightarrow> rd (write_canonical (cm_ty m) @ r) = Some (cm_ty m, r)"
    and "list_all member_char (cm_name m)" and "ends r"
  shows "read_member rd (write_member m @ r) = Some (m, r)"
proof -
  let ?t = "''='' @ write_canonical (cm_ty m) @ r"
  let ?w = "opt_part '':'' (\<lambda>w. show_nat (unat w)) (cm_bitfield_width m) @ ?t"
  let ?o = "opt_part ''@'' show_u64 (cm_bit_offset m) @ ?w"
  have hd: "hd ?w \<in> {CHR '':'', CHR ''=''}" by (cases "cm_bitfield_width m") (simp_all add: opt_part_def)
  have "\<not> member_char (hd ?o)"
    by (cases "cm_bit_offset m"; cases "cm_bitfield_width m") (simp_all add: opt_part_def member_char_def)
  note name = takeWhile_span [OF assms(2), of ?o] this
  have off: "read_opt (CHR ''@'') read_word ?o = Some (cm_bit_offset m, ?w)"
    using hd by (intro read_opt_part) (auto simp: show_u64_def read_word_show digit_value_def)
  have w: "read_opt (CHR '':'') read_word ?w = Some (cm_bitfield_width m, ?t)"
    by (intro read_opt_part) (auto simp: read_word_show digit_value_def)
  have "read_member rd (cm_name m @ ?o) = Some (m, r)"
    using name off w assms(1) [OF assms(3)] by (simp add: read_member_def strip_prefix_Cons)
  then show ?thesis by (simp add: write_member_def)
qed

lemma write_aggregate:
  "write_canonical (CAggregate tag kind ms sz) =
     record_keyword kind @ opt_part '':'' id tag @ ''{'' @ write_items '','' 0 (map write_member ms) @
     ''}'' @ opt_part ''='' show_u64 sz"
  by (simp add: write_member_def [abs_def])

lemma write_member_open: "list_all member_char (cm_name m) \<Longrightarrow> strip_prefix ''}'' (write_member m @ s) = None"
  by (cases "cm_name m"; cases "cm_bit_offset m"; cases "cm_bitfield_width m")
    (auto simp: write_member_def opt_part_def strip_prefix_def member_char_def)

lemma read_record_write:
  assumes "\<And>m r. m \<in> set ms \<Longrightarrow> ends r \<Longrightarrow> rd (write_canonical (cm_ty m) @ r) = Some (cm_ty m, r)"
    and "names_ok (CAggregate tag kind ms sz)" and "ends r"
  shows "read_record rd kind (opt_part '':'' id tag @ ''{'' @ write_items '','' 0 (map write_member ms) @
     ''}'' @ opt_part ''='' show_u64 sz @ r) = Some (CAggregate tag kind ms sz, r)"
proof -
  have tag: "case tag of Some t \<Rightarrow> list_all tag_char t | None \<Rightarrow> True" using assms(2) by simp
  have "read_list ''}'' (read_member rd) (write_items '','' 0 (map write_member ms) @ CHR ''}'' # s) =
      Some (map id ms, s)" for s
  proof (rule read_list_write)
    show "read_member rd (write_member m @ r') = Some (id m, r')" if "m \<in> set ms" "ends r'" for m r'
      using that assms(1,2) by (simp add: read_member_write)
    show "strip_prefix ''}'' (write_member m @ s') = None" if "m \<in> set ms" for m s'
      using that assms(2) by (intro write_member_open) simp
  qed simp
  with read_tag [OF tag, of "CHR ''{''"] read_size [OF assms(3)] show ?thesis
    by (simp add: read_record_def strip_prefix_Cons tag_char_def)
qed

lemma read_named_write:
  assumes "list_all tag_char tag" and "ends r"
  shows "read_record rd kind (CHR '':'' # tag @ r) = Some (CNamed tag (aggregate_kind_from kind), r)"
    and "read_enum rd (CHR '':'' # tag @ r) = Some (CNamed tag KEnum, r)"
  using read_tag_end [OF assms] ends_strip [OF assms(2)]
  by (simp_all add: read_record_def read_enum_def)

definition write_constant :: "string \<times> u64 \<Rightarrow> string" where
  "write_constant = (\<lambda>(n, v). n @ ''='' @ show_u64 v)"

lemma read_enum_write:
  assumes "\<And>r. ends r \<Longrightarrow> rd (write_canonical u @ r) = Some (u, r)"
    and "names_ok (CEnum tag u ms sz)" and "ends r"
  shows "read_enum rd (opt_part '':'' id tag @ ''('' @ write_canonical u @ ''){'' @
     write_items '','' 0 (map write_constant ms) @ ''}'' @ opt_part ''='' show_u64 sz @ r) =
     Some (CEnum tag u ms sz, r)"
proof -
  have tag: "case tag of Some t \<Rightarrow> list_all tag_char t | None \<Rightarrow> True" using assms(2) by simp
  have "read_list ''}'' read_constant (write_items '','' 0 (map write_constant ms) @ CHR ''}'' # s) =
      Some (map id ms, s)" for s
  proof (rule read_list_write)
    fix m r' assume "m \<in> set ms"
    then have ok: "list_all plain_char (fst m)" using assms(2) by auto
    show "ends r' \<Longrightarrow> read_constant (write_constant m @ r') = Some (id m, r')"
      using read_constant_write [OF ok, of r' "snd m"] by (simp add: write_constant_def case_prod_unfold)
    from ok show "strip_prefix ''}'' (write_constant m @ r') = None"
      by (cases "fst m") (auto simp: write_constant_def case_prod_unfold strip_prefix_def plain_char_def)
  qed simp
  with read_tag [OF tag, of "CHR ''(''"] read_size [OF assms(3)] assms(1) [of "''){'' @ s" for s]
  show ?thesis by (simp add: read_enum_def strip_prefix_Cons tag_char_def)
qed

lemma write_canonical_first:
  "\<exists>c cs. write_canonical t = c # cs \<and> c \<noteq> CHR '')'' \<and> c \<noteq> CHR ''.''"
proof (cases t)
  case (CNamed tag kind)
  then show ?thesis by (cases kind) simp_all
next
  case (CAggregate tag kind ms sz)
  then show ?thesis by (cases kind) simp_all
qed (auto simp: scalar_text_def Let_def split: option.splits)

definition write_param :: "canonical_type option \<Rightarrow> string" where
  "write_param p = (case p of Some t \<Rightarrow> write_canonical t | None \<Rightarrow> ''...'')"

lemma write_params:
  "write_items '','' 0 (map write_canonical ps) @
     (if va then (if ps \<noteq> [] then '','' else []) @ ''...'' else []) =
   write_items '','' 0 (map write_param (map Some ps @ (if va then [None] else [])))"
  by (cases ps) (auto simp: write_param_def write_items_Cons comp_def)

lemma read_function_write:
  assumes "\<And>p r. p \<in> set ps \<Longrightarrow> ends r \<Longrightarrow> rd (write_canonical p @ r) = Some (p, r)"
    and "\<And>r. ends r \<Longrightarrow> rd (write_canonical ret @ r) = Some (ret, r)" and "ends r"
  shows "read_function rd (write_items '','' 0 (map write_canonical ps) @
     (if va then (if ps \<noteq> [] then '','' else []) @ ''...'' else []) @
     '')->'' @ write_canonical ret @ r) = Some (CFunction ret ps va, r)"
proof -
  let ?ps = "map Some ps @ (if va then [None] else [])"
  have items: "read_list '')'' (read_param rd) (write_items '','' 0 (map write_param ?ps) @ CHR '')'' # s) =
      Some (map id ?ps, s)" for s
  proof (rule read_list_write)
    fix p r' assume p: "p \<in> set ?ps"
    show "read_param rd (write_param p @ r') = Some (id p, r')" if "ends r'"
    proof (cases p)
      case (Some t)
      with p have "t \<in> set ps" by (auto split: if_splits)
      with Some assms(1) [of t r'] that write_canonical_first [of t] show ?thesis
        by (auto simp: read_param_def write_param_def strip_prefix_Cons)
    qed (simp add: read_param_def write_param_def strip_prefix_Cons)
    show "strip_prefix '')'' (write_param p @ r') = None"
      using write_canonical_first [of "the p"] by (cases p) (auto simp: write_param_def strip_prefix_Cons)
  qed simp
  have spelled: "write_items '','' 0 (map write_canonical ps) @
      (if va then (if ps \<noteq> [] then '','' else []) @ ''...'' else []) @ '')->'' @ write_canonical ret @ r =
    write_items '','' 0 (map write_param ?ps) @ CHR '')'' # ''->'' @ write_canonical ret @ r"
    unfolding write_params [symmetric] by simp
  have "List.map_filter id (map id ?ps) = ps" "None \<in> set (map id ?ps) \<longleftrightarrow> va"
    by (auto simp: map_filter_def comp_def)
  then show ?thesis
    unfolding spelled read_function_def items using assms(2) [OF assms(3)] by (simp add: strip_prefix_Cons)
qed

lemma read_bytes_write:
  assumes "ends r"
  shows "read_bytes_of mk (show_nat (unat b * 8) @ r) = Some (mk (Some b), r)"
  using read_num_show [OF ends_not_digit [OF assms]] by (simp add: read_bytes_of_def)

lemma strip_letters:
  "strip_prefix (CHR ''n'' # p) (show_nat k @ r) = None" "strip_prefix (CHR ''l'' # p) (show_nat k @ r) = None"
  by (simp_all add: strip_digit digit_value_def)

lemma strip_int: "strip_prefix (CHR ''i'' # p) (show_nat k @ r) = None"
  by (simp add: strip_digit digit_value_def)

text \<open>Each keyword reaches its production, whatever was tried before it.\<close>

lemma first_keyword:
  "first_production (productions rd) (''void'' @ r) = Some (CVoid, r)"
  "first_production (productions rd) (''bool'' @ r) = Some (CBool, r)"
  "first_production (productions rd) (''ptr'' @ r) = read_ptr rd r"
  "first_production (productions rd) (''['' @ r) = read_array rd r"
  "first_production (productions rd) (record_keyword kind @ r) = read_record rd kind r"
  "first_production (productions rd) (''enum'' @ r) = read_enum rd r"
  "first_production (productions rd) (''fn('' @ r) = read_function rd r"
  "first_production (productions rd) (''typedef '' @ r) = read_typedef rd r"
  "first_production (productions rd) (''opaque:'' @ r) = Some (COpaque (takeWhile tag_char r), dropWhile tag_char r)"
  "first_production (productions rd) (''#'' @ r) = map_option (apfst CBackRef) (read_num r)"
  "first_production (productions rd) (''float'' @ r) = Some (CFloat None, r)"
  "first_production (productions rd) (''iint'' @ r) = Some (CInt None True, r)"
  "first_production (productions rd) (''uint'' @ r) = Some (CInt None False, r)"
  by (cases kind; simp add: productions_def strip_prefix_Cons)+

lemma first_width:
  "first_production (productions rd) (''f'' @ show_nat k @ r) = read_bytes_of CFloat (show_nat k @ r)"
  "first_production (productions rd) (''i'' @ show_nat k @ r) = read_bytes_of (\<lambda>b. CInt b True) (show_nat k @ r)"
  "first_production (productions rd) (''u'' @ show_nat k @ r) = read_bytes_of (\<lambda>b. CInt b False) (show_nat k @ r)"
  by (simp_all add: productions_def strip_prefix_Cons strip_letters strip_int)

lemma member_size: "m \<in> set ms \<Longrightarrow> size (cm_ty m) < size (CAggregate tag kind ms sz)"
  using cm_ty_size [of m ms size] by simp

lemma function_param_size: "p \<in> set ps \<Longrightarrow> size p < size (CFunction ret ps va)"
  using size_list_estimation' [of p ps "size p" size] by simp

lemma read_key_write:
  "names_ok t \<Longrightarrow> ends r \<Longrightarrow> size t < n \<Longrightarrow> read_key n (write_canonical t @ r) = Some (t, r)"
proof (induction n arbitrary: t r)
  case (Suc n)
  let ?first = "first_production (productions (read_key n))"
  have IH: "read_key n (write_canonical u @ s) = Some (u, s)"
    if "names_ok u" "size u < size t" "ends s" for u s
    using Suc.IH [OF that(1,3)] that(2) Suc.prems(3) by simp
  have "?first (write_canonical t @ r) = Some (t, r)"
  proof (cases t)
    case (CPtr u w)
    have "?first (''ptr'' @ opt_part '':'' show_u8 w @ ''('' @ write_canonical u @ '')'' @ r) = Some (t, r)"
      unfolding first_keyword CPtr by (rule read_ptr_write, rule IH) (use Suc.prems CPtr in simp_all)
    then show ?thesis by (simp add: CPtr)
  next
    case (CArray u k)
    have "?first (''['' @ write_canonical u @ '';'' @ show_u64 k @ '']'' @ r) = Some (t, r)"
      unfolding first_keyword CArray by (rule read_array_write, rule IH) (use Suc.prems CArray in simp_all)
    then show ?thesis by (simp add: CArray)
  next
    case (CNamed tag kind)
    with Suc.prems have ok: "list_all tag_char tag" by simp
    have "?first (record_keyword k @ CHR '':'' # tag @ r) = Some (CNamed tag (aggregate_kind_from k), r)" for k
      unfolding first_keyword by (rule read_named_write [OF ok Suc.prems(2)])
    note rec = this [of RStruct] this [of RUnion]
    have enum: "?first (''enum'' @ CHR '':'' # tag @ r) = Some (CNamed tag KEnum, r)"
      unfolding first_keyword by (rule read_named_write [OF ok Suc.prems(2)])
    from rec enum show ?thesis by (cases kind) (simp_all add: CNamed)
  next
    case (CAggregate tag kind ms sz)
    have "?first (record_keyword kind @ opt_part '':'' id tag @ ''{'' @
        write_items '','' 0 (map write_member ms) @ ''}'' @ opt_part ''='' show_u64 sz @ r) = Some (t, r)"
      unfolding first_keyword CAggregate
      by (rule read_record_write, rule IH) (use Suc.prems CAggregate member_size in auto)
    then show ?thesis unfolding CAggregate write_aggregate by simp
  next
    case (CEnum tag u ms sz)
    have "?first (''enum'' @ opt_part '':'' id tag @ ''('' @ write_canonical u @ ''){'' @
        write_items '','' 0 (map write_constant ms) @ ''}'' @ opt_part ''='' show_u64 sz @ r) = Some (t, r)"
      unfolding first_keyword CEnum
      by (rule read_enum_write, rule IH) (use Suc.prems CEnum in auto)
    then show ?thesis by (simp add: CEnum write_constant_def)
  next
    case (CFunction ret ps va)
    have "?first (''fn('' @ write_items '','' 0 (map write_canonical ps) @
        (if va then (if ps \<noteq> [] then '','' else []) @ ''...'' else []) @
        '')->'' @ write_canonical ret @ r) = Some (t, r)"
      unfolding first_keyword CFunction
      by (rule read_function_write; (rule IH)?) (use Suc.prems CFunction function_param_size in auto)
    then show ?thesis by (simp add: CFunction)
  next
    case (CTypedef name u)
    have "?first (''typedef '' @ name @ ''='' @ write_canonical u @ r) = Some (t, r)"
      unfolding first_keyword CTypedef
      by (rule read_typedef_write, rule IH) (use Suc.prems CTypedef in simp_all)
    then show ?thesis by (simp add: CTypedef)
  next
    case (COpaque name)
    with Suc.prems have ok: "list_all tag_char name" by simp
    have "?first (''opaque:'' @ name @ r) = Some (t, r)"
      unfolding first_keyword COpaque
      using takeWhile_span [OF ok ends_not_tag [OF Suc.prems(2)]] by simp
    then show ?thesis by (simp add: COpaque)
  next
    case CVoid
    have "?first (''void'' @ r) = Some (t, r)" unfolding first_keyword CVoid by simp
    then show ?thesis by (simp add: CVoid scalar_text_def)
  next
    case CBool
    have "?first (''bool'' @ r) = Some (t, r)" unfolding first_keyword CBool by simp
    then show ?thesis by (simp add: CBool scalar_text_def)
  next
    case (CInt bytes sgnd)
    have "?first (''i'' @ show_nat (unat b * 8) @ r) = Some (CInt (Some b) True, r)"
      "?first (''u'' @ show_nat (unat b * 8) @ r) = Some (CInt (Some b) False, r)" for b
      unfolding first_width by (rule read_bytes_write [OF Suc.prems(2)])+
    moreover have "?first (''iint'' @ r) = Some (CInt None True, r)" "?first (''uint'' @ r) = Some (CInt None False, r)"
      unfolding first_keyword by simp_all
    ultimately show ?thesis by (cases bytes; cases sgnd) (simp_all add: CInt scalar_text_def)
  next
    case (CFloat bytes)
    have "?first (''f'' @ show_nat (unat b * 8) @ r) = Some (CFloat (Some b), r)" for b
      unfolding first_width by (rule read_bytes_write [OF Suc.prems(2)])
    moreover have "?first (''float'' @ r) = Some (CFloat None, r)" unfolding first_keyword by simp
    ultimately show ?thesis by (cases bytes) (simp_all add: CFloat scalar_text_def)
  next
    case (CBackRef k)
    have "?first (''#'' @ show_nat k @ r) = Some (t, r)"
      unfolding first_keyword CBackRef using read_num_show [OF ends_not_digit [OF Suc.prems(2)]] by simp
    then show ?thesis by (simp add: CBackRef scalar_text_def)
  qed
  then show ?case by simp
qed simp

text \<open>
  C11: the key form of a type is self-delimiting and a stable key, as it is meant to be, for all types
  whose names keep clear of the delimiters: a reader that is given it with anything that may follow a
  type reads the type back and stops where it ends, so that equal key forms are equal types.
\<close>

theorem canonical_key_stable:
  assumes "names_ok a" and "names_ok b" and "ends r"
  shows "read_key (Suc (size a)) (show_canonical False a @ r) = Some (a, r) \<and>
    (show_canonical False a = show_canonical False b \<longleftrightarrow> a = b)"
proof
  show "read_key (Suc (size a)) (show_canonical False a @ r) = Some (a, r)"
    unfolding show_canonical_def if_False by (rule read_key_write [OF assms(1,3)]) simp
  let ?n = "Suc (size a + size b)"
  have "read_key ?n (write_canonical a @ []) = Some (a, [])" "read_key ?n (write_canonical b @ []) = Some (b, [])"
    by (rule read_key_write; use assms in simp)+
  then have "write_canonical a = write_canonical b \<Longrightarrow> a = b" by (metis option.inject prod.inject)
  then show "show_canonical False a = show_canonical False b \<longleftrightarrow> a = b"
    unfolding show_canonical_def by auto
qed

definition node_type :: canonical_type where
  "node_type = CAggregate (Some ''std::node<int>'') RStruct
     [CanonicalMember ''next'' (Some 0) None (CPtr (CNamed ''std::node<int>'' KStruct) (Some 8)),
      CanonicalMember ''flag'' (Some 64) (Some 1) (CInt (Some 4) False)] (Some 16)"

theorem canonical_key_stable_witness:
  "read_key (Suc (size node_type)) (show_canonical False node_type @ '')'') = Some (node_type, '')'')"
proof -
  have "names_ok node_type"
    by (simp add: node_type_def tag_char_def member_char_def)
  moreover have "ends '')''" by simp
  ultimately show ?thesis using canonical_key_stable [of node_type node_type "'')''"] by blast
qed

text \<open>
  Without the condition on names the key form is not a key: a parameter whose tag holds the separator
  is spelled like two parameters.
\<close>

theorem key_form_collides:
  "\<exists>a b. a \<noteq> b \<and> show_canonical False a = show_canonical False b"
proof (intro exI conjI)
  show "CFunction CVoid [CNamed ''a,struct:b'' KStruct] False \<noteq>
      CFunction CVoid [CNamed ''a'' KStruct, CNamed ''b'' KStruct] False" by simp
  show "show_canonical False (CFunction CVoid [CNamed ''a,struct:b'' KStruct] False) =
      show_canonical False (CFunction CVoid [CNamed ''a'' KStruct, CNamed ''b'' KStruct] False)"
    by (simp add: show_canonical_def)
qed

end
