(* ===== verification/Diff_Text.thy ===== *)
theory Diff_Text
  imports Canonical_Text Canonical_Diff
begin

text \<open>
  The \<open>Display\<close> of a diff (\<open>types/diff/canonical/engine.rs\<close>): one row per change, its verb and path
  padded to the widest of the diff, its value folded onto lines of its own where the line would not
  fit the width the caller asks for.
\<close>

definition show_hex_u64 :: "u64 \<Rightarrow> string" where
  "show_hex_u64 w = ''0x'' @ show_base 16 (unat w)"

definition size_str :: "u64 option \<Rightarrow> string" where
  "size_str sz = (case sz of None \<Rightarrow> ''?'' | Some v \<Rightarrow> show_hex_u64 v)"

definition off_str :: "u64 \<Rightarrow> string" where
  "off_str bits =
     (let rest = bits mod 8
      in if rest = 0 then show_hex_u64 (bits div 8)
         else show_hex_u64 (bits div 8) @ ''+'' @ show_u64 rest @ ''b'')"

definition bits_str :: "u32 option \<Rightarrow> string" where
  "bits_str width = (case width of None \<Rightarrow> ''none'' | Some w \<Rightarrow> show_nat (unat w))"

text \<open>\<open>rfind\<close> of the dot, and the path split there.\<close>

definition split_parent :: "string \<Rightarrow> string \<times> string" where
  "split_parent path =
     (case rposition (CHR ''.'') path of
        Some i \<Rightarrow> (take i path, drop (i + 1) path)
      | None \<Rightarrow> ([], path))"

record diff_row =
  dr_verb :: string
  dr_path :: string
  dr_before :: string
  dr_after :: "string option"

definition row_single :: "string \<Rightarrow> string \<Rightarrow> string \<Rightarrow> diff_row" where
  "row_single verb path before = \<lparr>dr_verb = verb, dr_path = path, dr_before = before, dr_after = None\<rparr>"

definition row_pair :: "string \<Rightarrow> string \<Rightarrow> string \<Rightarrow> string \<Rightarrow> diff_row" where
  "row_pair verb path before after =
     \<lparr>dr_verb = verb, dr_path = path, dr_before = before, dr_after = Some after\<rparr>"

definition change_row :: "change \<Rightarrow> diff_row" where
  "change_row c =
     (let path = ch_path c
      in case ch_kind c of
           Added t \<Rightarrow> row_single ''Add'' path (show_canonical True t)
         | Removed t \<Rightarrow> row_single ''Remove'' path (show_canonical True t)
         | ConstantAdded v \<Rightarrow> row_single ''Add'' path (show_hex_u64 v)
         | ConstantRemoved v \<Rightarrow> row_single ''Remove'' path (show_hex_u64 v)
         | Retyped l r \<Rightarrow> row_pair ''Change type'' path (show_canonical True l) (show_canonical True r)
         | BitfieldChanged f t \<Rightarrow> row_pair ''Change width'' path (bits_str f) (bits_str t)
         | ConstantChanged l r \<Rightarrow> row_pair ''Change value'' path (show_hex_u64 l) (show_hex_u64 r)
         | SizeChanged l r \<Rightarrow> row_pair ''Resize'' path (size_str l) (size_str r)
         | Moved f t \<Rightarrow> row_pair ''Move'' path (off_str f) (off_str t)
         | Renamed old \<Rightarrow>
             (let (parent, leaf) = split_parent (ch_path c) in row_pair ''Rename'' parent old leaf))"

definition ARROW :: string where
  "ARROW = [CHR 0xE2, CHR 0x86, CHR 0x92]"

definition row_value :: "diff_row \<Rightarrow> string" where
  "row_value r =
     (case dr_after r of Some after \<Rightarrow> dr_before r @ '' '' @ ARROW @ '' '' @ after | None \<Rightarrow> dr_before r)"

text \<open>Widths count characters; padding is on the right.\<close>

definition char_count :: "string \<Rightarrow> nat" where
  "char_count s = length (str_chars s)"

definition pad :: "nat \<Rightarrow> string \<Rightarrow> string" where
  "pad w s = s @ replicate (w - char_count s) (CHR '' '')"

definition trim_end :: "string \<Rightarrow> string" where
  "trim_end s = rev (strip_any (length s) (map rev white_space) (rev s))"

definition NEWLINE :: char where "NEWLINE = CHR 0x0A"

definition row_write :: "nat \<Rightarrow> bool \<Rightarrow> nat \<Rightarrow> nat option \<Rightarrow> diff_row \<Rightarrow> string" where
  "row_write verb_w has_path path_w budget r =
     (let head = (if has_path then pad verb_w (dr_verb r) @ ''  '' @ pad path_w (dr_path r)
                  else pad verb_w (dr_verb r));
          line = head @ ''  '' @ row_value r
      in if (case budget of None \<Rightarrow> True | Some b \<Rightarrow> char_count line \<le> b) then trim_end line
         else
           (if has_path \<and> dr_path r \<noteq> [] then pad verb_w (dr_verb r) @ ''  '' @ dr_path r
            else dr_verb r) @
           (case dr_after r of
              Some after \<Rightarrow> NEWLINE # ''      '' @ dr_before r @ NEWLINE # ''    '' @ ARROW @ '' '' @ after
            | None \<Rightarrow> NEWLINE # ''      '' @ dr_before r))"

text \<open>\<open>max().unwrap_or(0)\<close>.\<close>

definition max_or_0 :: "nat list \<Rightarrow> nat" where
  "max_or_0 ns = foldr max ns 0"

definition show_diff :: "nat option \<Rightarrow> type_diff \<Rightarrow> string" where
  "show_diff budget d =
     (if d = [] then ''(identical)''
      else
        let rows = map change_row d;
            verb_w = max_or_0 (map (\<lambda>r. length (dr_verb r)) rows);
            has_path = list_ex (\<lambda>r. dr_path r \<noteq> []) rows;
            path_w = max_or_0 (map (\<lambda>r. char_count (dr_path r)) rows)
        in write_items [NEWLINE] 0 (map (row_write verb_w has_path path_w budget) rows))"

subsection \<open>What the text tells\<close>

lemma strip_any_suffix: "\<exists>p. s = p @ strip_any n ws s"
proof (induction n arbitrary: s)
  case (Suc n)
  show ?case
  proof (cases "List.find (\<lambda>w. take (length w) s = w) ws")
    case None
    then show ?thesis by simp
  next
    case (Some w)
    from Suc [of "drop (length w) s"] obtain p where "drop (length w) s = p @ strip_any n ws (drop (length w) s)" ..
    then have "take (length w) s @ drop (length w) s = (take (length w) s @ p) @ strip_any n ws (drop (length w) s)"
      by simp
    then have "s = (take (length w) s @ p) @ strip_any n ws (drop (length w) s)"
      by (simp only: append_take_drop_id)
    then have "\<exists>q. s = q @ strip_any n ws (drop (length w) s)" ..
    with Some show ?thesis by simp
  qed
qed simp

lemma trim_end_prefix: "\<exists>q. s = trim_end s @ q"
proof -
  from strip_any_suffix [of "rev s" "length s" "map rev white_space"] obtain p where
    "rev s = p @ strip_any (length s) (map rev white_space) (rev s)" ..
  then have "s = trim_end s @ rev p" unfolding trim_end_def by (metis rev_append rev_rev_ident)
  then show ?thesis ..
qed

lemma change_verb: "\<exists>c cs. dr_verb (change_row ch) = c # cs \<and> c \<in> set ''ACMR''"
  by (cases "ch_kind ch") (auto simp: change_row_def row_single_def row_pair_def Let_def case_prod_unfold)

lemma row_write_first:
  assumes "dr_verb r = c # cs"
  shows "row_write vw hp pw budget r = [] \<or> hd (row_write vw hp pw budget r) = c"
proof -
  have "trim_end (c # s) = [] \<or> hd (trim_end (c # s)) = c" for s
    using trim_end_prefix [of "c # s"] by (cases "trim_end (c # s)") auto
  with assms show ?thesis by (simp add: row_write_def Let_def pad_def)
qed

lemma show_diff_Cons:
  "\<exists>vw hp pw rest. show_diff budget (ch # chs) = row_write vw hp pw budget (change_row ch) @ rest \<and>
     (rest = [] \<or> hd rest = NEWLINE)"
  unfolding show_diff_def Let_def list.map write_items_0
  by (simp, intro exI conjI, rule refl) (cases chs; simp)

lemma show_diff_identical: "show_diff budget d = ''(identical)'' \<longleftrightarrow> d = []"
proof (cases d)
  case (Cons ch chs)
  obtain c cs where c: "dr_verb (change_row ch) = c # cs" "c \<in> set ''ACMR''" using change_verb by blast
  obtain vw hp pw rest where
    w: "show_diff budget d = row_write vw hp pw budget (change_row ch) @ rest" "rest = [] \<or> hd rest = NEWLINE"
    using show_diff_Cons [of budget ch chs] Cons by blast
  have "show_diff budget d \<noteq> ''(identical)''"
  proof (cases "row_write vw hp pw budget (change_row ch)")
    case Nil
    with w show ?thesis by (cases rest) (auto simp: NEWLINE_def)
  next
    case (Cons x xs)
    with row_write_first [OF c(1), of vw hp pw budget] c(2) w(1) show ?thesis by auto
  qed
  with Cons show ?thesis by simp
qed (simp add: show_diff_def)

text \<open>
  The text of a diff of two types laid out in order says that they are identical exactly when they are,
  whatever the width it is folded to.
\<close>

theorem diff_text_identical_iff:
  assumes "is_hash_order ord" and "layout_ok a" and "layout_ok b"
  shows "show_diff budget (diff ord a b) = ''(identical)'' \<longleftrightarrow> a = b"
  unfolding show_diff_identical using diff_into_empty [OF assms, of "[]"] by (auto simp: diff_def)

theorem diff_text_identical_iff_witness:
  "show_diff (Some 20) (diff (\<lambda>xs. xs) pair_ab pair_ac) \<noteq> ''(identical)''"
proof -
  have "layout_ok pair_ab" "layout_ok pair_ac" by (simp_all add: pair_ab_def pair_ac_def)
  moreover have "pair_ab \<noteq> pair_ac" by (simp add: pair_ab_def pair_ac_def)
  ultimately show ?thesis using diff_text_identical_iff [of "\<lambda>xs. xs" pair_ab pair_ac] by simp
qed

end
