(* ===== verification/Named_Types.thy ===== *)
theory Named_Types
  imports Iterator Address Type_Edit Canonical
begin

text \<open>
  The types of an open database and the handles built on them (\<open>types/named.rs\<close>, \<open>types/resolved.rs\<close>,
  \<open>types/tinfo.rs\<close>): the iterator over the named ordinals, the walks into an owned type by ordinal, by
  name and by address, the accessors and the identity of an owned type, and the live type handles.

  The kernel is the record \<open>types_kernel\<close>: what the local type library answers, a walk being the
  stream of sink calls the facade makes and the root it returns. A live handle is a value of a type
  parameter; what the kernel builds of handles is the record \<open>tinfo_kernel\<close>. Nothing is assumed of
  either.
\<close>

type_synonym facade_walk = "sink_op list \<times> u32 option"

record types_kernel =
  tk_ordinal_limit :: u32
  tk_name_at :: "u32 \<Rightarrow> string option"
  tk_walk_ordinal :: "u32 \<Rightarrow> facade_walk"
  tk_walk_named :: "string \<Rightarrow> facade_walk"
  tk_walk_at :: "u64 \<Rightarrow> facade_walk"

datatype type_error =
    TypeNotFound string
  | TypeExtract u64 extract_error
  | TypeFfi ffi_error
  | TinfoNoType string
  | TinfoParseFailed string string
  | TinfoBuildFailed string

subsection \<open>Named types\<close>

text \<open>\<open>type_name_at\<close> of the database answers the empty name for an ordinal the kernel refuses.\<close>

definition type_name_at :: "types_kernel \<Rightarrow> u32 \<Rightarrow> string" where
  "type_name_at k ordinal = (case tk_name_at k ordinal of Some n \<Rightarrow> n | None \<Rightarrow> [])"

record named_type =
  nt_ordinal :: u32

definition named_type_name :: "types_kernel \<Rightarrow> named_type \<Rightarrow> string" where
  "named_type_name k t = type_name_at k (nt_ordinal t)"

record named_types =
  nts_next :: u32
  nts_limit :: u32

text \<open>The limit \<open>u32::MAX\<close> stands for ordinals that are switched off.\<close>

definition named_types_new :: "types_kernel \<Rightarrow> named_types" where
  "named_types_new k =
     \<lparr>nts_next = 1, nts_limit = (if tk_ordinal_limit k = - 1 then 0 else tk_ordinal_limit k)\<rparr>"

lemma next_below_limit:
  fixes n m :: u32
  assumes "n < m"
  shows "unat (n + 1) = Suc (unat n)"
proof -
  have "unat n < unat m" using assms by (simp add: word_less_nat_alt)
  moreover have "unat m < 2 ^ 32" using unsigned_less [of m, where ?'a = nat] by simp
  ultimately have "unat n + 1 < 2 ^ 32" by linarith
  then show ?thesis by (simp add: unat_word_ariths)
qed

text \<open>The loop of \<open>NamedTypes::next\<close>. The position stays below the limit, so the addition does not overflow.\<close>

function named_types_next :: "types_kernel \<Rightarrow> named_types \<Rightarrow> named_type option \<times> named_types" where
  "named_types_next k s =
     (if nts_next s < nts_limit s then
        let candidate = \<lparr>nt_ordinal = nts_next s\<rparr>; s' = s\<lparr>nts_next := nts_next s + 1\<rparr>
        in (if named_type_name k candidate \<noteq> [] then (Some candidate, s') else named_types_next k s')
      else (None, s))"
  by pat_completeness auto
termination
  by (relation "measure (\<lambda>(_, s). unat (nts_limit s) - unat (nts_next s))")
     (auto simp: next_below_limit word_less_nat_alt)

declare named_types_next.simps [simp del]

definition named_types_step ::
  "types_kernel \<times> named_types \<Rightarrow> (named_type option \<times> types_kernel \<times> named_types) option" where
  "named_types_step = (\<lambda>(k, s). let (r, s') = named_types_next k s in Some (r, k, s'))"

definition named_ordinals :: "types_kernel \<Rightarrow> u32 \<Rightarrow> u32 \<Rightarrow> named_type list" where
  "named_ordinals k a b =
     map (\<lambda>n. \<lparr>nt_ordinal = word_of_nat n\<rparr>)
       (filter (\<lambda>n. type_name_at k (word_of_nat n) \<noteq> []) [unat a ..< unat b])"

lemma named_ordinals_step:
  assumes "a < b"
  shows "named_ordinals k a b =
    (if type_name_at k a \<noteq> [] then [\<lparr>nt_ordinal = a\<rparr>] else []) @ named_ordinals k (a + 1) b"
proof -
  have "unat a < unat b" using assms by (simp add: word_less_nat_alt)
  then have "[unat a ..< unat b] = unat a # [unat (a + 1) ..< unat b]"
    unfolding next_below_limit [OF assms] by (rule upt_conv_Cons)
  then show ?thesis unfolding named_ordinals_def by simp
qed

lemma named_types_next_spec:
  "fst (named_types_next k s) =
     (case named_ordinals k (nts_next s) (nts_limit s) of [] \<Rightarrow> None | i # _ \<Rightarrow> Some i) \<and>
   nts_limit (snd (named_types_next k s)) = nts_limit s \<and>
   named_ordinals k (nts_next (snd (named_types_next k s))) (nts_limit s) =
     tl (named_ordinals k (nts_next s) (nts_limit s))"
proof (induction k s rule: named_types_next.induct)
  case (1 k s)
  show ?case
  proof (cases "nts_next s < nts_limit s")
    case True
    note step = named_ordinals_step [OF True, of k]
    show ?thesis
    proof (cases "type_name_at k (nts_next s) = []")
      case nameless: True
      with 1 [OF True refl refl] True step show ?thesis
        by (simp add: named_types_next.simps [of k s] named_type_name_def Let_def)
    next
      case False
      with True step show ?thesis
        by (simp add: named_types_next.simps [of k s] named_type_name_def Let_def)
    qed
  next
    case False
    then show ?thesis
      by (simp add: named_types_next.simps [of k s] named_ordinals_def word_less_nat_alt)
  qed
qed

interpretation named_list:
  lazy_iterator named_types_step "\<lambda>_. True" "\<lambda>(k, s). named_ordinals k (nts_next s) (nts_limit s)"
proof
  fix p :: "types_kernel \<times> named_types" and i js
  obtain k s where p: "p = (k, s)" by (cases p)
  note spec = named_types_next_spec [of k s]
  show "\<exists>p'. named_types_step p = Some (None, p') \<and> True \<and>
      (case p' of (k, s) \<Rightarrow> named_ordinals k (nts_next s) (nts_limit s)) = []"
    if "(case p of (k, s) \<Rightarrow> named_ordinals k (nts_next s) (nts_limit s)) = []"
    using spec that by (simp add: p named_types_step_def case_prod_unfold Let_def)
  show "\<exists>p'. named_types_step p = Some (Some i, p') \<and> True \<and>
      (case p' of (k, s) \<Rightarrow> named_ordinals k (nts_next s) (nts_limit s)) = js"
    if "(case p of (k, s) \<Rightarrow> named_ordinals k (nts_next s) (nts_limit s)) = i # js"
    using spec that by (simp add: p named_types_step_def case_prod_unfold Let_def)
qed

subsection \<open>Walks\<close>

text \<open>The outer option of a walk is a panic of the sink on a foreign handle.\<close>

definition run_walk :: "facade_walk \<Rightarrow> (extract_error + resolved_type option) option" where
  "run_walk w = walk_type (fst w) (snd w)"

definition resolve_named :: "types_kernel \<Rightarrow> named_type \<Rightarrow> (type_error + resolved_type) option" where
  "resolve_named k t =
     do { r \<leftarrow> run_walk (tk_walk_ordinal k (nt_ordinal t));
          Some (case r of
                  Inr (Some ty) \<Rightarrow> Inr ty
                | Inr None \<Rightarrow> Inl (TypeNotFound (named_type_name k t))
                | Inl source \<Rightarrow> Inl (TypeExtract 0 source)) }"

definition type_named :: "types_kernel \<Rightarrow> string \<Rightarrow> (type_error + resolved_type) option" where
  "type_named k name =
     do { r \<leftarrow> run_walk (tk_walk_named k name);
          Some (case r of
                  Inr (Some ty) \<Rightarrow> Inr ty
                | Inr None \<Rightarrow> Inl (TypeNotFound name)
                | Inl source \<Rightarrow> Inl (TypeExtract 0 source)) }"

definition type_at :: "types_kernel \<Rightarrow> address \<Rightarrow> (type_error + resolved_type option) option" where
  "type_at k a =
     do { r \<leftarrow> run_walk (tk_walk_at k (address_get a));
          Some (case r of
                  Inr t \<Rightarrow> Inr t
                | Inl source \<Rightarrow> Inl (TypeExtract (address_get a) source)) }"

subsection \<open>An owned type\<close>

text \<open>A type with the cell that keeps its key once it was asked for; \<open>digest\<close> is the stable hash of a form.\<close>

record owned_type =
  ot_type :: resolved_type
  ot_key :: "128 word option"

definition owned :: "resolved_type \<Rightarrow> owned_type" where
  "owned r = \<lparr>ot_type = r, ot_key = None\<rparr>"

definition canonical_of :: "nat \<Rightarrow> canonical_options \<Rightarrow> owned_type \<Rightarrow> canonical_type option" where
  "canonical_of fuel opts t = canonicalize fuel (rt_types (ot_type t)) (rt_root (ot_type t)) opts"

definition type_key ::
  "(canonical_type \<Rightarrow> 128 word) \<Rightarrow> nat \<Rightarrow> owned_type \<Rightarrow> (128 word \<times> owned_type) option" where
  "type_key digest fuel t =
     (case ot_key t of
        Some key \<Rightarrow> Some (key, t)
      | None \<Rightarrow> do { c \<leftarrow> canonical_of fuel strict t; Some (digest c, t\<lparr>ot_key := Some (digest c)\<rparr>) })"

definition type_eq :: "(canonical_type \<Rightarrow> 128 word) \<Rightarrow> nat \<Rightarrow> owned_type \<Rightarrow> owned_type \<Rightarrow> bool option" where
  "type_eq digest fuel t u =
     do { (a, _) \<leftarrow> type_key digest fuel t; (b, _) \<leftarrow> type_key digest fuel u; Some (a = b) }"

definition type_root_shape :: "owned_type \<Rightarrow> type_shape option" where
  "type_root_shape t = map_option tv_shape (table_get (rt_types (ot_type t)) (rt_root (ot_type t)))"

definition type_root_size :: "owned_type \<Rightarrow> u64 option option" where
  "type_root_size t = map_option tv_size (table_get (rt_types (ot_type t)) (rt_root (ot_type t)))"

definition named_canonical_with ::
  "types_kernel \<Rightarrow> nat \<Rightarrow> canonical_options \<Rightarrow> named_type \<Rightarrow> (type_error + canonical_type) option" where
  "named_canonical_with k fuel opts t =
     do { r \<leftarrow> resolve_named k t;
          (case r of
             Inl e \<Rightarrow> Some (Inl e)
           | Inr ty \<Rightarrow> map_option Inr (canonical_of fuel opts (owned ty))) }"

definition named_canonical ::
  "types_kernel \<Rightarrow> nat \<Rightarrow> named_type \<Rightarrow> (type_error + canonical_type) option" where
  "named_canonical k fuel t = named_canonical_with k fuel strict t"

subsection \<open>Live handles\<close>

text \<open>
  What the kernel builds: the leaf constructors, null for a width it does not know; a forward
  reference by name; a parsed declaration or the message of the exception; and the composites.
\<close>

record 'h tinfo_kernel =
  tf_void :: 'h
  tf_bool :: 'h
  tf_int :: "u32 \<Rightarrow> bool \<Rightarrow> 'h option"
  tf_float :: "u32 \<Rightarrow> 'h option"
  tf_named :: "string \<Rightarrow> 'h"
  tf_decl :: "string \<Rightarrow> string + 'h"
  tf_ptr :: "'h \<Rightarrow> 'h option"
  tf_array :: "'h \<Rightarrow> u64 \<Rightarrow> 'h option"
  tf_const :: "'h \<Rightarrow> 'h"
  tf_volatile :: "'h \<Rightarrow> 'h"

definition from_nullable :: "'h option \<Rightarrow> string \<Rightarrow> type_error + 'h" where
  "from_nullable h reason = (case h of Some t \<Rightarrow> Inr t | None \<Rightarrow> Inl (TinfoBuildFailed reason))"

definition type_void :: "'h tinfo_kernel \<Rightarrow> 'h" where
  "type_void f = tf_void f"

definition type_bool :: "'h tinfo_kernel \<Rightarrow> 'h" where
  "type_bool f = tf_bool f"

definition type_int :: "'h tinfo_kernel \<Rightarrow> u32 \<Rightarrow> bool \<Rightarrow> type_error + 'h" where
  "type_int f bytes is_signed =
     from_nullable (tf_int f bytes is_signed)
       (show_nat (unat bytes) @ '' is not a valid integer width (1, 2, 4, 8, or 16)'')"

definition type_float :: "'h tinfo_kernel \<Rightarrow> u32 \<Rightarrow> type_error + 'h" where
  "type_float f bytes =
     from_nullable (tf_float f bytes) (show_nat (unat bytes) @ '' is not a valid float width (4 or 8)'')"

definition type_ref :: "types_kernel \<Rightarrow> 'h tinfo_kernel \<Rightarrow> string \<Rightarrow> (type_error + 'h) option" where
  "type_ref k f name =
     (case nul_checked name ''name'' of
        Some e \<Rightarrow> Some (Inl (TypeFfi e))
      | None \<Rightarrow>
          do { r \<leftarrow> type_named k name;
               Some (case r of
                       Inr _ \<Rightarrow> Inr (tf_named f name)
                     | Inl (TypeNotFound _) \<Rightarrow> Inl (TinfoNoType name)
                     | Inl e \<Rightarrow> Inl e) })"

definition parse_type :: "'h tinfo_kernel \<Rightarrow> string \<Rightarrow> type_error + 'h" where
  "parse_type f d =
     (case nul_checked d ''decl'' of
        Some e \<Rightarrow> Inl (TypeFfi e)
      | None \<Rightarrow>
          (case tf_decl f d of
             Inr h \<Rightarrow> Inr h
           | Inl what \<Rightarrow> Inl (TinfoParseFailed d (reason_or what ''the declaration is not valid''))))"

definition tinfo_pointer :: "'h tinfo_kernel \<Rightarrow> 'h \<Rightarrow> type_error + 'h" where
  "tinfo_pointer f h = from_nullable (tf_ptr f h) ''could not build a pointer to the type''"

definition tinfo_array :: "'h tinfo_kernel \<Rightarrow> 'h \<Rightarrow> u32 \<Rightarrow> type_error + 'h" where
  "tinfo_array f h nelems =
     from_nullable (tf_array f h (ucast nelems))
       (''could not build a '' @ show_nat (unat nelems) @ ''-element array of the type'')"

definition tinfo_const :: "'h tinfo_kernel \<Rightarrow> 'h \<Rightarrow> 'h" where
  "tinfo_const f h = tf_const f h"

definition tinfo_volatile :: "'h tinfo_kernel \<Rightarrow> 'h \<Rightarrow> 'h" where
  "tinfo_volatile f h = tf_volatile f h"

subsection \<open>What is listed, and what a walk answers\<close>

text \<open>
  C37: collecting the named types of a database ends after at most as many calls as there are
  ordinals and one more, without an overflow, and yields exactly the ordinals from 1 up to the limit
  that have a name, in order; with the ordinals switched off it yields nothing.
\<close>

theorem named_types_listed:
  "drain (unat (tk_ordinal_limit k) + 1) named_types_step (k, named_types_new k) =
     Some (if tk_ordinal_limit k = - 1 then []
           else map (\<lambda>n. \<lparr>nt_ordinal = word_of_nat n\<rparr>)
                  (filter (\<lambda>n. type_name_at k (word_of_nat n) \<noteq> []) [1 ..< unat (tk_ordinal_limit k)]))"
proof -
  let ?s = "named_types_new k"
  have "length (named_ordinals k (nts_next ?s) (nts_limit ?s)) \<le> unat (nts_limit ?s) - unat (nts_next ?s)"
    unfolding named_ordinals_def length_map by (rule order_trans [OF length_filter_le]) simp
  also have "\<dots> < unat (tk_ordinal_limit k) + 1" by (auto simp: named_types_new_def)
  finally have "length (named_ordinals k (nts_next ?s) (nts_limit ?s)) < unat (tk_ordinal_limit k) + 1" .
  then have "drain (unat (tk_ordinal_limit k) + 1) named_types_step (k, ?s) =
      Some (named_ordinals k (nts_next ?s) (nts_limit ?s))"
    by (rule named_list.drains [OF TrueI, of "(k, ?s)", simplified prod.case])
  also have "named_ordinals k (nts_next ?s) (nts_limit ?s) =
      (if tk_ordinal_limit k = - 1 then []
       else map (\<lambda>n. \<lparr>nt_ordinal = word_of_nat n\<rparr>)
              (filter (\<lambda>n. type_name_at k (word_of_nat n) \<noteq> []) [1 ..< unat (tk_ordinal_limit k)]))"
    by (simp add: named_ordinals_def named_types_new_def)
  finally show ?thesis .
qed

text \<open>
  A reference by name is built exactly for the names whose walk succeeds: a name with a NUL never
  reaches the kernel, a name the local library does not hold is reported as such with the name, and a
  type that is there but malformed is reported as malformed and not as missing.
\<close>

theorem type_ref_exists:
  "type_ref k f name =
     (if CHR 0x00 \<in> set name then Some (Inl (TypeFfi (InteriorNul ''name'')))
      else (case walk_type (fst (tk_walk_named k name)) (snd (tk_walk_named k name)) of
              None \<Rightarrow> None
            | Some (Inl e) \<Rightarrow> Some (Inl (TypeExtract 0 e))
            | Some (Inr None) \<Rightarrow> Some (Inl (TinfoNoType name))
            | Some (Inr (Some ty)) \<Rightarrow> Some (Inr (tf_named f name))))"
  by (simp add: type_ref_def nul_checked_def type_named_def run_walk_def
      split: option.split sum.split)

text \<open>A cell that holds anything holds the digest of the strict form.\<close>

definition key_cell_ok :: "(canonical_type \<Rightarrow> 128 word) \<Rightarrow> nat \<Rightarrow> owned_type \<Rightarrow> bool" where
  "key_cell_ok digest fuel t \<longleftrightarrow>
     (case ot_key t of None \<Rightarrow> True | Some key \<Rightarrow> map_option digest (canonical_of fuel strict t) = Some key)"

lemma owned_cell_ok [simp]: "key_cell_ok digest fuel (owned r)"
  by (simp add: key_cell_ok_def owned_def)

lemma canonical_of_cell [simp]: "canonical_of fuel opts (t\<lparr>ot_key := c\<rparr>) = canonical_of fuel opts t"
  by (simp add: canonical_of_def)

lemma type_key_answer:
  "key_cell_ok digest fuel t \<Longrightarrow>
   map_option fst (type_key digest fuel t) = map_option digest (canonical_of fuel strict t)"
  by (cases "canonical_of fuel strict t") (auto simp: type_key_def key_cell_ok_def split: option.splits)

lemma type_key_keeps:
  assumes "key_cell_ok digest fuel t" and "type_key digest fuel t = Some (key, t')"
  shows "key_cell_ok digest fuel t' \<and> ot_type t' = ot_type t \<and> type_key digest fuel t' = Some (key, t')"
  using assms by (auto simp: type_key_def key_cell_ok_def split: option.splits)

text \<open>Asking for the key twice gives the same key, the one of the strict form.\<close>

theorem type_key_stable:
  assumes "key_cell_ok digest fuel t" and "type_key digest fuel t = Some (key, t')"
  shows "type_key digest fuel t' = Some (key, t') \<and> ot_type t' = ot_type t \<and>
    map_option digest (canonical_of fuel strict t) = Some key"
  using type_key_keeps [OF assms] type_key_answer [OF assms(1)] assms(2) by simp

text \<open>A table of one entry, the type \<open>int\<close>.\<close>

definition int_table :: type_table where
  "int_table = table_of [(TInt 4 True, Some 4)]"

theorem type_key_stable_witness:
  "\<exists>key t'. type_key (\<lambda>c. 7) 1 (owned \<lparr>rt_types = int_table, rt_root = 0\<rparr>) = Some (key, t') \<and>
     type_key (\<lambda>c. 7) 1 t' = Some (key, t')"
proof -
  let ?t = "owned \<lparr>rt_types = int_table, rt_root = 0\<rparr>"
  obtain c where c: "canonical_of 1 strict ?t = Some c"
    by (simp add: canonical_of_def owned_def int_table_def canon_eval)
  then obtain key t' where k: "type_key (\<lambda>c. 7) 1 ?t = Some (key, t')"
    by (auto simp: type_key_def owned_def)
  from type_key_stable [OF owned_cell_ok k] k show ?thesis by blast
qed

text \<open>
  Two types are equal exactly when the digests of their strict forms are, whichever of the two was
  asked for its key before: the cell decides nothing. Which table a type lives in, and under which
  handle, is not part of its identity.
\<close>

theorem type_eq_forms:
  assumes "key_cell_ok digest fuel t" and "key_cell_ok digest fuel u"
  shows "type_eq digest fuel t u =
    do { c \<leftarrow> canonical_of fuel strict t; d \<leftarrow> canonical_of fuel strict u; Some (digest c = digest d) }"
  using type_key_answer [OF assms(1)] type_key_answer [OF assms(2)]
  by (cases "type_key digest fuel t"; cases "type_key digest fuel u";
      cases "canonical_of fuel strict t"; cases "canonical_of fuel strict u")
     (auto simp: type_eq_def)

theorem type_eq_forms_witness:
  "\<exists>key t'. type_key (\<lambda>c. 7) 1 (owned \<lparr>rt_types = int_table, rt_root = 0\<rparr>) = Some (key, t') \<and>
     type_eq (\<lambda>c. 7) 1 t' (owned \<lparr>rt_types = int_table, rt_root = 0\<rparr>) = Some True"
proof -
  let ?t = "owned \<lparr>rt_types = int_table, rt_root = 0\<rparr>"
  obtain c where c: "canonical_of 1 strict ?t = Some c"
    by (simp add: canonical_of_def owned_def int_table_def canon_eval)
  then obtain key t' where k: "type_key (\<lambda>c. 7) 1 ?t = Some (key, t')"
    by (auto simp: type_key_def owned_def)
  have ok: "key_cell_ok (\<lambda>c. 7) 1 t' \<and> ot_type t' = ot_type ?t"
    using type_key_keeps [OF owned_cell_ok k] by blast
  then have "canonical_of 1 strict t' = Some c" using c by (simp add: canonical_of_def)
  with type_eq_forms [OF conjunct1 [OF ok] owned_cell_ok] c k show ?thesis by fastforce
qed

end
