(* ===== verification/Ctree_Build.thy ===== *)
theory Ctree_Build
  imports Ctree_Extract
begin

text \<open>
  Building a ctree by hand and reading its nodes (\<open>decompiler/ctree/tree.rs\<close>, \<open>decompiler/ctree/node.rs\<close>):
  the accessors of a node, the lists of the snapshot, and the constructors of \<open>CtreeBuilder\<close>. The
  claim is about a whole build: which sequences of constructor calls \<open>finish\<close> turns into a tree.
\<close>

subsection \<open>Accessors of a node\<close>

definition is_expression :: "node_ref \<Rightarrow> bool" where
  "is_expression n = (case n of NExpression _ \<Rightarrow> True | NStatement _ \<Rightarrow> False)"

definition is_statement :: "node_ref \<Rightarrow> bool" where
  "is_statement n = (case n of NStatement _ \<Rightarrow> True | NExpression _ \<Rightarrow> False)"

text \<open>What the macro \<open>expression_accessors\<close> generates besides those the queries use.\<close>

fun as_binary :: "expression_kind \<Rightarrow> (binary_op \<times> expression_id \<times> expression_id) option" where
  "as_binary (EBinary op x y) = Some (op, x, y)"
| "as_binary _ = None"

fun as_unary :: "expression_kind \<Rightarrow> (unary_op \<times> expression_id) option" where
  "as_unary (EUnary op x) = Some (op, x)"
| "as_unary _ = None"

fun as_ternary :: "expression_kind \<Rightarrow> (expression_id \<times> expression_id \<times> expression_id) option" where
  "as_ternary (ETernary c t e) = Some (c, t, e)"
| "as_ternary _ = None"

fun as_index :: "expression_kind \<Rightarrow> (expression_id \<times> expression_id) option" where
  "as_index (EIndex a i) = Some (a, i)"
| "as_index _ = None"

fun as_member_ref :: "expression_kind \<Rightarrow> (expression_id \<times> u32) option" where
  "as_member_ref (EMemberRef obj off) = Some (obj, off)"
| "as_member_ref _ = None"

fun as_member_ptr :: "expression_kind \<Rightarrow> (expression_id \<times> u32) option" where
  "as_member_ptr (EMemberPtr obj off) = Some (obj, off)"
| "as_member_ptr _ = None"

fun as_cast :: "expression_kind \<Rightarrow> expression_id option" where
  "as_cast (ECast x) = Some x"
| "as_cast _ = None"

fun as_deref :: "expression_kind \<Rightarrow> (expression_id \<times> u32) option" where
  "as_deref (EDeref x sz) = Some (x, sz)"
| "as_deref _ = None"

fun as_sizeof :: "expression_kind \<Rightarrow> expression_id option" where
  "as_sizeof (ESizeof x) = Some x"
| "as_sizeof _ = None"

fun as_fnum :: "expression_kind \<Rightarrow> u64 option" where
  "as_fnum (EFnum v) = Some v"
| "as_fnum _ = None"

fun as_str_lit :: "expression_kind \<Rightarrow> string option" where
  "as_str_lit (EStr s) = Some s"
| "as_str_lit _ = None"

fun as_obj :: "expression_kind \<Rightarrow> (address \<times> string option) option" where
  "as_obj (EObj a name) = Some (a, name)"
| "as_obj _ = None"

fun as_helper :: "expression_kind \<Rightarrow> string option" where
  "as_helper (EHelper s) = Some s"
| "as_helper _ = None"

subsection \<open>Accessors of a snapshot\<close>

definition ctree_expression :: "ctree \<Rightarrow> expression_id \<Rightarrow> expression_node option" where
  "ctree_expression t i = arena_get (ns_expressions t) i"

definition ctree_statement :: "ctree \<Rightarrow> statement_id \<Rightarrow> statement_node option" where
  "ctree_statement t i = arena_get (ns_statements t) i"

definition ctree_kind :: "ctree \<Rightarrow> expression_id \<Rightarrow> expression_kind option" where
  "ctree_kind t i = map_option ex_kind (arena_get (ns_expressions t) i)"

definition ctree_statement_kind :: "ctree \<Rightarrow> statement_id \<Rightarrow> statement_kind option" where
  "ctree_statement_kind t i = map_option st_kind (arena_get (ns_statements t) i)"

definition ctree_type_of :: "ctree \<Rightarrow> type_id \<Rightarrow> type_value option" where
  "ctree_type_of t i = table_get (ct_types t) i"

definition ctree_locals :: "ctree \<Rightarrow> local list" where
  "ctree_locals t = ct_locals t"

definition ctree_expressions :: "ctree \<Rightarrow> (expression_id \<times> expression_node) list option" where
  "ctree_expressions t = arena_iter (ns_expressions t)"

definition ctree_statements :: "ctree \<Rightarrow> (statement_id \<times> statement_node) list option" where
  "ctree_statements t = arena_iter (ns_statements t)"

definition ctree_assigns ::
  "ctree \<Rightarrow> (expression_id \<times> assignment_op \<times> expression_id \<times> expression_id) list option" where
  "ctree_assigns t =
     map_option (List.map_filter (\<lambda>(i, n). map_option (\<lambda>(op, x, y). (i, op, x, y)) (as_assign (ex_kind n))))
       (ctree_expressions t)"

definition ctree_vars :: "ctree \<Rightarrow> (expression_id \<times> local_id) list option" where
  "ctree_vars t =
     map_option (List.map_filter (\<lambda>(i, n). map_option (Pair i) (as_var (ex_kind n)))) (ctree_expressions t)"

definition ctree_types :: "ctree \<Rightarrow> (type_id \<times> type_value) list option" where
  "ctree_types t = arena_iter (tt_arena (ct_types t))"

definition ctree_children :: "ctree \<Rightarrow> node_ref \<Rightarrow> node_ref list option" where
  "ctree_children t n = do { kids \<leftarrow> for_each_child t n; Some (fold (\<lambda>c v. v @ [c]) kids []) }"

definition expression_descendants :: "nat \<Rightarrow> ctree \<Rightarrow> node_ref \<Rightarrow> expression_id list option" where
  "expression_descendants fuel t n = map_option (List.map_filter as_expression) (descendants fuel t n)"

subsection \<open>The constructors of a builder\<close>

definition cb_intern_type :: "type_value \<Rightarrow> ctree_builder \<Rightarrow> (type_id \<times> ctree_builder) option" where
  "cb_intern_type v b = do { (i, t) \<leftarrow> builder_intern v (cb_types b); Some (i, b\<lparr>cb_types := t\<rparr>) }"

definition cb_alloc_placeholder :: "ctree_builder \<Rightarrow> (type_id \<times> ctree_builder) option" where
  "cb_alloc_placeholder b =
     do { (i, t) \<leftarrow> builder_alloc_placeholder (cb_types b); Some (i, b\<lparr>cb_types := t\<rparr>) }"

definition cb_fill_type :: "type_id \<Rightarrow> type_value \<Rightarrow> ctree_builder \<Rightarrow> ctree_builder option" where
  "cb_fill_type i v b = do { t \<leftarrow> builder_fill i v (cb_types b); Some (b\<lparr>cb_types := t\<rparr>) }"

definition cb_type_size :: "ctree_builder \<Rightarrow> type_id \<Rightarrow> u64 option option" where
  "cb_type_size b i = builder_type_size (cb_types b) i"

type_synonym 'i made = "('i \<times> ctree_builder) option"

definition cb_var :: "type_id \<Rightarrow> local_id \<Rightarrow> ctree_builder \<Rightarrow> expression_id made" where
  "cb_var ty v = push_expression ty (EVar v) None"

definition cb_num :: "type_id \<Rightarrow> u64 \<Rightarrow> ctree_builder \<Rightarrow> expression_id made" where
  "cb_num ty v = push_expression ty (ENum v) None"

definition cb_fnum :: "type_id \<Rightarrow> u64 \<Rightarrow> ctree_builder \<Rightarrow> expression_id made" where
  "cb_fnum ty v = push_expression ty (EFnum v) None"

definition cb_obj :: "type_id \<Rightarrow> address \<Rightarrow> string option \<Rightarrow> ctree_builder \<Rightarrow> expression_id made" where
  "cb_obj ty a name = push_expression ty (EObj a name) None"

definition cb_string :: "type_id \<Rightarrow> string \<Rightarrow> ctree_builder \<Rightarrow> expression_id made" where
  "cb_string ty s = push_expression ty (EStr s) None"

definition cb_helper :: "type_id \<Rightarrow> string \<Rightarrow> ctree_builder \<Rightarrow> expression_id made" where
  "cb_helper ty s = push_expression ty (EHelper s) None"

definition cb_cast :: "type_id \<Rightarrow> expression_id \<Rightarrow> ctree_builder \<Rightarrow> expression_id made" where
  "cb_cast ty x = push_expression ty (ECast x) None"

definition cb_deref :: "type_id \<Rightarrow> expression_id \<Rightarrow> u32 \<Rightarrow> ctree_builder \<Rightarrow> expression_id made" where
  "cb_deref ty x sz = push_expression ty (EDeref x sz) None"

definition cb_unary :: "type_id \<Rightarrow> unary_op \<Rightarrow> expression_id \<Rightarrow> ctree_builder \<Rightarrow> expression_id made" where
  "cb_unary ty op x = push_expression ty (EUnary op x) None"

definition cb_binary ::
  "type_id \<Rightarrow> binary_op \<Rightarrow> expression_id \<Rightarrow> expression_id \<Rightarrow> ctree_builder \<Rightarrow> expression_id made" where
  "cb_binary ty op x y = push_expression ty (EBinary op x y) None"

definition cb_assign ::
  "type_id \<Rightarrow> assignment_op \<Rightarrow> expression_id \<Rightarrow> expression_id \<Rightarrow> ctree_builder \<Rightarrow> expression_id made" where
  "cb_assign ty op x y = push_expression ty (EAssign op x y) None"

definition cb_ternary ::
  "type_id \<Rightarrow> expression_id \<Rightarrow> expression_id \<Rightarrow> expression_id \<Rightarrow> ctree_builder \<Rightarrow> expression_id made" where
  "cb_ternary ty c t e = push_expression ty (ETernary c t e) None"

definition cb_index :: "type_id \<Rightarrow> expression_id \<Rightarrow> expression_id \<Rightarrow> ctree_builder \<Rightarrow> expression_id made" where
  "cb_index ty a i = push_expression ty (EIndex a i) None"

definition cb_member_ref :: "type_id \<Rightarrow> expression_id \<Rightarrow> u32 \<Rightarrow> ctree_builder \<Rightarrow> expression_id made" where
  "cb_member_ref ty obj off = push_expression ty (EMemberRef obj off) None"

definition cb_member_ptr :: "type_id \<Rightarrow> expression_id \<Rightarrow> u32 \<Rightarrow> ctree_builder \<Rightarrow> expression_id made" where
  "cb_member_ptr ty obj off = push_expression ty (EMemberPtr obj off) None"

definition cb_call ::
  "type_id \<Rightarrow> expression_id \<Rightarrow> expression_id list \<Rightarrow> ctree_builder \<Rightarrow> expression_id made" where
  "cb_call ty callee args = push_expression ty (ECall callee args) None"

definition cb_sizeof :: "type_id \<Rightarrow> expression_id \<Rightarrow> ctree_builder \<Rightarrow> expression_id made" where
  "cb_sizeof ty x = push_expression ty (ESizeof x) None"

definition cb_expression_statement :: "expression_id \<Rightarrow> ctree_builder \<Rightarrow> statement_id made" where
  "cb_expression_statement e = push_statement (KExpression e) None"

definition cb_block :: "statement_id list \<Rightarrow> ctree_builder \<Rightarrow> statement_id made" where
  "cb_block ss = push_statement (KBlock ss) None"

definition cb_ret :: "expression_id option \<Rightarrow> ctree_builder \<Rightarrow> statement_id made" where
  "cb_ret v = push_statement (KReturn v) None"

lemmas constructor_defs = cb_var_def cb_num_def cb_fnum_def cb_obj_def cb_string_def cb_helper_def
  cb_cast_def cb_deref_def cb_unary_def cb_binary_def cb_assign_def cb_ternary_def cb_index_def
  cb_member_ref_def cb_member_ptr_def cb_call_def cb_sizeof_def cb_expression_statement_def
  cb_block_def cb_ret_def

subsection \<open>A build as a sequence of calls\<close>

text \<open>A call of the builder, with its arguments, and the handles among those.\<close>

datatype build_call =
    MkVar type_id local_id
  | MkNum type_id u64
  | MkFnum type_id u64
  | MkObj type_id address "string option"
  | MkString type_id string
  | MkHelper type_id string
  | MkCast type_id expression_id
  | MkDeref type_id expression_id u32
  | MkUnary type_id unary_op expression_id
  | MkBinary type_id binary_op expression_id expression_id
  | MkAssign type_id assignment_op expression_id expression_id
  | MkTernary type_id expression_id expression_id expression_id
  | MkIndex type_id expression_id expression_id
  | MkMemberRef type_id expression_id u32
  | MkMemberPtr type_id expression_id u32
  | MkCall type_id expression_id "expression_id list"
  | MkSizeof type_id expression_id
  | MkExpressionStatement expression_id
  | MkBlock "statement_id list"
  | MkRet "expression_id option"
  | MkExpression type_id expression_kind "address option"
  | MkStatement statement_kind "address option"

primrec call_handles :: "build_call \<Rightarrow> node_ref list" where
  "call_handles (MkVar ty v) = []"
| "call_handles (MkNum ty v) = []"
| "call_handles (MkFnum ty v) = []"
| "call_handles (MkObj ty a name) = []"
| "call_handles (MkString ty s) = []"
| "call_handles (MkHelper ty s) = []"
| "call_handles (MkCast ty x) = [NExpression x]"
| "call_handles (MkDeref ty x sz) = [NExpression x]"
| "call_handles (MkUnary ty op x) = [NExpression x]"
| "call_handles (MkBinary ty op x y) = [NExpression x, NExpression y]"
| "call_handles (MkAssign ty op x y) = [NExpression x, NExpression y]"
| "call_handles (MkTernary ty c t e) = [NExpression c, NExpression t, NExpression e]"
| "call_handles (MkIndex ty a i) = [NExpression a, NExpression i]"
| "call_handles (MkMemberRef ty obj off) = [NExpression obj]"
| "call_handles (MkMemberPtr ty obj off) = [NExpression obj]"
| "call_handles (MkCall ty callee args) = NExpression callee # map NExpression args"
| "call_handles (MkSizeof ty x) = [NExpression x]"
| "call_handles (MkExpressionStatement e) = [NExpression e]"
| "call_handles (MkBlock ss) = map NStatement ss"
| "call_handles (MkRet v) = (case v of Some e \<Rightarrow> [NExpression e] | None \<Rightarrow> [])"
| "call_handles (MkExpression ty kind ea) = expression_children kind"
| "call_handles (MkStatement kind ea) = statement_children kind"

definition an_expression :: "expression_id made \<Rightarrow> (node_ref \<times> ctree_builder) option" where
  "an_expression r = map_option (map_prod NExpression (\<lambda>b. b)) r"

definition a_statement :: "statement_id made \<Rightarrow> (node_ref \<times> ctree_builder) option" where
  "a_statement r = map_option (map_prod NStatement (\<lambda>b. b)) r"

primrec run_call :: "build_call \<Rightarrow> ctree_builder \<Rightarrow> (node_ref \<times> ctree_builder) option" where
  "run_call (MkVar ty v) b = an_expression (cb_var ty v b)"
| "run_call (MkNum ty v) b = an_expression (cb_num ty v b)"
| "run_call (MkFnum ty v) b = an_expression (cb_fnum ty v b)"
| "run_call (MkObj ty a name) b = an_expression (cb_obj ty a name b)"
| "run_call (MkString ty s) b = an_expression (cb_string ty s b)"
| "run_call (MkHelper ty s) b = an_expression (cb_helper ty s b)"
| "run_call (MkCast ty x) b = an_expression (cb_cast ty x b)"
| "run_call (MkDeref ty x sz) b = an_expression (cb_deref ty x sz b)"
| "run_call (MkUnary ty op x) b = an_expression (cb_unary ty op x b)"
| "run_call (MkBinary ty op x y) b = an_expression (cb_binary ty op x y b)"
| "run_call (MkAssign ty op x y) b = an_expression (cb_assign ty op x y b)"
| "run_call (MkTernary ty c t e) b = an_expression (cb_ternary ty c t e b)"
| "run_call (MkIndex ty a i) b = an_expression (cb_index ty a i b)"
| "run_call (MkMemberRef ty obj off) b = an_expression (cb_member_ref ty obj off b)"
| "run_call (MkMemberPtr ty obj off) b = an_expression (cb_member_ptr ty obj off b)"
| "run_call (MkCall ty callee args) b = an_expression (cb_call ty callee args b)"
| "run_call (MkSizeof ty x) b = an_expression (cb_sizeof ty x b)"
| "run_call (MkExpressionStatement e) b = a_statement (cb_expression_statement e b)"
| "run_call (MkBlock ss) b = a_statement (cb_block ss b)"
| "run_call (MkRet v) b = a_statement (cb_ret v b)"
| "run_call (MkExpression ty kind ea) b = an_expression (push_expression ty kind ea b)"
| "run_call (MkStatement kind ea) b = a_statement (push_statement kind ea b)"

text \<open>A call that makes no node.\<close>

datatype aside_call =
    AsLocal local
  | AsIntern type_value
  | AsPlaceholder
  | AsFill type_id type_value

primrec run_aside :: "aside_call \<Rightarrow> ctree_builder \<Rightarrow> ctree_builder option" where
  "run_aside (AsLocal v) b = map_option snd (push_local v b)"
| "run_aside (AsIntern v) b = map_option snd (cb_intern_type v b)"
| "run_aside AsPlaceholder b = map_option snd (cb_alloc_placeholder b)"
| "run_aside (AsFill i v) b = cb_fill_type i v b"

text \<open>
  A build that spends its handles: a call may use the handles that earlier calls made and no call has
  used yet, each once, and makes one. The second argument is what has been made and not used.
\<close>

inductive built :: "ctree_builder \<Rightarrow> node_ref multiset \<Rightarrow> bool" where
  fresh: "built ctree_builder_new {#}"
| aside: "built b P \<Longrightarrow> run_aside a b = Some b' \<Longrightarrow> built b' P"
| node: "built b P \<Longrightarrow> mset (call_handles c) \<subseteq># P \<Longrightarrow> run_call c b = Some (n, b')
    \<Longrightarrow> built b' (add_mset n (P - mset (call_handles c)))"

subsection \<open>What a build leaves\<close>

lemma node_rank_below:
  assumes "allocated b c" and "\<And>j. \<not> unat j < unat i \<Longrightarrow> for_each_child b (NStatement j) = None"
  shows "node_rank c < node_rank (NStatement i)"
proof (cases c)
  case (NExpression j)
  with unsigned_less [of j] show ?thesis by (simp add: trans_less_add1)
next
  case (NStatement j)
  with assms(1) assms(2) [of j] show ?thesis by (cases "unat j < unat i") (simp_all add: allocated_def)
qed

lemma push_expression_first:
  assumes first: "children_first b" and run: "push_expression ty kind ea b = Some (i, b')"
    and kids: "\<And>c. c \<in> set (expression_children kind) \<Longrightarrow> allocated b c"
  shows "children_first b'"
proof -
  note facts = push_expression_facts [OF run]
  have ok: "store_ok b" using first by (simp add: children_first_def)
  show ?thesis
  proof (rule children_first_alloc [OF first facts(1,2) facts(5) [OF ok] facts(3)])
    fix c assume c: "c \<in> set (expression_children kind)"
    note a = kids [OF c]
    from expression_children_expr [OF c] obtain j where j: "c = NExpression j" ..
    with a facts(4) [of j] have "unat j < unat i" by (cases "unat j < unat i") (simp_all add: allocated_def)
    with a j show "allocated b c \<and> node_rank c < node_rank (NExpression i)" by simp
  qed
qed

lemma push_statement_first:
  assumes first: "children_first b" and run: "push_statement kind ea b = Some (i, b')"
    and kids: "\<And>c. c \<in> set (statement_children kind) \<Longrightarrow> allocated b c"
  shows "children_first b'"
proof -
  note facts = push_statement_facts [OF run]
  have ok: "store_ok b" using first by (simp add: children_first_def)
  show ?thesis
    by (rule children_first_alloc [OF first facts(1,2) facts(5) [OF ok] facts(3)])
       (use kids node_rank_below facts(4) in blast)
qed

text \<open>Whatever the call, its node holds its handles.\<close>

lemma run_call_push:
  assumes "run_call c b = Some (n, b')"
  obtains (expr) ty kind ea i where "push_expression ty kind ea b = Some (i, b')" "n = NExpression i"
      "expression_children kind = call_handles c"
    | (stmt) kind ea i where "push_statement kind ea b = Some (i, b')" "n = NStatement i"
      "statement_children kind = call_handles c"
  using assms
  by (cases c)
     (auto simp: constructor_defs an_expression_def a_statement_def opt_list_def split: option.splits)

lemma run_call_alloc:
  assumes "run_call c b = Some (n, b')" and first: "children_first b"
    and kids: "\<And>h. h \<in> set (call_handles c) \<Longrightarrow> allocated b h"
  shows "for_each_child b' = (for_each_child b)(n \<mapsto> call_handles c) \<and>
    for_each_child b n = None \<and> children_first b'"
  using assms(1)
proof (cases rule: run_call_push)
  case (expr ty kind ea i)
  with push_expression_first [OF first expr(1)] push_expression_facts [OF expr(1)] kids
  show ?thesis by simp
next
  case (stmt kind ea i)
  with push_statement_first [OF first stmt(1)] push_statement_facts [OF stmt(1)] kids
  show ?thesis by simp
qed

text \<open>One node more, and its children.\<close>

lemma alloc_counts:
  assumes upd: "for_each_child b' = (for_each_child b)(n \<mapsto> kids)" and fresh: "for_each_child b n = None"
    and ok: "store_ok b" "store_ok b'"
  shows "mset (node_list b') = add_mset n (mset (node_list b)) \<and>
    mset (concat (map (kids_of b') (node_list b'))) =
      mset kids + mset (concat (map (kids_of b) (node_list b)))"
proof -
  have new: "n \<notin> set (node_list b)" using node_list_iff [OF ok(1)] fresh by simp
  have "set (node_list b') = set (n # node_list b)"
    by (rule set_eqI) (simp add: node_list_iff [OF ok(1)] node_list_iff [OF ok(2)] upd)
  moreover have "distinct (node_list b')" "distinct (n # node_list b)"
    using distinct_node_list ok new by auto
  ultimately have ms: "mset (node_list b') = mset (n # node_list b)"
    using set_eq_iff_mset_eq_distinct by blast
  have "kids_of b' n = kids" by (simp add: kids_of_def upd)
  moreover have "concat (map (kids_of b') (node_list b)) = concat (map (kids_of b) (node_list b))"
    by (rule arg_cong [where f = concat], rule map_cong [OF refl]) (use new in \<open>auto simp: kids_of_def upd\<close>)
  ultimately show ?thesis using ms mset_concat_map [OF ms, of "kids_of b'"] by simp
qed

definition built_inv :: "ctree_builder \<Rightarrow> node_ref multiset \<Rightarrow> bool" where
  "built_inv b P \<longleftrightarrow>
     children_first b \<and> P + mset (concat (map (kids_of b) (node_list b))) = mset (node_list b)"

lemma run_aside_frame:
  "run_aside a b = Some b' \<Longrightarrow> ns_expressions b' = ns_expressions b \<and> ns_statements b' = ns_statements b"
  by (cases a) (auto simp: push_local_def cb_intern_type_def cb_alloc_placeholder_def cb_fill_type_def
      split: if_splits)

lemma aside_same_nodes:
  assumes "ns_expressions b' = ns_expressions b" and "ns_statements b' = ns_statements b"
  shows "for_each_child b' = for_each_child b" "ctree_parent b' = ctree_parent b" "node_list b' = node_list b"
    "store_ok b' = store_ok b" "kids_of b' = kids_of b" "children_first b' = children_first b"
proof -
  show e: "for_each_child b' = for_each_child b" "ctree_parent b' = ctree_parent b" "node_list b' = node_list b"
    "store_ok b' = store_ok b"
    by (rule ext, simp add: for_each_child_def assms split: node_ref.split)
       (rule ext, simp add: ctree_parent_def assms split: node_ref.split,
        simp_all add: node_list_def store_ok_def assms)
  show "kids_of b' = kids_of b" by (rule ext) (simp add: kids_of_def e)
  show "children_first b' = children_first b" by (simp add: children_first_def allocated_def e)
qed

lemma built_keeps: "built b P \<Longrightarrow> built_inv b P"
proof (induction rule: built.induct)
  case fresh
  have "children_first ctree_builder_new"
    using children_first_new by (simp add: callback_builder_new_def)
  moreover have "node_list ctree_builder_new = []"
    by (simp add: node_list_def ctree_builder_new_def arena_defs)
  ultimately show ?case by (simp add: built_inv_def)
next
  case (aside b P a b')
  with aside_same_nodes [of b' b] run_aside_frame [OF aside(2)] show ?case by (simp add: built_inv_def)
next
  case (node b P c n b')
  let ?k = "mset (concat (map (kids_of b) (node_list b)))"
  from node.IH have inv: "children_first b" "P + ?k = mset (node_list b)" by (simp_all add: built_inv_def)
  have ok: "store_ok b" using inv(1) by (simp add: children_first_def)
  have "P \<subseteq># mset (node_list b)" by (simp flip: inv(2))
  then have kids: "allocated b h" if "h \<in> set (call_handles c)" for h
  proof -
    from that have "h \<in># mset (call_handles c)" by simp
    then have "h \<in># P" by (rule mset_subset_eqD [OF node(2)])
    then have "h \<in># mset (node_list b)" by (rule mset_subset_eqD [OF \<open>P \<subseteq># mset (node_list b)\<close>])
    then show ?thesis by (simp add: allocated_def node_list_iff [OF ok])
  qed
  from run_call_alloc [OF node(3) inv(1) kids]
  have upd: "for_each_child b' = (for_each_child b)(n \<mapsto> call_handles c)" "for_each_child b n = None"
    "children_first b'" by blast+
  have ok': "store_ok b'" using upd(3) by (simp add: children_first_def)
  note counts = alloc_counts [OF upd(1,2) ok ok']
  have "add_mset n (P - mset (call_handles c)) + (mset (call_handles c) + ?k) =
      add_mset n (P - mset (call_handles c) + mset (call_handles c) + ?k)" by (simp add: ac_simps)
  also have "\<dots> = add_mset n (P + ?k)" by (simp add: subset_mset.diff_add [OF node(2)])
  finally have "add_mset n (P - mset (call_handles c)) +
      mset (concat (map (kids_of b') (node_list b'))) = mset (node_list b')"
    using counts inv(2) by simp
  with upd(3) show ?case by (simp only: built_inv_def)
qed

lemma descendants_loop_cong:
  "for_each_child t = for_each_child u \<Longrightarrow> descendants_loop fuel t stack = descendants_loop fuel u stack"
proof (induction fuel arbitrary: stack)
  case 0
  then show ?case by (cases stack) simp_all
next
  case (Suc fuel)
  then show ?case by (cases stack rule: rev_cases) (simp_all add: descendants_loop_snoc)
qed

text \<open>
  C36: a build that uses each handle it is given exactly once and is left with the root alone ends with
  a tree: no assertion of \<open>finish\<close> fires, debug build or not, every node but the root has as its parent
  the node its handle was passed to, and the iterator over the descendants of the root yields every
  node once.
\<close>

theorem linear_build_finishes:
  assumes "built b {#NStatement root#}"
  shows "\<exists>t xs fuel. finish debug root b = Some t \<and> ctree_parent t (NStatement root) = Some None \<and>
    (\<forall>c p. ctree_parent t c = Some (Some p) \<longleftrightarrow> c \<in> set (kids_of b p)) \<and>
    descendants fuel t (NStatement root) = Some xs \<and> mset xs = mset (node_list b)"
proof -
  from built_keeps [OF assms] have first: "children_first b"
    and all: "mset (NStatement root # concat (map (kids_of b) (node_list b))) = mset (node_list b)"
    by (simp_all add: built_inv_def)
  have "node_rank c < node_rank n" if "c \<in> set (kids_of b n)" for c n
    using first that by (cases "for_each_child b n") (auto simp: children_first_def kids_of_def)
  then have wl: "well_linked b root node_rank"
    using first all by (simp add: well_linked_def children_first_def list_all_iff)
  have "\<forall>n p. ctree_parent b n = Some p \<longrightarrow> p = None"
    using first by (simp add: children_first_def)
  from finish_links [OF wl this, of debug] obtain t where t: "finish debug root b = Some t"
    "for_each_child t = for_each_child b" "ctree_parent t (NStatement root) = Some None"
    "\<forall>c p. ctree_parent t c = Some (Some p) \<longleftrightarrow> c \<in> set (kids_of b p)"
    by blast
  obtain fuel xs where xs: "descendants fuel b (NStatement root) = Some xs" "mset xs = mset (node_list b)"
    using descendants_cover [OF wl] by blast
  have "descendants fuel t (NStatement root) = Some xs"
    unfolding descendants_def descendants_loop_cong [OF t(2)]
    using xs(1) by (simp add: descendants_def)
  with t xs(2) show ?thesis by blast
qed

text \<open>\<open>{ x + 1; return y; }\<close>, constructor by constructor.\<close>

definition sample_build :: "build_call list" where
  "sample_build =
     [MkVar 0 0, MkNum 0 1, MkBinary 0 OpAdd 0 1, MkExpressionStatement 2, MkVar 0 1, MkRet (Some 3),
      MkBlock [0, 1]]"

primrec run_calls :: "build_call list \<Rightarrow> ctree_builder \<Rightarrow> ctree_builder option" where
  "run_calls [] b = Some b"
| "run_calls (c # cs) b = do { (_, b') \<leftarrow> run_call c b; run_calls cs b' }"

primrec unspent :: "build_call list \<Rightarrow> node_ref multiset \<Rightarrow> ctree_builder \<Rightarrow> node_ref multiset option" where
  "unspent [] P b = Some P"
| "unspent (c # cs) P b =
     (if mset (call_handles c) \<subseteq># P
      then do { (n, b') \<leftarrow> run_call c b; unspent cs (add_mset n (P - mset (call_handles c))) b' }
      else None)"

lemma run_calls_built:
  "built b P \<Longrightarrow> unspent cs P b = Some Q \<Longrightarrow> run_calls cs b = Some b' \<Longrightarrow> built b' Q"
  by (induction cs arbitrary: P b) (auto split: if_splits intro: built.node)

theorem linear_build_finishes_witness:
  "\<exists>b t. run_calls sample_build ctree_builder_new = Some b \<and> finish True 2 b = Some t \<and>
     ctree_parent t (NStatement 2) = Some None \<and>
     ctree_parent t (NExpression 1) = Some (Some (NExpression 2))"
proof -
  obtain b where b: "run_calls sample_build ctree_builder_new = Some b"
    "unspent sample_build {#} ctree_builder_new = Some {#NStatement 2#}"
    "NExpression 1 \<in> set (kids_of b (NExpression 2))"
    by (simp add: sample_build_def constructor_defs an_expression_def a_statement_def ctree_builder_new_def
        push_expression_def push_statement_def ctree_eval)
  have "built b {#NStatement 2#}" by (rule run_calls_built [OF built.fresh b(2,1)])
  from linear_build_finishes [OF this, of True] b show ?thesis by blast
qed

end
