(* ===== verification/Bridge_Spec.thy ===== *)
theory Bridge_Spec
  imports Prelude "HOL-Library.Char_ord" "HOL-Library.List_Lexorder"
begin

text \<open>
  The binding generator (\<open>idakit-sys-codegen\<close>): the vocabulary a binding is specified in (\<open>model.rs\<close>,
  \<open>dsl.rs\<close>) and the emitters that turn a specification into the Rust bridge and the C++ headers and
  bodies (\<open>emit.rs\<close>).

  A token stream is a list of tokens, its groups flattened to their delimiters; spacing is not part of
  it. \<open>None\<close> is a panic: of \<open>format_ident\<close> on a text that is no identifier, which is the parameter
  \<open>ident_ok\<close>; of a reference to an extern type no domain declares; of a boolean constant.
\<close>

subsection \<open>The vocabulary\<close>

datatype scalar = ScBool | ScI32 | ScI64 | ScU8 | ScU16 | ScU32 | ScU64 | ScUsize

datatype field_ty =
    FtScalar scalar
  | FtStr
  | FtExtern string
  | FtStruct string
  | FtVecStruct string

record field =
  fd_name :: string
  fd_ty :: field_ty
  fd_doc :: string

datatype extern_kind = Trivial "field list" | Opaque

record extern_ty =
  xt_rust_name :: string
  xt_cxx_name :: string
  xt_kind :: extern_kind
  xt_doc :: string
  xt_safety :: string

record shared_struct =
  ss_name :: string
  ss_doc :: string
  ss_fields :: "field list"

record const_def =
  cd_name :: string
  cd_ty :: scalar
  cd_value :: int
  cd_doc :: string

datatype arg_ty =
    AtScalar scalar
  | AtSlice scalar
  | AtStr
  | AtString
  | AtBytes
  | AtExtern string
  | AtExternRef string
  | AtF64
  | AtSliceStruct string
  | AtVisitorMut string

record arg =
  ag_name :: string
  ag_ty :: arg_ty

datatype ret_shape =
    RsUnit
  | RsScalar scalar
  | RsString
  | RsExtern string
  | RsShared string
  | RsUniquePtr string
  | RsVec string
  | RsVecScalar scalar

datatype ret_kind = RkValue ret_shape | RkFallible ret_shape

datatype body_kind =
    BkScalarCall string
  | BkRendered string
  | BkSegScalar string string
  | BkSegString string bool
  | BkCustom

record fn_spec =
  sp_name :: string
  sp_receiver :: "string option"
  sp_args :: "arg list"
  sp_ret :: ret_kind
  sp_body :: body_kind
  sp_doc :: string
  sp_alias :: "string option"

record domain_spec =
  dm_name :: string
  dm_sdk_includes :: "string list"
  dm_externs :: "extern_ty list"
  dm_structs :: "shared_struct list"
  dm_consts :: "const_def list"
  dm_fns :: "fn_spec list"
  dm_custom_tus :: "string list"

record visitor_method =
  vm_name :: string
  vm_doc :: string
  vm_args :: "arg list"
  vm_ret :: ret_kind

record visitor_sink =
  vs_sink_name :: string
  vs_sink_doc :: string
  vs_visitor_name :: string
  vs_visitor_doc :: string
  vs_methods :: "visitor_method list"

record visitor_driver =
  vd_name :: string
  vd_doc :: string
  vd_args :: "arg list"
  vd_ret :: ret_kind
  vd_unsafe :: bool

record visitor_bridge =
  vb_structs :: "shared_struct list"
  vb_sinks :: "visitor_sink list"
  vb_drivers :: "visitor_driver list"

definition NAMESPACE :: string where "NAMESPACE = ''gen''"

primrec ret_shape_of :: "ret_kind \<Rightarrow> ret_shape" where
  "ret_shape_of (RkValue s) = s"
| "ret_shape_of (RkFallible s) = s"

fun is_must_use :: "ret_kind \<Rightarrow> bool" where
  "is_must_use (RkValue RsUnit) = False"
| "is_must_use (RkValue _) = True"
| "is_must_use (RkFallible _) = False"

definition new_arg :: "string \<Rightarrow> arg_ty \<Rightarrow> arg" where
  "new_arg name ty = \<lparr>ag_name = name, ag_ty = ty\<rparr>"

definition rendered :: "string \<Rightarrow> arg list \<Rightarrow> ret_kind \<Rightarrow> string \<Rightarrow> string \<Rightarrow> fn_spec" where
  "rendered name args ret doc body =
     \<lparr>sp_name = name, sp_receiver = None, sp_args = args, sp_ret = ret, sp_body = BkRendered body,
      sp_doc = doc, sp_alias = None\<rparr>"

text \<open>The rows of the macros \<open>fields\<close>, \<open>fns\<close> (a free function, a member) and \<open>methods\<close>.\<close>

definition fields_row :: "string \<Rightarrow> field_ty \<Rightarrow> string \<Rightarrow> field" where
  "fields_row name ty doc = \<lparr>fd_name = name, fd_ty = ty, fd_doc = doc\<rparr>"

definition fns_row :: "string \<Rightarrow> string \<Rightarrow> arg list \<Rightarrow> ret_kind \<Rightarrow> body_kind \<Rightarrow> fn_spec" where
  "fns_row doc name args ret body =
     \<lparr>sp_name = name, sp_receiver = None, sp_args = args, sp_ret = ret, sp_body = body, sp_doc = doc,
      sp_alias = None\<rparr>"

definition fns_member_row ::
  "string \<Rightarrow> string \<Rightarrow> string \<Rightarrow> arg list \<Rightarrow> ret_kind \<Rightarrow> body_kind \<Rightarrow> fn_spec" where
  "fns_member_row doc name recv args ret body =
     \<lparr>sp_name = name, sp_receiver = Some recv, sp_args = args, sp_ret = ret, sp_body = body, sp_doc = doc,
      sp_alias = None\<rparr>"

definition methods_row :: "string \<Rightarrow> string \<Rightarrow> arg list \<Rightarrow> ret_kind \<Rightarrow> visitor_method" where
  "methods_row doc name args ret = \<lparr>vm_name = name, vm_doc = doc, vm_args = args, vm_ret = ret\<rparr>"

definition domain_header :: "domain_spec \<Rightarrow> string" where
  "domain_header d = ''gen_'' @ dm_name d @ ''.h''"

definition bodies_file :: "domain_spec \<Rightarrow> string" where
  "bodies_file d = ''gen_'' @ dm_name d @ ''_bodies.cc''"

subsection \<open>Tokens\<close>

datatype token = Ident string | Punct string | StrLit string | NumLit string

definition format_ident :: "(string \<Rightarrow> bool) \<Rightarrow> string \<Rightarrow> token option" where
  "format_ident ident_ok n = (if ident_ok n then Some (Ident n) else None)"

text \<open>\<open>#(#xs),*\<close>: the items with a comma between two of them.\<close>

fun comma_sep :: "token list list \<Rightarrow> token list" where
  "comma_sep [] = []"
| "comma_sep [x] = x"
| "comma_sep (x # y # zs) = x @ Punct '','' # comma_sep (y # zs)"

definition doc_attr :: "string \<Rightarrow> token list" where
  "doc_attr doc = [Punct ''#'', Punct ''['', Ident ''doc'', Punct ''='', StrLit doc, Punct '']'']"

definition wrap_generic :: "string \<Rightarrow> token list \<Rightarrow> token list" where
  "wrap_generic outer inner = Ident outer # Punct ''<'' # inner @ [Punct ''>'']"

definition wrap_slice :: "token list \<Rightarrow> token list" where
  "wrap_slice inner = Punct ''&'' # Punct ''['' # inner @ [Punct '']'']"

primrec scalar_rust :: "scalar \<Rightarrow> string" where
  "scalar_rust ScBool = ''bool''"
| "scalar_rust ScI32 = ''i32''"
| "scalar_rust ScI64 = ''i64''"
| "scalar_rust ScU8 = ''u8''"
| "scalar_rust ScU16 = ''u16''"
| "scalar_rust ScU32 = ''u32''"
| "scalar_rust ScU64 = ''u64''"
| "scalar_rust ScUsize = ''usize''"

primrec scalar_cxx :: "scalar \<Rightarrow> string" where
  "scalar_cxx ScBool = ''bool''"
| "scalar_cxx ScI32 = ''int32_t''"
| "scalar_cxx ScI64 = ''int64_t''"
| "scalar_cxx ScU8 = ''uint8_t''"
| "scalar_cxx ScU16 = ''uint16_t''"
| "scalar_cxx ScU32 = ''uint32_t''"
| "scalar_cxx ScU64 = ''uint64_t''"
| "scalar_cxx ScUsize = ''size_t''"

subsection \<open>Constants\<close>

text \<open>An underscore before a digit that has a positive multiple of three digits from it to the end.\<close>

definition group_digits :: "string \<Rightarrow> string" where
  "group_digits digits =
     concat (map (\<lambda>(i, c). (if i > 0 \<and> 3 dvd (length digits - i) then ''_'' else []) @ [c])
       (enumerate 0 digits))"

definition rust_value_tokens :: "const_def \<Rightarrow> token list option" where
  "rust_value_tokens c =
     (if cd_ty c = ScBool then None
      else
        (let magnitude = NumLit (group_digits (show_nat (nat \<bar>cd_value c\<bar>)))
         in Some (if cd_value c < 0 then [Punct ''-'', magnitude] else [magnitude])))"

definition rust_item_tokens_impl :: "(string \<Rightarrow> bool) \<Rightarrow> bool \<Rightarrow> const_def \<Rightarrow> token list option" where
  "rust_item_tokens_impl ident_ok hidden c =
     do { name \<leftarrow> format_ident ident_ok (cd_name c);
          v \<leftarrow> rust_value_tokens c;
          Some (doc_attr (cd_doc c) @
            (if hidden then [Punct ''#'', Punct ''['', Ident ''doc'', Punct ''('', Ident ''hidden'', Punct '')'', Punct '']'']
             else []) @
            [Ident ''pub'', Ident ''const'', name, Punct '':'', Ident (scalar_rust (cd_ty c)), Punct ''='']
            @ v @ [Punct '';'']) }"

definition rust_item_tokens :: "(string \<Rightarrow> bool) \<Rightarrow> const_def \<Rightarrow> token list option" where
  "rust_item_tokens ident_ok c = rust_item_tokens_impl ident_ok False c"

definition rust_item_tokens_hidden :: "(string \<Rightarrow> bool) \<Rightarrow> const_def \<Rightarrow> token list option" where
  "rust_item_tokens_hidden ident_ok c = rust_item_tokens_impl ident_ok True c"

definition show_int :: "int \<Rightarrow> string" where
  "show_int v = (if v < 0 then CHR ''-'' # show_nat (nat (- v)) else show_nat (nat v))"

definition cxx_literal :: "const_def \<Rightarrow> string" where
  "cxx_literal c = (if cd_ty c = ScU64 then show_int (cd_value c) @ ''ULL'' else show_int (cd_value c))"

definition ln :: "string \<Rightarrow> string" where "ln s = s @ [CHR 0x0A]"

definition cxx_lines :: "const_def \<Rightarrow> string" where
  "cxx_lines c =
     ln (''// '' @ cd_doc c) @
     ln (''constexpr '' @ scalar_cxx (cd_ty c) @ '' '' @ cd_name c @ '' = '' @ cxx_literal c @ '';'')"

subsection \<open>Types\<close>

definition find_extern :: "extern_ty list \<Rightarrow> string \<Rightarrow> extern_ty option" where
  "find_extern externs n = List.find (\<lambda>e. xt_rust_name e = n) externs"

definition cxx_name_of :: "extern_ty list \<Rightarrow> string \<Rightarrow> string option" where
  "cxx_name_of externs n = map_option xt_cxx_name (find_extern externs n)"

definition extern_exists :: "extern_ty list \<Rightarrow> string \<Rightarrow> bool" where
  "extern_exists externs n = (find_extern externs n \<noteq> None)"

definition vec_elem_cxx :: "extern_ty list \<Rightarrow> string \<Rightarrow> string option" where
  "vec_elem_cxx externs n =
     (if extern_exists externs n then map_option (\<lambda>c. ''::'' @ c) (cxx_name_of externs n) else Some n)"

fun field_rust :: "(string \<Rightarrow> bool) \<Rightarrow> field_ty \<Rightarrow> token list option" where
  "field_rust ok (FtScalar s) = Some [Ident (scalar_rust s)]"
| "field_rust ok FtStr = Some [Ident ''String'']"
| "field_rust ok (FtExtern n) = do { i \<leftarrow> format_ident ok n; Some [i] }"
| "field_rust ok (FtStruct n) = do { i \<leftarrow> format_ident ok n; Some [i] }"
| "field_rust ok (FtVecStruct n) = do { i \<leftarrow> format_ident ok n; Some (wrap_generic ''Vec'' [i]) }"

fun arg_rust :: "(string \<Rightarrow> bool) \<Rightarrow> arg_ty \<Rightarrow> token list option" where
  "arg_rust ok (AtScalar s) = Some [Ident (scalar_rust s)]"
| "arg_rust ok (AtSlice s) = Some (wrap_slice [Ident (scalar_rust s)])"
| "arg_rust ok AtStr = Some [Punct ''&'', Ident ''str'']"
| "arg_rust ok AtString = Some [Ident ''String'']"
| "arg_rust ok AtBytes = Some (wrap_slice [Ident ''u8''])"
| "arg_rust ok (AtExtern n) = do { i \<leftarrow> format_ident ok n; Some [i] }"
| "arg_rust ok (AtExternRef n) = do { i \<leftarrow> format_ident ok n; Some [Punct ''&'', i] }"
| "arg_rust ok AtF64 = Some [Ident ''f64'']"
| "arg_rust ok (AtSliceStruct n) = do { i \<leftarrow> format_ident ok n; Some (wrap_slice [i]) }"
| "arg_rust ok (AtVisitorMut n) = do { i \<leftarrow> format_ident ok n; Some [Punct ''&'', Ident ''mut'', i] }"

fun arg_cxx_ty :: "extern_ty list \<Rightarrow> arg_ty \<Rightarrow> string option" where
  "arg_cxx_ty ex (AtScalar s) = Some (scalar_cxx s)"
| "arg_cxx_ty ex (AtSlice s) = Some (''rust::Slice<const '' @ scalar_cxx s @ ''>'')"
| "arg_cxx_ty ex AtStr = Some ''rust::Str''"
| "arg_cxx_ty ex AtString = Some ''rust::String''"
| "arg_cxx_ty ex AtBytes = Some ''rust::Slice<const uint8_t>''"
| "arg_cxx_ty ex (AtExtern n) = do { c \<leftarrow> cxx_name_of ex n; Some (''::'' @ c) }"
| "arg_cxx_ty ex (AtExternRef n) = do { c \<leftarrow> cxx_name_of ex n; Some (''const ::'' @ c @ ''&'') }"
| "arg_cxx_ty ex AtF64 = Some ''double''"
| "arg_cxx_ty ex (AtSliceStruct n) = Some (''rust::Slice<const '' @ n @ ''>'')"
| "arg_cxx_ty ex (AtVisitorMut n) = Some (n @ '' &'')"

definition arg_cxx :: "extern_ty list \<Rightarrow> arg_ty \<Rightarrow> string \<Rightarrow> string option" where
  "arg_cxx ex ty arg_name = do { t \<leftarrow> arg_cxx_ty ex ty; Some (t @ '' '' @ arg_name) }"

definition visitor_rust :: "(string \<Rightarrow> bool) \<Rightarrow> bool \<Rightarrow> arg_ty \<Rightarrow> token list option" where
  "visitor_rust ok ffi_qualified ty =
     (case (ffi_qualified, ty) of
        (True, AtSliceStruct n) \<Rightarrow>
          do { i \<leftarrow> format_ident ok n; Some (wrap_slice [Ident ''ffi'', Punct ''::'', i]) }
      | _ \<Rightarrow> arg_rust ok ty)"

fun shape_rust :: "(string \<Rightarrow> bool) \<Rightarrow> ret_shape \<Rightarrow> token list option" where
  "shape_rust ok RsUnit = Some [Punct ''('', Punct '')'']"
| "shape_rust ok (RsScalar s) = Some [Ident (scalar_rust s)]"
| "shape_rust ok RsString = Some [Ident ''String'']"
| "shape_rust ok (RsExtern n) = do { i \<leftarrow> format_ident ok n; Some [i] }"
| "shape_rust ok (RsShared n) = do { i \<leftarrow> format_ident ok n; Some [i] }"
| "shape_rust ok (RsUniquePtr n) = do { i \<leftarrow> format_ident ok n; Some (wrap_generic ''UniquePtr'' [i]) }"
| "shape_rust ok (RsVec n) = do { i \<leftarrow> format_ident ok n; Some (wrap_generic ''Vec'' [i]) }"
| "shape_rust ok (RsVecScalar s) = Some (wrap_generic ''Vec'' [Ident (scalar_rust s)])"

fun shape_cxx :: "extern_ty list \<Rightarrow> ret_shape \<Rightarrow> string option" where
  "shape_cxx ex RsUnit = Some ''void''"
| "shape_cxx ex (RsScalar s) = Some (scalar_cxx s)"
| "shape_cxx ex RsString = Some ''rust::String''"
| "shape_cxx ex (RsExtern n) = do { c \<leftarrow> cxx_name_of ex n; Some (''::'' @ c) }"
| "shape_cxx ex (RsShared n) = Some n"
| "shape_cxx ex (RsUniquePtr n) = do { c \<leftarrow> cxx_name_of ex n; Some (''std::unique_ptr<::'' @ c @ ''>'') }"
| "shape_cxx ex (RsVec n) = do { c \<leftarrow> vec_elem_cxx ex n; Some (''rust::Vec<'' @ c @ ''>'') }"
| "shape_cxx ex (RsVecScalar s) = Some (''rust::Vec<'' @ scalar_cxx s @ ''>'')"

fun ret_rust :: "(string \<Rightarrow> bool) \<Rightarrow> ret_kind \<Rightarrow> token list option" where
  "ret_rust ok (RkValue RsUnit) = Some []"
| "ret_rust ok (RkValue s) = do { t \<leftarrow> shape_rust ok s; Some (Punct ''->'' # t) }"
| "ret_rust ok (RkFallible s) = do { t \<leftarrow> shape_rust ok s; Some (Punct ''->'' # wrap_generic ''Result'' t) }"

definition ret_cxx :: "extern_ty list \<Rightarrow> ret_kind \<Rightarrow> string option" where
  "ret_cxx ex r = shape_cxx ex (ret_shape_of r)"

end
