(* ===== verification/Bridge_Emit.thy ===== *)
theory Bridge_Emit
  imports Bridge_Spec
begin

text \<open>
  What the binding generator writes (\<open>emit.rs\<close>, \<open>lib.rs\<close>): the items of the Rust bridge as tokens, the
  C++ header and the bodies of a domain as text, and the visitor bridge. The list of domains, which the
  generator keeps in a global, is an argument where an emitter reads it.
\<close>

subsection \<open>Fixed tokens\<close>

fun split_words :: "string \<Rightarrow> string \<Rightarrow> string list" where
  "split_words w [] = (if w = [] then [] else [rev w])"
| "split_words w (c # cs) =
     (if c = CHR '' '' then (if w = [] then split_words [] cs else rev w # split_words [] cs)
      else split_words (c # w) cs)"

definition word_token :: "string \<Rightarrow> token" where
  "word_token w =
     (case w of
        c # _ \<Rightarrow>
          if c = CHR ''_'' \<or> (CHR ''a'' \<le> c \<and> c \<le> CHR ''z'') \<or> (CHR ''A'' \<le> c \<and> c \<le> CHR ''Z'')
          then Ident w else Punct w
      | [] \<Rightarrow> Punct w)"

text \<open>The tokens of a fixed text, written with a space between two of them.\<close>

definition toks :: "string \<Rightarrow> token list" where
  "toks s = map word_token (split_words [] s)"

definition attr :: "string \<Rightarrow> token list" where
  "attr s = Punct ''#'' # Punct ''['' # toks s @ [Punct '']'']"

definition allow_attr :: "string \<Rightarrow> token list" where
  "allow_attr lint = attr (''allow ( clippy :: '' @ lint @ '' )'')"

definition braces :: "token list \<Rightarrow> token list" where
  "braces ts = Punct ''{'' # ts @ [Punct ''}'']"

definition concat_some :: "('a \<Rightarrow> token list option) \<Rightarrow> 'a list \<Rightarrow> token list option" where
  "concat_some f xs = map_option concat (traverse f xs)"

subsection \<open>Extern types and shared structs\<close>

definition extern_field_tokens :: "(string \<Rightarrow> bool) \<Rightarrow> field \<Rightarrow> token list option" where
  "extern_field_tokens ok f =
     do { i \<leftarrow> format_ident ok (fd_name f);
          t \<leftarrow> field_rust ok (fd_ty f);
          Some (doc_attr (fd_doc f) @ [Ident ''pub'', i, Punct '':''] @ t @ [Punct '','']) }"

definition extern_impl_tokens :: "string \<Rightarrow> token \<Rightarrow> string \<Rightarrow> string \<Rightarrow> token list" where
  "extern_impl_tokens safety rust_id cxx_name kind =
     doc_attr safety @ toks ''unsafe impl cxx :: ExternType for'' @ [rust_id] @
     braces (toks ''type Id = cxx :: type_id ! ('' @ [StrLit cxx_name] @ toks '') ;'' @
             toks (''type Kind = cxx :: kind :: '' @ kind @ '' ;''))"

definition extern_tokens :: "(string \<Rightarrow> bool) \<Rightarrow> extern_ty \<Rightarrow> token list option" where
  "extern_tokens ok e =
     do { rust_id \<leftarrow> format_ident ok (xt_rust_name e);
          (case xt_kind e of
             Trivial fs \<Rightarrow>
               do { decls \<leftarrow> concat_some (extern_field_tokens ok) fs;
                    Some (doc_attr (xt_doc e) @ attr ''repr ( C )'' @
                      attr ''derive ( Clone , Copy , PartialEq , Eq , Debug )'' @
                      toks ''pub struct'' @ [rust_id] @ braces decls @
                      extern_impl_tokens (xt_safety e) rust_id (xt_cxx_name e) ''Trivial'') }
           | Opaque \<Rightarrow>
               Some (doc_attr (xt_doc e) @ attr ''repr ( C )'' @ toks ''pub struct'' @ [rust_id] @
                 braces (toks ''_private : :: cxx :: private :: Opaque ,'') @
                 extern_impl_tokens (xt_safety e) rust_id (xt_cxx_name e) ''Opaque'')) }"

definition struct_field_tokens :: "(string \<Rightarrow> bool) \<Rightarrow> field \<Rightarrow> token list option" where
  "struct_field_tokens ok f =
     do { i \<leftarrow> format_ident ok (fd_name f);
          t \<leftarrow> field_rust ok (fd_ty f);
          Some (doc_attr (fd_doc f) @ [i, Punct '':''] @ t @ [Punct '','']) }"

definition shared_struct_tokens :: "(string \<Rightarrow> bool) \<Rightarrow> shared_struct \<Rightarrow> token list option" where
  "shared_struct_tokens ok s =
     do { sid \<leftarrow> format_ident ok (ss_name s);
          fs \<leftarrow> concat_some (struct_field_tokens ok) (ss_fields s);
          Some (doc_attr (ss_doc s) @ [Ident ''struct'', sid] @ braces fs) }"

subsection \<open>The bridge items of a domain\<close>

definition arg_decl :: "(string \<Rightarrow> bool) \<Rightarrow> arg \<Rightarrow> token list option" where
  "arg_decl ok a =
     do { an \<leftarrow> format_ident ok (ag_name a);
          at \<leftarrow> arg_rust ok (ag_ty a);
          Some (an # Punct '':'' # at) }"

definition recv_decl :: "(string \<Rightarrow> bool) \<Rightarrow> string option \<Rightarrow> token list option" where
  "recv_decl ok recv =
     (case recv of
        None \<Rightarrow> Some []
      | Some r \<Rightarrow>
          do { rid \<leftarrow> format_ident ok r;
               Some [Ident ''self'', Punct '':'', Punct ''&'', rid, Punct '','']} )"

definition fn_tokens :: "(string \<Rightarrow> bool) \<Rightarrow> fn_spec \<Rightarrow> token list option" where
  "fn_tokens ok f =
     do { name \<leftarrow> format_ident ok (sp_name f);
          recv \<leftarrow> recv_decl ok (sp_receiver f);
          args \<leftarrow> traverse (arg_decl ok) (sp_args f);
          ret \<leftarrow> ret_rust ok (sp_ret f);
          Some (doc_attr (sp_doc f) @
            (if is_must_use (sp_ret f) then attr ''must_use'' else []) @
            [Ident ''fn'', name, Punct ''(''] @ recv @ comma_sep args @ [Punct '')''] @ ret @ [Punct '';'']) }"

definition alias_tokens :: "(string \<Rightarrow> bool) \<Rightarrow> extern_ty \<Rightarrow> token list option" where
  "alias_tokens ok e =
     do { i \<leftarrow> format_ident ok (xt_rust_name e);
          Some ([Punct ''#'', Punct ''['', Ident ''namespace'', Punct ''='', StrLit [], Punct '']''] @
            [Punct ''#'', Punct ''['', Ident ''cxx_name'', Punct ''='', StrLit (xt_cxx_name e), Punct '']''] @
            [Ident ''type'', i, Punct ''='', Ident ''super'', Punct ''::'', i, Punct '';'']) }"

text \<open>\<open>sort_unstable\<close> and \<open>dedup\<close> on names: in the order of their bytes.\<close>

definition sort_dedup :: "string list \<Rightarrow> string list" where
  "sort_dedup xs = remdups_adj (sort xs)"

definition unique_names :: "fn_spec list \<Rightarrow> string list" where
  "unique_names fns = List.map_filter (\<lambda>f. case ret_shape_of (sp_ret f) of RsUniquePtr n \<Rightarrow> Some n | _ \<Rightarrow> None) fns"

definition vec_names :: "extern_ty list \<Rightarrow> fn_spec list \<Rightarrow> string list" where
  "vec_names ex fns =
     List.map_filter (\<lambda>f. case ret_shape_of (sp_ret f) of
         RsVec n \<Rightarrow> if extern_exists ex n then Some n else None | _ \<Rightarrow> None) fns"

definition container_impls :: "(string \<Rightarrow> bool) \<Rightarrow> extern_ty list \<Rightarrow> domain_spec \<Rightarrow> token list option" where
  "container_impls ok ex d =
     do { us \<leftarrow> concat_some (\<lambda>n. do { i \<leftarrow> format_ident ok n;
              Some (Ident ''impl'' # wrap_generic ''UniquePtr'' [i] @ braces []) })
              (sort_dedup (unique_names (dm_fns d)));
          vs \<leftarrow> concat_some (\<lambda>n. do { i \<leftarrow> format_ident ok n;
              Some (Ident ''impl'' # wrap_generic ''Vec'' [i] @ braces []) })
              (sort_dedup (vec_names ex (dm_fns d)));
          Some (us @ vs) }"

definition ffi_tokens :: "(string \<Rightarrow> bool) \<Rightarrow> extern_ty list \<Rightarrow> domain_spec \<Rightarrow> token list option" where
  "ffi_tokens ok ex d =
     do { structs \<leftarrow> concat_some (shared_struct_tokens ok) (dm_structs d);
          aliases \<leftarrow> concat_some (alias_tokens ok) (dm_externs d);
          fns \<leftarrow> concat_some (fn_tokens ok) (dm_fns d);
          impls \<leftarrow> container_impls ok ex d;
          Some (structs @ toks ''unsafe extern'' @ [StrLit ''C++''] @
            braces (toks ''include ! ('' @ [StrLit (domain_header d)] @ toks '') ;'' @ aliases @ fns) @ impls) }"

subsection \<open>The C++ side of a domain\<close>

fun join_strs :: "string \<Rightarrow> string list \<Rightarrow> string" where
  "join_strs sep [] = []"
| "join_strs sep [x] = x"
| "join_strs sep (x # y # zs) = x @ sep @ join_strs sep (y # zs)"

definition recv_cxx :: "extern_ty list \<Rightarrow> string option \<Rightarrow> string list option" where
  "recv_cxx ex recv =
     (case recv of
        None \<Rightarrow> Some []
      | Some r \<Rightarrow> do { c \<leftarrow> cxx_name_of ex r; Some [''const ::'' @ c @ ''& self''] })"

definition cxx_signature :: "extern_ty list \<Rightarrow> fn_spec \<Rightarrow> string option" where
  "cxx_signature ex f =
     do { recv \<leftarrow> recv_cxx ex (sp_receiver f);
          args \<leftarrow> traverse (\<lambda>a. arg_cxx ex (ag_ty a) (ag_name a)) (sp_args f);
          ret \<leftarrow> ret_cxx ex (sp_ret f);
          Some (ret @ '' '' @ sp_name f @ ''('' @ join_strs '', '' (recv @ args) @ '')'') }"

definition body_lines :: "string \<Rightarrow> body_kind \<Rightarrow> string option" where
  "body_lines cast body =
     (case body of
        BkScalarCall call \<Rightarrow> Some (ln (''  return static_cast<'' @ cast @ ''>('' @ call @ '');''))
      | BkSegScalar accessor null_sentinel \<Rightarrow>
          Some (ln ''  segment_info_t si;'' @
            ln (''  return get_segment_info_by_num(&si, n) ? static_cast<'' @ cast @ ''>(si.'' @ accessor @
                '') : static_cast<'' @ cast @ ''>('' @ null_sentinel @ '');''))
      | BkSegString call require_positive \<Rightarrow>
          Some (ln ''  ea_t ea = get_segment_ea_by_num(n);'' @ ln ''  if (ea == BADADDR)'' @
            ln (''    throw std::out_of_range('' @ [CHR 0x22] @ ''no segment at index'' @ [CHR 0x22] @ '');'') @
            ln ''  qstring out;'' @
            (if require_positive
             then ln (''  if ('' @ call @ '' <= 0)'') @
               ln (''    throw std::runtime_error('' @ [CHR 0x22] @ ''segment has no class'' @ [CHR 0x22] @ '');'')
             else ln (''  '' @ call @ '';'')) @
            ln ''  return to_rust_string(out);'')
      | BkRendered b \<Rightarrow> Some b
      | BkCustom \<Rightarrow> None)"

text \<open>The outer option is a panic, the inner one a body written by hand.\<close>

definition body_source :: "extern_ty list \<Rightarrow> fn_spec \<Rightarrow> string option option" where
  "body_source ex f =
     do { sg \<leftarrow> cxx_signature ex f;
          cast \<leftarrow> ret_cxx ex (sp_ret f);
          Some (map_option (\<lambda>body. ln (sg @ '' {'') @ body @ ln ''}'' @ ln []) (body_lines cast (sp_body f))) }"

text \<open>\<open>any\<close>: the functions after the first templated one are not looked at.\<close>

fun any_body :: "extern_ty list \<Rightarrow> fn_spec list \<Rightarrow> bool option" where
  "any_body ex [] = Some False"
| "any_body ex (f # fs) =
     do { b \<leftarrow> body_source ex f;
          (if b \<noteq> None then Some True else any_body ex fs) }"

definition has_templated_body :: "extern_ty list \<Rightarrow> domain_spec \<Rightarrow> bool option" where
  "has_templated_body ex d = any_body ex (dm_fns d)"

definition include_line :: "string \<Rightarrow> string" where
  "include_line inc = ln (''#include '' @ inc)"

definition quoted :: "string \<Rightarrow> string" where
  "quoted s = CHR 0x22 # s @ [CHR 0x22]"

definition fn_decl_lines :: "extern_ty list \<Rightarrow> fn_spec \<Rightarrow> string option" where
  "fn_decl_lines ex f =
     (if sp_receiver f \<noteq> None then Some [] else map_option (\<lambda>sg. ln (sg @ '';'')) (cxx_signature ex f))"

definition header_source :: "extern_ty list \<Rightarrow> domain_spec \<Rightarrow> string option" where
  "header_source ex d =
     do { decls \<leftarrow> traverse (fn_decl_lines ex) (dm_fns d);
          Some (ln ''#pragma once'' @ ln [] @
            include_line ''<cstddef>'' @ include_line ''<cstdint>'' @ include_line ''<memory>'' @ ln [] @
            include_line ''<pro.h>'' @ include_line ''<ida.hpp>'' @
            concat (map include_line (dm_sdk_includes d)) @
            ln [] @ include_line (quoted ''trycatch.h'') @ include_line (quoted ''gen_helpers.h'') @ ln [] @
            ln (''namespace '' @ NAMESPACE @ '' {'') @ ln [] @
            concat (map cxx_lines (dm_consts d)) @ (if dm_consts d \<noteq> [] then ln [] else []) @
            concat (map (\<lambda>s. ln (''struct '' @ ss_name s @ '';'')) (dm_structs d)) @
            (if dm_structs d \<noteq> [] then ln [] else []) @
            concat decls @ ln [] @ ln (''} // namespace '' @ NAMESPACE)) }"

definition bodies_source :: "extern_ty list \<Rightarrow> domain_spec \<Rightarrow> string option option" where
  "bodies_source ex d =
     do { bodies \<leftarrow> traverse (body_source ex) (dm_fns d);
          Some (if \<not> list_ex (\<lambda>b. b \<noteq> None) bodies then None
            else Some (ln (''// GENERATED by idakit-sys-codegen from the '' @ dm_name d @
                '' domain spec; do not edit.'') @
              include_line ''<pro.h>'' @ include_line ''<ida.hpp>'' @
              concat (map include_line (dm_sdk_includes d)) @
              ln [] @ include_line (quoted (domain_header d)) @ ln [] @
              ln (''namespace '' @ NAMESPACE @ '' {'') @ ln [] @
              concat (List.map_filter (\<lambda>b. b) bodies) @
              ln (''} // namespace '' @ NAMESPACE))) }"

subsection \<open>The visitor bridge\<close>

definition too_many_args_allow :: "visitor_method \<Rightarrow> token list" where
  "too_many_args_allow m = (if length (vm_args m) > 7 then allow_attr ''too_many_arguments'' else [])"

definition visitor_arg_decl :: "(string \<Rightarrow> bool) \<Rightarrow> bool \<Rightarrow> arg \<Rightarrow> token list option" where
  "visitor_arg_decl ok qualified a =
     do { an \<leftarrow> format_ident ok (ag_name a);
          at \<leftarrow> visitor_rust ok qualified (ag_ty a);
          Some (an # Punct '':'' # at) }"

definition trait_method_tokens :: "(string \<Rightarrow> bool) \<Rightarrow> visitor_method \<Rightarrow> token list option" where
  "trait_method_tokens ok m =
     do { name \<leftarrow> format_ident ok (vm_name m);
          args \<leftarrow> traverse (visitor_arg_decl ok True) (vm_args m);
          ret \<leftarrow> ret_rust ok (vm_ret m);
          Some (doc_attr (vm_doc m) @ too_many_args_allow m @ [Ident ''fn'', name] @ toks ''( & mut self ,'' @
            comma_sep args @ [Punct '')''] @ ret @ [Punct '';'']) }"

definition sink_trait_tokens :: "(string \<Rightarrow> bool) \<Rightarrow> visitor_sink \<Rightarrow> token list option" where
  "sink_trait_tokens ok s =
     do { name \<leftarrow> format_ident ok (vs_sink_name s);
          methods \<leftarrow> concat_some (trait_method_tokens ok) (vs_methods s);
          Some (doc_attr (vs_sink_doc s) @ toks ''pub trait'' @ [name] @ braces methods) }"

definition forward_method_tokens :: "(string \<Rightarrow> bool) \<Rightarrow> visitor_method \<Rightarrow> token list option" where
  "forward_method_tokens ok m =
     do { name \<leftarrow> format_ident ok (vm_name m);
          args \<leftarrow> traverse (visitor_arg_decl ok True) (vm_args m);
          arg_names \<leftarrow> traverse (\<lambda>a. format_ident ok (ag_name a)) (vm_args m);
          ret \<leftarrow> ret_rust ok (vm_ret m);
          Some (too_many_args_allow m @ [Ident ''fn'', name] @ toks ''( & mut self ,'' @ comma_sep args @
            [Punct '')''] @ ret @
            braces (toks ''self . sink ( ) .'' @ [name, Punct ''(''] @ comma_sep (map (\<lambda>n. [n]) arg_names) @
              [Punct '')''])) }"

definition visitor_impl_tokens :: "(string \<Rightarrow> bool) \<Rightarrow> visitor_sink \<Rightarrow> token list option" where
  "visitor_impl_tokens ok s =
     do { vname \<leftarrow> format_ident ok (vs_visitor_name s);
          sname \<leftarrow> format_ident ok (vs_sink_name s);
          methods \<leftarrow> concat_some (forward_method_tokens ok) (vs_methods s);
          Some (doc_attr (vs_visitor_doc s) @ toks ''pub struct'' @ [vname] @
            braces (toks ''sink : NonNull < dyn'' @ [sname] @ toks ''> ,'') @
            [Ident ''impl'', vname] @
            braces (doc_attr '' Reborrow the erased sink for one callback.'' @ doc_attr [] @
              doc_attr '' # Safety'' @
              doc_attr '' The pointer is valid and unaliased for the walk (single-threaded, non-reentrant,'' @
              doc_attr '' the walk holds the only borrow).'' @
              toks ''fn sink ( & mut self ) -> & mut dyn'' @ [sname] @
              braces (Ident ''unsafe'' # braces (toks ''self . sink . as_mut ( )'')) @ methods)) }"

definition extern_method_tokens :: "(string \<Rightarrow> bool) \<Rightarrow> token \<Rightarrow> visitor_method \<Rightarrow> token list option" where
  "extern_method_tokens ok vname m =
     do { name \<leftarrow> format_ident ok (vm_name m);
          args \<leftarrow> traverse (visitor_arg_decl ok False) (vm_args m);
          ret \<leftarrow> ret_rust ok (vm_ret m);
          Some (too_many_args_allow m @ [Ident ''fn'', name] @ toks ''( self : & mut'' @ [vname, Punct '',''] @
            comma_sep args @ [Punct '')''] @ ret @ [Punct '';'']) }"

definition extern_rust_tokens :: "(string \<Rightarrow> bool) \<Rightarrow> visitor_sink \<Rightarrow> token list option" where
  "extern_rust_tokens ok s =
     do { vname \<leftarrow> format_ident ok (vs_visitor_name s);
          methods \<leftarrow> concat_some (extern_method_tokens ok vname) (vs_methods s);
          Some (Ident ''extern'' # StrLit ''Rust'' # braces ([Ident ''type'', vname, Punct '';''] @ methods)) }"

definition driver_tokens :: "(string \<Rightarrow> bool) \<Rightarrow> visitor_driver \<Rightarrow> token list option" where
  "driver_tokens ok d =
     do { name \<leftarrow> format_ident ok (vd_name d);
          args \<leftarrow> traverse (arg_decl ok) (vd_args d);
          ret \<leftarrow> ret_rust ok (vd_ret d);
          Some (doc_attr (vd_doc d) @
            (if vd_unsafe d then allow_attr ''missing_safety_doc'' @ [Ident ''unsafe''] else []) @
            [Ident ''fn'', name, Punct ''(''] @ comma_sep args @ [Punct '')''] @ ret @ [Punct '';'']) }"

definition visitor_mod_tokens :: "(string \<Rightarrow> bool) \<Rightarrow> visitor_bridge \<Rightarrow> token list option" where
  "visitor_mod_tokens ok b =
     do { structs \<leftarrow> concat_some (shared_struct_tokens ok) (vb_structs b);
          sinks \<leftarrow> concat_some (extern_rust_tokens ok) (vb_sinks b);
          drivers \<leftarrow> concat_some (driver_tokens ok) (vb_drivers b);
          Some (toks ''# [ cxx :: bridge ( namespace ='' @ [StrLit ''bridge''] @ toks '') ] mod ffi'' @
            braces (structs @ sinks @ toks ''unsafe extern'' @ [StrLit ''C++''] @
              braces (toks ''include ! ('' @ [StrLit ''ctree_bridge.h''] @ toks '') ; include ! ('' @
                [StrLit ''typewalk_bridge.h''] @ toks '') ;'' @
                doc_attr '' The same `cfuncptr_t` the `gen` bridge's `hexrays` domain bound; this'' @
                doc_attr '' is a type alias, not a fresh opaque type, so a decompiled function feeds'' @
                doc_attr '' `cfunc_walk_ctree` with no conversion.'' @
                toks ''# [ namespace ='' @ [StrLit []] @ toks ''] # [ cxx_name ='' @ [StrLit ''cfuncptr_t''] @
                toks ''] type CFunc = crate :: bridge_gen :: CFunc ;'' @ drivers))) }"

definition visitor_bridge_tokens :: "(string \<Rightarrow> bool) \<Rightarrow> visitor_bridge \<Rightarrow> token list option" where
  "visitor_bridge_tokens ok b =
     do { sinks \<leftarrow> concat_some (\<lambda>s. do { t \<leftarrow> sink_trait_tokens ok s; i \<leftarrow> visitor_impl_tokens ok s; Some (t @ i) })
            (vb_sinks b);
          m \<leftarrow> visitor_mod_tokens ok b;
          Some (sinks @ m) }"

subsection \<open>The whole bridge\<close>

definition all_externs :: "domain_spec list \<Rightarrow> extern_ty list" where
  "all_externs ds = concat (map dm_externs ds)"

definition bridge_tokens :: "(string \<Rightarrow> bool) \<Rightarrow> domain_spec list \<Rightarrow> token list option" where
  "bridge_tokens ok ds =
     do { externs \<leftarrow> concat_some (extern_tokens ok) (all_externs ds);
          items \<leftarrow> concat_some (ffi_tokens ok (all_externs ds)) ds;
          Some (externs @ toks ''# [ cxx :: bridge ( namespace ='' @ [StrLit NAMESPACE] @
            toks '') ] mod ffi'' @ braces items) }"

definition reexport_tokens :: "(string \<Rightarrow> bool) \<Rightarrow> domain_spec list \<Rightarrow> token list option" where
  "reexport_tokens ok ds =
     concat_some (\<lambda>f. case sp_alias f of
         None \<Rightarrow> Some []
       | Some alias \<Rightarrow>
           do { name \<leftarrow> format_ident ok (sp_name f);
                Some (toks ''# [ doc ( alias ='' @ [StrLit alias] @ toks '') ] pub use ffi ::'' @
                  [name, Punct '';'']) }) (concat (map dm_fns ds))"

definition consts_tokens :: "(string \<Rightarrow> bool) \<Rightarrow> domain_spec list \<Rightarrow> token list option" where
  "consts_tokens ok ds = concat_some (rust_item_tokens ok) (concat (map dm_consts ds))"

definition facade_consts_tokens ::
  "(string \<Rightarrow> bool) \<Rightarrow> const_def list \<Rightarrow> const_def list \<Rightarrow> token list option" where
  "facade_consts_tokens ok facade hidden =
     do { a \<leftarrow> concat_some (rust_item_tokens ok) facade;
          b \<leftarrow> concat_some (rust_item_tokens_hidden ok) hidden;
          Some (a @ b) }"

definition facade_consts_header_source :: "const_def list \<Rightarrow> const_def list \<Rightarrow> string" where
  "facade_consts_header_source facade hidden =
     ln ''#pragma once'' @ ln [] @ include_line ''<cstdint>'' @ ln [] @
     ln (''namespace '' @ NAMESPACE @ '' {'') @ ln [] @
     concat (map cxx_lines (facade @ hidden)) @ ln [] @ ln (''} // namespace '' @ NAMESPACE)"

subsection \<open>The files to compile\<close>

definition domain_body_tus :: "domain_spec list \<Rightarrow> string list option" where
  "domain_body_tus ds =
     map_option (\<lambda>ts. map (\<lambda>(d, _). bodies_file d) (filter snd (zip ds ts)))
       (traverse (has_templated_body (all_externs ds)) ds)"

definition body_tus :: "domain_spec list \<Rightarrow> string list option" where
  "body_tus ds = map_option (\<lambda>ts. [''gen_bridge.cc'', ''gen_visitors.cc''] @ ts) (domain_body_tus ds)"

definition custom_tus :: "domain_spec list \<Rightarrow> string list" where
  "custom_tus ds = concat (map dm_custom_tus ds)"

end
