(* ===== verification/Bridge_Faces.thy ===== *)
theory Bridge_Faces
  imports Bridge_Emit Text
begin

text \<open>
  That the faces of a generated binding agree. The reference is the mapping of types that \<open>cxx\<close>
  documents: a reader takes the tokens of a Rust declaration apart and spells the C++ prototype that
  \<open>cxx\<close> expects for it. The other reference reads literals back, on both sides.
\<close>

subsection \<open>The mapping of types\<close>

definition builtin_cxx :: "string \<Rightarrow> string option" where
  "builtin_cxx n =
     map_of [(''bool'', ''bool''), (''i32'', ''int32_t''), (''i64'', ''int64_t''), (''u8'', ''uint8_t''),
       (''u16'', ''uint16_t''), (''u32'', ''uint32_t''), (''u64'', ''uint64_t''), (''usize'', ''size_t''),
       (''f64'', ''double''), (''String'', ''rust::String'')] n"

text \<open>A type of a domain is spelled after its C++ symbol if it is an extern type, and by its own name if not.\<close>

definition spelling :: "extern_ty list \<Rightarrow> string \<Rightarrow> string" where
  "spelling ex n = (case cxx_name_of ex n of Some c \<Rightarrow> ''::'' @ c | None \<Rightarrow> n)"

definition named_cxx :: "extern_ty list \<Rightarrow> string \<Rightarrow> string" where
  "named_cxx ex n = (case builtin_cxx n of Some c \<Rightarrow> c | None \<Rightarrow> spelling ex n)"

definition single_ident :: "token list \<Rightarrow> string option" where
  "single_ident ts = (case ts of [t] \<Rightarrow> (case t of Ident n \<Rightarrow> Some n | _ \<Rightarrow> None) | _ \<Rightarrow> None)"

definition cxx_reference :: "extern_ty list \<Rightarrow> token list \<Rightarrow> string option" where
  "cxx_reference ex ts =
     (if ts = [Ident ''str''] then Some ''rust::Str''
      else if take 1 ts = [Ident ''mut''] then
        do { n \<leftarrow> single_ident (drop 1 ts); Some (named_cxx ex n @ '' &'') }
      else if take 1 ts = [Punct ''[''] \<and> drop 2 ts = [Punct '']''] then
        do { n \<leftarrow> single_ident (take 1 (drop 1 ts)); Some (''rust::Slice<const '' @ named_cxx ex n @ ''>'') }
      else do { n \<leftarrow> single_ident ts; Some (''const '' @ named_cxx ex n @ ''&'') })"

definition cxx_type :: "extern_ty list \<Rightarrow> token list \<Rightarrow> string option" where
  "cxx_type ex ts =
     (if take 1 ts = [Punct ''&''] then cxx_reference ex (drop 1 ts)
      else if drop 1 (take 2 ts) = [Punct ''<''] \<and> drop 3 ts = [Punct ''>''] then
        do { n \<leftarrow> single_ident (take 1 (drop 2 ts));
             if take 1 ts = [Ident ''Vec''] then Some (''rust::Vec<'' @ named_cxx ex n @ ''>'')
             else if take 1 ts = [Ident ''UniquePtr''] then Some (''std::unique_ptr<'' @ named_cxx ex n @ ''>'')
             else None }
      else do { n \<leftarrow> single_ident ts; Some (named_cxx ex n) })"

lemmas cxx_type_defs = cxx_type_def cxx_reference_def single_ident_def

definition cxx_payload :: "extern_ty list \<Rightarrow> token list \<Rightarrow> string option" where
  "cxx_payload ex ts = (if ts = [Punct ''('', Punct '')''] then Some ''void'' else cxx_type ex ts)"

text \<open>A function that may throw has the type of its payload on the C++ side.\<close>

definition cxx_return :: "extern_ty list \<Rightarrow> token list \<Rightarrow> string option" where
  "cxx_return ex ts =
     (case ts of
        [] \<Rightarrow> Some ''void''
      | arrow # t \<Rightarrow>
          if arrow \<noteq> Punct ''->'' then None
          else if take 2 t = [Ident ''Result'', Punct ''<''] \<and> last t = Punct ''>''
          then cxx_payload ex (butlast (drop 2 t))
          else cxx_payload ex t)"

subsection \<open>Reading a declaration\<close>

fun skip_attrs :: "nat \<Rightarrow> token list \<Rightarrow> token list" where
  "skip_attrs 0 ts = ts"
| "skip_attrs (Suc n) ts =
     (if take 1 ts = [Punct ''#''] then skip_attrs n (drop 1 (dropWhile (\<lambda>t. t \<noteq> Punct '']'') ts)) else ts)"

fun split_commas :: "token list \<Rightarrow> token list \<Rightarrow> token list list" where
  "split_commas acc [] = (if acc = [] then [] else [acc])"
| "split_commas acc (t # ts) =
     (if t = Punct '','' then acc # split_commas [] ts else split_commas (acc @ [t]) ts)"

definition cxx_param :: "extern_ty list \<Rightarrow> token list \<Rightarrow> string option" where
  "cxx_param ex p =
     (case p of
        Ident n # colon # ty \<Rightarrow>
          if colon = Punct '':'' then map_option (\<lambda>t. t @ '' '' @ n) (cxx_type ex ty) else None
      | _ \<Rightarrow> None)"

text \<open>
  What \<open>cxx\<close> expects on the C++ side of a declaration: a function of the namespace, or, where the first
  parameter is a \<open>self\<close> by shared reference, a \<open>const\<close> member of the class of the receiver, which has
  the parameters after it.
\<close>

datatype cxx_decl = FreeFunction string | ConstMember string string

definition receiver_class :: "extern_ty list \<Rightarrow> token list \<Rightarrow> string option" where
  "receiver_class ex p =
     (if take 3 p = [Ident ''self'', Punct '':'', Punct ''&'']
      then map_option (named_cxx ex) (single_ident (drop 3 p)) else None)"

definition cxx_callable :: "extern_ty list \<Rightarrow> string \<Rightarrow> token list list \<Rightarrow> token list \<Rightarrow> string option" where
  "cxx_callable ex name params ret =
     do { ps \<leftarrow> traverse (cxx_param ex) params;
          r \<leftarrow> cxx_return ex ret;
          Some (r @ '' '' @ name @ ''('' @ join_strs '', '' ps @ '')'') }"

definition cxx_decl_of :: "extern_ty list \<Rightarrow> string \<Rightarrow> token list list \<Rightarrow> token list \<Rightarrow> cxx_decl option" where
  "cxx_decl_of ex name params ret =
     (case Option.bind (if params = [] then None else Some (hd params)) (receiver_class ex) of
        Some cls \<Rightarrow> map_option (ConstMember cls) (cxx_callable ex name (tl params) ret)
      | None \<Rightarrow> map_option FreeFunction (cxx_callable ex name params ret))"

definition cxx_prototype :: "extern_ty list \<Rightarrow> token list \<Rightarrow> cxx_decl option" where
  "cxx_prototype ex decl =
     (case skip_attrs 2 decl of
        Ident kw # Ident name # paren # rest \<Rightarrow>
          if kw = ''fn'' \<and> paren = Punct ''('' then
            cxx_decl_of ex name (split_commas [] (takeWhile (\<lambda>t. t \<noteq> Punct '')'') rest))
              (butlast (drop 1 (dropWhile (\<lambda>t. t \<noteq> Punct '')'') rest)))
          else None
      | _ \<Rightarrow> None)"

subsection \<open>Names that mean one thing\<close>

text \<open>
  A name a specification gives to a type of its own is none of the built-in ones, a shared struct or a
  visitor is not also an extern type, and no argument is named as a receiver is.
\<close>

definition own_name :: "string \<Rightarrow> bool" where
  "own_name n \<longleftrightarrow> builtin_cxx n = None \<and> n \<noteq> ''str'' \<and> n \<noteq> ''mut''"

fun arg_ok :: "extern_ty list \<Rightarrow> arg_ty \<Rightarrow> bool" where
  "arg_ok ex (AtExtern n) = own_name n"
| "arg_ok ex (AtExternRef n) = own_name n"
| "arg_ok ex (AtSliceStruct n) = (own_name n \<and> \<not> extern_exists ex n)"
| "arg_ok ex (AtVisitorMut n) = (own_name n \<and> \<not> extern_exists ex n)"
| "arg_ok ex _ = True"

fun shape_ok :: "extern_ty list \<Rightarrow> ret_shape \<Rightarrow> bool" where
  "shape_ok ex (RsExtern n) = own_name n"
| "shape_ok ex (RsUniquePtr n) = own_name n"
| "shape_ok ex (RsShared n) = (own_name n \<and> \<not> extern_exists ex n)"
| "shape_ok ex (RsVec n) = own_name n"
| "shape_ok ex _ = True"

definition fn_ok :: "extern_ty list \<Rightarrow> fn_spec \<Rightarrow> bool" where
  "fn_ok ex f \<longleftrightarrow>
     list_all (\<lambda>a. arg_ok ex (ag_ty a)) (sp_args f) \<and> list_all (\<lambda>a. ag_name a \<noteq> ''self'') (sp_args f) \<and>
     shape_ok ex (ret_shape_of (sp_ret f)) \<and>
     (case sp_receiver f of Some r \<Rightarrow> own_name r | None \<Rightarrow> True)"

lemma format_ident_Some [simp]: "format_ident ok n = Some t \<longleftrightarrow> ok n \<and> t = Ident n"
  by (auto simp: format_ident_def)

lemma named_scalar [simp]: "named_cxx ex (scalar_rust s) = scalar_cxx s"
  by (cases s) (simp_all add: named_cxx_def builtin_cxx_def)

lemma scalar_not_str [simp]: "scalar_rust s \<noteq> ''str''" "scalar_rust s \<noteq> ''mut''"
  by (cases s; simp)+

lemma named_builtin [simp]:
  "named_cxx ex ''u8'' = ''uint8_t''" "named_cxx ex ''f64'' = ''double''" "named_cxx ex ''String'' = ''rust::String''"
  by (simp_all add: named_cxx_def builtin_cxx_def)

lemma own_name_not: "own_name n \<Longrightarrow> n \<noteq> ''str''" "own_name n \<Longrightarrow> n \<noteq> ''mut''"
  by (auto simp: own_name_def)

lemma spelling_extern: "cxx_name_of ex n = Some c \<Longrightarrow> spelling ex n = ''::'' @ c"
  by (simp add: spelling_def)

lemma spelling_own: "\<not> extern_exists ex n \<Longrightarrow> spelling ex n = n"
  by (simp add: spelling_def extern_exists_def cxx_name_of_def)

lemma named_own: "own_name n \<Longrightarrow> named_cxx ex n = spelling ex n"
  by (simp add: own_name_def named_cxx_def)

lemma extern_exists_iff: "extern_exists ex n \<longleftrightarrow> cxx_name_of ex n \<noteq> None"
  by (simp add: extern_exists_def cxx_name_of_def)

lemma cxx_type_eval [simp]:
  "cxx_type ex [Ident n] = Some (named_cxx ex n)"
  "cxx_type ex [Punct ''&'', Ident ''str''] = Some ''rust::Str''"
  "own_name n \<Longrightarrow> cxx_type ex [Punct ''&'', Ident n] = Some (''const '' @ spelling ex n @ ''&'')"
  "cxx_type ex [Punct ''&'', Ident ''mut'', Ident n] = Some (named_cxx ex n @ '' &'')"
  "cxx_type ex (wrap_slice [Ident n]) = Some (''rust::Slice<const '' @ named_cxx ex n @ ''>'')"
  "cxx_type ex (wrap_generic ''Vec'' [Ident n]) = Some (''rust::Vec<'' @ named_cxx ex n @ ''>'')"
  "cxx_type ex (wrap_generic ''UniquePtr'' [Ident n]) = Some (''std::unique_ptr<'' @ named_cxx ex n @ ''>'')"
  by (simp_all add: cxx_type_defs wrap_slice_def wrap_generic_def own_name_not named_own)

lemma cxx_payload_eval [simp]:
  "cxx_payload ex [Punct ''('', Punct '')''] = Some ''void''"
  "cxx_payload ex [Ident n] = cxx_type ex [Ident n]"
  "cxx_payload ex (wrap_generic w ts) = cxx_type ex (wrap_generic w ts)"
  by (simp_all add: cxx_payload_def wrap_generic_def)

lemma arg_agrees:
  assumes "arg_ok ex ty" and "arg_rust ok ty = Some ts" and "arg_cxx_ty ex ty = Some c"
  shows "cxx_type ex ts = Some c"
  using assms by (cases ty) (auto simp: named_own spelling_extern spelling_own)

lemma shape_agrees:
  assumes "shape_ok ex s" and "shape_rust ok s = Some ts" and "shape_cxx ex s = Some c"
  shows "cxx_payload ex ts = Some c"
  using assms
  by (cases s) (auto simp: named_own spelling_extern spelling_own vec_elem_cxx_def split: if_splits)

lemma shape_not_result:
  assumes "shape_rust ok s = Some ts"
  shows "take 2 ts \<noteq> [Ident ''Result'', Punct ''<'']"
  using assms by (cases s) (auto simp: wrap_generic_def)

lemma ret_agrees:
  assumes "shape_ok ex (ret_shape_of r)" and "ret_rust ok r = Some ts" and "ret_cxx ex r = Some c"
  shows "cxx_return ex ts = Some c"
proof (cases r)
  case (RkValue s)
  show ?thesis
  proof (cases "s = RsUnit")
    case True
    with assms RkValue show ?thesis by (simp add: cxx_return_def ret_cxx_def)
  next
    case False
    then have "ret_rust ok r = do { t \<leftarrow> shape_rust ok s; Some (Punct ''->'' # t) }"
      using RkValue by (cases s) simp_all
    with assms(2) obtain t where t: "shape_rust ok s = Some t" "ts = Punct ''->'' # t" by auto
    with shape_agrees [of ex s ok t c] shape_not_result [OF t(1)] assms RkValue show ?thesis
      by (simp add: cxx_return_def ret_cxx_def)
  qed
next
  case (RkFallible s)
  with assms(2) obtain t where t: "shape_rust ok s = Some t" "ts = Punct ''->'' # wrap_generic ''Result'' t"
    by auto
  with shape_agrees [of ex s ok t c] assms RkFallible show ?thesis
    by (simp add: cxx_return_def ret_cxx_def wrap_generic_def)
qed

subsection \<open>Taking a declaration apart\<close>

definition plain_tokens :: "token list \<Rightarrow> bool" where
  "plain_tokens ts \<longleftrightarrow> ts \<noteq> [] \<and> Punct '','' \<notin> set ts \<and> Punct '')'' \<notin> set ts"

lemma split_commas_plain:
  "Punct '','' \<notin> set ts \<Longrightarrow> split_commas acc (ts @ us) = split_commas (acc @ ts) us"
  by (induction ts arbitrary: acc) auto

lemma split_commas_sep:
  "list_all plain_tokens xss \<Longrightarrow> split_commas [] (comma_sep xss) = xss"
proof (induction xss rule: comma_sep.induct)
  case (2 x)
  with split_commas_plain [of x "[]" "[]"] show ?case by (simp add: plain_tokens_def)
next
  case (3 x y zs)
  with split_commas_plain [of x "[]" "Punct '','' # comma_sep (y # zs)"] show ?case
    by (simp add: plain_tokens_def)
qed simp

lemma comma_sep_no_paren: "list_all plain_tokens xss \<Longrightarrow> t \<in> set (comma_sep xss) \<Longrightarrow> t \<noteq> Punct '')''"
  by (induction xss rule: comma_sep.induct) (auto simp: plain_tokens_def)

lemma arg_rust_plain: "arg_rust ok ty = Some ts \<Longrightarrow> plain_tokens ts"
  by (cases ty) (auto simp: plain_tokens_def wrap_slice_def)

lemma arg_decl_plain: "arg_decl ok a = Some ts \<Longrightarrow> plain_tokens ts"
  using arg_rust_plain by (auto simp: arg_decl_def plain_tokens_def)

lemma decl_agrees:
  assumes "arg_ok ex (ag_ty a)" and "arg_decl ok a = Some ts" and "arg_cxx ex (ag_ty a) (ag_name a) = Some c"
  shows "cxx_param ex ts = Some c"
  using assms arg_agrees [OF assms(1)] by (fastforce simp: arg_decl_def arg_cxx_def cxx_param_def)

lemma skip_doc [simp]:
  "skip_attrs (Suc n) (doc_attr d @ ts) = skip_attrs n ts"
  by (simp add: doc_attr_def)

lemma skip_must_use [simp]:
  "skip_attrs (Suc n) (attr ''must_use'' @ ts) = skip_attrs n ts"
  by (simp add: attr_def toks_def word_token_def)

lemma skip_none [simp]: "skip_attrs n (Ident w # ts) = Ident w # ts"
  by (cases n) simp_all

declare skip_attrs.simps [simp del]

text \<open>The parameters of a declaration, the receiver first.\<close>

definition recv_params :: "string option \<Rightarrow> token list list" where
  "recv_params r = (case r of None \<Rightarrow> [] | Some n \<Rightarrow> [[Ident ''self'', Punct '':'', Punct ''&'', Ident n]])"

lemma recv_params_split:
  assumes "recv_decl ok r = Some rs" and "list_all plain_tokens args"
  shows "split_commas [] (rs @ comma_sep args) = recv_params r @ args \<and> Punct '')'' \<notin> set rs"
proof (cases r)
  case None
  with assms split_commas_sep [OF assms(2)] show ?thesis by (simp add: recv_decl_def recv_params_def)
next
  case (Some n)
  with assms(1) have "rs = [Ident ''self'', Punct '':'', Punct ''&'', Ident n, Punct '','']"
    by (simp add: recv_decl_def)
  with Some split_commas_sep [OF assms(2)] show ?thesis by (simp add: recv_params_def)
qed

lemma traverse_params:
  assumes "traverse (arg_decl ok) as = Some tss" and "list_all (\<lambda>a. arg_ok ex (ag_ty a)) as"
    and "traverse (\<lambda>a. arg_cxx ex (ag_ty a) (ag_name a)) as = Some cs"
  shows "traverse (cxx_param ex) tss = Some cs \<and> list_all plain_tokens tss"
  using assms
proof (induction as arbitrary: tss cs)
  case (Cons a as)
  from Cons.prems(1) obtain t ts where t: "arg_decl ok a = Some t" "traverse (arg_decl ok) as = Some ts" "tss = t # ts"
    by auto
  from Cons.prems(3) obtain c cs' where c: "arg_cxx ex (ag_ty a) (ag_name a) = Some c"
    "traverse (\<lambda>a. arg_cxx ex (ag_ty a) (ag_name a)) as = Some cs'" "cs = c # cs'"
    by auto
  from Cons.prems(2) have ok: "arg_ok ex (ag_ty a)" "list_all (\<lambda>a. arg_ok ex (ag_ty a)) as" by simp_all
  from Cons.IH [OF t(2) ok(2) c(2)] decl_agrees [OF ok(1) t(1) c(1)] arg_decl_plain [OF t(1)] show ?case
    by (simp add: t(3) c(3))
qed simp

lemma arg_decl_no_receiver:
  assumes "traverse (arg_decl ok) as = Some tss" and "list_all (\<lambda>a. ag_name a \<noteq> ''self'') as"
  shows "Option.bind (if tss = [] then None else Some (hd tss)) (receiver_class ex) = None"
proof (cases as)
  case Nil
  with assms(1) show ?thesis by simp
next
  case (Cons a as')
  with assms(1) obtain t ts where t: "arg_decl ok a = Some t" "tss = t # ts" by auto
  from t(1) have "hd t = Ident (ag_name a)" "t \<noteq> []" by (auto simp: arg_decl_def)
  then have "take 3 t \<noteq> [Ident ''self'', Punct '':'', Punct ''&'']"
    using assms(2) Cons by (cases t) (auto simp: numeral_3_eq_3)
  with t(2) show ?thesis by (simp add: receiver_class_def)
qed

text \<open>
  What \<open>cxx\<close> expects for the Rust declaration of a function is what the generator declares: for a free
  function its signature, for a member nothing but the class, which the SDK declares.
\<close>

theorem bridge_faces_agree:
  assumes "fn_ok ex f" and "fn_tokens ok f = Some ts" and "cxx_signature ex f = Some sg"
  shows "case sp_receiver f of
      None \<Rightarrow> cxx_prototype ex ts = Some (FreeFunction sg)
    | Some r \<Rightarrow> \<exists>c m. cxx_name_of ex r = Some c \<and> cxx_prototype ex ts = Some (ConstMember (''::'' @ c) m)"
proof -
  from assms(2) obtain rs as ret where t: "recv_decl ok (sp_receiver f) = Some rs"
    "traverse (arg_decl ok) (sp_args f) = Some as" "ret_rust ok (sp_ret f) = Some ret"
    "ts = doc_attr (sp_doc f) @ (if is_must_use (sp_ret f) then attr ''must_use'' else []) @
      [Ident ''fn'', Ident (sp_name f), Punct ''(''] @ rs @ comma_sep as @ [Punct '')''] @ ret @ [Punct '';'']"
    by (auto simp: fn_tokens_def)
  from assms(3) obtain rc cs c where c: "recv_cxx ex (sp_receiver f) = Some rc"
    "traverse (\<lambda>a. arg_cxx ex (ag_ty a) (ag_name a)) (sp_args f) = Some cs" "ret_cxx ex (sp_ret f) = Some c"
    "sg = c @ '' '' @ sp_name f @ ''('' @ join_strs '', '' (rc @ cs) @ '')''"
    by (auto simp: cxx_signature_def)
  from assms(1) have ok: "list_all (\<lambda>a. arg_ok ex (ag_ty a)) (sp_args f)"
    "list_all (\<lambda>a. ag_name a \<noteq> ''self'') (sp_args f)"
    "shape_ok ex (ret_shape_of (sp_ret f))" "case sp_receiver f of Some r \<Rightarrow> own_name r | None \<Rightarrow> True"
    by (auto simp: fn_ok_def)
  note as = traverse_params [OF t(2) ok(1) c(2)]
  note ps = recv_params_split [OF t(1) conjunct2 [OF as]]
  let ?ps = "recv_params (sp_receiver f)"
  have no: "\<forall>x \<in> set (rs @ comma_sep as). x \<noteq> Punct '')''"
    using ps comma_sep_no_paren [OF conjunct2 [OF as]] by auto
  have "takeWhile (\<lambda>x. x \<noteq> Punct '')'') (rs @ comma_sep as @ [Punct '')''] @ ret @ [Punct '';'']) = rs @ comma_sep as"
    and "dropWhile (\<lambda>x. x \<noteq> Punct '')'') (rs @ comma_sep as @ [Punct '')''] @ ret @ [Punct '';'']) =
      [Punct '')''] @ ret @ [Punct '';'']"
    using no takeWhile_append2 [of "rs @ comma_sep as" "\<lambda>x. x \<noteq> Punct '')''"]
      dropWhile_append2 [of "rs @ comma_sep as" "\<lambda>x. x \<noteq> Punct '')''"]
    by simp_all
  moreover have "skip_attrs 2 ts =
      [Ident ''fn'', Ident (sp_name f), Punct ''(''] @ rs @ comma_sep as @ [Punct '')''] @ ret @ [Punct '';'']"
    by (simp add: t(4) numeral_2_eq_2)
  moreover have "split_commas [] (rs @ comma_sep as) = ?ps @ as" using ps by blast
  ultimately have read: "cxx_prototype ex ts = cxx_decl_of ex (sp_name f) (?ps @ as) ret"
    by (simp add: cxx_prototype_def)
  have call: "cxx_callable ex (sp_name f) as ret =
      Some (c @ '' '' @ sp_name f @ ''('' @ join_strs '', '' cs @ '')'')"
    using as ret_agrees [OF ok(3) t(3) c(3)] by (simp add: cxx_callable_def)
  show ?thesis
  proof (cases "sp_receiver f")
    case None
    then show ?thesis
      using read call arg_decl_no_receiver [OF t(2) ok(2), of ex] c(1,4)
      by (simp add: cxx_decl_of_def recv_params_def recv_cxx_def)
  next
    case (Some r)
    with c(1) obtain k where k: "cxx_name_of ex r = Some k" by (auto simp: recv_cxx_def)
    have "receiver_class ex [Ident ''self'', Punct '':'', Punct ''&'', Ident r] = Some (''::'' @ k)"
      using ok(4) Some k by (simp add: receiver_class_def single_ident_def named_own spelling_extern)
    with Some read call k show ?thesis by (simp add: cxx_decl_of_def recv_params_def)
  qed
qed

subsection \<open>Literals\<close>

text \<open>Digits in groups of three from the right, by recursion on what is left of the last group.\<close>

function triples :: "string \<Rightarrow> string" where
  "triples ds =
     (if length ds \<le> 3 then ds
      else triples (take (length ds - 3) ds) @ ''_'' @ drop (length ds - 3) ds)"
  by pat_completeness auto
termination by (relation "measure length") auto

declare triples.simps [simp del]

definition grouped :: "nat \<Rightarrow> nat \<Rightarrow> string \<Rightarrow> string" where
  "grouped n k ds =
     concat (map (\<lambda>(i, c). (if i > 0 \<and> 3 dvd (n - i) then ''_'' else []) @ [c]) (enumerate k ds))"

lemma grouped_simps [simp]:
  "grouped n k [] = []"
  "grouped n k (d # ds) = (if k > 0 \<and> 3 dvd (n - k) then ''_'' else []) @ d # grouped n (Suc k) ds"
  by (simp_all add: grouped_def)

lemma grouped_append: "grouped n k (as @ bs) = grouped n k as @ grouped n (k + length as) bs"
  by (induction as arbitrary: k) simp_all

lemma grouped_later:
  "k + length as \<le> m \<Longrightarrow> grouped (m + 3) k as = grouped m k as"
proof (induction as arbitrary: k)
  case (Cons a as)
  from Cons.prems have "m + 3 - k = (m - k) + 3" by simp
  then have "3 dvd (m + 3 - k) \<longleftrightarrow> 3 dvd (m - k)" by (simp only: dvd_add_triv_right_iff)
  moreover have "grouped (m + 3) (Suc k) as = grouped m (Suc k) as" using Cons.prems by (intro Cons.IH) simp
  ultimately show ?case by (simp only: grouped_simps)
qed simp

lemma not_three_dvd: "\<not> 3 dvd Suc 0" "\<not> 3 dvd Suc (Suc 0)"
  by presburger+

lemma group_digits_grouped: "group_digits ds = grouped (length ds) 0 ds"
  by (simp add: group_digits_def grouped_def)

lemma length_three: "length xs = 3 \<Longrightarrow> \<exists>x y z. xs = [x, y, z]"
  by (auto simp: numeral_3_eq_3 length_Suc_conv)

lemma group_digits_triples: "group_digits ds = triples ds"
proof (induction ds rule: triples.induct)
  case (1 ds)
  show ?case
  proof (cases "length ds \<le> 3")
    case True
    then consider "ds = []" | a where "ds = [a]" | a b where "ds = [a, b]" | a b c where "ds = [a, b, c]"
      by (cases ds; cases "tl ds"; cases "tl (tl ds)") (auto simp: Suc_length_conv le_Suc_eq)
    then show ?thesis by cases (simp_all add: group_digits_grouped triples.simps not_three_dvd)
  next
    case False
    let ?m = "length ds - 3"
    have "length (drop ?m ds) = 3" using False by simp
    from length_three [OF this] obtain x y z where last: "drop ?m ds = [x, y, z]" by blast
    have n: "length ds = ?m + 3" using False by simp
    have "group_digits ds = grouped (?m + 3) 0 (take ?m ds @ [x, y, z])"
      using n by (simp add: group_digits_grouped flip: last)
    also have "\<dots> = grouped ?m 0 (take ?m ds) @ grouped (?m + 3) ?m [x, y, z]"
    proof -
      have "grouped (?m + 3) 0 (take ?m ds) = grouped ?m 0 (take ?m ds)" by (rule grouped_later) simp
      moreover have "0 + length (take ?m ds) = ?m" by simp
      ultimately show ?thesis by (simp only: grouped_append)
    qed
    also have "grouped (?m + 3) ?m [x, y, z] = ''_'' @ [x, y, z]"
    proof -
      have "?m + 3 - Suc ?m = Suc (Suc 0)" "?m + 3 - Suc (Suc ?m) = Suc 0" by simp_all
      then show ?thesis using False not_three_dvd by simp
    qed
    also have "grouped ?m 0 (take ?m ds) = triples (take ?m ds)"
      using 1 False by (simp add: group_digits_grouped)
    finally show ?thesis using False by (simp add: triples.simps [of ds] last)
  qed
qed

definition read_digits :: "string \<Rightarrow> int option" where
  "read_digits s =
     (if s = [] then None else map_option (\<lambda>vs. int (foldl (\<lambda>acc v. 10 * acc + v) 0 vs)) (traverse digit_value s))"

definition read_rust :: "token list \<Rightarrow> int option" where
  "read_rust ts =
     (case ts of
        [NumLit d] \<Rightarrow> read_digits (filter (\<lambda>c. c \<noteq> CHR ''_'') d)
      | [p, NumLit d] \<Rightarrow>
          if p = Punct ''-'' then map_option uminus (read_digits (filter (\<lambda>c. c \<noteq> CHR ''_'') d)) else None
      | _ \<Rightarrow> None)"

definition read_cxx :: "string \<Rightarrow> int option" where
  "read_cxx s =
     (let body = (if drop (length s - 3) s = ''ULL'' then take (length s - 3) s else s)
      in case body of
           c # ds \<Rightarrow> if c = CHR ''-'' then map_option uminus (read_digits ds) else read_digits body
         | [] \<Rightarrow> None)"

lemma grouped_filter: "CHR ''_'' \<notin> set ds \<Longrightarrow> filter (\<lambda>c. c \<noteq> CHR ''_'') (grouped n k ds) = ds"
  by (induction ds arbitrary: k) auto

lemma show_nat_no: "\<not> (48 \<le> byte c \<and> byte c \<le> 57) \<Longrightarrow> c \<notin> set (show_nat n)"
  using show_nat_plain by blast

lemma show_nat_chars: "CHR ''_'' \<notin> set (show_nat n)" "CHR ''-'' \<notin> set (show_nat n)" "CHR ''L'' \<notin> set (show_nat n)"
  by (rule show_nat_no, simp)+

lemma show_nat_nonempty: "show_nat n \<noteq> []"
  using show_nat_digits [of n] by (auto simp: show_nat_def)

lemma read_digits_show [simp]: "read_digits (show_nat n) = Some (int n)"
  using show_nat_digits [of n] by (auto simp: read_digits_def show_nat_def)

lemma read_cxx_plain:
  assumes "CHR ''L'' \<notin> set s"
  shows "read_cxx s = (case s of c # ds \<Rightarrow> if c = CHR ''-'' then map_option uminus (read_digits ds) else read_digits s
      | [] \<Rightarrow> None)"
proof -
  have "drop (length s - 3) s \<noteq> ''ULL''"
  proof
    assume "drop (length s - 3) s = ''ULL''"
    then have "CHR ''L'' \<in> set (drop (length s - 3) s)" by simp
    with assms show False by (meson in_set_dropD)
  qed
  then show ?thesis by (simp add: read_cxx_def)
qed

lemma read_cxx_suffix: "CHR ''L'' \<notin> set s \<Longrightarrow> read_cxx (s @ ''ULL'') = read_cxx s"
proof -
  assume "CHR ''L'' \<notin> set s"
  from read_cxx_plain [OF this] show ?thesis by (simp add: read_cxx_def)
qed

lemma show_int_no_L: "CHR ''L'' \<notin> set (show_int v)"
  using show_nat_chars by (simp add: show_int_def)

lemma read_show_int: "read_cxx (show_int v) = Some v"
proof -
  obtain c ds where "show_nat (nat v) = c # ds" using show_nat_nonempty by (cases "show_nat (nat v)") auto
  moreover from this have "c \<noteq> CHR ''-''" using show_nat_chars(2) [of "nat v"] by auto
  moreover have "read_digits (show_nat (nat v)) = Some (int (nat v))" by simp
  ultimately show ?thesis by (simp add: read_cxx_plain [OF show_int_no_L]) (simp add: show_int_def)
qed

text \<open>
  C39: a generated constant has the same value on both sides: read back without its underscores the
  Rust literal is the value, sign and all, and so is the C++ literal without its suffix. The digits
  of the Rust literal stand in groups of three from the right. Only a boolean constant is refused.
\<close>

theorem literals_read_back:
  "(case rust_value_tokens c of
      None \<Rightarrow> cd_ty c = ScBool
    | Some ts \<Rightarrow> cd_ty c \<noteq> ScBool \<and> read_rust ts = Some (cd_value c) \<and>
        last ts = NumLit (triples (show_nat (nat \<bar>cd_value c\<bar>)))) \<and>
   read_cxx (cxx_literal c) = Some (cd_value c)"
proof -
  have f: "filter (\<lambda>x. x \<noteq> CHR ''_'') (group_digits (show_nat n)) = show_nat n" for n
    unfolding group_digits_grouped by (rule grouped_filter [OF show_nat_chars(1)])
  have "read_cxx (cxx_literal c) = Some (cd_value c)"
    using read_cxx_suffix [OF show_int_no_L] read_show_int by (simp add: cxx_literal_def)
  moreover have "read_rust [NumLit (group_digits (show_nat n))] = Some (int n)" for n
    by (simp add: read_rust_def f)
  moreover have "read_rust [Punct ''-'', NumLit (group_digits (show_nat n))] = Some (- int n)" for n
    by (simp add: read_rust_def f)
  ultimately show ?thesis
    by (simp add: rust_value_tokens_def Let_def flip: group_digits_triples)
qed

end
