(* ===== verification/Bridge_Netnode.thy ===== *)
theory Bridge_Netnode
  imports Bridge_Faces
begin

text \<open>
  The netnode domain (\<open>domains/netnode.rs\<close>), the one domain built by code: a matrix of array families,
  keyings and operations, each cell a binding with its C++ body, after the bindings written by hand.
\<close>

subsection \<open>Bodies\<close>

definition nn_body :: "string \<Rightarrow> string" where
  "nn_body stmts = ln ''  netnode n(static_cast<nodeidx_t>(node));'' @ stmts"

definition nn_return :: "string \<Rightarrow> string" where
  "nn_return expr = nn_body (ln (''  return '' @ expr @ '';''))"

definition EMPTY_VALUE_GUARD :: string where
  "EMPTY_VALUE_GUARD = ln ''  if (value.empty())'' @ ln ''    return false;''"

definition OVERSIZE_VALUE_GUARD :: string where
  "OVERSIZE_VALUE_GUARD = ln ''  if (value.size() > static_cast<size_t>(MAXSPECSIZE))'' @ ln ''    return false;''"

definition throw_line :: "string \<Rightarrow> string" where
  "throw_line msg = ln (''    throw std::runtime_error('' @ quoted msg @ '');'')"

definition nn_clamped_bytes :: "string \<Rightarrow> string \<Rightarrow> string" where
  "nn_clamped_bytes call unset_msg =
     ln ''  uint8_t buf[MAXSPECSIZE];'' @ ln (''  ssize_t r = '' @ call @ '';'') @ ln ''  if (r < 0)'' @
     throw_line unset_msg @
     ln ''  size_t len = static_cast<size_t>(r) < sizeof(buf) ? static_cast<size_t>(r) : sizeof(buf);'' @
     ln ''  return to_rust_bytes(buf, len);''"

definition nn_key_body :: "string \<Rightarrow> string" where
  "nn_key_body stmts = ln ''  std::string k(key);'' @ nn_body stmts"

definition nn_key_return :: "string \<Rightarrow> string" where
  "nn_key_return expr = nn_key_body (ln (''  return '' @ expr @ '';''))"

text \<open>Fill a \<open>qstring\<close> by a call that is negative for an absent value, and return it.\<close>

definition string_stmts :: "string \<Rightarrow> string \<Rightarrow> string" where
  "string_stmts call msg =
     ln ''  qstring out;'' @ ln (''  if ('' @ call @ '' < 0)'') @ throw_line msg @ ln ''  return to_rust_string(out);''"

subsection \<open>Keyings\<close>

record key_axis =
  ka_suffix :: string
  ka_idx_name :: string
  ka_idx_ty :: arg_ty
  ka_idx_cxx :: string
  ka_at :: string
  ka_bit8 :: string

definition DEF :: key_axis where
  "DEF = \<lparr>ka_suffix = [], ka_idx_name = ''idx'', ka_idx_ty = AtScalar ScU64, ka_idx_cxx = ''nodeidx_t'',
     ka_at = ''at `idx`'', ka_bit8 = []\<rparr>"

definition EA :: key_axis where
  "EA = \<lparr>ka_suffix = ''_ea'', ka_idx_name = ''ea'', ka_idx_ty = AtScalar ScU64, ka_idx_cxx = ''ea_t'',
     ka_at = ''keyed by address `ea`'', ka_bit8 = []\<rparr>"

definition IDX8 :: key_axis where
  "IDX8 = \<lparr>ka_suffix = ''_idx8'', ka_idx_name = ''idx'', ka_idx_ty = AtScalar ScU32, ka_idx_cxx = ''uchar'',
     ka_at = ''at 8-bit index `idx`'', ka_bit8 = ''8-bit ''\<rparr>"

abbreviation "node_arg \<equiv> new_arg ''node'' (AtScalar ScU64)"
abbreviation "tag_arg \<equiv> new_arg ''tag'' (AtScalar ScU32)"
abbreviation "ret_u64 \<equiv> RkValue (RsScalar ScU64)"
abbreviation "ret_bool \<equiv> RkValue (RsScalar ScBool)"
abbreviation "ret_bytes \<equiv> RkFallible (RsVecScalar ScU8)"
abbreviation "ret_string \<equiv> RkFallible RsString"

definition cast_to :: "string \<Rightarrow> string \<Rightarrow> string" where
  "cast_to ty e = ''static_cast<'' @ ty @ ''>('' @ e @ '')''"

text \<open>\<open>static_cast<uchar>(tag)\<close>.\<close>

definition tag8 :: string where "tag8 = cast_to ''uchar'' ''tag''"

subsection \<open>Families\<close>


definition iteration :: "string \<Rightarrow> key_axis \<Rightarrow> fn_spec list" where
  "iteration fam k =
    (let suf = ka_suffix k in [
     rendered (''netnode_'' @ fam @ ''first'' @ suf)
       [node_arg, tag_arg]
       (ret_u64) (''Lowest populated '' @ ka_bit8 k @ fam @ '' index under `tag`, or `BADNODE` when the array is empty.'')
       (nn_return (cast_to ''uint64_t'' (''n.'' @ fam @ ''first'' @ suf @ ''('' @ tag8 @ '')''))),
     rendered (''netnode_'' @ fam @ ''next'' @ suf)
       [node_arg, new_arg ''cur'' (ka_idx_ty k), tag_arg]
       (ret_u64) (''Next populated '' @ ka_bit8 k @ fam @ '' index after `cur` under `tag`, or `BADNODE` when none.'')
       (nn_return (cast_to ''uint64_t'' (''n.'' @ fam @ ''next'' @ suf @ ''('' @ cast_to (ka_idx_cxx k) ''cur'' @ '', '' @ tag8 @ '')''))),
     rendered (''netnode_'' @ fam @ ''last'' @ suf)
       [node_arg, tag_arg]
       (ret_u64) (''Highest populated '' @ ka_bit8 k @ fam @ '' index under `tag`, or `BADNODE` when the array is empty.'')
       (nn_return (cast_to ''uint64_t'' (''n.'' @ fam @ ''last'' @ suf @ ''('' @ tag8 @ '')''))),
     rendered (''netnode_'' @ fam @ ''prev'' @ suf)
       [node_arg, new_arg ''cur'' (ka_idx_ty k), tag_arg]
       (ret_u64) (''Previous populated '' @ ka_bit8 k @ fam @ '' index before `cur` under `tag`, or `BADNODE` when none.'')
       (nn_return (cast_to ''uint64_t'' (''n.'' @ fam @ ''prev'' @ suf @ ''('' @ cast_to (ka_idx_cxx k) ''cur'' @ '', '' @ tag8 @ '')'')))])"

definition shift_fn :: "string \<Rightarrow> fn_spec" where
  "shift_fn fam =
     rendered (''netnode_'' @ fam @ ''shift'')
       [node_arg, new_arg ''from'' (AtScalar ScU64), new_arg ''to'' (AtScalar ScU64), new_arg ''size'' (AtScalar ScU64), tag_arg]
       (RkValue (RsScalar ScUsize)) (''Shift the '' @ fam @ '' array under `tag`; the number of elements moved.'')
       (nn_return (''n.'' @ fam @ ''shift('' @ cast_to ''nodeidx_t'' ''from'' @ '', '' @ cast_to ''nodeidx_t'' ''to'' @ '', '' @
         cast_to ''nodeidx_t'' ''size'' @ '', '' @ tag8 @ '')''))"

definition del_all_fn :: "string \<Rightarrow> fn_spec" where
  "del_all_fn fam =
     rendered (''netnode_'' @ fam @ ''del_all'')
       [node_arg, tag_arg]
       (ret_bool) (''Delete the entire '' @ fam @ '' array under `tag`.'')
       (nn_return (''n.'' @ fam @ ''del_all('' @ tag8 @ '')''))"

definition alt_keyed :: "key_axis \<Rightarrow> fn_spec list" where
  "alt_keyed k =
    (let suf = ka_suffix k in [
     rendered (''netnode_altval'' @ suf)
       [node_arg, new_arg (ka_idx_name k) (ka_idx_ty k), tag_arg]
       (ret_u64) (''Alt value '' @ ka_at k @ '' under `tag`, or `0` when unset.'')
       (nn_return (cast_to ''uint64_t'' (''n.altval'' @ suf @ ''('' @ cast_to (ka_idx_cxx k) (ka_idx_name k) @ '', '' @ tag8 @ '')''))),
     rendered (''netnode_altset'' @ suf)
       [node_arg, new_arg (ka_idx_name k) (ka_idx_ty k), new_arg ''value'' (AtScalar ScU64), tag_arg]
       (ret_bool) (''Set the alt value '' @ ka_at k @ '' under `tag` to `value`.'')
       (nn_return (''n.altset'' @ suf @ ''('' @ cast_to (ka_idx_cxx k) (ka_idx_name k) @ '', '' @ cast_to ''nodeidx_t'' ''value'' @ '', '' @ tag8 @ '')'')),
     rendered (''netnode_altdel'' @ suf)
       [node_arg, new_arg (ka_idx_name k) (ka_idx_ty k), tag_arg]
       (ret_bool) (''Delete the alt value '' @ ka_at k @ '' under `tag`.'')
       (nn_return (''n.altdel'' @ suf @ ''('' @ cast_to (ka_idx_cxx k) (ka_idx_name k) @ '', '' @ tag8 @ '')''))])"

definition alt_family :: "fn_spec list" where
  "alt_family = concat (map alt_keyed [DEF, EA, IDX8]) @ iteration ''alt'' DEF @ iteration ''alt'' IDX8 @
     [shift_fn ''alt'', del_all_fn ''alt'']"

definition sup_keyed :: "key_axis \<Rightarrow> fn_spec list" where
  "sup_keyed k =
    (let suf = ka_suffix k in [
     rendered (''netnode_supval'' @ suf)
       [node_arg, new_arg (ka_idx_name k) (ka_idx_ty k), tag_arg]
       (ret_bytes) (''Sup value '' @ ka_at k @ '' under `tag` as raw bytes; `Err` when unset.'')
       (nn_body (nn_clamped_bytes
         (''n.supval'' @ suf @ ''('' @ cast_to (ka_idx_cxx k) (ka_idx_name k) @ '', buf, sizeof(buf), '' @ tag8 @ '')'') ''sup value is unset'')),
     rendered (''netnode_supstr'' @ suf)
       [node_arg, new_arg (ka_idx_name k) (ka_idx_ty k), tag_arg]
       (ret_string) (''Sup value '' @ ka_at k @ '' under `tag` as a string; `Err` when unset.'')
       (nn_body (string_stmts (''n.supstr'' @ suf @ ''(&out, '' @ cast_to (ka_idx_cxx k) (ka_idx_name k) @ '', '' @ tag8 @ '')'') ''sup value is unset'')),
     rendered (''netnode_supset'' @ suf)
       [node_arg, new_arg (ka_idx_name k) (ka_idx_ty k), new_arg ''value'' AtBytes, tag_arg]
       (ret_bool) (''Set the sup value '' @ ka_at k @ '' under `tag` (max `MAXSPECSIZE` bytes); `false` when `value` is empty or over the cap, either of which the SDK cannot store.'')
       (nn_body (EMPTY_VALUE_GUARD @ OVERSIZE_VALUE_GUARD @
         ln (''  return n.supset'' @ suf @ ''('' @ cast_to (ka_idx_cxx k) (ka_idx_name k) @ '', value.data(), value.size(), '' @ tag8 @ '');''))),
     rendered (''netnode_supdel'' @ suf)
       [node_arg, new_arg (ka_idx_name k) (ka_idx_ty k), tag_arg]
       (ret_bool) (''Delete the sup value '' @ ka_at k @ '' under `tag`.'')
       (nn_return (''n.supdel'' @ suf @ ''('' @ cast_to (ka_idx_cxx k) (ka_idx_name k) @ '', '' @ tag8 @ '')''))])"

definition sup_family :: "fn_spec list" where
  "sup_family = concat (map sup_keyed [DEF, EA, IDX8]) @ iteration ''sup'' DEF @ iteration ''sup'' IDX8 @ [
     rendered (''netnode_lower_bound'')
       [node_arg, new_arg ''cur'' (AtScalar ScU64), tag_arg]
       (ret_u64) (''Lowest populated sup index `>= cur` under `tag`, or `BADNODE` when none.'')
       (nn_return (cast_to ''uint64_t'' (''n.lower_bound('' @ cast_to ''nodeidx_t'' ''cur'' @ '', '' @ tag8 @ '')''))),
     rendered (''netnode_lower_bound_idx8'')
       [node_arg, new_arg ''idx'' (AtScalar ScU32), tag_arg]
       (ret_u64) (''Lowest populated 8-bit sup index at or after `idx` under `tag`, or `BADNODE` when none.'')
       (nn_return (cast_to ''uint64_t'' (''n.lower_bound_idx8('' @ cast_to ''uchar'' ''idx'' @ '', '' @ tag8 @ '')''))),
     shift_fn ''sup'',
     rendered (''netnode_supdel_range'')
       [node_arg, new_arg ''idx1'' (AtScalar ScU64), new_arg ''idx2'' (AtScalar ScU64), tag_arg]
       (RkValue (RsScalar ScI32)) (''Delete sup elements in `[idx1, idx2)` under `tag`; the number deleted.'')
       (nn_return (cast_to ''int32_t'' (''n.supdel_range('' @ cast_to ''nodeidx_t'' ''idx1'' @ '', '' @
         cast_to ''nodeidx_t'' ''idx2'' @ '', '' @ tag8 @ '')''))),
     del_all_fn ''sup'']"

definition hash_family :: "fn_spec list" where
  "hash_family = [
     rendered (''netnode_hashval'')
       [node_arg, new_arg ''key'' AtStr, tag_arg]
       (ret_bytes) (''Hash value for `key` under `tag` as raw bytes; `Err` when the key is unset.'')
       (nn_key_body (nn_clamped_bytes (''n.hashval(k.c_str(), buf, sizeof(buf), '' @ tag8 @ '')'') ''hash key is unset'')),
     rendered (''netnode_hashstr'')
       [node_arg, new_arg ''key'' AtStr, tag_arg]
       (ret_string) (''Hash value for `key` under `tag` as a string; `Err` when the key is unset.'')
       (nn_key_body (string_stmts (''n.hashstr(&out, k.c_str(), '' @ tag8 @ '')'') ''hash key is unset'')),
     rendered (''netnode_hashval_long'')
       [node_arg, new_arg ''key'' AtStr, tag_arg]
       (ret_u64) (''Hash value for `key` under `tag` decoded as an integer, or `0` when unset.'')
       (nn_key_return (cast_to ''uint64_t'' (''n.hashval_long(k.c_str(), '' @ tag8 @ '')''))),
     rendered (''netnode_hashset'')
       [node_arg, new_arg ''key'' AtStr, new_arg ''value'' AtBytes, tag_arg]
       (ret_bool) (''Set the hash value for `key` under `tag` (max `MAXSPECSIZE` bytes); `false` when `value` is empty or over the cap, either of which the SDK cannot store.'')
       (nn_key_body (EMPTY_VALUE_GUARD @ OVERSIZE_VALUE_GUARD @
         ln (''  return n.hashset(k.c_str(), value.data(), value.size(), '' @ tag8 @ '');''))),
     rendered (''netnode_hashset_long'')
       [node_arg, new_arg ''key'' AtStr, new_arg ''value'' (AtScalar ScU64), tag_arg]
       (ret_bool) (''Set the hash value for `key` under `tag` to the integer `value`.'')
       (nn_key_return (''n.hashset(k.c_str(), '' @ cast_to ''nodeidx_t'' ''value'' @ '', '' @ tag8 @ '')'')),
     rendered (''netnode_hashdel'')
       [node_arg, new_arg ''key'' AtStr, tag_arg]
       (ret_bool) (''Delete the hash value for `key` under `tag`.'')
       (nn_key_return (''n.hashdel(k.c_str(), '' @ tag8 @ '')'')),
     rendered (''netnode_hashfirst'')
       [node_arg, tag_arg]
       (ret_string) (''Lexically first hash key under `tag`; `Err` when the hash is empty.'')
       (nn_body (string_stmts (''n.hashfirst(&out, '' @ tag8 @ '')'') ''hash is empty'')),
     rendered (''netnode_hashnext'')
       [node_arg, new_arg ''key'' AtStr, tag_arg]
       (ret_string) (''Hash key after `key` under `tag`; `Err` when `key` is the last.'')
       (nn_key_body (string_stmts (''n.hashnext(&out, k.c_str(), '' @ tag8 @ '')'') ''no next hash key'')),
     rendered (''netnode_hashlast'')
       [node_arg, tag_arg]
       (ret_string) (''Lexically last hash key under `tag`; `Err` when the hash is empty.'')
       (nn_body (string_stmts (''n.hashlast(&out, '' @ tag8 @ '')'') ''hash is empty'')),
     rendered (''netnode_hashprev'')
       [node_arg, new_arg ''key'' AtStr, tag_arg]
       (ret_string) (''Hash key before `key` under `tag`; `Err` when `key` is the first.'')
       (nn_key_body (string_stmts (''n.hashprev(&out, k.c_str(), '' @ tag8 @ '')'') ''no previous hash key'')),
     del_all_fn ''hash'']"

definition char_keyed :: "key_axis \<Rightarrow> fn_spec list" where
  "char_keyed k =
    (let suf = ka_suffix k in [
     rendered (''netnode_charval'' @ suf)
       [node_arg, new_arg (ka_idx_name k) (ka_idx_ty k), tag_arg]
       (RkValue (RsScalar ScU32)) (''Char value '' @ ka_at k @ '' under `tag` (0..255), or `0` when unset.'')
       (nn_return (cast_to ''uint32_t'' (''n.charval'' @ suf @ ''('' @ cast_to (ka_idx_cxx k) (ka_idx_name k) @ '', '' @ tag8 @ '')''))),
     rendered (''netnode_charset'' @ suf)
       [node_arg, new_arg (ka_idx_name k) (ka_idx_ty k), new_arg ''value'' (AtScalar ScU32), tag_arg]
       (ret_bool) (''Set the char value '' @ ka_at k @ '' under `tag` (low 8 bits of `value`).'')
       (nn_return (''n.charset'' @ suf @ ''('' @ cast_to (ka_idx_cxx k) (ka_idx_name k) @ '', '' @ cast_to ''uchar'' ''value'' @ '', '' @ tag8 @ '')'')),
     rendered (''netnode_chardel'' @ suf)
       [node_arg, new_arg (ka_idx_name k) (ka_idx_ty k), tag_arg]
       (ret_bool) (''Delete the char value '' @ ka_at k @ '' under `tag`.'')
       (nn_return (''n.chardel'' @ suf @ ''('' @ cast_to (ka_idx_cxx k) (ka_idx_name k) @ '', '' @ tag8 @ '')''))])"

definition char_family :: "fn_spec list" where
  "char_family = concat (map char_keyed [DEF, EA, IDX8]) @ [shift_fn ''char'']"

definition blob_keyed :: "key_axis \<Rightarrow> fn_spec list" where
  "blob_keyed k =
    (let suf = ka_suffix k;
         (name, cast, desc) =
           (if suf = [] then (''start'', ''nodeidx_t'', ''index `start`'') else (''ea'', ''ea_t'', ''address `ea`'')) in [
     rendered (''netnode_blobsize'' @ suf)
       [node_arg, new_arg name (AtScalar ScU64), tag_arg]
       (RkValue (RsScalar ScUsize)) (''Byte length of the blob based at '' @ desc @ '' under `tag`, or `0` when absent.'')
       (nn_return (''n.blobsize'' @ suf @ ''('' @ cast_to cast name @ '', '' @ tag8 @ '')'')),
     rendered (''netnode_getblob'' @ suf)
       [node_arg, new_arg name (AtScalar ScU64), tag_arg]
       (ret_bytes) (''The blob based at '' @ desc @ '' under `tag` as owned bytes; `Err` when absent.'')
       (nn_body (ln ''  bytevec_t blob;'' @
         ln (''  ssize_t r = n.getblob'' @ suf @ ''(&blob, '' @ cast_to cast name @ '', '' @ tag8 @ '');'') @ ln ''  if (r < 0)'' @
         throw_line ''blob does not exist'' @ ln ''  return to_rust_bytes(blob.begin(), blob.size());'')),
     rendered (''netnode_setblob'' @ suf)
       [node_arg, new_arg ''value'' AtBytes, new_arg name (AtScalar ScU64), tag_arg]
       (ret_bool) (''Store `value` as the blob based at '' @ desc @ '' under `tag`.'')
       (nn_return (''n.setblob'' @ suf @ ''(value.data(), value.size(), '' @ cast_to cast name @ '', '' @ tag8 @ '')''))])"

definition blob_family :: "fn_spec list" where
  "blob_family = concat (map blob_keyed [DEF, EA]) @ [
     rendered (''netnode_delblob'')
       [node_arg, new_arg ''start'' (AtScalar ScU64), tag_arg]
       (RkValue (RsScalar ScI32)) (''Delete the blob based at index `start` under `tag`; the number of slots freed.'')
       (nn_return (cast_to ''int32_t'' (''n.delblob('' @ cast_to ''nodeidx_t'' ''start'' @ '', '' @ tag8 @ '')''))),
     shift_fn ''blob'']"

definition family_fns :: "fn_spec list" where
  "family_fns = alt_family @ sup_family @ hash_family @ char_family @ blob_family"

text \<open>The bindings written by hand, with their bodies in \<open>facade/netnode.cpp\<close>.\<close>

definition CUSTOM_FNS :: "fn_spec list" where
  \<open>CUSTOM_FNS =
   [
    fns_row ''Resolve the netnode named `name`, creating it when `create`; the node id, or `BADNODE` when it is absent and `create` is false.''
      ''netnode_by_name'' [new_arg ''name'' AtStr, new_arg ''create'' (AtScalar ScBool)] (RkValue (RsScalar ScU64)) BkCustom,
    fns_row ''Whether `node` has any information attached (a named or non-empty node).''
      ''netnode_exists'' [new_arg ''node'' (AtScalar ScU64)] (RkValue (RsScalar ScBool)) BkCustom,
    fns_row ''Whether a netnode named `name` exists, without creating it.''
      ''netnode_exists_name'' [new_arg ''name'' AtStr] (RkValue (RsScalar ScBool)) BkCustom,
    fns_row ''Delete `node` and every array attached to it.''
      ''netnode_kill'' [new_arg ''node'' (AtScalar ScU64)] (RkValue RsUnit) BkCustom,
    fns_row ''Name of `node`; `Err` when it is unnamed.''
      ''netnode_get_name'' [new_arg ''node'' (AtScalar ScU64)] (RkFallible RsString) BkCustom,
    fns_row ''Rename `node` to `name` (empty clears the name); `false` when `name` is taken.''
      ''netnode_rename'' [new_arg ''node'' (AtScalar ScU64), new_arg ''name'' AtStr] (RkValue (RsScalar ScBool)) BkCustom,
    fns_row ''Lowest-id existing netnode, or `BADNODE` when the database has none.''
      ''netnode_first'' [] (RkValue (RsScalar ScU64)) BkCustom,
    fns_row ''Highest-id existing netnode, or `BADNODE` when the database has none.''
      ''netnode_last'' [] (RkValue (RsScalar ScU64)) BkCustom,
    fns_row ''Next existing netnode after `cur`, or `BADNODE` when `cur` is the last.''
      ''netnode_next'' [new_arg ''cur'' (AtScalar ScU64)] (RkValue (RsScalar ScU64)) BkCustom,
    fns_row ''Previous existing netnode before `cur`, or `BADNODE` when `cur` is the first.''
      ''netnode_prev'' [new_arg ''cur'' (AtScalar ScU64)] (RkValue (RsScalar ScU64)) BkCustom,
    fns_row ''Copy (or move, when `move_`) `count` nodes starting at `node` onto `target`; the number of nodes affected.''
      ''netnode_copyto'' [new_arg ''node'' (AtScalar ScU64), new_arg ''count'' (AtScalar ScU64), new_arg ''target'' (AtScalar ScU64), new_arg ''move_'' (AtScalar ScBool)] (RkValue (RsScalar ScUsize)) BkCustom,
    fns_row ''The node value of `node` as raw bytes; `Err` when no value is set.''
      ''netnode_value'' [new_arg ''node'' (AtScalar ScU64)] (RkFallible (RsVecScalar ScU8)) BkCustom,
    fns_row ''The node value of `node` as a string; `Err` when no value is set.''
      ''netnode_value_str'' [new_arg ''node'' (AtScalar ScU64)] (RkFallible RsString) BkCustom,
    fns_row ''Set the node value of `node` (max `MAXSPECSIZE` bytes).''
      ''netnode_set_value'' [new_arg ''node'' (AtScalar ScU64), new_arg ''value'' AtBytes] (RkValue (RsScalar ScBool)) BkCustom,
    fns_row ''Delete the node value of `node`.''
      ''netnode_del_value'' [new_arg ''node'' (AtScalar ScU64)] (RkValue (RsScalar ScBool)) BkCustom]\<close>


definition sdk_alias :: "string \<Rightarrow> string option" where
  "sdk_alias fn_name =
     do { member \<leftarrow>
            (if fn_name = ''netnode_exists'' \<or> fn_name = ''netnode_exists_name'' then None
             else if fn_name = ''netnode_value'' then Some ''valobj''
             else if fn_name = ''netnode_value_str'' then Some ''valstr''
             else if fn_name = ''netnode_set_value'' then Some ''set''
             else if fn_name = ''netnode_del_value'' then Some ''delvalue''
             else if fn_name = ''netnode_hashset_long'' then Some ''hashset''
             else if fn_name = ''netnode_first'' then Some ''start''
             else if fn_name = ''netnode_last'' then Some ''end''
             else if fn_name = ''netnode_by_name'' then Some ''netnode''
             else strip_prefix ''netnode_'' fn_name);
          Some (''netnode::'' @ member) }"

definition netnode_domain :: domain_spec where
  "netnode_domain =
     \<lparr>dm_name = ''netnode'', dm_sdk_includes = [''<netnode.hpp>'', ''<string>'', ''<stdexcept>''], dm_externs = [],
      dm_structs = [], dm_consts = [],
      dm_fns = map (\<lambda>f. f\<lparr>sp_alias := sdk_alias (sp_name f)\<rparr>) (CUSTOM_FNS @ family_fns),
      dm_custom_tus = [''facade/netnode.cpp'']\<rparr>"

end
