(* ===== verification/Bridge_Domains.thy ===== *)
theory Bridge_Domains
  imports Bridge_Netnode
begin

text \<open>
  The tables of the binding generator: the domains written by hand (\<open>domains/*.rs\<close>), the visitor bridge
  (\<open>visitors/*.rs\<close>) and the constants of no domain (\<open>facade_consts.rs\<close>), row by row. A row of a macro is
  the application of the function that models it.
\<close>

subsection \<open>Domains\<close>

definition segment_fns :: "fn_spec list" where
  \<open>segment_fns =
   [
    fns_row ''Number of segments in the current database (`get_segm_qty`).''
      ''gen_seg_qty'' [] (RkValue (RsScalar ScUsize)) (BkScalarCall ''get_segm_qty()''),
    fns_row ''Start address of segment `n`, or `BADADDR` when `n` is out of range.''
      ''gen_seg_start'' [new_arg ''n'' (AtScalar ScI32)] (RkValue (RsScalar ScU64)) (BkSegScalar ''start_ea'' ''BADADDR''),
    fns_row ''End address of segment `n`, or `BADADDR` when `n` is out of range.''
      ''gen_seg_end'' [new_arg ''n'' (AtScalar ScI32)] (RkValue (RsScalar ScU64)) (BkSegScalar ''end_ea'' ''BADADDR''),
    fns_row ''Permission bits (`SEGPERM_*`) of segment `n`, or `0` when out of range.''
      ''gen_seg_perm'' [new_arg ''n'' (AtScalar ScI32)] (RkValue (RsScalar ScI32)) (BkSegScalar ''get_perm()'' ''0''),
    fns_row ''Address bits (16/32/64) of segment `n`, or `0` when out of range.''
      ''gen_seg_bitness'' [new_arg ''n'' (AtScalar ScI32)] (RkValue (RsScalar ScI32)) (BkSegScalar ''abits()'' ''0''),
    fns_row ''Visible name of segment `n`; `Err` when `n` is out of range.''
      ''gen_seg_name'' [new_arg ''n'' (AtScalar ScI32)] (RkFallible RsString) (BkSegString ''get_segment_name(&out, ea, GN_VISIBLE)'' False),
    fns_row ''Class of segment `n`; `Err` when `n` is out of range or has no class.''
      ''gen_seg_class'' [new_arg ''n'' (AtScalar ScI32)] (RkFallible RsString) (BkSegString ''get_segment_class(&out, ea)'' True),
    fns_row ''Selector (`sel_t`) of segment `n`, or `BADSEL` when `n` is out of range.''
      ''gen_seg_sel'' [new_arg ''n'' (AtScalar ScI32)] (RkValue (RsScalar ScU64)) (BkSegScalar ''get_sel()'' ''BADSEL''),
    fns_row ''Segment type code (`SEG_*`) of segment `n`, or `SEG_NORM` when `n` is out of range.''
      ''gen_seg_type'' [new_arg ''n'' (AtScalar ScI32)] (RkValue (RsScalar ScI32)) (BkSegScalar ''get_type()'' ''SEG_NORM''),
    fns_row ''Background color (`bgcolor_t`) of segment `n`, or `DEFCOLOR` when `n` is out of range.''
      ''gen_seg_color'' [new_arg ''n'' (AtScalar ScI32)] (RkValue (RsScalar ScU32)) (BkSegScalar ''get_color()'' ''DEFCOLOR''),
    fns_row ''Flag bits (`SFL_*`) of segment `n`, or `0` when `n` is out of range.''
      ''gen_seg_flags'' [new_arg ''n'' (AtScalar ScI32)] (RkValue (RsScalar ScI32)) (BkSegScalar ''get_flags()'' ''0''),
    fns_row ''Alignment code (`sa*`) of segment `n`, or `0` when `n` is out of range.''
      ''gen_seg_align'' [new_arg ''n'' (AtScalar ScI32)] (RkValue (RsScalar ScI32)) (BkSegScalar ''get_align()'' ''0''),
    fns_row ''Combination code (`sc*`) of segment `n`, or `0` when `n` is out of range.''
      ''gen_seg_comb'' [new_arg ''n'' (AtScalar ScI32)] (RkValue (RsScalar ScI32)) (BkSegScalar ''get_comb()'' ''0''),
    fns_row ''Index of the segment containing `ea`, or `-1` when none does (`get_segm_num`).''
      ''gen_seg_at'' [new_arg ''ea'' (AtScalar ScU64)] (RkValue (RsScalar ScI32)) (BkScalarCall ''get_segm_num(static_cast<ea_t>(ea))''),
    fns_row ''Comment of segment `n` (`repeatable` selects the repeatable channel); `Err` when `n` is out of range.''
      ''gen_seg_cmt'' [new_arg ''n'' (AtScalar ScI32), new_arg ''repeatable'' (AtScalar ScBool)] (RkFallible RsString) BkCustom,
    fns_row ''This SDK's `SEG_*` values in idakit `SegmentType`'s discriminant order, an alignment source pinning the Rust mirror to this SDK build in a test.''
      ''seg_type_ids'' [] (RkValue (RsVecScalar ScU8)) BkCustom,
    fns_row ''This SDK's `sa*` values in idakit `SegmentAlignment`'s discriminant order, an alignment source for a mirror test.''
      ''seg_align_ids'' [] (RkValue (RsVecScalar ScU8)) BkCustom,
    fns_row ''This SDK's `sc*` values in idakit `SegmentCombination`'s discriminant order, an alignment source for a mirror test.''
      ''seg_comb_ids'' [] (RkValue (RsVecScalar ScU8)) BkCustom]\<close>

definition SEGMENT_DOMAIN :: domain_spec where
  \<open>SEGMENT_DOMAIN =
   \<lparr>dm_name = ''seg'', dm_sdk_includes = [''<segment.hpp>'', ''<name.hpp>'', ''<stdexcept>'', ''"compat.h"''], dm_externs = [], dm_structs = [],
    dm_consts = [], dm_fns = segment_fns, dm_custom_tus = [''facade/segment.cpp'']\<rparr>\<close>

definition st_ImportRec :: shared_struct where
  \<open>st_ImportRec =
   \<lparr>ss_name = ''ImportRec'',
    ss_doc = ''One import-table row, returned inside the [`imports_build`] snapshot.'',
    ss_fields = [
     fields_row ''ea'' (FtScalar ScU64) ''Address the import is bound to.'',
     fields_row ''ord'' (FtScalar ScU64) ''Ordinal, or `0` when imported by name.'',
     fields_row ''name'' FtStr ''Symbol name, empty when imported by ordinal.'',
     fields_row ''module'' FtStr ''Owning module (library) name.'']\<rparr>\<close>

definition import_fns :: "fn_spec list" where
  \<open>import_fns =
   [
    fns_row ''The whole import table as an owned, `Send` snapshot, built in one walk of every module's `enum_import_names`.''
      ''imports_build'' [] (RkValue (RsVec ''ImportRec'')) BkCustom]\<close>

definition IMPORT_DOMAIN :: domain_spec where
  \<open>IMPORT_DOMAIN =
   \<lparr>dm_name = ''import'', dm_sdk_includes = [''<nalt.hpp>''], dm_externs = [], dm_structs = [st_ImportRec],
    dm_consts = [], dm_fns = import_fns, dm_custom_tus = [''facade/import.cpp'']\<rparr>\<close>

definition xt_RangeT :: extern_ty where
  \<open>xt_RangeT =
   \<lparr>xt_rust_name = ''RangeT'', xt_cxx_name = ''range_t'', xt_kind = (Trivial [
     fields_row ''start'' (FtScalar ScU64) ''`start_ea`, inclusive.'',
     fields_row ''end'' (FtScalar ScU64) ''`end_ea`, exclusive.'']),
    xt_doc = ''A `#[repr(C)]` mirror of the SDK's `range_t`, crossing the bridge by value as a `Trivial` `ExternType`.'',
    xt_safety = ''RangeT's two u64 fields mirror range_t's two ea_t members under __EA64__, and range_t is trivially move-constructible and destructible, so it crosses by value soundly. cxx re-checks the triviality half with a C++ static_assert.''\<rparr>\<close>

definition st_ChunkInfo :: shared_struct where
  \<open>st_ChunkInfo =
   \<lparr>ss_name = ''ChunkInfo'',
    ss_doc = ''One function chunk: its index paired with its address range.'',
    ss_fields = [
     fields_row ''index'' (FtScalar ScUsize) ''Zero-based chunk index (the entry chunk is `0`).'',
     fields_row ''range'' (FtExtern ''RangeT'') ''The chunk's address range.'']\<rparr>\<close>

definition range_fns :: "fn_spec list" where
  \<open>range_fns =
   [
    fns_row ''Entry chunk (index `0`) of the function containing `ea`, returned by value; `Err` when no function is there.''
      ''range_entry_chunk'' [new_arg ''ea'' (AtScalar ScU64)] (RkFallible (RsExtern ''RangeT'')) BkCustom,
    fns_row ''Size (`end - start`) of a `range_t` passed by value.''
      ''range_size'' [new_arg ''r'' (AtExtern ''RangeT'')] (RkValue (RsScalar ScU64)) BkCustom,
    fns_row ''Chunk `n` of the function at `ea` as a `ChunkInfo`; `Err` when `n` is out of range.''
      ''range_chunk_info'' [new_arg ''ea'' (AtScalar ScU64), new_arg ''n'' (AtScalar ScUsize)] (RkFallible (RsShared ''ChunkInfo'')) BkCustom,
    fns_row ''Every chunk (entry plus tails) of the function at `ea` as one owned `Vec`; `Err` when no function is there.''
      ''range_all_chunks'' [new_arg ''ea'' (AtScalar ScU64)] (RkFallible (RsVec ''RangeT'')) BkCustom]\<close>

definition RANGE_DOMAIN :: domain_spec where
  \<open>RANGE_DOMAIN =
   \<lparr>dm_name = ''range'', dm_sdk_includes = [''<funcs.hpp>'', ''<range.hpp>'', ''<stdexcept>''], dm_externs = [xt_RangeT], dm_structs = [st_ChunkInfo],
    dm_consts = [], dm_fns = range_fns, dm_custom_tus = [''facade/range.cpp'']\<rparr>\<close>

definition st_FunctionEntryInfo :: shared_struct where
  \<open>st_FunctionEntryInfo =
   \<lparr>ss_name = ''FunctionEntryInfo'',
    ss_doc = ''One function entry chunk's scalars, plus the strings the caller asked for, returned by value from [`func_entry_info`]. An unrequested or absent string is empty.'',
    ss_fields = [
     fields_row ''start'' (FtScalar ScU64) ''Entry address.'',
     fields_row ''end'' (FtScalar ScU64) ''Entry-chunk end address, exclusive.'',
     fields_row ''flags'' (FtScalar ScU64) ''Raw `func_t::flags` bits (`FUNC_*`).'',
     fields_row ''frame_id'' (FtScalar ScU64) ''Netnode id of the frame structure, `BADNODE` when there is none.'',
     fields_row ''locals_size'' (FtScalar ScU64) ''Size in bytes of the frame's local-variable part (`frsize`).'',
     fields_row ''saved_regs_size'' (FtScalar ScU32) ''Size in bytes of the saved-registers part of the frame.'',
     fields_row ''purged_bytes'' (FtScalar ScU64) ''Bytes purged from the stack on return.'',
     fields_row ''frame_pointer_delta'' (FtScalar ScU64) ''Frame pointer delta, usually 0.'',
     fields_row ''color'' (FtScalar ScU32) ''User-defined function color, `DEFCOLOR` when unset.'',
     fields_row ''name'' FtStr ''Function name, empty when not requested.'',
     fields_row ''cmt'' FtStr ''Regular comment, empty when not requested or absent.'',
     fields_row ''cmt_rpt'' FtStr ''Repeatable comment, empty when not requested or absent.'']\<rparr>\<close>

definition function_fns :: "fn_spec list" where
  \<open>function_fns =
   [
    fns_row ''Number of functions in the database (`get_func_qty`).''
      ''func_qty'' [] (RkValue (RsScalar ScUsize)) (BkScalarCall ''get_func_qty()''),
    fns_row ''Entry address of the `n`-th function, or `BADADDR` when `n` is out of range.''
      ''func_ea'' [new_arg ''n'' (AtScalar ScUsize)] (RkValue (RsScalar ScU64)) BkCustom,
    fns_row ''Entry address of the function containing `ea`, or `BADADDR` when there is none.''
      ''func_start'' [new_arg ''ea'' (AtScalar ScU64)] (RkValue (RsScalar ScU64)) BkCustom,
    fns_row ''Entry-chunk end address of the function at `ea`, or `BADADDR` when not a function.''
      ''func_end'' [new_arg ''ea'' (AtScalar ScU64)] (RkValue (RsScalar ScU64)) BkCustom,
    fns_row ''`func_t::flags` of the function at `ea`, or `0` when `ea` is not a function.''
      ''func_flags'' [new_arg ''ea'' (AtScalar ScU64)] (RkValue (RsScalar ScU64)) BkCustom,
    fns_row ''Number of chunks (entry plus tails) of the function at `ea`, or `0`.''
      ''func_chunk_qty'' [new_arg ''ea'' (AtScalar ScU64)] (RkValue (RsScalar ScI32)) BkCustom,
    fns_row ''Name of the function at `ea`; `Err` when it has none.''
      ''func_name'' [new_arg ''ea'' (AtScalar ScU64)] (RkFallible RsString) BkCustom,
    fns_row ''Comment of the function at `ea` (repeatable if `repeatable`); `Err` when there is none.''
      ''func_cmt'' [new_arg ''ea'' (AtScalar ScU64), new_arg ''repeatable'' (AtScalar ScBool)] (RkFallible RsString) BkCustom,
    fns_row ''Whether the function at `callee` is known to return (`func_does_return`).''
      ''func_does_return'' [new_arg ''callee'' (AtScalar ScU64)] (RkValue (RsScalar ScBool)) (BkScalarCall ''::func_does_return(static_cast<ea_t>(callee))''),
    fns_row ''Addressing width in bits of the function at `ea`: 16, 32, or 64, or 0 when not a function.''
      ''func_bitness'' [new_arg ''ea'' (AtScalar ScU64)] (RkValue (RsScalar ScI32)) BkCustom,
    fns_row ''Entry-chunk scalars of the function at `ea`, plus each string `fields` selects (a `GFI_*` mask); `Err` when `ea` is not a function.''
      ''func_entry_info'' [new_arg ''ea'' (AtScalar ScU64), new_arg ''fields'' (AtScalar ScI32)] (RkFallible (RsShared ''FunctionEntryInfo'')) BkCustom]\<close>

definition FUNCTION_DOMAIN :: domain_spec where
  \<open>FUNCTION_DOMAIN =
   \<lparr>dm_name = ''function'', dm_sdk_includes = [''<funcs.hpp>'', ''<name.hpp>'', ''<stdexcept>'', ''"compat.h"''], dm_externs = [], dm_structs = [st_FunctionEntryInfo],
    dm_consts = [], dm_fns = function_fns, dm_custom_tus = [''facade/function.cpp'']\<rparr>\<close>

definition export_fns :: "fn_spec list" where
  \<open>export_fns =
   [
    fns_row ''Number of exported entry points in the database (`get_entry_qty`).''
      ''export_qty'' [] (RkValue (RsScalar ScUsize)) (BkScalarCall ''get_entry_qty()''),
    fns_row ''Address of export `idx`, or `BADADDR` when the export is a pure forwarder.''
      ''export_ea'' [new_arg ''idx'' (AtScalar ScUsize)] (RkValue (RsScalar ScU64)) BkCustom,
    fns_row ''Ordinal of export `idx`.''
      ''export_ordinal'' [new_arg ''idx'' (AtScalar ScUsize)] (RkValue (RsScalar ScU64)) BkCustom,
    fns_row ''Name of export `idx`; `Err` when it has none.''
      ''export_name'' [new_arg ''idx'' (AtScalar ScUsize)] (RkFallible RsString) BkCustom,
    fns_row ''Forwarder target of export `idx`; `Err` when it has none (most exports do not).''
      ''export_forwarder'' [new_arg ''idx'' (AtScalar ScUsize)] (RkFallible RsString) BkCustom]\<close>

definition EXPORT_DOMAIN :: domain_spec where
  \<open>EXPORT_DOMAIN =
   \<lparr>dm_name = ''export'', dm_sdk_includes = [''<entry.hpp>'', ''<stdexcept>''], dm_externs = [], dm_structs = [],
    dm_consts = [], dm_fns = export_fns, dm_custom_tus = [''facade/export.cpp'']\<rparr>\<close>

definition meta_fns :: "fn_spec list" where
  \<open>meta_fns =
   [
    fns_row ''Application bitness (`inf_get_app_bitness`): 16, 32, or 64.''
      ''bitness'' [] (RkValue (RsScalar ScI32)) BkCustom,
    fns_row ''Preferred load address of the input (`get_imagebase`).''
      ''image_base'' [] (RkValue (RsScalar ScU64)) BkCustom,
    fns_row ''Processor module id, e.g. `metapc`; `Err` when none is set.''
      ''proc_name'' [] (RkFallible RsString) BkCustom,
    fns_row ''Human-readable input file format text; `Err` when unavailable.''
      ''file_type_name'' [] (RkFallible RsString) BkCustom,
    fns_row ''Full path of the analyzed input; `Err` when unknown.''
      ''input_path'' [] (RkFallible RsString) BkCustom,
    fns_row ''Base filename of the input; `Err` when unknown.''
      ''root_filename'' [] (RkFallible RsString) BkCustom]\<close>

definition META_DOMAIN :: domain_spec where
  \<open>META_DOMAIN =
   \<lparr>dm_name = ''meta'', dm_sdk_includes = [''<nalt.hpp>'', ''<loader.hpp>'', ''<stdexcept>''], dm_externs = [], dm_structs = [],
    dm_consts = [], dm_fns = meta_fns, dm_custom_tus = [''facade/meta.cpp'']\<rparr>\<close>

definition name_fns :: "fn_spec list" where
  \<open>name_fns =
   [
    fns_row ''Name at address `ea`; `Err` when the address has none.''
      ''get_ea_name'' [new_arg ''ea'' (AtScalar ScU64)] (RkFallible RsString) BkCustom,
    fns_row ''Name at address `ea` under `gtn_flags` (`GN_*` bits); `Err` when the address has none.''
      ''get_ea_name_flags'' [new_arg ''ea'' (AtScalar ScU64), new_arg ''flags'' (AtScalar ScI32)] (RkFallible RsString) BkCustom,
    fns_row ''Address the symbol `name` resolves to, or `BADADDR` when it is unknown.''
      ''get_name_ea'' [new_arg ''name'' AtStr] (RkValue (RsScalar ScU64)) BkCustom,
    fns_row ''Fully demangled form of `name`; `Err` when `name` is not mangled.''
      ''demangle_name'' [new_arg ''name'' AtStr] (RkFallible RsString) BkCustom,
    fns_row ''Number of entries in the sorted name list (`get_nlist_size`).''
      ''nlist_size'' [] (RkValue (RsScalar ScUsize)) BkCustom,
    fns_row ''Address of name-list entry `idx`.''
      ''nlist_ea'' [new_arg ''idx'' (AtScalar ScUsize)] (RkValue (RsScalar ScU64)) BkCustom,
    fns_row ''Name of name-list entry `idx`; `Err` when `idx` is out of range.''
      ''nlist_name'' [new_arg ''idx'' (AtScalar ScUsize)] (RkFallible RsString) BkCustom,
    fns_row ''Whether a flags word marks a user-given (explicit) name.''
      ''has_user_name'' [new_arg ''flags'' (AtScalar ScU64)] (RkValue (RsScalar ScBool)) BkCustom,
    fns_row ''Whether a flags word marks an IDA-generated (auto) name.''
      ''has_auto_name'' [new_arg ''flags'' (AtScalar ScU64)] (RkValue (RsScalar ScBool)) BkCustom,
    fns_row ''Whether a flags word marks a dummy (address-derived) name.''
      ''has_dummy_name'' [new_arg ''flags'' (AtScalar ScU64)] (RkValue (RsScalar ScBool)) BkCustom,
    fns_row ''Whether the name at `ea` is public (linker-exported).''
      ''is_public_name'' [new_arg ''ea'' (AtScalar ScU64)] (RkValue (RsScalar ScBool)) BkCustom,
    fns_row ''Whether the name at `ea` is weak (may be overridden by another definition).''
      ''is_weak_name'' [new_arg ''ea'' (AtScalar ScU64)] (RkValue (RsScalar ScBool)) BkCustom]\<close>

definition NAME_DOMAIN :: domain_spec where
  \<open>NAME_DOMAIN =
   \<lparr>dm_name = ''name'', dm_sdk_includes = [''<name.hpp>'', ''<bytes.hpp>'', ''<stdexcept>''], dm_externs = [], dm_structs = [],
    dm_consts = [], dm_fns = name_fns, dm_custom_tus = [''facade/name.cpp'']\<rparr>\<close>

definition st_StrlistItem :: shared_struct where
  \<open>st_StrlistItem =
   \<lparr>ss_name = ''StrlistItem'',
    ss_doc = ''One string-list entry: its address, octet length, and `STRTYPE` code.'',
    ss_fields = [
     fields_row ''ea'' (FtScalar ScU64) ''Address of the string literal.'',
     fields_row ''length'' (FtScalar ScI32) ''Length in octets (raw bytes, not decoded characters).'',
     fields_row ''type_'' (FtScalar ScI32) ''`STRTYPE` code describing the encoding.'']\<rparr>\<close>

definition strings_fns :: "fn_spec list" where
  \<open>strings_fns =
   [
    fns_row ''(Re)build IDA's string list, an O(database) scan of the whole image.''
      ''strlist_build'' [] (RkValue RsUnit) BkCustom,
    fns_row ''Number of entries in the current string list (`get_strlist_qty`).''
      ''strlist_qty'' [] (RkValue (RsScalar ScUsize)) BkCustom,
    fns_row ''The `n`-th string-list entry as a `StrlistItem`; `Err` when `n` is out of range.''
      ''strlist_item'' [new_arg ''n'' (AtScalar ScUsize)] (RkFallible (RsShared ''StrlistItem'')) BkCustom,
    fns_row ''Decode the string literal at `ea` (given octet length and `STRTYPE`) semantically (`STRCONV_REPLCHAR`: undecodable units become U+FFFD); `Err` when it cannot be read.''
      ''strlit_contents'' [new_arg ''ea'' (AtScalar ScU64), new_arg ''len'' (AtScalar ScUsize), new_arg ''strtype'' (AtScalar ScI32)] (RkFallible RsString) BkCustom,
    fns_row ''Decode the string literal at `ea` to its C-escaped display form (`STRCONV_ESCAPE`, as the decompiler renders it); `Err` when it cannot be read.''
      ''strlit_escaped'' [new_arg ''ea'' (AtScalar ScU64), new_arg ''len'' (AtScalar ScUsize), new_arg ''strtype'' (AtScalar ScI32)] (RkFallible RsString) BkCustom]\<close>

definition STRINGS_DOMAIN :: domain_spec where
  \<open>STRINGS_DOMAIN =
   \<lparr>dm_name = ''strings'', dm_sdk_includes = [''<strlist.hpp>'', ''<bytes.hpp>'', ''<stdexcept>''], dm_externs = [], dm_structs = [st_StrlistItem],
    dm_consts = [], dm_fns = strings_fns, dm_custom_tus = [''facade/strings.cpp'']\<rparr>\<close>

definition xt_FlowChart :: extern_ty where
  \<open>xt_FlowChart =
   \<lparr>xt_rust_name = ''FlowChart'', xt_cxx_name = ''qflow_chart_ea_t'', xt_kind = Opaque,
    xt_doc = ''The SDK's `qflow_chart_ea_t`, an opaque control-flow graph handled only behind indirection (`&FlowChart` or `UniquePtr<FlowChart>`).'',
    xt_safety = ''The type id names qflow_chart_ea_t: the SDK class on 9.4, compat.h's subclass of the func_t-keyed chart on 9.3. Opaque is correct either way because the class has a virtual destructor (nontrivial), so it may only cross the bridge behind a reference or UniquePtr, never by value.''\<rparr>\<close>

definition st_BlockInfo :: shared_struct where
  \<open>st_BlockInfo =
   \<lparr>ss_name = ''BlockInfo'',
    ss_doc = ''One basic block's bounds and kind, returned by value from [`cfg_block`].'',
    ss_fields = [
     fields_row ''start'' (FtScalar ScU64) ''Start address of the block.'',
     fields_row ''end'' (FtScalar ScU64) ''End address (exclusive) of the block.'',
     fields_row ''kind'' (FtScalar ScI32) ''Raw `fc_block_type_t` discriminant (`fcb_normal`, `fcb_ret`, ...).'']\<rparr>\<close>

definition cfg_fns :: "fn_spec list" where
  \<open>cfg_fns =
   [
    fns_row ''Build the flow chart for the function containing `ea`; `Err` when no function is there. Runs analysis, so it can also fail from a thrown SDK exception.''
      ''cfg_build'' [new_arg ''ea'' (AtScalar ScU64), new_arg ''flags'' (AtScalar ScI32)] (RkFallible (RsUniquePtr ''FlowChart'')) BkCustom,
    fns_member_row ''Number of basic blocks, bound to `qflow_chart_ea_t::size()` directly (the `self:` receiver). The return is `i32` to match the member's exact `int` signature.''
      ''size'' ''FlowChart'' [] (RkValue (RsScalar ScI32)) BkCustom,
    fns_row ''Total number of basic blocks (external blocks included).''
      ''cfg_nblocks'' [new_arg ''fc'' (AtExternRef ''FlowChart'')] (RkValue (RsScalar ScUsize)) BkCustom,
    fns_row ''Number of blocks belonging to the function's own range.''
      ''cfg_nproper'' [new_arg ''fc'' (AtExternRef ''FlowChart'')] (RkValue (RsScalar ScUsize)) BkCustom,
    fns_row ''Bounds and kind of block `n`; `Err` when `n` is out of range.''
      ''cfg_block'' [new_arg ''fc'' (AtExternRef ''FlowChart''), new_arg ''n'' (AtScalar ScUsize)] (RkFallible (RsShared ''BlockInfo'')) BkCustom,
    fns_row ''Number of successors of block `n` (`0` when `n` is out of range).''
      ''cfg_nsucc'' [new_arg ''fc'' (AtExternRef ''FlowChart''), new_arg ''n'' (AtScalar ScUsize)] (RkValue (RsScalar ScUsize)) BkCustom,
    fns_row ''The `i`-th successor block index of block `n`; `Err` when `n`/`i` is out of range.''
      ''cfg_succ'' [new_arg ''fc'' (AtExternRef ''FlowChart''), new_arg ''n'' (AtScalar ScUsize), new_arg ''i'' (AtScalar ScUsize)] (RkFallible (RsScalar ScUsize)) BkCustom,
    fns_row ''Number of predecessors of block `n` (`0` when `n` is out of range).''
      ''cfg_npred'' [new_arg ''fc'' (AtExternRef ''FlowChart''), new_arg ''n'' (AtScalar ScUsize)] (RkValue (RsScalar ScUsize)) BkCustom,
    fns_row ''The `i`-th predecessor block index of block `n`; `Err` when `n`/`i` is out of range.''
      ''cfg_pred'' [new_arg ''fc'' (AtExternRef ''FlowChart''), new_arg ''n'' (AtScalar ScUsize), new_arg ''i'' (AtScalar ScUsize)] (RkFallible (RsScalar ScUsize)) BkCustom,
    fns_row ''The whole successor edge list of block `n` as one owned `Vec<u32>`; `Err` when `n` is out of range.''
      ''cfg_succs'' [new_arg ''fc'' (AtExternRef ''FlowChart''), new_arg ''n'' (AtScalar ScUsize)] (RkFallible (RsVecScalar ScU32)) BkCustom,
    fns_row ''The whole predecessor edge list of block `n` as one owned `Vec<u32>`; `Err` when `n` is out of range.''
      ''cfg_preds'' [new_arg ''fc'' (AtExternRef ''FlowChart''), new_arg ''n'' (AtScalar ScUsize)] (RkFallible (RsVecScalar ScU32)) BkCustom,
    fns_row ''This SDK's `fc_block_type_t` (`fcb_*`) values in idakit `BasicBlockKind`'s discriminant order, an alignment source pinning the Rust mirror to this SDK build in a test. Covers only the modelled in-function kinds; `fcb_enoret`/`fcb_extern` are deliberately absent.''
      ''block_kind_ids'' [] (RkValue (RsVecScalar ScU8)) BkCustom]\<close>

definition CFG_DOMAIN :: domain_spec where
  \<open>CFG_DOMAIN =
   \<lparr>dm_name = ''cfg'', dm_sdk_includes = [''<funcs.hpp>'', ''<gdl.hpp>'', ''<stdexcept>'', ''"compat.h"''], dm_externs = [xt_FlowChart], dm_structs = [st_BlockInfo],
    dm_consts = [], dm_fns = cfg_fns, dm_custom_tus = [''facade/cfg.cpp'']\<rparr>\<close>

definition st_XrefRec :: shared_struct where
  \<open>st_XrefRec =
   \<lparr>ss_name = ''XrefRec'',
    ss_doc = ''One cross-reference edge, returned inside the [`xrefs_build`] snapshot.'',
    ss_fields = [
     fields_row ''from'' (FtScalar ScU64) ''Source address of the reference.'',
     fields_row ''to'' (FtScalar ScU64) ''Target address of the reference.'',
     fields_row ''type_'' (FtScalar ScI32) ''Raw `cref_t`/`dref_t` type code of the edge.'',
     fields_row ''iscode'' (FtScalar ScBool) ''`true` for a code reference, `false` for a data reference.'',
     fields_row ''user'' (FtScalar ScBool) ''`true` when user-defined, `false` when IDA's analysis generated it.'']\<rparr>\<close>

definition reference_fns :: "fn_spec list" where
  \<open>reference_fns =
   [
    fns_row ''Every cross-reference edge at `ea` as an owned, `Send` snapshot: xrefs *to* `ea` when `is_to`, else xrefs *from* it. Ordinary next-instruction flow edges are included only when `flow` (`XREF_FLOW` vs `XREF_NOFLOW`).''
      ''xrefs_build'' [new_arg ''ea'' (AtScalar ScU64), new_arg ''is_to'' (AtScalar ScBool), new_arg ''flow'' (AtScalar ScBool)] (RkValue (RsVec ''XrefRec'')) BkCustom,
    fns_row ''Whether `ea` has a reference from outside the function that contains it; `false` when `ea` is not inside any function.''
      ''has_external_refs'' [new_arg ''ea'' (AtScalar ScU64)] (RkValue (RsScalar ScBool)) BkCustom,
    fns_row ''Whether `ea` has an incoming jump or ordinary-flow code cross-reference.''
      ''has_jump_or_flow_xref'' [new_arg ''ea'' (AtScalar ScU64)] (RkValue (RsScalar ScBool)) BkCustom,
    fns_row ''This SDK's `cref_t` (`fl_*`) values in idakit `CodeXref`'s discriminant order, an alignment source pinning the Rust mirror to this SDK build in a test.''
      ''cref_type_ids'' [] (RkValue (RsVecScalar ScU8)) BkCustom,
    fns_row ''This SDK's `dref_t` (`dr_*`) values in idakit `DataXref`'s discriminant order, an alignment source for a mirror test.''
      ''dref_type_ids'' [] (RkValue (RsVecScalar ScU8)) BkCustom]\<close>

definition REFERENCE_DOMAIN :: domain_spec where
  \<open>REFERENCE_DOMAIN =
   \<lparr>dm_name = ''reference'', dm_sdk_includes = [''<xref.hpp>''], dm_externs = [], dm_structs = [st_XrefRec],
    dm_consts = [], dm_fns = reference_fns, dm_custom_tus = [''facade/reference.cpp'']\<rparr>\<close>

definition xt_CompiledBinpat :: extern_ty where
  \<open>xt_CompiledBinpat =
   \<lparr>xt_rust_name = ''CompiledBinpat'', xt_cxx_name = ''compiled_binpat_vec_t'', xt_kind = Opaque,
    xt_doc = ''A compiled binary-search pattern (`compiled_binpat_vec_t`), owned behind a [`UniquePtr`](cxx::UniquePtr) and passed by `&` to a search.'',
    xt_safety = ''The type id names the real SDK typedef compiled_binpat_vec_t; Opaque is correct because it is a qvector with a nontrivial destructor, so it may only cross the bridge behind a reference or UniquePtr, never by value.''\<rparr>\<close>

definition st_BinpatStats :: shared_struct where
  \<open>st_BinpatStats =
   \<lparr>ss_name = ''BinpatStats'',
    ss_doc = ''The compiled length and anchor count of a pattern, returned by value from [`binpat_stats`].'',
    ss_fields = [
     fields_row ''total'' (FtScalar ScUsize) ''Compiled byte length of the pattern.'',
     fields_row ''anchors'' (FtScalar ScUsize) ''Count of concrete (non-wildcard) bytes; `0` means nothing to match on.'']\<rparr>\<close>

definition bytes_fns :: "fn_spec list" where
  \<open>bytes_fns =
   [
    fns_row ''The `size` bytes at `ea` as an owned `Vec<u8>`; `Err` when the range is not fully mapped.''
      ''get_bytes'' [new_arg ''ea'' (AtScalar ScU64), new_arg ''size'' (AtScalar ScUsize)] (RkFallible (RsVecScalar ScU8)) BkCustom,
    fns_row ''The byte at `ea`; `Err` when it is uninitialized.''
      ''get_u8'' [new_arg ''ea'' (AtScalar ScU64)] (RkFallible (RsScalar ScU8)) BkCustom,
    fns_row ''The little-endian word at `ea`; `Err` when any covered byte is uninitialized.''
      ''get_u16'' [new_arg ''ea'' (AtScalar ScU64)] (RkFallible (RsScalar ScU16)) BkCustom,
    fns_row ''The little-endian dword at `ea`; `Err` when any covered byte is uninitialized.''
      ''get_u32'' [new_arg ''ea'' (AtScalar ScU64)] (RkFallible (RsScalar ScU32)) BkCustom,
    fns_row ''The little-endian qword at `ea`; `Err` when any covered byte is uninitialized.''
      ''get_u64'' [new_arg ''ea'' (AtScalar ScU64)] (RkFallible (RsScalar ScU64)) BkCustom,
    fns_row ''The auto-detected string literal at `ea` (given its `STRTYPE`) decoded to UTF-8; `Err` when there is none or it cannot be decoded.''
      ''get_strlit'' [new_arg ''ea'' (AtScalar ScU64), new_arg ''strtype'' (AtScalar ScI32)] (RkFallible RsString) BkCustom,
    fns_row ''Lowest mapped address in the database (`inf_get_min_ea`).''
      ''min_ea'' [] (RkValue (RsScalar ScU64)) (BkScalarCall ''inf_get_min_ea()''),
    fns_row ''One past the highest mapped address in the database (`inf_get_max_ea`).''
      ''max_ea'' [] (RkValue (RsScalar ScU64)) (BkScalarCall ''inf_get_max_ea()''),
    fns_row ''Flag word of the item at `ea` (`get_flags`).''
      ''get_flags'' [new_arg ''ea'' (AtScalar ScU64)] (RkValue (RsScalar ScU64)) BkCustom,
    fns_row ''This SDK's `FF_UNK`/`FF_TAIL`/`FF_DATA`/`FF_CODE` values in idakit `ByteClass`'s discriminant order, an alignment source for a mirror test.''
      ''byte_class_ids'' [] (RkValue (RsVecScalar ScU64)) BkCustom,
    fns_row ''Start address of the item covering `ea` (`ea` itself when it is an item head).''
      ''get_item_head'' [new_arg ''ea'' (AtScalar ScU64)] (RkValue (RsScalar ScU64)) BkCustom,
    fns_row ''Address just past the item covering `ea` (`get_item_end`).''
      ''get_item_end'' [new_arg ''ea'' (AtScalar ScU64)] (RkValue (RsScalar ScU64)) BkCustom,
    fns_row ''Next item head after `ea`, searching up to `maxea`, or `BADADDR` when none.''
      ''get_next_head'' [new_arg ''ea'' (AtScalar ScU64), new_arg ''maxea'' (AtScalar ScU64)] (RkValue (RsScalar ScU64)) BkCustom,
    fns_row ''Previous item head before `ea`, searching down to `minea`, or `BADADDR` when none.''
      ''get_prev_head'' [new_arg ''ea'' (AtScalar ScU64), new_arg ''minea'' (AtScalar ScU64)] (RkValue (RsScalar ScU64)) BkCustom,
    fns_row ''The regular (or repeatable, when `rptble`) comment at `ea`; `Err` when there is none.''
      ''get_cmt'' [new_arg ''ea'' (AtScalar ScU64), new_arg ''rptble'' (AtScalar ScBool)] (RkFallible RsString) BkCustom,
    fns_row ''Compile `pattern` via IDA's own parser (byte width taken from `ea`); `Err` carries the parser's rejection message.''
      ''binpat_compile'' [new_arg ''ea'' (AtScalar ScU64), new_arg ''pattern'' AtStr, new_arg ''radix'' (AtScalar ScI32)] (RkFallible (RsUniquePtr ''CompiledBinpat'')) BkCustom,
    fns_row ''Compile a pattern from raw `bytes` and a per-byte bit `mask`; an empty `mask` means every byte is concrete.''
      ''binpat_from_bytes'' [new_arg ''bytes'' AtBytes, new_arg ''mask'' AtBytes] (RkValue (RsUniquePtr ''CompiledBinpat'')) BkCustom,
    fns_row ''The compiled length and anchor count of `pat`.''
      ''binpat_stats'' [new_arg ''pat'' (AtExternRef ''CompiledBinpat'')] (RkValue (RsShared ''BinpatStats'')) BkCustom,
    fns_row ''First address in `[start, end)` matching `pat`, or `BADADDR` when absent (headless: `NOBREAK | NOSHOW` forced).''
      ''bin_search'' [new_arg ''start'' (AtScalar ScU64), new_arg ''end'' (AtScalar ScU64), new_arg ''pat'' (AtExternRef ''CompiledBinpat''), new_arg ''flags'' (AtScalar ScI32)] (RkValue (RsScalar ScU64)) BkCustom,
    fns_row ''Patch `bytes` over `ea`, or `false` without writing when any target byte is unmapped.''
      ''patch_bytes'' [new_arg ''ea'' (AtScalar ScU64), new_arg ''bytes'' AtBytes] (RkValue (RsScalar ScBool)) BkCustom]\<close>

definition BYTES_DOMAIN :: domain_spec where
  \<open>BYTES_DOMAIN =
   \<lparr>dm_name = ''bytes'', dm_sdk_includes = [''<bytes.hpp>'', ''<stdexcept>''], dm_externs = [xt_CompiledBinpat], dm_structs = [st_BinpatStats],
    dm_consts = [], dm_fns = bytes_fns, dm_custom_tus = [''facade/bytes.cpp'']\<rparr>\<close>

definition st_RegisterData :: shared_struct where
  \<open>st_RegisterData =
   \<lparr>ss_name = ''RegisterData'',
    ss_doc = ''One register reference in a decoded operand, nested by value in an [`OperandData`].'',
    ss_fields = [
     fields_row ''num'' (FtScalar ScU16) ''Register number, or `0xFFFF` for an absent base/index slot.'',
     fields_row ''cls'' (FtScalar ScU8) ''idakit `RegisterClass` code.'',
     fields_row ''width'' (FtScalar ScU8) ''Byte width selecting the name alias.'',
     fields_row ''name'' FtStr ''IDA's resolved register name, empty if unresolved.'']\<rparr>\<close>

definition st_OperandData :: shared_struct where
  \<open>st_OperandData =
   \<lparr>ss_name = ''OperandData'',
    ss_doc = ''One decoded operand; which fields are meaningful depends on `kind`.'',
    ss_fields = [
     fields_row ''kind'' (FtScalar ScU8) ''Semantic kind (0 reg, 1 mem, 2 imm, 3 near, 4 far).'',
     fields_row ''idx'' (FtScalar ScU8) ''Original operand slot index (feature bits are keyed by it).'',
     fields_row ''offb'' (FtScalar ScU8) ''Raw `op_t::offb`: the operand's byte offset within the encoded instruction.'',
     fields_row ''data_type'' (FtScalar ScU8) ''Raw `op_dtype_t`.'',
     fields_row ''access'' (FtScalar ScU8) ''Access bits: bit0 read, bit1 written.'',
     fields_row ''scale'' (FtScalar ScU8) ''Memory index scale multiplier (1/2/4/8).'',
     fields_row ''reg'' (FtStruct ''RegisterData'') ''Register (kind = reg). Named `reg`, not `register` (a C++ keyword).'',
     fields_row ''base'' (FtStruct ''RegisterData'') ''Memory base register (kind = mem).'',
     fields_row ''index'' (FtStruct ''RegisterData'') ''Memory index register (kind = mem).'',
     fields_row ''disp'' (FtScalar ScI64) ''Memory displacement (kind = mem).'',
     fields_row ''value'' (FtScalar ScU64) ''Immediate value (kind = imm) or far offset (kind = far).'',
     fields_row ''addr'' (FtScalar ScU64) ''Near target, or memory static target / `BADADDR` (kind = near/mem).'',
     fields_row ''sel'' (FtScalar ScU16) ''Far selector (kind = far).'',
     fields_row ''broadcast'' (FtScalar ScU8) ''EVEX embedded-broadcast factor N of a `{1toN}` memory operand, as IDA renders it, else 0.'']\<rparr>\<close>

definition st_InstructionData :: shared_struct where
  \<open>st_InstructionData =
   \<lparr>ss_name = ''InstructionData'',
    ss_doc = ''A decoded instruction, returned by value from [`decode_insn`]; `status` carries the raw result code and `ops` is right-sized to the populated operands.'',
    ss_fields = [
     fields_row ''status'' (FtScalar ScI32) ''Result code: 0 ok, -1 no instruction, -2 unsupported processor, -3 unmodeled operand, -4 unmodeled register.'',
     fields_row ''err_op'' (FtScalar ScU8) ''On the -3/-4 status, the offending operand index.'',
     fields_row ''err_optype'' (FtScalar ScU8) ''On -3 the offending raw operand type; on -4 the register number.'',
     fields_row ''address'' (FtScalar ScU64) ''Instruction address.'',
     fields_row ''target'' (FtScalar ScU64) ''Direct branch/call target, or `BADADDR`.'',
     fields_row ''itype'' (FtScalar ScU16) ''Processor-local canonical instruction id.'',
     fields_row ''len'' (FtScalar ScU8) ''Encoded length in bytes.'',
     fields_row ''isa'' (FtScalar ScU8) ''0 = x86, 1 = x64.'',
     fields_row ''nops'' (FtScalar ScU8) ''Number of populated operands (matches `ops.len()`).'',
     fields_row ''flow'' (FtScalar ScU8) ''`FLOW_*` bit flags.'',
     fields_row ''mnemonic'' FtStr ''Canonical mnemonic.'',
     fields_row ''ops'' (FtVecStruct ''OperandData'') ''Decoded operands; only meaningful when `status == 0`.'',
     fields_row ''mask'' (FtStruct ''RegisterData'') ''EVEX write-mask opmask register (k1..k7), or the `REG_NONE` sentinel if unmasked.'',
     fields_row ''zeroing'' (FtScalar ScU8) ''EVEX zeroing-masking flag: 1 = `{z}` (zero masked lanes), 0 = merge. Meaningful only with a `mask`.'',
     fields_row ''fp_control'' (FtScalar ScU8) ''EVEX register-form FP control: `FPC_*` (0 none, 1 static rounding, 2 suppress-exceptions-only).'',
     fields_row ''round_mode'' (FtScalar ScU8) ''EVEX static rounding mode `ROUND_*` (0 nearest, 1 down, 2 up, 3 zero), meaningful when `fp_control == FPC_ROUNDING`.'']\<rparr>\<close>

definition instruction_consts :: "const_def list" where
  \<open>instruction_consts =
   [
    \<lparr>cd_name = ''MAX_OPS'', cd_ty = ScUsize, cd_value = 8,
     cd_doc = ''Maximum operands the instruction bridge fills, matching `UA_MAXOP`.''\<rparr>,
    \<lparr>cd_name = ''OP_REG'', cd_ty = ScU8, cd_value = 0,
     cd_doc = ''Semantic operand kind: register.''\<rparr>,
    \<lparr>cd_name = ''OP_MEM'', cd_ty = ScU8, cd_value = 1,
     cd_doc = ''Semantic operand kind: memory.''\<rparr>,
    \<lparr>cd_name = ''OP_IMM'', cd_ty = ScU8, cd_value = 2,
     cd_doc = ''Semantic operand kind: immediate.''\<rparr>,
    \<lparr>cd_name = ''OP_NEAR'', cd_ty = ScU8, cd_value = 3,
     cd_doc = ''Semantic operand kind: near branch/call target.''\<rparr>,
    \<lparr>cd_name = ''OP_FAR'', cd_ty = ScU8, cd_value = 4,
     cd_doc = ''Semantic operand kind: far branch/call target.''\<rparr>,
    \<lparr>cd_name = ''REG_NONE'', cd_ty = ScU16, cd_value = 65535,
     cd_doc = ''Sentinel for an absent base/index register in a decoded operand.''\<rparr>,
    \<lparr>cd_name = ''FLOW_CALL'', cd_ty = ScU8, cd_value = 1,
     cd_doc = ''`InstructionData::flow` bit: the instruction is a call.''\<rparr>,
    \<lparr>cd_name = ''FLOW_RET'', cd_ty = ScU8, cd_value = 2,
     cd_doc = ''`InstructionData::flow` bit: the instruction returns.''\<rparr>,
    \<lparr>cd_name = ''FLOW_JUMP'', cd_ty = ScU8, cd_value = 4,
     cd_doc = ''`InstructionData::flow` bit: the instruction jumps.''\<rparr>,
    \<lparr>cd_name = ''FLOW_INDIRECT'', cd_ty = ScU8, cd_value = 8,
     cd_doc = ''`InstructionData::flow` bit: the transfer target is indirect, not statically known.''\<rparr>,
    \<lparr>cd_name = ''FLOW_STOPS'', cd_ty = ScU8, cd_value = 16,
     cd_doc = ''`InstructionData::flow` bit: sequential flow stops after this instruction.''\<rparr>,
    \<lparr>cd_name = ''FPC_NONE'', cd_ty = ScU8, cd_value = 0,
     cd_doc = ''`InstructionData::fp_control`: no EVEX register-form FP control.''\<rparr>,
    \<lparr>cd_name = ''FPC_ROUNDING'', cd_ty = ScU8, cd_value = 1,
     cd_doc = ''`InstructionData::fp_control`: EVEX static rounding (`{r?-sae}`), mode in `round_mode`.''\<rparr>,
    \<lparr>cd_name = ''FPC_SAE'', cd_ty = ScU8, cd_value = 2,
     cd_doc = ''`InstructionData::fp_control`: EVEX suppress-all-exceptions only (`{sae}`), no rounding.''\<rparr>,
    \<lparr>cd_name = ''ROUND_NEAREST'', cd_ty = ScU8, cd_value = 0,
     cd_doc = ''`InstructionData::round_mode`: round to nearest (even).''\<rparr>,
    \<lparr>cd_name = ''ROUND_DOWN'', cd_ty = ScU8, cd_value = 1,
     cd_doc = ''`InstructionData::round_mode`: round toward negative infinity.''\<rparr>,
    \<lparr>cd_name = ''ROUND_UP'', cd_ty = ScU8, cd_value = 2,
     cd_doc = ''`InstructionData::round_mode`: round toward positive infinity.''\<rparr>,
    \<lparr>cd_name = ''ROUND_ZERO'', cd_ty = ScU8, cd_value = 3,
     cd_doc = ''`InstructionData::round_mode`: round toward zero (truncate).''\<rparr>]\<close>

definition instruction_fns :: "fn_spec list" where
  \<open>instruction_fns =
   [
    fns_row ''Decode the instruction at `ea`, folding raw operands into semantic kinds with resolved register names and control-flow facts. Infallible at the boundary: the result code lands in [`InstructionData::status`] rather than throwing, since the -3/-4 failures carry structured payloads.''
      ''decode_insn'' [new_arg ''ea'' (AtScalar ScU64)] (RkValue (RsShared ''InstructionData'')) BkCustom,
    fns_row ''The facade's `RegisterClass` codes in idakit's discriminant order, an alignment source pinning the Rust mirror to this SDK build in a test.''
      ''reg_class_ids'' [] (RkValue (RsVecScalar ScU8)) BkCustom,
    fns_row ''This SDK's `op_dtype_t` (`dt_*`) values in idakit `DataType`'s discriminant order, an alignment source for a mirror test.''
      ''op_dtype_ids'' [] (RkValue (RsVecScalar ScU8)) BkCustom]\<close>

definition INSTRUCTION_DOMAIN :: domain_spec where
  \<open>INSTRUCTION_DOMAIN =
   \<lparr>dm_name = ''instruction'', dm_sdk_includes = [], dm_externs = [], dm_structs = [st_RegisterData, st_OperandData, st_InstructionData],
    dm_consts = instruction_consts, dm_fns = instruction_fns, dm_custom_tus = [''facade/instruction.cpp'']\<rparr>\<close>

definition xt_CFunc :: extern_ty where
  \<open>xt_CFunc =
   \<lparr>xt_rust_name = ''CFunc'', xt_cxx_name = ''cfuncptr_t'', xt_kind = Opaque,
    xt_doc = ''The SDK's `cfuncptr_t` (`qrefcnt_t<cfunc_t>`), an opaque decompilation result handled only behind indirection (`&CFunc` or `UniquePtr<CFunc>`).'',
    xt_safety = ''The type id names the real SDK typedef cfuncptr_t; Opaque is correct because qrefcnt_t<cfunc_t> has a nontrivial copy-ctor and destructor, so it may only cross the bridge behind a reference or UniquePtr, never by value.''\<rparr>\<close>

definition st_CtreeCounts :: shared_struct where
  \<open>st_CtreeCounts =
   \<lparr>ss_name = ''CtreeCounts'',
    ss_doc = ''Statement, expression, and call-site counts of a decompiled function's ctree, returned by value from [`cfunc_counts`].'',
    ss_fields = [
     fields_row ''statements'' (FtScalar ScI32) ''Number of statement nodes.'',
     fields_row ''expressions'' (FtScalar ScI32) ''Number of expression nodes.'',
     fields_row ''calls'' (FtScalar ScI32) ''Number of call sites.'']\<rparr>\<close>

definition st_ExprGap :: shared_struct where
  \<open>st_ExprGap =
   \<lparr>ss_name = ''ExprGap'',
    ss_doc = ''The ctree extraction-fidelity diagnostic, returned by value from [`cfunc_expr_gap`].'',
    ss_fields = [
     fields_row ''visitor_total'' (FtScalar ScI32) ''Every expression the SDK's own ctree visitor sees.'',
     fields_row ''expected'' (FtScalar ScI32) ''How many the extraction walker should materialize (visitor total minus elided empty-expression placeholders in optional slots, where an absent operand decodes as `cot_empty`, for which the walker emits no node).'']\<rparr>\<close>

definition hexrays_fns :: "fn_spec list" where
  \<open>hexrays_fns =
   [
    fns_row ''Decompile the function at `ea` into a heap `cfuncptr_t` owned by a [`UniquePtr`](cxx::UniquePtr) (one owned ref); `Err` on any decompile failure. Wrapped in the facade trap, so a fatal `exit()` surfaces as a trapped `Err` the caller distinguishes via its own trap query. The `UniquePtr`'s cxx deleter runs `~cfuncptr_t` (`release()`) on drop.''
      ''decompile'' [new_arg ''ea'' (AtScalar ScU64)] (RkFallible (RsUniquePtr ''CFunc'')) BkCustom,
    fns_row ''The rendered pseudocode of `cf`, tags stripped; `Err` if the SDK cannot produce it.''
      ''cfunc_pseudocode'' [new_arg ''cf'' (AtExternRef ''CFunc'')] (RkFallible RsString) BkCustom,
    fns_row ''Statement, expression, and call-site counts of `cf`'s ctree.''
      ''cfunc_counts'' [new_arg ''cf'' (AtExternRef ''CFunc'')] (RkValue (RsShared ''CtreeCounts'')) BkCustom,
    fns_row ''Re-print `cf`'s pseudocode from its current ctree (`refresh_func_ctext`), then return it; `Err` if the SDK cannot produce it. Cheap compared to a re-decompile, since it walks the already-decompiled ctree, but reflects only what the ctree already encodes (a rename resolves fresh; a structural or type change needs a fresh [`decompile`]).''
      ''cfunc_refresh_text'' [new_arg ''cf'' (AtExternRef ''CFunc'')] (RkFallible RsString) BkCustom,
    fns_row ''The extraction-fidelity diagnostic for `cf`: total expressions the SDK visitor sees vs how many the extraction walker should materialize.''
      ''cfunc_expr_gap'' [new_arg ''cf'' (AtExternRef ''CFunc'')] (RkValue (RsShared ''ExprGap'')) BkCustom,
    fns_row ''Initialize the Hex-Rays decompiler (loading the plugin if needed); `true` once ready.''
      ''hexrays_init'' [] (RkValue (RsScalar ScBool)) BkCustom,
    fns_row ''Evict the cached decompilation for `ea`; `true` if an entry existed, `false` if none or the decompiler is not initialized.''
      ''mark_cfunc_dirty'' [new_arg ''ea'' (AtScalar ScU64), new_arg ''close_views'' (AtScalar ScBool)] (RkValue (RsScalar ScBool)) BkCustom,
    fns_row ''Evict every cached decompilation; a no-op if the decompiler is not initialized.''
      ''clear_cached_cfuncs'' [] (RkValue RsUnit) BkCustom,
    fns_row ''Whether `ea` has a cached decompilation; `false` if none or not initialized.''
      ''has_cached_cfunc'' [new_arg ''ea'' (AtScalar ScU64)] (RkValue (RsScalar ScBool)) BkCustom,
    fns_row ''This SDK's `ctype_t` (`cot_*`) values in idakit `BinaryOp`'s discriminant order, an alignment source pinning the Rust mirror to this SDK build in a test.''
      ''binop_ctype_ids'' [] (RkValue (RsVecScalar ScU32)) BkCustom,
    fns_row ''This SDK's `ctype_t` (`cot_asg*`) values in idakit `AssignmentOp`'s discriminant order, an alignment source for a mirror test.''
      ''assignop_ctype_ids'' [] (RkValue (RsVecScalar ScU32)) BkCustom,
    fns_row ''This SDK's `ctype_t` values in idakit `UnaryOp`'s discriminant order, an alignment source for a mirror test.''
      ''unop_ctype_ids'' [] (RkValue (RsVecScalar ScU32)) BkCustom,
    fns_row ''This SDK's `ctype_t` values for the structural tags idakit's ctree extraction dispatches on, in its `StructuralTag` discriminant order, an alignment source for a mirror test.''
      ''structural_tag_ctype_ids'' [] (RkValue (RsVecScalar ScU32)) BkCustom]\<close>

definition HEXRAYS_DOMAIN :: domain_spec where
  \<open>HEXRAYS_DOMAIN =
   \<lparr>dm_name = ''hexrays'', dm_sdk_includes = [''<funcs.hpp>'', ''<hexrays.hpp>''], dm_externs = [xt_CFunc], dm_structs = [st_CtreeCounts, st_ExprGap],
    dm_consts = [], dm_fns = hexrays_fns, dm_custom_tus = [''facade/hexrays.cpp'']\<rparr>\<close>

definition xt_TInfo :: extern_ty where
  \<open>xt_TInfo =
   \<lparr>xt_rust_name = ''TInfo'', xt_cxx_name = ''tinfo_t'', xt_kind = Opaque,
    xt_doc = ''The SDK's `tinfo_t`, an opaque type-info handle handled only behind indirection (`&TInfo` or `UniquePtr<TInfo>`).'',
    xt_safety = ''The type id names the real SDK class tinfo_t; Opaque is correct because tinfo_t has a nontrivial copy-ctor and destructor, so it may only cross the bridge behind a reference or UniquePtr, never by value. The UniquePtr's cxx deleter runs ~tinfo_t, matching the raw handle's free.''\<rparr>\<close>

definition st_TypeWriteResult :: shared_struct where
  \<open>st_TypeWriteResult =
   \<lparr>ss_name = ''TypeWriteResult'',
    ss_doc = ''The outcome of a type-write call, returned by value from every type-write function except the two signature-surgery fns.'',
    ss_fields = [
     fields_row ''code'' (FtScalar ScI32) ''Raw facade code: an `TYPE_*`/`TEDIT_*` sentinel, a negative `tinfo_code_t`, or `define_type`'s parse-error count.'',
     fields_row ''reason'' FtStr ''Captured IDA diagnostic, empty when the call has no error channel.'']\<rparr>\<close>

definition st_SigWriteResult :: shared_struct where
  \<open>st_SigWriteResult =
   \<lparr>ss_name = ''SigWriteResult'',
    ss_doc = ''The outcome of a signature-surgery call that also reports the function's parameter count.'',
    ss_fields = [
     fields_row ''code'' (FtScalar ScI32) ''Raw facade `SIG_*` code.'',
     fields_row ''arity'' (FtScalar ScUsize) ''Parameter count of the edited function type (`0` when it has no type).'',
     fields_row ''reason'' FtStr ''Captured IDA diagnostic, empty when none.'']\<rparr>\<close>

definition type_build_consts_1 :: "const_def list" where
  \<open>type_build_consts_1 =
   [
    \<lparr>cd_name = ''TYPE_OK'', cd_ty = ScI32, cd_value = 0,
     cd_doc = ''Result of a successful type apply.''\<rparr>,
    \<lparr>cd_name = ''TYPE_ERR_INPUT'', cd_ty = ScI32, cd_value = 1,
     cd_doc = ''A bad input to a type apply: an unparseable declaration, a named type that does not exist, or a malformed recipe.''\<rparr>,
    \<lparr>cd_name = ''TYPE_ERR_APPLY'', cd_ty = ScI32, cd_value = 2,
     cd_doc = ''`apply_tinfo` rejected the parsed/resolved/built type at the address.''\<rparr>,
    \<lparr>cd_name = ''SIG_OK'', cd_ty = ScI32, cd_value = 0,
     cd_doc = ''A prototype-surgery edit succeeded.''\<rparr>,
    \<lparr>cd_name = ''SIG_NO_PROTOTYPE'', cd_ty = ScI32, cd_value = 1,
     cd_doc = ''The address carries no function type to edit.''\<rparr>,
    \<lparr>cd_name = ''SIG_ARG_RANGE'', cd_ty = ScI32, cd_value = 2,
     cd_doc = ''A parameter index was past the last parameter.''\<rparr>,
    \<lparr>cd_name = ''SIG_BUILD'', cd_ty = ScI32, cd_value = 3,
     cd_doc = ''A replacement-type recipe did not build.''\<rparr>,
    \<lparr>cd_name = ''SIG_APPLY'', cd_ty = ScI32, cd_value = 4,
     cd_doc = ''`create_func` or `apply_tinfo` rejected the rebuilt signature.''\<rparr>,
    \<lparr>cd_name = ''TEDIT_NO_TYPE'', cd_ty = ScI32, cd_value = 1,
     cd_doc = ''Member-edit pre-failure: no such named type in the local til.''\<rparr>,
    \<lparr>cd_name = ''TEDIT_NO_MEMBER'', cd_ty = ScI32, cd_value = 2,
     cd_doc = ''Member-edit pre-failure: the member (by name or bit offset) did not resolve.''\<rparr>,
    \<lparr>cd_name = ''TEDIT_BUILD'', cd_ty = ScI32, cd_value = 3,
     cd_doc = ''Member-edit pre-failure: a member-type recipe did not build.''\<rparr>,
    \<lparr>cd_name = ''MEMBER_APPEND'', cd_ty = ScU64, cd_value = 18446744073709551615,
     cd_doc = ''`member_bit` value that appends a new member at the end rather than a fixed offset.''\<rparr>,
    \<lparr>cd_name = ''RECIPE_VOID'', cd_ty = ScU8, cd_value = 0,
     cd_doc = ''Recipe opcode: push the `void` type.''\<rparr>,
    \<lparr>cd_name = ''RECIPE_BOOL'', cd_ty = ScU8, cd_value = 1,
     cd_doc = ''Recipe opcode: push the boolean type.''\<rparr>,
    \<lparr>cd_name = ''RECIPE_INT'', cd_ty = ScU8, cd_value = 2,
     cd_doc = ''Recipe opcode: push an integer, followed by a `u8` width in bytes and a `u8` signedness flag.''\<rparr>,
    \<lparr>cd_name = ''RECIPE_FLOAT'', cd_ty = ScU8, cd_value = 3,
     cd_doc = ''Recipe opcode: push a float, followed by a `u8` width in bytes.''\<rparr>,
    \<lparr>cd_name = ''RECIPE_NAMED'', cd_ty = ScU8, cd_value = 4,
     cd_doc = ''Recipe opcode: push a named-type reference, followed by a `u32` length and that many name bytes.''\<rparr>,
    \<lparr>cd_name = ''RECIPE_DECL'', cd_ty = ScU8, cd_value = 5,
     cd_doc = ''Recipe opcode: push a parsed declaration, followed by a `u32` length and that many decl bytes.''\<rparr>,
    \<lparr>cd_name = ''RECIPE_PTR'', cd_ty = ScU8, cd_value = 6,
     cd_doc = ''Recipe opcode: pop one type, push a pointer to it.''\<rparr>]\<close>

definition type_build_consts_2 :: "const_def list" where
  \<open>type_build_consts_2 =
   [
    \<lparr>cd_name = ''RECIPE_ARRAY'', cd_ty = ScU8, cd_value = 7,
     cd_doc = ''Recipe opcode: pop one type, push an array of it, followed by a `u64` element count.''\<rparr>,
    \<lparr>cd_name = ''RECIPE_CONST'', cd_ty = ScU8, cd_value = 8,
     cd_doc = ''Recipe opcode: pop one type, push its `const`-qualified form.''\<rparr>,
    \<lparr>cd_name = ''RECIPE_VOLATILE'', cd_ty = ScU8, cd_value = 9,
     cd_doc = ''Recipe opcode: pop one type, push its `volatile`-qualified form.''\<rparr>,
    \<lparr>cd_name = ''RECIPE_FUNCTION'', cd_ty = ScU8, cd_value = 10,
     cd_doc = ''Recipe opcode: build a function type (`u32` param count, `u8` varargs, `u16` cc, then that many `u32`-length-prefixed param names; pops the params then the return type, pushes the function).''\<rparr>,
    \<lparr>cd_name = ''RECIPE_BITFIELD'', cd_ty = ScU8, cd_value = 11,
     cd_doc = ''Recipe opcode: build a bitfield member type (`u8` container width in bytes, `u8` field width in bits, `u8` signedness); struct-member-only, rejected in a union.''\<rparr>]\<close>

definition type_build_fns_1 :: "fn_spec list" where
  \<open>type_build_fns_1 =
   [
    fns_row ''Parse `decl` against the local til and apply it at `ea`. `code` is `TYPE_OK`, `_ERR_INPUT` (parse failed), or `_ERR_APPLY`.''
      ''apply_type_decl'' [new_arg ''ea'' (AtScalar ScU64), new_arg ''decl'' AtStr, new_arg ''flags'' (AtScalar ScI32)] (RkValue (RsShared ''TypeWriteResult'')) BkCustom,
    fns_row ''Resolve the existing named type `name` and apply it at `ea`. `code` distinguishes not-found (`_ERR_INPUT`) from an apply rejection (`_ERR_APPLY`); `reason` is empty (no error channel).''
      ''apply_named_type'' [new_arg ''ea'' (AtScalar ScU64), new_arg ''name'' AtStr] (RkValue (RsShared ''TypeWriteResult'')) BkCustom,
    fns_row ''Clear any type applied at `ea`. Idempotent: `code` is `TYPE_OK` when there was nothing to clear; `reason` is empty (no error channel).''
      ''clear_type'' [new_arg ''ea'' (AtScalar ScU64)] (RkValue (RsShared ''TypeWriteResult'')) BkCustom,
    fns_row ''Build the `tinfo` the postfix recipe encodes and apply it at `ea`. Same codes as [`apply_type_decl`]; `_ERR_INPUT` is a malformed buffer or an unparseable embedded decl. An unknown named leaf builds a forward reference that fails later at apply, not here.''
      ''apply_type_recipe'' [new_arg ''ea'' (AtScalar ScU64), new_arg ''recipe'' AtBytes, new_arg ''flags'' (AtScalar ScI32)] (RkValue (RsShared ''TypeWriteResult'')) BkCustom,
    fns_row ''Parse the C declaration(s) in `input` into the local til. `code` is the parse-error count (`0` = ok).''
      ''define_type'' [new_arg ''input'' AtStr] (RkValue (RsShared ''TypeWriteResult'')) BkCustom,
    fns_row ''Delete the named type `type_name` from the local til, the inverse of [`define_type`]. See the `TEDIT_*` codes.''
      ''delete_type'' [new_arg ''type_name'' AtStr] (RkValue (RsShared ''TypeWriteResult'')) BkCustom,
    fns_row ''Rename the named type `type_name` to `new_name` in place, preserving its ordinal. Same `TEDIT_*` codes as the `udt_*`/`enum_*` fns.''
      ''rename_type'' [new_arg ''type_name'' AtStr, new_arg ''new_name'' AtStr] (RkValue (RsShared ''TypeWriteResult'')) BkCustom,
    fns_row ''Reserve `type_name` in the local til as an incomplete aggregate (`tinfo_t::create_forward_decl`), without a body. `decl_type` is a `type_t` (`BTF_STRUCT`/`BTF_UNION`/`BTF_ENUM`) selecting the aggregate kind. `code` is the raw `tinfo_code_t` (`0` = ok); no `TEDIT_*` pre-failure, since there is no existing type to load first.''
      ''forward_declare_type'' [new_arg ''type_name'' AtStr, new_arg ''decl_type'' (AtScalar ScU32)] (RkValue (RsShared ''TypeWriteResult'')) BkCustom,
    fns_row ''Replace the return type of the function type at `ea` with the recipe type, then rebuild and re-apply. See the `SIG_*` codes.''
      ''func_set_rettype'' [new_arg ''ea'' (AtScalar ScU64), new_arg ''recipe'' AtBytes] (RkValue (RsShared ''TypeWriteResult'')) BkCustom,
    fns_row ''Replace parameter `idx`'s type with the recipe type, then rebuild and re-apply. `arity` reports the current parameter count; `SIG_ARG_RANGE` when `idx` is past it.''
      ''func_set_argtype'' [new_arg ''ea'' (AtScalar ScU64), new_arg ''idx'' (AtScalar ScUsize), new_arg ''recipe'' AtBytes] (RkValue (RsShared ''SigWriteResult'')) BkCustom,
    fns_row ''Rename parameter `idx` to `name`, then rebuild and re-apply. `arity` reports the current parameter count; `SIG_ARG_RANGE` when `idx` is past it.''
      ''func_rename_arg'' [new_arg ''ea'' (AtScalar ScU64), new_arg ''idx'' (AtScalar ScUsize), new_arg ''name'' AtStr] (RkValue (RsShared ''SigWriteResult'')) BkCustom,
    fns_row ''Set the calling convention of the function type at `ea` to the raw `CM_CC_*` code `cc`, then rebuild and re-apply.''
      ''func_set_cc'' [new_arg ''ea'' (AtScalar ScU64), new_arg ''cc'' (AtScalar ScI32)] (RkValue (RsShared ''TypeWriteResult'')) BkCustom,
    fns_row ''Insert an implicit `this` parameter of the recipe type at index 0, then rebuild and re-apply.''
      ''func_prepend_this'' [new_arg ''ea'' (AtScalar ScU64), new_arg ''recipe'' AtBytes] (RkValue (RsShared ''TypeWriteResult'')) BkCustom,
    fns_row ''Add a member of the recipe type to the named struct/union `type_name` at bit offset `member_bit` (or appended when it is `MEMBER_APPEND`). An empty `member_name` adds an anonymous member. See the `TEDIT_*` codes.''
      ''udt_add_member'' [new_arg ''type_name'' AtStr, new_arg ''member_name'' AtStr, new_arg ''recipe'' AtBytes, new_arg ''member_bit'' (AtScalar ScU64)] (RkValue (RsShared ''TypeWriteResult'')) BkCustom,
    fns_row ''Replace the type of the member selected by `member_name` (or, when it is empty, by bit offset `member_bit`) in `type_name` with the recipe type, passing `etf_flags` (`etf_flag_t`, e.g. `ETF_COMPATIBLE`) to `set_udm_type`.''
      ''udt_set_member_type'' [new_arg ''type_name'' AtStr, new_arg ''member_name'' AtStr, new_arg ''member_bit'' (AtScalar ScU64), new_arg ''recipe'' AtBytes, new_arg ''etf_flags'' (AtScalar ScU32)] (RkValue (RsShared ''TypeWriteResult'')) BkCustom,
    fns_row ''Rename the member selected by `member_name` (or, when it is empty, by bit offset `member_bit`) in `type_name` to `new_name`.''
      ''udt_rename_member'' [new_arg ''type_name'' AtStr, new_arg ''member_name'' AtStr, new_arg ''member_bit'' (AtScalar ScU64), new_arg ''new_name'' AtStr] (RkValue (RsShared ''TypeWriteResult'')) BkCustom,
    fns_row ''Set the comment on the member selected by `member_name` (or, when it is empty, by bit offset `member_bit`) in `type_name` to `comment`, a plain member comment (`is_regcmt=false`).''
      ''udt_set_member_comment'' [new_arg ''type_name'' AtStr, new_arg ''member_name'' AtStr, new_arg ''member_bit'' (AtScalar ScU64), new_arg ''comment'' AtStr] (RkValue (RsShared ''TypeWriteResult'')) BkCustom,
    fns_row ''Set the value representation on the member selected by `member_name` (or, when it is empty, by bit offset `member_bit`) in `type_name`. `vtype` is a `value_repr_t` FRB_* value-type nibble; `is_signed`/`leading_zeros` set FRB_SIGNED/FRB_LZERO.''
      ''udt_set_member_repr'' [new_arg ''type_name'' AtStr, new_arg ''member_name'' AtStr, new_arg ''member_bit'' (AtScalar ScU64), new_arg ''vtype'' (AtScalar ScU32), new_arg ''is_signed'' (AtScalar ScBool), new_arg ''leading_zeros'' (AtScalar ScBool)] (RkValue (RsShared ''TypeWriteResult'')) BkCustom,
    fns_row ''Delete the member selected by `member_name` (or, when it is empty, by bit offset `member_bit`) from `type_name`.''
      ''udt_del_member'' [new_arg ''type_name'' AtStr, new_arg ''member_name'' AtStr, new_arg ''member_bit'' (AtScalar ScU64)] (RkValue (RsShared ''TypeWriteResult'')) BkCustom,
    fns_row ''Add an enum constant named `member_name` with `value` to the named enum `type_name`, in the explicit bitmask group `bmask` (`DEFMASK64` lets a bitmask enum use `value` itself as the group mask; ignored by an ordinary enum), passing `etf_flags` (`etf_flag_t`, e.g. `ETF_FORCENAME`) to `add_edm`. Same `TEDIT_*` codes as the `udt_*` fns.''
      ''enum_add_member'' [new_arg ''type_name'' AtStr, new_arg ''member_name'' AtStr, new_arg ''value'' (AtScalar ScU64), new_arg ''bmask'' (AtScalar ScU64), new_arg ''etf_flags'' (AtScalar ScU32)] (RkValue (RsShared ''TypeWriteResult'')) BkCustom,
    fns_row ''Set whether the named enum `type_name` is a bitmask (flag) enum (`tinfo_t::set_enum_is_bitmask`). Same `TEDIT_*` codes as the `udt_*`/`enum_*` fns.''
      ''enum_set_bitmask'' [new_arg ''type_name'' AtStr, new_arg ''on'' (AtScalar ScBool)] (RkValue (RsShared ''TypeWriteResult'')) BkCustom,
    fns_row ''Set the value representation on the named enum `type_name` (`tinfo_t::set_enum_repr`), the enum-level twin of [`udt_set_member_repr`]. `vtype` is a `value_repr_t` FRB_* value-type nibble; `is_signed`/`leading_zeros` set FRB_SIGNED/FRB_LZERO.''
      ''enum_set_repr'' [new_arg ''type_name'' AtStr, new_arg ''vtype'' (AtScalar ScU32), new_arg ''is_signed'' (AtScalar ScBool), new_arg ''leading_zeros'' (AtScalar ScBool)] (RkValue (RsShared ''TypeWriteResult'')) BkCustom,
    fns_row ''Set the storage width in bytes of the named enum `type_name`'s underlying type (`tinfo_t::set_enum_width`); `0` means unspecified.''
      ''enum_set_width'' [new_arg ''type_name'' AtStr, new_arg ''nbytes'' (AtScalar ScI32)] (RkValue (RsShared ''TypeWriteResult'')) BkCustom,
    fns_row ''Set the value of the enum constant `member_name` in the named enum `type_name`.''
      ''enum_set_member_value'' [new_arg ''type_name'' AtStr, new_arg ''member_name'' AtStr, new_arg ''value'' (AtScalar ScU64)] (RkValue (RsShared ''TypeWriteResult'')) BkCustom,
    fns_row ''Rename the enum constant `member_name` in the named enum `type_name` to `new_name`, passing `etf_flags` (`etf_flag_t`, e.g. `ETF_FORCENAME`) to `rename_edm`.''
      ''enum_rename_member'' [new_arg ''type_name'' AtStr, new_arg ''member_name'' AtStr, new_arg ''new_name'' AtStr, new_arg ''etf_flags'' (AtScalar ScU32)] (RkValue (RsShared ''TypeWriteResult'')) BkCustom,
    fns_row ''Delete the enum constant `member_name` from the named enum `type_name`.''
      ''enum_del_member'' [new_arg ''type_name'' AtStr, new_arg ''member_name'' AtStr] (RkValue (RsShared ''TypeWriteResult'')) BkCustom,
    fns_row ''Delete the enum constant carrying `value` from the named enum `type_name` (`tinfo_t::del_edm_by_value`), the value-keyed sibling of [`enum_del_member`]. Uses the default bitmask (`DEFMASK64`) and serial (`0`), so it targets the plain value match, not a specific bitmask group or serial. `TERR_NOT_FOUND` (`TypeEditCode::NotFound`) when no constant carries `value`.''
      ''enum_del_member_by_value'' [new_arg ''type_name'' AtStr, new_arg ''value'' (AtScalar ScU64)] (RkValue (RsShared ''TypeWriteResult'')) BkCustom,
    fns_row ''The `void` type as a fresh [`UniquePtr`](cxx::UniquePtr) handle, freed by the cxx deleter (`~tinfo_t`) on drop.''
      ''tinfo_void'' [] (RkValue (RsUniquePtr ''TInfo'')) BkCustom,
    fns_row ''The boolean type as a fresh [`UniquePtr`](cxx::UniquePtr) handle.''
      ''tinfo_bool'' [] (RkValue (RsUniquePtr ''TInfo'')) BkCustom,
    fns_row ''A `bytes`-wide integer (1/2/4/8/16), signed when `is_signed`, as a fresh handle; a null handle when the width is unsupported.''
      ''tinfo_int'' [new_arg ''bytes'' (AtScalar ScU32), new_arg ''is_signed'' (AtScalar ScBool)] (RkValue (RsUniquePtr ''TInfo'')) BkCustom,
    fns_row ''A `bytes`-wide float (4 or 8) as a fresh handle; a null handle when the width is not 4 or 8.''
      ''tinfo_float'' [new_arg ''bytes'' (AtScalar ScU32)] (RkValue (RsUniquePtr ''TInfo'')) BkCustom,
    fns_row ''The named type `name` as a fresh handle, an unresolved typedef ref. Builds a non-null forward reference even for a name absent from the local til, so the caller checks existence separately.''
      ''tinfo_named'' [new_arg ''name'' AtStr] (RkValue (RsUniquePtr ''TInfo'')) BkCustom,
    fns_row ''The type `decl` parses to against the local til, as a fresh handle; `Err` (with the captured parse diagnostic) on a parse failure.''
      ''tinfo_decl'' [new_arg ''decl'' AtStr] (RkFallible (RsUniquePtr ''TInfo'')) BkCustom,
    fns_row ''A pointer to `inner` as a fresh handle. `inner` is copied, not consumed; a null handle if the pointer type cannot be built.''
      ''tinfo_ptr'' [new_arg ''inner'' (AtExternRef ''TInfo'')] (RkValue (RsUniquePtr ''TInfo'')) BkCustom,
    fns_row ''An `nelems`-element array of `inner` as a fresh handle. `inner` is copied, not consumed; a null handle when `nelems` exceeds `u32` or the array cannot be built.''
      ''tinfo_array'' [new_arg ''inner'' (AtExternRef ''TInfo''), new_arg ''nelems'' (AtScalar ScU64)] (RkValue (RsUniquePtr ''TInfo'')) BkCustom,
    fns_row ''A `const`-qualified copy of `inner` as a fresh handle. `inner` is not consumed.''
      ''tinfo_const'' [new_arg ''inner'' (AtExternRef ''TInfo'')] (RkValue (RsUniquePtr ''TInfo'')) BkCustom,
    fns_row ''A `volatile`-qualified copy of `inner` as a fresh handle. `inner` is not consumed.''
      ''tinfo_volatile'' [new_arg ''inner'' (AtExternRef ''TInfo'')] (RkValue (RsUniquePtr ''TInfo'')) BkCustom,
    fns_row ''Apply the built `handle` at `ea` (`apply_tinfo`, `TINFO_DEFINITE | flags`). `code` is `TYPE_OK`/`_ERR_APPLY`; the handle is not consumed.''
      ''tinfo_apply'' [new_arg ''ea'' (AtScalar ScU64), new_arg ''handle'' (AtExternRef ''TInfo''), new_arg ''flags'' (AtScalar ScI32)] (RkValue (RsShared ''TypeWriteResult'')) BkCustom,
    fns_row ''This SDK's `CM_CC_*` values in idakit `CallingConvention`'s discriminant order, an alignment source pinning the Rust mirror to this SDK build in a test. Emitted in the raw pre-shifted high-nibble space the SDK stores them in (`CM_CC_CDECL` is `0x30`); covers only the modelled plain conventions.''
      ''cm_cc_ids'' [] (RkValue (RsVecScalar ScU8)) BkCustom]\<close>

definition type_build_fns_2 :: "fn_spec list" where
  \<open>type_build_fns_2 =
   [
    fns_row ''This SDK's `FRB_*` value-type nibbles in idakit `NumberFormat`'s discriminant order, an alignment source for a mirror test. Covers only the modelled non-info-carrying subset.''
      ''frb_vtype_ids'' [] (RkValue (RsVecScalar ScU32)) BkCustom,
    fns_row ''This SDK's `tinfo_code_t` (`TERR_*`) values in idakit `TypeEditCode`'s discriminant order, an alignment source for a mirror test. Signed: every code but `TERR_OK` is negative. The `TERR_COUNT` sentinel is not a code and is absent.''
      ''tinfo_code_ids'' [] (RkValue (RsVecScalar ScI32)) BkCustom]\<close>

definition TYPE_BUILD_DOMAIN :: domain_spec where
  \<open>TYPE_BUILD_DOMAIN =
   \<lparr>dm_name = ''type_build'', dm_sdk_includes = [''<kernwin.hpp>'', ''<nalt.hpp>'', ''<typeinf.hpp>''], dm_externs = [xt_TInfo], dm_structs = [st_TypeWriteResult, st_SigWriteResult],
    dm_consts = type_build_consts_1 @ type_build_consts_2, dm_fns = type_build_fns_1 @ type_build_fns_2, dm_custom_tus = [''facade/type_apply.cpp'', ''facade/type_define.cpp'', ''facade/udt_edit.cpp'', ''facade/enum_edit.cpp'', ''facade/func_sig.cpp'', ''facade/tinfo_build.cpp'', ''facade/type_write_common.cpp'']\<rparr>\<close>

definition ty_fns :: "fn_spec list" where
  \<open>ty_fns =
   [
    fns_row ''The prototype of the function at `ea` (one line, `PRTYPE_1LINE`); `Err` when it has no type.''
      ''func_type'' [new_arg ''ea'' (AtScalar ScU64)] (RkFallible RsString) BkCustom,
    fns_row ''Exclusive upper bound on local-type ordinals: valid ordinals run `1..limit`.''
      ''type_ordinal_limit'' [] (RkValue (RsScalar ScU32)) (BkScalarCall ''get_ordinal_limit(get_idati())''),
    fns_row ''Name of the local type at `ordinal` (empty for an anonymous type); `Err` when the ordinal holds no type.''
      ''type_name_at'' [new_arg ''ordinal'' (AtScalar ScU32)] (RkFallible RsString) BkCustom]\<close>

definition TY_DOMAIN :: domain_spec where
  \<open>TY_DOMAIN =
   \<lparr>dm_name = ''ty'', dm_sdk_includes = [''<typeinf.hpp>'', ''<stdexcept>''], dm_externs = [], dm_structs = [],
    dm_consts = [], dm_fns = ty_fns, dm_custom_tus = [''facade/local_types.cpp'']\<rparr>\<close>

subsection \<open>The visitor bridge and the constants of no domain\<close>

definition st_LocPiece :: shared_struct where
  \<open>st_LocPiece =
   \<lparr>ss_name = ''LocPiece'',
    ss_doc = ''One fragment of a scattered (`ALOC_DIST`) local's location. `atype` is the fragment's own `ALOC_*` (a register or stack slot); `off`/`size` give the byte range of the whole value this fragment covers.'',
    ss_fields = [
     fields_row ''atype'' (FtScalar ScU32) ''The fragment's own `ALOC_*` discriminant.'',
     fields_row ''reg'' (FtScalar ScU32) ''Register number, meaningful only for a register fragment.'',
     fields_row ''sval'' (FtScalar ScI64) ''Stack offset or static address, meaningful only for a stack/static fragment.'',
     fields_row ''off'' (FtScalar ScU32) ''Byte offset of this fragment within the whole scattered value.'',
     fields_row ''size'' (FtScalar ScU32) ''Byte size of this fragment.'']\<rparr>\<close>

definition ctree_sink_methods :: "visitor_method list" where
  \<open>ctree_sink_methods =
   [
    methods_row ''A numeric literal; returns its handle.''
      ''e_num'' [new_arg ''ea'' (AtScalar ScU64), new_arg ''value'' (AtScalar ScU64), new_arg ''ty'' (AtScalar ScU32)] (RkValue (RsScalar ScU32)),
    methods_row ''A floating-point literal; returns its handle.''
      ''e_fnum'' [new_arg ''ea'' (AtScalar ScU64), new_arg ''value'' AtF64, new_arg ''ty'' (AtScalar ScU32)] (RkValue (RsScalar ScU32)),
    methods_row ''A reference to the global object at `target`, named `name`; returns its handle.''
      ''e_obj'' [new_arg ''ea'' (AtScalar ScU64), new_arg ''target'' (AtScalar ScU64), new_arg ''name'' AtString, new_arg ''ty'' (AtScalar ScU32)] (RkValue (RsScalar ScU32)),
    methods_row ''A reference to local variable `idx` (the [`l_lvar`](Self::l_lvar) append order); returns its handle.''
      ''e_var'' [new_arg ''ea'' (AtScalar ScU64), new_arg ''idx'' (AtScalar ScU32), new_arg ''ty'' (AtScalar ScU32)] (RkValue (RsScalar ScU32)),
    methods_row ''A string literal, as IDA's escaped display form (`e->string`, already C-escaped); returns its handle.''
      ''e_str'' [new_arg ''ea'' (AtScalar ScU64), new_arg ''text'' AtString, new_arg ''ty'' (AtScalar ScU32)] (RkValue (RsScalar ScU32)),
    methods_row ''A decompiler-synthesized helper name; returns its handle.''
      ''e_helper'' [new_arg ''ea'' (AtScalar ScU64), new_arg ''name'' AtString, new_arg ''ty'' (AtScalar ScU32)] (RkValue (RsScalar ScU32)),
    methods_row ''A call to the already-visited `callee` with the already-visited `args`; returns its handle.''
      ''e_call'' [new_arg ''ea'' (AtScalar ScU64), new_arg ''callee'' (AtScalar ScU32), new_arg ''args'' (AtSlice ScU32), new_arg ''ty'' (AtScalar ScU32)] (RkValue (RsScalar ScU32)),
    methods_row ''A `.` member reference into the already-visited `obj` at bit `offset`; returns its handle.''
      ''e_memref'' [new_arg ''ea'' (AtScalar ScU64), new_arg ''obj'' (AtScalar ScU32), new_arg ''offset'' (AtScalar ScU32), new_arg ''ty'' (AtScalar ScU32)] (RkValue (RsScalar ScU32)),
    methods_row ''A `->` member pointer into the already-visited `obj` at bit `offset`; returns its handle.''
      ''e_memptr'' [new_arg ''ea'' (AtScalar ScU64), new_arg ''obj'' (AtScalar ScU32), new_arg ''offset'' (AtScalar ScU32), new_arg ''ty'' (AtScalar ScU32)] (RkValue (RsScalar ScU32)),
    methods_row ''A pointer dereference of the already-visited `x`, `size` bytes; returns its handle.''
      ''e_deref'' [new_arg ''ea'' (AtScalar ScU64), new_arg ''x'' (AtScalar ScU32), new_arg ''size'' (AtScalar ScU32), new_arg ''ty'' (AtScalar ScU32)] (RkValue (RsScalar ScU32)),
    methods_row ''A generic operator node (binary/assign/unary/ternary/cast/index/sizeof/empty/type/insn); the raw `ctype_t` is passed for the sink to classify, absent operands as `NONE`; returns its handle.''
      ''e_op'' [new_arg ''ea'' (AtScalar ScU64), new_arg ''ctype'' (AtScalar ScU32), new_arg ''x'' (AtScalar ScU32), new_arg ''y'' (AtScalar ScU32), new_arg ''z'' (AtScalar ScU32), new_arg ''ty'' (AtScalar ScU32)] (RkValue (RsScalar ScU32)),
    methods_row ''A `{ ... }` block of the already-visited `kids`; returns its handle.''
      ''s_block'' [new_arg ''ea'' (AtScalar ScU64), new_arg ''kids'' (AtSlice ScU32)] (RkValue (RsScalar ScU32)),
    methods_row ''An expression statement wrapping the already-visited `e`; returns its handle.''
      ''s_expr'' [new_arg ''ea'' (AtScalar ScU64), new_arg ''e'' (AtScalar ScU32)] (RkValue (RsScalar ScU32)),
    methods_row ''An `if`/`then`/`else` (else is `NONE` when absent); returns its handle.''
      ''s_if'' [new_arg ''ea'' (AtScalar ScU64), new_arg ''cond'' (AtScalar ScU32), new_arg ''then_s'' (AtScalar ScU32), new_arg ''else_s'' (AtScalar ScU32)] (RkValue (RsScalar ScU32)),
    methods_row ''A `for` loop; any of `init`/`cond`/`step` may be `NONE`; returns its handle.''
      ''s_for'' [new_arg ''ea'' (AtScalar ScU64), new_arg ''init'' (AtScalar ScU32), new_arg ''cond'' (AtScalar ScU32), new_arg ''step'' (AtScalar ScU32), new_arg ''body'' (AtScalar ScU32)] (RkValue (RsScalar ScU32)),
    methods_row ''A `while` loop; returns its handle.''
      ''s_while'' [new_arg ''ea'' (AtScalar ScU64), new_arg ''cond'' (AtScalar ScU32), new_arg ''body'' (AtScalar ScU32)] (RkValue (RsScalar ScU32)),
    methods_row ''A `do`/`while` loop; returns its handle.''
      ''s_do'' [new_arg ''ea'' (AtScalar ScU64), new_arg ''body'' (AtScalar ScU32), new_arg ''cond'' (AtScalar ScU32)] (RkValue (RsScalar ScU32)),
    methods_row ''A `switch`, as parallel flat arrays: `bodies[i]` is case `i`'s body handle, `value_counts[i]` is how many `u64` values case `i` has, and `values` is all case values concatenated in order (case 0's values, then case 1's, ...). An empty values run is the default case. Returns its handle.''
      ''s_switch'' [new_arg ''ea'' (AtScalar ScU64), new_arg ''expr'' (AtScalar ScU32), new_arg ''bodies'' (AtSlice ScU32), new_arg ''value_counts'' (AtSlice ScU32), new_arg ''values'' (AtSlice ScU64)] (RkValue (RsScalar ScU32)),
    methods_row ''A `break`; returns its handle.''
      ''s_break'' [new_arg ''ea'' (AtScalar ScU64)] (RkValue (RsScalar ScU32)),
    methods_row ''A `continue`; returns its handle.''
      ''s_continue'' [new_arg ''ea'' (AtScalar ScU64)] (RkValue (RsScalar ScU32)),
    methods_row ''A `return`, or a bare `return;` when `e` is `NONE`; returns its handle.''
      ''s_return'' [new_arg ''ea'' (AtScalar ScU64), new_arg ''e'' (AtScalar ScU32)] (RkValue (RsScalar ScU32)),
    methods_row ''A `goto` to `label`; returns its handle.''
      ''s_goto'' [new_arg ''ea'' (AtScalar ScU64), new_arg ''label'' (AtScalar ScI32)] (RkValue (RsScalar ScU32)),
    methods_row ''An inline-asm block, one already-computed address per line; returns its handle.''
      ''s_asm'' [new_arg ''ea'' (AtScalar ScU64), new_arg ''addrs'' (AtSlice ScU64)] (RkValue (RsScalar ScU32)),
    methods_row ''A `try`/`catch`, the already-visited guarded `body` and each `catches` block; returns its handle.''
      ''s_try'' [new_arg ''ea'' (AtScalar ScU64), new_arg ''body'' (AtScalar ScU32), new_arg ''catches'' (AtSlice ScU32)] (RkValue (RsScalar ScU32)),
    methods_row ''A `throw`, or a bare `throw;` when `e` is `NONE`; returns its handle.''
      ''s_throw'' [new_arg ''ea'' (AtScalar ScU64), new_arg ''e'' (AtScalar ScU32)] (RkValue (RsScalar ScU32)),
    methods_row ''An empty statement (or any statement kind the walk doesn't otherwise model); returns its handle.''
      ''s_empty'' [new_arg ''ea'' (AtScalar ScU64)] (RkValue (RsScalar ScU32)),
    methods_row ''One local variable, appended in index order, the index [`e_var`](Self::e_var)'s `idx` refers to. `flags`: bit0 `is_arg`, bit1 `is_result`, bit2 `is_byref`. `atype`/`reg1`/`reg2`/`sval` are the flattened `argloc_t` scalars; `pieces` is the scattered-location fragments, empty unless `atype` marks a scattered (`ALOC_DIST`) location.''
      ''l_lvar'' [new_arg ''name'' AtString, new_arg ''ty'' (AtScalar ScU32), new_arg ''flags'' (AtScalar ScU32), new_arg ''width'' (AtScalar ScU32), new_arg ''comment'' AtString, new_arg ''atype'' (AtScalar ScU32), new_arg ''reg1'' (AtScalar ScU32), new_arg ''reg2'' (AtScalar ScU32), new_arg ''sval'' (AtScalar ScI64), new_arg ''pieces'' (AtSliceStruct ''LocPiece'')] (RkValue RsUnit)]\<close>

definition CTREE_SINK :: visitor_sink where
  \<open>CTREE_SINK =
   \<lparr>vs_sink_name = ''CtreeSink'',
    vs_sink_doc = (''A ctree walk target the visitor drives inline, one method per expression, statement, and local variable kind.'' @ [CHR 0x0A, CHR 0x0A] @ ''The consumer (`idakit`) implements it over its own node builder, and [`CtreeVisitor`] forwards every C++ call straight into it. Expression/statement methods mint and return the walk-local handle the parent will reference; children are visited before parents (post-order), so a method's array/slice arguments are already-minted handles. [`l_lvar`](Self::l_lvar) is void and appended in index order, the order [`e_var`](Self::e_var)'s `idx` refers to. Names, string literals, and comments cross as owned `String`, decoded leniently facade-side (IDA emits UTF-8; any undecodable unit is U+FFFD).''),
    vs_visitor_name = ''CtreeVisitor'',
    vs_visitor_doc = (''The `cxx` `extern "Rust"` opaque the C++ ctree walk drives by calling its `&mut self` methods, each forwarding into the [`CtreeSink`] it was built over.'' @ [CHR 0x0A, CHR 0x0A] @ ''`cxx` generates a C++ class with a member function per method below; `facade/ctree_bridge.cpp` receives a `CtreeVisitor&` and calls them. The visitor holds the sink as a lifetime-erased raw pointer: [`CtreeVisitor::from_raw`] is its only constructor, and the caller keeps the borrowed sink alive across the one synchronous walk, so the pointer is always valid and unaliased when a method reborrows it.''),
    vs_methods = ctree_sink_methods\<rparr>\<close>

definition st_MemberInfo :: shared_struct where
  \<open>st_MemberInfo =
   \<lparr>ss_name = ''MemberInfo'',
    ss_doc = ''One struct/union member, crossed inside a slice for one `fill_struct` call. `name` is an owned `String`: the sink interns members into its own table, so the transient owned copy the walk allocates is copied on anyway.'',
    ss_fields = [
     fields_row ''name'' FtStr ''The member's name.'',
     fields_row ''bit_offset'' (FtScalar ScU64) ''Offset from the aggregate start, in bits.'',
     fields_row ''ty'' (FtScalar ScU32) ''Walk-local handle of the member's type.'',
     fields_row ''bitfield_width'' (FtScalar ScU32) ''Bit width for a bitfield member (0 for an ordinary field).'',
     fields_row ''repr_vtype'' (FtScalar ScU32) ''`value_repr_t` FRB_* value-type nibble, or 0 (`FRB_UNK`) when unset or outside the numeric subset idakit models.'',
     fields_row ''repr_signed'' (FtScalar ScBool) ''`FRB_SIGNED`; meaningless when `repr_vtype` is 0.'',
     fields_row ''repr_leading_zeros'' (FtScalar ScBool) ''`FRB_LZERO`; meaningless when `repr_vtype` is 0.'']\<rparr>\<close>

definition st_EnumConstInfo :: shared_struct where
  \<open>st_EnumConstInfo =
   \<lparr>ss_name = ''EnumConstInfo'',
    ss_doc = ''One enum constant, the enum twin of [`MemberInfo`].'',
    ss_fields = [
     fields_row ''name'' FtStr ''The constant's name.'',
     fields_row ''value'' (FtScalar ScU64) ''The constant's value.'']\<rparr>\<close>

definition st_FrameVar :: shared_struct where
  \<open>st_FrameVar =
   \<lparr>ss_name = ''FrameVar'',
    ss_doc = ''One stack-frame variable, an owned shared struct returned in a [`FrameWalk`].'',
    ss_fields = [
     fields_row ''name'' FtStr ''The variable's name.'',
     fields_row ''offset'' (FtScalar ScI64) ''Frame-pointer-relative byte offset.'',
     fields_row ''size'' (FtScalar ScU64) ''Size in bytes.'',
     fields_row ''flags'' (FtScalar ScU32) ''Reserved-slot flags (return address / saved registers); 0 for an ordinary variable.'',
     fields_row ''ty'' (FtScalar ScU32) ''Walk-local handle of the variable's type, or `NONE` for a reserved/untyped slot.'']\<rparr>\<close>

definition st_FrameWalk :: shared_struct where
  \<open>st_FrameWalk =
   \<lparr>ss_name = ''FrameWalk'',
    ss_doc = ''A walked stack frame: its total byte size and its variables, returned by `frame_type_walk_visit`.'',
    ss_fields = [
     fields_row ''size'' (FtScalar ScU64) ''Total frame size in bytes.'',
     fields_row ''vars'' (FtVecStruct ''FrameVar'') ''The frame's variables, in frame order.'']\<rparr>\<close>

definition type_walk_sink_methods :: "visitor_method list" where
  \<open>type_walk_sink_methods =
   [
    methods_row ''A scalar leaf (`kind`: 0 unknown, 1 void, 2 bool, 3 integral, 4 float); returns its handle.''
      ''scalar'' [new_arg ''kind'' (AtScalar ScU32), new_arg ''bytes'' (AtScalar ScU32), new_arg ''is_signed'' (AtScalar ScU32), new_arg ''size'' (AtScalar ScU64), new_arg ''has_size'' (AtScalar ScU32)] (RkValue (RsScalar ScU32)),
    methods_row ''A pointer to the already-visited `target`; returns its handle.''
      ''ptr'' [new_arg ''target'' (AtScalar ScU32), new_arg ''size'' (AtScalar ScU64), new_arg ''has_size'' (AtScalar ScU32)] (RkValue (RsScalar ScU32)),
    methods_row ''An array of `nelems` of the already-visited `elem`; returns its handle.''
      ''array'' [new_arg ''elem'' (AtScalar ScU32), new_arg ''nelems'' (AtScalar ScU64), new_arg ''size'' (AtScalar ScU64), new_arg ''has_size'' (AtScalar ScU32)] (RkValue (RsScalar ScU32)),
    methods_row ''A function of the already-visited `ret` and `params`; returns its handle.''
      ''func'' [new_arg ''ret'' (AtScalar ScU32), new_arg ''params'' (AtSlice ScU32), new_arg ''vararg'' (AtScalar ScU32)] (RkValue (RsScalar ScU32)),
    methods_row ''A named-but-bodyless / unresolved leaf carrying its resolved `name`; returns its handle.''
      ''opaque'' [new_arg ''name'' AtString] (RkValue (RsScalar ScU32)),
    methods_row ''A by-name placeholder for a named aggregate/typedef; returns its handle.''
      ''named_ref'' [new_arg ''name'' AtString] (RkValue (RsScalar ScU32)),
    methods_row ''An anonymous-aggregate placeholder; returns its handle.''
      ''anon'' [] (RkValue (RsScalar ScU32)),
    methods_row ''Fills the struct/union placeholder `id` with its `members`.''
      ''fill_struct'' [new_arg ''id'' (AtScalar ScU32), new_arg ''is_union'' (AtScalar ScBool), new_arg ''members'' (AtSliceStruct ''MemberInfo''), new_arg ''size'' (AtScalar ScU64), new_arg ''has_size'' (AtScalar ScU32)] (RkValue RsUnit),
    methods_row ''Fills the enum placeholder `id` with its `consts` over the already-visited `underlying`. `repr_vtype`/`repr_signed`/`repr_leading_zeros` are the enum's own `value_repr_t`, the same shape [`MemberInfo`](ffi::MemberInfo) carries per-member (0 = `FRB_UNK`/unmodeled).''
      ''fill_enum'' [new_arg ''id'' (AtScalar ScU32), new_arg ''underlying'' (AtScalar ScU32), new_arg ''consts'' (AtSliceStruct ''EnumConstInfo''), new_arg ''size'' (AtScalar ScU64), new_arg ''has_size'' (AtScalar ScU32), new_arg ''is_bitmask'' (AtScalar ScBool), new_arg ''repr_vtype'' (AtScalar ScU32), new_arg ''repr_signed'' (AtScalar ScBool), new_arg ''repr_leading_zeros'' (AtScalar ScBool)] (RkValue RsUnit),
    methods_row ''Fills the typedef placeholder `id` with its already-visited `underlying`.''
      ''fill_typedef'' [new_arg ''id'' (AtScalar ScU32), new_arg ''underlying'' (AtScalar ScU32)] (RkValue RsUnit)]\<close>

definition TYPE_WALK_SINK :: visitor_sink where
  \<open>TYPE_WALK_SINK =
   \<lparr>vs_sink_name = ''TypeWalkSink'',
    vs_sink_doc = (''A walk target the type visitor drives inline, one method per tinfo node kind.'' @ [CHR 0x0A, CHR 0x0A] @ ''The consumer (`idakit`) implements it over its own interned type table, and [`TypeWalkVisitor`] forwards every C++ call straight into it. Handle-returning methods mint and return the walk-local id the parent will reference (children are visited before parents); the `fill_*` methods complete a placeholder minted earlier by [`named_ref`](Self::named_ref)/[`anon`](Self::anon). A type name crosses as an owned `String`, decoded leniently facade-side; slices are borrowed for the one call only.''),
    vs_visitor_name = ''TypeWalkVisitor'',
    vs_visitor_doc = (''The `cxx` `extern "Rust"` opaque the C++ type walk drives by calling its `&mut self` methods, each forwarding into the [`TypeWalkSink`] it was built over.'' @ [CHR 0x0A, CHR 0x0A] @ ''`cxx` generates a C++ class with a member function per method below; `facade/typewalk_bridge.cpp` receives a `TypeWalkVisitor&` and calls them. The visitor holds the sink as a lifetime-erased raw pointer: the [`walk_type_named`]/[`walk_type_ordinal`]/[`walk_func_type`] drivers are its only constructors, and each keeps the borrowed sink alive across the one synchronous walk, so the pointer is always valid and unaliased when a method reborrows it.''),
    vs_methods = type_walk_sink_methods\<rparr>\<close>

definition DRIVERS :: "visitor_driver list" where
  \<open>DRIVERS =
   [
    \<lparr>vd_name = ''cfunc_walk_ctree'',
     vd_doc = (''Walk `cfunc`'s ctree, minting nodes and locals through `nodes` and node types through the tinfo walker whose pointer is passed as an integer address in `type_visitor` (`cxx` has no `c_void`; the C++ side reinterprets it back to `void*` for the shared type walker). Returns the root statement handle.'' @ [CHR 0x0A, CHR 0x0A] @ ''# Safety'' @ [CHR 0x0A] @ ''`type_visitor` must be a live `TypeWalkVisitor*`, cast to `usize`, that outlives the call.''),
     vd_args = [new_arg ''cfunc'' (AtExternRef ''CFunc''), new_arg ''nodes'' (AtVisitorMut ''CtreeVisitor''), new_arg ''type_visitor'' (AtScalar ScUsize)], vd_ret = (RkValue (RsScalar ScU32)), vd_unsafe = True\<rparr>,
    \<lparr>vd_name = ''type_walk_visit_named'',
     vd_doc = ''Walk the local type named `name`, driving `visitor`'s methods per node; returns the root handle. `Err` when no such type exists (or a thrown SDK error).'',
     vd_args = [new_arg ''name'' AtStr, new_arg ''visitor'' (AtVisitorMut ''TypeWalkVisitor'')], vd_ret = (RkFallible (RsScalar ScU32)), vd_unsafe = False\<rparr>,
    \<lparr>vd_name = ''type_walk_visit_ordinal'',
     vd_doc = ''Walk the local type at `ordinal`, driving `visitor`'s methods per node; returns the root handle. `Err` when no type occupies the ordinal (or a thrown SDK error).'',
     vd_args = [new_arg ''ordinal'' (AtScalar ScU32), new_arg ''visitor'' (AtVisitorMut ''TypeWalkVisitor'')], vd_ret = (RkFallible (RsScalar ScU32)), vd_unsafe = False\<rparr>,
    \<lparr>vd_name = ''func_type_walk_visit'',
     vd_doc = ''Walk the stored prototype of the function at `ea`, driving `visitor`; returns the root handle. `Err` when the function has no type info.'',
     vd_args = [new_arg ''ea'' (AtScalar ScU64), new_arg ''visitor'' (AtVisitorMut ''TypeWalkVisitor'')], vd_ret = (RkFallible (RsScalar ScU32)), vd_unsafe = False\<rparr>,
    \<lparr>vd_name = ''frame_type_walk_visit'',
     vd_doc = ''Walk the stack frame of the function at `ea`: each variable's type through `visitor`, returning the frame size and variables. `Err` when there is no function or frame at `ea`.'',
     vd_args = [new_arg ''ea'' (AtScalar ScU64), new_arg ''visitor'' (AtVisitorMut ''TypeWalkVisitor'')], vd_ret = (RkFallible (RsShared ''FrameWalk'')), vd_unsafe = False\<rparr>]\<close>

definition VISITOR_BRIDGE :: visitor_bridge where
  \<open>VISITOR_BRIDGE =
   \<lparr>vb_structs = [st_LocPiece, st_MemberInfo, st_EnumConstInfo, st_FrameVar, st_FrameWalk],
    vb_sinks = [CTREE_SINK, TYPE_WALK_SINK], vb_drivers = DRIVERS\<rparr>\<close>

definition FACADE_CONSTS :: "const_def list" where
  \<open>FACADE_CONSTS =
   [
    \<lparr>cd_name = ''NONE'', cd_ty = ScU32, cd_value = 4294967295,
     cd_doc = ''Absent optional child / sentinel for the visitor bridge (ctree and tinfo walks).''\<rparr>,
    \<lparr>cd_name = ''EXIT_TRAPPED'', cd_ty = ScI32, cd_value = - 2147483647,
     cd_doc = ''Sentinel rc a guarded call returns when it trapped a fatal `exit`/`abort` instead of it tearing down the process.''\<rparr>]\<close>

definition HIDDEN_FACADE_CONSTS :: "const_def list" where
  \<open>HIDDEN_FACADE_CONSTS =
   [
    \<lparr>cd_name = ''FATAL_EXIT'', cd_ty = ScI32, cd_value = 0,
     cd_doc = ''`test_fatal`/`trigger_fatal` kind: run `exit()` inside the guarded call.''\<rparr>,
    \<lparr>cd_name = ''FATAL_ABORT'', cd_ty = ScI32, cd_value = 1,
     cd_doc = ''`test_fatal`/`trigger_fatal` kind: run `abort()` inside the guarded call.''\<rparr>,
    \<lparr>cd_name = ''FATAL_INTERR'', cd_ty = ScI32, cd_value = 2,
     cd_doc = ''`test_fatal`/`trigger_fatal` kind: run `interr()` inside the guarded call.''\<rparr>]\<close>

subsection \<open>All domains\<close>

definition domains :: "domain_spec list" where
  "domains = [SEGMENT_DOMAIN, IMPORT_DOMAIN, RANGE_DOMAIN, FUNCTION_DOMAIN, EXPORT_DOMAIN, META_DOMAIN,
     NAME_DOMAIN, STRINGS_DOMAIN, CFG_DOMAIN, REFERENCE_DOMAIN, BYTES_DOMAIN, INSTRUCTION_DOMAIN,
     HEXRAYS_DOMAIN, TYPE_BUILD_DOMAIN, TY_DOMAIN, netnode_domain]"

end
