(* ===== verification/Bridge_Tables.thy ===== *)
theory Bridge_Tables
  imports Bridge_Domains
begin

text \<open>
  What the tables of the binding generator guarantee: generating from them does not panic, every
  function has the same prototype on both sides, and names are distinct.
\<close>

subsection \<open>Rows\<close>

text \<open>
  The texts \<open>Ident::new\<close> is asked for by the declaration of a function, and the extern types its
  signature looks up.
\<close>

definition ident_char :: "char \<Rightarrow> bool" where
  "ident_char c \<longleftrightarrow> c = CHR ''_'' \<or> (97 \<le> byte c \<and> byte c \<le> 122) \<or> (65 \<le> byte c \<and> byte c \<le> 90)"

definition ascii_ident :: "string \<Rightarrow> bool" where
  "ascii_ident n \<longleftrightarrow>
     (case n of
        c # cs \<Rightarrow> ident_char c \<and> list_all (\<lambda>d. ident_char d \<or> (48 \<le> byte d \<and> byte d \<le> 57)) cs
      | [] \<Rightarrow> False)"

fun arg_names :: "arg_ty \<Rightarrow> string list" where
  "arg_names (AtExtern n) = [n]"
| "arg_names (AtExternRef n) = [n]"
| "arg_names (AtSliceStruct n) = [n]"
| "arg_names (AtVisitorMut n) = [n]"
| "arg_names _ = []"

fun shape_names :: "ret_shape \<Rightarrow> string list" where
  "shape_names (RsExtern n) = [n]"
| "shape_names (RsShared n) = [n]"
| "shape_names (RsUniquePtr n) = [n]"
| "shape_names (RsVec n) = [n]"
| "shape_names _ = []"

fun arg_lookups :: "arg_ty \<Rightarrow> string list" where
  "arg_lookups (AtExtern n) = [n]"
| "arg_lookups (AtExternRef n) = [n]"
| "arg_lookups _ = []"

fun shape_lookups :: "ret_shape \<Rightarrow> string list" where
  "shape_lookups (RsExtern n) = [n]"
| "shape_lookups (RsUniquePtr n) = [n]"
| "shape_lookups _ = []"

definition fn_idents :: "fn_spec \<Rightarrow> string list" where
  "fn_idents f =
     sp_name f # (case sp_receiver f of Some r \<Rightarrow> [r] | None \<Rightarrow> []) @
     concat (map (\<lambda>a. ag_name a # arg_names (ag_ty a)) (sp_args f)) @ shape_names (ret_shape_of (sp_ret f))"

definition fn_lookups :: "fn_spec \<Rightarrow> string list" where
  "fn_lookups f =
     (case sp_receiver f of Some r \<Rightarrow> [r] | None \<Rightarrow> []) @
     concat (map (\<lambda>a. arg_lookups (ag_ty a)) (sp_args f)) @ shape_lookups (ret_shape_of (sp_ret f))"

definition fn_sound :: "extern_ty list \<Rightarrow> fn_spec \<Rightarrow> bool" where
  "fn_sound ex f \<longleftrightarrow>
     fn_ok ex f \<and> list_all ascii_ident (fn_idents f) \<and> list_all (extern_exists ex) (fn_lookups f)"

lemma row_facts [simp]:
  "sp_name (fns_row d n a r b) = n" "sp_receiver (fns_row d n a r b) = None"
  "sp_args (fns_row d n a r b) = a" "sp_ret (fns_row d n a r b) = r" "sp_body (fns_row d n a r b) = b"
  "sp_name (fns_member_row d n rc a r b) = n" "sp_receiver (fns_member_row d n rc a r b) = Some rc"
  "sp_args (fns_member_row d n rc a r b) = a" "sp_ret (fns_member_row d n rc a r b) = r"
  "sp_body (fns_member_row d n rc a r b) = b"
  "ag_ty (new_arg m t) = t" "ag_name (new_arg m t) = m"
  "sp_name (rendered n a r d e) = n" "sp_receiver (rendered n a r d e) = None"
  "sp_args (rendered n a r d e) = a" "sp_ret (rendered n a r d e) = r" "sp_body (rendered n a r d e) = BkRendered e"
  by (simp_all add: fns_row_def fns_member_row_def new_arg_def rendered_def)

lemma format_ident_total: "ok n \<Longrightarrow> format_ident ok n = Some (Ident n)"
  by (simp add: format_ident_def)

lemma arg_rust_total: "list_all ok (arg_names ty) \<Longrightarrow> \<exists>ts. arg_rust ok ty = Some ts"
  by (cases ty) (auto simp: format_ident_total)

lemma shape_rust_total: "list_all ok (shape_names s) \<Longrightarrow> \<exists>ts. shape_rust ok s = Some ts"
  by (cases s) (auto simp: format_ident_total)

lemma ret_rust_total:
  assumes "list_all ok (shape_names (ret_shape_of r))"
  shows "\<exists>ts. ret_rust ok r = Some ts"
proof (cases r)
  case (RkValue s)
  with shape_rust_total [of ok s] assms show ?thesis by (cases s) auto
next
  case (RkFallible s)
  with shape_rust_total [of ok s] assms show ?thesis by auto
qed

lemma fn_tokens_total:
  assumes "list_all ok (fn_idents f)"
  shows "\<exists>ts. fn_tokens ok f = Some ts"
proof -
  have "\<exists>t. arg_decl ok a = Some t" if "a \<in> set (sp_args f)" for a
    using that assms arg_rust_total [of ok "ag_ty a"]
    by (fastforce simp: fn_idents_def list_all_iff arg_decl_def format_ident_total)
  then obtain as where as: "traverse (arg_decl ok) (sp_args f) = Some as"
    by (meson traverse_total)
  obtain rs where rs: "recv_decl ok (sp_receiver f) = Some rs"
    using assms by (cases "sp_receiver f") (auto simp: fn_idents_def recv_decl_def format_ident_total)
  obtain ret where "ret_rust ok (sp_ret f) = Some ret"
    using assms ret_rust_total [of ok "sp_ret f"] by (auto simp: fn_idents_def)
  with as rs assms show ?thesis by (simp add: fn_tokens_def fn_idents_def format_ident_total)
qed

lemma arg_cxx_total: "list_all (extern_exists ex) (arg_lookups ty) \<Longrightarrow> \<exists>c. arg_cxx ex ty n = Some c"
  by (cases ty) (auto simp: arg_cxx_def extern_exists_iff)

lemma shape_cxx_total: "list_all (extern_exists ex) (shape_lookups s) \<Longrightarrow> \<exists>c. shape_cxx ex s = Some c"
  by (cases s) (auto simp: extern_exists_iff vec_elem_cxx_def)

lemma cxx_signature_total:
  assumes "list_all (extern_exists ex) (fn_lookups f)"
  shows "\<exists>sg. cxx_signature ex f = Some sg"
proof -
  have "\<exists>t. arg_cxx ex (ag_ty a) (ag_name a) = Some t" if "a \<in> set (sp_args f)" for a
    using that assms by (intro arg_cxx_total) (fastforce simp: fn_lookups_def list_all_iff)
  then obtain as where as: "traverse (\<lambda>a. arg_cxx ex (ag_ty a) (ag_name a)) (sp_args f) = Some as"
    by (meson traverse_total)
  obtain rc where rc: "recv_cxx ex (sp_receiver f) = Some rc"
    using assms by (cases "sp_receiver f") (auto simp: fn_lookups_def recv_cxx_def extern_exists_iff)
  obtain ret where "ret_cxx ex (sp_ret f) = Some ret"
    using assms shape_cxx_total [of ex "ret_shape_of (sp_ret f)"] by (auto simp: fn_lookups_def ret_cxx_def)
  with as rc show ?thesis by (simp add: cxx_signature_def)
qed

subsection \<open>The domains\<close>

lemmas domain_defs = SEGMENT_DOMAIN_def IMPORT_DOMAIN_def RANGE_DOMAIN_def FUNCTION_DOMAIN_def
  EXPORT_DOMAIN_def META_DOMAIN_def NAME_DOMAIN_def STRINGS_DOMAIN_def CFG_DOMAIN_def
  REFERENCE_DOMAIN_def BYTES_DOMAIN_def INSTRUCTION_DOMAIN_def HEXRAYS_DOMAIN_def TYPE_BUILD_DOMAIN_def
  TY_DOMAIN_def netnode_domain_def

lemma all_externs_domains:
  "all_externs domains = [xt_RangeT, xt_FlowChart, xt_CompiledBinpat, xt_CFunc, xt_TInfo]"
  by (simp add: all_externs_def domains_def domain_defs)

definition known_externs :: "string list" where
  "known_externs = [''RangeT'', ''FlowChart'', ''CompiledBinpat'', ''CFunc'', ''TInfo'']"

lemma extern_exists_domains: "extern_exists (all_externs domains) n \<longleftrightarrow> n \<in> set known_externs"
proof -
  have "map xt_rust_name (all_externs domains) = known_externs"
    by (simp add: all_externs_domains known_externs_def xt_RangeT_def xt_FlowChart_def xt_CompiledBinpat_def
        xt_CFunc_def xt_TInfo_def)
  moreover have "extern_exists ex n \<longleftrightarrow> n \<in> set (map xt_rust_name ex)" for ex
    by (auto simp: extern_exists_def find_extern_def find_None_iff)
  ultimately show ?thesis by metis
qed

lemmas sound_defs = extern_exists_domains known_externs_def own_name_def builtin_cxx_def fn_sound_def fn_ok_def
  fn_idents_def fn_lookups_def ascii_ident_def ident_char_def

lemma segment_fns_sound: "list_all (fn_sound (all_externs domains)) segment_fns"
  by (simp add: segment_fns_def sound_defs)

lemma import_fns_sound: "list_all (fn_sound (all_externs domains)) import_fns"
  by (simp add: import_fns_def sound_defs)

lemma range_fns_sound: "list_all (fn_sound (all_externs domains)) range_fns"
  by (simp add: range_fns_def sound_defs)

lemma function_fns_sound: "list_all (fn_sound (all_externs domains)) function_fns"
  by (simp add: function_fns_def sound_defs)

lemma export_fns_sound: "list_all (fn_sound (all_externs domains)) export_fns"
  by (simp add: export_fns_def sound_defs)

lemma meta_fns_sound: "list_all (fn_sound (all_externs domains)) meta_fns"
  by (simp add: meta_fns_def sound_defs)

lemma name_fns_sound: "list_all (fn_sound (all_externs domains)) name_fns"
  by (simp add: name_fns_def sound_defs)

lemma strings_fns_sound: "list_all (fn_sound (all_externs domains)) strings_fns"
  by (simp add: strings_fns_def sound_defs)

lemma cfg_fns_sound: "list_all (fn_sound (all_externs domains)) cfg_fns"
  by (simp add: cfg_fns_def sound_defs)

lemma reference_fns_sound: "list_all (fn_sound (all_externs domains)) reference_fns"
  by (simp add: reference_fns_def sound_defs)

lemma bytes_fns_sound: "list_all (fn_sound (all_externs domains)) bytes_fns"
  by (simp add: bytes_fns_def sound_defs)

lemma instruction_fns_sound: "list_all (fn_sound (all_externs domains)) instruction_fns"
  by (simp add: instruction_fns_def sound_defs)

lemma hexrays_fns_sound: "list_all (fn_sound (all_externs domains)) hexrays_fns"
  by (simp add: hexrays_fns_def sound_defs)

lemma type_build_fns_1_sound: "list_all (fn_sound (all_externs domains)) type_build_fns_1"
  by (simp add: type_build_fns_1_def sound_defs)

lemma type_build_fns_2_sound: "list_all (fn_sound (all_externs domains)) type_build_fns_2"
  by (simp add: type_build_fns_2_def sound_defs)

lemma ty_fns_sound: "list_all (fn_sound (all_externs domains)) ty_fns"
  by (simp add: ty_fns_def sound_defs)

lemma custom_fns_sound: "list_all (fn_sound (all_externs domains)) CUSTOM_FNS"
  by (simp add: CUSTOM_FNS_def sound_defs)

lemmas family_defs = alt_family_def sup_family_def hash_family_def char_family_def blob_family_def alt_keyed_def
  sup_keyed_def char_keyed_def blob_keyed_def iteration_def shift_fn_def del_all_fn_def DEF_def EA_def IDX8_def

lemma alt_family_sound: "list_all (fn_sound (all_externs domains)) alt_family"
  by (simp add: family_defs sound_defs Let_def)

lemma sup_family_sound: "list_all (fn_sound (all_externs domains)) sup_family"
  by (simp add: family_defs sound_defs Let_def)

lemma hash_family_sound: "list_all (fn_sound (all_externs domains)) hash_family"
  by (simp add: family_defs sound_defs Let_def)

lemma char_family_sound: "list_all (fn_sound (all_externs domains)) char_family"
  by (simp add: family_defs sound_defs Let_def)

lemma blob_family_sound: "list_all (fn_sound (all_externs domains)) blob_family"
  by (simp add: family_defs sound_defs Let_def)

lemmas family_fns_sound = alt_family_sound sup_family_sound hash_family_sound char_family_sound blob_family_sound

lemmas domain_fns_sound = segment_fns_sound import_fns_sound range_fns_sound function_fns_sound export_fns_sound
  meta_fns_sound name_fns_sound strings_fns_sound cfg_fns_sound reference_fns_sound bytes_fns_sound
  instruction_fns_sound hexrays_fns_sound type_build_fns_1_sound type_build_fns_2_sound ty_fns_sound
  custom_fns_sound family_fns_sound

lemma fn_sound_alias [simp]: "fn_sound ex (f\<lparr>sp_alias := a\<rparr>) = fn_sound ex f"
  by (simp add: fn_sound_def fn_ok_def fn_idents_def fn_lookups_def)

lemma list_all_domains:
  "list_all Q domains \<longleftrightarrow> Q SEGMENT_DOMAIN \<and> Q IMPORT_DOMAIN \<and> Q RANGE_DOMAIN \<and> Q FUNCTION_DOMAIN \<and>
     Q EXPORT_DOMAIN \<and> Q META_DOMAIN \<and> Q NAME_DOMAIN \<and> Q STRINGS_DOMAIN \<and> Q CFG_DOMAIN \<and>
     Q REFERENCE_DOMAIN \<and> Q BYTES_DOMAIN \<and> Q INSTRUCTION_DOMAIN \<and> Q HEXRAYS_DOMAIN \<and>
     Q TYPE_BUILD_DOMAIN \<and> Q TY_DOMAIN \<and> Q netnode_domain"
  by (simp add: domains_def)

lemma dm_fns_domains:
  "dm_fns SEGMENT_DOMAIN = segment_fns" "dm_fns IMPORT_DOMAIN = import_fns" "dm_fns RANGE_DOMAIN = range_fns"
  "dm_fns FUNCTION_DOMAIN = function_fns" "dm_fns EXPORT_DOMAIN = export_fns" "dm_fns META_DOMAIN = meta_fns"
  "dm_fns NAME_DOMAIN = name_fns" "dm_fns STRINGS_DOMAIN = strings_fns" "dm_fns CFG_DOMAIN = cfg_fns"
  "dm_fns REFERENCE_DOMAIN = reference_fns" "dm_fns BYTES_DOMAIN = bytes_fns"
  "dm_fns INSTRUCTION_DOMAIN = instruction_fns" "dm_fns HEXRAYS_DOMAIN = hexrays_fns"
  "dm_fns TYPE_BUILD_DOMAIN = type_build_fns_1 @ type_build_fns_2" "dm_fns TY_DOMAIN = ty_fns"
  "dm_fns netnode_domain = map (\<lambda>f. f\<lparr>sp_alias := sdk_alias (sp_name f)\<rparr>) (CUSTOM_FNS @ family_fns)"
  by (simp_all add: domain_defs)

lemma every_fn_sound:
  assumes "f \<in> set (concat (map dm_fns domains))"
  shows "fn_sound (all_externs domains) f"
proof -
  have "list_all (fn_sound (all_externs domains)) (map (\<lambda>f. f\<lparr>sp_alias := sdk_alias (sp_name f)\<rparr>) (CUSTOM_FNS @ family_fns))"
    using custom_fns_sound family_fns_sound by (simp add: family_fns_def list.pred_map comp_def)
  then have "list_all (\<lambda>d. list_all (fn_sound (all_externs domains)) (dm_fns d)) domains"
    unfolding list_all_domains dm_fns_domains list_all_append using domain_fns_sound by blast
  with assms show ?thesis by (auto simp: list_all_iff)
qed

text \<open>
  C18: every function of every domain is generated without a panic and has one prototype: \<open>cxx\<close>, reading
  the Rust declaration, expects of a free function the very declaration that the generator writes into
  the header of the domain, in the name, the order of the parameters, every type and the return type;
  of a function with a receiver it expects a \<open>const\<close> member of the receiver's C++ class, and the header
  declares nothing for it.
\<close>

theorem bindings_agree:
  assumes "\<And>n. ascii_ident n \<Longrightarrow> ok n" and "f \<in> set (concat (map dm_fns domains))"
  shows "\<exists>ts. fn_tokens ok f = Some ts \<and>
    (case sp_receiver f of
       None \<Rightarrow> \<exists>proto. cxx_prototype (all_externs domains) ts = Some (FreeFunction proto) \<and>
         fn_decl_lines (all_externs domains) f = Some (ln (proto @ '';''))
     | Some r \<Rightarrow> \<exists>c member. cxx_name_of (all_externs domains) r = Some c \<and>
         cxx_prototype (all_externs domains) ts = Some (ConstMember (''::'' @ c) member) \<and>
         fn_decl_lines (all_externs domains) f = Some [])"
proof -
  have sound: "fn_sound (all_externs domains) f" by (rule every_fn_sound [OF assms(2)])
  then have "list_all ok (fn_idents f)" using assms(1) by (auto simp: fn_sound_def list_all_iff)
  from fn_tokens_total [OF this] obtain ts where ts: "fn_tokens ok f = Some ts" ..
  from sound have "list_all (extern_exists (all_externs domains)) (fn_lookups f)" by (simp add: fn_sound_def)
  from cxx_signature_total [OF this] obtain sg where sg: "cxx_signature (all_externs domains) f = Some sg" ..
  from sound have "fn_ok (all_externs domains) f" by (simp add: fn_sound_def)
  from ts sg bridge_faces_agree [OF this ts sg] show ?thesis
    by (auto simp: fn_decl_lines_def split: option.splits)
qed

definition chunks_fn :: fn_spec where
  "chunks_fn =
     fns_row ''Every chunk (entry plus tails) of the function at `ea` as one owned `Vec`; `Err` when no function is there.''
       ''range_all_chunks'' [new_arg ''ea'' (AtScalar ScU64)] (RkFallible (RsVec ''RangeT'')) BkCustom"

theorem bindings_agree_witness:
  "\<exists>ts. fn_tokens ascii_ident chunks_fn = Some ts \<and>
     cxx_prototype (all_externs domains) ts =
       Some (FreeFunction ''rust::Vec<::range_t> range_all_chunks(uint64_t ea)'')"
proof -
  have "chunks_fn \<in> set range_fns" by (simp add: range_fns_def chunks_fn_def)
  then have "chunks_fn \<in> set (dm_fns RANGE_DOMAIN)" by (simp add: RANGE_DOMAIN_def)
  then have "chunks_fn \<in> set (concat (map dm_fns domains))" by (auto simp: domains_def)
  moreover have "cxx_signature (all_externs domains) chunks_fn =
      Some ''rust::Vec<::range_t> range_all_chunks(uint64_t ea)''"
    by (simp add: cxx_signature_def chunks_fn_def recv_cxx_def arg_cxx_def ret_cxx_def vec_elem_cxx_def
        cxx_name_of_def extern_exists_def find_extern_def all_externs_domains xt_RangeT_def)
  moreover have "sp_receiver chunks_fn = None" by (simp add: chunks_fn_def)
  ultimately show ?thesis
    using bindings_agree [of ascii_ident chunks_fn] by (auto simp: fn_decl_lines_def ln_def)
qed

subsection \<open>Names\<close>

definition name_hash :: "string \<Rightarrow> nat" where
  "name_hash s = foldl (\<lambda>h c. 3 * h + byte c) 0 s"

lemmas table_defs = segment_fns_def import_fns_def range_fns_def function_fns_def export_fns_def meta_fns_def
  name_fns_def strings_fns_def cfg_fns_def reference_fns_def bytes_fns_def instruction_fns_def
  hexrays_fns_def type_build_fns_1_def type_build_fns_2_def ty_fns_def CUSTOM_FNS_def

lemma concat_domains:
  "concat (map F domains) = F SEGMENT_DOMAIN @ F IMPORT_DOMAIN @ F RANGE_DOMAIN @ F FUNCTION_DOMAIN @
     F EXPORT_DOMAIN @ F META_DOMAIN @ F NAME_DOMAIN @ F STRINGS_DOMAIN @ F CFG_DOMAIN @ F REFERENCE_DOMAIN @
     F BYTES_DOMAIN @ F INSTRUCTION_DOMAIN @ F HEXRAYS_DOMAIN @ F TYPE_BUILD_DOMAIN @ F TY_DOMAIN @
     F netnode_domain"
  by (simp add: domains_def)

lemma binding_hashes: "distinct (map (\<lambda>f. name_hash (sp_name f)) (concat (map dm_fns domains)))"
  by (simp add: concat_domains dm_fns_domains table_defs family_fns_def family_defs Let_def name_hash_def)

text \<open>
  No two functions of the generated bridge have the same name, in whichever domains they are: all of
  them are declared in one C++ namespace and in one Rust module, where a second one would be refused
  or, with other parameters, taken for an overload.
\<close>

theorem binding_names_distinct: "distinct (map sp_name (concat (map dm_fns domains)))"
  using binding_hashes unfolding distinct_map by (auto simp: inj_on_def)

end
