(* ===== verification/Bridge_Consts.thy ===== *)
theory Bridge_Consts
  imports Bridge_Tables Instruction Type_Edit Ctree_Extract Database_Session
begin

text \<open>
  The constants the binding generator emits into both languages: each fits the type it is declared with,
  and those the library reads have the values its model uses.
\<close>

definition bridge_consts :: "const_def list" where
  "bridge_consts = concat (map dm_consts domains) @ FACADE_CONSTS @ HIDDEN_FACADE_CONSTS"

primrec fits :: "scalar \<Rightarrow> int \<Rightarrow> bool" where
  "fits ScBool v \<longleftrightarrow> False"
| "fits ScI32 v \<longleftrightarrow> - 2147483648 \<le> v \<and> v \<le> 2147483647"
| "fits ScI64 v \<longleftrightarrow> - 9223372036854775808 \<le> v \<and> v \<le> 9223372036854775807"
| "fits ScU8 v \<longleftrightarrow> 0 \<le> v \<and> v \<le> 255"
| "fits ScU16 v \<longleftrightarrow> 0 \<le> v \<and> v \<le> 65535"
| "fits ScU32 v \<longleftrightarrow> 0 \<le> v \<and> v \<le> 4294967295"
| "fits ScU64 v \<longleftrightarrow> 0 \<le> v \<and> v \<le> 18446744073709551615"
| "fits ScUsize v \<longleftrightarrow> 0 \<le> v \<and> v \<le> 18446744073709551615"

lemma bridge_consts_list:
  "bridge_consts = instruction_consts @ type_build_consts_1 @ type_build_consts_2 @ FACADE_CONSTS @ HIDDEN_FACADE_CONSTS"
  by (simp add: bridge_consts_def concat_domains domain_defs)

lemmas const_tables = instruction_consts_def type_build_consts_1_def type_build_consts_2_def
  FACADE_CONSTS_def HIDDEN_FACADE_CONSTS_def

definition const_value :: "string \<Rightarrow> int option" where
  "const_value n = map_of (map (\<lambda>c. (cd_name c, cd_value c)) bridge_consts) n"

lemma consts_fit: "list_all (\<lambda>c. fits (cd_ty c) (cd_value c)) bridge_consts"
  by (simp add: bridge_consts_list const_tables)

lemma consts_distinct: "distinct (map cd_name bridge_consts)"
  by (simp add: bridge_consts_list const_tables)

text \<open>The constants the other theories use, by the names the generator gives them.\<close>

definition used_consts :: "(string \<times> int) list" where
  "used_consts =
     [(''OP_REG'', uint OP_REG), (''OP_MEM'', uint OP_MEM), (''OP_IMM'', uint OP_IMM),
      (''OP_NEAR'', uint OP_NEAR), (''OP_FAR'', uint OP_FAR), (''REG_NONE'', uint REG_NONE),
      (''FLOW_CALL'', uint FLOW_CALL), (''FLOW_RET'', uint FLOW_RET), (''FLOW_JUMP'', uint FLOW_JUMP),
      (''FLOW_INDIRECT'', uint FLOW_INDIRECT), (''FLOW_STOPS'', uint FLOW_STOPS),
      (''FPC_NONE'', uint FPC_NONE), (''FPC_ROUNDING'', uint FPC_ROUNDING), (''FPC_SAE'', uint FPC_SAE),
      (''TEDIT_NO_TYPE'', TEDIT_NO_TYPE), (''TEDIT_NO_MEMBER'', TEDIT_NO_MEMBER),
      (''TEDIT_BUILD'', TEDIT_BUILD), (''MEMBER_APPEND'', uint MEMBER_APPEND),
      (''RECIPE_VOID'', uint RECIPE_VOID), (''RECIPE_BOOL'', uint RECIPE_BOOL), (''RECIPE_INT'', uint RECIPE_INT),
      (''RECIPE_FLOAT'', uint RECIPE_FLOAT), (''RECIPE_NAMED'', uint RECIPE_NAMED),
      (''RECIPE_DECL'', uint RECIPE_DECL), (''RECIPE_PTR'', uint RECIPE_PTR), (''RECIPE_ARRAY'', uint RECIPE_ARRAY),
      (''RECIPE_CONST'', uint RECIPE_CONST), (''RECIPE_VOLATILE'', uint RECIPE_VOLATILE),
      (''RECIPE_FUNCTION'', uint RECIPE_FUNCTION), (''RECIPE_BITFIELD'', uint RECIPE_BITFIELD),
      (''NONE'', uint NONE), (''EXIT_TRAPPED'', sint EXIT_TRAPPED)]"

lemmas used_const_defs = OP_REG_def OP_MEM_def OP_IMM_def OP_NEAR_def OP_FAR_def REG_NONE_def FLOW_CALL_def
  FLOW_RET_def FLOW_JUMP_def FLOW_INDIRECT_def FLOW_STOPS_def FPC_NONE_def FPC_ROUNDING_def FPC_SAE_def
  MEMBER_APPEND_def NONE_def EXIT_TRAPPED_def

lemma consts_used: "map (const_value \<circ> fst) used_consts = map (Some \<circ> snd) used_consts"
  unfolding used_consts_def used_const_defs const_value_def bridge_consts_list const_tables
  by (simp add: unsigned_minus_1_eq_mask mask_eq_exp_minus_1)

text \<open>
  The constants shared with the facade: every one fits the type it is declared with in both
  languages, no two have one name, and those the library decodes kernel records, recipes, edit codes,
  handles and traps by have the values its model uses.
\<close>

theorem shared_constants_fit:
  "list_all (\<lambda>c. fits (cd_ty c) (cd_value c)) bridge_consts \<and> distinct (map cd_name bridge_consts) \<and>
   map (const_value \<circ> fst) used_consts = map (Some \<circ> snd) used_consts"
  using consts_fit consts_distinct consts_used by blast

end
