(* ===== verification/Spec2Isabelle.thy ===== *)
theory Spec2Isabelle
  imports Flow_Chart Item_Walk Location_Edit Netnode Catalog Ctree_Decompile Type_Edit Runner_Scheduler Search Kernel_Claim Database_Session
    Kernel_Actor Stack_Frame Database_View Main_Locator Diff_Text Named_Types Ctree_Build Bridge_Consts
begin

text \<open>
  A model of idakit, a Rust library (\<open>src/crates/idakit\<close>) that drives a disassembler's kernel through
  a C++ facade (\<open>src/crates/idakit-sys\<close>), and of the process-isolated test runner beside it
  (\<open>src/crates/idakit-runner\<close>).

  \<^bold>\<open>How the program is put together.\<close>  One process owns at most one kernel. A session brings it up
  (\<open>kernel.rs\<close>), gets a \<open>Database\<close> handle (\<open>lib.rs\<close>) and asks it questions; each answer is a call into
  the facade. Simple answers are numbers and strings. Graph-shaped answers (a type, a decompiled
  function, a flow chart) are streamed by the facade as callbacks into a builder, which
  materialises them in an \<open>Arena\<close> as plain values with no pointer into the kernel. What is then
  done with these values (canonical forms and their diff, catalogs, queries, pseudocode) is pure.
  Edits go the other way: a recipe of a type is written to a flat wire form the facade interprets,
  and the facade's return code is decoded into an error.

  \<^bold>\<open>Which theory models which file.\<close>
  \<^item> \<open>Prelude\<close>: machine integers of the source, a panic as \<open>None\<close>, the collections of rules, generic
    lemmas. \<open>Text\<close>: what the standard library does with a \<open>str\<close> (UTF-8, \<open>chars\<close>, \<open>trim\<close>).
  \<^item> \<open>Address\<close> (\<open>address.rs\<close>), \<open>Arena\<close> (\<open>arena.rs\<close>): the leaves everything is built on.
  \<^item> \<open>Types\<close> (\<open>types/mod.rs\<close>, \<open>types/repr.rs\<close>) is the table of a resolved type; \<open>Type_Builder\<close>
    (\<open>types/builder.rs\<close>, \<open>sink.rs\<close>, \<open>resolved.rs\<close>) the callbacks that fill it, with the verdict.
  \<^item> \<open>Canonical\<close> (\<open>types/diff/canonical/model.rs\<close>) the table-free form of a type, \<open>Canonical_Diff\<close>
    (\<open>engine.rs\<close>) the difference of two, \<open>Catalog\<close> (\<open>types/diff/catalog.rs\<close>) snapshots of a database.
  \<^item> \<open>Ctree_Ops\<close>, \<open>Ctree\<close>, \<open>Ctree_Extract\<close>, \<open>Ctree_Query\<close>, \<open>Ctree_Render\<close> (\<open>decompiler/ctree/*.rs\<close>): the
    operators, the nodes and their parent links, the walk that extracts them, the queries and the
    printer; \<open>Ctree_Decompile\<close> composes extraction with printing as \<open>decompile\<close> does.
  \<^item> \<open>Type_Expr\<close> (\<open>types/expr.rs\<close>, calling conventions of \<open>function/signature.rs\<close>) is the recipe of a
    type and its wire form; \<open>Type_Edit\<close> (\<open>types/edit.rs\<close>) the write cursors.
  \<^item> \<open>Search\<close> (\<open>search.rs\<close>, \<open>meta.rs\<close>): patterns and the iterator over their matches.
  \<^item> \<open>Kernel_Claim\<close>, \<open>Kernel_Actor\<close> (\<open>kernel.rs\<close>, \<open>claim.rs\<close>): who may own the kernel, and the thread
    that serves calls for it; \<open>Database_Session\<close> (\<open>lib.rs\<close>, \<open>decompiler/mod.rs\<close>): what a handle does
    to the kernel from open to close.
  \<^item> \<open>Runner_Protocol\<close> (\<open>protocol.rs\<close>, \<open>worker.rs\<close>) and \<open>Runner_Scheduler\<close> (\<open>runner.rs\<close>): the messages
    between the runner and a worker process, and the pool that hands cases out.
  \<^item> \<open>Flow_Chart\<close> (\<open>flowchart.rs\<close>): the copy of the kernel's control-flow graph. \<open>Instruction\<close>
    (\<open>instruction/decode.rs\<close>, \<open>register.rs\<close>, \<open>data_type.rs\<close>, \<open>evex.rs\<close>): the lift of a decoded
    instruction; \<open>Item_Walk\<close> (\<open>bytes.rs\<close>, \<open>instruction/iter.rs\<close>): the walks over instructions.
    \<open>Iterator\<close> is the contract of an iterator, which the walks are interpretations of.
  \<^item> \<open>Location_Edit\<close> (\<open>location.rs\<close>, \<open>FunctionEdit\<close>, \<open>function/signature.rs\<close>): the write cursors and
    what they evict. \<open>Netnode\<close> (\<open>netnode/*.rs\<close>): the persistent store and its typed values.
  \<^item> \<open>Stack_Frame\<close> (\<open>stack.rs\<close>): the snapshot of a stack frame, built by the callbacks of
    \<open>Type_Builder\<close>. \<open>Listing\<close> (\<open>function.rs\<close>, \<open>segment.rs\<close>, \<open>name.rs\<close>, \<open>strings.rs\<close>, \<open>import.rs\<close>,
    \<open>export.rs\<close>, \<open>xref.rs\<close>): the iterators over a database, interpretations of \<open>skipping_iterator\<close> and
    \<open>exact_size_iterator\<close>, which both extend the contract of \<open>Iterator\<close>. \<open>Database_View\<close>: the views
    of functions and segments and the typed reads.
  \<^item> \<open>Main_Locator\<close> (\<open>claim.rs\<close>): the decoders of machine code that find the kernel's main-thread
    variable, compared with encoders of the instructions. Pointer arithmetic wraps, as it does in the
    source but for one addition of \<open>i64\<close>, which overflows only on pages next to the middle of the
    address space.
  \<^item> \<open>Canonical_Text\<close> and \<open>Diff_Text\<close>: the renderings of a canonical type and of a diff. A reader of
    the key form is the reference the former is proved against.
  \<^item> \<open>Named_Types\<close> (\<open>types/named.rs\<close>, \<open>tinfo.rs\<close>, \<open>resolved.rs\<close>): the iterator over the named ordinals, the
    walks into an owned type and the live handles. \<open>Ctree_Build\<close> (\<open>decompiler/ctree/tree.rs\<close>): the
    constructors of the tree builder and the queries of a finished tree; a tree built linearly, every
    node used once, passes the assertions of \<open>finish\<close>.
  \<^item> The binding generator (\<open>src/crates/idakit-sys-codegen\<close>): \<open>Bridge_Spec\<close> (\<open>model.rs\<close>, \<open>dsl.rs\<close>, the types of
    \<open>emit.rs\<close>), \<open>Bridge_Emit\<close> (the emitters), \<open>Bridge_Netnode\<close> (the matrix of \<open>domains/netnode.rs\<close>) and
    \<open>Bridge_Domains\<close> (the tables of every other domain and of the visitor bridge, transcribed).
    \<open>Bridge_Faces\<close> reads a Rust declaration the way \<open>cxx\<close> does and finds the C++ signature the generator
    wrote; \<open>Bridge_Tables\<close> shows that the tables meet its conditions, so that no binding makes the
    generator panic or has two prototypes, and that names are distinct; \<open>Bridge_Consts\<close> ties the emitted constants to the ones the other
    theories use. Which texts are identifiers is a parameter.

  \<^bold>\<open>Reading the definitions.\<close>  A function that may panic returns an option, \<open>None\<close> being the panic; one
  that returns a \<open>Result\<close> returns a sum, \<open>Inl\<close> being the error; a builder is a record that each
  callback returns updated. Integers that can wrap are words of the source's width. What is not in
  the repository's Rust (the kernel, the C++ facade where it only forwards, hashing, the printing
  of floats) is an argument of the definitions, and what is relied on is a hypothesis or a law of a
  locale that is interpreted on the model's own definitions in the theory of the provider.
  Concurrency (claiming the kernel, the kernel thread, the pool of workers) is an inductive step
  relation whose steps are the atomic operations and critical sections of the source.

  \<^bold>\<open>What the lemmas show.\<close>  Of each component: the invariant that its operations keep (tables and trees
  are closed, every link is a parent, the world of sessions has one owner); what each operation
  returns on each branch, errors included; then the contract. The table's dedup cache never changes
  the table's meaning and finite builds give closed tables; canonical forms are portable between
  tables that spell the same type; the diff is empty exactly for equal types and does not depend on
  order; the extractor returns a tree whose parent links are right and reports the first failure;
  what the printer writes for an expression is a phrase of the grammar of C that derives its tree; the
  interpreter of a recipe's wire form builds the type the recipe denotes, by a meaning given apart from
  both; a query resolves exactly the places that are rooted at a variable; the calls of a session
  respect the kernel's protocol; only a type handle can call the kernel off its main thread; every
  case given to the pool is reported once whatever workers die.

  \<^bold>\<open>Fuel and bounds.\<close>  \<open>canon\<close> recurses through a table that may be cyclic and takes fuel; \<open>canon_terminates\<close>
  proves that (nodes + 1) * (rank + 2) is enough where edges outside structs and unions are
  ranked, and \<open>typedef_cycle_diverges\<close> that without the rank no fuel is. The printer's fuel is
  bounded by the depth of the tree, the walk of parents by the number of nodes (a link goes to a
  later node), the descendants iterator by the size of the subtree, and the collection of matches
  by the number of addresses plus one; each bound is a lemma that the result is \<open>Some\<close>.
  Arena handles are 32 bits and the checked conversion that panics past them is modelled.

  \<^bold>\<open>Not modelled.\<close>  Forwarders that only call the facade and wrap its answer (most of \<open>function.rs\<close>,
  names, imports, exports, bytes), \<open>Debug\<close> and derived trait implementations, the text of the
  generated helper header and the writing of the generated files, the procedural
  macros, build scripts and the test harness. Their reasons are with the components of the
  manifest.
\<close>

section \<open>Across the components\<close>

text \<open>
  C27: a type the facade streamed under its contract canonicalizes: where the edges outside structs
  and unions are acyclic, the walk of the resolved table returns, and what it returns is fully
  spelled.
\<close>

theorem resolved_type_canonicalizes:
  assumes "ops_ok ops builder_new" and "walk_type ops root = Some (Inr (Some r))"
    and "ranked (rt_types r) rk R" and "unat tid < table_len (rt_types r)"
    and "(table_len (rt_types r) + 1) * (R + 2) \<le> fuel"
  shows "\<exists>c. canonicalize fuel (rt_types r) tid opts = Some c \<and> root_form c"
proof -
  have "closed_table (rt_types r)"
  proof (rule closed_tableI)
    show "table_len (rt_types r) \<le> 2 ^ 32" by (rule walk_type_len [OF assms(2)])
    fix i v c assume v: "table_get (rt_types r) i = Some v" "c \<in> set (shape_children (tv_shape v))"
    from walk_closed [OF assms(1,2) v(1)] v(2) show "table_get (rt_types r) c \<noteq> None" by blast
  qed
  from canon_returns [OF this assms(3,4,5)] canon_form show ?thesis by blast
qed

theorem resolved_type_canonicalizes_witness:
  "\<exists>r c. walk_type node_run (Some 0) = Some (Inr (Some r)) \<and>
     canonicalize 9 (rt_types r) 0 strict = Some c \<and> root_form c"
proof -
  obtain r where r: "walk_type node_run (Some 0) = Some (Inr (Some r))" "table_len (rt_types r) = 2"
    "ranked (rt_types r) (\<lambda>n. n) 1"
    by (simp add: node_run_def walk_type_def builder_eval ranked_def enumerate_eq_zip)
  have ok: "ops_ok node_run builder_new" by (simp add: node_run_def builder_eval)
  from resolved_type_canonicalizes [OF ok r(1) r(3), of 0 9 strict] r show ?thesis by auto
qed

text \<open>
  The walk does not always return: a typedef of a pointer to itself is a table the facade's
  contract allows, and no depth of recursion suffices for it.
\<close>

lemma canon_typedef_cycle:
  assumes "table_get t 0 = Some \<lparr>tv_shape = TTypedef n 1, tv_size = sz\<rparr>"
    and "table_get t 1 = Some \<lparr>tv_shape = TPtr 0, tv_size = sz'\<rparr>"
  shows "canon fuel t opts stk sp 0 = None \<and> canon fuel t opts stk sp 1 = None"
  using assms by (induction fuel arbitrary: sp) auto

theorem typedef_cycle_diverges:
  "\<exists>r. ops_ok [SNamedRef ''T'', SPtr 0 8 1, SFillTypedef 0 1] builder_new \<and>
     walk_type [SNamedRef ''T'', SPtr 0 8 1, SFillTypedef 0 1] (Some 0) = Some (Inr (Some r)) \<and>
     (\<forall>fuel. canonicalize fuel (rt_types r) (rt_root r) strict = None)"
proof -
  let ?ops = "[SNamedRef ''T'', SPtr 0 8 1, SFillTypedef 0 1]"
  obtain r where r: "walk_type ?ops (Some 0) = Some (Inr (Some r))" "rt_root r = 0"
    "table_get (rt_types r) 0 = Some \<lparr>tv_shape = TTypedef ''T'' 1, tv_size = Some 8\<rparr>"
    "table_get (rt_types r) 1 = Some \<lparr>tv_shape = TPtr 0, tv_size = Some 8\<rparr>"
    by (simp add: walk_type_def builder_eval)
  have "ops_ok ?ops builder_new" by (simp add: builder_eval)
  moreover have "canonicalize fuel (rt_types r) 0 strict = None" for fuel
    unfolding canonicalize_def using canon_typedef_cycle [OF r(3,4)] by blast
  ultimately show ?thesis using r by auto
qed

end
